(* ===== verification/Mirror_Prelude.thy ===== *)
theory Mirror_Prelude
  imports Main "HOL-Library.Char_ord" "HOL-Library.List_Lexorder"
begin

text \<open>
  Shared vocabulary of the development.

  \<^item> Results: the client library reports failure with \<^verbatim>\<open>std::expected<T, E>\<close>; the model
    uses the sum type, \<open>Inl\<close> for the error branch, and \<open>rbind\<close> for the early return
    \<^verbatim>\<open>if (!r) return unexpected(r.error());\<close>.
  \<^item> Ordered maps: \<^verbatim>\<open>std::map<std::string, V>\<close> and the object type of the JSON library keep
    their entries sorted by key and iterate in that order. They are association lists
    with strictly increasing keys (\<open>om_wf\<close>); \<open>om_put\<close> is \<^verbatim>\<open>m[k] = v\<close> and
    \<open>om_build\<close> fills an empty map in iteration order. Lookup is \<open>map_of\<close>.
  \<^item> Strings are byte strings (\<open>char\<close> is a byte), as \<^verbatim>\<open>std::string\<close> is; \<open>length\<close> is the
    byte count, and the order on strings is the bytewise lexicographic order.
\<close>

section \<open>Lemma collections\<close>

named_theorems omap_simps \<open>equations on ordered maps\<close>
named_theorems result_splits \<open>inversion of results\<close>

section \<open>Results and early return\<close>

definition rbind :: "'e + 'a \<Rightarrow> ('a \<Rightarrow> 'e + 'b) \<Rightarrow> 'e + 'b" where
  "rbind r f = (case r of Inl e \<Rightarrow> Inl e | Inr x \<Rightarrow> f x)"

lemma rbind_simps [simp]:
  "rbind (Inl e) f = Inl e"
  "rbind (Inr x) f = f x"
  by (simp_all add: rbind_def)

lemma rbind_cong [fundef_cong]:
  "r = s \<Longrightarrow> (\<And>x. s = Inr x \<Longrightarrow> f x = g x) \<Longrightarrow> rbind r f = rbind s g"
  by (simp add: rbind_def split: sum.splits)

lemma rbind_eq_Inr [result_splits]:
  "rbind r f = Inr y \<longleftrightarrow> (\<exists>x. r = Inr x \<and> f x = Inr y)"
  by (cases r) auto

lemma rbind_eq_Inl [result_splits]:
  "rbind r f = Inl e \<longleftrightarrow> r = Inl e \<or> (\<exists>x. r = Inr x \<and> f x = Inl e)"
  by (cases r) auto

text \<open>A loop over a range that stops at the first error, collecting the results.\<close>

fun rmapM :: "('a \<Rightarrow> 'e + 'b) \<Rightarrow> 'a list \<Rightarrow> 'e + 'b list" where
  "rmapM f [] = Inr []"
| "rmapM f (x # xs) = rbind (f x) (\<lambda>y. rbind (rmapM f xs) (\<lambda>ys. Inr (y # ys)))"

lemma rmapM_cong [fundef_cong]:
  "xs = ys \<Longrightarrow> (\<And>x. x \<in> set ys \<Longrightarrow> f x = g x) \<Longrightarrow> rmapM f xs = rmapM g ys"
proof (induction xs arbitrary: ys)
  case (Cons x xs)
  then have "f x = g x" and "rmapM f xs = rmapM g xs"
    by auto
  with Cons.prems(1) show ?case by auto
qed simp

lemma rmapM_Inr_conv: "rmapM f xs = Inr ys \<longleftrightarrow> list_all2 (\<lambda>x y. f x = Inr y) xs ys"
  by (induction xs arbitrary: ys) (auto simp: result_splits list_all2_Cons1)

lemma rmapM_inverse:
  "(\<And>x. x \<in> set xs \<Longrightarrow> f (g x) = Inr x) \<Longrightarrow> rmapM f (map g xs) = Inr xs"
  by (induction xs) auto

lemma rmapM_Inl_conv: "rmapM f xs = Inl e \<Longrightarrow> \<exists>x \<in> set xs. f x = Inl e"
  by (induction xs) (auto simp: result_splits)

lemma rmapM_pres:
  "rmapM f xs = Inr ys \<Longrightarrow> (\<And>x y. x \<in> set xs \<Longrightarrow> f x = Inr y \<Longrightarrow> P y) \<Longrightarrow> list_all P ys"
  by (induction xs arbitrary: ys) (fastforce simp: result_splits)+

text \<open>A loop that threads a state and stops at the first error.\<close>

fun rfoldM :: "('a \<Rightarrow> 's \<Rightarrow> 'e + 's) \<Rightarrow> 'a list \<Rightarrow> 's \<Rightarrow> 'e + 's" where
  "rfoldM f [] s = Inr s"
| "rfoldM f (x # xs) s = rbind (f x s) (rfoldM f xs)"

lemma rfoldM_cong [fundef_cong]:
  "xs = ys \<Longrightarrow> s = t \<Longrightarrow> (\<And>x u. x \<in> set ys \<Longrightarrow> f x u = g x u) \<Longrightarrow> rfoldM f xs s = rfoldM g ys t"
proof (induction xs arbitrary: ys s t)
  case (Cons x xs)
  then have "f x s = g x s" and "\<And>u. rfoldM f xs u = rfoldM g xs u" by auto
  with Cons.prems(1,2) show ?case by (auto simp: rbind_def split: sum.split)
qed simp

text \<open>
  Weakest preconditions of a result: \<open>wp r Q E\<close> says that a returned value satisfies \<open>Q\<close> and a
  raised error satisfies \<open>E\<close>. The rules in \<open>wp_rules\<close> walk through a decoder.
\<close>

named_theorems wp_rules \<open>weakest preconditions of results\<close>

definition wp :: "'e + 'a \<Rightarrow> ('a \<Rightarrow> bool) \<Rightarrow> ('e \<Rightarrow> bool) \<Rightarrow> bool" where
  "wp r Q E = (case r of Inl e \<Rightarrow> E e | Inr x \<Rightarrow> Q x)"

lemma wp_simps [simp]: "wp (Inl e) Q E = E e" "wp (Inr x) Q E = Q x"
  by (simp_all add: wp_def)

lemma wp_rbind [simp]: "wp (rbind r f) Q E = wp r (\<lambda>x. wp (f x) Q E) E"
  by (cases r) auto

lemma wp_mono: "wp r P E \<Longrightarrow> (\<And>x. P x \<Longrightarrow> Q x) \<Longrightarrow> wp r Q E"
  by (cases r) auto

lemma wpI: "(\<And>x. r = Inr x \<Longrightarrow> Q x) \<Longrightarrow> (\<And>e. r = Inl e \<Longrightarrow> E e) \<Longrightarrow> wp r Q E"
  by (cases r) auto

lemma wp_Inr: "wp r Q E \<Longrightarrow> r = Inr x \<Longrightarrow> Q x"
  by simp

lemma wp_Inl: "wp r Q E \<Longrightarrow> r = Inl e \<Longrightarrow> E e"
  by simp

lemma wp_rmapM: "(\<And>x. x \<in> set xs \<Longrightarrow> wp (f x) Q E) \<Longrightarrow> wp (rmapM f xs) (list_all Q) E"
proof (induction xs)
  case (Cons x xs)
  have "wp (f x) Q E" "wp (rmapM f xs) (list_all Q) E" using Cons by auto
  then show ?case by (cases "f x"; cases "rmapM f xs") auto
qed simp

section \<open>Pointwise relations on lists\<close>

lemma list_all2_trans_on:
  "list_all2 P xs ys \<Longrightarrow> list_all2 Q ys zs \<Longrightarrow>
    (\<And>x y z. x \<in> set xs \<Longrightarrow> P x y \<Longrightarrow> Q y z \<Longrightarrow> R x z) \<Longrightarrow> list_all2 R xs zs"
proof (induction xs ys arbitrary: zs rule: list_all2_induct)
  case (Cons x xs y ys)
  from Cons.prems(1) obtain z zs' where z: "zs = z # zs'" "Q y z" "list_all2 Q ys zs'"
    by (auto simp: list_all2_Cons1)
  have "R x z" using Cons.prems(2) Cons.hyps z by simp
  moreover have "list_all2 R xs zs'" using Cons.IH [OF z(3)] Cons.prems(2) by simp
  ultimately show ?case using z by simp
qed simp

lemma list_all2_sym_on:
  "list_all2 P xs ys \<Longrightarrow> (\<And>x y. x \<in> set xs \<Longrightarrow> P x y \<Longrightarrow> Q y x) \<Longrightarrow> list_all2 Q ys xs"
  by (induction xs ys rule: list_all2_induct) auto

section \<open>Ordered maps\<close>

type_synonym 'v smap = "(string \<times> 'v) list"

definition om_wf :: "'v smap \<Rightarrow> bool" where
  "om_wf m = sorted_wrt (<) (map fst m)"

fun om_put :: "string \<Rightarrow> 'v \<Rightarrow> 'v smap \<Rightarrow> 'v smap" where
  "om_put k v [] = [(k, v)]"
| "om_put k v ((k', v') # m) =
     (if k < k' then (k, v) # (k', v') # m
      else if k = k' then (k, v) # m
      else (k', v') # om_put k v m)"

definition om_build :: "(string \<times> 'v) list \<Rightarrow> 'v smap" where
  "om_build kvs = foldl (\<lambda>m kv. om_put (fst kv) (snd kv) m) [] kvs"

lemma om_wf_Nil [simp, omap_simps]: "om_wf []"
  by (simp add: om_wf_def)

lemma om_wf_Cons [omap_simps]:
  "om_wf ((k, v) # m) \<longleftrightarrow> (\<forall>k' \<in> fst ` set m. k < k') \<and> om_wf m"
  by (auto simp: om_wf_def)

lemma map_of_om_put [simp, omap_simps]: "map_of (om_put k v m) = (map_of m)(k \<mapsto> v)"
  by (induction k v m rule: om_put.induct) (auto simp: fun_eq_iff)

lemma fst_set_om_put [simp, omap_simps]: "fst ` set (om_put k v m) = insert k (fst ` set m)"
  by (induction k v m rule: om_put.induct) auto

lemma om_wf_om_put [simp, intro]: "om_wf m \<Longrightarrow> om_wf (om_put k v m)"
  by (induction k v m rule: om_put.induct) (auto simp: om_wf_Cons)

text \<open>Appending a key beyond the last one: filling a map in increasing key order.\<close>

lemma om_put_beyond: "\<forall>k' \<in> fst ` set m. k' < k \<Longrightarrow> om_put k v m = m @ [(k, v)]"
proof (induction m)
  case (Cons kv m)
  obtain k0 v0 where kv: "kv = (k0, v0)" by (cases kv)
  from Cons.prems kv have "k0 < k" by simp
  then have "\<not> k < k0" and "k \<noteq> k0" by auto
  with Cons kv show ?case by simp
qed simp

lemma om_build_append_sorted:
  "om_wf (acc @ kvs) \<Longrightarrow> foldl (\<lambda>m kv. om_put (fst kv) (snd kv) m) acc kvs = acc @ kvs"
proof (induction kvs arbitrary: acc)
  case (Cons kv kvs)
  obtain k v where kv: "kv = (k, v)" by (cases kv)
  have "\<forall>k' \<in> fst ` set acc. k' < k"
    using Cons.prems kv by (auto simp: om_wf_def sorted_wrt_append)
  then have "om_put k v acc = acc @ [(k, v)]" by (rule om_put_beyond)
  with Cons.IH [of "acc @ [(k, v)]"] Cons.prems kv show ?case by simp
qed simp

lemma om_build_sorted [simp]: "om_wf kvs \<Longrightarrow> om_build kvs = kvs"
  using om_build_append_sorted [of "[]" kvs] by (simp add: om_build_def)

lemma om_wf_om_build_aux:
  "om_wf acc \<Longrightarrow> om_wf (foldl (\<lambda>m kv. om_put (fst kv) (snd kv) m) acc kvs)"
  by (induction kvs arbitrary: acc) auto

lemma om_wf_om_build [simp, intro]: "om_wf (om_build kvs)"
  by (simp add: om_build_def om_wf_om_build_aux)

lemma map_of_om_build_aux:
  "map_of (foldl (\<lambda>m kv. om_put (fst kv) (snd kv) m) acc kvs) = map_of acc ++ map_of (rev kvs)"
proof (induction kvs arbitrary: acc)
  case (Cons kv kvs)
  obtain k v where kv: "kv = (k, v)" by (cases kv)
  have "map_of (om_put k v acc) ++ map_of (rev kvs) = map_of acc ++ map_of (rev kvs @ [(k, v)])"
    by (rule ext) (simp add: map_add_def split: option.split)
  with Cons.IH [of "om_put k v acc"] kv show ?case by (simp del: map_of_om_put)
qed simp

lemma map_of_om_build: "map_of (om_build kvs) = map_of (rev kvs)"
  by (simp add: om_build_def map_of_om_build_aux)

lemma om_wf_distinct: "om_wf m \<Longrightarrow> distinct (map fst m)"
  by (induction m) (auto simp: om_wf_def)

lemma om_wf_map_values [simp]:
  "om_wf (map (\<lambda>kv. (fst kv, f (snd kv))) m) \<longleftrightarrow> om_wf m"
  by (simp add: om_wf_def comp_def)

text \<open>Two well-formed maps with the same entries are equal: the order is canonical.\<close>

lemma om_wf_Cons_lookup_smaller:
  "om_wf m \<Longrightarrow> \<forall>k' \<in> fst ` set m. k < k' \<Longrightarrow> map_of m k = None"
  by (auto simp: map_of_eq_None_iff)

lemma om_ext: "om_wf m \<Longrightarrow> om_wf n \<Longrightarrow> map_of m = map_of n \<Longrightarrow> m = n"
proof (induction m arbitrary: n)
  case Nil
  then show ?case by (cases n) (auto simp: fun_eq_iff split: if_splits)
next
  case (Cons a m)
  obtain k v where a: "a = (k, v)" by (cases a)
  from Cons.prems(3) a have "n \<noteq> []" by (auto simp: fun_eq_iff split: if_splits)
  then obtain k' v' n' where n: "n = (k', v') # n'" by (cases n) auto
  have wf: "om_wf m" "om_wf n'" "\<forall>x \<in> fst ` set m. k < x" "\<forall>x \<in> fst ` set n'. k' < x"
    using Cons.prems a n by (simp_all add: om_wf_Cons)
  have keq: "k = k'"
  proof (rule ccontr)
    assume ne: "k \<noteq> k'"
    have "k \<in> fst ` set n'" using Cons.prems(3) a n ne
      by (metis fun_upd_apply map_of.simps(2) map_of_eq_None_iff option.distinct(1) fst_conv)
    moreover have "k' \<in> fst ` set m" using Cons.prems(3) a n ne
      by (metis fun_upd_apply map_of.simps(2) map_of_eq_None_iff option.distinct(1) fst_conv)
    ultimately show False using wf by (meson order_less_asym)
  qed
  have veq: "v = v'" using fun_cong [OF Cons.prems(3), of k] a n keq by simp
  have "map_of m = map_of n'"
  proof
    fix x
    show "map_of m x = map_of n' x"
      using fun_cong [OF Cons.prems(3), of x] a n keq wf
      by (cases "x = k") (auto simp: om_wf_Cons_lookup_smaller)
  qed
  with Cons.IH wf keq veq a n show ?case by simp
qed

end
