(* ===== verification/Text_Model.thy ===== *)
theory Text_Model
  imports Mirror_Prelude
begin

text \<open>
  What the sources use of the C and C++ text functions: the \<^verbatim>\<open><cctype>\<close> classifiers in the
  \<^verbatim>\<open>"C"\<close> locale, \<^verbatim>\<open>std::to_string\<close>, substring search and the two trimming loops that
  \<^verbatim>\<open>registry.cpp\<close> and \<^verbatim>\<open>detail/http.cpp\<close> each carry.
\<close>

section \<open>Character classes\<close>

definition byte_of :: "char \<Rightarrow> nat" where
  "byte_of c = of_char c"

definition is_digit :: "char \<Rightarrow> bool" where
  "is_digit c = (48 \<le> byte_of c \<and> byte_of c \<le> 57)"

definition is_lower :: "char \<Rightarrow> bool" where
  "is_lower c = (97 \<le> byte_of c \<and> byte_of c \<le> 122)"

definition is_upper :: "char \<Rightarrow> bool" where
  "is_upper c = (65 \<le> byte_of c \<and> byte_of c \<le> 90)"

definition is_alpha :: "char \<Rightarrow> bool" where
  "is_alpha c = (is_lower c \<or> is_upper c)"

definition is_alnum :: "char \<Rightarrow> bool" where
  "is_alnum c = (is_alpha c \<or> is_digit c)"

text \<open>\<^verbatim>\<open>std::isspace\<close>: space and the five control characters 9 to 13.\<close>

definition is_space :: "char \<Rightarrow> bool" where
  "is_space c = (byte_of c = 32 \<or> (9 \<le> byte_of c \<and> byte_of c \<le> 13))"

definition to_lower_char :: "char \<Rightarrow> char" where
  "to_lower_char c = (if is_upper c then char_of (byte_of c + 32) else c)"

definition is_lower_hex :: "char \<Rightarrow> bool" where
  "is_lower_hex c = (is_digit c \<or> (97 \<le> byte_of c \<and> byte_of c \<le> 102))"

abbreviation newline :: char where
  "newline \<equiv> CHR 0x0A"

abbreviation quote :: char where
  "quote \<equiv> CHR 0x22"

lemmas char_class_defs = is_digit_def is_lower_def is_upper_def is_alpha_def is_alnum_def
  is_space_def is_lower_hex_def byte_of_def

lemma byte_of_less [simp]: "byte_of c < 256"
  by (simp add: byte_of_def)

lemma byte_of_to_lower: "byte_of (to_lower_char c) = (if is_upper c then byte_of c + 32 else byte_of c)"
proof (cases "is_upper c")
  case True
  then have "byte_of c + 32 < 256" by (simp add: is_upper_def)
  with True show ?thesis by (simp add: to_lower_char_def byte_of_def)
qed (simp add: to_lower_char_def)

lemma to_lower_char_not_upper [simp]: "\<not> is_upper (to_lower_char c)"
  by (auto simp: is_upper_def byte_of_to_lower split: if_splits)

lemma to_lower_char_idem [simp]: "to_lower_char (to_lower_char c) = to_lower_char c"
  by (simp add: to_lower_char_def [of "to_lower_char c"])

lemma lower_hex_not_space: "is_lower_hex c \<Longrightarrow> \<not> is_space c"
  by (auto simp: char_class_defs)

lemma to_lower_char_lower_hex [simp]: "is_lower_hex c \<Longrightarrow> to_lower_char c = c"
  by (auto simp: to_lower_char_def char_class_defs)

section \<open>Decimal numbers\<close>

definition digit_char :: "nat \<Rightarrow> char" where
  "digit_char d = char_of (48 + d)"

definition digit_val :: "char \<Rightarrow> nat" where
  "digit_val c = byte_of c - 48"

fun nat_to_string :: "nat \<Rightarrow> string" where
  "nat_to_string n = (if n < 10 then [digit_char n] else nat_to_string (n div 10) @ [digit_char (n mod 10)])"

declare nat_to_string.simps [simp del]

text \<open>\<^verbatim>\<open>std::to_string\<close> on a signed integer.\<close>

definition int_to_string :: "int \<Rightarrow> string" where
  "int_to_string i = (if i < 0 then ''-'' @ nat_to_string (nat (- i)) else nat_to_string (nat i))"

definition decimal_val :: "string \<Rightarrow> nat" where
  "decimal_val s = foldl (\<lambda>a c. 10 * a + digit_val c) 0 s"

lemma digit_char_is_digit [simp]: "d < 10 \<Longrightarrow> is_digit (digit_char d)"
  by (simp add: is_digit_def digit_char_def byte_of_def)

lemma digit_val_digit_char [simp]: "d < 10 \<Longrightarrow> digit_val (digit_char d) = d"
  by (simp add: digit_val_def digit_char_def byte_of_def)

lemma nat_to_string_digits: "list_all is_digit (nat_to_string n)"
proof (induction n rule: nat_to_string.induct)
  case (1 n)
  then show ?case by (subst nat_to_string.simps) auto
qed

lemma nat_to_string_not_Nil [simp]: "nat_to_string n \<noteq> []"
  by (subst nat_to_string.simps) simp

lemma decimal_val_snoc: "decimal_val (s @ [c]) = 10 * decimal_val s + digit_val c"
  by (simp add: decimal_val_def)

lemma decimal_val_nat_to_string [simp]: "decimal_val (nat_to_string n) = n"
proof (induction n rule: nat_to_string.induct)
  case (1 n)
  show ?case
  proof (cases "n < 10")
    case True
    then show ?thesis by (subst nat_to_string.simps) (simp add: decimal_val_def)
  next
    case False
    with 1 show ?thesis by (subst nat_to_string.simps) (simp add: decimal_val_snoc)
  qed
qed

section \<open>Searching and trimming\<close>

text \<open>\<^verbatim>\<open>s.find(c)\<close>: the index of the first occurrence, \<open>None\<close> for \<^verbatim>\<open>npos\<close>.\<close>

fun find_char :: "char \<Rightarrow> string \<Rightarrow> nat option" where
  "find_char c [] = None"
| "find_char c (x # xs) = (if x = c then Some 0 else map_option Suc (find_char c xs))"

lemma find_char_None: "find_char c s = None \<longleftrightarrow> c \<notin> set s"
  by (induction s) auto

lemma find_char_Some:
  "find_char c s = Some n \<longleftrightarrow> n < length s \<and> s ! n = c \<and> c \<notin> set (take n s)"
proof (induction s arbitrary: n)
  case (Cons x s)
  then show ?case by (cases n) auto
qed simp

lemma find_char_append_notin: "c \<notin> set s \<Longrightarrow> find_char c (s @ t) = map_option ((+) (length s)) (find_char c t)"
  by (induction s) (auto split: option.splits simp: map_option_case)

lemma find_char_line [simp]: "c \<notin> set s \<Longrightarrow> find_char c (s @ c # t) = Some (length s)"
  by (simp add: find_char_append_notin)

text \<open>The first occurrence of a character in an appended text lies in the first part or beyond it.\<close>

lemma first_occurrence_in:
  "s @ t = l @ c # r \<Longrightarrow> c \<notin> set l \<Longrightarrow> c \<in> set s \<Longrightarrow> \<exists>r'. s = l @ c # r' \<and> r = r' @ t"
proof (induction l arbitrary: s)
  case Nil
  then show ?case by (cases s) auto
next
  case (Cons a l)
  then show ?case by (cases s) auto
qed

lemma first_occurrence_beyond:
  "s @ t = l @ c # r \<Longrightarrow> c \<notin> set s \<Longrightarrow> \<exists>l'. l = s @ l' \<and> t = l' @ c # r"
proof (induction s arbitrary: l)
  case (Cons a s)
  then show ?case by (cases l) auto
qed simp

lemma find_char_split: "find_char c s = Some n \<Longrightarrow> s = take n s @ c # drop (Suc n) s"
  using id_take_nth_drop [of n s] by (auto simp: find_char_Some)

text \<open>\<^verbatim>\<open>trim\<close>: drop leading and then trailing \<^verbatim>\<open>isspace\<close> characters.\<close>

definition trim :: "string \<Rightarrow> string" where
  "trim s = rev (dropWhile is_space (rev (dropWhile is_space s)))"

definition to_lower :: "string \<Rightarrow> string" where
  "to_lower s = map to_lower_char s"

definition starts_with :: "string \<Rightarrow> string \<Rightarrow> bool" where
  "starts_with p s = (take (length p) s = p)"

lemma dropWhile_idem: "dropWhile P (dropWhile P xs) = dropWhile P xs"
  by (induction xs) auto

lemma trim_idem [simp]: "trim (trim s) = trim s"
proof -
  let ?a = "dropWhile is_space s"
  have "dropWhile is_space (rev (dropWhile is_space (rev ?a))) = rev (dropWhile is_space (rev ?a))"
  proof (cases "dropWhile is_space (rev ?a) = []")
    case False
    then have ne: "?a \<noteq> []" by fastforce
    have "\<not> is_space (hd ?a)" using hd_dropWhile [OF ne] .
    moreover have "hd (rev (dropWhile is_space (rev ?a))) = hd ?a"
    proof -
      obtain p where "rev ?a = p @ dropWhile is_space (rev ?a)"
        using takeWhile_dropWhile_id by metis
      then have "?a = rev (dropWhile is_space (rev ?a)) @ rev p"
        by (metis rev_append rev_rev_ident)
      with False show ?thesis by (metis hd_append2 rev_is_Nil_conv)
    qed
    ultimately show ?thesis
      by (metis dropWhile_eq_self_iff)
  next
    case True
    then show ?thesis by (simp only: True rev.simps dropWhile.simps)
  qed
  then show ?thesis
    by (simp add: trim_def dropWhile_idem)
qed

lemma set_trim_subset: "set (trim s) \<subseteq> set s"
  by (auto simp: trim_def dest!: set_dropWhileD)

lemma trim_no_space: "list_all (\<lambda>c. \<not> is_space c) s \<Longrightarrow> trim s = s"
proof -
  have *: "dropWhile is_space t = t" if "list_all (\<lambda>c. \<not> is_space c) t" for t
    using that by (cases t) auto
  assume "list_all (\<lambda>c. \<not> is_space c) s"
  then show "trim s = s" by (simp add: trim_def * list_all_rev)
qed

end
