(* ===== verification/Json_Model.thy ===== *)
theory Json_Model
  imports Text_Model "HOL-Library.Word"
begin

text \<open>
  The JSON document type the sources work on, and the third-party operations they call.

  \<^item> \<open>Json\<close> has the ten alternatives of \<^verbatim>\<open>nlohmann::json\<close>; an object is an ordered map and
    the two integer alternatives keep their 64-bit width. A finite \<^verbatim>\<open>double\<close> is a
    mantissa and a binary exponent, which is all the sources read of it (finiteness,
    integrality and the integer value).
  \<^item> \<open>json_lib\<close> collects the parameters of the model: parsing and printing of JSON text,
    the text of the exception \<^verbatim>\<open>at()\<close> throws for a missing key, and the decimal conversions
    of \<^verbatim>\<open>boost::multiprecision::cpp_int\<close>. None of that code is part of the repository.
    \<open>lib_int_laws\<close> and \<open>lib_dump_laws\<close> name the documented behaviour that theorems rely
    on; \<open>Reference_Lib\<close> gives an instance of the parameters that satisfies them.
  \<^item> \<open>exn\<close> is the type of the exceptions the sources throw, catch or let through.
\<close>

section \<open>Documents\<close>

datatype Double = Finite int int | NonFinite

definition double_integral :: "Double \<Rightarrow> bool" where
  "double_integral d = (case d of NonFinite \<Rightarrow> False
     | Finite m e \<Rightarrow> 0 \<le> e \<or> 2 ^ nat (- e) dvd m)"

definition double_to_int :: "Double \<Rightarrow> int" where
  "double_to_int d = (case d of NonFinite \<Rightarrow> 0
     | Finite m e \<Rightarrow> if 0 \<le> e then m * 2 ^ nat e else m div 2 ^ nat (- e))"

datatype Json =
    JNull
  | JObject "(string \<times> Json) list"
  | JArray "Json list"
  | JString string
  | JBool bool
  | JInteger "64 word"
  | JUnsigned "64 word"
  | JFloat Double
  | JBinary
  | JDiscarded

fun json_wf :: "Json \<Rightarrow> bool" where
  "json_wf (JObject kvs) = (om_wf kvs \<and> list_all (\<lambda>kv. json_wf (snd kv)) kvs)"
| "json_wf (JArray js) = list_all json_wf js"
| "json_wf _ = True"

definition is_object :: "Json \<Rightarrow> bool" where
  "is_object j = (case j of JObject _ \<Rightarrow> True | _ \<Rightarrow> False)"

definition is_array :: "Json \<Rightarrow> bool" where
  "is_array j = (case j of JArray _ \<Rightarrow> True | _ \<Rightarrow> False)"

definition is_string :: "Json \<Rightarrow> bool" where
  "is_string j = (case j of JString _ \<Rightarrow> True | _ \<Rightarrow> False)"

definition is_null :: "Json \<Rightarrow> bool" where
  "is_null j = (case j of JNull \<Rightarrow> True | _ \<Rightarrow> False)"

text \<open>\<^verbatim>\<open>is_number_integer()\<close> holds for both integer alternatives.\<close>

definition is_number_integer :: "Json \<Rightarrow> bool" where
  "is_number_integer j = (case j of JInteger _ \<Rightarrow> True | JUnsigned _ \<Rightarrow> True | _ \<Rightarrow> False)"

text \<open>\<^verbatim>\<open>find(key)\<close> on any document: \<open>None\<close> is \<^verbatim>\<open>end()\<close>, also for a document that is no object.\<close>

definition jfind :: "string \<Rightarrow> Json \<Rightarrow> Json option" where
  "jfind k j = (case j of JObject kvs \<Rightarrow> map_of kvs k | _ \<Rightarrow> None)"

text \<open>\<^verbatim>\<open>size()\<close>: null is empty, objects and arrays count their children, everything else is 1.\<close>

definition jsize :: "Json \<Rightarrow> nat" where
  "jsize j = (case j of JNull \<Rightarrow> 0 | JObject kvs \<Rightarrow> length kvs | JArray js \<Rightarrow> length js | _ \<Rightarrow> 1)"

text \<open>\<^verbatim>\<open>get<long long>()\<close> on an integer alternative keeps the 64 bits: a C++ \<^verbatim>\<open>long long\<close> is a
  \<open>64 word\<close> read with \<open>sint\<close>, so an unsigned number above \<^verbatim>\<open>LLONG_MAX\<close> comes out negative.\<close>

definition get_long_long :: "Json \<Rightarrow> 64 word" where
  "get_long_long j = (case j of JInteger w \<Rightarrow> w | JUnsigned w \<Rightarrow> w | _ \<Rightarrow> 0)"

text \<open>An object from an initializer list or from successive \<^verbatim>\<open>j[key] = v\<close> assignments.\<close>

definition jobject :: "(string \<times> Json) list \<Rightarrow> Json" where
  "jobject kvs = JObject (om_build kvs)"

text \<open>\<^verbatim>\<open>if (opt) j[key] = f(*opt);\<close>\<close>

definition opt_field :: "string \<Rightarrow> ('a \<Rightarrow> Json) \<Rightarrow> 'a option \<Rightarrow> (string \<times> Json) list" where
  "opt_field k f v = (case v of None \<Rightarrow> [] | Some x \<Rightarrow> [(k, f x)])"

text \<open>A C++ \<^verbatim>\<open>long long\<close> stored into a document: the signed alternative.\<close>

definition json_of_ll :: "64 word \<Rightarrow> Json" where
  "json_of_ll w = JInteger w"

lemmas json_query_defs = is_object_def is_array_def is_string_def is_null_def
  is_number_integer_def jfind_def jsize_def

lemma jfind_jobject [simp]: "jfind k (jobject kvs) = map_of (rev kvs) k"
  by (simp add: jfind_def jobject_def map_of_om_build)

lemma json_wf_jobject [simp]:
  "list_all (\<lambda>kv. json_wf (snd kv)) kvs \<Longrightarrow> json_wf (jobject kvs)"
proof -
  have put: "list_all (\<lambda>kv. P (snd kv)) m \<Longrightarrow> P v \<Longrightarrow> list_all (\<lambda>kv. P (snd kv)) (om_put k v m)"
    for P :: "Json \<Rightarrow> bool" and k v m
    by (induction k v m rule: om_put.induct) auto
  have "list_all (\<lambda>kv. json_wf (snd kv)) acc \<Longrightarrow> list_all (\<lambda>kv. json_wf (snd kv)) kvs \<Longrightarrow>
    list_all (\<lambda>kv. json_wf (snd kv)) (foldl (\<lambda>m kv. om_put (fst kv) (snd kv) m) acc kvs)" for acc
    by (induction kvs arbitrary: acc) (auto intro: put)
  then show "list_all (\<lambda>kv. json_wf (snd kv)) kvs \<Longrightarrow> json_wf (jobject kvs)"
    by (auto simp: jobject_def om_build_def om_wf_om_build_aux)
qed

section \<open>Exceptions\<close>

datatype exn =
    JsonError string             \<comment> \<open>\<^verbatim>\<open>mirrorcpp::JsonError\<close>\<close>
  | JsonLibError string          \<comment> \<open>\<^verbatim>\<open>nlohmann::json::exception\<close>\<close>
  | BindingError string string   \<comment> \<open>\<^verbatim>\<open>ModelInterfaceBindingError\<close>: code and message\<close>
  | StdException string          \<comment> \<open>any other \<^verbatim>\<open>std::exception\<close>\<close>
  | NonStdException              \<comment> \<open>a thrown object that is no \<^verbatim>\<open>std::exception\<close>\<close>

section \<open>Third-party operations\<close>

text \<open>\<^verbatim>\<open>json::parse\<close> throws \<^verbatim>\<open>parse_error\<close> for a syntax error and \<^verbatim>\<open>out_of_range\<close> (406) for a number
  that does not fit a \<^verbatim>\<open>double\<close>.\<close>

datatype parse_failure = ParseError string | NumberRange string

record json_lib =
  lib_parse :: "string \<Rightarrow> parse_failure + Json"
  lib_dump :: "Json \<Rightarrow> string + string"
  lib_at_what :: "string \<Rightarrow> string"
  lib_key_what :: string
  lib_int_str :: "int \<Rightarrow> string"
  lib_int_of :: "string \<Rightarrow> string + int"

text \<open>\<^verbatim>\<open>j.at(key)\<close>.\<close>

definition jat :: "json_lib \<Rightarrow> string \<Rightarrow> Json \<Rightarrow> exn + Json" where
  "jat L k j = (case jfind k j of None \<Rightarrow> Inl (JsonLibError (lib_at_what L k)) | Some x \<Rightarrow> Inr x)"

text \<open>The grammar of a printed integer: an optional minus sign and at least one digit.\<close>

definition decimal_syntax :: "string \<Rightarrow> bool" where
  "decimal_syntax s =
     (let ds = (if s \<noteq> [] \<and> hd s = CHR ''-'' then tl s else s) in ds \<noteq> [] \<and> list_all is_digit ds)"

text \<open>\<^verbatim>\<open>cpp_int::str()\<close> prints a decimal integer, and reading that text back gives the integer.\<close>

definition lib_int_laws :: "json_lib \<Rightarrow> bool" where
  "lib_int_laws L = (\<forall>i. decimal_syntax (lib_int_str L i) \<and> lib_int_of L (lib_int_str L i) = Inr i)"

text \<open>Compact printing puts a document on one nonempty line.\<close>

definition lib_dump_laws :: "json_lib \<Rightarrow> bool" where
  "lib_dump_laws L = (\<forall>j s. lib_dump L j = Inr s \<longrightarrow> s \<noteq> [] \<and> newline \<notin> set s)"

end
