(* ===== verification/Reference_Lib.thy ===== *)
theory Reference_Lib
  imports Json_Model
begin

text \<open>
  A concrete instance of the third-party parameters \<open>json_lib\<close>: a compact JSON printer, the
  decimal conversions of an unbounded integer (a leading zero switches to base eight, as
  the string constructor of \<^verbatim>\<open>cpp_int\<close> documents) and a parser given by a table of texts.
  It shows that the named hypotheses \<open>lib_int_laws\<close> and \<open>lib_dump_laws\<close> can hold together,
  and lets the operations of the model run on concrete input.
\<close>

section \<open>Integers\<close>

definition ref_int_of :: "string \<Rightarrow> string + int" where
  "ref_int_of s =
     (let neg = (s \<noteq> [] \<and> hd s = CHR ''-''); ds = (if neg then tl s else s) in
      if length ds > 1 \<and> hd ds = CHR ''0'' then
        (if list_all (\<lambda>c. digit_val c < 8) ds
         then (let n = int (foldl (\<lambda>a c. 8 * a + digit_val c) 0 ds) in Inr (if neg then - n else n))
         else Inl ''Unexpected content found while parsing character string.'')
      else (let n = int (decimal_val ds) in Inr (if neg then - n else n)))"

lemma nat_to_string_hd: "0 < n \<Longrightarrow> hd (nat_to_string n) \<noteq> CHR ''0''"
proof (induction n rule: nat_to_string.induct)
  case (1 n)
  show ?case
  proof (cases "n < 10")
    case True
    have "digit_char n \<noteq> CHR ''0''"
    proof
      assume "digit_char n = CHR ''0''"
      then have "digit_val (digit_char n) = digit_val CHR ''0''" by (rule arg_cong)
      then have "n = digit_val CHR ''0''" using True by simp
      with 1(2) show False by (simp add: digit_val_def byte_of_def)
    qed
    with True show ?thesis by (subst nat_to_string.simps) simp
  next
    case False
    with 1 have "hd (nat_to_string (n div 10)) \<noteq> CHR ''0''" by simp
    with False show ?thesis by (subst nat_to_string.simps) (simp add: hd_append)
  qed
qed

lemma is_digit_not_minus: "is_digit c \<Longrightarrow> c \<noteq> CHR ''-''"
  by (auto simp: is_digit_def byte_of_def)

lemma nat_to_string_hd_digit: "is_digit (hd (nat_to_string n))"
  using nat_to_string_digits [of n] by (cases "nat_to_string n") auto

lemma nat_to_string_no_leading_zero:
  "\<not> (length (nat_to_string n) > 1 \<and> hd (nat_to_string n) = CHR ''0'')"
proof (cases "0 < n")
  case False
  then have "nat_to_string n = [digit_char 0]" by (subst nat_to_string.simps) simp
  then show ?thesis by simp
qed (simp add: nat_to_string_hd)

lemma ref_int_of_to_string: "ref_int_of (int_to_string i) = Inr i"
proof (cases "i < 0")
  case True
  then show ?thesis
    using nat_to_string_no_leading_zero [of "nat (- i)"]
    by (auto simp: ref_int_of_def int_to_string_def Let_def)
next
  case False
  then show ?thesis
    using nat_to_string_no_leading_zero [of "nat i"] is_digit_not_minus [OF nat_to_string_hd_digit]
    by (auto simp: ref_int_of_def int_to_string_def Let_def)
qed

lemma decimal_syntax_int_to_string: "decimal_syntax (int_to_string i)"
  using nat_to_string_digits is_digit_not_minus [OF nat_to_string_hd_digit]
  by (auto simp: decimal_syntax_def int_to_string_def Let_def)

section \<open>Printing\<close>

definition hex_digit :: "nat \<Rightarrow> char" where
  "hex_digit d = (if d < 10 then char_of (48 + d) else char_of (87 + d))"

definition ref_escape :: "char \<Rightarrow> string" where
  "ref_escape c =
     (if c = quote then [CHR 0x5C, quote] else if c = CHR 0x5C then [CHR 0x5C, CHR 0x5C]
      else if 32 \<le> byte_of c \<and> byte_of c < 127 then [c]
      else [CHR 0x5C] @ ''u00'' @ [hex_digit (byte_of c div 16), hex_digit (byte_of c mod 16)])"

definition ref_quote :: "string \<Rightarrow> string" where
  "ref_quote s = [quote] @ concat (map ref_escape s) @ [quote]"

fun ref_commas :: "string list \<Rightarrow> string" where
  "ref_commas [] = []"
| "ref_commas [x] = x"
| "ref_commas (x # y # xs) = x @ '','' @ ref_commas (y # xs)"

fun ref_print :: "Json \<Rightarrow> string" where
  "ref_print JNull = ''null''"
| "ref_print (JBool b) = (if b then ''true'' else ''false'')"
| "ref_print (JString s) = ref_quote s"
| "ref_print (JInteger w) = int_to_string (sint w)"
| "ref_print (JUnsigned w) = int_to_string (uint w)"
| "ref_print (JFloat d) = int_to_string (double_to_int d) @ ''.0''"
| "ref_print (JArray js) = ''['' @ ref_commas (map ref_print js) @ '']''"
| "ref_print (JObject kvs) =
     [CHR 0x7B] @ ref_commas (map (\<lambda>kv. ref_quote (fst kv) @ '':'' @ ref_print (snd kv)) kvs) @ [CHR 0x7D]"
| "ref_print JBinary = ''null''"
| "ref_print JDiscarded = ''null''"

lemma newline_notin_nat_to_string: "newline \<notin> set (nat_to_string n)"
  using nat_to_string_digits [of n] by (auto simp: list_all_iff is_digit_def byte_of_def)

lemma newline_notin_int_to_string [simp]: "newline \<notin> set (int_to_string i)"
  by (auto simp: int_to_string_def newline_notin_nat_to_string)

lemma hex_digit_not_newline: "d < 16 \<Longrightarrow> hex_digit d \<noteq> newline"
proof
  assume "d < 16" and eq: "hex_digit d = newline"
  have "byte_of (hex_digit d) \<ge> 48" using \<open>d < 16\<close> by (auto simp: hex_digit_def byte_of_def)
  with eq show False by (simp add: byte_of_def)
qed

lemma newline_notin_escape: "newline \<notin> set (ref_escape c)"
proof -
  have "hex_digit (byte_of c div 16) \<noteq> newline" "hex_digit (byte_of c mod 16) \<noteq> newline"
    using byte_of_less [of c] by (simp_all add: hex_digit_not_newline del: byte_of_less)
  then show ?thesis by (auto simp: ref_escape_def) (simp_all add: byte_of_def)
qed

lemma newline_notin_quote [simp]: "newline \<notin> set (ref_quote s)"
  using newline_notin_escape by (auto simp: ref_quote_def)

lemma newline_notin_commas: "(\<And>x. x \<in> set xs \<Longrightarrow> c \<notin> set x) \<Longrightarrow> c \<noteq> CHR '','' \<Longrightarrow> c \<notin> set (ref_commas xs)"
  by (induction xs rule: ref_commas.induct) auto

lemma newline_notin_print: "newline \<notin> set (ref_print j)"
proof (induction j)
  case (JObject kvs)
  have "newline \<notin> set (ref_commas (map (\<lambda>kv. ref_quote (fst kv) @ '':'' @ ref_print (snd kv)) kvs))"
    by (rule newline_notin_commas) (use JObject in auto)
  then show ?case by simp
next
  case (JArray js)
  have "newline \<notin> set (ref_commas (map ref_print js))"
    by (rule newline_notin_commas) (use JArray in auto)
  then show ?case by simp
qed auto

lemma ref_print_not_Nil: "ref_print j \<noteq> []"
  by (cases j) (auto simp: ref_quote_def int_to_string_def)

text \<open>A bound on the length of the printed text that needs no look at the characters.\<close>

fun json_bytes :: "Json \<Rightarrow> nat" where
  "json_bytes (JString s) = 6 * length s + 2"
| "json_bytes (JInteger w) = nat \<bar>sint w\<bar> + 2"
| "json_bytes (JUnsigned w) = nat \<bar>uint w\<bar> + 2"
| "json_bytes (JFloat d) = nat \<bar>double_to_int d\<bar> + 4"
| "json_bytes (JArray js) = 2 + sum_list (map (\<lambda>j. json_bytes j + 1) js)"
| "json_bytes (JObject kvs) = 2 + sum_list (map (\<lambda>kv. 6 * length (fst kv) + 3 + json_bytes (snd kv) + 1) kvs)"
| "json_bytes _ = 5"

lemma length_nat_to_string: "length (nat_to_string n) \<le> Suc n"
proof (induction n rule: nat_to_string.induct)
  case (1 n)
  show ?case
  proof (cases "n < 10")
    case False
    then have "length (nat_to_string n) = length (nat_to_string (n div 10)) + 1"
      by (subst nat_to_string.simps) simp
    with 1 [OF False] False show ?thesis by linarith
  qed (subst nat_to_string.simps, simp)
qed

lemma length_int_to_string: "length (int_to_string i) \<le> nat \<bar>i\<bar> + 2"
  using length_nat_to_string [of "nat (- i)"] length_nat_to_string [of "nat i"]
  by (auto simp: int_to_string_def)

lemma length_ref_quote: "length (ref_quote s) \<le> 6 * length s + 2"
proof -
  have "length (concat (map ref_escape s)) \<le> 6 * length s"
    by (induction s) (auto simp: ref_escape_def)
  then show ?thesis by (simp add: ref_quote_def)
qed

lemma length_ref_commas: "length (ref_commas xs) \<le> sum_list (map (\<lambda>x. length x + 1) xs)"
  by (induction xs rule: ref_commas.induct) auto

lemma length_ref_print: "length (ref_print j) \<le> json_bytes j"
proof (induction j)
  case (JObject kvs)
  have "sum_list (map (\<lambda>kv. length (ref_quote (fst kv) @ '':'' @ ref_print (snd kv)) + 1) kvs)
      \<le> sum_list (map (\<lambda>kv. 6 * length (fst kv) + 3 + json_bytes (snd kv) + 1) kvs)"
  proof (rule sum_list_mono)
    fix kv assume "kv \<in> set kvs"
    moreover obtain k v where kv: "kv = (k, v)" by (cases kv)
    ultimately have "length (ref_print (snd kv)) \<le> json_bytes (snd kv)" using JObject [of "(k, v)" v] by simp
    then show "length (ref_quote (fst kv) @ '':'' @ ref_print (snd kv)) + 1
        \<le> 6 * length (fst kv) + 3 + json_bytes (snd kv) + 1"
      using length_ref_quote [of "fst kv"] by simp
  qed
  then show ?case
    using length_ref_commas [of "map (\<lambda>kv. ref_quote (fst kv) @ '':'' @ ref_print (snd kv)) kvs"]
    by (simp add: comp_def)
next
  case (JArray js)
  have "sum_list (map (\<lambda>j. length (ref_print j) + 1) js) \<le> sum_list (map (\<lambda>j. json_bytes j + 1) js)"
    by (rule sum_list_mono) (use JArray in simp)
  then show ?case using length_ref_commas [of "map ref_print js"] by (simp add: comp_def)
next
  case (JFloat d)
  then show ?case using length_int_to_string [of "double_to_int d"] by simp
next
  case (JInteger w)
  then show ?case using length_int_to_string [of "sint w"] by simp
next
  case (JUnsigned w)
  then show ?case using length_int_to_string [of "uint w"] by simp
next
  case (JString s)
  then show ?case using length_ref_quote [of s] by simp
qed auto

section \<open>The instance\<close>

definition ref_lib :: "(string \<times> Json) list \<Rightarrow> json_lib" where
  "ref_lib tbl = \<lparr>
     lib_parse = (\<lambda>s. case map_of tbl s of None \<Rightarrow> Inl (ParseError ''parse error'') | Some j \<Rightarrow> Inr j),
     lib_dump = (\<lambda>j. Inr (ref_print j)),
     lib_at_what = (\<lambda>k. ''key '' @ k @ '' not found''),
     lib_key_what = ''cannot use key() for non-object iterators'',
     lib_int_str = int_to_string,
     lib_int_of = ref_int_of \<rparr>"

lemma ref_lib_int_laws [simp]: "lib_int_laws (ref_lib tbl)"
  by (simp add: lib_int_laws_def ref_lib_def ref_int_of_to_string decimal_syntax_int_to_string)

lemma ref_lib_dump_laws [simp]: "lib_dump_laws (ref_lib tbl)"
  by (simp add: lib_dump_laws_def ref_lib_def ref_print_not_Nil newline_notin_print)

lemma ref_lib_sel [simp]:
  "lib_parse (ref_lib tbl) s = (case map_of tbl s of None \<Rightarrow> Inl (ParseError ''parse error'') | Some j \<Rightarrow> Inr j)"
  "lib_dump (ref_lib tbl) j = Inr (ref_print j)"
  "lib_int_str (ref_lib tbl) = int_to_string"
  "lib_int_of (ref_lib tbl) = ref_int_of"
  by (simp_all add: ref_lib_def)

end
