(* ===== verification/Value_Codec.thy ===== *)
theory Value_Codec
  imports Json_Model Reference_Lib
begin

text \<open>
  \<^verbatim>\<open>include/mirrorcpp/value.hpp\<close> and \<^verbatim>\<open>src/value.cpp\<close>: the TLA+ value type, its equality
  and the ITF codec.

  A \<open>Value\<close> is the C++ variant; the boxes around recursive alternatives have value
  semantics and disappear. \<open>value_eq\<close> is \<^verbatim>\<open>Value::operator==\<close>, \<open>encode_value\<close> and
  \<open>decode_value\<close> are the codec; decoding throws, so it returns \<open>exn + Value\<close>.
  \<open>value_wf\<close> is the representation invariant of the record maps.
\<close>

section \<open>Values and states\<close>

datatype Value =
    VNull
  | VInt int
  | VBool bool
  | VStr string
  | VSet "Value list"
  | VSeq "Value list"
  | VTuple "Value list"
  | VRecord "(string \<times> Value) list"
  | VMap "(Value \<times> Value) list"
  | VVariant string Value
  | VUnserializable string

type_synonym State = "Value smap"

fun value_wf :: "Value \<Rightarrow> bool" where
  "value_wf (VSet vs) = list_all value_wf vs"
| "value_wf (VSeq vs) = list_all value_wf vs"
| "value_wf (VTuple vs) = list_all value_wf vs"
| "value_wf (VRecord fs) = (om_wf fs \<and> list_all (\<lambda>kv. value_wf (snd kv)) fs)"
| "value_wf (VMap es) = list_all (\<lambda>kv. value_wf (fst kv) \<and> value_wf (snd kv)) es"
| "value_wf (VVariant t v) = value_wf v"
| "value_wf _ = True"

definition state_wf :: "State \<Rightarrow> bool" where
  "state_wf s = (om_wf s \<and> list_all (\<lambda>kv. value_wf (snd kv)) s)"

definition as_int :: "Value \<Rightarrow> int option" where
  "as_int v = (case v of VInt i \<Rightarrow> Some i | _ \<Rightarrow> None)"

definition as_str :: "Value \<Rightarrow> string option" where
  "as_str v = (case v of VStr s \<Rightarrow> Some s | _ \<Rightarrow> None)"

definition as_record :: "Value \<Rightarrow> (string \<times> Value) list option" where
  "as_record v = (case v of VRecord fs \<Rightarrow> Some fs | _ \<Rightarrow> None)"

definition get_param :: "State \<Rightarrow> string \<Rightarrow> Value option" where
  "get_param s name = map_of s name"

definition get_param_int :: "State \<Rightarrow> string \<Rightarrow> int option" where
  "get_param_int s name = (case get_param s name of None \<Rightarrow> None | Some v \<Rightarrow> as_int v)"

section \<open>Equality\<close>

text \<open>
  Structural equality except for sets: two sets are equal when their element vectors have
  the same length and every element of the left one occurs in the right one.
\<close>

function value_eq :: "Value \<Rightarrow> Value \<Rightarrow> bool" where
  "value_eq VNull v = (case v of VNull \<Rightarrow> True | _ \<Rightarrow> False)"
| "value_eq (VInt i) v = (case v of VInt j \<Rightarrow> i = j | _ \<Rightarrow> False)"
| "value_eq (VBool a) v = (case v of VBool b \<Rightarrow> a = b | _ \<Rightarrow> False)"
| "value_eq (VStr s) v = (case v of VStr t \<Rightarrow> s = t | _ \<Rightarrow> False)"
| "value_eq (VSet xs) v =
     (case v of
        VSet ys \<Rightarrow> length xs = length ys \<and> list_all (\<lambda>x. list_ex (\<lambda>y. value_eq x y) ys) xs
      | _ \<Rightarrow> False)"
| "value_eq (VSeq xs) v =
     (case v of
        VSeq ys \<Rightarrow> length xs = length ys \<and> list_all (\<lambda>xy. value_eq (fst xy) (snd xy)) (zip xs ys)
      | _ \<Rightarrow> False)"
| "value_eq (VTuple xs) v =
     (case v of
        VTuple ys \<Rightarrow> length xs = length ys \<and> list_all (\<lambda>xy. value_eq (fst xy) (snd xy)) (zip xs ys)
      | _ \<Rightarrow> False)"
| "value_eq (VRecord xs) v =
     (case v of
        VRecord ys \<Rightarrow> length xs = length ys \<and>
          list_all (\<lambda>xy. fst (fst xy) = fst (snd xy) \<and> value_eq (snd (fst xy)) (snd (snd xy))) (zip xs ys)
      | _ \<Rightarrow> False)"
| "value_eq (VMap xs) v =
     (case v of
        VMap ys \<Rightarrow> length xs = length ys \<and>
          list_all (\<lambda>xy. value_eq (fst (fst xy)) (fst (snd xy)) \<and> value_eq (snd (fst xy)) (snd (snd xy)))
            (zip xs ys)
      | _ \<Rightarrow> False)"
| "value_eq (VVariant s u) v = (case v of VVariant t w \<Rightarrow> s = t \<and> value_eq u w | _ \<Rightarrow> False)"
| "value_eq (VUnserializable s) v = (case v of VUnserializable t \<Rightarrow> s = t | _ \<Rightarrow> False)"
  by pat_completeness auto
termination
  by (relation "measure (\<lambda>(u, v). size u)")
    (auto dest!: set_zip_leftD intro!: le_imp_less_Suc intro: size_list_estimation')

definition state_eq :: "State \<Rightarrow> State \<Rightarrow> bool" where
  "state_eq s t = (length s = length t \<and>
     list_all (\<lambda>xy. fst (fst xy) = fst (snd xy) \<and> value_eq (snd (fst xy)) (snd (snd xy))) (zip s t))"

section \<open>Encoding\<close>

fun encode_value :: "json_lib \<Rightarrow> Value \<Rightarrow> Json" where
  "encode_value L VNull = JNull"
| "encode_value L (VInt i) = jobject [(''#bigint'', JString (lib_int_str L i))]"
| "encode_value L (VBool b) = JBool b"
| "encode_value L (VStr s) = JString s"
| "encode_value L (VSet vs) = jobject [(''#set'', JArray (map (encode_value L) vs))]"
| "encode_value L (VSeq vs) = JArray (map (encode_value L) vs)"
| "encode_value L (VTuple vs) = jobject [(''#tup'', JArray (map (encode_value L) vs))]"
| "encode_value L (VRecord fs) = jobject (map (\<lambda>kv. (fst kv, encode_value L (snd kv))) fs)"
| "encode_value L (VMap es) =
     jobject [(''#map'', JArray (map (\<lambda>kv. JArray [encode_value L (fst kv), encode_value L (snd kv)]) es))]"
| "encode_value L (VVariant t v) = jobject [(''tag'', JString t), (''value'', encode_value L v)]"
| "encode_value L (VUnserializable s) = jobject [(''#unserializable'', JString s)]"

definition encode_state :: "json_lib \<Rightarrow> State \<Rightarrow> Json" where
  "encode_state L s = jobject (map (\<lambda>kv. (fst kv, encode_value L (snd kv))) s)"

section \<open>Decoding\<close>

definition malformed_bigint :: "string \<Rightarrow> exn" where
  "malformed_bigint s = JsonError (''malformed #bigint: '' @ [CHR 0x27] @ s @ [CHR 0x27])"

definition decode_bigint :: "json_lib \<Rightarrow> string \<Rightarrow> exn + Value" where
  "decode_bigint L s =
     (if s = [] then Inr VNull
      else let ds = (if hd s = CHR ''-'' then tl s else s) in
        if ds = [] then Inl (malformed_bigint s)
        else if \<not> list_all is_digit ds then Inl (malformed_bigint s)
        else (case lib_int_of L s of Inl what \<Rightarrow> Inl (StdException what) | Inr i \<Rightarrow> Inr (VInt i)))"

text \<open>\<^verbatim>\<open>j.size() == 1 && j.contains(key) && j[key].is_string()\<close>, and that string.\<close>

definition marker_string :: "string \<Rightarrow> (string \<times> Json) list \<Rightarrow> string option" where
  "marker_string k kvs =
     (if length kvs = 1 then (case map_of kvs k of Some (JString s) \<Rightarrow> Some s | _ \<Rightarrow> None) else None)"

text \<open>\<^verbatim>\<open>j.size() == 1 && j.contains(key) && j[key].is_array()\<close>, and that array.\<close>

definition marker_array :: "string \<Rightarrow> (string \<times> Json) list \<Rightarrow> Json list option" where
  "marker_array k kvs =
     (if length kvs = 1 then (case map_of kvs k of Some (JArray js) \<Rightarrow> Some js | _ \<Rightarrow> None) else None)"

text \<open>\<^verbatim>\<open>entry.is_array() && entry.size() == 2\<close>, and the two components.\<close>

definition entry_pair :: "Json \<Rightarrow> (Json \<times> Json) option" where
  "entry_pair e = (case e of JArray js \<Rightarrow> (if length js = 2 then Some (js ! 0, js ! 1) else None) | _ \<Rightarrow> None)"

text \<open>\<^verbatim>\<open>j.size() == 2 && j.contains("tag") && j.contains("value")\<close>, and the two values.\<close>

definition variant_fields :: "(string \<times> Json) list \<Rightarrow> (Json \<times> Json) option" where
  "variant_fields kvs =
     (if length kvs = 2 then
        (case (map_of kvs ''tag'', map_of kvs ''value'') of
           (Some t, Some p) \<Rightarrow> Some (t, p) | _ \<Rightarrow> None)
      else None)"

lemma marker_string_Some: "marker_string k kvs = Some s \<longleftrightarrow> kvs = [(k, JString s)]"
  by (auto simp: marker_string_def length_Suc_conv split: if_splits Json.splits)

lemma marker_array_Some: "marker_array k kvs = Some js \<longleftrightarrow> kvs = [(k, JArray js)]"
  by (auto simp: marker_array_def length_Suc_conv split: if_splits Json.splits)

lemma entry_pair_Some: "entry_pair e = Some (a, b) \<longleftrightarrow> e = JArray [a, b]"
  by (auto simp: entry_pair_def numeral_2_eq_2 length_Suc_conv split: Json.splits if_splits)

lemma variant_fields_Some_mem: "variant_fields kvs = Some (t, p) \<Longrightarrow> (''value'', p) \<in> set kvs"
  by (auto simp: variant_fields_def split: if_splits option.splits dest: map_of_SomeD)

lemma json_size_member: "kv \<in> set kvs \<Longrightarrow> size (snd kv) < size (JObject kvs)"
  by (cases kv) (auto intro!: le_imp_less_Suc intro: size_list_estimation')

lemma json_size_element: "p \<in> set js \<Longrightarrow> size p < size (JArray js)"
  by (auto intro!: le_imp_less_Suc intro: size_list_estimation')

lemma marker_array_size:
  "marker_array k kvs = Some js \<Longrightarrow> e \<in> set js \<Longrightarrow> size e < size (JObject kvs)"
  using json_size_element [of e js] by (simp add: marker_array_Some)

lemma marker_entry_size:
  assumes "marker_array k kvs = Some es" "e \<in> set es" "entry_pair e = Some (a, b)"
  shows "size a < size (JObject kvs)" "size b < size (JObject kvs)"
  using marker_array_size [OF assms(1,2)] assms(3) by (auto simp: entry_pair_Some)

lemma variant_payload_size: "variant_fields kvs = Some (t, p) \<Longrightarrow> size p < size (JObject kvs)"
  using json_size_member [OF variant_fields_Some_mem] by simp

lemmas decode_termination = marker_array_size marker_entry_size variant_payload_size
  json_size_member json_size_element

text \<open>The components of \<^verbatim>\<open>emplace_back(decode_value(entry[0]), decode_value(entry[1]))\<close> and of the
  record loop are decoded from left to right.\<close>

function decode_value :: "json_lib \<Rightarrow> Json \<Rightarrow> exn + Value" where
  "decode_value L JNull = Inr VNull"
| "decode_value L (JBool b) = Inr (VBool b)"
| "decode_value L (JString s) = Inr (VStr s)"
| "decode_value L (JUnsigned w) = Inr (VInt (uint w))"
| "decode_value L (JInteger w) = Inr (VInt (sint w))"
| "decode_value L (JFloat d) =
     (if \<not> double_integral d then Inl (JsonError ''bare JSON number not in ITF grammar'')
      else Inr (VInt (double_to_int d)))"
| "decode_value L (JArray js) = rbind (rmapM (decode_value L) js) (\<lambda>vs. Inr (VSeq vs))"
| "decode_value L (JObject kvs) =
     (case marker_string ''#bigint'' kvs of Some s \<Rightarrow> decode_bigint L s | None \<Rightarrow>
     (case marker_array ''#tup'' kvs of
        Some es \<Rightarrow> rbind (rmapM (decode_value L) es) (\<lambda>vs. Inr (VTuple vs)) | None \<Rightarrow>
     (case marker_array ''#set'' kvs of
        Some es \<Rightarrow> rbind (rmapM (decode_value L) es) (\<lambda>vs. Inr (VSet vs)) | None \<Rightarrow>
     (case marker_array ''#map'' kvs of
        Some es \<Rightarrow>
          rbind (rmapM (\<lambda>entry. case entry_pair entry of
              Some (a, b) \<Rightarrow>
                rbind (decode_value L a) (\<lambda>k. rbind (decode_value L b) (\<lambda>v. Inr (k, v)))
            | None \<Rightarrow> Inl (JsonError ''malformed #map: entries must be [key, value] pairs'')) es)
            (\<lambda>kvs. Inr (VMap kvs)) | None \<Rightarrow>
     (case marker_string ''#unserializable'' kvs of Some s \<Rightarrow> Inr (VUnserializable s) | None \<Rightarrow>
     (case variant_fields kvs of
        Some (t, p) \<Rightarrow>
          (case t of
             JString tag \<Rightarrow> rbind (decode_value L p) (\<lambda>v. Inr (VVariant tag v))
           | _ \<Rightarrow> Inl (JsonError ''malformed variant: tag must be a string''))
      | None \<Rightarrow>
          rbind (rmapM (\<lambda>kv. rbind (decode_value L (snd kv)) (\<lambda>v. Inr (fst kv, v))) kvs)
            (\<lambda>fs. Inr (VRecord (om_build fs)))))))))"
| "decode_value L JBinary = Inl (JsonLibError (lib_key_what L))"
| "decode_value L JDiscarded = Inl (JsonLibError (lib_key_what L))"
  by pat_completeness auto
termination
  by (relation "measure (\<lambda>(L, j). size j)")
    (auto dest: decode_termination simp del: Json.size)

definition decode_state :: "json_lib \<Rightarrow> Json \<Rightarrow> exn + State" where
  "decode_state L j =
     (case j of
        JObject kvs \<Rightarrow>
          rbind (rmapM (\<lambda>kv. rbind (decode_value L (snd kv)) (\<lambda>v. Inr (fst kv, v))) kvs)
            (\<lambda>fs. Inr (om_build fs))
      | _ \<Rightarrow> Inl (JsonError ''state must be a JSON object''))"

text \<open>\<^verbatim>\<open>to_string(v)\<close>; the inner \<^verbatim>\<open>dump()\<close> may throw.\<close>

definition value_to_string :: "json_lib \<Rightarrow> Value \<Rightarrow> exn + string" where
  "value_to_string L v =
     (case lib_dump L (encode_value L v) of Inl what \<Rightarrow> Inl (JsonLibError what) | Inr s \<Rightarrow> Inr s)"

section \<open>Facts about equality\<close>

lemma value_eq_simps:
  "value_eq (VSet xs) (VSet ys) \<longleftrightarrow>
     length xs = length ys \<and> (\<forall>x \<in> set xs. \<exists>y \<in> set ys. value_eq x y)"
  "value_eq (VSeq xs) (VSeq ys) \<longleftrightarrow> list_all2 value_eq xs ys"
  "value_eq (VTuple xs) (VTuple ys) \<longleftrightarrow> list_all2 value_eq xs ys"
  "value_eq (VRecord fs) (VRecord gs) \<longleftrightarrow>
     list_all2 (\<lambda>f g. fst f = fst g \<and> value_eq (snd f) (snd g)) fs gs"
  "value_eq (VMap es) (VMap ds) \<longleftrightarrow>
     list_all2 (\<lambda>e d. value_eq (fst e) (fst d) \<and> value_eq (snd e) (snd d)) es ds"
  "value_eq (VVariant t u) (VVariant t' w) \<longleftrightarrow> t = t' \<and> value_eq u w"
  by (auto simp: list_all2_iff list_all_iff list_ex_iff)

lemma value_eq_kind:
  "value_eq (VSet xs) v \<Longrightarrow> \<exists>ys. v = VSet ys"
  "value_eq (VSeq xs) v \<Longrightarrow> \<exists>ys. v = VSeq ys"
  "value_eq (VTuple xs) v \<Longrightarrow> \<exists>ys. v = VTuple ys"
  "value_eq (VRecord fs) v \<Longrightarrow> \<exists>gs. v = VRecord gs"
  "value_eq (VMap es) v \<Longrightarrow> \<exists>ds. v = VMap ds"
  "value_eq (VVariant t u) v \<Longrightarrow> \<exists>w. v = VVariant t w \<and> value_eq u w"
  by (auto split: Value.splits)

lemma value_eq_atom:
  "value_eq VNull v \<longleftrightarrow> v = VNull"
  "value_eq (VInt i) v \<longleftrightarrow> v = VInt i"
  "value_eq (VBool b) v \<longleftrightarrow> v = VBool b"
  "value_eq (VStr s) v \<longleftrightarrow> v = VStr s"
  "value_eq (VUnserializable s) v \<longleftrightarrow> v = VUnserializable s"
  by (auto split: Value.splits)

declare value_eq.simps [simp del]
declare value_eq_simps [simp] value_eq_atom [simp]

text \<open>Structural induction with the entries of records and maps as pairs.\<close>

lemma Value_induct [case_names VNull VInt VBool VStr VSet VSeq VTuple VRecord VMap VVariant VUnserializable]:
  assumes "P VNull" "\<And>i. P (VInt i)" "\<And>b. P (VBool b)" "\<And>s. P (VStr s)"
    and "\<And>vs. (\<And>v. v \<in> set vs \<Longrightarrow> P v) \<Longrightarrow> P (VSet vs)"
    and "\<And>vs. (\<And>v. v \<in> set vs \<Longrightarrow> P v) \<Longrightarrow> P (VSeq vs)"
    and "\<And>vs. (\<And>v. v \<in> set vs \<Longrightarrow> P v) \<Longrightarrow> P (VTuple vs)"
    and "\<And>fs. (\<And>f. f \<in> set fs \<Longrightarrow> P (snd f)) \<Longrightarrow> P (VRecord fs)"
    and "\<And>es. (\<And>e. e \<in> set es \<Longrightarrow> P (fst e) \<and> P (snd e)) \<Longrightarrow> P (VMap es)"
    and "\<And>t v. P v \<Longrightarrow> P (VVariant t v)" "\<And>s. P (VUnserializable s)"
  shows "P v"
  by (induction v) (use assms in \<open>auto\<close>)

lemma value_eq_refl [simp]: "value_eq v v"
  by (induction v rule: Value_induct) (auto simp: list_all2_same)

lemma value_eq_trans: "value_eq u v \<Longrightarrow> value_eq v w \<Longrightarrow> value_eq u w"
proof (induction u arbitrary: v w rule: Value_induct)
  case (VSet xs)
  then obtain ys zs where v: "v = VSet ys" and w: "w = VSet zs"
    using value_eq_kind(1) by metis
  have "\<exists>z \<in> set zs. value_eq x z" if "x \<in> set xs" for x
  proof -
    obtain y where "y \<in> set ys" "value_eq x y" using VSet.prems(1) v \<open>x \<in> set xs\<close> by auto
    moreover obtain z where "z \<in> set zs" "value_eq y z" using VSet.prems(2) v w calculation(1) by auto
    ultimately show ?thesis using VSet.IH \<open>x \<in> set xs\<close> by blast
  qed
  with VSet.prems v w show ?case by auto
next
  case (VSeq xs)
  then obtain ys zs where vw: "v = VSeq ys" "w = VSeq zs" using value_eq_kind(2) by metis
  have "list_all2 value_eq xs zs"
    by (rule list_all2_trans_on [of value_eq _ ys value_eq]) (use VSeq vw in auto)
  with vw show ?case by simp
next
  case (VTuple xs)
  then obtain ys zs where vw: "v = VTuple ys" "w = VTuple zs" using value_eq_kind(3) by metis
  have "list_all2 value_eq xs zs"
    by (rule list_all2_trans_on [of value_eq _ ys value_eq]) (use VTuple vw in auto)
  with vw show ?case by simp
next
  case (VRecord fs)
  let ?R = "\<lambda>f g. fst f = fst g \<and> value_eq (snd f) (snd g)"
  from VRecord.prems obtain gs hs where vw: "v = VRecord gs" "w = VRecord hs" using value_eq_kind(4) by metis
  have "list_all2 ?R fs hs"
    by (rule list_all2_trans_on [of ?R _ gs ?R]) (use VRecord vw in auto)
  with vw show ?case by simp
next
  case (VMap es)
  let ?R = "\<lambda>e d. value_eq (fst e) (fst d) \<and> value_eq (snd e) (snd d)"
  from VMap.prems obtain ds cs where vw: "v = VMap ds" "w = VMap cs" using value_eq_kind(5) by metis
  have "list_all2 ?R es cs"
  proof (rule list_all2_trans_on [of ?R _ ds ?R])
    show "?R x z" if "x \<in> set es" "?R x y" "?R y z" for x y z
      using VMap.IH [OF that(1)] that(2,3) by metis
  qed (use VMap.prems vw in auto)
  with vw show ?case by simp
next
  case (VVariant t u)
  then obtain v' w' where "v = VVariant t v'" "w = VVariant t w'" "value_eq u v'" "value_eq v' w'"
    using value_eq_kind(6) by metis
  with VVariant.IH show ?case by simp
qed auto

text \<open>
  The vector of a set is free of duplicates when no two of its positions are equal; an
  honest TLA+ set is. \<open>sets_distinct\<close> asks it of every set inside a value.
\<close>

fun sets_distinct :: "Value \<Rightarrow> bool" where
  "sets_distinct (VSet vs) =
     (sorted_wrt (\<lambda>x y. \<not> value_eq x y \<and> \<not> value_eq y x) vs \<and> list_all sets_distinct vs)"
| "sets_distinct (VSeq vs) = list_all sets_distinct vs"
| "sets_distinct (VTuple vs) = list_all sets_distinct vs"
| "sets_distinct (VRecord fs) = list_all (\<lambda>kv. sets_distinct (snd kv)) fs"
| "sets_distinct (VMap es) = list_all (\<lambda>kv. sets_distinct (fst kv) \<and> sets_distinct (snd kv)) es"
| "sets_distinct (VVariant t v) = sets_distinct v"
| "sets_distinct _ = True"

lemma sorted_wrt_distinct_nth:
  assumes "sorted_wrt (\<lambda>x y. \<not> P x y \<and> \<not> P y x) xs" "i < length xs" "j < length xs" "i \<noteq> j"
  shows "\<not> P (xs ! i) (xs ! j)"
proof (cases "i < j")
  case True
  then show ?thesis using assms sorted_wrt_nth_less by fastforce
next
  case False
  then have "j < i" using assms(4) by simp
  then show ?thesis using assms sorted_wrt_nth_less by fastforce
qed

text \<open>A one-sided matching between vectors of the same length reaches every position of the
  right one when the left one has no duplicates.\<close>

lemma matching_surjective:
  assumes len: "length xs = length ys"
    and dist: "sorted_wrt (\<lambda>x y. \<not> P x y \<and> \<not> P y x) xs"
    and match: "\<forall>x \<in> set xs. \<exists>y \<in> set ys. P x y"
    and sym: "\<And>x y. x \<in> set xs \<Longrightarrow> P x y \<Longrightarrow> P y x"
    and trans: "\<And>x y z. P x y \<Longrightarrow> P y z \<Longrightarrow> P x z"
  shows "\<forall>y \<in> set ys. \<exists>x \<in> set xs. P y x"
proof -
  let ?n = "length xs"
  have "\<forall>i. \<exists>j. i < ?n \<longrightarrow> j < ?n \<and> P (xs ! i) (ys ! j)"
    using match len by (metis in_set_conv_nth)
  then obtain g where g: "\<And>i. i < ?n \<Longrightarrow> g i < ?n \<and> P (xs ! i) (ys ! g i)"
    by metis
  have "inj_on g {..<?n}"
  proof (rule inj_onI)
    fix i i' assume i: "i \<in> {..<?n}" "i' \<in> {..<?n}" and eq: "g i = g i'"
    have "P (xs ! i) (ys ! g i)" and "P (ys ! g i) (xs ! i')"
      using g i eq sym by (metis lessThan_iff nth_mem)+
    then have "P (xs ! i) (xs ! i')" by (rule trans)
    with sorted_wrt_distinct_nth [OF dist] i show "i = i'" by auto
  qed
  moreover have "g ` {..<?n} \<subseteq> {..<?n}" using g by auto
  ultimately have surj: "g ` {..<?n} = {..<?n}" by (simp add: endo_inj_surj)
  show ?thesis
  proof
    fix y assume "y \<in> set ys"
    then obtain j where "j < ?n" "y = ys ! j" using len by (metis in_set_conv_nth)
    with surj obtain i where "i < ?n" "g i = j" by (metis imageE lessThan_iff)
    then have "P y (xs ! i)" using g sym \<open>y = ys ! j\<close> by (metis nth_mem)
    with \<open>i < ?n\<close> show "\<exists>x \<in> set xs. P y x" by (meson nth_mem)
  qed
qed

lemma value_eq_sym: "sets_distinct u \<Longrightarrow> value_eq u v \<Longrightarrow> value_eq v u"
proof (induction u arbitrary: v rule: Value_induct)
  case (VSet xs)
  then obtain ys where v: "v = VSet ys" using value_eq_kind(1) by metis
  have "\<forall>y \<in> set ys. \<exists>x \<in> set xs. value_eq y x"
  proof (rule matching_surjective [where P = value_eq])
    show "value_eq y x" if "x \<in> set xs" "value_eq x y" for x y
      using that VSet.IH VSet.prems(1) by (auto simp: list_all_iff)
  qed (use VSet.prems v value_eq_trans in auto)
  with VSet.prems v show ?case by simp
next
  case (VSeq xs)
  then obtain ys where v: "v = VSeq ys" using value_eq_kind(2) by metis
  have "list_all2 value_eq ys xs"
    by (rule list_all2_sym_on [of value_eq]) (use VSeq v in \<open>auto simp: list_all_iff\<close>)
  with v show ?case by simp
next
  case (VTuple xs)
  then obtain ys where v: "v = VTuple ys" using value_eq_kind(3) by metis
  have "list_all2 value_eq ys xs"
    by (rule list_all2_sym_on [of value_eq]) (use VTuple v in \<open>auto simp: list_all_iff\<close>)
  with v show ?case by simp
next
  case (VRecord fs)
  let ?R = "\<lambda>f g. fst f = fst g \<and> value_eq (snd f) (snd g)"
  from VRecord.prems obtain gs where v: "v = VRecord gs" using value_eq_kind(4) by metis
  have "list_all2 ?R gs fs"
    by (rule list_all2_sym_on [of ?R]) (use VRecord v in \<open>auto simp: list_all_iff\<close>)
  with v show ?case by simp
next
  case (VMap es)
  let ?R = "\<lambda>e d. value_eq (fst e) (fst d) \<and> value_eq (snd e) (snd d)"
  from VMap.prems obtain ds where v: "v = VMap ds" using value_eq_kind(5) by metis
  have "list_all2 ?R ds es"
    by (rule list_all2_sym_on [of ?R]) (use VMap v in \<open>auto simp: list_all_iff\<close>)
  with v show ?case by simp
next
  case (VVariant t u)
  then obtain w where "v = VVariant t w" "value_eq u w" using value_eq_kind(6) by metis
  with VVariant show ?case by simp
qed auto

section \<open>Facts about the codec\<close>

lemma encode_value_shape [simp]:
  "encode_value L v = JString s \<longleftrightarrow> v = VStr s"
  "encode_value L v = JArray js \<longleftrightarrow> (\<exists>vs. v = VSeq vs \<and> js = map (encode_value L) vs)"
  "JString s = encode_value L v \<longleftrightarrow> v = VStr s"
  "JArray js = encode_value L v \<longleftrightarrow> (\<exists>vs. v = VSeq vs \<and> js = map (encode_value L) vs)"
  by (cases v; auto simp: jobject_def)+

lemma jobject_single [simp]: "jobject [(k, p)] = JObject [(k, p)]"
  by (simp add: jobject_def om_build_def)

lemma jobject_variant [simp]:
  "jobject [(''tag'', p), (''value'', q)] = JObject [(''tag'', p), (''value'', q)]"
  by (simp add: jobject_def om_build_def)

lemma jobject_sorted: "om_wf kvs \<Longrightarrow> jobject kvs = JObject kvs"
  by (simp add: jobject_def)

lemma decode_bigint_printed: "lib_int_laws L \<Longrightarrow> decode_bigint L (lib_int_str L i) = Inr (VInt i)"
proof -
  assume "lib_int_laws L"
  then have dec: "decimal_syntax (lib_int_str L i)" and inv: "lib_int_of L (lib_int_str L i) = Inr i"
    by (simp_all add: lib_int_laws_def)
  from dec have "lib_int_str L i \<noteq> []" by (auto simp: decimal_syntax_def)
  with dec inv show ?thesis by (auto simp: decode_bigint_def decimal_syntax_def Let_def)
qed

text \<open>
  The records the encoder prints in the shape of an ITF marker: they are the values that
  do not survive the round trip.
\<close>

definition marker_shaped :: "(string \<times> Value) list \<Rightarrow> bool" where
  "marker_shaped fs =
     (case fs of
        [(k, VStr _)] \<Rightarrow> k = ''#bigint'' \<or> k = ''#unserializable''
      | [(k, VSeq _)] \<Rightarrow> k = ''#tup'' \<or> k = ''#set'' \<or> k = ''#map''
      | _ \<Rightarrow> length fs = 2 \<and> map_of fs ''tag'' \<noteq> None \<and> map_of fs ''value'' \<noteq> None)"

fun itf_clean :: "Value \<Rightarrow> bool" where
  "itf_clean (VSet vs) = list_all itf_clean vs"
| "itf_clean (VSeq vs) = list_all itf_clean vs"
| "itf_clean (VTuple vs) = list_all itf_clean vs"
| "itf_clean (VRecord fs) = (\<not> marker_shaped fs \<and> list_all (\<lambda>kv. itf_clean (snd kv)) fs)"
| "itf_clean (VMap es) = list_all (\<lambda>kv. itf_clean (fst kv) \<and> itf_clean (snd kv)) es"
| "itf_clean (VVariant t v) = itf_clean v"
| "itf_clean _ = True"

definition state_clean :: "State \<Rightarrow> bool" where
  "state_clean s = list_all (\<lambda>kv. itf_clean (snd kv)) s"

abbreviation enc_fields :: "json_lib \<Rightarrow> (string \<times> Value) list \<Rightarrow> (string \<times> Json) list" where
  "enc_fields L fs \<equiv> map (\<lambda>kv. (fst kv, encode_value L (snd kv))) fs"

lemma map_of_enc_fields: "map_of (enc_fields L fs) k = map_option (encode_value L) (map_of fs k)"
  by (induction fs) auto

lemma marker_string_enc:
  "marker_string k (enc_fields L fs) = Some s \<longleftrightarrow> fs = [(k, VStr s)]"
  by (cases fs) (auto simp: marker_string_Some)

lemma marker_array_enc:
  "marker_array k (enc_fields L fs) = Some js \<longleftrightarrow>
     (\<exists>vs. fs = [(k, VSeq vs)] \<and> js = map (encode_value L) vs)"
  by (cases fs) (auto simp: marker_array_Some)

lemma variant_fields_enc:
  "variant_fields (enc_fields L fs) = Some (t, p) \<longleftrightarrow>
     length fs = 2 \<and> (\<exists>u v. map_of fs ''tag'' = Some u \<and> map_of fs ''value'' = Some v
       \<and> t = encode_value L u \<and> p = encode_value L v)"
  by (auto simp: variant_fields_def map_of_enc_fields split: option.splits)

lemma marker_shaped_cases:
  "marker_shaped fs \<longleftrightarrow>
     (\<exists>s. fs = [(''#bigint'', VStr s)]) \<or> (\<exists>vs. fs = [(''#tup'', VSeq vs)]) \<or>
     (\<exists>vs. fs = [(''#set'', VSeq vs)]) \<or> (\<exists>vs. fs = [(''#map'', VSeq vs)]) \<or>
     (\<exists>s. fs = [(''#unserializable'', VStr s)]) \<or>
     (length fs = 2 \<and> map_of fs ''tag'' \<noteq> None \<and> map_of fs ''value'' \<noteq> None)"
  by (auto simp: marker_shaped_def split: list.splits prod.splits Value.splits)

lemma marker_string_enc_None:
  "marker_string k (enc_fields L fs) = None \<longleftrightarrow> (\<forall>s. fs \<noteq> [(k, VStr s)])"
  by (cases "marker_string k (enc_fields L fs)") (simp_all only: marker_string_enc, auto simp: marker_string_def)

lemma marker_array_enc_None:
  "marker_array k (enc_fields L fs) = None \<longleftrightarrow> (\<forall>vs. fs \<noteq> [(k, VSeq vs)])"
  by (cases "marker_array k (enc_fields L fs)") (simp_all only: marker_array_enc, auto simp: marker_array_def)

lemma variant_fields_enc_None:
  "variant_fields (enc_fields L fs) = None \<longleftrightarrow>
     \<not> (length fs = 2 \<and> map_of fs ''tag'' \<noteq> None \<and> map_of fs ''value'' \<noteq> None)"
  by (auto simp: variant_fields_def map_of_enc_fields split: option.splits)

lemma unmarked_record_fields:
  assumes "\<not> marker_shaped fs"
  shows "marker_string ''#bigint'' (enc_fields L fs) = None"
    and "marker_array ''#tup'' (enc_fields L fs) = None"
    and "marker_array ''#set'' (enc_fields L fs) = None"
    and "marker_array ''#map'' (enc_fields L fs) = None"
    and "marker_string ''#unserializable'' (enc_fields L fs) = None"
    and "variant_fields (enc_fields L fs) = None"
proof -
  note nm = assms [unfolded marker_shaped_cases de_Morgan_disj]
  show "marker_string ''#bigint'' (enc_fields L fs) = None"
    and "marker_array ''#tup'' (enc_fields L fs) = None"
    and "marker_array ''#set'' (enc_fields L fs) = None"
    and "marker_array ''#map'' (enc_fields L fs) = None"
    and "marker_string ''#unserializable'' (enc_fields L fs) = None"
    and "variant_fields (enc_fields L fs) = None"
    unfolding marker_string_enc_None marker_array_enc_None variant_fields_enc_None
    using nm by (elim conjE; simp)+
qed

lemma decode_unmarked_record:
  assumes "\<not> marker_shaped fs"
  shows "decode_value L (JObject (enc_fields L fs)) =
    rbind (rmapM (\<lambda>kv. rbind (decode_value L (snd kv)) (\<lambda>v. Inr (fst kv, v))) (enc_fields L fs))
      (\<lambda>fs. Inr (VRecord (om_build fs)))"
  by (simp add: unmarked_record_fields [OF assms])

lemma rmapM_fields_conv:
  "rmapM (\<lambda>kv. rbind (f (snd kv)) (\<lambda>v. Inr (fst kv, v))) (map (\<lambda>kv. (fst kv, g (snd kv))) fs) = Inr fs
    \<longleftrightarrow> (\<forall>kv \<in> set fs. f (g (snd kv)) = Inr (snd kv))"
  by (induction fs) (auto simp: result_splits)

lemma rmapM_map_conv: "rmapM f (map g xs) = Inr xs \<longleftrightarrow> (\<forall>x \<in> set xs. f (g x) = Inr x)"
  by (induction xs) (auto simp: result_splits)

lemma entry_pair_two [simp]: "entry_pair (JArray [p, q]) = Some (p, q)"
  by (simp add: entry_pair_Some)

lemma decode_bigint_not_record: "decode_bigint L s \<noteq> Inr (VRecord fs)"
  by (auto simp: decode_bigint_def Let_def split: sum.splits)

lemma markers_two_None:
  "length kvs = 2 \<Longrightarrow> marker_string k kvs = None"
  "length kvs = 2 \<Longrightarrow> marker_array k kvs = None"
  by (simp_all add: marker_string_def marker_array_def)

lemma marker_hit [simp]:
  "marker_string k [(k', JString s)] = (if k = k' then Some s else None)"
  "marker_string k [(k', JArray js)] = None"
  "marker_array k [(k', JArray js)] = (if k = k' then Some js else None)"
  "marker_array k [(k', JString s)] = None"
  by (auto simp: marker_string_def marker_array_def)

lemma variant_fields_single [simp]: "variant_fields [kv] = None"
  by (simp add: variant_fields_def)

lemma decode_variant_shaped:
  assumes "length kvs = 2" "map_of kvs ''tag'' = Some t" "map_of kvs ''value'' = Some p"
  shows "decode_value L (JObject kvs) =
    (case t of JString tag \<Rightarrow> rbind (decode_value L p) (\<lambda>v. Inr (VVariant tag v))
     | _ \<Rightarrow> Inl (JsonError ''malformed variant: tag must be a string''))"
  using assms by (simp add: markers_two_None variant_fields_def)

lemma decode_markers [simp]:
  "decode_value L (JObject [(''#bigint'', JString s)]) = decode_bigint L s"
  "decode_value L (JObject [(''#tup'', JArray js)]) = rbind (rmapM (decode_value L) js) (\<lambda>vs. Inr (VTuple vs))"
  "decode_value L (JObject [(''#set'', JArray js)]) = rbind (rmapM (decode_value L) js) (\<lambda>vs. Inr (VSet vs))"
  "decode_value L (JObject [(''#map'', JArray js)]) =
    rbind (rmapM (\<lambda>entry. case entry_pair entry of
        Some (a, b) \<Rightarrow> rbind (decode_value L a) (\<lambda>k. rbind (decode_value L b) (\<lambda>v. Inr (k, v)))
      | None \<Rightarrow> Inl (JsonError ''malformed #map: entries must be [key, value] pairs'')) js)
      (\<lambda>kvs. Inr (VMap kvs))"
  "decode_value L (JObject [(''#unserializable'', JString s)]) = Inr (VUnserializable s)"
  "decode_value L (JObject [(''tag'', JString t), (''value'', p)]) =
    rbind (decode_value L p) (\<lambda>v. Inr (VVariant t v))"
  by (simp_all add: markers_two_None variant_fields_def)

lemmas decode_object = decode_value.simps(8)
declare decode_object [simp del]

lemma decode_marked_record:
  assumes "marker_shaped fs"
  shows "decode_value L (JObject (enc_fields L fs)) \<noteq> Inr (VRecord gs)"
  using assms [unfolded marker_shaped_cases]
proof (elim disjE exE conjE)
  assume two: "length fs = 2" "map_of fs ''tag'' \<noteq> None" "map_of fs ''value'' \<noteq> None"
  then show ?thesis
    by (auto simp: decode_variant_shaped map_of_enc_fields result_splits split: Json.splits)
qed (auto simp: decode_bigint_not_record result_splits)

lemma decode_encode_record:
  assumes "om_wf fs"
  shows "decode_value L (encode_value L (VRecord fs)) = Inr (VRecord fs) \<longleftrightarrow>
    \<not> marker_shaped fs \<and> (\<forall>kv \<in> set fs. decode_value L (encode_value L (snd kv)) = Inr (snd kv))"
proof -
  let ?D = "rmapM (\<lambda>kv. rbind (decode_value L (snd kv)) (\<lambda>v. Inr (fst kv, v))) (enc_fields L fs)"
  have enc: "encode_value L (VRecord fs) = JObject (enc_fields L fs)"
    using assms by (simp add: jobject_sorted)
  have keys: "om_build gs = gs" if "?D = Inr gs" for gs
  proof -
    have "list_all2 (\<lambda>x y. fst x = fst y) (enc_fields L fs) gs"
      using that unfolding rmapM_Inr_conv
      by (rule list_all2_mono) (auto simp: result_splits)
    then have "map fst gs = map fst fs"
      by (auto simp: list_all2_conv_all_nth intro!: nth_equalityI)
    with assms show ?thesis by (simp add: om_wf_def)
  qed
  show ?thesis
  proof (cases "marker_shaped fs")
    case True
    then show ?thesis by (simp only: enc) (simp add: decode_marked_record)
  next
    case False
    have "decode_value L (JObject (enc_fields L fs)) = Inr (VRecord fs) \<longleftrightarrow> ?D = Inr fs"
      unfolding decode_unmarked_record [OF False] rbind_eq_Inr
      using keys assms by fastforce
    with False show ?thesis by (simp only: enc rmapM_fields_conv) simp
  qed
qed

lemmas codec_simps = rmapM_map_conv decode_bigint_printed

lemma decode_encode:
  assumes "lib_int_laws L"
  shows "value_wf v \<Longrightarrow> decode_value L (encode_value L v) = Inr v \<longleftrightarrow> itf_clean v"
proof (induction v rule: Value_induct)
  case (VRecord fs)
  then show ?case
    by (subst decode_encode_record) (auto simp: list_all_iff)
next
  case (VVariant t v)
  then show ?case
    by (simp add: result_splits)
qed (use assms in \<open>auto simp: result_splits codec_simps list_all_iff\<close>)

lemma decode_encode_state:
  assumes "lib_int_laws L" "state_wf s"
  shows "decode_state L (encode_state L s) = Inr s \<longleftrightarrow> state_clean s"
proof -
  let ?D = "rmapM (\<lambda>kv. rbind (decode_value L (snd kv)) (\<lambda>v. Inr (fst kv, v))) (enc_fields L s)"
  have wf: "om_wf s" "\<And>kv. kv \<in> set s \<Longrightarrow> value_wf (snd kv)"
    using assms(2) by (auto simp: state_wf_def list_all_iff)
  have "om_wf gs" if "?D = Inr gs" for gs
  proof -
    have "list_all2 (\<lambda>x y. fst x = fst y) (enc_fields L s) gs"
      using that unfolding rmapM_Inr_conv
      by (rule list_all2_mono) (auto simp: result_splits)
    then have "map fst gs = map fst s"
      by (auto simp: list_all2_conv_all_nth intro!: nth_equalityI)
    with wf show ?thesis by (simp add: om_wf_def)
  qed
  then have "decode_state L (encode_state L s) = Inr s \<longleftrightarrow> ?D = Inr s"
    unfolding encode_state_def using wf(1)
    by (fastforce simp: jobject_sorted decode_state_def rbind_eq_Inr)
  also have "\<dots> \<longleftrightarrow> (\<forall>kv \<in> set s. itf_clean (snd kv))"
    by (simp only: rmapM_fields_conv) (use wf(2) decode_encode [OF assms(1)] in auto)
  finally show ?thesis by (simp add: state_clean_def list_all_iff)
qed

text \<open>Everything the decoder builds satisfies the representation invariant.\<close>

lemma om_put_values: "list_all (\<lambda>kv. P (snd kv)) m \<Longrightarrow> P v \<Longrightarrow> list_all (\<lambda>kv. P (snd kv)) (om_put k v m)"
  by (induction k v m rule: om_put.induct) auto

lemma om_build_values: "list_all (\<lambda>kv. P (snd kv)) kvs \<Longrightarrow> list_all (\<lambda>kv. P (snd kv)) (om_build kvs)"
proof -
  have "list_all (\<lambda>kv. P (snd kv)) acc \<Longrightarrow> list_all (\<lambda>kv. P (snd kv)) kvs \<Longrightarrow>
    list_all (\<lambda>kv. P (snd kv)) (foldl (\<lambda>m kv. om_put (fst kv) (snd kv) m) acc kvs)" for acc
    by (induction kvs arbitrary: acc) (auto intro: om_put_values)
  then show "list_all (\<lambda>kv. P (snd kv)) kvs \<Longrightarrow> list_all (\<lambda>kv. P (snd kv)) (om_build kvs)"
    by (simp add: om_build_def)
qed

text \<open>Inversion of one object: the alternative that was taken.\<close>

lemma decode_object_cases:
  obtains (bigint) s where "kvs = [(''#bigint'', JString s)]"
  | (tup) js where "kvs = [(''#tup'', JArray js)]"
  | (set) js where "kvs = [(''#set'', JArray js)]"
  | (map) js where "kvs = [(''#map'', JArray js)]"
  | (unser) s where "kvs = [(''#unserializable'', JString s)]"
  | (variant) t p where "length kvs = 2" "map_of kvs ''tag'' = Some t" "map_of kvs ''value'' = Some p"
  | (rec) "decode_value L (JObject kvs) =
      rbind (rmapM (\<lambda>kv. rbind (decode_value L (snd kv)) (\<lambda>v. Inr (fst kv, v))) kvs)
        (\<lambda>fs. Inr (VRecord (om_build fs)))"
proof -
  have case_of: "(\<And>x. r = Some x \<Longrightarrow> thesis) \<Longrightarrow> (r = None \<Longrightarrow> thesis) \<Longrightarrow> thesis" for r :: "'x option"
    by (cases r) auto
  show ?thesis
  proof (rule case_of [of "marker_string ''#bigint'' kvs"], simp add: marker_string_Some bigint,
      rule case_of [of "marker_array ''#tup'' kvs"], simp add: marker_array_Some tup,
      rule case_of [of "marker_array ''#set'' kvs"], simp add: marker_array_Some set,
      rule case_of [of "marker_array ''#map'' kvs"], simp add: marker_array_Some map,
      rule case_of [of "marker_string ''#unserializable'' kvs"], simp add: marker_string_Some unser,
      rule case_of [of "variant_fields kvs"])
    fix tp assume "variant_fields kvs = Some tp"
    then show thesis
      by (auto simp: variant_fields_def split: if_splits option.splits intro: variant)
  next
    assume "marker_string ''#bigint'' kvs = None" "marker_array ''#tup'' kvs = None"
      "marker_array ''#set'' kvs = None" "marker_array ''#map'' kvs = None"
      "marker_string ''#unserializable'' kvs = None" "variant_fields kvs = None"
    then show thesis by (intro rec) (simp add: decode_object)
  qed
qed

lemma map_of_size: "map_of kvs k = Some p \<Longrightarrow> size p < size (JObject kvs)"
  using json_size_member [of "(k, p)" kvs] by (simp add: map_of_SomeD)

lemma decode_value_wf: "decode_value L j = Inr v \<Longrightarrow> value_wf v"
proof (induction "size j" arbitrary: j v rule: less_induct)
  case less
  have elems: "list_all value_wf vs" if "rmapM (decode_value L) js = Inr vs" "\<And>p. p \<in> set js \<Longrightarrow> size p < size j" for js vs
    using rmapM_pres [OF that(1)] less.hyps that(2) by blast
  show ?case
  proof (cases j)
    case (JArray js)
    then show ?thesis using less.prems elems json_size_element [of _ js] by (auto simp: result_splits)
  next
    case (JObject kvs)
    have sub: "size p < size j" if "p \<in> set js" "kvs = [(k, JArray js)]" for p js k
      using json_size_element [OF that(1)] JObject that(2) by simp
    show ?thesis
    proof (cases rule: decode_object_cases [where kvs = kvs and L = L])
      case (bigint s)
      then show ?thesis using less.prems JObject
        by (auto simp: decode_bigint_def Let_def split: if_splits sum.splits)
    next
      case (tup js)
      then show ?thesis using less.prems JObject elems [OF _ sub [OF _ tup]]
        by (auto simp: result_splits)
    next
      case (set js)
      then show ?thesis using less.prems JObject elems [OF _ sub [OF _ set]]
        by (auto simp: result_splits)
    next
      case (map js)
      let ?entry = "\<lambda>entry. case entry_pair entry of
          Some (a, b) \<Rightarrow> rbind (decode_value L a) (\<lambda>k. rbind (decode_value L b) (\<lambda>v. Inr (k, v)))
        | None \<Rightarrow> Inl (JsonError ''malformed #map: entries must be [key, value] pairs'')"
      obtain es where es: "rmapM ?entry js = Inr es" "v = VMap es"
        using less.prems JObject map by (auto simp: result_splits)
      have "list_all (\<lambda>kv. value_wf (fst kv) \<and> value_wf (snd kv)) es"
      proof (rule rmapM_pres [OF es(1)])
        fix e kv assume e: "e \<in> set js" "?entry e = Inr kv"
        then obtain a b where ab: "e = JArray [a, b]"
          by (auto split: option.splits simp: entry_pair_Some)
        have "size a < size j" "size b < size j"
          using json_size_element [OF e(1)] JObject map ab by auto
        then show "value_wf (fst kv) \<and> value_wf (snd kv)"
          using less.hyps e(2) ab by (auto simp: result_splits)
      qed
      with es show ?thesis by simp
    next
      case (unser s)
      then show ?thesis using less.prems JObject by auto
    next
      case (variant t p)
      then have "size p < size j" using map_of_size JObject by simp
      then show ?thesis using less.prems less.hyps JObject variant
        by (auto simp: decode_variant_shaped result_splits split: Json.splits)
    next
      case rec
      obtain fs where fs: "rmapM (\<lambda>kv. rbind (decode_value L (snd kv)) (\<lambda>v. Inr (fst kv, v))) kvs = Inr fs"
        "v = VRecord (om_build fs)"
        using less.prems JObject rec by (auto simp: result_splits)
      have "list_all (\<lambda>kv. value_wf (snd kv)) fs"
      proof (rule rmapM_pres [OF fs(1)])
        fix kv kv' assume kv: "kv \<in> set kvs" "rbind (decode_value L (snd kv)) (\<lambda>v. Inr (fst kv, v)) = Inr kv'"
        then have "size (snd kv) < size j" using json_size_member JObject by simp
        then show "value_wf (snd kv')" using less.hyps kv(2) by (auto simp: result_splits)
      qed
      then show ?thesis using fs by (simp add: om_build_values)
    qed
  qed (use less.prems in \<open>auto split: if_splits\<close>)
qed

text \<open>The exceptions of the decoder: \<^verbatim>\<open>JsonError\<close>, an exception of the JSON library, or the one the
  integer constructor throws.\<close>

definition codec_exn :: "json_lib \<Rightarrow> exn \<Rightarrow> bool" where
  "codec_exn L e = (case e of
     JsonError m \<Rightarrow> True | JsonLibError m \<Rightarrow> True | StdException w \<Rightarrow> (\<exists>s. lib_int_of L s = Inl w) | _ \<Rightarrow> False)"

lemma codec_exn_simps [simp]: "codec_exn L (JsonError m)" "codec_exn L (JsonLibError m)"
  by (simp_all add: codec_exn_def)

lemma decode_value_exn: "decode_value L j = Inl e \<Longrightarrow> codec_exn L e"
proof (induction "size j" arbitrary: j e rule: less_induct)
  case less
  have elems: "codec_exn L e" if "rmapM (decode_value L) js = Inl e" "\<And>p. p \<in> set js \<Longrightarrow> size p < size j" for js e
    using rmapM_Inl_conv [OF that(1)] less.hyps that(2) by blast
  show ?case
  proof (cases j)
    case (JArray js)
    then show ?thesis using less.prems elems json_size_element [of _ js] by (auto simp: result_splits)
  next
    case (JObject kvs)
    have sub: "size p < size j" if "p \<in> set js" "kvs = [(k, JArray js)]" for p js k
      using json_size_element [OF that(1)] JObject that(2) by simp
    show ?thesis
    proof (cases rule: decode_object_cases [where kvs = kvs and L = L])
      case (bigint s)
      then show ?thesis using less.prems JObject
        by (auto simp: decode_bigint_def malformed_bigint_def codec_exn_def Let_def split: if_splits sum.splits)
    next
      case (tup js)
      then show ?thesis using less.prems JObject elems [OF _ sub [OF _ tup]]
        by (auto simp: result_splits)
    next
      case (set js)
      then show ?thesis using less.prems JObject elems [OF _ sub [OF _ set]]
        by (auto simp: result_splits)
    next
      case (map js)
      let ?entry = "\<lambda>entry. case entry_pair entry of
          Some (a, b) \<Rightarrow> rbind (decode_value L a) (\<lambda>k. rbind (decode_value L b) (\<lambda>v. Inr (k, v)))
        | None \<Rightarrow> Inl (JsonError ''malformed #map: entries must be [key, value] pairs'')"
      have "rmapM ?entry js = Inl e"
        using less.prems JObject map by (auto simp: result_splits)
      from rmapM_Inl_conv [OF this] obtain en where en: "en \<in> set js" "?entry en = Inl e" by blast
      show ?thesis
      proof (cases "entry_pair en")
        case (Some ab)
        obtain a b where ab: "ab = (a, b)" by (cases ab)
        with Some have eq: "en = JArray [a, b]" by (simp add: entry_pair_Some)
        have "size a < size j" "size b < size j"
          using json_size_element [OF en(1)] JObject map eq by auto
        then show ?thesis using less.hyps en(2) eq by (auto simp: result_splits)
      qed (use en in auto)
    next
      case (unser s)
      then show ?thesis using less.prems JObject by auto
    next
      case (variant t p)
      then have "size p < size j" using map_of_size JObject by simp
      then show ?thesis using less.prems less.hyps JObject variant
        by (auto simp: decode_variant_shaped result_splits split: Json.splits)
    next
      case rec
      have "rmapM (\<lambda>kv. rbind (decode_value L (snd kv)) (\<lambda>v. Inr (fst kv, v))) kvs = Inl e"
        using less.prems JObject rec by (auto simp: result_splits)
      from rmapM_Inl_conv [OF this] obtain kv where "kv \<in> set kvs" "decode_value L (snd kv) = Inl e"
        by (auto simp: result_splits)
      moreover have "size (snd kv) < size j" using json_size_member [OF \<open>kv \<in> set kvs\<close>] JObject by simp
      ultimately show ?thesis using less.hyps by blast
    qed
  qed (use less.prems in \<open>auto split: if_splits\<close>)
qed

lemma decode_state_exn:
  assumes "decode_state L j = Inl e"
  shows "codec_exn L e"
  using assms decode_value_exn
  by (auto simp: decode_state_def result_splits split: Json.splits dest!: rmapM_Inl_conv)

lemma wp_decode_value: "wp (decode_value L j) value_wf (codec_exn L)"
  by (rule wpI) (auto dest: decode_value_wf decode_value_exn)

lemma decode_state_result:
  assumes "decode_state L j = Inr s"
  shows "state_wf s"
proof -
  obtain kvs fs where fs: "rmapM (\<lambda>kv. rbind (decode_value L (snd kv)) (\<lambda>v. Inr (fst kv, v))) kvs = Inr fs"
    "s = om_build fs"
    using assms by (auto simp: decode_state_def result_splits split: Json.splits)
  have "list_all (\<lambda>kv. value_wf (snd kv)) fs"
    by (rule rmapM_pres [OF fs(1)]) (auto simp: result_splits dest: decode_value_wf)
  with fs(2) show ?thesis by (simp add: state_wf_def om_build_values)
qed

lemma wp_decode_state: "wp (decode_state L j) state_wf (codec_exn L)"
  by (rule wpI) (auto dest: decode_state_result decode_state_exn)

section \<open>Properties\<close>

text \<open>Value equality is reflexive and transitive on all values, and symmetric from a left
  operand whose sets hold no duplicates.\<close>

theorem value_eq_equivalence:
  "value_eq u u \<and> (value_eq u v \<and> value_eq v w \<longrightarrow> value_eq u w) \<and>
   (sets_distinct u \<and> value_eq u v \<longrightarrow> value_eq v u)"
  using value_eq_trans value_eq_sym by auto

theorem value_eq_equivalence_witness:
  "value_eq (VSet [VInt 2, VInt 1]) (VSet [VInt 1, VInt 2]) \<and> sets_distinct (VSet [VInt 2, VInt 1]) \<and>
   value_eq (VSet [VInt 1, VInt 2]) (VSet [VInt 2, VInt 1])"
  using value_eq_equivalence [of "VSet [VInt 2, VInt 1]" "VSet [VInt 1, VInt 2]"] by simp

text \<open>The documented meaning of set equality, same length and mutual membership, is what the
  code computes when the left vector holds no duplicates.\<close>

theorem value_eq_set_contract:
  assumes "sets_distinct (VSet xs)"
  shows "value_eq (VSet xs) (VSet ys) \<longleftrightarrow>
    length xs = length ys \<and> (\<forall>x \<in> set xs. \<exists>y \<in> set ys. value_eq x y) \<and>
    (\<forall>y \<in> set ys. \<exists>x \<in> set xs. value_eq y x)"
  using value_eq_sym [OF assms, of "VSet ys"] by auto

theorem value_eq_set_contract_witness:
  "sets_distinct (VSet [VInt 1, VStr ''a'']) \<and> value_eq (VSet [VInt 1, VStr ''a'']) (VSet [VStr ''a'', VInt 1])"
  using value_eq_set_contract [of "[VInt 1, VStr ''a'']" "[VStr ''a'', VInt 1]"] by simp

text \<open>With a duplicate in the left vector the code accepts a pair of sets that it rejects in
  the other order, so equality is not symmetric and is weaker than mutual membership.\<close>

theorem value_eq_duplicates_asymmetric:
  "value_eq (VSet [VInt 1, VInt 1]) (VSet [VInt 1, VInt 2]) \<and>
   \<not> value_eq (VSet [VInt 1, VInt 2]) (VSet [VInt 1, VInt 1])"
  by simp

text \<open>C3: Decoding what was encoded gives the value back exactly when no record inside it has
  the shape of an ITF marker.\<close>

theorem decode_encode_iff:
  assumes "lib_int_laws L" "value_wf v"
  shows "decode_value L (encode_value L v) = Inr v \<longleftrightarrow> itf_clean v"
  using decode_encode [OF assms] .

theorem decode_encode_iff_witness:
  "lib_int_laws (ref_lib []) \<and>
   value_wf (VSet [VRecord [(''a'', VInt 1)], VMap [(VStr ''k'', VNull)]]) \<and>
   decode_value (ref_lib []) (encode_value (ref_lib []) (VSet [VRecord [(''a'', VInt 1)], VMap [(VStr ''k'', VNull)]]))
     = Inr (VSet [VRecord [(''a'', VInt 1)], VMap [(VStr ''k'', VNull)]])"
  using decode_encode_iff [of "ref_lib []" "VSet [VRecord [(''a'', VInt 1)], VMap [(VStr ''k'', VNull)]]"]
  by (simp add: om_wf_def marker_shaped_def)

text \<open>The same for whole states: encoding then decoding a state is the identity exactly when
  each variable's value is free of marker-shaped records.\<close>

theorem state_roundtrip_iff:
  assumes "lib_int_laws L" "state_wf s"
  shows "decode_state L (encode_state L s) = Inr s \<longleftrightarrow> state_clean s"
  using decode_encode_state [OF assms] .

theorem state_roundtrip_iff_witness:
  "lib_int_laws (ref_lib []) \<and> state_wf [(''x'', VInt 3), (''y'', VTuple [VBool True])] \<and>
   decode_state (ref_lib []) (encode_state (ref_lib []) [(''x'', VInt 3), (''y'', VTuple [VBool True])])
     = Inr [(''x'', VInt 3), (''y'', VTuple [VBool True])]"
  using state_roundtrip_iff [of "ref_lib []" "[(''x'', VInt 3), (''y'', VTuple [VBool True])]"]
  by (simp add: state_wf_def om_wf_def state_clean_def)

text \<open>A state the decoder returns satisfies the representation invariant: sorted, duplicate-free
  keys at the top and in every nested record, whatever the document was.\<close>

theorem decode_state_wf:
  assumes "decode_state L j = Inr s"
  shows "state_wf s"
  using decode_state_result [OF assms] .

theorem decode_state_wf_witness:
  "decode_state (ref_lib []) (JObject [(''b'', JInteger 7), (''a'', JArray [JNull])])
     = Inr [(''a'', VSeq [VNull]), (''b'', VInt 7)] \<and>
   state_wf [(''a'', VSeq [VNull]), (''b'', VInt 7)]"
  using decode_state_wf [of "ref_lib []" "JObject [(''b'', JInteger 7), (''a'', JArray [JNull])]"
      "[(''a'', VSeq [VNull]), (''b'', VInt 7)]"]
  by (simp add: decode_state_def om_build_def)

text \<open>A two-field object with the keys tag and value is never decoded as a record: with a tag
  that is no string the decoder throws, so an ordinary record of that shape encodes but does
  not decode.\<close>

theorem tag_value_record_rejected:
  assumes "om_wf [(''tag'', u), (''value'', v)]" "as_str u = None"
  shows "decode_value L (encode_value L (VRecord [(''tag'', u), (''value'', v)])) =
    Inl (JsonError ''malformed variant: tag must be a string'')"
proof -
  have "encode_value L u \<noteq> JString t" for t using assms(2) by (auto simp: as_str_def)
  moreover have "encode_value L (VRecord [(''tag'', u), (''value'', v)]) =
    JObject [(''tag'', encode_value L u), (''value'', encode_value L v)]"
    by simp
  ultimately show ?thesis
    by (simp only:) (simp add: decode_variant_shaped split: Json.splits)
qed

theorem tag_value_record_rejected_witness:
  "decode_value (ref_lib []) (encode_value (ref_lib []) (VRecord [(''tag'', VInt 1), (''value'', VNull)])) =
    Inl (JsonError ''malformed variant: tag must be a string'')"
  by (rule tag_value_record_rejected) (simp_all add: om_wf_def as_str_def)

end
