(* ===== verification/Error_Model.thy ===== *)
theory Error_Model
  imports Value_Codec
begin

text \<open>
  \<^verbatim>\<open>include/mirrorcpp/error.hpp\<close>, with the diff-hint types of \<^verbatim>\<open>include/mirrorcpp/protocol.hpp\<close>
  that an \<^verbatim>\<open>Error\<close> carries. \<open>'a result\<close> is \<^verbatim>\<open>Result<T>\<close>; a function that may also throw
  returns \<open>'a outcome\<close>, with the exception on the left.
\<close>

datatype DiffHintKind =
  DH_value_mismatch | DH_missing | DH_extra | DH_missing_elem | DH_extra_elem | DH_type_mismatch | DH_truncated

datatype PathSeg = SegField string | SegIndex "64 word"

record DiffHint =
  hint_kind :: DiffHintKind
  hint_path :: "PathSeg list"
  hint_expected :: "Value option"
  hint_actual :: "Value option"

datatype ErrorKind =
  EK_io | EK_spawn | EK_json | EK_protocol | EK_registration | EK_spec_invalid | EK_step_mismatch
| EK_tls | EK_registry | EK_spec_source | EK_model_interface

record Error =
  err_kind :: ErrorKind
  err_message :: string
  err_code :: "string option"
  err_expected :: "State option"
  err_actual :: "State option"
  err_hints :: "DiffHint list option"

type_synonym 'a result = "Error + 'a"
type_synonym 'a outcome = "exn + 'a result"

definition error_kind_name :: "ErrorKind \<Rightarrow> string" where
  "error_kind_name k = (case k of
     EK_io \<Rightarrow> ''io'' | EK_spawn \<Rightarrow> ''spawn'' | EK_json \<Rightarrow> ''json'' | EK_protocol \<Rightarrow> ''protocol''
   | EK_registration \<Rightarrow> ''registration'' | EK_spec_invalid \<Rightarrow> ''spec_invalid''
   | EK_step_mismatch \<Rightarrow> ''step_mismatch'' | EK_tls \<Rightarrow> ''tls'' | EK_registry \<Rightarrow> ''registry''
   | EK_spec_source \<Rightarrow> ''spec_source'' | EK_model_interface \<Rightarrow> ''model_interface'')"

definition make_error :: "ErrorKind \<Rightarrow> string \<Rightarrow> Error" where
  "make_error k m = \<lparr> err_kind = k, err_message = m, err_code = None, err_expected = None,
     err_actual = None, err_hints = None \<rparr>"

definition make_error_code :: "ErrorKind \<Rightarrow> string \<Rightarrow> string \<Rightarrow> Error" where
  "make_error_code k m c = \<lparr> err_kind = k, err_message = m, err_code = Some c, err_expected = None,
     err_actual = None, err_hints = None \<rparr>"

definition make_step_mismatch ::
  "string \<Rightarrow> State option \<Rightarrow> State option \<Rightarrow> DiffHint list option \<Rightarrow> Error" where
  "make_step_mismatch m e a h = \<lparr> err_kind = EK_step_mismatch, err_message = m, err_code = None,
     err_expected = e, err_actual = a, err_hints = h \<rparr>"

definition is_step_mismatch :: "Error \<Rightarrow> bool" where
  "is_step_mismatch e = (err_kind e = EK_step_mismatch)"

lemma make_error_sel [simp]:
  "err_kind (make_error k m) = k" "err_message (make_error k m) = m" "err_code (make_error k m) = None"
  "err_kind (make_error_code k m c) = k" "err_message (make_error_code k m c) = m"
  "err_kind (make_step_mismatch m e a h) = EK_step_mismatch"
  "err_expected (make_step_mismatch m e a h) = e" "err_actual (make_step_mismatch m e a h) = a"
  "err_hints (make_step_mismatch m e a h) = h"
  by (simp_all add: make_error_def make_error_code_def make_step_mismatch_def)

lemma error_kind_name_inj: "error_kind_name k = error_kind_name k' \<longleftrightarrow> k = k'"
  by (cases k; cases k'; simp add: error_kind_name_def)

text \<open>Sequencing of outcomes: an exception or an error ends the computation.\<close>

definition obind :: "'a outcome \<Rightarrow> ('a \<Rightarrow> 'b outcome) \<Rightarrow> 'b outcome" where
  "obind r f = (case r of Inl x \<Rightarrow> Inl x | Inr (Inl e) \<Rightarrow> Inr (Inl e) | Inr (Inr v) \<Rightarrow> f v)"

lemma obind_simps [simp]:
  "obind (Inl x) f = Inl x" "obind (Inr (Inl e)) f = Inr (Inl e)" "obind (Inr (Inr v)) f = f v"
  by (simp_all add: obind_def)

end
