(* ===== verification/Protocol_Messages.thy ===== *)
theory Protocol_Messages
  imports Error_Model
begin

text \<open>
  The message types and the codec of \<^verbatim>\<open>include/mirrorcpp/protocol.hpp\<close> and \<^verbatim>\<open>src/protocol.cpp\<close>:
  the nineteen client messages and their JSON form, the twenty mirror messages and their
  decoder, and the rendering of diff hints. \<open>decode_tagged\<close> is the \<^verbatim>\<open>try\<close> block of
  \<^verbatim>\<open>decode_mirror_message\<close>; it throws, and \<open>decode_mirror_message\<close> has the two handlers.
\<close>

section \<open>Message types\<close>

datatype TransitionStatus = TS_enabled | TS_disabled | TS_unknown
datatype InvariantStatus = IS_satisfied | IS_violated | IS_unknown
datatype JobKind = JK_validate | JK_gen_traces
datatype JobPhase = JP_pending | JP_running | JP_done | JP_failed | JP_cancelled | JP_unknown

record ApalacheConfig =
  spec_path :: string
  init_predicate :: "string option"
  next_predicate :: "string option"
  const_init :: "string option"
  invariant :: string
  length_bound :: "64 word"
  param_vars :: string

record TraceGenerationConfig =
  num_traces :: "64 word"
  view :: "string option"

record ApalacheSpec =
  spec_sources :: "string list"

datatype ClientMessage =
    Register ApalacheConfig TraceGenerationConfig "ApalacheSpec option"
  | RegisterTraces ApalacheConfig "string list"
  | RegisterTraceGen ApalacheConfig TraceGenerationConfig "string option" "ApalacheSpec option"
  | RegisterExplore ApalacheSpec "string list" "string list" "64 word option"
  | RegisterExploreSession ApalacheSpec "string list" "string list"
  | RegisterValidate ApalacheConfig "64 word" "ApalacheSpec option"
  | RegisterValidateAsync ApalacheConfig "64 word" "ApalacheSpec option"
  | RegisterTraceGenAsync ApalacheConfig TraceGenerationConfig "string option" "ApalacheSpec option"
  | QueryJob string
  | AwaitJob string "64 word option"
  | CancelJob string
  | ExploreAssumeTransition "64 word"
  | ExploreNextStep
  | ExploreQueryState
  | ExploreCheckInvariant "64 word"
  | ExploreAssumeState State
  | ExploreRollback "64 word"
  | ExploreDone
  | ReportState State

text \<open>The verdict of \<^verbatim>\<open>SpecValidated\<close>: \<open>None\<close> is valid, \<open>Some text\<close> the reason of invalidity.\<close>

type_synonym verdict = "string option"

datatype JobOutcome =
    OutcomeValidate verdict
  | OutcomeGenTraces "string list" "Json list"
  | OutcomeError string

datatype MirrorMessage =
    SpecValidated verdict
  | InitialState string State
  | NextStep string State
  | StepOk
  | AllStepsDone
  | ExploreSessionDone
  | StepMismatch State State "DiffHint list"
  | GenTracesDone "string list" "Json list"
  | RegisterError string
  | ProtocolError string
  | ExplorerReady "64 word" "64 word" "64 word"
  | ExploreTransitionStatus TransitionStatus
  | ExploreStepDone "64 word"
  | ExploreState State
  | ExploreInvariantStatus InvariantStatus
  | ExploreAssumeStatus TransitionStatus
  | ExploreRollbackDone "64 word"
  | JobAccepted string JobKind
  | JobStatus string JobPhase
  | JobResult string JobOutcome

section \<open>Tag names\<close>

definition client_message_name :: "ClientMessage \<Rightarrow> string" where
  "client_message_name msg = (case msg of
     Register _ _ _ \<Rightarrow> ''register''
   | RegisterTraces _ _ \<Rightarrow> ''register_traces''
   | RegisterTraceGen _ _ _ _ \<Rightarrow> ''register_trace_gen''
   | RegisterExplore _ _ _ _ \<Rightarrow> ''register_explore''
   | RegisterExploreSession _ _ _ \<Rightarrow> ''register_explore_session''
   | RegisterValidate _ _ _ \<Rightarrow> ''register_validate''
   | RegisterValidateAsync _ _ _ \<Rightarrow> ''register_validate_async''
   | RegisterTraceGenAsync _ _ _ _ \<Rightarrow> ''register_trace_gen_async''
   | QueryJob _ \<Rightarrow> ''query_job''
   | AwaitJob _ _ \<Rightarrow> ''await_job''
   | CancelJob _ \<Rightarrow> ''cancel_job''
   | ExploreAssumeTransition _ \<Rightarrow> ''explore_assume_transition''
   | ExploreNextStep \<Rightarrow> ''explore_next_step''
   | ExploreQueryState \<Rightarrow> ''explore_query_state''
   | ExploreCheckInvariant _ \<Rightarrow> ''explore_check_invariant''
   | ExploreAssumeState _ \<Rightarrow> ''explore_assume_state''
   | ExploreRollback _ \<Rightarrow> ''explore_rollback''
   | ExploreDone \<Rightarrow> ''explore_done''
   | ReportState _ \<Rightarrow> ''report_state'')"

definition mirror_message_name :: "MirrorMessage \<Rightarrow> string" where
  "mirror_message_name msg = (case msg of
     SpecValidated _ \<Rightarrow> ''spec_validated''
   | InitialState _ _ \<Rightarrow> ''initial_state''
   | NextStep _ _ \<Rightarrow> ''next_step''
   | StepOk \<Rightarrow> ''step_ok''
   | AllStepsDone \<Rightarrow> ''all_steps_done''
   | ExploreSessionDone \<Rightarrow> ''explore_session_done''
   | StepMismatch _ _ _ \<Rightarrow> ''step_mismatch''
   | GenTracesDone _ _ \<Rightarrow> ''gen_traces_done''
   | RegisterError _ \<Rightarrow> ''register_error''
   | ProtocolError _ \<Rightarrow> ''protocol_error''
   | ExplorerReady _ _ _ \<Rightarrow> ''explorer_ready''
   | ExploreTransitionStatus _ \<Rightarrow> ''explore_transition_status''
   | ExploreStepDone _ \<Rightarrow> ''explore_step_done''
   | ExploreState _ \<Rightarrow> ''explore_state''
   | ExploreInvariantStatus _ \<Rightarrow> ''explore_invariant_status''
   | ExploreAssumeStatus _ \<Rightarrow> ''explore_assume_status''
   | JobAccepted _ _ \<Rightarrow> ''job_accepted''
   | JobStatus _ _ \<Rightarrow> ''job_status''
   | JobResult _ _ \<Rightarrow> ''job_result''
   | ExploreRollbackDone _ \<Rightarrow> ''explore_rollback_done'')"

section \<open>Encoding of client messages\<close>

definition json_strings :: "string list \<Rightarrow> Json" where
  "json_strings ss = JArray (map JString ss)"

definition encode_apalache_config :: "ApalacheConfig \<Rightarrow> Json" where
  "encode_apalache_config c = jobject (
     [(''specPath'', JString (spec_path c))]
     @ opt_field ''initPredicate'' JString (init_predicate c)
     @ opt_field ''nextPredicate'' JString (next_predicate c)
     @ opt_field ''constInit'' JString (const_init c)
     @ [(''invariant'', JString (invariant c)),
        (''lengthBound'', json_of_ll (length_bound c)),
        (''paramVars'', JString (param_vars c))])"

definition encode_trace_config :: "TraceGenerationConfig \<Rightarrow> Json" where
  "encode_trace_config t = jobject (
     [(''numTraces'', json_of_ll (num_traces t))] @ opt_field ''view'' JString (view t))"

definition encode_spec :: "ApalacheSpec \<Rightarrow> Json" where
  "encode_spec s = jobject [(''sources'', json_strings (spec_sources s))]"

definition client_fields :: "json_lib \<Rightarrow> ClientMessage \<Rightarrow> (string \<times> Json) list" where
  "client_fields L msg = (case msg of
     Register cfg tc spec \<Rightarrow>
       [(''apalacheConfig'', encode_apalache_config cfg), (''traceConfig'', encode_trace_config tc)]
       @ opt_field ''spec'' encode_spec spec
   | RegisterTraces cfg paths \<Rightarrow>
       [(''apalacheConfig'', encode_apalache_config cfg), (''itfTracePaths'', json_strings paths)]
   | RegisterTraceGen cfg tc dest spec \<Rightarrow>
       [(''apalacheConfig'', encode_apalache_config cfg), (''traceConfig'', encode_trace_config tc)]
       @ opt_field ''destPath'' JString dest @ opt_field ''spec'' encode_spec spec
   | RegisterExplore spec invs exps ms \<Rightarrow>
       [(''spec'', encode_spec spec), (''invariants'', json_strings invs), (''exports'', json_strings exps)]
       @ opt_field ''maxSteps'' json_of_ll ms
   | RegisterExploreSession spec invs exps \<Rightarrow>
       [(''spec'', encode_spec spec), (''invariants'', json_strings invs), (''exports'', json_strings exps)]
   | RegisterValidate cfg bound spec \<Rightarrow>
       [(''apalacheConfig'', encode_apalache_config cfg), (''bound'', json_of_ll bound)]
       @ opt_field ''spec'' encode_spec spec
   | RegisterValidateAsync cfg bound spec \<Rightarrow>
       [(''apalacheConfig'', encode_apalache_config cfg), (''bound'', json_of_ll bound)]
       @ opt_field ''spec'' encode_spec spec
   | RegisterTraceGenAsync cfg tc dest spec \<Rightarrow>
       [(''apalacheConfig'', encode_apalache_config cfg), (''traceConfig'', encode_trace_config tc)]
       @ opt_field ''destPath'' JString dest @ opt_field ''spec'' encode_spec spec
   | QueryJob jid \<Rightarrow> [(''jobId'', JString jid)]
   | AwaitJob jid timeout \<Rightarrow> [(''jobId'', JString jid)] @ opt_field ''timeoutSecs'' json_of_ll timeout
   | CancelJob jid \<Rightarrow> [(''jobId'', JString jid)]
   | ExploreAssumeTransition t \<Rightarrow> [(''transitionId'', json_of_ll t)]
   | ExploreNextStep \<Rightarrow> []
   | ExploreQueryState \<Rightarrow> []
   | ExploreCheckInvariant i \<Rightarrow> [(''invariantId'', json_of_ll i)]
   | ExploreAssumeState s \<Rightarrow> [(''state'', encode_state L s)]
   | ExploreRollback s \<Rightarrow> [(''snapshotId'', json_of_ll s)]
   | ExploreDone \<Rightarrow> []
   | ReportState s \<Rightarrow> [(''state'', encode_state L s)])"

definition client_json :: "json_lib \<Rightarrow> ClientMessage \<Rightarrow> Json" where
  "client_json L msg = jobject ((''proto_step'', JString (client_message_name msg)) # client_fields L msg)"

definition encode_client_message :: "json_lib \<Rightarrow> ClientMessage \<Rightarrow> exn + string" where
  "encode_client_message L msg =
     (case lib_dump L (client_json L msg) of Inl what \<Rightarrow> Inl (JsonLibError what) | Inr s \<Rightarrow> Inr s)"

section \<open>Checked access to documents\<close>

definition require_object :: "Json \<Rightarrow> string \<Rightarrow> exn + Json" where
  "require_object j what = (if \<not> is_object j then Inl (JsonError (what @ '': expected object'')) else Inr j)"

definition require_string :: "Json \<Rightarrow> string \<Rightarrow> exn + string" where
  "require_string j what =
     (case j of JString s \<Rightarrow> Inr s | _ \<Rightarrow> Inl (JsonError (what @ '': expected string'')))"

definition require_int :: "Json \<Rightarrow> string \<Rightarrow> exn + 64 word" where
  "require_int j what =
     (if \<not> is_number_integer j then Inl (JsonError (what @ '': expected integer'')) else Inr (get_long_long j))"

definition require_string_array :: "Json \<Rightarrow> string \<Rightarrow> exn + string list" where
  "require_string_array j what =
     (case j of
        JArray js \<Rightarrow> rmapM (\<lambda>e. require_string e what) js
      | _ \<Rightarrow> Inl (JsonError (what @ '': expected array'')))"

section \<open>Decoding of mirror messages\<close>

definition diff_hint_kind_from_string :: "string \<Rightarrow> exn + DiffHintKind" where
  "diff_hint_kind_from_string s =
     (if s = ''value_mismatch'' then Inr DH_value_mismatch
      else if s = ''missing'' then Inr DH_missing
      else if s = ''extra'' then Inr DH_extra
      else if s = ''missing_elem'' then Inr DH_missing_elem
      else if s = ''extra_elem'' then Inr DH_extra_elem
      else if s = ''type_mismatch'' then Inr DH_type_mismatch
      else if s = ''truncated'' then Inr DH_truncated
      else Inl (JsonError (''unknown diff hint kind: '' @ s)))"

definition path_seg_message :: string where
  "path_seg_message = ''diff hint path segment must be {'' @ [quote] @ ''field'' @ [quote]
     @ '': name} or {'' @ [quote] @ ''index'' @ [quote] @ '': n}''"

definition decode_path_seg :: "Json \<Rightarrow> exn + PathSeg" where
  "decode_path_seg j =
     (case jfind ''field'' j of
        Some (JString f) \<Rightarrow> Inr (SegField f)
      | _ \<Rightarrow>
          (case jfind ''index'' j of
             Some i \<Rightarrow>
               (if is_number_integer i then Inr (SegIndex (get_long_long i))
                else Inl (JsonError path_seg_message))
           | None \<Rightarrow> Inl (JsonError path_seg_message)))"

text \<open>An optional member: absent and null both leave the field empty.\<close>

definition decode_opt_value :: "json_lib \<Rightarrow> string \<Rightarrow> Json \<Rightarrow> exn + Value option" where
  "decode_opt_value L k j =
     (case jfind k j of
        None \<Rightarrow> Inr None
      | Some x \<Rightarrow> (if is_null x then Inr None else rbind (decode_value L x) (\<lambda>v. Inr (Some v))))"

text \<open>An optional array member: anything but an array is ignored.\<close>

definition opt_array :: "string \<Rightarrow> Json \<Rightarrow> Json list" where
  "opt_array k j = (case jfind k j of Some (JArray js) \<Rightarrow> js | _ \<Rightarrow> [])"

definition decode_diff_hint :: "json_lib \<Rightarrow> Json \<Rightarrow> exn + DiffHint" where
  "decode_diff_hint L j =
     rbind (require_object j ''diff hint'') (\<lambda>_.
     rbind (jat L ''kind'' j) (\<lambda>k.
     rbind (require_string k ''diff hint kind'') (\<lambda>ks.
     rbind (diff_hint_kind_from_string ks) (\<lambda>kind.
     rbind (rmapM decode_path_seg (opt_array ''path'' j)) (\<lambda>path.
     rbind (decode_opt_value L ''expected'' j) (\<lambda>e.
     rbind (decode_opt_value L ''actual'' j) (\<lambda>a.
       Inr \<lparr> hint_kind = kind, hint_path = path, hint_expected = e, hint_actual = a \<rparr>)))))))"

definition decode_state_field :: "json_lib \<Rightarrow> string \<Rightarrow> Json \<Rightarrow> exn + State" where
  "decode_state_field L k j =
     (case jfind k j of None \<Rightarrow> Inl (JsonError (''missing '' @ k)) | Some x \<Rightarrow> decode_state L x)"

definition validate_message :: string where
  "validate_message = ''validate result: expected '' @ [quote] @ ''valid'' @ [quote] @ '' or {'' @ [quote]
     @ ''invalid'' @ [quote] @ '': text}''"

definition decode_validate_result :: "Json \<Rightarrow> exn + verdict" where
  "decode_validate_result r =
     (if r = JString ''valid'' then Inr None
      else case jfind ''invalid'' r of
        Some (JString t) \<Rightarrow> Inr (Some t)
      | _ \<Rightarrow> Inl (JsonError validate_message))"

definition decode_spec_validated :: "json_lib \<Rightarrow> Json \<Rightarrow> exn + MirrorMessage" where
  "decode_spec_validated L j =
     rbind (require_object j ''spec_validated'') (\<lambda>_.
     rbind (jat L ''result'' j) (\<lambda>r.
     rbind (decode_validate_result r) (\<lambda>v. Inr (SpecValidated v))))"

definition decode_step_mismatch :: "json_lib \<Rightarrow> Json \<Rightarrow> exn + MirrorMessage" where
  "decode_step_mismatch L j =
     rbind (require_object j ''step_mismatch'') (\<lambda>_.
     rbind (decode_state_field L ''expected'' j) (\<lambda>e.
     rbind (decode_state_field L ''actual'' j) (\<lambda>a.
     rbind (rmapM (decode_diff_hint L) (opt_array ''hints'' j)) (\<lambda>hs.
       Inr (StepMismatch e a hs)))))"

definition decode_gen_traces_payload :: "json_lib \<Rightarrow> Json \<Rightarrow> exn + (string list \<times> Json list)" where
  "decode_gen_traces_payload L j =
     rbind (jat L ''itfTracePaths'' j) (\<lambda>p.
     rbind (require_string_array p ''genTraces.itfTracePaths'') (\<lambda>paths.
       Inr (paths, opt_array ''itfTraces'' j)))"

definition decode_gen_traces_done :: "json_lib \<Rightarrow> Json \<Rightarrow> exn + MirrorMessage" where
  "decode_gen_traces_done L j =
     rbind (require_object j ''gen_traces_done'') (\<lambda>_.
     rbind (decode_gen_traces_payload L j) (\<lambda>pt. Inr (GenTracesDone (fst pt) (snd pt))))"

definition decode_job_kind :: "Json \<Rightarrow> exn + JobKind" where
  "decode_job_kind j =
     rbind (require_string j ''kind'') (\<lambda>s.
       if s = ''validate'' then Inr JK_validate
       else if s = ''gen_traces'' then Inr JK_gen_traces
       else Inl (JsonError ''kind: expected validate/gen_traces''))"

definition decode_job_phase :: "Json \<Rightarrow> exn + JobPhase" where
  "decode_job_phase j =
     rbind (require_string j ''phase'') (\<lambda>s.
       if s = ''pending'' then Inr JP_pending
       else if s = ''running'' then Inr JP_running
       else if s = ''done'' then Inr JP_done
       else if s = ''failed'' then Inr JP_failed
       else if s = ''cancelled'' then Inr JP_cancelled
       else if s = ''unknown'' then Inr JP_unknown
       else Inl (JsonError ''phase: expected pending/running/done/failed/cancelled/unknown''))"

definition decode_job_outcome :: "json_lib \<Rightarrow> Json \<Rightarrow> exn + JobOutcome" where
  "decode_job_outcome L j =
     rbind (require_object j ''job_result.outcome'') (\<lambda>_.
     (case jfind ''validate'' j of Some r \<Rightarrow> rbind (decode_validate_result r) (\<lambda>v. Inr (OutcomeValidate v))
      | None \<Rightarrow>
     (case jfind ''genTraces'' j of
        Some g \<Rightarrow>
          rbind (require_object g ''job_result.outcome.genTraces'') (\<lambda>_.
          rbind (decode_gen_traces_payload L g) (\<lambda>pt. Inr (OutcomeGenTraces (fst pt) (snd pt))))
      | None \<Rightarrow>
     (case jfind ''error'' j of
        Some e \<Rightarrow> rbind (require_string e ''job_result.outcome.error'') (\<lambda>t. Inr (OutcomeError t))
      | None \<Rightarrow> Inl (JsonError ''job_result.outcome: expected validate/genTraces/error'')))))"

definition decode_transition_status :: "Json \<Rightarrow> exn + TransitionStatus" where
  "decode_transition_status j =
     rbind (require_string j ''status'') (\<lambda>s.
       if s = ''ENABLED'' then Inr TS_enabled
       else if s = ''DISABLED'' then Inr TS_disabled
       else if s = ''UNKNOWN'' then Inr TS_unknown
       else Inl (JsonError ''status: expected ENABLED/DISABLED/UNKNOWN''))"

definition decode_invariant_status :: "Json \<Rightarrow> exn + InvariantStatus" where
  "decode_invariant_status j =
     rbind (require_string j ''status'') (\<lambda>s.
       if s = ''SATISFIED'' then Inr IS_satisfied
       else if s = ''VIOLATED'' then Inr IS_violated
       else if s = ''UNKNOWN'' then Inr IS_unknown
       else Inl (JsonError ''status: expected SATISFIED/VIOLATED/UNKNOWN''))"

text \<open>\<^verbatim>\<open>require_string(j.at(key), key)\<close> and \<^verbatim>\<open>require_int(j.at(key), key)\<close>.\<close>

definition string_member :: "json_lib \<Rightarrow> string \<Rightarrow> Json \<Rightarrow> exn + string" where
  "string_member L k j = rbind (jat L k j) (\<lambda>x. require_string x k)"

definition int_member :: "json_lib \<Rightarrow> string \<Rightarrow> Json \<Rightarrow> exn + 64 word" where
  "int_member L k j = rbind (jat L k j) (\<lambda>x. require_int x k)"

definition decode_tagged :: "json_lib \<Rightarrow> string \<Rightarrow> Json \<Rightarrow> exn + MirrorMessage" where
  "decode_tagged L tag j =
    (if tag = ''spec_validated'' then decode_spec_validated L j
     else if tag = ''initial_state'' then
       rbind (require_object j ''initial_state'') (\<lambda>_.
       rbind (string_member L ''action'' j) (\<lambda>a.
       rbind (decode_state_field L ''state'' j) (\<lambda>s. Inr (InitialState a s))))
     else if tag = ''next_step'' then
       rbind (require_object j ''next_step'') (\<lambda>_.
       rbind (string_member L ''action'' j) (\<lambda>a.
       rbind (decode_state_field L ''parameters'' j) (\<lambda>s. Inr (NextStep a s))))
     else if tag = ''step_ok'' then Inr StepOk
     else if tag = ''all_steps_done'' then Inr AllStepsDone
     else if tag = ''explore_session_done'' then Inr ExploreSessionDone
     else if tag = ''step_mismatch'' then decode_step_mismatch L j
     else if tag = ''gen_traces_done'' then decode_gen_traces_done L j
     else if tag = ''register_error'' then
       rbind (require_object j ''register_error'') (\<lambda>_.
       rbind (string_member L ''error'' j) (\<lambda>e. Inr (RegisterError e)))
     else if tag = ''protocol_error'' then
       rbind (require_object j ''protocol_error'') (\<lambda>_.
       rbind (string_member L ''error'' j) (\<lambda>e. Inr (ProtocolError e)))
     else if tag = ''explorer_ready'' then
       rbind (require_object j ''explorer_ready'') (\<lambda>_.
       rbind (int_member L ''initTransitions'' j) (\<lambda>i.
       rbind (int_member L ''nextTransitions'' j) (\<lambda>n.
       rbind (int_member L ''stateInvariants'' j) (\<lambda>v. Inr (ExplorerReady i n v)))))
     else if tag = ''explore_transition_status'' then
       rbind (require_object j ''explore_transition_status'') (\<lambda>_.
       rbind (jat L ''status'' j) (\<lambda>x.
       rbind (decode_transition_status x) (\<lambda>st. Inr (ExploreTransitionStatus st))))
     else if tag = ''explore_assume_status'' then
       rbind (require_object j ''explore_assume_status'') (\<lambda>_.
       rbind (jat L ''status'' j) (\<lambda>x.
       rbind (decode_transition_status x) (\<lambda>st. Inr (ExploreAssumeStatus st))))
     else if tag = ''explore_step_done'' then
       rbind (require_object j ''explore_step_done'') (\<lambda>_.
       rbind (int_member L ''stepNo'' j) (\<lambda>n. Inr (ExploreStepDone n)))
     else if tag = ''explore_state'' then
       rbind (require_object j ''explore_state'') (\<lambda>_.
       rbind (decode_state_field L ''state'' j) (\<lambda>s. Inr (ExploreState s)))
     else if tag = ''explore_invariant_status'' then
       rbind (require_object j ''explore_invariant_status'') (\<lambda>_.
       rbind (jat L ''status'' j) (\<lambda>x.
       rbind (decode_invariant_status x) (\<lambda>st. Inr (ExploreInvariantStatus st))))
     else if tag = ''explore_rollback_done'' then
       rbind (require_object j ''explore_rollback_done'') (\<lambda>_.
       rbind (int_member L ''snapshotId'' j) (\<lambda>n. Inr (ExploreRollbackDone n)))
     else if tag = ''job_accepted'' then
       rbind (require_object j ''job_accepted'') (\<lambda>_.
       rbind (string_member L ''jobId'' j) (\<lambda>i.
       rbind (jat L ''kind'' j) (\<lambda>x.
       rbind (decode_job_kind x) (\<lambda>k. Inr (JobAccepted i k)))))
     else if tag = ''job_status'' then
       rbind (require_object j ''job_status'') (\<lambda>_.
       rbind (string_member L ''jobId'' j) (\<lambda>i.
       rbind (jat L ''phase'' j) (\<lambda>x.
       rbind (decode_job_phase x) (\<lambda>p. Inr (JobStatus i p)))))
     else if tag = ''job_result'' then
       rbind (require_object j ''job_result'') (\<lambda>_.
       rbind (string_member L ''jobId'' j) (\<lambda>i.
       rbind (jat L ''outcome'' j) (\<lambda>x.
       rbind (decode_job_outcome L x) (\<lambda>out. Inr (JobResult i out)))))
     else Inr (ProtocolError (''unknown proto_step: '' @ tag)))"

definition err_json :: "string \<Rightarrow> 'a outcome" where
  "err_json m = Inr (Inl (make_error EK_json m))"

definition decode_mirror_message :: "json_lib \<Rightarrow> string \<Rightarrow> MirrorMessage outcome" where
  "decode_mirror_message L line =
    (case lib_parse L line of
       Inl (ParseError what) \<Rightarrow> err_json (''malformed JSON: '' @ what)
     | Inl (NumberRange what) \<Rightarrow> Inl (JsonLibError what)
     | Inr j \<Rightarrow>
       if \<not> is_object j then err_json ''mirror message: expected object''
       else (case jfind ''proto_step'' j of
         Some (JString tag) \<Rightarrow>
           (case decode_tagged L tag j of
              Inr m \<Rightarrow> Inr (Inr m)
            | Inl (JsonError what) \<Rightarrow> err_json what
            | Inl (JsonLibError what) \<Rightarrow> err_json (''bad mirror message: '' @ what)
            | Inl e \<Rightarrow> Inl e)
       | _ \<Rightarrow> err_json ''mirror message: missing string proto_step''))"

section \<open>Rendering of diff hints\<close>

definition render_seg :: "PathSeg \<Rightarrow> string" where
  "render_seg s = (case s of SegField f \<Rightarrow> f | SegIndex i \<Rightarrow> ''['' @ int_to_string (sint i) @ '']'')"

definition render_path :: "PathSeg list \<Rightarrow> string" where
  "render_path path = foldl (\<lambda>out seg.
     (case seg of
        SegField f \<Rightarrow> (if out = [] then out else out @ ''.'') @ f
      | SegIndex i \<Rightarrow> out @ render_seg seg)) [] path"

definition opt_to_string :: "json_lib \<Rightarrow> string \<Rightarrow> string \<Rightarrow> Value option \<Rightarrow> exn + string" where
  "opt_to_string L pre absent v =
     (case v of None \<Rightarrow> Inr absent | Some x \<Rightarrow> rbind (value_to_string L x) (\<lambda>s. Inr (pre @ s)))"

text \<open>The ellipsis is its three UTF-8 bytes.\<close>

definition truncated_text :: string where
  "truncated_text = [CHR 0xE2, CHR 0x80, CHR 0xA6] @ '' (hints truncated)''"

definition render_diff_hint :: "json_lib \<Rightarrow> DiffHint \<Rightarrow> exn + string" where
  "render_diff_hint L h =
    (let p = render_path (hint_path h); lead = (if p = [] then ''state'' else p) in
     case hint_kind h of
       DH_value_mismatch \<Rightarrow>
         rbind (opt_to_string L [] ''?'' (hint_expected h)) (\<lambda>e.
         rbind (opt_to_string L [] ''?'' (hint_actual h)) (\<lambda>a.
           Inr (lead @ '': value mismatch (expected '' @ e @ '', got '' @ a @ '')'')))
     | DH_missing \<Rightarrow> Inr (lead @ '': missing'')
     | DH_extra \<Rightarrow> Inr (lead @ '': extra'')
     | DH_missing_elem \<Rightarrow>
         rbind (opt_to_string L '' '' [] (hint_expected h)) (\<lambda>e. Inr (lead @ '': missing element'' @ e))
     | DH_extra_elem \<Rightarrow>
         rbind (opt_to_string L '' '' [] (hint_actual h)) (\<lambda>a. Inr (lead @ '': extra element'' @ a))
     | DH_type_mismatch \<Rightarrow>
         rbind (opt_to_string L [] ''?'' (hint_expected h)) (\<lambda>e.
         rbind (opt_to_string L [] ''?'' (hint_actual h)) (\<lambda>a.
           Inr (lead @ '': type mismatch (expected '' @ e @ '', got '' @ a @ '')'')))
     | DH_truncated \<Rightarrow> Inr truncated_text)"

definition render_diff_hints :: "json_lib \<Rightarrow> DiffHint list \<Rightarrow> exn + string" where
  "render_diff_hints L hints =
     foldl (\<lambda>acc h. rbind acc (\<lambda>out. rbind (render_diff_hint L h) (\<lambda>s.
       Inr ((if out = [] then out else out @ ''; '') @ s)))) (Inr []) hints"

section \<open>Facts about the decoder\<close>

text \<open>The states a message carries.\<close>

definition message_states :: "MirrorMessage \<Rightarrow> State list" where
  "message_states m = (case m of
     InitialState a s \<Rightarrow> [s] | NextStep a s \<Rightarrow> [s] | StepMismatch e a h \<Rightarrow> [e, a] | ExploreState s \<Rightarrow> [s] | _ \<Rightarrow> [])"

definition known_tags :: "string list" where
  "known_tags = [''spec_validated'', ''initial_state'', ''next_step'', ''step_ok'', ''all_steps_done'',
     ''explore_session_done'', ''step_mismatch'', ''gen_traces_done'', ''register_error'', ''protocol_error'',
     ''explorer_ready'', ''explore_transition_status'', ''explore_assume_status'', ''explore_step_done'',
     ''explore_state'', ''explore_invariant_status'', ''explore_rollback_done'', ''job_accepted'',
     ''job_status'', ''job_result'']"

lemma wp_jat [wp_rules]: "wp (jat L k j) (\<lambda>_. True) (codec_exn L)"
  by (simp add: jat_def split: option.splits)

lemma wp_require [wp_rules]:
  "wp (require_object j w) (\<lambda>_. True) (codec_exn L)"
  "wp (require_string j w) (\<lambda>_. True) (codec_exn L)"
  "wp (require_int j w) (\<lambda>_. True) (codec_exn L)"
  by (simp_all add: require_object_def require_string_def require_int_def split: Json.splits)

lemma wp_require_string_array [wp_rules]: "wp (require_string_array j w) (\<lambda>_. True) (codec_exn L)"
  by (cases j) (auto simp: require_string_array_def intro: wp_mono [OF wp_rmapM] wp_require(2))

lemma wp_enums [wp_rules]:
  "wp (diff_hint_kind_from_string s) (\<lambda>_. True) (codec_exn L)"
  "wp (decode_job_kind j) (\<lambda>_. True) (codec_exn L)"
  "wp (decode_job_phase j) (\<lambda>_. True) (codec_exn L)"
  "wp (decode_transition_status j) (\<lambda>_. True) (codec_exn L)"
  "wp (decode_invariant_status j) (\<lambda>_. True) (codec_exn L)"
  unfolding diff_hint_kind_from_string_def decode_job_kind_def decode_job_phase_def
    decode_transition_status_def decode_invariant_status_def
  by (auto intro!: wp_mono [OF wp_require(2)])

lemma wp_validate_result [wp_rules]: "wp (decode_validate_result j) (\<lambda>_. True) (codec_exn L)"
  by (auto simp: decode_validate_result_def split: option.splits Json.splits)

lemma wp_path_seg [wp_rules]: "wp (decode_path_seg j) (\<lambda>_. True) (codec_exn L)"
  by (auto simp: decode_path_seg_def split: option.splits Json.splits)

lemma wp_gen_traces [wp_rules]: "wp (decode_gen_traces_payload L j) (\<lambda>_. True) (codec_exn L)"
  by (auto simp: decode_gen_traces_payload_def intro!: wp_mono [OF wp_jat] wp_mono [OF wp_require_string_array])

lemma wp_members [wp_rules]:
  "wp (string_member L k j) (\<lambda>_. True) (codec_exn L)"
  "wp (int_member L k j) (\<lambda>_. True) (codec_exn L)"
  by (auto simp: string_member_def int_member_def intro!: wp_mono [OF wp_jat] wp_require)

lemma wp_job_outcome [wp_rules]: "wp (decode_job_outcome L j) (\<lambda>_. True) (codec_exn L)"
  unfolding decode_job_outcome_def
  by (auto intro!: wp_mono [OF wp_require(1)] wp_mono [OF wp_require(2)] wp_mono [OF wp_validate_result]
      wp_mono [OF wp_gen_traces] split: option.splits)

lemma wp_state_field [wp_rules]: "wp (decode_state_field L k j) state_wf (codec_exn L)"
  by (auto simp: decode_state_field_def wp_decode_state split: option.splits)

lemma wp_opt_value [wp_rules]: "wp (decode_opt_value L k j) (\<lambda>_. True) (codec_exn L)"
  by (auto simp: decode_opt_value_def wp_mono [OF wp_decode_value] split: option.splits)

lemma wp_diff_hint [wp_rules]: "wp (decode_diff_hint L j) (\<lambda>_. True) (codec_exn L)"
  unfolding decode_diff_hint_def wp_rbind
  by (intro wp_mono [OF wp_require(1)] wp_mono [OF wp_require(2)] wp_mono [OF wp_jat] wp_mono [OF wp_enums(1)]
      wp_mono [OF wp_rmapM [OF wp_path_seg]] wp_mono [OF wp_opt_value]) simp

text \<open>What a decoded message is, and what can be thrown, for one tag.\<close>

definition decoded_as :: "string \<Rightarrow> MirrorMessage \<Rightarrow> bool" where
  "decoded_as tag m \<longleftrightarrow> list_all state_wf (message_states m) \<and>
     (if tag \<in> set known_tags then mirror_message_name m = tag else m = ProtocolError (''unknown proto_step: '' @ tag))"

lemmas decoded_as_simps = decoded_as_def message_states_def mirror_message_name_def known_tags_def

lemmas decode_wp = wp_mono [OF wp_require(1)] wp_mono [OF wp_jat] wp_mono [OF wp_members(1)]
  wp_mono [OF wp_members(2)] wp_mono [OF wp_enums(2)] wp_mono [OF wp_enums(3)] wp_mono [OF wp_enums(4)]
  wp_mono [OF wp_enums(5)] wp_mono [OF wp_validate_result] wp_mono [OF wp_state_field]
  wp_mono [OF wp_rmapM [OF wp_diff_hint]] wp_mono [OF wp_gen_traces] wp_mono [OF wp_job_outcome]

lemma wp_decode_tagged: "wp (decode_tagged L tag j) (decoded_as tag) (codec_exn L)"
  unfolding decode_tagged_def decode_spec_validated_def decode_step_mismatch_def decode_gen_traces_done_def
  by (simp add: decoded_as_simps) (intro conjI impI decode_wp; simp)

lemma decode_mirror_message_Inr:
  assumes "decode_mirror_message L line = Inr (Inr m)"
  obtains j tag where "lib_parse L line = Inr j" "jfind ''proto_step'' j = Some (JString tag)"
    "decode_tagged L tag j = Inr m" "decoded_as tag m"
proof -
  obtain j tag where *: "lib_parse L line = Inr j" "jfind ''proto_step'' j = Some (JString tag)"
    "decode_tagged L tag j = Inr m"
    using assms by (auto simp: decode_mirror_message_def err_json_def
        split: sum.splits parse_failure.splits if_splits option.splits Json.splits exn.splits)
  from that [OF this] wp_Inr [OF wp_decode_tagged *(3)] show ?thesis .
qed

lemma decode_mirror_message_Inl:
  assumes "decode_mirror_message L line = Inl e"
  shows "(\<exists>w. lib_parse L line = Inl (NumberRange w)) \<or> (\<exists>s w. lib_int_of L s = Inl w)"
proof (rule ccontr)
  assume neg: "\<not> ?thesis"
  then obtain j tag where "decode_tagged L tag j = Inl e" "e \<noteq> JsonError w" "e \<noteq> JsonLibError w" for w
    using assms by (auto simp: decode_mirror_message_def err_json_def
        split: sum.splits parse_failure.splits if_splits option.splits Json.splits exn.splits)
  with wp_Inl [OF wp_decode_tagged, of L tag j e] neg show False
    by (auto simp: codec_exn_def split: exn.splits)
qed

section \<open>Facts about the encoder\<close>

lemma map_of_opt_field [simp]:
  "map_of (rev (opt_field k f v)) k' = (if k' = k then map_option f v else None)"
  by (cases v) (auto simp: opt_field_def)

lemma json_strings_inj [simp]: "json_strings xs = json_strings ys \<longleftrightarrow> xs = ys"
  by (auto simp: json_strings_def inj_map_eq_map inj_def)

lemma json_of_ll_inj [simp]: "json_of_ll v = json_of_ll w \<longleftrightarrow> v = w"
  by (simp add: json_of_ll_def)

lemma map_option_inj_iff: "inj f \<Longrightarrow> map_option f a = map_option f b \<longleftrightarrow> a = b"
  by (cases a; cases b) (auto dest: injD)

lemma option_fields_inj [simp]:
  "map_option JString a = map_option JString b \<longleftrightarrow> a = b"
  "map_option json_of_ll u = map_option json_of_ll v \<longleftrightarrow> u = v"
  by (simp_all add: map_option_inj_iff inj_def)

lemma encode_spec_inj [simp]: "encode_spec s = encode_spec t \<longleftrightarrow> s = t"
  by (cases s; cases t) (auto simp: encode_spec_def)

lemma option_spec_inj [simp]: "map_option encode_spec a = map_option encode_spec b \<longleftrightarrow> a = b"
  by (simp add: map_option_inj_iff inj_def)

lemma jfind_trace_config:
  "jfind ''numTraces'' (encode_trace_config t) = Some (json_of_ll (num_traces t))"
  "jfind ''view'' (encode_trace_config t) = map_option JString (view t)"
  by (simp_all add: encode_trace_config_def map_add_def split: option.splits)

lemma encode_trace_config_inj [simp]: "encode_trace_config s = encode_trace_config t \<longleftrightarrow> s = t"
proof
  assume "encode_trace_config s = encode_trace_config t"
  then have "jfind k (encode_trace_config s) = jfind k (encode_trace_config t)" for k by simp
  from this [of "''numTraces''"] this [of "''view''"] show "s = t"
    by (simp add: jfind_trace_config)
qed simp

lemma jfind_apalache_config:
  "jfind ''specPath'' (encode_apalache_config c) = Some (JString (spec_path c))"
  "jfind ''initPredicate'' (encode_apalache_config c) = map_option JString (init_predicate c)"
  "jfind ''nextPredicate'' (encode_apalache_config c) = map_option JString (next_predicate c)"
  "jfind ''constInit'' (encode_apalache_config c) = map_option JString (const_init c)"
  "jfind ''invariant'' (encode_apalache_config c) = Some (JString (invariant c))"
  "jfind ''lengthBound'' (encode_apalache_config c) = Some (json_of_ll (length_bound c))"
  "jfind ''paramVars'' (encode_apalache_config c) = Some (JString (param_vars c))"
  by (simp_all add: encode_apalache_config_def map_add_def split: option.splits)

lemma encode_apalache_config_inj [simp]: "encode_apalache_config c = encode_apalache_config d \<longleftrightarrow> c = d"
proof
  assume "encode_apalache_config c = encode_apalache_config d"
  then have *: "jfind k (encode_apalache_config c) = jfind k (encode_apalache_config d)" for k by simp
  from * [of "''specPath''"] * [of "''initPredicate''"] * [of "''nextPredicate''"] * [of "''constInit''"]
    * [of "''invariant''"] * [of "''lengthBound''"] * [of "''paramVars''"]
  show "c = d" by (simp add: jfind_apalache_config)
qed simp

text \<open>The states of a client message, and the condition under which they survive the codec.\<close>

definition client_states :: "ClientMessage \<Rightarrow> State list" where
  "client_states m = (case m of ExploreAssumeState s \<Rightarrow> [s] | ReportState s \<Rightarrow> [s] | _ \<Rightarrow> [])"

definition client_clean :: "ClientMessage \<Rightarrow> bool" where
  "client_clean m = list_all (\<lambda>s. state_wf s \<and> state_clean s) (client_states m)"

lemma encode_state_inj:
  assumes "lib_int_laws L" "state_wf s" "state_clean s" "state_wf t" "state_clean t"
    and "encode_state L s = encode_state L t"
  shows "s = t"
  using decode_encode_state [OF assms(1,2)] decode_encode_state [OF assms(1,4)] assms(3,5,6) by simp

lemma proto_step_notin_fields: "map_of (client_fields L m) ''proto_step'' = None"
  by (cases m) (auto simp: client_fields_def opt_field_def split: option.splits)

lemma jfind_client_json:
  "jfind ''proto_step'' (client_json L m) = Some (JString (client_message_name m))"
  "k \<noteq> ''proto_step'' \<Longrightarrow> jfind k (client_json L m) = map_of (rev (client_fields L m)) k"
proof -
  have "map_of (rev (client_fields L m)) ''proto_step'' = None"
    using proto_step_notin_fields [of L m] by (simp add: map_of_eq_None_iff)
  then show "jfind ''proto_step'' (client_json L m) = Some (JString (client_message_name m))"
    by (simp add: client_json_def map_add_def)
qed (simp add: client_json_def map_add_def split: option.splits)

definition client_keys :: "string list" where
  "client_keys = [''apalacheConfig'', ''traceConfig'', ''spec'', ''itfTracePaths'', ''destPath'', ''invariants'',
     ''exports'', ''maxSteps'', ''bound'', ''jobId'', ''timeoutSecs'', ''transitionId'', ''invariantId'', ''state'',
     ''snapshotId'']"

lemma client_json_cong:
  assumes "client_json L m = client_json L n"
  shows "client_message_name m = client_message_name n"
    and "list_all (\<lambda>k. map_of (rev (client_fields L m)) k = map_of (rev (client_fields L n)) k) client_keys"
proof -
  show "client_message_name m = client_message_name n"
    using assms jfind_client_json(1) [of L m] jfind_client_json(1) [of L n] by simp
  have "map_of (rev (client_fields L m)) k = map_of (rev (client_fields L n)) k" if "k \<in> set client_keys" for k
    using that assms jfind_client_json(2) [of k L m] jfind_client_json(2) [of k L n]
    by (auto simp: client_keys_def)
  then show "list_all (\<lambda>k. map_of (rev (client_fields L m)) k = map_of (rev (client_fields L n)) k) client_keys"
    by (simp add: list_all_iff)
qed

lemma client_fields_inj:
  "client_message_name m = client_message_name n \<Longrightarrow>
    list_all (\<lambda>k. map_of (rev (client_fields L m)) k = map_of (rev (client_fields L n)) k) client_keys \<Longrightarrow>
    client_states m = [] \<Longrightarrow> m = n"
  by (cases m; cases n; simp add: client_message_name_def)
    (simp_all add: client_fields_def client_keys_def client_states_def map_add_def split: option.splits)

lemma client_json_inj:
  assumes "lib_int_laws L" "client_clean m" "client_clean n" "client_json L m = client_json L n"
  shows "m = n"
proof (cases "client_states m = []")
  case True
  with client_fields_inj client_json_cong [OF assms(4)] show ?thesis by blast
next
  case False
  note name = client_json_cong(1) [OF assms(4)]
  have "map_of (rev (client_fields L m)) ''state'' = map_of (rev (client_fields L n)) ''state''"
    using client_json_cong(2) [OF assms(4)] by (simp add: client_keys_def)
  moreover have "(\<exists>s t. m = ExploreAssumeState s \<and> n = ExploreAssumeState t) \<or> (\<exists>s t. m = ReportState s \<and> n = ReportState t)"
    using False name by (cases m; cases n; simp add: client_message_name_def client_states_def)
  ultimately show ?thesis
    using assms(2,3) encode_state_inj [OF assms(1)]
    by (auto simp: client_fields_def client_clean_def client_states_def)
qed

section \<open>Properties\<close>



text \<open>A line that decodes to a message had a string tag; a known tag gives the message of that
  name, an unknown one a protocol error that quotes it, and every state in the message is
  well-formed.\<close>

theorem decode_mirror_message_tag:
  assumes "decode_mirror_message L line = Inr (Inr m)"
  shows "\<exists>j tag. lib_parse L line = Inr j \<and> jfind ''proto_step'' j = Some (JString tag) \<and>
    (if tag \<in> set known_tags then mirror_message_name m = tag else m = ProtocolError (''unknown proto_step: '' @ tag)) \<and>
    list_all state_wf (message_states m)"
  using assms by (rule decode_mirror_message_Inr) (auto simp: decoded_as_def)

definition sample_line :: string where
  "sample_line = ''step''"

definition sample_lib :: "Json \<Rightarrow> json_lib" where
  "sample_lib j = ref_lib [(sample_line, j)]"

theorem decode_mirror_message_tag_witness:
  "decode_mirror_message (sample_lib (JObject [(''action'', JString ''Tick''), (''parameters'', JObject [(''n'', JInteger 1)]),
      (''proto_step'', JString ''next_step'')])) sample_line = Inr (Inr (NextStep ''Tick'' [(''n'', VInt 1)])) \<and>
   list_all state_wf (message_states (NextStep ''Tick'' [(''n'', VInt 1)]))"
proof -
  let ?L = "sample_lib (JObject [(''action'', JString ''Tick''), (''parameters'', JObject [(''n'', JInteger 1)]),
      (''proto_step'', JString ''next_step'')])"
  have "decode_mirror_message ?L sample_line = Inr (Inr (NextStep ''Tick'' [(''n'', VInt 1)]))"
    by (simp add: decode_mirror_message_def sample_lib_def sample_line_def decode_tagged_def is_object_def jfind_def
        require_object_def string_member_def jat_def require_string_def decode_state_field_def decode_state_def om_build_def)
  with decode_mirror_message_tag [OF this] show ?thesis by auto
qed



text \<open>The two escapes exist: an integer text with a leading zero and a digit above seven makes
  the decoder throw a standard exception that no handler catches, and so does a number out of
  range.\<close>

theorem decode_mirror_message_escapes:
  "decode_mirror_message (sample_lib (JObject [(''proto_step'', JString ''explore_state''),
      (''state'', JObject [(''x'', JObject [(''#bigint'', JString ''09'')])])])) sample_line =
     Inl (StdException ''Unexpected content found while parsing character string.'') \<and>
   decode_mirror_message ((sample_lib JNull)\<lparr>lib_parse := \<lambda>_. Inl (NumberRange w)\<rparr>) line = Inl (JsonLibError w)"
  by (simp add: decode_mirror_message_def sample_lib_def sample_line_def decode_tagged_def is_object_def jfind_def
      require_object_def decode_state_field_def decode_state_def om_build_def decode_bigint_def ref_int_of_def
      is_digit_def byte_of_def digit_val_def)

text \<open>An integer member is read modulo \<open>2 ^ 64\<close> into a signed number: a signed document number is
  kept, an unsigned one is kept exactly below \<open>2 ^ 63\<close> and is negative from there on.\<close>

theorem require_int_wraps:
  "require_int (JInteger w) what = Inr w \<and>
   (\<exists>r. require_int (JUnsigned w) what = Inr r \<and>
     (if uint w < 2 ^ 63 then sint r = uint w else sint r = uint w - 2 ^ 64 \<and> sint r < 0))"
proof -
  have range: "0 \<le> uint w" "uint w < 2 ^ 64" using uint_lt2p [of w] by simp_all
  have s: "sint w = (uint w + 2 ^ 63) mod 2 ^ 64 - 2 ^ 63"
    using int_word_sint [of "uint w", where 'a = 64] by simp
  have "sint w = (if uint w < 2 ^ 63 then uint w else uint w - 2 ^ 64)"
  proof (cases "uint w < 2 ^ 63")
    case True
    then show ?thesis using s range by (simp add: mod_pos_pos_trivial)
  next
    case False
    have "(uint w + 2 ^ 63) mod 2 ^ 64 = (uint w + 2 ^ 63 - 2 ^ 64) mod 2 ^ 64"
      by (rule minus_mod_self2 [symmetric])
    also have "\<dots> = uint w + 2 ^ 63 - 2 ^ 64" using False range by (intro mod_pos_pos_trivial) simp_all
    finally show ?thesis using s False by simp
  qed
  with range show ?thesis by (simp add: require_int_def is_number_integer_def get_long_long_def)
qed

end
