(* ===== verification/Phase_Guard.thy ===== *)
theory Phase_Guard
  imports Protocol_Messages
begin

text \<open>
  The class \<^verbatim>\<open>PhaseGuard\<close> of \<^verbatim>\<open>src/protocol.cpp\<close>: the client-side state machine over the phases of a
  session. \<open>guard_sent\<close> and \<open>guard_received\<close> are the two methods; they return the next phase and
  the result, and keep the phase on an error. \<open>phase_step\<close> is the diagram in the header file as
  a transition relation; the methods implement it exactly, and the ordering of a session is
  proved of the relation by rule induction.
\<close>

section \<open>The guard\<close>

datatype Phase = Ph_idle | Ph_validating | Ph_ready | Ph_stepping | Ph_exploring | Ph_done

definition phase_name :: "Phase \<Rightarrow> string" where
  "phase_name p = (case p of
     Ph_idle \<Rightarrow> ''idle'' | Ph_validating \<Rightarrow> ''validating'' | Ph_ready \<Rightarrow> ''ready''
   | Ph_stepping \<Rightarrow> ''stepping'' | Ph_exploring \<Rightarrow> ''exploring'' | Ph_done \<Rightarrow> ''done'')"

definition expected_tags :: "Phase \<Rightarrow> string" where
  "expected_tags p = (case p of
     Ph_idle \<Rightarrow> ''Register* | register_*_async | query_job | await_job | cancel_job''
   | Ph_validating \<Rightarrow> ''spec_validated | gen_traces_done''
   | Ph_ready \<Rightarrow> ''initial_state''
   | Ph_stepping \<Rightarrow> ''next_step | step_ok | all_steps_done | step_mismatch''
   | Ph_exploring \<Rightarrow> ''explore_* reply | explore_session_done''
   | Ph_done \<Rightarrow> ''(no further messages)'')"

definition err_protocol :: "string \<Rightarrow> Error" where
  "err_protocol m = make_error EK_protocol m"

definition is_reg_tag :: "string \<Rightarrow> bool" where
  "is_reg_tag t = (t = ''register'' \<or> t = ''register_traces'' \<or> t = ''register_trace_gen''
     \<or> t = ''register_explore'' \<or> t = ''register_explore_session'' \<or> t = ''register_validate'')"

definition guard_sent :: "Phase \<Rightarrow> ClientMessage \<Rightarrow> Phase \<times> unit result" where
  "guard_sent p msg =
    (let tag = client_message_name msg;
         cannot = Inl (err_protocol (''cannot send '' @ tag @ '' in phase '' @ phase_name p)) in
     if is_reg_tag tag then
       (if p \<noteq> Ph_idle then (p, cannot)
        else (if tag = ''register_explore_session'' then Ph_exploring else Ph_validating, Inr ()))
     else if tag = ''register_validate_async'' \<or> tag = ''register_trace_gen_async'' then
       (if p \<noteq> Ph_idle then (p, cannot) else (p, Inr ()))
     else if tag = ''query_job'' \<or> tag = ''await_job'' \<or> tag = ''cancel_job'' then
       (if p \<noteq> Ph_idle \<and> p \<noteq> Ph_done then (p, cannot) else (p, Inr ()))
     else if tag = ''report_state'' then
       (if p \<noteq> Ph_stepping
        then (p, Inl (err_protocol (''report_state requires phase stepping, got '' @ phase_name p)))
        else (p, Inr ()))
     else if starts_with ''explore_'' tag then
       (if p \<noteq> Ph_exploring
        then (p, Inl (err_protocol (''explore_* requires phase exploring, got '' @ phase_name p)))
        else (p, Inr ()))
     else (p, Inl (err_protocol (''unexpected client message '' @ tag))))"

text \<open>The visitor of \<^verbatim>\<open>received\<close>: the phase it leaves and whether the message was acceptable.\<close>

definition guard_visit :: "Phase \<Rightarrow> MirrorMessage \<Rightarrow> Phase \<times> bool" where
  "guard_visit p msg = (case msg of
     SpecValidated v \<Rightarrow>
       (if p \<noteq> Ph_validating then (p, False) else (if v = None then Ph_ready else Ph_done, True))
   | GenTracesDone _ _ \<Rightarrow> (if p \<noteq> Ph_validating then (p, False) else (Ph_done, True))
   | InitialState _ _ \<Rightarrow>
       (if p \<noteq> Ph_ready \<and> p \<noteq> Ph_stepping then (p, False) else (Ph_stepping, True))
   | NextStep _ _ \<Rightarrow> (p, p = Ph_stepping)
   | StepOk \<Rightarrow> (p, p = Ph_stepping)
   | AllStepsDone \<Rightarrow> (if p \<noteq> Ph_stepping then (p, False) else (Ph_done, True))
   | StepMismatch _ _ _ \<Rightarrow> (if p \<noteq> Ph_stepping then (p, False) else (Ph_done, True))
   | ExplorerReady _ _ _ \<Rightarrow> (p, p = Ph_exploring)
   | ExploreTransitionStatus _ \<Rightarrow> (p, p = Ph_exploring)
   | ExploreAssumeStatus _ \<Rightarrow> (p, p = Ph_exploring)
   | ExploreStepDone _ \<Rightarrow> (p, p = Ph_exploring)
   | ExploreState _ \<Rightarrow> (p, p = Ph_exploring)
   | ExploreInvariantStatus _ \<Rightarrow> (p, p = Ph_exploring)
   | ExploreRollbackDone _ \<Rightarrow> (p, p = Ph_exploring)
   | ExploreSessionDone \<Rightarrow> (if p \<noteq> Ph_exploring then (p, False) else (Ph_done, True))
   | JobAccepted _ _ \<Rightarrow> (p, p = Ph_idle \<or> p = Ph_done)
   | JobStatus _ _ \<Rightarrow> (p, p = Ph_idle \<or> p = Ph_done)
   | JobResult _ _ \<Rightarrow> (p, p = Ph_idle \<or> p = Ph_done)
   | RegisterError _ \<Rightarrow> (p, False)
   | ProtocolError _ \<Rightarrow> (p, False))"

definition guard_received :: "Phase \<Rightarrow> MirrorMessage \<Rightarrow> Phase \<times> unit result" where
  "guard_received p msg =
    (let tag = mirror_message_name msg in
     if tag = ''register_error'' \<or> tag = ''protocol_error'' then (p, Inr ())
     else (let (p', ok) = guard_visit p msg in
       if \<not> ok then (p', Inl (err_protocol (''expected '' @ expected_tags p' @ '', got '' @ tag)))
       else (p', Inr ())))"

section \<open>The diagram\<close>

datatype session_event = Sent ClientMessage | Received MirrorMessage

definition registration :: "ClientMessage \<Rightarrow> bool" where
  "registration m = (case m of
     Register _ _ _ \<Rightarrow> True | RegisterTraces _ _ \<Rightarrow> True | RegisterTraceGen _ _ _ _ \<Rightarrow> True
   | RegisterExplore _ _ _ _ \<Rightarrow> True | RegisterValidate _ _ _ \<Rightarrow> True | _ \<Rightarrow> False)"

definition async_submission :: "ClientMessage \<Rightarrow> bool" where
  "async_submission m = (case m of
     RegisterValidateAsync _ _ _ \<Rightarrow> True | RegisterTraceGenAsync _ _ _ _ \<Rightarrow> True | _ \<Rightarrow> False)"

definition job_control :: "ClientMessage \<Rightarrow> bool" where
  "job_control m = (case m of QueryJob _ \<Rightarrow> True | AwaitJob _ _ \<Rightarrow> True | CancelJob _ \<Rightarrow> True | _ \<Rightarrow> False)"

definition explore_command :: "ClientMessage \<Rightarrow> bool" where
  "explore_command m = (case m of
     ExploreAssumeTransition _ \<Rightarrow> True | ExploreNextStep \<Rightarrow> True | ExploreQueryState \<Rightarrow> True
   | ExploreCheckInvariant _ \<Rightarrow> True | ExploreAssumeState _ \<Rightarrow> True | ExploreRollback _ \<Rightarrow> True
   | ExploreDone \<Rightarrow> True | _ \<Rightarrow> False)"

definition explore_reply :: "MirrorMessage \<Rightarrow> bool" where
  "explore_reply m = (case m of
     ExplorerReady _ _ _ \<Rightarrow> True | ExploreTransitionStatus _ \<Rightarrow> True | ExploreAssumeStatus _ \<Rightarrow> True
   | ExploreStepDone _ \<Rightarrow> True | ExploreState _ \<Rightarrow> True | ExploreInvariantStatus _ \<Rightarrow> True
   | ExploreRollbackDone _ \<Rightarrow> True | _ \<Rightarrow> False)"

definition job_reply :: "MirrorMessage \<Rightarrow> bool" where
  "job_reply m = (case m of JobAccepted _ _ \<Rightarrow> True | JobStatus _ _ \<Rightarrow> True | JobResult _ _ \<Rightarrow> True | _ \<Rightarrow> False)"

definition mirror_failure :: "MirrorMessage \<Rightarrow> bool" where
  "mirror_failure m = (case m of RegisterError _ \<Rightarrow> True | ProtocolError _ \<Rightarrow> True | _ \<Rightarrow> False)"

definition quiescent :: "Phase \<Rightarrow> bool" where
  "quiescent p = (p = Ph_idle \<or> p = Ph_done)"

inductive phase_step :: "Phase \<Rightarrow> session_event \<Rightarrow> Phase \<Rightarrow> bool" where
  start: "registration m \<Longrightarrow> phase_step Ph_idle (Sent m) Ph_validating"
| explore: "phase_step Ph_idle (Sent (RegisterExploreSession s i e)) Ph_exploring"
| submit: "async_submission m \<Longrightarrow> phase_step Ph_idle (Sent m) Ph_idle"
| control: "job_control m \<Longrightarrow> quiescent p \<Longrightarrow> phase_step p (Sent m) p"
| report: "phase_step Ph_stepping (Sent (ReportState s)) Ph_stepping"
| "command": "explore_command m \<Longrightarrow> phase_step Ph_exploring (Sent m) Ph_exploring"
| failure: "mirror_failure m \<Longrightarrow> phase_step p (Received m) p"
| valid: "phase_step Ph_validating (Received (SpecValidated None)) Ph_ready"
| invalid: "phase_step Ph_validating (Received (SpecValidated (Some t))) Ph_done"
| traces: "phase_step Ph_validating (Received (GenTracesDone ps js)) Ph_done"
| first_trace: "phase_step Ph_ready (Received (InitialState a s)) Ph_stepping"
| next_trace: "phase_step Ph_stepping (Received (InitialState a s)) Ph_stepping"
| next_step: "phase_step Ph_stepping (Received (NextStep a s)) Ph_stepping"
| step_ok: "phase_step Ph_stepping (Received StepOk) Ph_stepping"
| finished: "phase_step Ph_stepping (Received AllStepsDone) Ph_done"
| mismatch: "phase_step Ph_stepping (Received (StepMismatch e a h)) Ph_done"
| reply: "explore_reply m \<Longrightarrow> phase_step Ph_exploring (Received m) Ph_exploring"
| explored: "phase_step Ph_exploring (Received ExploreSessionDone) Ph_done"
| job: "job_reply m \<Longrightarrow> quiescent p \<Longrightarrow> phase_step p (Received m) p"

definition guard_step :: "Phase \<Rightarrow> session_event \<Rightarrow> Phase \<times> unit result" where
  "guard_step p ev = (case ev of Sent m \<Rightarrow> guard_sent p m | Received m \<Rightarrow> guard_received p m)"

text \<open>A guard fed with a sequence of events, stopping at the first one it rejects.\<close>

fun guard_run :: "Phase \<Rightarrow> session_event list \<Rightarrow> Error + Phase" where
  "guard_run p [] = Inr p"
| "guard_run p (ev # evs) =
     (case guard_step p ev of (p', Inl e) \<Rightarrow> Inl e | (p', Inr _) \<Rightarrow> guard_run p' evs)"

inductive phase_run :: "Phase \<Rightarrow> session_event list \<Rightarrow> Phase \<Rightarrow> bool" where
  run_nil: "phase_run p [] p"
| run_snoc: "phase_run p evs q \<Longrightarrow> phase_step q ev r \<Longrightarrow> phase_run p (evs @ [ev]) r"

lemmas message_class_defs = registration_def async_submission_def job_control_def explore_command_def
  explore_reply_def job_reply_def mirror_failure_def quiescent_def

inductive_simps phase_step_sent: "phase_step p (Sent m) q"
inductive_simps phase_step_received: "phase_step p (Received m) q"
inductive_cases phase_run_snocE: "phase_run p (evs @ [ev]) q"

section \<open>The guard implements the diagram\<close>

lemma guard_sent_step: "guard_sent p m = (q, Inr ()) \<longleftrightarrow> phase_step p (Sent m) q"
  by (cases m; cases p)
    (auto simp: guard_sent_def phase_step_sent message_class_defs client_message_name_def is_reg_tag_def starts_with_def)

lemma guard_received_step: "guard_received p m = (q, Inr ()) \<longleftrightarrow> phase_step p (Received m) q"
  by (cases m; cases p)
    (auto simp: guard_received_def guard_visit_def phase_step_received message_class_defs mirror_message_name_def)

lemma guard_step_accepts: "guard_step p ev = (q, Inr ()) \<longleftrightarrow> phase_step p ev q"
  by (cases ev) (simp_all add: guard_step_def guard_sent_step guard_received_step)

lemma guard_step_rejects:
  assumes "guard_step p ev = (q, Inl e)"
  shows "q = p \<and> err_kind e = EK_protocol"
proof (cases ev)
  case (Sent m)
  with assms show ?thesis
    by (auto simp: guard_step_def guard_sent_def err_protocol_def Let_def split: if_splits)
next
  case (Received m)
  with assms show ?thesis
    by (cases m) (auto simp: guard_step_def guard_received_def guard_visit_def err_protocol_def mirror_message_name_def
        split: if_splits)
qed

lemma guard_step_cases:
  obtains q where "guard_step p ev = (q, Inr ())" "phase_step p ev q"
  | e where "guard_step p ev = (p, Inl e)" "\<And>q. \<not> phase_step p ev q"
proof (cases "guard_step p ev")
  case (Pair q r)
  show ?thesis
  proof (cases r)
    case (Inl e)
    then have "guard_step p ev = (p, Inl e)" using Pair guard_step_rejects by metis
    then show ?thesis using that(2) by (metis Pair_inject guard_step_accepts sum.distinct(1))
  next
    case (Inr u)
    then show ?thesis using Pair that(1) guard_step_accepts by (metis old.unit.exhaust)
  qed
qed

lemma phase_run_Cons: "phase_run q evs r \<Longrightarrow> phase_step p ev q \<Longrightarrow> phase_run p (ev # evs) r"
proof (induction q evs r rule: phase_run.induct)
  case (run_nil q)
  then show ?case using run_snoc [OF phase_run.run_nil, of p ev q] by simp
next
  case (run_snoc q evs r ev' t)
  then show ?case using phase_run.run_snoc [of p "ev # evs" r ev' t] by simp
qed

lemma guard_run_append:
  "guard_run p (xs @ ys) = (case guard_run p xs of Inl e \<Rightarrow> Inl e | Inr q \<Rightarrow> guard_run q ys)"
  by (induction p xs rule: guard_run.induct) (auto split: prod.splits sum.splits)

lemma guard_run_phase_run: "guard_run p evs = Inr q \<longleftrightarrow> phase_run p evs q"
proof
  show "guard_run p evs = Inr q \<Longrightarrow> phase_run p evs q"
  proof (induction p evs rule: guard_run.induct)
    case (1 p)
    then show ?case by (simp add: run_nil)
  next
    case (2 p ev evs)
    show ?case
    proof (cases rule: guard_step_cases [of p ev])
      case (1 r)
      with 2 show ?thesis by (auto intro: phase_run_Cons)
    qed (use 2 in auto)
  qed
next
  show "phase_run p evs q \<Longrightarrow> guard_run p evs = Inr q"
  proof (induction rule: phase_run.induct)
    case (run_snoc p evs q ev r)
    then show ?case using guard_step_accepts [of q ev r] by (simp add: guard_run_append)
  qed simp
qed

section \<open>The order of a session\<close>

text \<open>What the events so far must contain for the session to be in a phase.\<close>

definition opened :: "session_event list \<Rightarrow> bool" where
  "opened evs = (\<exists>xs m ys. evs = xs @ Sent m # ys \<and> registration m)"

definition validated :: "session_event list \<Rightarrow> bool" where
  "validated evs = (\<exists>xs ys. evs = xs @ Received (SpecValidated None) # ys \<and> opened xs)"

definition started :: "session_event list \<Rightarrow> bool" where
  "started evs = (\<exists>xs a s ys. evs = xs @ Received (InitialState a s) # ys \<and> validated xs)"

lemma opened_snocI: "opened evs \<Longrightarrow> opened (evs @ [ev])" "registration m \<Longrightarrow> opened (evs @ [Sent m])"
  unfolding opened_def by (metis append_Cons append_assoc, metis)

lemma validated_snocI:
  "validated evs \<Longrightarrow> validated (evs @ [ev])" "opened evs \<Longrightarrow> validated (evs @ [Received (SpecValidated None)])"
  unfolding validated_def by (metis append_Cons append_assoc, metis)

lemma started_snocI:
  "started evs \<Longrightarrow> started (evs @ [ev])" "validated evs \<Longrightarrow> started (evs @ [Received (InitialState a s)])"
  unfolding started_def by (metis append_Cons append_assoc, metis)

definition phase_history :: "session_event list \<Rightarrow> Phase \<Rightarrow> bool" where
  "phase_history evs p = (case p of
     Ph_validating \<Rightarrow> opened evs | Ph_ready \<Rightarrow> validated evs | Ph_stepping \<Rightarrow> started evs | _ \<Rightarrow> True)"

lemma phase_history_run: "phase_run p evs q \<Longrightarrow> p = Ph_idle \<Longrightarrow> phase_history evs q"
proof (induction rule: phase_run.induct)
  case (run_nil p)
  then show ?case by (simp add: phase_history_def)
next
  case (run_snoc p evs q ev r)
  from run_snoc.hyps(2) run_snoc.IH [OF run_snoc.prems] show ?case
    by (cases rule: phase_step.cases)
      (auto simp: phase_history_def quiescent_def intro: opened_snocI validated_snocI started_snocI split: Phase.splits)
qed

text \<open>A session runs at most one flow: no event leads back to the idle phase.\<close>

definition starts_flow :: "session_event \<Rightarrow> bool" where
  "starts_flow ev = (case ev of
     Sent m \<Rightarrow> registration m \<or> (case m of RegisterExploreSession _ _ _ \<Rightarrow> True | _ \<Rightarrow> False) | Received _ \<Rightarrow> False)"

lemma phase_step_starts_flow:
  "phase_step p ev q \<Longrightarrow> if starts_flow ev then p = Ph_idle \<and> q \<noteq> Ph_idle else (p = Ph_idle \<longleftrightarrow> q = Ph_idle)"
  by (cases rule: phase_step.cases)
    (auto simp: starts_flow_def message_class_defs split: ClientMessage.splits)

lemma phase_run_flows:
  "phase_run p evs q \<Longrightarrow> p = Ph_idle \<Longrightarrow> length (filter starts_flow evs) = (if q = Ph_idle then 0 else 1)"
proof (induction rule: phase_run.induct)
  case (run_snoc p evs q ev r)
  then show ?case using phase_step_starts_flow [OF run_snoc.hyps(2)] by (auto split: if_splits)
qed simp

section \<open>Properties\<close>



text \<open>C6: In a session the guard accepted, a state is reported only after a registration, a positive
  validation and an initial state, in this order.\<close>

theorem report_after_initial_state:
  assumes "guard_run Ph_idle (evs @ [Sent (ReportState s)]) = Inr q"
  shows "\<exists>xs m ys zs a st ws. registration m \<and>
    evs = xs @ Sent m # ys @ Received (SpecValidated None) # zs @ Received (InitialState a st) # ws"
proof -
  from assms have "phase_run Ph_idle (evs @ [Sent (ReportState s)]) q"
    by (simp add: guard_run_phase_run)
  then obtain p where "phase_run Ph_idle evs p" "phase_step p (Sent (ReportState s)) q"
    by (rule phase_run_snocE) auto
  then have "started evs"
    using phase_history_run [of Ph_idle evs p] by (auto simp: phase_step_sent message_class_defs phase_history_def)
  then show ?thesis
    unfolding started_def validated_def opened_def by (metis append.assoc append_Cons)
qed

definition sample_config :: ApalacheConfig where
  "sample_config = \<lparr> spec_path = ''Counter.tla'', init_predicate = None, next_predicate = None, const_init = None,
     invariant = [], length_bound = 10, param_vars = [] \<rparr>"

definition sample_run :: "session_event list" where
  "sample_run = [Sent (RegisterTraces sample_config [''t.itf.json'']), Received (SpecValidated None),
     Received (InitialState ''init'' []), Received (NextStep ''Tick'' [])]"

lemma sample_run_accepted: "guard_run Ph_idle (sample_run @ [Sent (ReportState [])]) = Inr Ph_stepping"
  by (simp add: sample_run_def guard_step_def guard_sent_def guard_received_def guard_visit_def client_message_name_def
      mirror_message_name_def is_reg_tag_def starts_with_def)

theorem report_after_initial_state_witness:
  "\<exists>xs m ys zs a st ws. registration m \<and>
    sample_run = xs @ Sent m # ys @ Received (SpecValidated None) # zs @ Received (InitialState a st) # ws"
  by (rule report_after_initial_state [OF sample_run_accepted])

text \<open>C7: An accepted session from the idle phase starts at most one flow, and exactly one when it
  has left the idle phase.\<close>

theorem one_flow_per_session:
  assumes "guard_run Ph_idle evs = Inr q"
  shows "length (filter starts_flow evs) = (if q = Ph_idle then 0 else 1)"
  using phase_run_flows assms by (simp add: guard_run_phase_run)

theorem one_flow_per_session_witness:
  "length (filter starts_flow (sample_run @ [Sent (ReportState [])])) = 1"
  using one_flow_per_session [OF sample_run_accepted] by simp

end
