(* ===== verification/Transport_Framing.thy ===== *)
theory Transport_Framing
  imports Error_Model
begin

text \<open>
  Newline framing over byte streams: \<^verbatim>\<open>src/detail/line.hpp\<close>, the stream operations of
  \<^verbatim>\<open>src/detail/net.cpp\<close> and \<^verbatim>\<open>src/detail/tls.cpp\<close>, and the framing half of the transports.

  The operating system is a script: a list of what successive \<^verbatim>\<open>read\<close> (or \<^verbatim>\<open>SSL_read\<close>) calls
  return, and a list of what successive \<^verbatim>\<open>send\<close> (or \<^verbatim>\<open>SSL_write\<close>) calls do. A reader whose
  script is exhausted blocks, which is the value \<open>None\<close>: the transports have no receive
  timeout. A writer whose script is exhausted is served in full. Received data of length
  zero is end of file, as it is for \<^verbatim>\<open>read\<close>.
\<close>

section \<open>Reading lines\<close>

datatype read_event = RData string | RIntr | RError string

text \<open>\<^verbatim>\<open>do n = read(...); while (n < 0 && errno == EINTR)\<close>.\<close>

fun os_read :: "read_event list \<Rightarrow> (read_event \<times> read_event list) option" where
  "os_read [] = None"
| "os_read (RIntr # es) = os_read es"
| "os_read (RData d # es) = Some (RData d, es)"
| "os_read (RError m # es) = Some (RError m, es)"

lemma os_read_shorter: "os_read evs = Some (e, es) \<Longrightarrow> length es < length evs"
  by (induction evs rule: os_read.induct) auto

definition kMaxProtocolLineBytes :: nat where
  "kMaxProtocolLineBytes = 65535"

definition oversize_error :: Error where
  "oversize_error = make_error EK_io ''protocol line exceeds 65535-byte UTF-8 payload limit''"

definition closed_unexpectedly :: string where
  "closed_unexpectedly = ''transport closed unexpectedly''"

text \<open>The result, the buffer and the rest of the script.\<close>

function read_line_from_fd ::
  "string \<Rightarrow> string \<Rightarrow> read_event list \<Rightarrow> (string result \<times> string \<times> read_event list) option" where
  "read_line_from_fd msg buf evs =
    (case find_char newline buf of
       Some nl \<Rightarrow>
         if nl > kMaxProtocolLineBytes then Some (Inl oversize_error, [], evs)
         else Some (Inr (take nl buf), drop (nl + 1) buf, evs)
     | None \<Rightarrow>
         if length buf > kMaxProtocolLineBytes then Some (Inl oversize_error, [], evs)
         else (case os_read evs of
           None \<Rightarrow> None
         | Some (e, es) \<Rightarrow>
             (case e of
                RData d \<Rightarrow>
                  if d = [] then
                    (if buf = [] then Some (Inr [], buf, es)
                     else Some (Inl (make_error EK_io msg), buf, es))
                  else read_line_from_fd msg (buf @ d) es
              | RError m \<Rightarrow> Some (Inl (make_error EK_io (''read failed: '' @ m)), buf, es)
              | RIntr \<Rightarrow> None)))"
  by pat_completeness auto
termination
  by (relation "measure (\<lambda>(msg, buf, evs). length evs)") (auto dest: os_read_shorter)

declare read_line_from_fd.simps [simp del]

text \<open>The em dash of the message is its three UTF-8 bytes.\<close>

definition embedded_newline_message :: string where
  "embedded_newline_message = ''send_line: input contains an embedded newline (framing violation ''
     @ [CHR 0xE2, CHR 0x80, CHR 0x94] @ '' the protocol is newline-delimited JSON)''"

definition reject_embedded_newline :: "string \<Rightarrow> unit result" where
  "reject_embedded_newline line =
    (if line = [] then Inl (make_error EK_io ''send_line: protocol line must not be empty'')
     else if find_char newline line \<noteq> None then Inl (make_error EK_io embedded_newline_message)
     else if length line > kMaxProtocolLineBytes
       then Inl (make_error EK_io ''send_line: protocol line exceeds 65535-byte UTF-8 payload limit'')
     else Inr ())"

section \<open>Sockets\<close>

datatype send_event = SAccept nat | SIntr | SError string

record Socket =
  sk_open :: bool
  sk_buf :: string
  sk_in :: "read_event list"
  sk_out :: "send_event list"
  sk_wire :: string

definition sock_close :: "Socket \<Rightarrow> Socket" where
  "sock_close s = s\<lparr> sk_open := False, sk_buf := [] \<rparr>"

definition sock_read_line :: "Socket \<Rightarrow> (Socket \<times> string result) option" where
  "sock_read_line s =
    (if \<not> sk_open s then Some (s, Inl (make_error EK_io ''read_line on closed socket''))
     else (case read_line_from_fd closed_unexpectedly (sk_buf s) (sk_in s) of
       None \<Rightarrow> None
     | Some (r, buf, evs) \<Rightarrow>
         Some (s\<lparr> sk_buf := buf, sk_in := evs \<rparr>,
           case r of
             Inl e \<Rightarrow> Inl e
           | Inr line \<Rightarrow> if line = [] then Inl (make_error EK_io closed_unexpectedly) else Inr line)))"

text \<open>The loop of \<^verbatim>\<open>read_n\<close>: \<open>acc\<close> is \<^verbatim>\<open>out\<close>.\<close>

function read_n_loop ::
  "nat \<Rightarrow> string \<Rightarrow> string \<Rightarrow> read_event list \<Rightarrow> (string result \<times> string \<times> read_event list) option" where
  "read_n_loop n acc buf evs =
    (if \<not> length acc < n then Some (Inr acc, buf, evs)
     else if buf \<noteq> [] then
       (let k = min (n - length acc) (length buf) in read_n_loop n (acc @ take k buf) (drop k buf) evs)
     else (case evs of
       [] \<Rightarrow> None
     | e # es \<Rightarrow>
         (case e of
            RIntr \<Rightarrow> read_n_loop n acc buf es
          | RError m \<Rightarrow> Some (Inl (make_error EK_io (''read failed: '' @ m)), buf, es)
          | RData d \<Rightarrow>
              if d = [] then
                Some (Inl (make_error EK_io (''transport closed unexpectedly (EOF before '' @ nat_to_string n @ '' bytes)'')), buf, es)
              else read_n_loop n (acc @ d) buf es)))"
  by pat_completeness auto
termination
  by (relation "measures [\<lambda>(n, acc, buf, evs). length evs, \<lambda>(n, acc, buf, evs). length buf]") auto

declare read_n_loop.simps [simp del]

text \<open>\<^verbatim>\<open>out.reserve(n)\<close> throws when \<open>n\<close> bytes exceed \<^verbatim>\<open>max_size()\<close> or cannot be allocated; which sizes these are
  is the parameter \<open>reserve\<close>.\<close>

definition sock_read_n :: "(nat \<Rightarrow> exn option) \<Rightarrow> nat \<Rightarrow> Socket \<Rightarrow> (Socket \<times> string outcome) option" where
  "sock_read_n reserve n s =
    (if \<not> sk_open s then Some (s, Inr (Inl (make_error EK_io ''read_n on closed socket'')))
     else (case reserve n of
       Some x \<Rightarrow> Some (s, Inl x)
     | None \<Rightarrow> map_option (\<lambda>(r, buf, evs). (s\<lparr> sk_buf := buf, sk_in := evs \<rparr>, Inr r))
         (read_n_loop n [] (sk_buf s) (sk_in s))))"

fun read_eof_loop :: "string \<Rightarrow> read_event list \<Rightarrow> (string result \<times> read_event list) option" where
  "read_eof_loop acc [] = None"
| "read_eof_loop acc (RIntr # es) = read_eof_loop acc es"
| "read_eof_loop acc (RError m # es) = Some (Inl (make_error EK_io (''read failed: '' @ m)), es)"
| "read_eof_loop acc (RData d # es) = (if d = [] then Some (Inr acc, es) else read_eof_loop (acc @ d) es)"

definition sock_read_until_eof :: "Socket \<Rightarrow> (Socket \<times> string result) option" where
  "sock_read_until_eof s =
    (if \<not> sk_open s then Some (s, Inl (make_error EK_io ''read_until_eof on closed socket''))
     else map_option (\<lambda>(r, evs). (s\<lparr> sk_buf := [], sk_in := evs \<rparr>, r)) (read_eof_loop (sk_buf s) (sk_in s)))"

text \<open>The loop of \<^verbatim>\<open>write_all\<close> on the bytes not yet accepted; the wire collects what was.\<close>

fun send_loop :: "string \<Rightarrow> send_event list \<Rightarrow> string \<Rightarrow> unit result \<times> send_event list \<times> string" where
  "send_loop data [] wire = (Inr (), [], wire @ data)"
| "send_loop data (e # es) wire =
    (if data = [] then (Inr (), e # es, wire)
     else (case e of
       SIntr \<Rightarrow> send_loop data es wire
     | SError m \<Rightarrow> (Inl (make_error EK_io (''send failed: '' @ m)), es, wire)
     | SAccept n \<Rightarrow>
         if n = 0 then (Inl (make_error EK_io ''send: connection closed by peer''), es, wire)
         else send_loop (drop n data) es (wire @ take n data)))"

definition sock_write_all :: "Socket \<Rightarrow> string \<Rightarrow> Socket \<times> unit result" where
  "sock_write_all s data =
    (if \<not> sk_open s then (s, Inl (make_error EK_io ''write_all on closed socket''))
     else (case send_loop data (sk_out s) (sk_wire s) of
       (r, evs, wire) \<Rightarrow> (s\<lparr> sk_out := evs, sk_wire := wire \<rparr>, r)))"

section \<open>The interface and the TCP transport\<close>

text \<open>The virtual functions of \<^verbatim>\<open>class Transport\<close>, on a transport state of any type.\<close>

record 't transport_ops =
  send_line :: "'t \<Rightarrow> string \<Rightarrow> 't \<times> unit result"
  recv_line :: "'t \<Rightarrow> ('t \<times> string result) option"
  close_transport :: "'t \<Rightarrow> ('t \<times> 64 word result) option"
  async_capable :: "'t \<Rightarrow> bool"

record TcpTransport =
  tcp_sock :: Socket
  tcp_closed :: bool

definition tcp_send_line :: "TcpTransport \<Rightarrow> string \<Rightarrow> TcpTransport \<times> unit result" where
  "tcp_send_line t line =
    (if tcp_closed t then (t, Inl (make_error EK_io ''send_line on closed transport''))
     else (case reject_embedded_newline line of
       Inl e \<Rightarrow> (t, Inl e)
     | Inr _ \<Rightarrow> (case sock_write_all (tcp_sock t) (line @ [newline]) of (s, r) \<Rightarrow> (t\<lparr> tcp_sock := s \<rparr>, r))))"

definition tcp_recv_line :: "TcpTransport \<Rightarrow> (TcpTransport \<times> string result) option" where
  "tcp_recv_line t =
    (if tcp_closed t then Some (t, Inl (make_error EK_io ''recv_line on closed transport''))
     else map_option (\<lambda>(s, r). (t\<lparr> tcp_sock := s \<rparr>, r)) (sock_read_line (tcp_sock t)))"

definition tcp_close :: "TcpTransport \<Rightarrow> (TcpTransport \<times> 64 word result) option" where
  "tcp_close t =
    (if tcp_closed t then Some (t, Inr 0)
     else Some (t\<lparr> tcp_closed := True, tcp_sock := sock_close (tcp_sock t) \<rparr>, Inr 0))"

definition tcp_ops :: "TcpTransport transport_ops" where
  "tcp_ops = \<lparr> send_line = tcp_send_line, recv_line = tcp_recv_line, close_transport = tcp_close,
     async_capable = (\<lambda>_. True) \<rparr>"

section \<open>The TLS transport\<close>

text \<open>What \<^verbatim>\<open>SSL_read\<close> gives: data (at least one byte), a retryable condition, an orderly shutdown, or a failure with the
  text of the OpenSSL error queue; and the same for \<^verbatim>\<open>SSL_write\<close>, where \<open>WAccept n\<close> takes up to
  \<open>n + 1\<close> bytes.\<close>

datatype ssl_read_event = TData string | TWant | TZero | TFail string
datatype ssl_write_event = WAccept nat | WWant | WZero | WFail string

record SslStream =
  ssl_session :: bool
  ssl_buf :: string
  ssl_in :: "ssl_read_event list"
  ssl_out :: "ssl_write_event list"
  ssl_wire :: string
  ssl_fingerprint :: string

fun ssl_read_loop :: "string \<Rightarrow> ssl_read_event list \<Rightarrow> (string result \<times> string \<times> ssl_read_event list) option" where
  "ssl_read_loop buf evs =
    (case find_char newline buf of
       Some nl \<Rightarrow>
         if nl > kMaxProtocolLineBytes then Some (Inl oversize_error, [], evs)
         else Some (Inr (take nl buf), drop (nl + 1) buf, evs)
     | None \<Rightarrow>
         if length buf > kMaxProtocolLineBytes then Some (Inl oversize_error, [], evs)
         else (case evs of
           [] \<Rightarrow> None
         | e # es \<Rightarrow>
             (case e of
                TData d \<Rightarrow> ssl_read_loop (buf @ d) es
              | TWant \<Rightarrow> ssl_read_loop buf es
              | TZero \<Rightarrow> Some (Inl (make_error EK_io closed_unexpectedly), buf, es)
              | TFail m \<Rightarrow> Some (Inl (make_error EK_tls (''SSL_read failed: '' @ m)), buf, es))))"

declare ssl_read_loop.simps [simp del]

definition ssl_read_line :: "SslStream \<Rightarrow> (SslStream \<times> string result) option" where
  "ssl_read_line s =
    (if \<not> ssl_session s then Some (s, Inl (make_error EK_io ''read_line: no TLS session''))
     else map_option (\<lambda>(r, buf, evs). (s\<lparr> ssl_buf := buf, ssl_in := evs \<rparr>, r)) (ssl_read_loop (ssl_buf s) (ssl_in s)))"

fun ssl_write_loop :: "string \<Rightarrow> ssl_write_event list \<Rightarrow> string \<Rightarrow> unit result \<times> ssl_write_event list \<times> string" where
  "ssl_write_loop data [] wire = (Inr (), [], wire @ data)"
| "ssl_write_loop data (e # es) wire =
    (if data = [] then (Inr (), e # es, wire)
     else (case e of
       WAccept n \<Rightarrow> ssl_write_loop (drop (Suc n) data) es (wire @ take (Suc n) data)
     | WWant \<Rightarrow> ssl_write_loop data es wire
     | WZero \<Rightarrow> (Inl (make_error EK_io ''SSL_write: connection closed by peer''), es, wire)
     | WFail m \<Rightarrow> (Inl (make_error EK_tls (''SSL_write failed: '' @ m)), es, wire)))"

definition ssl_write_all :: "SslStream \<Rightarrow> string \<Rightarrow> SslStream \<times> unit result" where
  "ssl_write_all s data =
    (if \<not> ssl_session s then (s, Inl (make_error EK_tls ''write_all: no TLS session''))
     else (case ssl_write_loop data (ssl_out s) (ssl_wire s) of
       (r, evs, wire) \<Rightarrow> (s\<lparr> ssl_out := evs, ssl_wire := wire \<rparr>, r)))"

definition ssl_close :: "SslStream \<Rightarrow> SslStream" where
  "ssl_close s = s\<lparr> ssl_session := False, ssl_buf := [], ssl_fingerprint := [] \<rparr>"

record TlsTransport =
  tls_stream :: SslStream
  tls_closed :: bool

definition tls_send_line :: "TlsTransport \<Rightarrow> string \<Rightarrow> TlsTransport \<times> unit result" where
  "tls_send_line t line =
    (if tls_closed t then (t, Inl (make_error EK_io ''send_line on closed transport''))
     else (case reject_embedded_newline line of
       Inl e \<Rightarrow> (t, Inl e)
     | Inr _ \<Rightarrow> (case ssl_write_all (tls_stream t) (line @ [newline]) of (s, r) \<Rightarrow> (t\<lparr> tls_stream := s \<rparr>, r))))"

definition tls_recv_line :: "TlsTransport \<Rightarrow> (TlsTransport \<times> string result) option" where
  "tls_recv_line t =
    (if tls_closed t then Some (t, Inl (make_error EK_io ''recv_line on closed transport''))
     else map_option (\<lambda>(s, r). (t\<lparr> tls_stream := s \<rparr>, r)) (ssl_read_line (tls_stream t)))"

definition tls_close :: "TlsTransport \<Rightarrow> (TlsTransport \<times> 64 word result) option" where
  "tls_close t =
    (if tls_closed t then Some (t, Inr 0)
     else Some (t\<lparr> tls_closed := True, tls_stream := ssl_close (tls_stream t) \<rparr>, Inr 0))"

definition tls_ops :: "TlsTransport transport_ops" where
  "tls_ops = \<lparr> send_line = tls_send_line, recv_line = tls_recv_line, close_transport = tls_close,
     async_capable = (\<lambda>_. True) \<rparr>"

section \<open>Lines of a byte stream\<close>

function split_lines :: "string \<Rightarrow> string list" where
  "split_lines s =
    (case find_char newline s of None \<Rightarrow> [] | Some n \<Rightarrow> take n s # split_lines (drop (Suc n) s))"
  by pat_completeness auto
termination
  by (relation "measure length") (auto simp: find_char_Some)

declare split_lines.simps [simp del]

definition frame :: "string list \<Rightarrow> string" where
  "frame ls = concat (map (\<lambda>l. l @ [newline]) ls)"

definition valid_line :: "string \<Rightarrow> bool" where
  "valid_line l = (l \<noteq> [] \<and> newline \<notin> set l \<and> length l \<le> kMaxProtocolLineBytes)"

lemma frame_simps [simp]: "frame [] = []" "frame (l # ls) = l @ newline # frame ls"
  "frame (xs @ ys) = frame xs @ frame ys"
  by (simp_all add: frame_def)

lemma split_lines_no_newline: "newline \<notin> set s \<Longrightarrow> split_lines s = []"
  by (subst split_lines.simps) (simp add: find_char_None [symmetric])

lemma split_lines_Cons: "newline \<notin> set l \<Longrightarrow> split_lines (l @ newline # s) = l # split_lines s"
  by (subst split_lines.simps) simp

lemma split_lines_Cons_iff:
  "split_lines s = l # ls \<longleftrightarrow> (\<exists>r. s = l @ newline # r \<and> newline \<notin> set l \<and> split_lines r = ls)"
proof
  assume *: "split_lines s = l # ls"
  then obtain n where n: "find_char newline s = Some n" "l = take n s" "ls = split_lines (drop (Suc n) s)"
    by (subst (asm) split_lines.simps) (auto split: option.splits)
  then have "newline \<notin> set l" "s = l @ newline # drop (Suc n) s"
    using find_char_split [OF n(1)] by (auto simp: find_char_Some)
  with n show "\<exists>r. s = l @ newline # r \<and> newline \<notin> set l \<and> split_lines r = ls"
    by blast
qed (auto simp: split_lines_Cons)

lemma split_lines_Nil_iff: "split_lines s = [] \<longleftrightarrow> newline \<notin> set s"
  by (subst split_lines.simps) (simp add: find_char_None [symmetric] split: option.splits)

lemma split_lines_frame_append:
  "list_all (\<lambda>l. newline \<notin> set l) ls \<Longrightarrow> split_lines (frame ls @ s) = ls @ split_lines s"
  by (induction ls) (auto simp: split_lines_Cons)

lemma split_lines_frame: "list_all (\<lambda>l. newline \<notin> set l) ls \<Longrightarrow> split_lines (frame ls) = ls"
  using split_lines_frame_append [of ls "[]"] by (simp add: split_lines_no_newline)

lemma split_lines_no_newlines: "list_all (\<lambda>l. newline \<notin> set l) (split_lines s)"
proof (induction s rule: split_lines.induct)
  case (1 s)
  show ?case
  proof (cases "split_lines s")
    case (Cons l ls)
    then obtain r where "s = l @ newline # r" "newline \<notin> set l" "split_lines r = ls"
      by (auto simp: split_lines_Cons_iff)
    with 1 [of "length l"] Cons show ?thesis by (auto simp: list_all_append)
  qed simp
qed

text \<open>A stream that ends at a line boundary is the framing of its lines.\<close>

definition at_boundary :: "string \<Rightarrow> bool" where
  "at_boundary w = (frame (split_lines w) = w)"

lemma at_boundary_append:
  assumes "at_boundary w"
  shows "split_lines (w @ s) = split_lines w @ split_lines s"
  using split_lines_frame_append [OF split_lines_no_newlines [of w], of s] assms
  by (simp add: at_boundary_def)

lemma at_boundary_line:
  assumes "at_boundary w" "newline \<notin> set l"
  shows "at_boundary (w @ l @ [newline])" "split_lines (w @ l @ [newline]) = split_lines w @ [l]"
  using at_boundary_append [OF assms(1), of "l @ [newline]"] assms split_lines_Cons [OF assms(2), of "[]"]
  by (simp_all add: at_boundary_def split_lines_no_newline)

lemma at_boundary_Nil [simp]: "at_boundary []"
  by (simp add: at_boundary_def split_lines_no_newline)

section \<open>Reading is independent of how the stream is cut\<close>

text \<open>The bytes a script delivers when it holds only data and interruptions.\<close>

fun data_only :: "read_event list \<Rightarrow> bool" where
  "data_only [] = True"
| "data_only (RData d # es) = (d \<noteq> [] \<and> data_only es)"
| "data_only (RIntr # es) = data_only es"
| "data_only (RError m # es) = False"

fun script_bytes :: "read_event list \<Rightarrow> string" where
  "script_bytes [] = []"
| "script_bytes (RData d # es) = d @ script_bytes es"
| "script_bytes (RIntr # es) = script_bytes es"
| "script_bytes (RError m # es) = []"

lemma os_read_data_only:
  assumes "data_only evs" "os_read evs = Some (e, es)"
  obtains d where "e = RData d" "d \<noteq> []" "data_only es" "script_bytes evs = d @ script_bytes es"
  using assms by (induction evs rule: os_read.induct) auto

lemma os_read_data_only_None: "data_only evs \<Longrightarrow> os_read evs = None \<Longrightarrow> script_bytes evs = []"
  by (induction evs rule: os_read.induct) auto

lemma read_line_in_buffer:
  "newline \<notin> set l \<Longrightarrow> length l \<le> kMaxProtocolLineBytes \<Longrightarrow>
    read_line_from_fd msg (l @ newline # r) evs = Some (Inr l, r, evs)"
  by (subst read_line_from_fd.simps) simp

lemma read_line_from_fd_line:
  assumes "data_only evs" "buf @ script_bytes evs = l @ newline # r" "newline \<notin> set l"
    and "length l \<le> kMaxProtocolLineBytes"
  shows "\<exists>buf' evs'. read_line_from_fd msg buf evs = Some (Inr l, buf', evs') \<and>
    buf' @ script_bytes evs' = r \<and> data_only evs'"
  using assms
proof (induction msg buf evs rule: read_line_from_fd.induct)
  case (1 msg buf evs)
  show ?case
  proof (cases "newline \<in> set buf")
    case True
    then obtain r' where "buf = l @ newline # r'" "r = r' @ script_bytes evs"
      using first_occurrence_in [OF 1(3,4)] by blast
    with 1(2,4,5) show ?thesis by (simp add: read_line_in_buffer)
  next
    case False
    then obtain l' where l': "l = buf @ l'" "script_bytes evs = l' @ newline # r"
      using first_occurrence_beyond [OF 1(3)] by blast
    then have buf: "find_char newline buf = None" "length buf \<le> kMaxProtocolLineBytes"
      using 1(5) False by (simp_all add: find_char_None)
    have "os_read evs \<noteq> None"
      using 1(2) l'(2) os_read_data_only_None by fastforce
    then obtain e es where e: "os_read evs = Some (e, es)" by auto
    from os_read_data_only [OF 1(2) e] obtain d where d: "e = RData d" "d \<noteq> []" "data_only es"
      "script_bytes evs = d @ script_bytes es" by blast
    have "read_line_from_fd msg buf evs = read_line_from_fd msg (buf @ d) es"
      by (subst read_line_from_fd.simps) (use buf e d in simp)
    moreover have "(buf @ d) @ script_bytes es = l @ newline # r" using 1(3) d(4) by simp
    ultimately show ?thesis using 1(1) [OF buf(1) _ e refl d(1,2,3) _ 1(4,5)] buf(2) by simp
  qed
qed

lemma read_line_from_fd_oversize:
  assumes "data_only evs" "buf @ script_bytes evs = l @ r" "newline \<notin> set l"
    and "length l > kMaxProtocolLineBytes"
  shows "\<exists>evs'. read_line_from_fd msg buf evs = Some (Inl oversize_error, [], evs')"
  using assms
proof (induction msg buf evs rule: read_line_from_fd.induct)
  case (1 msg buf evs)
  show ?case
  proof (cases "length buf \<le> kMaxProtocolLineBytes")
    case True
    then obtain l' where l': "l = buf @ l'" "script_bytes evs = l' @ r"
      using 1(3,5) by (auto simp: append_eq_append_conv2)
    then have "l' \<noteq> []" using True 1(5) by auto
    from l'(1) have none: "find_char newline buf = None" using 1(4) by (simp add: find_char_None)
    have "os_read evs \<noteq> None" using 1(2) l'(2) \<open>l' \<noteq> []\<close> os_read_data_only_None by fastforce
    then obtain e es where e: "os_read evs = Some (e, es)" by auto
    from os_read_data_only [OF 1(2) e] obtain d where d: "e = RData d" "d \<noteq> []" "data_only es"
      "script_bytes evs = d @ script_bytes es" by blast
    have "read_line_from_fd msg buf evs = read_line_from_fd msg (buf @ d) es"
      by (subst read_line_from_fd.simps) (use True none e d in simp)
    moreover have "(buf @ d) @ script_bytes es = l @ r" using 1(3) d(4) by simp
    ultimately show ?thesis using 1(1) [OF none _ e refl d(1,2,3) _ 1(4,5)] True by simp
  next
    case False
    have "nl > kMaxProtocolLineBytes" if "find_char newline buf = Some nl" for nl
    proof (rule ccontr)
      assume "\<not> nl > kMaxProtocolLineBytes"
      then have "nl < length l" "nl < length buf" using 1(5) that by (auto simp: find_char_Some)
      then have "l ! nl = buf ! nl" using 1(3) by (metis nth_append)
      with that \<open>nl < length l\<close> 1(4) show False by (metis find_char_Some nth_mem)
    qed
    with False show ?thesis by (subst read_line_from_fd.simps) (simp split: option.splits)
  qed
qed

section \<open>Writing\<close>

lemma send_loop_ok: "send_loop data evs w = (Inr u, evs', w') \<Longrightarrow> w' = w @ data"
  by (induction data evs w rule: send_loop.induct) (auto split: if_splits send_event.splits)

lemma send_loop_error:
  "send_loop data evs w = (Inl e, evs', w') \<Longrightarrow> \<exists>p q. w' = w @ p \<and> data = p @ q \<and> q \<noteq> []"
proof (induction data evs w rule: send_loop.induct)
  case (2 data e' es wire)
  show ?case
  proof (cases e')
    case (SAccept n)
    then show ?thesis
    proof (cases "n = 0 \<or> data = []")
      case False
      with 2 SAccept obtain p q where "w' = (wire @ take n data) @ p" "drop n data = p @ q" "q \<noteq> []"
        by auto
      then have "w' = wire @ (take n data @ p) \<and> data = (take n data @ p) @ q \<and> q \<noteq> []"
        by (metis append.assoc append_take_drop_id)
      then show ?thesis by blast
    qed (use 2 SAccept in \<open>auto split: if_splits\<close>)
  qed (use 2 in \<open>auto split: if_splits\<close>)
qed simp

lemma strict_prefix_of_line: "l @ [newline] = p @ q \<Longrightarrow> q \<noteq> [] \<Longrightarrow> newline \<notin> set l \<Longrightarrow> newline \<notin> set p"
  by (cases q rule: rev_cases) auto

lemma send_loop_framed_error:
  assumes "send_loop (l @ [newline]) evs w = (Inl e, evs', w')" "newline \<notin> set l" "at_boundary w"
  shows "split_lines w' = split_lines w"
proof -
  from send_loop_error [OF assms(1)] obtain p q where "w' = w @ p" "l @ [newline] = p @ q" "q \<noteq> []" by blast
  with strict_prefix_of_line assms(2) at_boundary_append [OF assms(3)] show ?thesis
    by (simp add: split_lines_no_newline)
qed

text \<open>A peer that keeps reading: no write fails, though it may be cut into pieces.\<close>

definition accepting :: "send_event list \<Rightarrow> bool" where
  "accepting evs = list_all (\<lambda>e. case e of SAccept n \<Rightarrow> n \<noteq> 0 | SIntr \<Rightarrow> True | SError _ \<Rightarrow> False) evs"

lemma send_loop_accepting:
  "accepting evs \<Longrightarrow> \<exists>evs'. send_loop data evs w = (Inr (), evs', w @ data) \<and> accepting evs'"
  by (induction data evs w rule: send_loop.induct) (auto simp: accepting_def split: send_event.splits)

lemma reject_embedded_newline_ok: "reject_embedded_newline l = Inr u \<longleftrightarrow> valid_line l"
  by (auto simp: reject_embedded_newline_def valid_line_def find_char_None)

section \<open>The contract of a line transport\<close>

text \<open>
  What every client relies on: a successful send puts exactly one more line on the wire, a
  failed one no complete line; receiving touches neither; closing closes and sends
  nothing. \<open>boundary\<close> says that no half-written line is pending, which holds until the first
  failed send. This is \<open>line_channel\<close>; \<open>live_channel\<close> adds what a healthy connection promises.
  A transport proper (\<open>line_transport\<close>, \<open>live_transport\<close>) refuses every operation once it is closed, which a
  channel that still holds a received line need not do.
\<close>

locale line_channel =
  fixes ops :: "'t transport_ops"
    and boundary :: "'t \<Rightarrow> bool"
    and sent :: "'t \<Rightarrow> string list"
    and is_open :: "'t \<Rightarrow> bool"
  assumes send_ok: "send_line ops t l = (t', Inr u) \<Longrightarrow> boundary t \<Longrightarrow> boundary t' \<and> sent t' = sent t @ [l]"
    and send_ok_valid: "send_line ops t l = (t', Inr u) \<Longrightarrow> valid_line l"
    and send_error: "send_line ops t l = (t', Inl e) \<Longrightarrow> boundary t \<Longrightarrow> sent t' = sent t"
    and recv_silent: "recv_line ops t = Some (t', r) \<Longrightarrow> sent t' = sent t \<and> (boundary t' \<longleftrightarrow> boundary t)"
    and send_open: "send_line ops t l = (t', q) \<Longrightarrow> is_open t' \<longleftrightarrow> is_open t"
    and recv_open: "recv_line ops t = Some (t', r) \<Longrightarrow> is_open t' \<longleftrightarrow> is_open t"
    and close_closes: "close_transport ops t = Some (t', c) \<Longrightarrow> \<not> is_open t' \<and> sent t' = sent t"

locale line_transport = line_channel +
  assumes closed_send: "\<not> is_open t \<Longrightarrow> \<exists>e. send_line ops t l = (t, Inl e)"
    and closed_recv: "\<not> is_open t \<Longrightarrow> \<exists>e. recv_line ops t = Some (t, Inl e)"

locale live_channel = line_channel +
  fixes pending :: "'a \<Rightarrow> string list"
    and healthy :: "'a \<Rightarrow> bool"
  assumes healthy_boundary: "healthy t \<Longrightarrow> boundary t"
    and recv_pending: "healthy t \<Longrightarrow> pending t = l # ls \<Longrightarrow>
      \<exists>t'. recv_line ops t = Some (t', Inr l) \<and> pending t' = ls \<and> healthy t'"
    and send_healthy: "healthy t \<Longrightarrow> valid_line l \<Longrightarrow>
      \<exists>t'. send_line ops t l = (t', Inr ()) \<and> pending t' = pending t \<and> healthy t'"
    and close_returns: "\<exists>t' c. close_transport ops t = Some (t', c)"

locale live_transport = line_transport + live_channel

section \<open>TCP and TLS satisfy it\<close>

definition tcp_boundary :: "TcpTransport \<Rightarrow> bool" where
  "tcp_boundary t = at_boundary (sk_wire (tcp_sock t))"

definition tcp_sent :: "TcpTransport \<Rightarrow> string list" where
  "tcp_sent t = split_lines (sk_wire (tcp_sock t))"

definition tcp_open :: "TcpTransport \<Rightarrow> bool" where
  "tcp_open t = (\<not> tcp_closed t)"

definition tcp_pending :: "TcpTransport \<Rightarrow> string list" where
  "tcp_pending t = split_lines (sk_buf (tcp_sock t) @ script_bytes (sk_in (tcp_sock t)))"

definition tcp_healthy :: "TcpTransport \<Rightarrow> bool" where
  "tcp_healthy t = (\<not> tcp_closed t \<and> sk_open (tcp_sock t) \<and> data_only (sk_in (tcp_sock t)) \<and>
     accepting (sk_out (tcp_sock t)) \<and> at_boundary (sk_wire (tcp_sock t)) \<and> list_all valid_line (tcp_pending t))"

lemmas tcp_defs = tcp_ops_def tcp_send_line_def tcp_recv_line_def tcp_close_def sock_write_all_def
  sock_read_line_def sock_close_def tcp_boundary_def tcp_sent_def tcp_open_def

interpretation tcp: line_transport tcp_ops tcp_boundary tcp_sent tcp_open
proof
  fix t t' l u e and r :: "string result" and q :: "unit result" and c :: "64 word result"
  show "tcp_open t' \<longleftrightarrow> tcp_open t" if "send_line tcp_ops t l = (t', q)"
    using that by (auto simp: tcp_defs split: if_splits sum.splits prod.splits)
  show "tcp_open t' \<longleftrightarrow> tcp_open t" if "recv_line tcp_ops t = Some (t', r)"
    using that by (auto simp: tcp_defs split: if_splits option.splits prod.splits)
  show "tcp_boundary t' \<and> tcp_sent t' = tcp_sent t @ [l]"
    if "send_line tcp_ops t l = (t', Inr u)" "tcp_boundary t"
    using that by (auto simp: tcp_defs reject_embedded_newline_ok valid_line_def at_boundary_line dest!: send_loop_ok
        split: if_splits sum.splits prod.splits)
  show "valid_line l" if "send_line tcp_ops t l = (t', Inr u)"
    using that by (auto simp: tcp_defs reject_embedded_newline_ok split: if_splits sum.splits)
  show "tcp_sent t' = tcp_sent t" if "send_line tcp_ops t l = (t', Inl e)" "tcp_boundary t"
    using that by (auto simp: tcp_defs reject_embedded_newline_ok valid_line_def dest!: send_loop_framed_error
        split: if_splits sum.splits prod.splits)
  show "tcp_sent t' = tcp_sent t \<and> (tcp_boundary t' \<longleftrightarrow> tcp_boundary t)" if "recv_line tcp_ops t = Some (t', r)"
    using that by (auto simp: tcp_defs split: if_splits option.splits prod.splits)
  show "\<not> tcp_open t' \<and> tcp_sent t' = tcp_sent t" if "close_transport tcp_ops t = Some (t', c)"
    using that by (auto simp: tcp_defs split: if_splits)
  show "\<exists>e. send_line tcp_ops t l = (t, Inl e)" if "\<not> tcp_open t"
    using that by (simp add: tcp_defs)
  show "\<exists>e. recv_line tcp_ops t = Some (t, Inl e)" if "\<not> tcp_open t"
    using that by (simp add: tcp_defs)
qed

lemma tcp_recv_pending:
  assumes "tcp_healthy t" "tcp_pending t = l # ls"
  shows "\<exists>t'. tcp_recv_line t = Some (t', Inr l) \<and> tcp_pending t' = ls \<and> tcp_healthy t'"
proof -
  let ?s = "tcp_sock t"
  from assms(2) obtain r where r: "sk_buf ?s @ script_bytes (sk_in ?s) = l @ newline # r" "newline \<notin> set l"
    "split_lines r = ls"
    by (auto simp: tcp_pending_def split_lines_Cons_iff)
  have valid: "valid_line l" "list_all valid_line ls" "data_only (sk_in ?s)" "sk_open ?s" "\<not> tcp_closed t"
    using assms by (auto simp: tcp_healthy_def)
  obtain buf evs where b: "read_line_from_fd closed_unexpectedly (sk_buf ?s) (sk_in ?s) = Some (Inr l, buf, evs)"
    "buf @ script_bytes evs = r" "data_only evs"
    using read_line_from_fd_line [OF valid(3) r(1,2), of closed_unexpectedly] valid(1) by (auto simp: valid_line_def)
  then show ?thesis
    using valid r(3) assms(1)
    by (auto simp: tcp_recv_line_def sock_read_line_def tcp_pending_def tcp_healthy_def valid_line_def)
qed

lemma tcp_send_healthy:
  assumes "tcp_healthy t" "valid_line l"
  shows "\<exists>t'. tcp_send_line t l = (t', Inr ()) \<and> tcp_pending t' = tcp_pending t \<and> tcp_healthy t'"
proof -
  let ?s = "tcp_sock t"
  have h: "\<not> tcp_closed t" "sk_open ?s" "accepting (sk_out ?s)" "at_boundary (sk_wire ?s)"
    using assms(1) by (auto simp: tcp_healthy_def)
  obtain evs where evs: "send_loop (l @ [newline]) (sk_out ?s) (sk_wire ?s) = (Inr (), evs, sk_wire ?s @ l @ [newline])"
    "accepting evs"
    using send_loop_accepting [OF h(3)] by blast
  moreover have "at_boundary (sk_wire ?s @ l @ [newline])"
    using at_boundary_line [OF h(4)] assms(2) by (simp add: valid_line_def)
  moreover have "reject_embedded_newline l = Inr ()" using assms(2) by (simp add: reject_embedded_newline_ok)
  ultimately show ?thesis
    using h assms(1) by (simp add: tcp_send_line_def sock_write_all_def tcp_pending_def tcp_healthy_def)
qed

interpretation tcp_live: live_transport tcp_ops tcp_boundary tcp_sent tcp_open tcp_pending tcp_healthy
proof
  show "\<exists>t' c. close_transport tcp_ops t = Some (t', c)" for t
    by (simp add: tcp_ops_def tcp_close_def)
qed (use tcp_recv_pending tcp_send_healthy in \<open>auto simp: tcp_ops_def tcp_healthy_def tcp_boundary_def\<close>)

lemma ssl_write_loop_ok: "ssl_write_loop data evs w = (Inr u, evs', w') \<Longrightarrow> w' = w @ data"
  by (induction data evs w rule: ssl_write_loop.induct) (auto split: if_splits ssl_write_event.splits)

lemma ssl_write_loop_error:
  "ssl_write_loop data evs w = (Inl e, evs', w') \<Longrightarrow> \<exists>p q. w' = w @ p \<and> data = p @ q \<and> q \<noteq> []"
proof (induction data evs w rule: ssl_write_loop.induct)
  case (2 data e' es wire)
  show ?case
  proof (cases e')
    case (WAccept n)
    with 2 obtain p q where "w' = (wire @ take (Suc n) data) @ p" "drop (Suc n) data = p @ q" "q \<noteq> []"
      by (auto split: if_splits)
    then have "w' = wire @ (take (Suc n) data @ p) \<and> data = (take (Suc n) data @ p) @ q \<and> q \<noteq> []"
      by (metis append.assoc append_take_drop_id)
    then show ?thesis by blast
  qed (use 2 in \<open>auto split: if_splits\<close>)
qed simp

lemma ssl_write_framed_error:
  assumes "ssl_write_loop (l @ [newline]) evs w = (Inl e, evs', w')" "newline \<notin> set l" "at_boundary w"
  shows "split_lines w' = split_lines w"
proof -
  from ssl_write_loop_error [OF assms(1)] obtain p q where "w' = w @ p" "l @ [newline] = p @ q" "q \<noteq> []" by blast
  with strict_prefix_of_line assms(2) at_boundary_append [OF assms(3)] show ?thesis
    by (simp add: split_lines_no_newline)
qed

definition tls_boundary :: "TlsTransport \<Rightarrow> bool" where
  "tls_boundary t = at_boundary (ssl_wire (tls_stream t))"

definition tls_sent :: "TlsTransport \<Rightarrow> string list" where
  "tls_sent t = split_lines (ssl_wire (tls_stream t))"

definition tls_open :: "TlsTransport \<Rightarrow> bool" where
  "tls_open t = (\<not> tls_closed t)"

lemmas tls_defs = tls_ops_def tls_send_line_def tls_recv_line_def tls_close_def ssl_write_all_def
  ssl_read_line_def ssl_close_def tls_boundary_def tls_sent_def tls_open_def

interpretation tls: line_transport tls_ops tls_boundary tls_sent tls_open
proof
  fix t t' l u e and r :: "string result" and q :: "unit result" and c :: "64 word result"
  show "tls_open t' \<longleftrightarrow> tls_open t" if "send_line tls_ops t l = (t', q)"
    using that by (auto simp: tls_defs split: if_splits sum.splits prod.splits)
  show "tls_open t' \<longleftrightarrow> tls_open t" if "recv_line tls_ops t = Some (t', r)"
    using that by (auto simp: tls_defs split: if_splits option.splits prod.splits)
  show "tls_boundary t' \<and> tls_sent t' = tls_sent t @ [l]"
    if "send_line tls_ops t l = (t', Inr u)" "tls_boundary t"
    using that by (auto simp: tls_defs reject_embedded_newline_ok valid_line_def at_boundary_line dest!: ssl_write_loop_ok
        split: if_splits sum.splits prod.splits)
  show "valid_line l" if "send_line tls_ops t l = (t', Inr u)"
    using that by (auto simp: tls_defs reject_embedded_newline_ok split: if_splits sum.splits)
  show "tls_sent t' = tls_sent t" if "send_line tls_ops t l = (t', Inl e)" "tls_boundary t"
    using that by (auto simp: tls_defs reject_embedded_newline_ok valid_line_def dest!: ssl_write_framed_error
        split: if_splits sum.splits prod.splits)
  show "tls_sent t' = tls_sent t \<and> (tls_boundary t' \<longleftrightarrow> tls_boundary t)" if "recv_line tls_ops t = Some (t', r)"
    using that by (auto simp: tls_defs split: if_splits option.splits prod.splits)
  show "\<not> tls_open t' \<and> tls_sent t' = tls_sent t" if "close_transport tls_ops t = Some (t', c)"
    using that by (auto simp: tls_defs split: if_splits)
  show "\<exists>e. send_line tls_ops t l = (t, Inl e)" if "\<not> tls_open t"
    using that by (simp add: tls_defs)
  show "\<exists>e. recv_line tls_ops t = Some (t, Inl e)" if "\<not> tls_open t"
    using that by (simp add: tls_defs)
qed

text \<open>Receiving as many lines as are pending, on any transport of the second contract.\<close>

fun recv_lines :: "'t transport_ops \<Rightarrow> nat \<Rightarrow> 't \<Rightarrow> string list option" where
  "recv_lines ops 0 t = Some []"
| "recv_lines ops (Suc n) t =
    (case recv_line ops t of
       Some (t', Inr l) \<Rightarrow> map_option ((#) l) (recv_lines ops n t')
     | _ \<Rightarrow> None)"

fun send_lines :: "'t transport_ops \<Rightarrow> string list \<Rightarrow> 't \<Rightarrow> 't option" where
  "send_lines ops [] t = Some t"
| "send_lines ops (l # ls) t = (case send_line ops t l of (t', Inr _) \<Rightarrow> send_lines ops ls t' | (t', Inl _) \<Rightarrow> None)"

context line_channel
begin

lemma send_lines_sent: "send_lines ops ls t = Some t' \<Longrightarrow> boundary t \<Longrightarrow> sent t' = sent t @ ls \<and> list_all valid_line ls"
proof (induction ls arbitrary: t)
  case (Cons l ls)
  from Cons.prems(1) obtain t1 u where "send_line ops t l = (t1, Inr u)" "send_lines ops ls t1 = Some t'"
    by (auto split: prod.splits sum.splits)
  with Cons.IH [of t1] Cons.prems(2) send_ok send_ok_valid show ?case by fastforce
qed simp

end

context live_channel
begin

lemma recv_lines_pending: "healthy t \<Longrightarrow> recv_lines ops (length (pending t)) t = Some (pending t)"
proof (induction "pending t" arbitrary: t)
  case (Cons l ls)
  from recv_pending [OF Cons.prems Cons.hyps(2) [symmetric]] obtain t'
    where t': "recv_line ops t = Some (t', Inr l)" "pending t' = ls" "healthy t'" by blast
  with Cons.hyps(1) [of t'] have "recv_lines ops (length ls) t' = Some ls" by simp
  with t' Cons.hyps(2) [symmetric] show ?case by simp
qed simp

lemma send_lines_healthy: "healthy t \<Longrightarrow> list_all valid_line ls \<Longrightarrow> \<exists>t'. send_lines ops ls t = Some t' \<and> healthy t'"
proof (induction ls arbitrary: t)
  case (Cons l ls)
  then obtain t1 where "send_line ops t l = (t1, Inr ())" "healthy t1" using send_healthy by fastforce
  with Cons.IH [of t1] Cons.prems(2) show ?case by simp
qed simp

end

section \<open>Properties\<close>

text \<open>C4: What one TCP transport sends, another receives: if sending the lines succeeded from a clean
  wire and the new bytes reach the peer in any sequence of nonempty pieces and interruptions,
  receiving returns exactly the lines, in order.\<close>

theorem tcp_send_recv_roundtrip:
  assumes "send_lines tcp_ops ls t = Some t'" "sk_wire (tcp_sock t) = []"
    and "data_only evs" "script_bytes evs = sk_wire (tcp_sock t')"
  shows "recv_lines tcp_ops (length ls)
    \<lparr> tcp_sock = \<lparr> sk_open = True, sk_buf = [], sk_in = evs, sk_out = [], sk_wire = [] \<rparr>, tcp_closed = False \<rparr> = Some ls"
proof -
  have b: "tcp_boundary t" using assms(2) by (simp add: tcp_boundary_def)
  from tcp.send_lines_sent [OF assms(1) b] have ls: "split_lines (sk_wire (tcp_sock t')) = ls" "list_all valid_line ls"
    using assms(2) by (simp_all add: tcp_sent_def split_lines_no_newline)
  let ?p = "\<lparr> tcp_sock = \<lparr> sk_open = True, sk_buf = [], sk_in = evs, sk_out = [], sk_wire = [] \<rparr>, tcp_closed = False \<rparr>"
  have "tcp_pending ?p = ls" using ls(1) assms(4) by (simp add: tcp_pending_def)
  moreover have "tcp_healthy ?p" using ls assms(3,4) by (simp add: tcp_healthy_def tcp_pending_def accepting_def)
  ultimately show ?thesis using tcp_live.recv_lines_pending [of ?p] by simp
qed

definition sample_tcp :: "read_event list \<Rightarrow> send_event list \<Rightarrow> TcpTransport" where
  "sample_tcp ins outs =
     \<lparr> tcp_sock = \<lparr> sk_open = True, sk_buf = [], sk_in = ins, sk_out = outs, sk_wire = [] \<rparr>, tcp_closed = False \<rparr>"

theorem tcp_send_recv_roundtrip_witness:
  "recv_lines tcp_ops 2 (sample_tcp [RData ''a'', RIntr, RData (''b'' @ [newline] @ ''c''), RData [newline]] []) = Some [''ab'', ''c'']"
proof -
  have "send_lines tcp_ops [''ab'', ''c''] (sample_tcp [] [SAccept 1, SIntr, SAccept 9]) =
      Some \<lparr> tcp_sock = \<lparr> sk_open = True, sk_buf = [], sk_in = [], sk_out = [], sk_wire = ''ab'' @ [newline] @ ''c'' @ [newline] \<rparr>,
        tcp_closed = False \<rparr>"
    by (simp add: sample_tcp_def tcp_ops_def tcp_send_line_def reject_embedded_newline_def sock_write_all_def
        kMaxProtocolLineBytes_def)
  from tcp_send_recv_roundtrip [OF this, of "[RData ''a'', RIntr, RData (''b'' @ [newline] @ ''c''), RData [newline]]"]
  show ?thesis by (simp add: sample_tcp_def numeral_2_eq_2)
qed

text \<open>A line is read the same way however the stream is cut: with a newline after at most 65535
  bytes the reader returns the bytes before it and leaves exactly the bytes after it; with
  more than 65535 bytes before the first newline it fails and drops its buffer.\<close>

theorem read_line_chunking:
  assumes "data_only evs"
  shows "(\<forall>l r. buf @ script_bytes evs = l @ newline # r \<and> newline \<notin> set l \<and> length l \<le> 65535 \<longrightarrow>
      (\<exists>buf' evs'. read_line_from_fd msg buf evs = Some (Inr l, buf', evs') \<and> buf' @ script_bytes evs' = r)) \<and>
    (\<forall>l r. buf @ script_bytes evs = l @ r \<and> newline \<notin> set l \<and> length l > 65535 \<longrightarrow>
      (\<exists>evs'. read_line_from_fd msg buf evs = Some (Inl oversize_error, [], evs')))"
  using read_line_from_fd_line [OF assms] read_line_from_fd_oversize [OF assms]
  by (fastforce simp: kMaxProtocolLineBytes_def)

theorem read_line_chunking_witness:
  "\<exists>buf' evs'. read_line_from_fd closed_unexpectedly ''a'' [RData ''b'', RIntr, RData (newline # ''rest'')] =
     Some (Inr ''ab'', buf', evs') \<and> buf' @ script_bytes evs' = ''rest''"
  using read_line_chunking [of "[RData ''b'', RIntr, RData (newline # ''rest'')]" "''a''" closed_unexpectedly] by simp

text \<open>A rejected line is not sent: an empty line, a line with a newline and a line of more than
  65535 bytes are io errors and leave the TCP transport as it was, on an open transport exactly
  these.\<close>

theorem tcp_send_rejects:
  assumes "tcp_healthy t"
  shows "(valid_line l \<longrightarrow> (\<exists>t'. tcp_send_line t l = (t', Inr ()) \<and> tcp_sent t' = tcp_sent t @ [l])) \<and>
    (\<not> valid_line l \<longrightarrow> (\<exists>e. tcp_send_line t l = (t, Inl e) \<and> err_kind e = EK_io))"
proof -
  have "\<exists>t'. tcp_send_line t l = (t', Inr ()) \<and> tcp_sent t' = tcp_sent t @ [l]" if "valid_line l"
    using tcp_send_healthy [OF assms that] tcp.send_ok [of t l] tcp_live.healthy_boundary [OF assms]
    by (fastforce simp: tcp_ops_def)
  moreover have "\<exists>e. tcp_send_line t l = (t, Inl e) \<and> err_kind e = EK_io" if "\<not> valid_line l"
    using that assms reject_embedded_newline_ok [of l "()"]
    by (auto simp: tcp_send_line_def tcp_healthy_def reject_embedded_newline_def split: if_splits)
  ultimately show ?thesis by blast
qed

theorem tcp_send_rejects_witness:
  "tcp_healthy (sample_tcp [] []) \<and>
   (\<exists>e. tcp_send_line (sample_tcp [] []) [] = (sample_tcp [] [], Inl e) \<and> err_kind e = EK_io)"
proof -
  have "tcp_healthy (sample_tcp [] [])"
    by (simp add: sample_tcp_def tcp_healthy_def tcp_pending_def accepting_def split_lines_no_newline)
  with tcp_send_rejects [OF this, of "[]"] show ?thesis by (simp add: valid_line_def)
qed

text \<open>A blank line on the wire is a normal empty message over TLS, while over TCP it is reported
  as a closed connection.\<close>

theorem blank_line_tls_tcp:
  "\<exists>t s. tls_recv_line \<lparr> tls_stream = \<lparr> ssl_session = True, ssl_buf = [], ssl_in = [TData [newline]], ssl_out = [],
        ssl_wire = [], ssl_fingerprint = [] \<rparr>, tls_closed = False \<rparr> = Some (t, Inr []) \<and>
    tcp_recv_line (sample_tcp [RData [newline]] []) = Some (s, Inl (make_error EK_io closed_unexpectedly))"
  by (simp add: tls_recv_line_def ssl_read_line_def ssl_read_loop.simps [of "[]"] ssl_read_loop.simps [of "[newline]"]
      tcp_recv_line_def sock_read_line_def sample_tcp_def read_line_from_fd.simps [of _ "[]"]
      read_line_from_fd.simps [of _ "[newline]"] kMaxProtocolLineBytes_def)

end
