(* ===== verification/Stepping_Flows.thy ===== *)
theory Stepping_Flows
  imports Phase_Guard Transport_Framing
begin

text \<open>
  The session flows of \<^verbatim>\<open>src/client.cpp\<close> over an arbitrary transport: the shared stepping loop, the
  four flows that run it, and the two one-shot flows.

  A flow takes the transport state and gives the new one with an outcome, or \<open>None\<close> when a
  receive blocks. The user's \<^verbatim>\<open>StateComputer\<close> is a function with its own state that returns or
  throws. The body of the loop is \<open>stepping_body\<close>: \<open>Inl\<close> of the next loop state, or \<open>Inr\<close> of what
  the function returns; \<open>stepping_loop\<close> is the \<^verbatim>\<open>for (;;)\<close> around it.
\<close>

section \<open>Helpers\<close>

type_synonym 'c computer = "'c \<Rightarrow> string \<Rightarrow> State \<Rightarrow> State \<Rightarrow> 'c \<times> (exn + State)"

definition unexpected_tag_error :: "MirrorMessage \<Rightarrow> string \<Rightarrow> Error" where
  "unexpected_tag_error msg expected =
     make_error EK_protocol (''expected '' @ expected @ '', got '' @ mirror_message_name msg)"

definition send_message :: "'t transport_ops \<Rightarrow> json_lib \<Rightarrow> 't \<Rightarrow> ClientMessage \<Rightarrow> 't \<times> unit outcome" where
  "send_message ops L t msg =
    (case encode_client_message L msg of
       Inl x \<Rightarrow> (t, Inl x)
     | Inr line \<Rightarrow> (case send_line ops t line of (t', r) \<Rightarrow> (t', Inr r)))"

text \<open>\<^verbatim>\<open>(void)transport.close(); return r;\<close>\<close>

definition close_and :: "'t transport_ops \<Rightarrow> 't \<Rightarrow> 'a \<Rightarrow> ('t \<times> 'a) option" where
  "close_and ops t r = (case close_transport ops t of None \<Rightarrow> None | Some (t', _) \<Rightarrow> Some (t', r))"

definition mirror_error :: "ErrorKind \<Rightarrow> string \<Rightarrow> 'a outcome" where
  "mirror_error k text = Inr (Inl (make_error k text))"

section \<open>The stepping loop\<close>

record ('t, 'c) stepping =
  st_transport :: 't
  st_computer :: 'c
  st_guard :: Phase
  st_prev :: State
  st_last :: string

type_synonym ('t, 'c) stepping_exit = "('t \<times> 'c) \<times> unit outcome"

definition finish ::
  "'t transport_ops \<Rightarrow> ('t, 'c) stepping \<Rightarrow> unit outcome \<Rightarrow> (('t, 'c) stepping + ('t, 'c) stepping_exit) option" where
  "finish ops s r = map_option (\<lambda>(t, r). Inr ((t, st_computer s), r)) (close_and ops (st_transport s) r)"

text \<open>An exception that leaves the function with the transport as it is.\<close>

definition escape :: "('t, 'c) stepping \<Rightarrow> exn \<Rightarrow> (('t, 'c) stepping + ('t, 'c) stepping_exit) option" where
  "escape s x = Some (Inr ((st_transport s, st_computer s), Inl x))"

text \<open>The branch of \<^verbatim>\<open>initial_state\<close> and of \<^verbatim>\<open>next_step\<close>: compute, record, check, report.\<close>

definition report_step ::
  "'t transport_ops \<Rightarrow> json_lib \<Rightarrow> 'c computer \<Rightarrow> string \<Rightarrow> State \<Rightarrow> State \<Rightarrow> ('t, 'c) stepping
    \<Rightarrow> (('t, 'c) stepping + ('t, 'c) stepping_exit) option" where
  "report_step ops L compute action params prev s =
    (case compute (st_computer s) action params prev of
       (c, Inl x) \<Rightarrow> finish ops (s\<lparr> st_computer := c, st_last := action \<rparr>) (Inl x)
     | (c, Inr next) \<Rightarrow>
         (let s1 = s\<lparr> st_computer := c, st_last := action, st_prev := next \<rparr> in
          case guard_sent (st_guard s1) (ReportState next) of
            (p, Inl e) \<Rightarrow> finish ops (s1\<lparr> st_guard := p \<rparr>) (Inr (Inl e))
          | (p, Inr _) \<Rightarrow>
              (case send_message ops L (st_transport s1) (ReportState next) of
                 (t, Inl x) \<Rightarrow> escape (s1\<lparr> st_guard := p, st_transport := t \<rparr>) x
               | (t, Inr (Inl e)) \<Rightarrow> finish ops (s1\<lparr> st_guard := p, st_transport := t \<rparr>) (Inr (Inl e))
               | (t, Inr (Inr _)) \<Rightarrow> Some (Inl (s1\<lparr> st_guard := p, st_transport := t \<rparr>)))))"

definition mismatch_text :: "json_lib \<Rightarrow> string \<Rightarrow> DiffHint list \<Rightarrow> exn + string" where
  "mismatch_text L last_action hints =
    (let text = ''conformance failure'' @
       (if last_action = [] then [] else '' at action '' @ [CHR 0x27] @ last_action @ [CHR 0x27]) in
     if hints = [] then Inr text
     else rbind (render_diff_hints L hints) (\<lambda>h. Inr (text @ '': '' @ h)))"

definition handle_step ::
  "'t transport_ops \<Rightarrow> json_lib \<Rightarrow> 'c computer \<Rightarrow> ('t, 'c) stepping \<Rightarrow> MirrorMessage
    \<Rightarrow> (('t, 'c) stepping + ('t, 'c) stepping_exit) option" where
  "handle_step ops L compute s m = (case m of
     InitialState a st \<Rightarrow> report_step ops L compute a st [] s
   | NextStep a ps \<Rightarrow> report_step ops L compute a ps (st_prev s) s
   | StepOk \<Rightarrow> Some (Inl s)
   | AllStepsDone \<Rightarrow> finish ops s (Inr (Inr ()))
   | StepMismatch e a hs \<Rightarrow>
       (case mismatch_text L (st_last s) hs of
          Inl x \<Rightarrow> escape s x
        | Inr text \<Rightarrow> finish ops s (Inr (Inl (make_step_mismatch text (Some e) (Some a) (Some hs)))))
   | RegisterError e \<Rightarrow> finish ops s (mirror_error EK_registration e)
   | ProtocolError e \<Rightarrow> finish ops s (mirror_error EK_protocol e)
   | _ \<Rightarrow> finish ops s (Inr (Inl (unexpected_tag_error m
            ''next_step | step_ok | all_steps_done | step_mismatch''))))"

text \<open>Receive, decode and check one message, then go on with \<open>k\<close>; this opening is shared by the first
  message and by the loop.\<close>

definition next_message ::
  "'t transport_ops \<Rightarrow> json_lib \<Rightarrow> ('t, 'c) stepping
    \<Rightarrow> (('t, 'c) stepping \<Rightarrow> MirrorMessage \<Rightarrow> (('t, 'c) stepping + ('t, 'c) stepping_exit) option)
    \<Rightarrow> (('t, 'c) stepping + ('t, 'c) stepping_exit) option" where
  "next_message ops L s k =
    (case recv_line ops (st_transport s) of
       None \<Rightarrow> None
     | Some (t, Inl e) \<Rightarrow> finish ops (s\<lparr> st_transport := t \<rparr>) (Inr (Inl e))
     | Some (t, Inr line) \<Rightarrow>
         (let s1 = s\<lparr> st_transport := t \<rparr> in
          case decode_mirror_message L line of
            Inl x \<Rightarrow> escape s1 x
          | Inr (Inl e) \<Rightarrow> finish ops s1 (Inr (Inl e))
          | Inr (Inr m) \<Rightarrow>
              (case guard_received (st_guard s1) m of
                 (p, Inl e) \<Rightarrow> finish ops (s1\<lparr> st_guard := p \<rparr>) (Inr (Inl e))
               | (p, Inr _) \<Rightarrow> k (s1\<lparr> st_guard := p \<rparr>) m)))"

definition stepping_body ::
  "'t transport_ops \<Rightarrow> json_lib \<Rightarrow> 'c computer \<Rightarrow> ('t, 'c) stepping
    \<Rightarrow> (('t, 'c) stepping + ('t, 'c) stepping_exit) option" where
  "stepping_body ops L compute s = next_message ops L s (handle_step ops L compute)"

partial_function (option) stepping_loop ::
  "'t transport_ops \<Rightarrow> json_lib \<Rightarrow> 'c computer \<Rightarrow> ('t, 'c) stepping \<Rightarrow> ('t, 'c) stepping_exit option" where
  "stepping_loop ops L compute s =
    (case stepping_body ops L compute s of
       None \<Rightarrow> None
     | Some (Inl s') \<Rightarrow> stepping_loop ops L compute s'
     | Some (Inr r) \<Rightarrow> Some r)"

declare stepping_loop.simps [code]

definition handle_first ::
  "'t transport_ops \<Rightarrow> ('t, 'c) stepping \<Rightarrow> MirrorMessage \<Rightarrow> (('t, 'c) stepping + ('t, 'c) stepping_exit) option" where
  "handle_first ops s m = (case m of
     SpecValidated v \<Rightarrow>
       (case v of
          None \<Rightarrow> Some (Inl s)
        | Some text \<Rightarrow> finish ops s (mirror_error EK_spec_invalid (''spec was not validated: '' @ text)))
   | RegisterError e \<Rightarrow> finish ops s (mirror_error EK_registration e)
   | ProtocolError e \<Rightarrow> finish ops s (mirror_error EK_protocol e)
   | _ \<Rightarrow> finish ops s (Inr (Inl (unexpected_tag_error m ''spec_validated''))))"

definition run_stepping_loop ::
  "'t transport_ops \<Rightarrow> json_lib \<Rightarrow> 'c computer \<Rightarrow> 'c \<Rightarrow> Phase \<Rightarrow> 't \<Rightarrow> ('t, 'c) stepping_exit option" where
  "run_stepping_loop ops L compute c guard t =
    (case next_message ops L
        \<lparr> st_transport = t, st_computer = c, st_guard = guard, st_prev = [], st_last = [] \<rparr> (handle_first ops) of
       None \<Rightarrow> None
     | Some (Inl s) \<Rightarrow> stepping_loop ops L compute s
     | Some (Inr r) \<Rightarrow> Some r)"

section \<open>The flows\<close>

text \<open>
  Registration, as the flows open: check with a fresh guard, send, and go on with the guard's
  phase. A computer is optional, as a \<^verbatim>\<open>std::function\<close> is.
\<close>

definition register_and_step ::
  "'t transport_ops \<Rightarrow> json_lib \<Rightarrow> ClientMessage \<Rightarrow> 'c computer \<Rightarrow> 'c \<Rightarrow> 't \<Rightarrow> ('t, 'c) stepping_exit option" where
  "register_and_step ops L reg compute c t =
    (case guard_sent Ph_idle reg of
       (p, Inl e) \<Rightarrow> Some ((t, c), Inr (Inl e))
     | (p, Inr _) \<Rightarrow>
         (case send_message ops L t reg of
            (t', Inl x) \<Rightarrow> Some ((t', c), Inl x)
          | (t', Inr (Inl e)) \<Rightarrow> map_option (\<lambda>(t2, r). ((t2, c), r)) (close_and ops t' (Inr (Inl e)))
          | (t', Inr (Inr _)) \<Rightarrow> run_stepping_loop ops L compute c p t'))"

definition run_client_with_traces ::
  "'t transport_ops \<Rightarrow> json_lib \<Rightarrow> ApalacheConfig \<Rightarrow> string list \<Rightarrow> 'c computer option \<Rightarrow> 'c \<Rightarrow> 't
    \<Rightarrow> ('t, 'c) stepping_exit option" where
  "run_client_with_traces ops L config paths compute c t =
    (case compute of
       None \<Rightarrow> Some ((t, c), mirror_error EK_protocol ''run_client_with_traces: null StateComputer'')
     | Some f \<Rightarrow> register_and_step ops L (RegisterTraces config paths) f c t)"

definition run_client ::
  "'t transport_ops \<Rightarrow> json_lib \<Rightarrow> ApalacheConfig \<Rightarrow> TraceGenerationConfig \<Rightarrow> 'c computer option
    \<Rightarrow> ApalacheSpec option \<Rightarrow> 'c \<Rightarrow> 't \<Rightarrow> ('t, 'c) stepping_exit option" where
  "run_client ops L config trace_config compute inline_spec c t =
    (case compute of
       None \<Rightarrow> Some ((t, c), mirror_error EK_protocol ''run_client: null StateComputer'')
     | Some f \<Rightarrow> register_and_step ops L (Register config trace_config inline_spec) f c t)"

definition run_client_explore ::
  "'t transport_ops \<Rightarrow> json_lib \<Rightarrow> ApalacheSpec \<Rightarrow> string list \<Rightarrow> string list \<Rightarrow> 64 word \<Rightarrow> 'c computer option
    \<Rightarrow> 'c \<Rightarrow> 't \<Rightarrow> ('t, 'c) stepping_exit option" where
  "run_client_explore ops L spec invariants exports max_steps compute c t =
    (case compute of
       None \<Rightarrow> Some ((t, c), mirror_error EK_protocol ''run_client_explore: null StateComputer'')
     | Some f \<Rightarrow> register_and_step ops L (RegisterExplore spec invariants exports (Some max_steps)) f c t)"

text \<open>\<^verbatim>\<open>preset_client\<close>: the computer's state is the queue.\<close>

definition preset_client :: "State list computer" where
  "preset_client queue action params prev =
    (case queue of [] \<Rightarrow> ([], Inl (StdException ''preset_client exhausted'')) | s # rest \<Rightarrow> (rest, Inr s))"

text \<open>The one-shot flows: register, receive one checked reply, close, and classify it.\<close>

definition one_shot ::
  "'t transport_ops \<Rightarrow> json_lib \<Rightarrow> ClientMessage \<Rightarrow> (MirrorMessage \<Rightarrow> 'a result) \<Rightarrow> 't \<Rightarrow> ('t \<times> 'a outcome) option" where
  "one_shot ops L reg classify t =
    (case guard_sent Ph_idle reg of
       (p, Inl e) \<Rightarrow> Some (t, Inr (Inl e))
     | (p, Inr _) \<Rightarrow>
         (case send_message ops L t reg of
            (t1, Inl x) \<Rightarrow> Some (t1, Inl x)
          | (t1, Inr (Inl e)) \<Rightarrow> close_and ops t1 (Inr (Inl e))
          | (t1, Inr (Inr _)) \<Rightarrow>
              (case recv_line ops t1 of
                 None \<Rightarrow> None
               | Some (t2, Inl e) \<Rightarrow> close_and ops t2 (Inr (Inl e))
               | Some (t2, Inr line) \<Rightarrow>
                   (case decode_mirror_message L line of
                      Inl x \<Rightarrow> Some (t2, Inl x)
                    | Inr (Inl e) \<Rightarrow> close_and ops t2 (Inr (Inl e))
                    | Inr (Inr m) \<Rightarrow>
                        (case guard_received p m of
                           (p', Inl e) \<Rightarrow> close_and ops t2 (Inr (Inl e))
                         | (p', Inr _) \<Rightarrow> close_and ops t2 (Inr (classify m)))))))"

definition classify_gen_traces :: "MirrorMessage \<Rightarrow> (string list \<times> Json list) result" where
  "classify_gen_traces m = (case m of
     GenTracesDone paths traces \<Rightarrow> Inr (paths, traces)
   | RegisterError e \<Rightarrow> Inl (make_error EK_registration e)
   | ProtocolError e \<Rightarrow> Inl (make_error EK_protocol e)
   | _ \<Rightarrow> Inl (unexpected_tag_error m ''gen_traces_done''))"

definition run_client_gen_traces ::
  "'t transport_ops \<Rightarrow> json_lib \<Rightarrow> ApalacheConfig \<Rightarrow> TraceGenerationConfig \<Rightarrow> string option \<Rightarrow> ApalacheSpec option
    \<Rightarrow> 't \<Rightarrow> ('t \<times> (string list \<times> Json list) outcome) option" where
  "run_client_gen_traces ops L config trace_config dest_path inline_spec t =
     one_shot ops L (RegisterTraceGen config trace_config dest_path inline_spec) classify_gen_traces t"

record ValidateVerdict =
  vv_valid :: bool
  vv_detail :: string

definition classify_validate :: "MirrorMessage \<Rightarrow> ValidateVerdict result" where
  "classify_validate m = (case m of
     SpecValidated v \<Rightarrow>
       Inr (case v of None \<Rightarrow> \<lparr> vv_valid = True, vv_detail = [] \<rparr>
            | Some text \<Rightarrow> \<lparr> vv_valid = False, vv_detail = text \<rparr>)
   | RegisterError e \<Rightarrow> Inl (make_error EK_registration e)
   | ProtocolError e \<Rightarrow> Inl (make_error EK_protocol e)
   | _ \<Rightarrow> Inl (unexpected_tag_error m ''spec_validated''))"

definition run_client_validate ::
  "'t transport_ops \<Rightarrow> json_lib \<Rightarrow> ApalacheConfig \<Rightarrow> 64 word \<Rightarrow> ApalacheSpec option
    \<Rightarrow> 't \<Rightarrow> ('t \<times> ValidateVerdict outcome) option" where
  "run_client_validate ops L config bound inline_spec t =
     one_shot ops L (RegisterValidate config bound inline_spec) classify_validate t"

section \<open>Safety of the loop\<close>

text \<open>A Hoare rule for the loop: an invariant of the body, and what the body's exits satisfy.\<close>

lemma stepping_loop_rule:
  assumes step: "\<And>s s'. I s \<Longrightarrow> stepping_body ops L compute s = Some (Inl s') \<Longrightarrow> I s'"
    and exit: "\<And>s r. I s \<Longrightarrow> stepping_body ops L compute s = Some (Inr r) \<Longrightarrow> Q r"
    and init: "I s" and run: "stepping_loop ops L compute s = Some r"
  shows "Q r"
proof -
  have "ops = ops \<longrightarrow> L = L \<longrightarrow> compute = compute \<longrightarrow> I s \<longrightarrow> Q r"
  proof (rule stepping_loop.raw_induct [of "\<lambda>ops' L' compute' s r.
      ops' = ops \<longrightarrow> L' = L \<longrightarrow> compute' = compute \<longrightarrow> I s \<longrightarrow> Q r", OF _ run])
    fix loop and ops' :: "'a transport_ops" and L' compute' s r
    assume hyp: "\<And>ops' L' compute' s r. loop ops' L' compute' s = Some r \<Longrightarrow>
        ops' = ops \<longrightarrow> L' = L \<longrightarrow> compute' = compute \<longrightarrow> I s \<longrightarrow> Q r"
      and eq: "(case stepping_body ops' L' compute' s of None \<Rightarrow> None
        | Some (Inl s') \<Rightarrow> loop ops' L' compute' s' | Some (Inr r) \<Rightarrow> Some r) = Some r"
    show "ops' = ops \<longrightarrow> L' = L \<longrightarrow> compute' = compute \<longrightarrow> I s \<longrightarrow> Q r"
    proof (intro impI)
      assume same: "ops' = ops" "L' = L" "compute' = compute" and "I s"
      show "Q r"
      proof (cases "stepping_body ops L compute s")
        case (Some q)
        show ?thesis
        proof (cases q)
          case (Inl s')
          with Some eq same have "loop ops L compute s' = Some r" by simp
          moreover have "I s'" using step [OF \<open>I s\<close>] Some Inl by simp
          ultimately show ?thesis using hyp by blast
        next
          case (Inr r')
          with Some eq same have "r' = r" by simp
          with exit [OF \<open>I s\<close>] Some Inr show ?thesis by blast
        qed
      qed (use eq same in simp)
    qed
  qed
  with init show ?thesis by blast
qed

text \<open>The exceptions that leave the loop with the transport open come from the codec.\<close>

definition codec_escape :: "json_lib \<Rightarrow> exn \<Rightarrow> bool" where
  "codec_escape L x = ((\<exists>line. decode_mirror_message L line = Inl x) \<or> (\<exists>m. encode_client_message L m = Inl x)
     \<or> (\<exists>hs. render_diff_hints L hs = Inl x))"

definition report_line :: "json_lib \<Rightarrow> State \<Rightarrow> string \<Rightarrow> bool" where
  "report_line L st l = (encode_client_message L (ReportState st) = Inr l)"

definition only_reports :: "json_lib \<Rightarrow> string list \<Rightarrow> bool" where
  "only_reports L ls = list_all (\<lambda>l. \<exists>st. report_line L st l) ls"

lemma only_reports_append [simp]: "only_reports L (xs @ ys) \<longleftrightarrow> only_reports L xs \<and> only_reports L ys"
  by (simp add: only_reports_def)

lemma only_reports_simps [simp]: "only_reports L []" "only_reports L [l] \<longleftrightarrow> (\<exists>st. report_line L st l)"
  by (simp_all add: only_reports_def)

lemma send_message_cases:
  assumes "send_message ops L t m = (t', r)"
  obtains (thrown) x where "encode_client_message L m = Inl x" "t' = t" "r = Inl x"
  | (tried) l q where "encode_client_message L m = Inr l" "send_line ops t l = (t', q)" "r = Inr q"
  using assms by (auto simp: send_message_def split: sum.splits prod.splits)

context line_channel
begin

lemma close_and_closed: "close_and ops t r = Some (t', r') \<Longrightarrow> \<not> is_open t' \<and> sent t' = sent t \<and> r' = r"
  using close_closes by (fastforce simp: close_and_def split: option.splits)

text \<open>Good exits: reports only, and closed unless the codec threw.\<close>

definition good_exit :: "json_lib \<Rightarrow> string list \<Rightarrow> ('t \<times> 'c) \<times> unit outcome \<Rightarrow> bool" where
  "good_exit L base r = (case r of ((t, c), q) \<Rightarrow>
     (\<exists>ls. sent t = base @ ls \<and> only_reports L ls) \<and> (is_open t \<longrightarrow> (\<exists>x. q = Inl x \<and> codec_escape L x)))"

definition good_state :: "json_lib \<Rightarrow> string list \<Rightarrow> ('t, 'c) stepping \<Rightarrow> bool" where
  "good_state L base s = (boundary (st_transport s) \<and> (\<exists>ls. sent (st_transport s) = base @ ls \<and> only_reports L ls))"

definition good_step :: "json_lib \<Rightarrow> string list \<Rightarrow> (('t, 'c) stepping + ('t, 'c) stepping_exit) option \<Rightarrow> bool" where
  "good_step L base res = (case res of None \<Rightarrow> True | Some (Inl s) \<Rightarrow> good_state L base s | Some (Inr r) \<Rightarrow> good_exit L base r)"

lemma good_finish:
  assumes "\<exists>ls. sent (st_transport s) = base @ ls \<and> only_reports L ls"
  shows "good_step L base (finish ops s r)"
proof (cases "close_and ops (st_transport s) r")
  case (Some tr)
  obtain t r' where tr: "tr = (t, r')" by (cases tr)
  with Some close_and_closed [of "st_transport s" r t r'] assms show ?thesis
    by (simp add: finish_def good_step_def good_exit_def)
qed (simp add: finish_def good_step_def)

lemma good_escape:
  assumes "good_state L base s" "codec_escape L x"
  shows "good_step L base (escape s x)"
  using assms by (auto simp: escape_def good_step_def good_exit_def good_state_def)

lemma good_report_step:
  assumes "good_state L base s"
  shows "good_step L base (report_step ops L compute a ps prev s)"
proof -
  obtain c res where comp: "compute (st_computer s) a ps prev = (c, res)" by (cases "compute (st_computer s) a ps prev")
  show ?thesis
  proof (cases res)
    case (Inl x)
    with comp assms show ?thesis by (auto simp: report_step_def good_state_def intro!: good_finish)
  next
    case (Inr nxt)
    obtain p g where g: "guard_sent (st_guard s) (ReportState nxt) = (p, g)" by (cases "guard_sent (st_guard s) (ReportState nxt)")
    obtain t q where sm: "send_message ops L (st_transport s) (ReportState nxt) = (t, q)"
      by (cases "send_message ops L (st_transport s) (ReportState nxt)")
    show ?thesis
    proof (cases g)
      case (Inl e)
      with comp Inr g assms show ?thesis by (auto simp: report_step_def good_state_def Let_def intro!: good_finish)
    next
      case ok: (Inr u)
      from sm show ?thesis
      proof (cases rule: send_message_cases)
        case (thrown x)
        with comp Inr g ok sm assms show ?thesis
          by (auto simp: report_step_def Let_def good_state_def codec_escape_def intro!: good_escape)
      next
        case (tried l qr)
        then have "report_line L nxt l" by (simp add: report_line_def)
        with tried comp Inr g ok sm assms send_ok [of "st_transport s" l t] send_error [of "st_transport s" l t] show ?thesis
          by (cases qr) (auto simp: report_step_def Let_def good_state_def good_step_def [of _ _ "Some _"] intro!: good_finish)
      qed
    qed
  qed
qed

lemma good_handle_step:
  assumes "good_state L base s"
  shows "good_step L base (handle_step ops L compute s m)"
proof -
  have fin: "good_step L base (finish ops s r)" for r
    by (rule good_finish) (use assms in \<open>simp add: good_state_def\<close>)
  have esc: "codec_escape L x" if "mismatch_text L last_action hs = Inl x" for last_action hs x
    using that by (auto simp: mismatch_text_def Let_def codec_escape_def result_splits split: if_splits)
  show ?thesis
    using assms fin esc good_report_step [OF assms] good_escape [OF assms]
    by (cases m) (auto simp: handle_step_def good_step_def [of _ _ "Some _"] split: sum.splits)
qed

lemma good_next_message:
  assumes "good_state L base s" "\<And>s m. good_state L base s \<Longrightarrow> good_step L base (k s m)"
  shows "good_step L base (next_message ops L s k)"
proof (cases "recv_line ops (st_transport s)")
  case (Some tr)
  obtain t r where tr: "tr = (t, r)" by (cases tr)
  have gs: "good_state L base (s\<lparr> st_transport := t \<rparr>)"
    using assms(1) recv_silent [of "st_transport s" t r] Some tr by (auto simp: good_state_def)
  then have gp: "good_state L base (s\<lparr> st_transport := t, st_guard := p \<rparr>)" for p by (simp add: good_state_def)
  have fin: "good_step L base (finish ops (s\<lparr> st_transport := t \<rparr>) q)"
    "good_step L base (finish ops (s\<lparr> st_transport := t, st_guard := p \<rparr>) q)" for p q
    by (rule good_finish, use gs in \<open>simp add: good_state_def\<close>)+
  have esc: "good_step L base (escape (s\<lparr> st_transport := t \<rparr>) x)" if "decode_mirror_message L line = Inl x" for line x
    by (rule good_escape [OF gs]) (use that in \<open>auto simp: codec_escape_def\<close>)
  show ?thesis
    using Some tr fin assms(2) [OF gp] esc
    by (auto simp: next_message_def Let_def split: sum.splits prod.splits)
qed (simp add: next_message_def good_step_def)

lemma good_handle_first: "good_state L base s \<Longrightarrow> good_step L base (handle_first ops s m)"
  using good_finish [of s base L]
  by (cases m) (auto simp: handle_first_def good_step_def [of _ _ "Some _"] good_state_def split: option.splits)

lemma stepping_loop_good:
  assumes "good_state L base s" "stepping_loop ops L compute s = Some r"
  shows "good_exit L base r"
proof (rule stepping_loop_rule [where I = "good_state L base", OF _ _ assms])
  have body: "good_step L base (stepping_body ops L compute s)" if "good_state L base s" for s
    unfolding stepping_body_def by (rule good_next_message [OF that good_handle_step])
  show "good_state L base s'" if "good_state L base s" "stepping_body ops L compute s = Some (Inl s')" for s s'
    using body [OF that(1)] that(2) by (simp add: good_step_def)
  show "good_exit L base r" if "good_state L base s" "stepping_body ops L compute s = Some (Inr r)" for s r
    using body [OF that(1)] that(2) by (simp add: good_step_def)
qed

lemma run_stepping_loop_good:
  assumes "boundary t" "run_stepping_loop ops L compute c p t = Some r"
  shows "good_exit L (sent t) r"
proof -
  let ?s = "\<lparr> st_transport = t, st_computer = c, st_guard = p, st_prev = [], st_last = [] \<rparr>"
  have "good_state L (sent t) ?s" using assms(1) by (auto simp: good_state_def intro!: exI [of _ "[]"])
  from good_next_message [OF this good_handle_first]
  have "good_step L (sent t) (next_message ops L ?s (handle_first ops))" .
  with assms(2) stepping_loop_good [of L "sent t" _ compute r] show ?thesis
    by (auto simp: run_stepping_loop_def good_step_def split: option.splits sum.splits)
qed

end

section \<open>A conforming session\<close>

text \<open>What the computer does on the messages of a session: the states it reports, its final state
  and the last action.\<close>

fun replay :: "'c computer \<Rightarrow> 'c \<Rightarrow> State \<Rightarrow> string \<Rightarrow> MirrorMessage list \<Rightarrow> (State list \<times> 'c \<times> string) option" where
  "replay f c prev act [] = Some ([], c, act)"
| "replay f c prev act (m # ms) = (case m of
     InitialState a s \<Rightarrow>
       (case f c a s [] of (c', Inr st) \<Rightarrow> map_option (map_prod ((#) st) id) (replay f c' st a ms) | _ \<Rightarrow> None)
   | NextStep a s \<Rightarrow>
       (case f c a s prev of (c', Inr st) \<Rightarrow> map_option (map_prod ((#) st) id) (replay f c' st a ms) | _ \<Rightarrow> None)
   | StepOk \<Rightarrow> replay f c prev act ms
   | _ \<Rightarrow> None)"

text \<open>The outcome of the message that ends a session.\<close>

definition session_outcome :: "json_lib \<Rightarrow> string \<Rightarrow> MirrorMessage \<Rightarrow> unit outcome option" where
  "session_outcome L act m = (case m of
     AllStepsDone \<Rightarrow> Some (Inr (Inr ()))
   | StepMismatch e a hs \<Rightarrow>
       (case mismatch_text L act hs of
          Inl x \<Rightarrow> None | Inr text \<Rightarrow> Some (Inr (Inl (make_step_mismatch text (Some e) (Some a) (Some hs)))))
   | RegisterError e \<Rightarrow> Some (mirror_error EK_registration e)
   | ProtocolError e \<Rightarrow> Some (mirror_error EK_protocol e)
   | _ \<Rightarrow> None)"

definition decodes :: "json_lib \<Rightarrow> string \<Rightarrow> MirrorMessage \<Rightarrow> bool" where
  "decodes L l m = (decode_mirror_message L l = Inr (Inr m))"

definition ready_for :: "Phase \<Rightarrow> MirrorMessage list \<Rightarrow> bool" where
  "ready_for p ms = (p = Ph_stepping \<or> (p = Ph_ready \<and> (case ms of InitialState a s # ms' \<Rightarrow> True | _ \<Rightarrow> False)))"

definition sendable :: "json_lib \<Rightarrow> State \<Rightarrow> string \<Rightarrow> bool" where
  "sendable L st l = (report_line L st l \<and> valid_line l)"

lemma guard_session:
  "guard_received Ph_stepping (InitialState a s) = (Ph_stepping, Inr ())"
  "guard_received Ph_ready (InitialState a s) = (Ph_stepping, Inr ())"
  "guard_received Ph_stepping (NextStep a s) = (Ph_stepping, Inr ())"
  "guard_received Ph_stepping StepOk = (Ph_stepping, Inr ())"
  "guard_received Ph_validating (SpecValidated None) = (Ph_ready, Inr ())"
  "guard_sent Ph_stepping (ReportState st) = (Ph_stepping, Inr ())"
  by (simp_all add: guard_received_def guard_visit_def guard_sent_def mirror_message_name_def client_message_name_def
      is_reg_tag_def)

lemma guard_session_end:
  "session_outcome L act m = Some q \<Longrightarrow> \<exists>p. guard_received Ph_stepping m = (p, Inr ())"
  by (cases m) (auto simp: session_outcome_def guard_received_def guard_visit_def mirror_message_name_def)

context live_channel
begin

lemma next_message_healthy:
  assumes "healthy (st_transport s)" "pending (st_transport s) = l # ls" "decodes L l m"
    and "guard_received (st_guard s) m = (p, Inr ())"
  shows "\<exists>t. next_message ops L s k = k (s\<lparr> st_transport := t, st_guard := p \<rparr>) m \<and>
    healthy t \<and> pending t = ls \<and> sent t = sent (st_transport s)"
proof -
  from recv_pending [OF assms(1,2)] obtain t where t: "recv_line ops (st_transport s) = Some (t, Inr l)"
    "pending t = ls" "healthy t" by blast
  with recv_silent [OF t(1)] assms(3,4) show ?thesis
    by (auto simp: next_message_def decodes_def Let_def)
qed

lemma report_step_healthy:
  assumes "healthy (st_transport s)" "st_guard s = Ph_stepping" "compute (st_computer s) a ps prev = (c, Inr st)"
    and "sendable L st l"
  shows "\<exists>t. report_step ops L compute a ps prev s =
      Some (Inl (s\<lparr> st_computer := c, st_last := a, st_prev := st, st_guard := Ph_stepping, st_transport := t \<rparr>)) \<and>
    healthy t \<and> pending t = pending (st_transport s) \<and> sent t = sent (st_transport s) @ [l]"
proof -
  have l: "encode_client_message L (ReportState st) = Inr l" "valid_line l"
    using assms(4) by (auto simp: sendable_def report_line_def)
  from send_healthy [OF assms(1) l(2)] obtain t where t: "send_line ops (st_transport s) l = (t, Inr ())"
    "pending t = pending (st_transport s)" "healthy t" by blast
  have "sent t = sent (st_transport s) @ [l]" using send_ok [OF t(1) healthy_boundary [OF assms(1)]] by simp
  with t l assms(2,3) show ?thesis
    by (auto simp: report_step_def send_message_def guard_session Let_def)
qed

lemma handle_step_ends:
  assumes "session_outcome L (st_last s) m = Some q"
  shows "\<exists>t. handle_step ops L compute s m = Some (Inr ((t, st_computer s), q)) \<and>
    \<not> is_open t \<and> sent t = sent (st_transport s)"
proof -
  obtain t r where cl: "close_transport ops (st_transport s) = Some (t, r)" using close_returns by blast
  then have "handle_step ops L compute s m = Some (Inr ((t, st_computer s), q))"
    using assms by (cases m) (auto simp: handle_step_def session_outcome_def finish_def close_and_def split: sum.splits)
  with close_closes [OF cl] show ?thesis by blast
qed

lemma stepping_loop_replay:
  assumes "healthy (st_transport s)" "pending (st_transport s) = ls @ l # rest"
    and "list_all2 (decodes L) ls ms" "decodes L l fin" "ready_for (st_guard s) (ms @ [fin])"
    and "replay compute (st_computer s) (st_prev s) (st_last s) ms = Some (sts, c, act)"
    and "list_all2 (sendable L) sts lines" "session_outcome L act fin = Some q"
  shows "\<exists>t. stepping_loop ops L compute s = Some ((t, c), q) \<and> \<not> is_open t \<and>
    sent t = sent (st_transport s) @ lines"
  using assms
proof (induction ms arbitrary: s ls sts lines)
  case Nil
  from Nil.prems(3,5,8) have p: "st_guard s = Ph_stepping" "ls = []"
    by (auto simp: ready_for_def session_outcome_def split: MirrorMessage.splits)
  obtain p' where g: "guard_received (st_guard s) fin = (p', Inr ())" using guard_session_end Nil.prems(8) p by metis
  from Nil.prems(2) p have pend: "pending (st_transport s) = l # rest" by simp
  from next_message_healthy [OF Nil.prems(1) pend Nil.prems(4) g] obtain t where t:
    "stepping_body ops L compute s = handle_step ops L compute (s\<lparr> st_transport := t, st_guard := p' \<rparr>) fin"
    "sent t = sent (st_transport s)" by (auto simp: stepping_body_def)
  have "session_outcome L (st_last (s\<lparr> st_transport := t, st_guard := p' \<rparr>)) fin = Some q"
    using Nil.prems(6,8) by simp
  from handle_step_ends [OF this, of compute] t Nil.prems(6,7) show ?case
    by (auto simp: stepping_loop.simps [of ops L compute s])
next
  case (Cons m ms)
  from Cons.prems(3) obtain l0 ls' where ls: "ls = l0 # ls'" "decodes L l0 m" "list_all2 (decodes L) ls' ms"
    by (auto simp: list_all2_Cons2)
  have pend: "pending (st_transport s) = l0 # ls' @ l # rest" using Cons.prems(2) ls by simp
  have g: "guard_received (st_guard s) m = (Ph_stepping, Inr ())"
    using Cons.prems(5,6) by (auto simp: ready_for_def guard_session split: MirrorMessage.splits)
  from next_message_healthy [OF Cons.prems(1) pend ls(2) g] obtain t where t:
    "stepping_body ops L compute s = handle_step ops L compute (s\<lparr> st_transport := t, st_guard := Ph_stepping \<rparr>) m"
    "healthy t" "pending t = ls' @ l # rest" "sent t = sent (st_transport s)" by (auto simp: stepping_body_def)
  let ?s = "s\<lparr> st_transport := t, st_guard := Ph_stepping \<rparr>"
  have ready: "ready_for Ph_stepping (ms @ [fin])" by (simp add: ready_for_def)
  have report: ?case
    if step: "handle_step ops L compute ?s m = report_step ops L compute a ps prev ?s"
      "compute (st_computer s) a ps prev = (c', Inr st)" "replay compute c' st a ms = Some (sts', c, act)" "sts = st # sts'"
    for a ps prev c' st sts'
  proof -
    from Cons.prems(7) step(4) obtain li lines' where li: "lines = li # lines'" "sendable L st li"
      "list_all2 (sendable L) sts' lines'" by (auto simp: list_all2_Cons1)
    from report_step_healthy [of ?s compute a ps prev c' st L li] t step(2) li(2) obtain t2 where t2:
      "report_step ops L compute a ps prev ?s =
        Some (Inl (?s\<lparr> st_computer := c', st_last := a, st_prev := st, st_guard := Ph_stepping, st_transport := t2 \<rparr>))"
      "healthy t2" "pending t2 = ls' @ l # rest" "sent t2 = sent (st_transport s) @ [li]" by auto
    from Cons.IH [of "?s\<lparr> st_computer := c', st_last := a, st_prev := st, st_guard := Ph_stepping, st_transport := t2 \<rparr>" ls' sts' lines']
      t2 ls(3) Cons.prems(4,8) ready step(3) li(3)
    show ?thesis by (simp add: stepping_loop.simps [of ops L compute s] t(1) step(1) li(1))
  qed
  show ?case
  proof (cases m)
    case (InitialState a st)
    then show ?thesis using Cons.prems(6) report
      by (auto simp: handle_step_def split: prod.splits sum.splits)
  next
    case (NextStep a st)
    then show ?thesis using Cons.prems(6) report
      by (auto simp: handle_step_def split: prod.splits sum.splits)
  next
    case StepOk
    with Cons.IH [of ?s ls' sts lines] t ls(3) Cons.prems(4,6,7,8) ready show ?thesis
      by (simp add: stepping_loop.simps [of ops L compute s] handle_step_def)
  qed (use Cons.prems(6) in auto)
qed

lemma run_stepping_loop_replay:
  assumes "healthy t" "pending t = first # ls @ l # rest" "decodes L first (SpecValidated None)"
    and "list_all2 (decodes L) ls ms" "decodes L l fin" "\<exists>a s ms'. ms @ [fin] = InitialState a s # ms'"
    and "replay compute c [] [] ms = Some (sts, c', act)"
    and "list_all2 (sendable L) sts lines" "session_outcome L act fin = Some q"
  shows "\<exists>t'. run_stepping_loop ops L compute c Ph_validating t = Some ((t', c'), q) \<and> \<not> is_open t' \<and> sent t' = sent t @ lines"
proof -
  let ?s = "\<lparr> st_transport = t, st_computer = c, st_guard = Ph_validating, st_prev = [], st_last = [] \<rparr>"
  from next_message_healthy [of ?s first "ls @ l # rest" L "SpecValidated None" Ph_ready "handle_first ops"] assms(1-3)
  obtain t2 where t2: "next_message ops L ?s (handle_first ops) = Some (Inl (?s\<lparr> st_transport := t2, st_guard := Ph_ready \<rparr>))"
    "healthy t2" "pending t2 = ls @ l # rest" "sent t2 = sent t"
    by (auto simp: guard_session handle_first_def)
  have "ready_for Ph_ready (ms @ [fin])" using assms(6) by (auto simp: ready_for_def)
  with stepping_loop_replay [of "?s\<lparr> st_transport := t2, st_guard := Ph_ready \<rparr>" ls l rest L ms fin compute sts c' act lines q]
    t2 assms(4,5,7-9)
  show ?thesis by (auto simp: run_stepping_loop_def)
qed

lemma register_and_step_replay:
  assumes "healthy t" "encode_client_message L reg = Inr rl" "valid_line rl"
    and "guard_sent Ph_idle reg = (Ph_validating, Inr ())"
    and "pending t = first # ls @ l # rest" "decodes L first (SpecValidated None)"
    and "list_all2 (decodes L) ls ms" "decodes L l fin" "\<exists>a s ms'. ms @ [fin] = InitialState a s # ms'"
    and "replay compute c [] [] ms = Some (sts, c', act)"
    and "list_all2 (sendable L) sts lines" "session_outcome L act fin = Some q"
  shows "\<exists>t'. register_and_step ops L reg compute c t = Some ((t', c'), q) \<and> \<not> is_open t' \<and>
    sent t' = sent t @ rl # lines"
proof -
  from send_healthy [OF assms(1,3)] obtain t1 where t1: "send_line ops t rl = (t1, Inr ())" "pending t1 = pending t"
    "healthy t1" by blast
  have sent1: "sent t1 = sent t @ [rl]" using send_ok [OF t1(1) healthy_boundary [OF assms(1)]] by simp
  from run_stepping_loop_replay [OF t1(3) _ assms(6-)] t1(2) assms(5) sent1 show ?thesis
    using assms(2,4) t1(1) by (auto simp: register_and_step_def send_message_def)
qed

end

context line_channel
begin

lemma register_and_step_good:
  assumes "boundary t" "register_and_step ops L reg compute c t = Some ((t', c'), r)"
    and "guard_sent Ph_idle reg = (p, Inr ())"
  shows "(is_open t' \<longrightarrow> (\<exists>x. r = Inl x \<and> codec_escape L x)) \<and>
    (sent t' = sent t \<or> (\<exists>rl ls. encode_client_message L reg = Inr rl \<and> sent t' = sent t @ rl # ls \<and> only_reports L ls))"
proof -
  obtain t1 q where sm: "send_message ops L t reg = (t1, q)" by (cases "send_message ops L t reg")
  from sm show ?thesis
  proof (cases rule: send_message_cases)
    case (thrown x)
    with sm assms show ?thesis by (auto simp: register_and_step_def codec_escape_def)
  next
    case (tried rl qr)
    show ?thesis
    proof (cases qr)
      case (Inl e)
      have "close_and ops t1 (Inr (Inl e)) = Some (t', r)"
        using sm tried assms(2,3) Inl by (auto simp: register_and_step_def)
      from close_and_closed [OF this] send_error [of t rl t1 e] tried Inl assms(1) show ?thesis by simp
    next
      case (Inr u)
      then have "boundary t1 \<and> sent t1 = sent t @ [rl]" using send_ok tried assms(1) by blast
      moreover have "run_stepping_loop ops L compute c p t1 = Some ((t', c'), r)"
        using sm tried assms(2,3) Inr by (simp add: register_and_step_def)
      ultimately show ?thesis
        using run_stepping_loop_good [of t1 L compute c p "((t', c'), r)"] tried
        by (auto simp: good_exit_def)
    qed
  qed
qed

end

section \<open>Properties\<close>

lemma guard_sent_registrations:
  "guard_sent Ph_idle (RegisterTraces c ps) = (Ph_validating, Inr ())"
  "guard_sent Ph_idle (Register c t s) = (Ph_validating, Inr ())"
  "guard_sent Ph_idle (RegisterExplore a i e m) = (Ph_validating, Inr ())"
  by (simp_all add: guard_sent_def client_message_name_def is_reg_tag_def)

text \<open>C1: A conforming session runs to its verdict: over a healthy TCP connection on which the mirror
  validates the specification, starts a trace, steps through it and ends the session, the flow
  returns exactly the outcome of the final message; it has sent the registration and then, in
  order, the states the computer produced when fed the mirror's messages, and the transport is
  closed.\<close>

theorem conforming_session_completes:
  assumes "tcp_healthy t" "encode_client_message L (RegisterTraces config paths) = Inr reg" "valid_line reg"
    and "tcp_pending t = first # ls @ l # rest" "decodes L first (SpecValidated None)"
    and "list_all2 (decodes L) ls ms" "decodes L l fin" "\<exists>a s ms'. ms @ [fin] = InitialState a s # ms'"
    and "replay compute c [] [] ms = Some (sts, c', act)"
    and "list_all2 (sendable L) sts lines" "session_outcome L act fin = Some q"
  shows "\<exists>t'. run_client_with_traces tcp_ops L config paths (Some compute) c t = Some ((t', c'), q) \<and>
    tcp_closed t' \<and> tcp_sent t' = tcp_sent t @ reg # lines"
  using tcp_live.register_and_step_replay [OF assms(1-3) guard_sent_registrations(1) assms(4-)]
  by (auto simp: run_client_with_traces_def tcp_open_def)

definition session_lib :: json_lib where
  "session_lib = ref_lib [
     (''v'', JObject [(''proto_step'', JString ''spec_validated''), (''result'', JString ''valid'')]),
     (''i'', JObject [(''action'', JString ''Init''), (''proto_step'', JString ''initial_state''), (''state'', JObject [(''x'', JInteger 0)])]),
     (''n'', JObject [(''action'', JString ''Tick''), (''parameters'', JObject []), (''proto_step'', JString ''next_step'')]),
     (''d'', JObject [(''proto_step'', JString ''all_steps_done'')])]"

lemma session_lib_decodes:
  "decodes session_lib ''v'' (SpecValidated None)"
  "decodes session_lib ''i'' (InitialState ''Init'' [(''x'', VInt 0)])"
  "decodes session_lib ''n'' (NextStep ''Tick'' [])"
  "decodes session_lib ''d'' AllStepsDone"
  by (simp_all add: decodes_def decode_mirror_message_def session_lib_def is_object_def jfind_def decode_tagged_def
      decode_spec_validated_def require_object_def jat_def decode_validate_result_def string_member_def require_string_def
      decode_state_field_def decode_state_def om_build_def)

lemma session_lib_prints:
  assumes "json_bytes (client_json session_lib m) \<le> kMaxProtocolLineBytes"
  shows "encode_client_message session_lib m = Inr (ref_print (client_json session_lib m))"
    "valid_line (ref_print (client_json session_lib m))"
  using assms ref_print_not_Nil newline_notin_print length_ref_print [of "client_json session_lib m"]
  by (simp_all add: encode_client_message_def session_lib_def valid_line_def)

lemma session_lib_lengths:
  "json_bytes (client_json session_lib (RegisterTraces sample_config [''t.itf.json''])) \<le> kMaxProtocolLineBytes"
  "json_bytes (client_json session_lib (ReportState [(''x'', VInt 0)])) \<le> kMaxProtocolLineBytes"
  "json_bytes (client_json session_lib (ReportState [(''x'', VInt 1)])) \<le> kMaxProtocolLineBytes"
  "json_bytes (client_json session_lib (Register sample_config \<lparr> num_traces = 1, view = None \<rparr> None)) \<le> kMaxProtocolLineBytes"
  by (simp_all add: client_json_def client_fields_def jobject_def om_build_def encode_apalache_config_def encode_trace_config_def
      sample_config_def opt_field_def json_strings_def json_of_ll_def encode_state_def client_message_name_def session_lib_def
      int_to_string_def nat_to_string.simps kMaxProtocolLineBytes_def)

definition session_transport :: TcpTransport where
  "session_transport = sample_tcp [RData (frame [''v'', ''i'']), RIntr, RData (frame [''n'', ''d''])] [SAccept 3]"

lemma session_transport_healthy:
  "tcp_healthy session_transport" "tcp_pending session_transport = [''v'', ''i'', ''n'', ''d'']"
  by (simp_all add: session_transport_def sample_tcp_def tcp_healthy_def tcp_pending_def accepting_def valid_line_def
      kMaxProtocolLineBytes_def split_lines.simps)

theorem conforming_session_completes_witness:
  "\<exists>t'. run_client_with_traces tcp_ops session_lib sample_config [''t.itf.json''] (Some preset_client)
      [[(''x'', VInt 0)], [(''x'', VInt 1)]] session_transport = Some ((t', []), Inr (Inr ())) \<and>
    tcp_closed t' \<and> length (tcp_sent t') = 3"
proof -
  let ?p = "\<lambda>m. ref_print (client_json session_lib m)"
  have "\<exists>t'. run_client_with_traces tcp_ops session_lib sample_config [''t.itf.json''] (Some preset_client)
      [[(''x'', VInt 0)], [(''x'', VInt 1)]] session_transport = Some ((t', []), Inr (Inr ())) \<and>
    tcp_closed t' \<and> tcp_sent t' = tcp_sent session_transport @ ?p (RegisterTraces sample_config [''t.itf.json''])
      # [?p (ReportState [(''x'', VInt 0)]), ?p (ReportState [(''x'', VInt 1)])]"
    by (rule conforming_session_completes [where first = "''v''" and ls = "[''i'', ''n'']" and l = "''d''" and rest = "[]"
          and ms = "[InitialState ''Init'' [(''x'', VInt 0)], NextStep ''Tick'' []]" and fin = AllStepsDone
          and sts = "[[(''x'', VInt 0)], [(''x'', VInt 1)]]" and act = "''Tick''"])
      (simp_all add: session_transport_healthy session_lib_decodes session_lib_prints session_lib_lengths preset_client_def
        sendable_def report_line_def session_outcome_def)
  moreover have "tcp_sent session_transport = []"
    by (simp add: session_transport_def sample_tcp_def tcp_sent_def split_lines_no_newline)
  ultimately show ?thesis by auto
qed



end
