(* ===== verification/Explore_Session.thy ===== *)
theory Explore_Session
  imports Stepping_Flows
begin

text \<open>
  The class \<^verbatim>\<open>ExploreSession\<close> of \<^verbatim>\<open>src/client.cpp\<close>: a client-driven session in which commands and
  replies alternate. The session owns its transport, so it is part of the session state;
  \<open>None\<close> is the reset \<^verbatim>\<open>unique_ptr\<close>. Every method takes the session and gives the new one with
  an outcome, or \<open>None\<close> when a receive blocks.
\<close>

section \<open>The session\<close>

record Ready =
  rd_init_transitions :: "64 word"
  rd_next_transitions :: "64 word"
  rd_state_invariants :: "64 word"

record 't ExploreSession =
  es_transport :: "'t option"
  es_ready :: Ready
  es_guard :: Phase
  es_done :: bool

definition recv_explore_reply :: "'t transport_ops \<Rightarrow> json_lib \<Rightarrow> 't \<Rightarrow> ('t \<times> MirrorMessage outcome) option" where
  "recv_explore_reply ops L t =
    (case recv_line ops t of
       None \<Rightarrow> None
     | Some (t', Inl e) \<Rightarrow> Some (t', Inr (Inl e))
     | Some (t', Inr line) \<Rightarrow>
         (case decode_mirror_message L line of
            Inl x \<Rightarrow> Some (t', Inl x)
          | Inr (Inl e) \<Rightarrow> Some (t', Inr (Inl e))
          | Inr (Inr m) \<Rightarrow>
              (case m of
                 ProtocolError e \<Rightarrow> Some (t', mirror_error EK_protocol e)
               | _ \<Rightarrow> Some (t', Inr (Inr m)))))"

text \<open>The static \<^verbatim>\<open>open\<close>: on success the transport moves into the session; otherwise it is what the
  function destroys on return.\<close>

definition explore_open ::
  "'t transport_ops \<Rightarrow> json_lib \<Rightarrow> 't option \<Rightarrow> ApalacheSpec \<Rightarrow> string list \<Rightarrow> string list
    \<Rightarrow> ('t option \<times> 't ExploreSession outcome) option" where
  "explore_open ops L transport spec invariants exports =
    (case transport of
       None \<Rightarrow> Some (None, mirror_error EK_io ''ExploreSession::open: null transport'')
     | Some t \<Rightarrow>
         (let fail = (\<lambda>t e. map_option (map_prod Some id) (close_and ops t (Inr (Inl e))));
              reg = RegisterExploreSession spec invariants exports in
          case guard_sent Ph_idle reg of
            (p, Inl e) \<Rightarrow> fail t e
          | (p, Inr _) \<Rightarrow>
              (case send_message ops L t reg of
                 (t1, Inl x) \<Rightarrow> Some (Some t1, Inl x)
               | (t1, Inr (Inl e)) \<Rightarrow> fail t1 e
               | (t1, Inr (Inr _)) \<Rightarrow>
                   (case recv_line ops t1 of
                      None \<Rightarrow> None
                    | Some (t2, Inl e) \<Rightarrow> fail t2 e
                    | Some (t2, Inr line) \<Rightarrow>
                        (case decode_mirror_message L line of
                           Inl x \<Rightarrow> Some (Some t2, Inl x)
                         | Inr (Inl e) \<Rightarrow> fail t2 e
                         | Inr (Inr m) \<Rightarrow>
                             (case guard_received p m of
                                (p', Inl e) \<Rightarrow> fail t2 e
                              | (p', Inr _) \<Rightarrow>
                                  (case m of
                                     ExplorerReady i n v \<Rightarrow>
                                       Some (None, Inr (Inr \<lparr> es_transport = Some t2,
                                         es_ready = \<lparr> rd_init_transitions = i, rd_next_transitions = n, rd_state_invariants = v \<rparr>,
                                         es_guard = p', es_done = False \<rparr>))
                                   | RegisterError e \<Rightarrow> fail t2 (make_error EK_registration e)
                                   | ProtocolError e \<Rightarrow> fail t2 (make_error EK_protocol e)
                                   | _ \<Rightarrow> fail t2 (unexpected_tag_error m ''explorer_ready'')))))))) "

definition poison :: "'t transport_ops \<Rightarrow> 't ExploreSession \<Rightarrow> 't ExploreSession option" where
  "poison ops s =
    (let s1 = s\<lparr> es_done := True \<rparr> in
     case es_transport s1 of
       None \<Rightarrow> Some s1
     | Some t \<Rightarrow> (case close_transport ops t of None \<Rightarrow> None | Some (t', _) \<Rightarrow> Some (s1\<lparr> es_transport := Some t' \<rparr>)))"

definition poison_with :: "'t transport_ops \<Rightarrow> 't ExploreSession \<Rightarrow> Error \<Rightarrow> ('t ExploreSession \<times> 'a outcome) option" where
  "poison_with ops s e = map_option (\<lambda>s'. (s', Inr (Inl e))) (poison ops s)"

definition session_closed :: Error where
  "session_closed = make_error EK_io ''ExploreSession: session is closed''"

definition session_command ::
  "'t transport_ops \<Rightarrow> json_lib \<Rightarrow> 't ExploreSession \<Rightarrow> ClientMessage
    \<Rightarrow> ('t ExploreSession \<times> MirrorMessage outcome) option" where
  "session_command ops L s msg =
    (case es_transport s of
       None \<Rightarrow> Some (s, Inr (Inl session_closed))
     | Some t \<Rightarrow>
         if es_done s then Some (s, Inr (Inl session_closed))
         else (case guard_sent (es_guard s) msg of
           (p, Inl e) \<Rightarrow> poison_with ops (s\<lparr> es_guard := p \<rparr>) e
         | (p, Inr _) \<Rightarrow>
             (case send_message ops L t msg of
                (t1, Inl x) \<Rightarrow> Some (s\<lparr> es_guard := p, es_transport := Some t1 \<rparr>, Inl x)
              | (t1, Inr (Inl e)) \<Rightarrow> poison_with ops (s\<lparr> es_guard := p, es_transport := Some t1 \<rparr>) e
              | (t1, Inr (Inr _)) \<Rightarrow>
                  (case recv_explore_reply ops L t1 of
                     None \<Rightarrow> None
                   | Some (t2, Inl x) \<Rightarrow> Some (s\<lparr> es_guard := p, es_transport := Some t2 \<rparr>, Inl x)
                   | Some (t2, Inr (Inl e)) \<Rightarrow> poison_with ops (s\<lparr> es_guard := p, es_transport := Some t2 \<rparr>) e
                   | Some (t2, Inr (Inr m)) \<Rightarrow>
                       (case guard_received p m of
                          (p', Inl e) \<Rightarrow> poison_with ops (s\<lparr> es_guard := p', es_transport := Some t2 \<rparr>) e
                        | (p', Inr _) \<Rightarrow> Some (s\<lparr> es_guard := p', es_transport := Some t2 \<rparr>, Inr (Inr m)))))))"

text \<open>The common shape of the six typed commands: the reply of the right kind, or poison.\<close>

definition typed_command ::
  "'t transport_ops \<Rightarrow> json_lib \<Rightarrow> ClientMessage \<Rightarrow> (MirrorMessage \<Rightarrow> 'a option) \<Rightarrow> string \<Rightarrow> 't ExploreSession
    \<Rightarrow> ('t ExploreSession \<times> 'a outcome) option" where
  "typed_command ops L msg select expected s =
    (case session_command ops L s msg of
       None \<Rightarrow> None
     | Some (s', Inl x) \<Rightarrow> Some (s', Inl x)
     | Some (s', Inr (Inl e)) \<Rightarrow> Some (s', Inr (Inl e))
     | Some (s', Inr (Inr m)) \<Rightarrow>
         (case select m of
            Some v \<Rightarrow> Some (s', Inr (Inr v))
          | None \<Rightarrow> poison_with ops s' (unexpected_tag_error m expected)))"

definition assume_transition ::
  "'t transport_ops \<Rightarrow> json_lib \<Rightarrow> 64 word \<Rightarrow> 't ExploreSession \<Rightarrow> ('t ExploreSession \<times> TransitionStatus outcome) option" where
  "assume_transition ops L transition_id =
     typed_command ops L (ExploreAssumeTransition transition_id)
       (\<lambda>m. case m of ExploreTransitionStatus st \<Rightarrow> Some st | _ \<Rightarrow> None) ''explore_transition_status''"

definition explore_next_step ::
  "'t transport_ops \<Rightarrow> json_lib \<Rightarrow> 't ExploreSession \<Rightarrow> ('t ExploreSession \<times> 64 word outcome) option" where
  "explore_next_step ops L =
     typed_command ops L ExploreNextStep (\<lambda>m. case m of ExploreStepDone n \<Rightarrow> Some n | _ \<Rightarrow> None) ''explore_step_done''"

definition query_state ::
  "'t transport_ops \<Rightarrow> json_lib \<Rightarrow> 't ExploreSession \<Rightarrow> ('t ExploreSession \<times> State outcome) option" where
  "query_state ops L =
     typed_command ops L ExploreQueryState (\<lambda>m. case m of ExploreState st \<Rightarrow> Some st | _ \<Rightarrow> None) ''explore_state''"

definition check_invariant ::
  "'t transport_ops \<Rightarrow> json_lib \<Rightarrow> 64 word \<Rightarrow> 't ExploreSession \<Rightarrow> ('t ExploreSession \<times> InvariantStatus outcome) option" where
  "check_invariant ops L invariant_id =
     typed_command ops L (ExploreCheckInvariant invariant_id)
       (\<lambda>m. case m of ExploreInvariantStatus st \<Rightarrow> Some st | _ \<Rightarrow> None) ''explore_invariant_status''"

definition assume_state ::
  "'t transport_ops \<Rightarrow> json_lib \<Rightarrow> State \<Rightarrow> 't ExploreSession \<Rightarrow> ('t ExploreSession \<times> TransitionStatus outcome) option" where
  "assume_state ops L st =
     typed_command ops L (ExploreAssumeState st)
       (\<lambda>m. case m of ExploreAssumeStatus r \<Rightarrow> Some r | _ \<Rightarrow> None) ''explore_assume_status''"

definition rollback ::
  "'t transport_ops \<Rightarrow> json_lib \<Rightarrow> 64 word \<Rightarrow> 't ExploreSession \<Rightarrow> ('t ExploreSession \<times> 64 word outcome) option" where
  "rollback ops L snapshot_id =
     typed_command ops L (ExploreRollback snapshot_id)
       (\<lambda>m. case m of ExploreRollbackDone n \<Rightarrow> Some n | _ \<Rightarrow> None) ''explore_rollback_done''"

definition explore_done ::
  "'t transport_ops \<Rightarrow> json_lib \<Rightarrow> 't ExploreSession \<Rightarrow> ('t ExploreSession \<times> unit outcome) option" where
  "explore_done ops L s =
    (if es_transport s = None \<or> es_done s then Some (s, Inr (Inr ()))
     else (case session_command ops L s ExploreDone of
       None \<Rightarrow> None
     | Some (s1, Inl x) \<Rightarrow> Some (s1, Inl x)
     | Some (s1, Inr (Inl e)) \<Rightarrow> Some (s1, Inr (Inl e))
     | Some (s1, Inr (Inr m)) \<Rightarrow>
         if m \<noteq> ExploreSessionDone then poison_with ops s1 (unexpected_tag_error m ''explore_session_done'')
         else (case es_transport s1 of
           None \<Rightarrow> None
         | Some t \<Rightarrow>
             (case close_transport ops t of
                None \<Rightarrow> None
              | Some (t', r) \<Rightarrow>
                  Some (s1\<lparr> es_done := True, es_transport := None \<rparr>, Inr (case r of Inl e \<Rightarrow> Inl e | Inr _ \<Rightarrow> Inr ()))))))"

text \<open>The destructor's best-effort \<^verbatim>\<open>done()\<close>, its result ignored.\<close>

definition explore_destroy :: "'t transport_ops \<Rightarrow> json_lib \<Rightarrow> 't ExploreSession \<Rightarrow> 't ExploreSession option" where
  "explore_destroy ops L s =
    (if es_transport s \<noteq> None \<and> \<not> es_done s then map_option fst (explore_done ops L s) else Some s)"

section \<open>Poisoning and alternation\<close>

definition unusable :: "'t ExploreSession \<Rightarrow> bool" where
  "unusable s = (es_done s \<or> es_transport s = None)"

lemma unusable_command: "unusable s \<Longrightarrow> session_command ops L s msg = Some (s, Inr (Inl session_closed))"
  by (auto simp: unusable_def session_command_def split: option.splits)

lemma unusable_typed_command:
  "unusable s \<Longrightarrow> typed_command ops L msg select expected s = Some (s, Inr (Inl session_closed))"
  by (simp add: typed_command_def unusable_command)

text \<open>The invariant: a finished session has a closed transport, a usable one a clean wire.\<close>

definition session_ok :: "('t \<Rightarrow> bool) \<Rightarrow> ('t \<Rightarrow> bool) \<Rightarrow> 't ExploreSession \<Rightarrow> bool" where
  "session_ok boundary is_open s =
     (case es_transport s of None \<Rightarrow> True | Some t \<Rightarrow> if es_done s then \<not> is_open t else boundary t)"

lemma session_ok_iff:
  "session_ok boundary is_open s \<longleftrightarrow>
    (\<forall>t. es_transport s = Some t \<longrightarrow> (es_done s \<longrightarrow> \<not> is_open t) \<and> (\<not> es_done s \<longrightarrow> boundary t))"
  by (auto simp: session_ok_def split: option.splits)

text \<open>The command was sent as one line on the session's transport.\<close>

definition command_sent ::
  "('t \<Rightarrow> string list) \<Rightarrow> json_lib \<Rightarrow> ClientMessage \<Rightarrow> 't ExploreSession \<Rightarrow> 't ExploreSession \<Rightarrow> bool" where
  "command_sent sent L msg s s' =
    (case (es_transport s, es_transport s', encode_client_message L msg) of
       (Some t, Some t', Inr line) \<Rightarrow> sent t' = sent t @ [line] | _ \<Rightarrow> False)"

context line_transport
begin

lemma poison_with_ok:
  assumes "poison_with ops s e = Some (s', r)"
  shows "session_ok boundary is_open s' \<and> es_done s' \<and> r = Inr (Inl e)"
  using assms close_closes
  by (fastforce simp: poison_with_def poison_def Let_def session_ok_iff split: option.splits prod.splits)

lemma recv_explore_reply_silent:
  "recv_explore_reply ops L t = Some (t', r) \<Longrightarrow> sent t' = sent t \<and> (boundary t' \<longleftrightarrow> boundary t)"
  using recv_silent [of t]
  by (auto simp: recv_explore_reply_def split: option.splits sum.splits MirrorMessage.splits)

lemma session_command_ok:
  assumes "session_ok boundary is_open s" "session_command ops L s msg = Some (s', r)"
  shows "session_ok boundary is_open s' \<and> (\<forall>e. r = Inr (Inl e) \<longrightarrow> unusable s') \<and>
    (\<forall>m. r = Inr (Inr m) \<longrightarrow> \<not> unusable s' \<and> command_sent sent L msg s s')"
proof (cases "unusable s")
  case True
  with unusable_command [OF True, of ops L msg] assms show ?thesis by auto
next
  case False
  then obtain t where t: "es_transport s = Some t" "\<not> es_done s" by (auto simp: unusable_def)
  with assms(1) have b: "boundary t" by (simp add: session_ok_iff)
  obtain p g where g: "guard_sent (es_guard s) msg = (p, g)" by (cases "guard_sent (es_guard s) msg")
  obtain t1 q where sm: "send_message ops L t msg = (t1, q)" by (cases "send_message ops L t msg")
  show ?thesis
  proof (cases g)
    case (Inl e)
    then have "poison_with ops (s\<lparr> es_guard := p \<rparr>) e = Some (s', r)"
      using t g assms(2) by (simp add: session_command_def)
    from poison_with_ok [OF this] show ?thesis by (simp add: unusable_def)
  next
    case ok: (Inr u)
    from sm show ?thesis
    proof (cases rule: send_message_cases)
      case (thrown x)
      with t g ok sm assms(2) b show ?thesis by (auto simp: session_command_def session_ok_iff)
    next
      case (tried line qr)
      show ?thesis
      proof (cases qr)
        case (Inl e)
        then have "poison_with ops (s\<lparr> es_guard := p, es_transport := Some t1 \<rparr>) e = Some (s', r)"
          using t g ok sm tried assms(2) by (simp add: session_command_def)
        from poison_with_ok [OF this] show ?thesis by (simp add: unusable_def)
      next
        case (Inr v)
        then have b1: "boundary t1" "sent t1 = sent t @ [line]" using send_ok tried b by blast+
        show ?thesis
        proof (cases "recv_explore_reply ops L t1")
          case None
          with t g ok sm tried Inr assms(2) show ?thesis by (simp add: session_command_def)
        next
          case (Some tr)
          obtain t2 rr where tr: "tr = (t2, rr)" by (cases tr)
          have b2: "boundary t2" "sent t2 = sent t @ [line]"
            using recv_explore_reply_silent [of L t1 t2 rr] Some tr b1 by auto
          show ?thesis
            using t g ok sm tried Inr Some tr assms(2) b2
            by (auto simp: session_command_def session_ok_iff unusable_def command_sent_def
                dest!: poison_with_ok split: sum.splits prod.splits)
        qed
      qed
    qed
  qed
qed

lemma typed_command_ok:
  assumes "session_ok boundary is_open s" "typed_command ops L msg select expected s = Some (s', r)"
  shows "session_ok boundary is_open s' \<and> (\<forall>e. r = Inr (Inl e) \<longrightarrow> unusable s') \<and>
    (\<forall>v. r = Inr (Inr v) \<longrightarrow> \<not> unusable s' \<and> command_sent sent L msg s s')"
proof -
  obtain s1 r1 where c: "session_command ops L s msg = Some (s1, r1)"
    using assms(2) by (auto simp: typed_command_def split: option.splits)
  from session_command_ok [OF assms(1) c] assms(2) c show ?thesis
    by (auto simp: typed_command_def unusable_def dest!: poison_with_ok split: option.splits sum.splits)
qed

lemma explore_done_ok:
  assumes "session_ok boundary is_open s" "explore_done ops L s = Some (s', r)"
  shows "session_ok boundary is_open s' \<and> ((\<exists>q. r = Inr q) \<longrightarrow> unusable s')"
proof (cases "unusable s")
  case True
  with assms show ?thesis by (auto simp: explore_done_def unusable_def)
next
  case False
  then obtain s1 r1 where c: "session_command ops L s ExploreDone = Some (s1, r1)"
    using assms(2) by (auto simp: explore_done_def unusable_def split: option.splits)
  from session_command_ok [OF assms(1) c] assms(2) c False show ?thesis
    by (auto simp: explore_done_def unusable_def session_ok_iff dest!: poison_with_ok
        split: option.splits sum.splits if_splits prod.splits)
qed

end

lemma guard_exploring:
  "explore_command msg \<Longrightarrow> guard_sent Ph_exploring msg = (Ph_exploring, Inr ())"
  "explore_reply m \<Longrightarrow> guard_received Ph_exploring m = (Ph_exploring, Inr ())"
  using guard_sent_step [of Ph_exploring msg Ph_exploring] guard_received_step [of Ph_exploring m Ph_exploring]
    phase_step.command phase_step.reply by auto

context live_transport
begin

lemma session_command_exchange:
  assumes "es_transport s = Some t" "\<not> es_done s" "es_guard s = Ph_exploring" "healthy t"
    and "explore_command msg" "encode_client_message L msg = Inr line" "valid_line line"
    and "pending t = l # ls" "decodes L l m" "explore_reply m"
  shows "\<exists>t'. session_command ops L s msg = Some (s\<lparr> es_transport := Some t' \<rparr>, Inr (Inr m)) \<and>
    sent t' = sent t @ [line] \<and> pending t' = ls \<and> healthy t'"
proof -
  from send_healthy [OF assms(4,7)] obtain t1 where t1: "send_line ops t line = (t1, Inr ())" "pending t1 = l # ls"
    "healthy t1" using assms(8) by auto
  have s1: "sent t1 = sent t @ [line]" using send_ok [OF t1(1) healthy_boundary [OF assms(4)]] by simp
  from recv_pending [OF t1(3,2)] obtain t2 where t2: "recv_line ops t1 = Some (t2, Inr l)" "pending t2 = ls" "healthy t2"
    by blast
  have "recv_explore_reply ops L t1 = Some (t2, Inr (Inr m))"
    using t2(1) assms(9,10) by (auto simp: recv_explore_reply_def decodes_def explore_reply_def split: MirrorMessage.splits)
  moreover have "s\<lparr> es_guard := Ph_exploring, es_transport := Some t2 \<rparr> = s\<lparr> es_transport := Some t2 \<rparr>"
    using assms(3) by (cases s) simp
  ultimately show ?thesis
    using assms(1-3,6) guard_exploring(1) [OF assms(5)] guard_exploring(2) [OF assms(10)] t1(1) t2 s1 recv_silent [OF t2(1)]
    by (intro exI [of _ t2]) (simp add: session_command_def send_message_def)
qed

end

section \<open>Properties\<close>


definition sample_session :: "read_event list \<Rightarrow> TcpTransport ExploreSession" where
  "sample_session ins = \<lparr> es_transport = Some (sample_tcp ins []),
     es_ready = \<lparr> rd_init_transitions = 1, rd_next_transitions = 1, rd_state_invariants = 0 \<rparr>, es_guard = Ph_exploring, es_done = False \<rparr>"

lemma sample_session_ok: "session_ok tcp_boundary tcp_open (sample_session ins)"
  by (simp add: sample_session_def session_ok_def sample_tcp_def tcp_boundary_def)

lemma session_lib_command:
  "encode_client_message session_lib ExploreNextStep = Inr (ref_print (client_json session_lib ExploreNextStep))"
  "valid_line (ref_print (client_json session_lib ExploreNextStep))"
proof -
  have "json_bytes (client_json session_lib ExploreNextStep) \<le> kMaxProtocolLineBytes"
    by (simp add: client_json_def client_fields_def client_message_name_def kMaxProtocolLineBytes_def)
  from session_lib_prints [OF this]
  show "encode_client_message session_lib ExploreNextStep = Inr (ref_print (client_json session_lib ExploreNextStep))"
    "valid_line (ref_print (client_json session_lib ExploreNextStep))" by simp_all
qed


text \<open>Commands and replies alternate strictly: over a healthy connection a command in the exploring
  phase sends its one line, consumes exactly the next pending reply and returns it, and the
  session can go on.\<close>

theorem explore_command_exchange:
  assumes "es_transport s = Some t" "\<not> es_done s" "es_guard s = Ph_exploring" "tcp_healthy t"
    and "explore_command msg" "encode_client_message L msg = Inr line" "valid_line line"
    and "tcp_pending t = l # ls" "decodes L l m" "explore_reply m"
  shows "\<exists>t'. session_command tcp_ops L s msg = Some (s\<lparr> es_transport := Some t' \<rparr>, Inr (Inr m)) \<and>
    tcp_sent t' = tcp_sent t @ [line] \<and> tcp_pending t' = ls \<and> tcp_healthy t'"
  using tcp_live.session_command_exchange [OF assms] .

definition explore_lib :: json_lib where
  "explore_lib = ref_lib [(''s'', JObject [(''proto_step'', JString ''explore_step_done''), (''stepNo'', JInteger 1)])]"

theorem explore_command_exchange_witness:
  "\<exists>t'. session_command tcp_ops explore_lib (sample_session [RData (frame [''s''])]) ExploreNextStep =
      Some ((sample_session [RData (frame [''s''])])\<lparr> es_transport := Some t' \<rparr>, Inr (Inr (ExploreStepDone 1))) \<and>
    tcp_pending t' = []"
proof -
  let ?t = "sample_tcp [RData (frame [''s''])] []"
  let ?line = "ref_print (client_json session_lib ExploreNextStep)"
  have h: "tcp_healthy ?t" "tcp_pending ?t = [''s'']"
    by (simp_all add: sample_tcp_def tcp_healthy_def tcp_pending_def accepting_def valid_line_def
        kMaxProtocolLineBytes_def split_lines.simps)
  have d: "decodes explore_lib ''s'' (ExploreStepDone 1)"
    by (simp add: decodes_def decode_mirror_message_def explore_lib_def is_object_def jfind_def decode_tagged_def
        require_object_def jat_def int_member_def require_int_def is_number_integer_def get_long_long_def)
  have e: "encode_client_message explore_lib ExploreNextStep = Inr ?line"
    using session_lib_command(1)
    by (simp add: encode_client_message_def explore_lib_def session_lib_def client_json_def client_fields_def)
  from explore_command_exchange [OF _ _ _ h(1) _ e session_lib_command(2) h(2) d, of "sample_session [RData (frame [''s''])]"]
  show ?thesis by (auto simp: sample_session_def explore_command_def explore_reply_def)
qed

end
