(* ===== verification/Async_Jobs.thy ===== *)
theory Async_Jobs
  imports Stepping_Flows
begin

text \<open>
  The asynchronous job interface of \<^verbatim>\<open>src/client.cpp\<close>: one request, one synchronous reply, over a
  borrowed transport. A fresh guard checks each exchange; success and \<^verbatim>\<open>register_error\<close> leave
  the transport open, every other failure closes it.
\<close>

section \<open>Exchanges\<close>

definition expected_job_id :: "ClientMessage \<Rightarrow> string option" where
  "expected_job_id msg = (case msg of
     QueryJob i \<Rightarrow> Some i | AwaitJob i _ \<Rightarrow> Some i | CancelJob i \<Rightarrow> Some i | _ \<Rightarrow> None)"

definition actual_job_id :: "MirrorMessage \<Rightarrow> string option" where
  "actual_job_id m = (case m of JobStatus i _ \<Rightarrow> Some i | JobResult i _ \<Rightarrow> Some i | _ \<Rightarrow> None)"

text \<open>The end of \<^verbatim>\<open>job_exchange\<close>: what becomes of a legal reply.\<close>

definition job_reply_of ::
  "'t transport_ops \<Rightarrow> ClientMessage \<Rightarrow> 't \<Rightarrow> MirrorMessage \<Rightarrow> ('t \<times> MirrorMessage outcome) option" where
  "job_reply_of ops msg t m =
    (case m of
       RegisterError e \<Rightarrow> Some (t, mirror_error EK_registration e)
     | ProtocolError e \<Rightarrow> close_and ops t (Inr (Inl (make_error EK_protocol e)))
     | _ \<Rightarrow>
         if expected_job_id msg \<noteq> None \<and> actual_job_id m \<noteq> expected_job_id msg
         then close_and ops t (Inr (Inl (make_error EK_protocol ''async reply jobId mismatch'')))
         else Some (t, Inr (Inr m)))"

definition job_exchange ::
  "'t transport_ops \<Rightarrow> json_lib \<Rightarrow> 't \<Rightarrow> ClientMessage \<Rightarrow> ('t \<times> MirrorMessage outcome) option" where
  "job_exchange ops L t msg =
    (if \<not> async_capable ops t then Some (t, mirror_error EK_protocol ''async jobs require a server-mode transport'')
     else (let abort = (\<lambda>t e. close_and ops t (Inr (Inl e))) in
       case guard_sent Ph_idle msg of
         (p, Inl e) \<Rightarrow> abort t e
       | (p, Inr _) \<Rightarrow>
           (case send_message ops L t msg of
              (t1, Inl x) \<Rightarrow> Some (t1, Inl x)
            | (t1, Inr (Inl e)) \<Rightarrow> abort t1 e
            | (t1, Inr (Inr _)) \<Rightarrow>
                (case recv_line ops t1 of
                   None \<Rightarrow> None
                 | Some (t2, Inl e) \<Rightarrow> abort t2 e
                 | Some (t2, Inr line) \<Rightarrow>
                     (case decode_mirror_message L line of
                        Inl x \<Rightarrow> Some (t2, Inl x)
                      | Inr (Inl e) \<Rightarrow> abort t2 e
                      | Inr (Inr m) \<Rightarrow>
                          (case guard_received p m of
                             (p', Inl e) \<Rightarrow> abort t2 e
                           | (p', Inr _) \<Rightarrow>
                               job_reply_of ops msg t2 m))))))"

definition submit_async ::
  "'t transport_ops \<Rightarrow> json_lib \<Rightarrow> 't \<Rightarrow> ClientMessage \<Rightarrow> ('t \<times> (string \<times> JobKind) outcome) option" where
  "submit_async ops L t msg =
    (if \<not> async_capable ops t
     then Some (t, mirror_error EK_protocol ''async jobs require a server-mode (TCP/TLS) transport'')
     else (case job_exchange ops L t msg of
       None \<Rightarrow> None
     | Some (t', Inl x) \<Rightarrow> Some (t', Inl x)
     | Some (t', Inr (Inl e)) \<Rightarrow> Some (t', Inr (Inl e))
     | Some (t', Inr (Inr m)) \<Rightarrow>
         (case m of
            JobAccepted i k \<Rightarrow>
              if k = (case msg of RegisterValidateAsync _ _ _ \<Rightarrow> JK_validate | _ \<Rightarrow> JK_gen_traces)
              then Some (t', Inr (Inr (i, k)))
              else close_and ops t' (mirror_error EK_protocol ''async reply job kind mismatch'')
          | _ \<Rightarrow> close_and ops t' (Inr (Inl (unexpected_tag_error m ''job_accepted''))))))"

datatype AwaitResult = AwaitStatus string JobPhase | AwaitDone string JobOutcome

definition await_result_id :: "AwaitResult \<Rightarrow> string" where
  "await_result_id r = (case r of AwaitStatus i _ \<Rightarrow> i | AwaitDone i _ \<Rightarrow> i)"

definition classify_job_reply ::
  "'t transport_ops \<Rightarrow> string \<Rightarrow> ('t \<times> MirrorMessage outcome) option \<Rightarrow> ('t \<times> AwaitResult outcome) option" where
  "classify_job_reply ops expected r =
    (case r of
       None \<Rightarrow> None
     | Some (t, Inl x) \<Rightarrow> Some (t, Inl x)
     | Some (t, Inr (Inl e)) \<Rightarrow> Some (t, Inr (Inl e))
     | Some (t, Inr (Inr m)) \<Rightarrow>
         (case m of
            JobResult i out \<Rightarrow> Some (t, Inr (Inr (AwaitDone i out)))
          | JobStatus i p \<Rightarrow> Some (t, Inr (Inr (AwaitStatus i p)))
          | _ \<Rightarrow> close_and ops t (Inr (Inl (unexpected_tag_error m expected)))))"

section \<open>The interface\<close>

definition submit_validate_async ::
  "'t transport_ops \<Rightarrow> json_lib \<Rightarrow> 't \<Rightarrow> ApalacheConfig \<Rightarrow> 64 word \<Rightarrow> ApalacheSpec option
    \<Rightarrow> ('t \<times> (string \<times> JobKind) outcome) option" where
  "submit_validate_async ops L t config bound inline_spec =
     submit_async ops L t (RegisterValidateAsync config bound inline_spec)"

definition submit_trace_gen_async ::
  "'t transport_ops \<Rightarrow> json_lib \<Rightarrow> 't \<Rightarrow> ApalacheConfig \<Rightarrow> TraceGenerationConfig \<Rightarrow> string option \<Rightarrow> ApalacheSpec option
    \<Rightarrow> ('t \<times> (string \<times> JobKind) outcome) option" where
  "submit_trace_gen_async ops L t config trace_config dest_path inline_spec =
     submit_async ops L t (RegisterTraceGenAsync config trace_config dest_path inline_spec)"

definition query_job_result :: "'t transport_ops \<Rightarrow> json_lib \<Rightarrow> 't \<Rightarrow> string \<Rightarrow> ('t \<times> AwaitResult outcome) option" where
  "query_job_result ops L t job_id =
     classify_job_reply ops ''job_result | job_status'' (job_exchange ops L t (QueryJob job_id))"

definition query_job :: "'t transport_ops \<Rightarrow> json_lib \<Rightarrow> 't \<Rightarrow> string \<Rightarrow> ('t \<times> (string \<times> JobPhase) outcome) option" where
  "query_job ops L t job_id =
    (case query_job_result ops L t job_id of
       None \<Rightarrow> None
     | Some (t', Inl x) \<Rightarrow> Some (t', Inl x)
     | Some (t', Inr (Inl e)) \<Rightarrow> Some (t', Inr (Inl e))
     | Some (t', Inr (Inr r)) \<Rightarrow>
         Some (t', Inr (Inr (case r of
           AwaitStatus i p \<Rightarrow> (i, p)
         | AwaitDone i out \<Rightarrow> (i, case out of OutcomeError _ \<Rightarrow> JP_failed | _ \<Rightarrow> JP_done)))))"

definition await_job ::
  "'t transport_ops \<Rightarrow> json_lib \<Rightarrow> 't \<Rightarrow> string \<Rightarrow> 64 word option \<Rightarrow> ('t \<times> AwaitResult outcome) option" where
  "await_job ops L t job_id timeout_secs =
     classify_job_reply ops ''job_result | job_status'' (job_exchange ops L t (AwaitJob job_id timeout_secs))"

definition cancel_job :: "'t transport_ops \<Rightarrow> json_lib \<Rightarrow> 't \<Rightarrow> string \<Rightarrow> ('t \<times> AwaitResult outcome) option" where
  "cancel_job ops L t job_id =
     classify_job_reply ops ''job_result | job_status'' (job_exchange ops L t (CancelJob job_id))"

section \<open>What an exchange leaves behind\<close>

lemma job_exchange_id:
  assumes "job_exchange ops L t msg = Some (t', Inr (Inr m))" "expected_job_id msg = Some i"
  shows "actual_job_id m = Some i"
  using assms
  by (auto simp: job_exchange_def job_reply_of_def close_and_def Let_def mirror_error_def
      split: if_splits prod.splits sum.splits option.splits MirrorMessage.splits)

text \<open>An exchange is settled when a returned message or a rejected registration leaves the connection
  as it was and every other error leaves it closed.\<close>

definition settled :: "('t \<Rightarrow> bool) \<Rightarrow> 't \<Rightarrow> 't \<times> 'a outcome \<Rightarrow> bool" where
  "settled is_open t res = (case res of (t', r) \<Rightarrow>
    (case r of
       Inl x \<Rightarrow> True
     | Inr (Inl e) \<Rightarrow> \<not> is_open t' \<or> (err_kind e = EK_registration \<and> (is_open t' \<longleftrightarrow> is_open t))
     | Inr (Inr v) \<Rightarrow> is_open t' \<longleftrightarrow> is_open t))"

context line_transport
begin

lemma close_and_settled: "close_and ops t1 (Inr (Inl e)) = Some res \<Longrightarrow> settled is_open t res"
proof -
  assume close: "close_and ops t1 (Inr (Inl e)) = Some res"
  obtain t' r where res: "res = (t', r)" by (cases res)
  from close_and_closed [of t1 "Inr (Inl e)" t' r] close res show ?thesis by (simp add: settled_def)
qed

lemma close_mirror_error_settled: "close_and ops t1 (mirror_error k m) = Some res \<Longrightarrow> settled is_open t res"
  unfolding mirror_error_def by (rule close_and_settled)

lemma job_exchange_settled:
  assumes "async_capable ops t" "job_exchange ops L t msg = Some res"
  shows "settled is_open t res"
proof -
  obtain p g where g: "guard_sent Ph_idle msg = (p, g)" by (cases "guard_sent Ph_idle msg")
  obtain t1 q where sm: "send_message ops L t msg = (t1, q)" by (cases "send_message ops L t msg")
  have o1: "is_open t1 \<longleftrightarrow> is_open t" using sm by (rule send_message_cases) (auto dest: send_open)
  have o2: "is_open t2 \<longleftrightarrow> is_open t" if "recv_line ops t1 = Some (t2, r)" for t2 r
    using recv_open [OF that] o1 by simp
  have reply: "settled is_open t res"
    if "recv_line ops t1 = Some (t2, Inr line)" "decode_mirror_message L line = Inr (Inr m)"
      "guard_received p m = (p', Inr u)"
      and "job_reply_of ops msg t2 m = Some res" for t2 line m p' u
    using that(4) o2 [OF that(1)]
    by (cases m) (auto simp: job_reply_of_def mirror_error_def settled_def [of _ _ "(_, _)"]
        intro: close_and_settled split: if_splits)
  show ?thesis
  proof (cases g)
    case (Inl e)
    then show ?thesis using assms g by (auto simp: job_exchange_def intro: close_and_settled)
  next
    case ok: (Inr u)
    consider x where "q = Inl x" | e where "q = Inr (Inl e)" | v where "q = Inr (Inr v)"
      by (metis sum.exhaust)
    then show ?thesis
    proof cases
      case 1
      then show ?thesis using assms g ok sm by (auto simp: job_exchange_def settled_def)
    next
      case 2
      then show ?thesis using assms g ok sm by (auto simp: job_exchange_def intro: close_and_settled)
    next
      case 3
      then show ?thesis
        using assms g ok sm reply
        by (auto simp: job_exchange_def settled_def [of _ _ "(_, _)"] intro: close_and_settled
            split: option.splits sum.splits prod.splits)
    qed
  qed
qed

lemma classify_settled:
  assumes "\<And>res. r = Some res \<Longrightarrow> settled is_open t res" "classify_job_reply ops expected r = Some res"
  shows "settled is_open t res"
proof -
  obtain t1 q where r: "r = Some (t1, q)" using assms(2) by (auto simp: classify_job_reply_def split: option.splits)
  have s: "settled is_open t (t1, q)" using assms(1) r by blast
  show ?thesis
    using assms(2) r s
    by (auto simp: classify_job_reply_def settled_def [of _ _ "(_, _)"] intro: close_and_settled
        split: sum.splits MirrorMessage.splits)
qed

lemma submit_async_settled:
  assumes "async_capable ops t" "submit_async ops L t msg = Some res"
  shows "settled is_open t res"
proof -
  obtain t1 q where r: "job_exchange ops L t msg = Some (t1, q)"
    using assms by (auto simp: submit_async_def split: option.splits)
  have s: "settled is_open t (t1, q)" using job_exchange_settled [OF assms(1) r] .
  show ?thesis
    using assms r s
    by (auto simp: submit_async_def settled_def [of _ _ "(_, _)"] intro: close_and_settled close_mirror_error_settled
        split: sum.splits MirrorMessage.splits if_splits)
qed

end

lemma classify_job_reply_id:
  assumes "classify_job_reply ops expected (job_exchange ops L t msg) = Some (t', Inr (Inr v))"
    and "expected_job_id msg = Some i"
  shows "await_result_id v = i"
proof -
  obtain t1 m where "job_exchange ops L t msg = Some (t1, Inr (Inr m))"
    using assms(1) by (auto simp: classify_job_reply_def close_and_def split: option.splits sum.splits)
  with job_exchange_id [OF this assms(2)] assms(1) show ?thesis
    by (auto simp: classify_job_reply_def actual_job_id_def await_result_id_def close_and_def
        split: MirrorMessage.splits option.splits)
qed

section \<open>Properties\<close>


definition job_lib :: json_lib where
  "job_lib = (ref_lib [(''r'', JObject [(''jobId'', JString ''j1''), (''phase'', JString ''running''), (''proto_step'', JString ''job_status'')])])"


text \<open>Submitting a job over TCP returns an accepted job of the submitted kind with the connection
  as it was, or an error after which the connection is closed unless the mirror rejected the
  registration.\<close>

theorem submit_async_contract:
  assumes "submit_async tcp_ops L t msg = Some (t', r)"
  shows "(\<forall>i k. r = Inr (Inr (i, k)) \<longrightarrow>
      k = (case msg of RegisterValidateAsync _ _ _ \<Rightarrow> JK_validate | _ \<Rightarrow> JK_gen_traces) \<and> (tcp_open t' \<longleftrightarrow> tcp_open t)) \<and>
    (\<forall>e. r = Inr (Inl e) \<longrightarrow> \<not> tcp_open t' \<or> err_kind e = EK_registration)"
proof -
  have "settled tcp_open t (t', r)" by (rule tcp.submit_async_settled [OF _ assms]) (simp add: tcp_ops_def)
  moreover have "k = (case msg of RegisterValidateAsync _ _ _ \<Rightarrow> JK_validate | _ \<Rightarrow> JK_gen_traces)"
    if "r = Inr (Inr (i, k))" for i k
    using assms that
    by (auto simp: submit_async_def close_and_def mirror_error_def
        split: if_splits option.splits sum.splits MirrorMessage.splits)
  ultimately show ?thesis by (auto simp: settled_def)
qed

theorem submit_async_contract_witness:
  "\<exists>t' e. submit_async tcp_ops job_lib ((sample_tcp [] [])\<lparr> tcp_closed := True \<rparr>) (RegisterValidateAsync sample_config 5 None) = Some (t', Inr (Inl e)) \<and>
    (\<not> tcp_open t' \<or> err_kind e = EK_registration)"
proof -
  let ?t = "(sample_tcp [] [])\<lparr> tcp_closed := True \<rparr>"
  obtain e where "submit_async tcp_ops job_lib ?t (RegisterValidateAsync sample_config 5 None) = Some (?t, Inr (Inl e))"
    by (simp add: submit_async_def job_exchange_def guard_sent_def client_message_name_def is_reg_tag_def
        send_message_def encode_client_message_def job_lib_def tcp_ops_def tcp_send_line_def close_and_def tcp_close_def
        sample_tcp_def)
  with submit_async_contract [OF this] show ?thesis by blast
qed

end
