(* ===== verification/Schedule_Format.thy ===== *)
theory Schedule_Format
  imports Reference_Lib
begin

text \<open>
  The checkpoint schedule artifact of \<^verbatim>\<open>include/mirrorcpp/schedule.hpp\<close> and \<^verbatim>\<open>src/schedule.cpp\<close>: identities,
  steps, the strict JSON decoder with its parser callback, the encoder, and the admission of a schedule
  against an adapter and a policy.

  The JSON library is a parameter, \<open>schedule_lib\<close>: the events the parser hands to the callback and the
  document or error it ends with, the printer, and the text of its type errors. \<open>parse_print_law\<close> states
  what is documented of them: parsing the printed text of a document reports the events of that document
  and returns it. Exceptions are their \<^verbatim>\<open>what()\<close> texts; every one that leaves the decoder is an
  \<^verbatim>\<open>std::invalid_argument\<close>.
\<close>

section \<open>Data\<close>

record Identity =
  model_semantic_digest :: string
  mapping_sha256 :: string
  implementation_sha256 :: string

record Step =
  step_actor :: string
  step_checkpoint :: string

record Schedule =
  scheduling_profile :: string
  sched_identity :: Identity
  sched_inputs :: Json
  sched_steps :: "Step list"

definition profile :: string where
  "profile = ''mirrorcpp.cooperative-checkpoints/v1''"

definition schedule_schema :: string where
  "schedule_schema = ''mirrors.checkpoint-schedule/v1''"

definition completion :: string where
  "completion = ''$done''"

definition max_artifact_bytes :: nat where
  "max_artifact_bytes = 1048576"

definition max_observation_bytes :: nat where
  "max_observation_bytes = 65535"

definition identifier_char :: "char \<Rightarrow> bool" where
  "identifier_char c = (is_lower c \<or> is_upper c \<or> is_digit c \<or> c \<in> {CHR ''_'', CHR ''-'', CHR ''.'', CHR ''/''})"

definition schedule_identifier :: "string \<Rightarrow> bool" where
  "schedule_identifier text = (text \<noteq> [] \<and> length text \<le> 128 \<and> list_all identifier_char text)"

definition digest_text :: "string \<Rightarrow> bool" where
  "digest_text text = (length text = 64 \<and> list_all is_lower_hex text)"

definition identity_valid :: "Identity \<Rightarrow> bool" where
  "identity_valid i = (digest_text (model_semantic_digest i) \<and> digest_text (mapping_sha256 i)
     \<and> digest_text (implementation_sha256 i))"

fun plain_json :: "nat \<Rightarrow> Json \<Rightarrow> bool" where
  "plain_json depth (JObject kvs) = (depth \<le> 28 \<and> list_all (\<lambda>kv. plain_json (depth + 1) (snd kv)) kvs)"
| "plain_json depth (JArray js) = (depth \<le> 28 \<and> list_all (plain_json (depth + 1)) js)"
| "plain_json depth JBinary = False"
| "plain_json depth JDiscarded = False"
| "plain_json depth (JFloat d) = (depth \<le> 28 \<and> d \<noteq> NonFinite)"
| "plain_json depth j = (depth \<le> 28)"

section \<open>The document of a schedule\<close>

definition identity_json :: "Identity \<Rightarrow> Json" where
  "identity_json i = jobject [(''modelSemanticDigest'', JString (model_semantic_digest i)),
     (''mappingSha256'', JString (mapping_sha256 i)), (''implementationSha256'', JString (implementation_sha256 i))]"

definition step_json :: "Step \<Rightarrow> Json" where
  "step_json s = jobject [(''actor'', JString (step_actor s)), (''checkpoint'', JString (step_checkpoint s))]"

definition schedule_json :: "Schedule \<Rightarrow> Json" where
  "schedule_json s = jobject [(''schema'', JString schedule_schema), (''profile'', JString (scheduling_profile s)),
     (''identity'', identity_json (sched_identity s)), (''inputs'', sched_inputs s),
     (''steps'', JArray (map step_json (sched_steps s)))]"

section \<open>Decoding\<close>

datatype parse_event = ObjectStart | ArrayStart | ObjectEnd | ArrayEnd | KeyEvent string | ValueEvent

record schedule_lib =
  sl_parse :: "string \<Rightarrow> parse_event list \<times> (string + Json)"
  sl_dump :: "Json \<Rightarrow> string + string"
  sl_type_what :: "Json \<Rightarrow> string"

text \<open>The callback: the keys of the open objects, innermost first, and the nesting depth.\<close>

type_synonym callback_state = "string set list \<times> nat"

definition enter :: "callback_state \<Rightarrow> string + callback_state" where
  "enter st = (if snd st + 1 > 32 then Inl ''schedule nesting exceeds bound'' else Inr (fst st, snd st + 1))"

definition parse_callback :: "callback_state \<Rightarrow> parse_event \<Rightarrow> string + callback_state" where
  "parse_callback st ev = (case ev of
     ObjectStart \<Rightarrow> enter ({} # fst st, snd st)
   | ArrayStart \<Rightarrow> enter st
   | ObjectEnd \<Rightarrow> Inr (tl (fst st), snd st - 1)
   | ArrayEnd \<Rightarrow> Inr (fst st, snd st - 1)
   | KeyEvent k \<Rightarrow>
       (if k \<in> hd (fst st) then Inl ''duplicate schedule JSON key''
        else Inr (insert k (hd (fst st)) # tl (fst st), snd st))
   | ValueEvent \<Rightarrow> Inr st)"

fun run_callback :: "callback_state \<Rightarrow> parse_event list \<Rightarrow> string + callback_state" where
  "run_callback st [] = Inr st"
| "run_callback st (ev # evs) = rbind (parse_callback st ev) (\<lambda>st'. run_callback st' evs)"

text \<open>\<^verbatim>\<open>json::parse\<close> with the callback: its exception ends parsing before the parser's own.\<close>

definition checked_parse :: "schedule_lib \<Rightarrow> string \<Rightarrow> string + Json" where
  "checked_parse SL text = (case sl_parse SL text of (evs, r) \<Rightarrow> rbind (run_callback ([], 0) evs) (\<lambda>_. r))"

definition get_string :: "schedule_lib \<Rightarrow> Json \<Rightarrow> string + string" where
  "get_string SL j = (case j of JString s \<Rightarrow> Inr s | _ \<Rightarrow> Inl (sl_type_what SL j))"

text \<open>\<^verbatim>\<open>exact\<close>: an object with exactly the given keys. Afterwards \<^verbatim>\<open>at\<close> finds each of them.\<close>

definition exact :: "Json \<Rightarrow> string list \<Rightarrow> string + unit" where
  "exact j keys =
     (if \<not> is_object j \<or> jsize j \<noteq> length keys then Inl ''schedule object has missing or unknown fields''
      else if \<not> list_all (\<lambda>k. jfind k j \<noteq> None) keys then Inl ''missing schedule field''
      else Inr ())"

definition field_at :: "string \<Rightarrow> Json \<Rightarrow> Json" where
  "field_at k j = (case jfind k j of Some x \<Rightarrow> x | None \<Rightarrow> JNull)"

definition decode_identity :: "schedule_lib \<Rightarrow> Json \<Rightarrow> string + Identity" where
  "decode_identity SL j =
     rbind (get_string SL (field_at ''modelSemanticDigest'' j)) (\<lambda>a.
     rbind (get_string SL (field_at ''mappingSha256'' j)) (\<lambda>b.
     rbind (get_string SL (field_at ''implementationSha256'' j)) (\<lambda>c.
     Inr \<lparr> model_semantic_digest = a, mapping_sha256 = b, implementation_sha256 = c \<rparr>)))"

definition decode_step :: "schedule_lib \<Rightarrow> Json \<Rightarrow> string + Step" where
  "decode_step SL j =
     rbind (exact j [''actor'', ''checkpoint'']) (\<lambda>_.
     rbind (get_string SL (field_at ''actor'' j)) (\<lambda>a.
     rbind (get_string SL (field_at ''checkpoint'' j)) (\<lambda>c.
     Inr \<lparr> step_actor = a, step_checkpoint = c \<rparr>)))"

definition step_syntax :: "Step \<Rightarrow> bool" where
  "step_syntax s = (schedule_identifier (step_actor s)
     \<and> (schedule_identifier (step_checkpoint s) \<or> step_checkpoint s = completion))"

definition schedule_checks :: "Schedule \<Rightarrow> string + Schedule" where
  "schedule_checks s =
     (if scheduling_profile s \<noteq> profile \<or> \<not> identity_valid (sched_identity s)
      then Inl ''invalid schedule profile or identity''
      else if \<not> list_all step_syntax (sched_steps s) then Inl ''invalid schedule identifier''
      else Inr s)"

definition decode_schedule :: "schedule_lib \<Rightarrow> Json \<Rightarrow> string + Schedule" where
  "decode_schedule SL j =
     rbind (exact j [''schema'', ''profile'', ''identity'', ''inputs'', ''steps'']) (\<lambda>_.
     rbind (if field_at ''schema'' j \<noteq> JString schedule_schema then Inl ''unknown schedule schema'' else Inr ()) (\<lambda>_.
     rbind (exact (field_at ''identity'' j) [''modelSemanticDigest'', ''mappingSha256'', ''implementationSha256'']) (\<lambda>_.
     rbind (get_string SL (field_at ''profile'' j)) (\<lambda>p.
     rbind (decode_identity SL (field_at ''identity'' j)) (\<lambda>i.
     rbind (case field_at ''steps'' j of
              JArray js \<Rightarrow> (if length js > 65536 then Inl ''invalid schedule steps'' else rmapM (decode_step SL) js)
            | _ \<Rightarrow> Inl ''invalid schedule steps'') (\<lambda>steps.
     schedule_checks \<lparr> scheduling_profile = p, sched_identity = i, sched_inputs = field_at ''inputs'' j,
       sched_steps = steps \<rparr>))))))"

definition parse_schedule :: "schedule_lib \<Rightarrow> string \<Rightarrow> string + Schedule" where
  "parse_schedule SL text =
     (if length text > max_artifact_bytes then Inl ''schedule exceeds byte bound''
      else (case rbind (checked_parse SL text) (decode_schedule SL) of
          Inl what \<Rightarrow> Inl (''schedule decode failed: '' @ what)
        | Inr s \<Rightarrow> Inr s))"

definition encode_schedule :: "schedule_lib \<Rightarrow> Schedule \<Rightarrow> string + string" where
  "encode_schedule SL s =
     (if \<not> plain_json 0 (sched_inputs s) then Inl ''inputs must be bounded plain JSON''
      else rbind (sl_dump SL (schedule_json s)) (\<lambda>text. rbind (parse_schedule SL text) (\<lambda>_. Inr text)))"

section \<open>Documents, events and nesting\<close>

fun events_of :: "Json \<Rightarrow> parse_event list" where
  "events_of (JObject kvs) = ObjectStart # concat (map (\<lambda>kv. KeyEvent (fst kv) # events_of (snd kv)) kvs) @ [ObjectEnd]"
| "events_of (JArray js) = ArrayStart # concat (map events_of js) @ [ArrayEnd]"
| "events_of j = [ValueEvent]"

definition parse_print_law :: "schedule_lib \<Rightarrow> Json \<Rightarrow> bool" where
  "parse_print_law SL j = (\<forall>text. sl_dump SL j = Inr text \<longrightarrow> sl_parse SL text = (events_of j, Inr j))"

text \<open>The containers of a document fit below the bound when it stands at depth \<open>d\<close>.\<close>

fun nests :: "nat \<Rightarrow> Json \<Rightarrow> bool" where
  "nests d (JObject kvs) = (d < 32 \<and> list_all (\<lambda>kv. nests (d + 1) (snd kv)) kvs)"
| "nests d (JArray js) = (d < 32 \<and> list_all (nests (d + 1)) js)"
| "nests d j = True"

lemma plain_json_nests: "plain_json depth j \<Longrightarrow> d = depth + 1 \<Longrightarrow> nests d j"
  by (induction depth j arbitrary: d rule: plain_json.induct) (auto simp: list_all_iff)

lemma run_callback_append:
  "run_callback st (xs @ ys) = rbind (run_callback st xs) (\<lambda>st'. run_callback st' ys)"
proof (induction xs arbitrary: st)
  case (Cons x xs)
  then show ?case by (cases "parse_callback st x") simp_all
qed simp

lemma run_callback_members:
  assumes "\<And>kv. kv \<in> set kvs \<Longrightarrow> (\<And>ks. run_callback (ks, d) (events_of (snd kv)) = Inr (ks, d))"
    and "distinct (map fst kvs)" "K \<inter> fst ` set kvs = {}"
  shows "run_callback (K # ks, d) (concat (map (\<lambda>kv. KeyEvent (fst kv) # events_of (snd kv)) kvs))
    = Inr ((K \<union> fst ` set kvs) # ks, d)"
  using assms
proof (induction kvs arbitrary: K)
  case (Cons kv kvs)
  have "run_callback (insert (fst kv) K # ks, d) (events_of (snd kv)) = Inr (insert (fst kv) K # ks, d)"
    using Cons.prems(1) by simp
  moreover have "run_callback (insert (fst kv) K # ks, d) (concat (map (\<lambda>kv. KeyEvent (fst kv) # events_of (snd kv)) kvs))
      = Inr ((insert (fst kv) K \<union> fst ` set kvs) # ks, d)"
    by (rule Cons.IH) (use Cons.prems in auto)
  ultimately show ?case using Cons.prems(3) by (simp add: run_callback_append parse_callback_def)
qed simp

lemma run_callback_items:
  "(\<And>j. j \<in> set js \<Longrightarrow> run_callback st (events_of j) = Inr st) \<Longrightarrow> run_callback st (concat (map events_of js)) = Inr st"
  by (induction js) (simp_all add: run_callback_append)

text \<open>A document as it is written: an object may still repeat a key.\<close>

fun keys_distinct :: "Json \<Rightarrow> bool" where
  "keys_distinct (JObject kvs) = (distinct (map fst kvs) \<and> list_all (\<lambda>kv. keys_distinct (snd kv)) kvs)"
| "keys_distinct (JArray js) = list_all keys_distinct js"
| "keys_distinct j = True"

lemma run_callback_events:
  "keys_distinct j \<Longrightarrow> nests d j \<Longrightarrow> run_callback (ks, d) (events_of j) = Inr (ks, d)"
proof (induction j arbitrary: ks d)
  case (JObject kvs)
  have members: "run_callback ({} # ks, Suc d) (concat (map (\<lambda>kv. KeyEvent (fst kv) # events_of (snd kv)) kvs))
      = Inr (({} \<union> fst ` set kvs) # ks, Suc d)"
  proof (rule run_callback_members)
    fix kv ks' assume kv: "kv \<in> set kvs"
    have "keys_distinct (snd kv)" "nests (Suc d) (snd kv)" using JObject.prems kv by (auto simp: list_all_iff)
    then show "run_callback (ks', Suc d) (events_of (snd kv)) = Inr (ks', Suc d)"
      using JObject.IH [of kv "snd kv"] kv by (cases kv) simp
  qed (use JObject.prems in auto)
  then show ?case using JObject.prems by (simp add: parse_callback_def enter_def run_callback_append)
next
  case (JArray js)
  have "run_callback (ks, Suc d) (concat (map events_of js)) = Inr (ks, Suc d)"
    by (rule run_callback_items) (use JArray in \<open>auto simp: list_all_iff\<close>)
  then show ?case using JArray.prems by (simp add: parse_callback_def enter_def run_callback_append)
qed (simp_all add: parse_callback_def)

lemma keys_distinct_wf: "json_wf j \<Longrightarrow> keys_distinct j"
proof (induction j)
  case (JObject kvs)
  then show ?case using om_wf_distinct by (auto simp: list_all_iff)
qed (auto simp: list_all_iff)

lemma run_callback_members_strict:
  assumes "\<And>kv ks st. kv \<in> set kvs \<Longrightarrow> run_callback (ks, d) (events_of (snd kv)) = Inr st
      \<Longrightarrow> keys_distinct (snd kv) \<and> nests d (snd kv) \<and> st = (ks, d)"
    and "run_callback (K # ks, d) (concat (map (\<lambda>kv. KeyEvent (fst kv) # events_of (snd kv)) kvs)) = Inr st"
  shows "distinct (map fst kvs) \<and> list_all (\<lambda>kv. keys_distinct (snd kv) \<and> nests d (snd kv)) kvs
    \<and> K \<inter> fst ` set kvs = {} \<and> st = ((K \<union> fst ` set kvs) # ks, d)"
  using assms
proof (induction kvs arbitrary: K)
  case (Cons kv kvs)
  from Cons.prems(2) obtain st' where fresh: "fst kv \<notin> K"
    and head: "run_callback (insert (fst kv) K # ks, d) (events_of (snd kv)) = Inr st'"
    and rest: "run_callback st' (concat (map (\<lambda>kv. KeyEvent (fst kv) # events_of (snd kv)) kvs)) = Inr st"
    by (auto simp: parse_callback_def run_callback_append rbind_eq_Inr split: if_splits)
  have kv: "keys_distinct (snd kv) \<and> nests d (snd kv) \<and> st' = (insert (fst kv) K # ks, d)"
    using Cons.prems(1) [OF _ head] by simp
  have "distinct (map fst kvs) \<and> list_all (\<lambda>kv. keys_distinct (snd kv) \<and> nests d (snd kv)) kvs
      \<and> insert (fst kv) K \<inter> fst ` set kvs = {} \<and> st = ((insert (fst kv) K \<union> fst ` set kvs) # ks, d)"
  proof (rule Cons.IH)
    show "run_callback (insert (fst kv) K # ks, d) (concat (map (\<lambda>kv. KeyEvent (fst kv) # events_of (snd kv)) kvs)) = Inr st"
      using rest kv by simp
  qed (use Cons.prems(1) in \<open>meson list.set_intros(2)\<close>)
  with fresh kv show ?case by auto
qed simp

lemma run_callback_items_strict:
  assumes "\<And>j st'. j \<in> set js \<Longrightarrow> run_callback (ks, d) (events_of j) = Inr st'
      \<Longrightarrow> keys_distinct j \<and> nests d j \<and> st' = (ks, d)"
    and "run_callback (ks, d) (concat (map events_of js)) = Inr st"
  shows "list_all (\<lambda>j. keys_distinct j \<and> nests d j) js \<and> st = (ks, d)"
  using assms
proof (induction js)
  case (Cons j js)
  from Cons.prems(2) obtain st' where head: "run_callback (ks, d) (events_of j) = Inr st'"
    and rest: "run_callback st' (concat (map events_of js)) = Inr st"
    by (auto simp: run_callback_append rbind_eq_Inr)
  have j: "keys_distinct j \<and> nests d j \<and> st' = (ks, d)" using Cons.prems(1) [OF _ head] by simp
  have "list_all (\<lambda>j. keys_distinct j \<and> nests d j) js \<and> st = (ks, d)"
    by (rule Cons.IH) (use Cons.prems(1) rest j in auto)
  with j show ?case by simp
qed simp

text \<open>A callback that accepts the events of a document leaves its state as it was.\<close>

lemma run_callback_strict:
  "run_callback (ks, d) (events_of j) = Inr st \<Longrightarrow> keys_distinct j \<and> nests d j \<and> st = (ks, d)"
proof (induction j arbitrary: ks d st)
  case (JObject kvs)
  from JObject.prems obtain st' where
    d: "d < 32" and run: "run_callback ({} # ks, Suc d) (concat (map (\<lambda>kv. KeyEvent (fst kv) # events_of (snd kv)) kvs)) = Inr st'"
      "st = (tl (fst st'), snd st' - 1)"
    by (auto simp: parse_callback_def enter_def run_callback_append rbind_eq_Inr split: if_splits)
  have "distinct (map fst kvs) \<and> list_all (\<lambda>kv. keys_distinct (snd kv) \<and> nests (Suc d) (snd kv)) kvs
      \<and> {} \<inter> fst ` set kvs = {} \<and> st' = (({} \<union> fst ` set kvs) # ks, Suc d)"
  proof (rule run_callback_members_strict [OF _ run(1)])
    fix kv ks' st'' assume kv: "kv \<in> set kvs" "run_callback (ks', Suc d) (events_of (snd kv)) = Inr st''"
    have "snd kv \<in> Basic_BNFs.snds kv" by (cases kv) simp
    from JObject.IH [OF kv(1) this kv(2)] show "keys_distinct (snd kv) \<and> nests (Suc d) (snd kv) \<and> st'' = (ks', Suc d)" .
  qed
  with d run(2) show ?case by (auto simp: list_all_iff)
next
  case (JArray js)
  from JArray.prems obtain st' where d: "d < 32" and run: "run_callback (ks, Suc d) (concat (map events_of js)) = Inr st'"
      "st = (fst st', snd st' - 1)"
    by (auto simp: parse_callback_def enter_def run_callback_append rbind_eq_Inr split: if_splits)
  have "list_all (\<lambda>j. keys_distinct j \<and> nests (Suc d) j) js \<and> st' = (ks, Suc d)"
    by (rule run_callback_items_strict [OF _ run(1)]) (use JArray.IH in blast)
  with d run(2) show ?case by (auto simp: list_all_iff)
qed (simp_all add: parse_callback_def)

section \<open>Decoding what was encoded\<close>

lemma length_om_put: "om_wf m \<Longrightarrow> k \<notin> fst ` set m \<Longrightarrow> length (om_put k v m) = Suc (length m)"
  by (induction k v m rule: om_put.induct) (auto simp: om_wf_Cons)

lemma length_om_build_aux:
  "om_wf acc \<Longrightarrow> distinct (map fst kvs) \<Longrightarrow> fst ` set acc \<inter> fst ` set kvs = {} \<Longrightarrow>
    length (foldl (\<lambda>m kv. om_put (fst kv) (snd kv) m) acc kvs) = length acc + length kvs"
  by (induction kvs arbitrary: acc) (auto simp: length_om_put)

lemma length_om_build: "distinct (map fst kvs) \<Longrightarrow> length (om_build kvs) = length kvs"
  using length_om_build_aux [of "[]" kvs] by (simp add: om_build_def)

lemma exact_jobject: "distinct (map fst kvs) \<Longrightarrow> length kvs = length ks \<Longrightarrow> set ks \<subseteq> fst ` set kvs \<Longrightarrow> exact (jobject kvs) ks = Inr ()"
proof -
  assume a: "distinct (map fst kvs)" "length kvs = length ks" "set ks \<subseteq> fst ` set kvs"
  have "jfind k (jobject kvs) \<noteq> None" if "k \<in> set ks" for k
    using that a(3) by (auto simp: map_of_eq_None_iff)
  moreover have "is_object (jobject kvs)" "jsize (jobject kvs) = length ks"
    using a(1,2) by (simp_all add: jobject_def is_object_def jsize_def length_om_build)
  ultimately show ?thesis by (simp add: exact_def list_all_iff)
qed

lemma decode_identity_json: "decode_identity SL (identity_json i) = Inr i"
  by (simp add: decode_identity_def identity_json_def field_at_def get_string_def)

lemma decode_step_json: "decode_step SL (step_json s) = Inr s"
proof -
  have "exact (step_json s) [''actor'', ''checkpoint''] = Inr ()"
    unfolding step_json_def by (rule exact_jobject) simp_all
  then show ?thesis by (simp add: decode_step_def step_json_def field_at_def get_string_def)
qed

lemma field_at_schedule:
  "field_at ''schema'' (schedule_json s) = JString schedule_schema"
  "field_at ''profile'' (schedule_json s) = JString (scheduling_profile s)"
  "field_at ''identity'' (schedule_json s) = identity_json (sched_identity s)"
  "field_at ''inputs'' (schedule_json s) = sched_inputs s"
  "field_at ''steps'' (schedule_json s) = JArray (map step_json (sched_steps s))"
  by (simp_all add: field_at_def schedule_json_def)

lemma decode_schedule_json:
  "decode_schedule SL (schedule_json s) =
    (if length (sched_steps s) > 65536 then Inl ''invalid schedule steps'' else schedule_checks s)"
proof -
  have e1: "exact (schedule_json s) [''schema'', ''profile'', ''identity'', ''inputs'', ''steps''] = Inr ()" for s
    unfolding schedule_json_def by (rule exact_jobject) simp_all
  have e2: "exact (identity_json i) [''modelSemanticDigest'', ''mappingSha256'', ''implementationSha256''] = Inr ()" for i
    unfolding identity_json_def by (rule exact_jobject) simp_all
  have steps: "rmapM (decode_step SL) (map step_json (sched_steps s)) = Inr (sched_steps s)"
    by (rule rmapM_inverse) (rule decode_step_json)
  show ?thesis
    by (cases s) (use steps in \<open>simp add: decode_schedule_def e1 e2 field_at_schedule decode_identity_json get_string_def\<close>)
qed

text \<open>A schedule the encoder accepts, apart from the size of its text.\<close>

definition schedule_ok :: "Schedule \<Rightarrow> bool" where
  "schedule_ok s = (scheduling_profile s = profile \<and> identity_valid (sched_identity s)
     \<and> plain_json 0 (sched_inputs s) \<and> length (sched_steps s) \<le> 65536 \<and> list_all step_syntax (sched_steps s))"

lemma schedule_checks_ok:
  "schedule_checks s = (if scheduling_profile s = profile \<and> identity_valid (sched_identity s)
     \<and> list_all step_syntax (sched_steps s) then Inr s else schedule_checks s)"
  by (simp add: schedule_checks_def)

lemma checked_parse_schedule:
  assumes "parse_print_law SL (schedule_json s)" "sl_dump SL (schedule_json s) = Inr text"
    "json_wf (sched_inputs s)" "plain_json 0 (sched_inputs s)"
  shows "checked_parse SL text = Inr (schedule_json s)"
proof -
  have wf: "json_wf (schedule_json s)"
    unfolding schedule_json_def
    by (rule json_wf_jobject) (use assms(3) in \<open>simp add: identity_json_def step_json_def list_all_iff\<close>)
  have leaf: "nests (Suc (Suc 0)) (step_json st)" "nests (Suc 0) (identity_json i)" for st i
    by (auto simp: step_json_def identity_json_def jobject_def om_build_def)
  have inp: "nests (Suc 0) (sched_inputs s)" by (rule plain_json_nests [OF assms(4)]) simp
  have "nests 0 (schedule_json s)"
    using leaf inp by (simp add: schedule_json_def jobject_def om_build_def list_all_iff)
  from run_callback_events [OF keys_distinct_wf [OF wf] this, of "[]"] show ?thesis
    using assms(1,2) by (simp add: checked_parse_def parse_print_law_def)
qed

lemma parse_dumped:
  assumes "parse_print_law SL (schedule_json s)" "sl_dump SL (schedule_json s) = Inr text"
    "json_wf (sched_inputs s)" "plain_json 0 (sched_inputs s)" "length text \<le> max_artifact_bytes"
  shows "parse_schedule SL text = (if length (sched_steps s) > 65536 then Inl ''schedule decode failed: invalid schedule steps''
    else case schedule_checks s of Inl what \<Rightarrow> Inl (''schedule decode failed: '' @ what) | Inr t \<Rightarrow> Inr t)"
  using checked_parse_schedule [OF assms(1-4)] assms(5) by (simp add: parse_schedule_def decode_schedule_json)

lemma schedule_checks_Inr:
  "schedule_checks s = Inr t \<longleftrightarrow> t = s \<and> scheduling_profile s = profile \<and> identity_valid (sched_identity s)
     \<and> list_all step_syntax (sched_steps s)"
  by (auto simp: schedule_checks_def)

lemma encode_schedule_Inr:
  assumes "parse_print_law SL (schedule_json s)" "json_wf (sched_inputs s)"
  shows "encode_schedule SL s = Inr text \<longleftrightarrow>
    schedule_ok s \<and> sl_dump SL (schedule_json s) = Inr text \<and> length text \<le> max_artifact_bytes"
proof (cases "plain_json 0 (sched_inputs s) \<and> sl_dump SL (schedule_json s) = Inr text")
  case True
  show ?thesis
  proof (cases "length text \<le> max_artifact_bytes")
    case fits: True
    have "parse_schedule SL text = (if length (sched_steps s) > 65536 then Inl ''schedule decode failed: invalid schedule steps''
        else case schedule_checks s of Inl what \<Rightarrow> Inl (''schedule decode failed: '' @ what) | Inr t \<Rightarrow> Inr t)"
      using parse_dumped [OF assms(1) _ assms(2)] True fits by blast
    with True fits show ?thesis by (auto simp: encode_schedule_def schedule_ok_def schedule_checks_def)
  qed (use True in \<open>simp add: encode_schedule_def parse_schedule_def\<close>)
next
  case False
  then show ?thesis
    by (cases "sl_dump SL (schedule_json s)") (auto simp: encode_schedule_def schedule_ok_def rbind_eq_Inr)
qed

lemma parse_encoded:
  assumes "parse_print_law SL (schedule_json s)" "json_wf (sched_inputs s)" "encode_schedule SL s = Inr text"
  shows "parse_schedule SL text = Inr s"
proof -
  from assms have ok: "schedule_ok s" "sl_dump SL (schedule_json s) = Inr text" "length text \<le> max_artifact_bytes"
    by (simp_all add: encode_schedule_Inr)
  then show ?thesis
    using parse_dumped [OF assms(1) ok(2) assms(2) _ ok(3)] schedule_checks_Inr [of s s] by (simp add: schedule_ok_def)
qed

text \<open>C32: A text the encoder returns is decoded to the very schedule that was encoded.\<close>

theorem schedule_roundtrip:
  assumes "parse_print_law SL (schedule_json s)" "json_wf (sched_inputs s)" "encode_schedule SL s = Inr text"
  shows "parse_schedule SL text = Inr s"
  by (rule parse_encoded [OF assms])

text \<open>A JSON library that knows the text of one document, for concrete runs.\<close>

definition ref_schedule_lib :: "Json \<Rightarrow> schedule_lib" where
  "ref_schedule_lib j =
     \<lparr> sl_parse = (\<lambda>text. if text = ref_print j then (events_of j, Inr j) else ([], Inl ''parse_error'')),
       sl_dump = (\<lambda>j. Inr (ref_print j)), sl_type_what = (\<lambda>_. ''type_error'') \<rparr>"

lemma ref_schedule_lib_law: "parse_print_law (ref_schedule_lib j) j"
  by (simp add: parse_print_law_def ref_schedule_lib_def)

definition sample_identity :: Identity where
  "sample_identity = \<lparr> model_semantic_digest = replicate 64 (CHR ''a''), mapping_sha256 = replicate 64 (CHR ''b''),
     implementation_sha256 = replicate 64 (CHR ''c'') \<rparr>"

definition sample_schedule :: Schedule where
  "sample_schedule = \<lparr> scheduling_profile = profile, sched_identity = sample_identity, sched_inputs = jobject [],
     sched_steps = [\<lparr> step_actor = ''left'', step_checkpoint = ''read'' \<rparr>, \<lparr> step_actor = ''right'', step_checkpoint = completion \<rparr>,
       \<lparr> step_actor = ''left'', step_checkpoint = completion \<rparr>] \<rparr>"

lemma sample_schedule_ok: "schedule_ok sample_schedule"
proof -
  have "identity_valid sample_identity" "list_all step_syntax (sched_steps sample_schedule)" by code_simp+
  then show ?thesis by (simp add: schedule_ok_def sample_schedule_def jobject_def om_build_def)
qed

lemma sample_encodes:
  "encode_schedule (ref_schedule_lib (schedule_json sample_schedule)) sample_schedule = Inr (ref_print (schedule_json sample_schedule))"
proof -
  have "length (ref_print (schedule_json sample_schedule)) = 503" by code_simp
  then show ?thesis
    using sample_schedule_ok
    by (subst encode_schedule_Inr [OF ref_schedule_lib_law])
      (simp_all add: sample_schedule_def ref_schedule_lib_def max_artifact_bytes_def)
qed

lemma sample_parses:
  "parse_schedule (ref_schedule_lib (schedule_json sample_schedule)) (ref_print (schedule_json sample_schedule)) = Inr sample_schedule"
  by (rule parse_encoded [OF ref_schedule_lib_law _ sample_encodes]) (simp add: sample_schedule_def)

theorem schedule_roundtrip_witness:
  "parse_schedule (ref_schedule_lib (schedule_json sample_schedule)) (ref_print (schedule_json sample_schedule)) = Inr sample_schedule"
  by (rule schedule_roundtrip [OF ref_schedule_lib_law _ sample_encodes]) (simp add: sample_schedule_def)

text \<open>The decoder is strict: a text it accepts is within the byte bound, its document repeats no key in
  any object and nests at most 32 containers, and the schedule has the profile, valid digests, at most 65536
  steps and valid names. (The parser reports the events of the document as it is written.)\<close>

theorem parse_schedule_strict:
  assumes "fst (sl_parse SL text) = events_of doc" "parse_schedule SL text = Inr s"
  shows "length text \<le> max_artifact_bytes \<and> keys_distinct doc \<and> nests 0 doc \<and> scheduling_profile s = profile
    \<and> identity_valid (sched_identity s) \<and> length (sched_steps s) \<le> 65536 \<and> list_all step_syntax (sched_steps s)"
proof -
  from assms(2) obtain j where len: "length text \<le> max_artifact_bytes" and j: "checked_parse SL text = Inr j"
    and s: "decode_schedule SL j = Inr s"
    by (cases "checked_parse SL text") (auto simp: parse_schedule_def split: if_splits sum.splits)
  from j obtain st where "run_callback ([], 0) (events_of doc) = Inr st"
    using assms(1) by (auto simp: checked_parse_def rbind_eq_Inr split: prod.splits)
  from run_callback_strict [OF this] have "keys_distinct doc \<and> nests 0 doc" by simp
  moreover have "length (sched_steps s) \<le> 65536"
    using s by (auto simp: decode_schedule_def rbind_eq_Inr schedule_checks_Inr rmapM_Inr_conv
        dest: list_all2_lengthD split: Json.splits if_splits)
  moreover have "schedule_checks s = Inr s"
    using s by (auto simp: decode_schedule_def rbind_eq_Inr schedule_checks_Inr split: if_splits)
  ultimately show ?thesis using len by (simp add: schedule_checks_Inr)
qed

theorem parse_schedule_strict_witness:
  "length (ref_print (schedule_json sample_schedule)) \<le> max_artifact_bytes \<and> keys_distinct (schedule_json sample_schedule)
    \<and> nests 0 (schedule_json sample_schedule) \<and> scheduling_profile sample_schedule = profile
    \<and> identity_valid (sched_identity sample_schedule) \<and> length (sched_steps sample_schedule) \<le> 65536
    \<and> list_all step_syntax (sched_steps sample_schedule)"
proof (rule parse_schedule_strict)
  show "fst (sl_parse (ref_schedule_lib (schedule_json sample_schedule)) (ref_print (schedule_json sample_schedule)))
      = events_of (schedule_json sample_schedule)"
    by (simp add: ref_schedule_lib_def)
  show "parse_schedule (ref_schedule_lib (schedule_json sample_schedule)) (ref_print (schedule_json sample_schedule)) = Inr sample_schedule"
    by (rule sample_parses)
qed

end
