(* ===== verification/Contract_Grammar.thy ===== *)
theory Contract_Grammar
  imports Error_Model Schedule_Format
begin

text \<open>
  The validators of inline model-interface contracts in \<^verbatim>\<open>src/model_interface.cpp\<close>: field checks, model types,
  canonical literals, path segments, actions and the contract itself. The node counter the C++ code passes by
  reference is threaded through the validators; a validator that fails ends the validation.

  The second half is the grammar they implement. \<open>ModelType\<close>, \<open>Literal\<close>, \<open>PathSegment\<close>, \<open>ContractAction\<close> and
  \<open>Contract\<close> are the abstract syntax, the \<open>_json\<close> functions write it as documents, and the \<open>_ok\<close> predicates
  are its side conditions. A document passes the validator exactly when it is the document of an admissible
  contract within the bounds.
\<close>

section \<open>Field checks\<close>

definition mi_error :: "string \<Rightarrow> string \<Rightarrow> Error" where
  "mi_error code message = make_error_code EK_model_interface message code"

text \<open>\<^verbatim>\<open>return unexpected(mi_error("negotiation_status_unexpected", text));\<close>\<close>

definition status_unexpected :: "string \<Rightarrow> 'a result" where
  "status_unexpected text = Inl (mi_error ''negotiation_status_unexpected'' text)"

definition in_quotes :: "string \<Rightarrow> string" where
  "in_quotes s = [CHR 0x27] @ s @ [CHR 0x27]"

definition exact_object :: "Json \<Rightarrow> string \<Rightarrow> string list \<Rightarrow> string list \<Rightarrow> unit result" where
  "exact_object value path allowed required = (case value of
     JObject kvs \<Rightarrow>
       (case find (\<lambda>k. k \<notin> set allowed) (map fst kvs) of
          Some key \<Rightarrow> status_unexpected (path @ '': unknown field '' @ in_quotes key)
        | None \<Rightarrow>
            (case find (\<lambda>k. jfind k value = None) required of
               Some key \<Rightarrow> status_unexpected (path @ '': missing required field '' @ in_quotes key)
             | None \<Rightarrow> Inr ()))
   | _ \<Rightarrow> status_unexpected (path @ '': object expected''))"

definition string_field :: "Json \<Rightarrow> string \<Rightarrow> string \<Rightarrow> string result" where
  "string_field object key path = (case jfind key object of
     Some (JString s) \<Rightarrow> Inr s
   | _ \<Rightarrow> status_unexpected (path @ ''.'' @ key @ '': string expected''))"

definition short_string :: "Json \<Rightarrow> string \<Rightarrow> unit result" where
  "short_string value path = (case value of
     JString s \<Rightarrow> (if length s > 256 then status_unexpected (path @ '': exceeds 256 UTF-8 bytes'') else Inr ())
   | _ \<Rightarrow> status_unexpected (path @ '': string expected''))"

section \<open>Model types\<close>

text \<open>The entries of a record or a variant: \<^verbatim>\<open>name\<close> and \<^verbatim>\<open>payload\<close> are the two field names, the state is the
  labels seen and the node counter, and \<open>validate\<close> is the recursive call.\<close>

definition validate_entry ::
  "string \<Rightarrow> string \<Rightarrow> string \<Rightarrow> (Json \<Rightarrow> nat \<Rightarrow> nat result) \<Rightarrow> Json \<Rightarrow> string list \<times> nat \<Rightarrow> (string list \<times> nat) result" where
  "validate_entry path name payload validate entry st =
     rbind (exact_object entry path [name, payload] [name, payload]) (\<lambda>_.
     rbind (short_string (field_at name entry) path) (\<lambda>_.
     rbind (string_field entry name path) (\<lambda>item.
     if item = [] \<or> item \<in> set (fst st) then status_unexpected (path @ '': duplicate or empty label'')
     else rbind (validate (field_at payload entry) (snd st)) (\<lambda>nodes. Inr (item # fst st, nodes)))))"

lemma validate_entry_cong [fundef_cong]:
  "entry = entry' \<Longrightarrow> st = st' \<Longrightarrow> (\<And>n. v (field_at payload entry') n = w (field_at payload entry') n)
    \<Longrightarrow> validate_entry path name payload v entry st = validate_entry path name payload w entry' st'"
  by (simp add: validate_entry_def cong: if_cong)

definition list_field :: "string \<Rightarrow> string" where
  "list_field kind = (if kind = ''record'' then ''fields'' else ''cases'')"

definition name_field :: "string \<Rightarrow> string" where
  "name_field kind = (if kind = ''record'' then ''wireName'' else ''tag'')"

definition payload_field :: "string \<Rightarrow> string" where
  "payload_field kind = (if kind = ''record'' then ''type'' else ''payload'')"

function validate_model_type :: "string \<Rightarrow> nat \<Rightarrow> Json \<Rightarrow> nat \<Rightarrow> nat result" where
  "validate_model_type path depth value nodes0 =
     (if depth \<ge> 32 then status_unexpected (path @ '': type depth exceeds 32'')
      else if nodes0 + 1 > 8192 then status_unexpected (path @ '': type nodes exceed 8192'')
      else case jfind ''kind'' value of
        Some (JString kind) \<Rightarrow>
          (let nodes = nodes0 + 1 in
           if kind \<in> {''int'', ''bool'', ''str'', ''null''} then
             rbind (exact_object value path [''kind''] [''kind'']) (\<lambda>_. Inr nodes)
           else if kind \<in> {''set'', ''seq''} then
             rbind (exact_object value path [''kind'', ''element''] [''kind'', ''element'']) (\<lambda>_.
             validate_model_type (path @ ''.element'') (depth + 1) (field_at ''element'' value) nodes)
           else if kind = ''tuple'' then
             rbind (exact_object value path [''kind'', ''elements''] [''kind'', ''elements'']) (\<lambda>_.
             case field_at ''elements'' value of
               JArray js \<Rightarrow> rfoldM (\<lambda>j n. validate_model_type (path @ ''.elements[]'') (depth + 1) j n) js nodes
             | _ \<Rightarrow> status_unexpected (path @ ''.elements: array expected''))
           else if kind \<in> {''record'', ''variant''} then
             rbind (exact_object value path [''kind'', list_field kind] [''kind'', list_field kind]) (\<lambda>_.
             case field_at (list_field kind) value of
               JArray entries \<Rightarrow>
                 rbind (rfoldM (\<lambda>entry st. validate_entry path (name_field kind) (payload_field kind)
                     (\<lambda>j n. validate_model_type path (depth + 1) j n) entry st) entries ([], nodes)) (\<lambda>(names, n). Inr n)
             | _ \<Rightarrow> status_unexpected (path @ '': array expected''))
           else if kind = ''map'' then
             rbind (exact_object value path [''kind'', ''key'', ''value''] [''kind'', ''key'', ''value'']) (\<lambda>_.
             rbind (validate_model_type path (depth + 1) (field_at ''key'' value) nodes) (\<lambda>n.
             validate_model_type path (depth + 1) (field_at ''value'' value) n))
           else if kind = ''opaqueItf'' then
             rbind (exact_object value path [''kind'', ''description''] [''kind'', ''description'']) (\<lambda>_.
             rbind (short_string (field_at ''description'' value) path) (\<lambda>_. Inr nodes))
           else status_unexpected (path @ '': unknown model type '' @ kind))
      | _ \<Rightarrow> status_unexpected (path @ '': tagged model type expected''))"
  by pat_completeness auto
termination by (relation "measure (\<lambda>(path, depth, value, nodes). 32 - depth)") auto

declare validate_model_type.simps [simp del]

section \<open>Canonical literals and paths\<close>

function validate_literal :: "string \<Rightarrow> nat \<Rightarrow> Json \<Rightarrow> unit result" where
  "validate_literal path depth value =
     (if depth \<ge> 128 then status_unexpected (path @ '': literal depth exceeds 128'')
      else if \<not> is_object value then status_unexpected (path @ '': canonical literal expected'')
      else rbind (string_field value ''kind'' path) (\<lambda>kind.
        if kind = ''null'' then exact_object value path [''kind''] [''kind'']
        else if kind \<in> {''int'', ''bool'', ''str''} then
          rbind (exact_object value path [''kind'', ''value''] [''kind'', ''value'']) (\<lambda>_.
          if kind = ''bool'' then
            (case field_at ''value'' value of JBool _ \<Rightarrow> Inr () | _ \<Rightarrow> status_unexpected (path @ '': Boolean expected''))
          else rbind (string_field value ''value'' path) (\<lambda>text.
            if kind = ''str'' then Inr ()
            else if decimal_syntax text then Inr ()
            else status_unexpected (path @ '': decimal integer string expected'')))
        else if kind \<in> {''set'', ''seq'', ''tuple''} then
          rbind (exact_object value path [''kind'', ''values''] [''kind'', ''values'']) (\<lambda>_.
          case field_at ''values'' value of
            JArray items \<Rightarrow> rfoldM (\<lambda>item u. validate_literal path (depth + 1) item) items ()
          | _ \<Rightarrow> status_unexpected (path @ '': literal values array expected''))
        else if kind = ''record'' then
          rbind (exact_object value path [''kind'', ''fields''] [''kind'', ''fields'']) (\<lambda>_.
          case field_at ''fields'' value of
            JArray entries \<Rightarrow> rfoldM (\<lambda>entry u.
              rbind (exact_object entry path [''name'', ''value''] [''name'', ''value'']) (\<lambda>_.
              rbind (string_field entry ''name'' path) (\<lambda>_.
              validate_literal path (depth + 1) (field_at ''value'' entry)))) entries ()
          | _ \<Rightarrow> status_unexpected (path @ '': literal entries array expected''))
        else if kind = ''map'' then
          rbind (exact_object value path [''kind'', ''entries''] [''kind'', ''entries'']) (\<lambda>_.
          case field_at ''entries'' value of
            JArray entries \<Rightarrow> rfoldM (\<lambda>entry u.
              rbind (exact_object entry path [''key'', ''value''] [''key'', ''value'']) (\<lambda>_.
              rbind (validate_literal path (depth + 1) (field_at ''key'' entry)) (\<lambda>_.
              validate_literal path (depth + 1) (field_at ''value'' entry)))) entries ()
          | _ \<Rightarrow> status_unexpected (path @ '': literal entries array expected''))
        else if kind = ''variant'' then
          rbind (exact_object value path [''kind'', ''tag'', ''payload''] [''kind'', ''tag'', ''payload'']) (\<lambda>_.
          rbind (string_field value ''tag'' path) (\<lambda>_.
          validate_literal path (depth + 1) (field_at ''payload'' value)))
        else status_unexpected (path @ '': unknown canonical literal '' @ kind)))"
  by pat_completeness auto
termination by (relation "measure (\<lambda>(path, depth, value). 128 - depth)") auto

declare validate_literal.simps [simp del]

text \<open>\<^verbatim>\<open>is_number_unsigned() || (is_number_integer() && get<long long>() >= 0)\<close>.\<close>

definition nonnegative_integer :: "Json \<Rightarrow> bool" where
  "nonnegative_integer j = (case j of JUnsigned _ \<Rightarrow> True | JInteger w \<Rightarrow> 0 \<le> sint w | _ \<Rightarrow> False)"

definition validate_path_segment :: "string \<Rightarrow> Json \<Rightarrow> unit result" where
  "validate_path_segment path value = (case value of
     JObject [(key, payload)] \<Rightarrow>
       (if key = ''field'' \<or> key = ''variantValue'' then short_string payload path
        else if key = ''index'' then
          (if nonnegative_integer payload then Inr () else status_unexpected (path @ '': nonnegative index expected''))
        else if key = ''mapKey'' then validate_literal path 0 payload
        else status_unexpected (path @ '': unknown path selector''))
   | _ \<Rightarrow> status_unexpected (path @ '': exactly one selector required''))"

section \<open>Actions and contracts\<close>

text \<open>The array held by a field, checked before its bound.\<close>

definition bounded_array :: "nat \<Rightarrow> Json \<Rightarrow> bool" where
  "bounded_array n j = (case j of JArray js \<Rightarrow> length js \<le> n | _ \<Rightarrow> False)"

definition array_items :: "Json \<Rightarrow> Json list" where
  "array_items j = (case j of JArray js \<Rightarrow> js | _ \<Rightarrow> [])"

text \<open>\<^verbatim>\<open>if (x.contains("expectedType") && !x.at("expectedType").is_null()) ...\<close>\<close>

definition validate_expected_type :: "string \<Rightarrow> Json \<Rightarrow> nat \<Rightarrow> nat result" where
  "validate_expected_type path j nodes = (case jfind ''expectedType'' j of
     None \<Rightarrow> Inr nodes
   | Some t \<Rightarrow> if is_null t then Inr nodes else validate_model_type path 0 t nodes)"

definition validate_input :: "string \<Rightarrow> Json \<Rightarrow> nat \<Rightarrow> nat result" where
  "validate_input path input nodes =
     rbind (exact_object input path [''id'', ''from'', ''expectedType''] [''id'', ''from'']) (\<lambda>_.
     rbind (short_string (field_at ''id'' input) path) (\<lambda>_.
     let from = field_at ''from'' input in
     rbind (exact_object from path [''root'', ''path''] [''root'', ''path'']) (\<lambda>_.
     rbind (case string_field from ''root'' path of
              Inr root \<Rightarrow> if root = ''initialState'' \<or> root = ''stepParameters'' then Inr ()
                         else status_unexpected (path @ '': invalid path root'')
            | Inl _ \<Rightarrow> status_unexpected (path @ '': invalid path root'')) (\<lambda>_.
     if \<not> bounded_array 32 (field_at ''path'' from) then status_unexpected (path @ '': path limit exceeded'')
     else rbind (rfoldM (\<lambda>seg u. validate_path_segment path seg) (array_items (field_at ''path'' from)) ()) (\<lambda>_.
          validate_expected_type path input nodes)))))"

definition validate_contract_action :: "string \<Rightarrow> Json \<Rightarrow> nat \<Rightarrow> nat result" where
  "validate_contract_action path value nodes =
     rbind (exact_object value path [''id'', ''wireAction'', ''wireAliases'', ''inputs'']
       [''id'', ''wireAction'', ''wireAliases'', ''inputs'']) (\<lambda>_.
     rbind (short_string (field_at ''id'' value) path) (\<lambda>_.
     rbind (short_string (field_at ''wireAction'' value) path) (\<lambda>_.
     if \<not> bounded_array 16 (field_at ''wireAliases'' value) \<or> \<not> bounded_array 128 (field_at ''inputs'' value)
     then status_unexpected (path @ '': action resource limit exceeded'')
     else rbind (rfoldM (\<lambda>a u. short_string a path) (array_items (field_at ''wireAliases'' value)) ()) (\<lambda>_.
          rfoldM (validate_input path) (array_items (field_at ''inputs'' value)) nodes))))"

definition validate_observation :: "string \<Rightarrow> Json \<Rightarrow> nat \<Rightarrow> nat result" where
  "validate_observation path observation nodes =
     rbind (exact_object observation path [''id'', ''wireName'', ''provenance'', ''expectedType'']
       [''id'', ''wireName'', ''provenance'']) (\<lambda>_.
     rbind (short_string (field_at ''id'' observation) path) (\<lambda>_.
     rbind (short_string (field_at ''wireName'' observation) path) (\<lambda>_.
     rbind (case string_field observation ''provenance'' path of
              Inr p \<Rightarrow> if p = ''implementation'' \<or> p = ''oracle'' \<or> p = ''derived'' then Inr ()
                      else status_unexpected ''invalid observation provenance''
            | Inl _ \<Rightarrow> status_unexpected ''invalid observation provenance'') (\<lambda>_.
     validate_expected_type path observation nodes))))"

definition model_interface_contract_schema :: string where
  "model_interface_contract_schema = ''mirrors.model-interface/v1''"

definition contract_path :: string where
  "contract_path = ''modelInterface.contract.inline''"

definition contract_fields :: "string list" where
  "contract_fields = [''schema'', ''interfaceVersion'', ''model'', ''wire'', ''initializers'', ''actions'', ''observations'']"

definition validate_contract_header :: "Json \<Rightarrow> unit result" where
  "validate_contract_header value =
     rbind (case string_field value ''schema'' contract_path of
              Inr s \<Rightarrow> if s = model_interface_contract_schema then Inr ()
                      else status_unexpected ''modelInterface contract schema is unsupported''
            | Inl _ \<Rightarrow> status_unexpected ''modelInterface contract schema is unsupported'') (\<lambda>_.
     rbind (short_string (field_at ''interfaceVersion'' value) contract_path) (\<lambda>_.
     let model = field_at ''model'' value; wire = field_at ''wire'' value in
     rbind (exact_object model contract_path [''module'', ''source''] [''module'', ''source'']) (\<lambda>_.
     rbind (short_string (field_at ''module'' model) contract_path) (\<lambda>_.
     rbind (short_string (field_at ''source'' model) contract_path) (\<lambda>_.
     rbind (exact_object wire contract_path [''actionVariable'', ''parameterVariable''] [''actionVariable'', ''parameterVariable'']) (\<lambda>_.
     rbind (short_string (field_at ''actionVariable'' wire) contract_path) (\<lambda>_.
     if is_null (field_at ''parameterVariable'' wire) then Inr ()
     else short_string (field_at ''parameterVariable'' wire) contract_path)))))))"

definition validate_contract :: "Json \<Rightarrow> unit result" where
  "validate_contract value =
     rbind (exact_object value contract_path contract_fields contract_fields) (\<lambda>_.
     rbind (validate_contract_header value) (\<lambda>_.
     if \<not> bounded_array 32 (field_at ''initializers'' value) \<or> \<not> bounded_array 256 (field_at ''actions'' value)
       \<or> \<not> bounded_array 1024 (field_at ''observations'' value)
     then status_unexpected ''modelInterface contract resource limit exceeded''
     else rbind (rfoldM (validate_contract_action contract_path) (array_items (field_at ''initializers'' value)) 0) (\<lambda>n1.
          rbind (rfoldM (validate_contract_action contract_path) (array_items (field_at ''actions'' value)) n1) (\<lambda>n2.
          rbind (rfoldM (validate_observation contract_path) (array_items (field_at ''observations'' value)) n2) (\<lambda>_.
          Inr ())))))"

section \<open>Facts about documents and folds\<close>

lemma fst_set_om_build [simp]: "fst ` set (om_build kvs) = fst ` set kvs"
proof -
  have "dom (map_of (om_build kvs)) = dom (map_of (rev kvs))" by (simp add: map_of_om_build)
  then show ?thesis by (simp add: dom_map_of_conv_image_fst)
qed

lemma case_find_iff:
  "(case find P xs of Some k \<Rightarrow> status_unexpected (f k) | None \<Rightarrow> r) = Inr u \<longleftrightarrow> (\<forall>x \<in> set xs. \<not> P x) \<and> r = Inr u"
proof (cases "find P xs")
  case (Some k)
  then have "\<not> (\<forall>x \<in> set xs. \<not> P x)" using find_None_iff [of P xs] by auto
  with Some show ?thesis by (simp add: status_unexpected_def)
next
  case None
  moreover from this have "\<forall>x \<in> set xs. \<not> P x" by (simp add: find_None_iff)
  ultimately show ?thesis by simp
qed

lemma exact_object_iff:
  "exact_object j path allowed required = Inr u \<longleftrightarrow>
    (\<exists>kvs. j = JObject kvs \<and> fst ` set kvs \<subseteq> set allowed \<and> set required \<subseteq> fst ` set kvs)"
proof (cases j)
  case (JObject kvs)
  then show ?thesis by (auto simp: exact_object_def case_find_iff jfind_def map_of_eq_None_iff)
qed (simp_all add: exact_object_def status_unexpected_def)

lemma exact_object_jobject [simp]:
  "exact_object (jobject kvs) path allowed required = Inr u \<longleftrightarrow> fst ` set kvs \<subseteq> set allowed \<and> set required \<subseteq> fst ` set kvs"
  by (simp add: exact_object_iff jobject_def)

lemma field_at_jobject [simp]: "field_at k (jobject kvs) = (case map_of (rev kvs) k of Some x \<Rightarrow> x | None \<Rightarrow> JNull)"
  by (simp add: field_at_def)

lemma json_wf_jfind: "json_wf j \<Longrightarrow> jfind k j = Some x \<Longrightarrow> json_wf x"
  by (cases j) (auto simp: jfind_def list_all_iff dest!: map_of_SomeD)

lemma json_wf_field_at: "json_wf j \<Longrightarrow> json_wf (field_at k j)"
  using json_wf_jfind [of j k] by (auto simp: field_at_def split: option.split)

lemma map_of_rev_pairs: "map_of (rev (map (\<lambda>k. (k, f k)) ks)) k = (if k \<in> set ks then Some (f k) else None)"
  by (induction ks) (auto simp: map_add_def split: option.split)

lemma jobject_cong:
  assumes "json_wf j" "j = JObject kvs" "\<And>k. map_of (rev fs) k = jfind k j"
  shows "j = jobject fs"
  using assms om_ext [of kvs "om_build fs"] by (auto simp: jobject_def map_of_om_build jfind_def fun_eq_iff)

text \<open>An object with exactly the fields \<open>ks\<close> is the object of those fields.\<close>

lemma exact_object_fields:
  assumes "json_wf j" "exact_object j path ks ks = Inr u"
  shows "j = jobject (map (\<lambda>k. (k, field_at k j)) ks)"
proof -
  from assms(2) obtain kvs where j: "j = JObject kvs" "fst ` set kvs = set ks" by (auto simp: exact_object_iff)
  have "map_of kvs k = (if k \<in> set ks then Some (field_at k j) else None)" for k
    using j by (auto simp: field_at_def jfind_def map_of_eq_None_iff split: option.split)
  with j show ?thesis by (intro jobject_cong [OF assms(1) j(1)]) (simp add: map_of_rev_pairs jfind_def)
qed

lemma string_field_iff: "string_field j k path = Inr s \<longleftrightarrow> jfind k j = Some (JString s)"
  by (auto simp: string_field_def status_unexpected_def split: option.splits Json.splits)

lemma short_string_iff: "short_string j path = Inr u \<longleftrightarrow> (\<exists>s. j = JString s \<and> length s \<le> 256)"
  by (cases j) (auto simp: short_string_def status_unexpected_def)

lemma field_at_jfind: "jfind k j = Some x \<Longrightarrow> field_at k j = x"
  by (simp add: field_at_def)

text \<open>A loop that threads a counter, each round adding what it has read of an item: soundness collects what
  was read, completeness runs over it.\<close>

lemma rfoldM_counted:
  assumes "rfoldM f xs n = Inr m" "n \<le> bound"
    and "\<And>x n m. x \<in> set xs \<Longrightarrow> n \<le> bound \<Longrightarrow> f x n = Inr m \<Longrightarrow> \<exists>y. x = g y \<and> R y \<and> m = n + w y \<and> m \<le> (bound :: nat)"
  shows "\<exists>ys. xs = map g ys \<and> list_all R ys \<and> m = n + sum_list (map w ys) \<and> m \<le> bound"
  using assms
proof (induction xs arbitrary: n)
  case (Cons x xs)
  from Cons.prems(1) obtain k where k: "f x n = Inr k" "rfoldM f xs k = Inr m" by (auto simp: result_splits)
  from Cons.prems(3) [OF _ Cons.prems(2) k(1)] obtain y where y: "x = g y" "R y" "k = n + w y" "k \<le> bound" by auto
  from Cons.IH [OF k(2) y(4)] Cons.prems(3) obtain ys where
    "xs = map g ys" "list_all R ys" "m = k + sum_list (map w ys)" "m \<le> bound" by auto
  with y have "x # xs = map g (y # ys) \<and> list_all R (y # ys) \<and> m = n + sum_list (map w (y # ys)) \<and> m \<le> bound" by simp
  then show ?case by (rule exI)
qed simp

lemma rfoldM_count:
  assumes "\<And>y n. y \<in> set ys \<Longrightarrow> n + w y \<le> bound \<Longrightarrow> f (g y) n = Inr (n + w y)" "n + sum_list (map w ys) \<le> (bound :: nat)"
  shows "rfoldM f (map g ys) n = Inr (n + sum_list (map w ys))"
  using assms by (induction ys arbitrary: n) (simp_all add: add.assoc)

lemma rfoldM_checked:
  "rfoldM (\<lambda>x u. f x) xs () = Inr u \<longleftrightarrow> (\<forall>x \<in> set xs. f x = Inr ())"
proof (induction xs)
  case (Cons x xs)
  then show ?case by (cases "f x") simp_all
qed simp

lemma list_all_range:
  "list_all (\<lambda>x. \<exists>y. x = g y \<and> R y) xs \<longleftrightarrow> (\<exists>ys. xs = map g ys \<and> list_all R ys)"
proof (induction xs)
  case (Cons x xs)
  show ?case
  proof
    assume "list_all (\<lambda>x. \<exists>y. x = g y \<and> R y) (x # xs)"
    with Cons.IH obtain y ys where "x = g y" "R y" "xs = map g ys" "list_all R ys" by auto
    then have "x # xs = map g (y # ys) \<and> list_all R (y # ys)" by simp
    then show "\<exists>ys. x # xs = map g ys \<and> list_all R ys" by (rule exI)
  qed (use Cons.IH in \<open>auto simp: Cons_eq_map_conv\<close>)
qed simp

section \<open>The grammar of model types\<close>

datatype ModelType =
    IntType | BoolType | StrType | NullType
  | SetType ModelType | SeqType ModelType | TupleType "ModelType list"
  | RecordType "(string \<times> ModelType) list" | VariantType "(string \<times> ModelType) list"
  | MapType ModelType ModelType | OpaqueItf string

definition kinded :: "string \<Rightarrow> (string \<times> Json) list \<Rightarrow> Json" where
  "kinded kind kvs = jobject ((''kind'', JString kind) # kvs)"

definition entry_json :: "string \<Rightarrow> string \<Rightarrow> ('a \<Rightarrow> Json) \<Rightarrow> string \<times> 'a \<Rightarrow> Json" where
  "entry_json name payload f e = jobject [(name, JString (fst e)), (payload, f (snd e))]"

lemma entry_json_cong [fundef_cong]:
  "e = e' \<Longrightarrow> f (snd e') = g (snd e') \<Longrightarrow> entry_json name payload f e = entry_json name payload g e'"
  by (simp add: entry_json_def)

fun type_json :: "ModelType \<Rightarrow> Json" where
  "type_json IntType = kinded ''int'' []"
| "type_json BoolType = kinded ''bool'' []"
| "type_json StrType = kinded ''str'' []"
| "type_json NullType = kinded ''null'' []"
| "type_json (SetType t) = kinded ''set'' [(''element'', type_json t)]"
| "type_json (SeqType t) = kinded ''seq'' [(''element'', type_json t)]"
| "type_json (TupleType ts) = kinded ''tuple'' [(''elements'', JArray (map type_json ts))]"
| "type_json (RecordType fs) = kinded ''record'' [(''fields'', JArray (map (entry_json ''wireName'' ''type'' type_json) fs))]"
| "type_json (VariantType cs) = kinded ''variant'' [(''cases'', JArray (map (entry_json ''tag'' ''payload'' type_json) cs))]"
| "type_json (MapType k v) = kinded ''map'' [(''key'', type_json k), (''value'', type_json v)]"
| "type_json (OpaqueItf d) = kinded ''opaqueItf'' [(''description'', JString d)]"

definition max_of :: "nat list \<Rightarrow> nat" where
  "max_of ns = foldr max ns 0"

lemma max_of_le: "max_of ns \<le> k \<longleftrightarrow> (\<forall>n \<in> set ns. n \<le> k)"
  by (induction ns) (auto simp: max_of_def)

fun type_height :: "ModelType \<Rightarrow> nat" where
  "type_height (SetType t) = type_height t + 1"
| "type_height (SeqType t) = type_height t + 1"
| "type_height (TupleType ts) = max_of (map type_height ts) + 1"
| "type_height (RecordType fs) = max_of (map (\<lambda>f. type_height (snd f)) fs) + 1"
| "type_height (VariantType fs) = max_of (map (\<lambda>f. type_height (snd f)) fs) + 1"
| "type_height (MapType k v) = max (type_height k) (type_height v) + 1"
| "type_height t = 1"

fun type_nodes :: "ModelType \<Rightarrow> nat" where
  "type_nodes (SetType t) = type_nodes t + 1"
| "type_nodes (SeqType t) = type_nodes t + 1"
| "type_nodes (TupleType ts) = sum_list (map type_nodes ts) + 1"
| "type_nodes (RecordType fs) = sum_list (map (\<lambda>f. type_nodes (snd f)) fs) + 1"
| "type_nodes (VariantType fs) = sum_list (map (\<lambda>f. type_nodes (snd f)) fs) + 1"
| "type_nodes (MapType k v) = type_nodes k + type_nodes v + 1"
| "type_nodes t = 1"

definition labels_ok :: "string list \<Rightarrow> bool" where
  "labels_ok ls = (distinct ls \<and> list_all (\<lambda>l. l \<noteq> [] \<and> length l \<le> 256) ls)"

fun type_ok :: "ModelType \<Rightarrow> bool" where
  "type_ok (SetType t) = type_ok t"
| "type_ok (SeqType t) = type_ok t"
| "type_ok (TupleType ts) = list_all type_ok ts"
| "type_ok (RecordType fs) = (labels_ok (map fst fs) \<and> list_all (\<lambda>f. type_ok (snd f)) fs)"
| "type_ok (VariantType fs) = (labels_ok (map fst fs) \<and> list_all (\<lambda>f. type_ok (snd f)) fs)"
| "type_ok (MapType k v) = (type_ok k \<and> type_ok v)"
| "type_ok (OpaqueItf d) = (length d \<le> 256)"
| "type_ok t = True"

lemma jfind_kind [simp]: "''kind'' \<notin> fst ` set kvs \<Longrightarrow> jfind ''kind'' (kinded k kvs) = Some (JString k)"
  by (simp add: kinded_def map_add_def map_of_eq_None_iff [THEN iffD2] image_iff split: option.split)

lemma labels_ok_simps [simp]:
  "labels_ok []" "labels_ok (l # ls) \<longleftrightarrow> l \<notin> set ls \<and> l \<noteq> [] \<and> length l \<le> 256 \<and> labels_ok ls"
  by (auto simp: labels_ok_def)

subsection \<open>Soundness\<close>

text \<open>\<open>reads v R\<close>: a validator \<open>v\<close> accepts only the documents of types that satisfy \<open>R\<close>, counting their nodes.\<close>

definition reads :: "(Json \<Rightarrow> nat \<Rightarrow> nat result) \<Rightarrow> (ModelType \<Rightarrow> bool) \<Rightarrow> bool" where
  "reads v R = (\<forall>j n m. json_wf j \<longrightarrow> v j n = Inr m \<longrightarrow>
     (\<exists>t. j = type_json t \<and> R t \<and> m = n + type_nodes t \<and> m \<le> 8192))"

lemma readsD:
  "reads v R \<Longrightarrow> json_wf j \<Longrightarrow> v j n = Inr m \<Longrightarrow> \<exists>t. j = type_json t \<and> R t \<and> m = n + type_nodes t \<and> m \<le> 8192"
  by (simp add: reads_def)

lemma validate_entry_sound:
  assumes "reads v R" "json_wf e" "name \<noteq> payload" "validate_entry path name payload v e (names, n) = Inr (names', m)"
  shows "\<exists>l t. e = entry_json name payload type_json (l, t) \<and> R t \<and> m = n + type_nodes t \<and> m \<le> 8192
    \<and> l \<noteq> [] \<and> length l \<le> 256 \<and> l \<notin> set names \<and> names' = l # names"
proof -
  from assms(4) obtain l where exact: "exact_object e path [name, payload] [name, payload] = Inr ()"
    and l: "length l \<le> 256" "jfind name e = Some (JString l)" "l \<noteq> []" "l \<notin> set names" "names' = l # names"
    and v: "v (field_at payload e) n = Inr m"
    by (auto simp: validate_entry_def result_splits status_unexpected_def short_string_iff string_field_iff field_at_def
        split: if_splits)
  from readsD [OF assms(1) json_wf_field_at [OF assms(2)] v] obtain t where
    t: "field_at payload e = type_json t" "R t" "m = n + type_nodes t" "m \<le> 8192" by blast
  have "e = entry_json name payload type_json (l, t)"
    using exact_object_fields [OF assms(2) exact] t(1) field_at_jfind [OF l(2)] by (simp add: entry_json_def)
  with t l show ?thesis by blast
qed

lemma validate_entries_sound:
  assumes "reads v R" "list_all json_wf es" "name \<noteq> payload" "n \<le> 8192"
    and "rfoldM (validate_entry path name payload v) es (names, n) = Inr (names', m)"
  shows "\<exists>fs. es = map (entry_json name payload type_json) fs \<and> list_all (\<lambda>f. R (snd f)) fs
    \<and> labels_ok (map fst fs) \<and> set names \<inter> fst ` set fs = {}
    \<and> m = n + sum_list (map (\<lambda>f. type_nodes (snd f)) fs) \<and> m \<le> 8192"
  using assms(2-)
proof (induction es arbitrary: names n)
  case Nil
  then show ?case by (intro exI [of _ "[]"]) simp
next
  case (Cons e es)
  from Cons.prems(4) obtain ns k where step: "validate_entry path name payload v e (names, n) = Inr (ns, k)"
    and rest: "rfoldM (validate_entry path name payload v) es (ns, k) = Inr (names', m)" by (auto simp: result_splits)
  have "json_wf e" "list_all json_wf es" using Cons.prems(1) by simp_all
  with validate_entry_sound [OF assms(1) _ Cons.prems(2) step] obtain l t where
    e: "e = entry_json name payload type_json (l, t)" "R t" "k = n + type_nodes t" "k \<le> 8192"
      "l \<noteq> []" "length l \<le> 256" "l \<notin> set names" "ns = l # names" by blast
  from Cons.IH [OF \<open>list_all json_wf es\<close> Cons.prems(2) e(4) rest] obtain fs where
    fs: "es = map (entry_json name payload type_json) fs" "list_all (\<lambda>f. R (snd f)) fs" "labels_ok (map fst fs)"
      "set ns \<inter> fst ` set fs = {}" "m = k + sum_list (map (\<lambda>f. type_nodes (snd f)) fs)" "m \<le> 8192" by blast
  from e fs show ?case by (intro exI [of _ "(l, t) # fs"]) auto
qed

lemma kinded_fields:
  assumes "json_wf j" "jfind ''kind'' j = Some (JString kind)" "exact_object j path (''kind'' # ks) (''kind'' # ks) = Inr u"
  shows "j = kinded kind (map (\<lambda>k. (k, field_at k j)) ks)"
  using exact_object_fields [OF assms(1,3)] field_at_jfind [OF assms(2)] by (simp add: kinded_def)

lemma wf_array_field: "json_wf j \<Longrightarrow> field_at k j = JArray js \<Longrightarrow> list_all json_wf js"
  using json_wf_field_at [of j k] by simp

text \<open>The kinds a document can have, by what the validator does with each.\<close>

lemma validate_untagged:
  assumes "d < 32 \<Longrightarrow> n < 8192 \<Longrightarrow> \<nexists>kind. jfind ''kind'' j = Some (JString kind)"
  shows "\<exists>e. validate_model_type path d j n = Inl e"
proof (cases "d < 32 \<and> n < 8192")
  case True
  then have "\<And>kind. jfind ''kind'' j \<noteq> Some (JString kind)" using assms by blast
  with True show ?thesis
    by (subst validate_model_type.simps) (simp add: status_unexpected_def split: option.split Json.split)
next
  case False
  then consider "32 \<le> d" | "8192 \<le> n" by linarith
  then show ?thesis by cases (subst validate_model_type.simps, simp add: status_unexpected_def)+
qed

lemma validate_unknown:
  assumes "jfind ''kind'' j = Some (JString kind)" "kind \<notin> {''int'', ''bool'', ''str'', ''null''}" "kind \<notin> {''set'', ''seq''}"
    "kind \<noteq> ''tuple''" "kind \<notin> {''record'', ''variant''}" "kind \<noteq> ''map''" "kind \<noteq> ''opaqueItf''"
  shows "\<exists>e. validate_model_type path d j n = Inl e"
  by (subst validate_model_type.simps) (simp add: assms Let_def status_unexpected_def del: insert_iff)

lemma validate_kind:
  assumes "validate_model_type path d j n = Inr m"
  obtains kind where "d < 32" "n < 8192" "jfind ''kind'' j = Some (JString kind)"
    "kind \<in> {''int'', ''bool'', ''str'', ''null''} \<or> kind \<in> {''set'', ''seq''} \<or> kind = ''tuple''
      \<or> kind \<in> {''record'', ''variant''} \<or> kind = ''map'' \<or> kind = ''opaqueItf''"
  using assms validate_untagged [of d n j path] validate_unknown [of j _ path d n] by (metis Inl_Inr_False)

text \<open>One round of the validator on a document of a known kind.\<close>

lemma validate_atom:
  assumes "jfind ''kind'' j = Some (JString kind)" "kind \<in> {''int'', ''bool'', ''str'', ''null''}" "d < 32" "n < 8192"
  shows "validate_model_type path d j n = rbind (exact_object j path [''kind''] [''kind'']) (\<lambda>_. Inr (n + 1))"
proof -
  from assms(2) consider "kind = ''int''" | "kind = ''bool''" | "kind = ''str''" | "kind = ''null''" by blast
  then show ?thesis using assms(3,4)
    by cases (subst validate_model_type.simps, simp add: assms(1) Let_def del: One_nat_def)+
qed

lemma validate_collection:
  assumes "jfind ''kind'' j = Some (JString kind)" "kind \<in> {''set'', ''seq''}" "d < 32" "n < 8192"
  shows "validate_model_type path d j n = rbind (exact_object j path [''kind'', ''element''] [''kind'', ''element'']) (\<lambda>_.
    validate_model_type (path @ ''.element'') (d + 1) (field_at ''element'' j) (n + 1))"
proof -
  from assms(2) consider "kind = ''set''" | "kind = ''seq''" by blast
  then show ?thesis using assms(3,4)
    by cases (subst validate_model_type.simps, simp add: assms(1) Let_def del: One_nat_def)+
qed

lemma validate_tuple:
  assumes "jfind ''kind'' j = Some (JString ''tuple'')" "d < 32" "n < 8192"
  shows "validate_model_type path d j n = rbind (exact_object j path [''kind'', ''elements''] [''kind'', ''elements'']) (\<lambda>_.
    case field_at ''elements'' j of
      JArray js \<Rightarrow> rfoldM (validate_model_type (path @ ''.elements[]'') (d + 1)) js (n + 1)
    | _ \<Rightarrow> status_unexpected (path @ ''.elements: array expected''))"
  using assms(2,3) by (subst validate_model_type.simps) (simp add: assms(1) Let_def del: One_nat_def)

lemma validate_labelled:
  assumes "jfind ''kind'' j = Some (JString kind)" "kind \<in> {''record'', ''variant''}" "d < 32" "n < 8192"
  shows "validate_model_type path d j n =
    rbind (exact_object j path [''kind'', list_field kind] [''kind'', list_field kind]) (\<lambda>_.
    case field_at (list_field kind) j of
      JArray es \<Rightarrow> rbind (rfoldM (validate_entry path (name_field kind) (payload_field kind)
          (validate_model_type path (d + 1))) es ([], n + 1)) (\<lambda>(names, n). Inr n)
    | _ \<Rightarrow> status_unexpected (path @ '': array expected''))"
proof -
  have "kind \<notin> {''int'', ''bool'', ''str'', ''null''}" "kind \<notin> {''set'', ''seq''}" "kind \<noteq> ''tuple''" using assms(2) by auto
  with assms(2-4) show ?thesis
    by (subst validate_model_type.simps) (simp add: assms(1) Let_def del: One_nat_def insert_iff)
qed

lemma validate_map:
  assumes "jfind ''kind'' j = Some (JString ''map'')" "d < 32" "n < 8192"
  shows "validate_model_type path d j n =
    rbind (exact_object j path [''kind'', ''key'', ''value''] [''kind'', ''key'', ''value'']) (\<lambda>_.
    rbind (validate_model_type path (d + 1) (field_at ''key'' j) (n + 1)) (\<lambda>n.
    validate_model_type path (d + 1) (field_at ''value'' j) n))"
  using assms(2,3) by (subst validate_model_type.simps) (simp add: assms(1) Let_def del: One_nat_def)

lemma validate_opaque:
  assumes "jfind ''kind'' j = Some (JString ''opaqueItf'')" "d < 32" "n < 8192"
  shows "validate_model_type path d j n =
    rbind (exact_object j path [''kind'', ''description''] [''kind'', ''description'']) (\<lambda>_.
    rbind (short_string (field_at ''description'' j) path) (\<lambda>_. Inr (n + 1)))"
  using assms(2,3) by (subst validate_model_type.simps) (simp add: assms(1) Let_def del: One_nat_def)

text \<open>What the validator accepts: types of at most 32 levels, counted from the depth it is called at.\<close>

definition fits :: "nat \<Rightarrow> ModelType \<Rightarrow> bool" where
  "fits d t = (type_ok t \<and> d + type_height t \<le> 32)"

definition counted_type :: "nat \<Rightarrow> Json \<Rightarrow> nat \<Rightarrow> nat \<Rightarrow> bool" where
  "counted_type d j n m = (\<exists>t. j = type_json t \<and> fits d t \<and> m = n + type_nodes t \<and> m \<le> 8192)"

lemma reads_fits: "reads v (fits d) \<longleftrightarrow> (\<forall>j n m. json_wf j \<longrightarrow> v j n = Inr m \<longrightarrow> counted_type d j n m)"
  by (simp add: reads_def counted_type_def)

lemma counted_typeI: "j = type_json t \<Longrightarrow> fits d t \<Longrightarrow> m = n + type_nodes t \<Longrightarrow> m \<le> 8192 \<Longrightarrow> counted_type d j n m"
  by (auto simp: counted_type_def)

text \<open>A successful round on a document of the given kind, with the calls one level deeper known to be sound.\<close>

definition type_round :: "string \<Rightarrow> nat \<Rightarrow> Json \<Rightarrow> nat \<Rightarrow> nat \<Rightarrow> string \<Rightarrow> bool" where
  "type_round path d j n m kind = (json_wf j \<and> d < 32 \<and> n < 8192 \<and> jfind ''kind'' j = Some (JString kind)
     \<and> validate_model_type path d j n = Inr m \<and> (\<forall>path. reads (validate_model_type path (d + 1)) (fits (d + 1))))"

lemma type_roundD:
  assumes "type_round path d j n m kind"
  shows "json_wf j" "d < 32" "n < 8192" "jfind ''kind'' j = Some (JString kind)" "validate_model_type path d j n = Inr m"
    "reads (validate_model_type path' (d + 1)) (fits (d + 1))"
  using assms by (simp_all add: type_round_def)

lemma atom_sound:
  assumes "type_round path d j n m kind" and k: "kind \<in> {''int'', ''bool'', ''str'', ''null''}"
  shows "counted_type d j n m"
proof -
  note round = type_roundD [OF assms(1)]
  note wf = round(1) and d = round(2) and n = round(3) and kind = round(4) and run = round(5) and deeper = round(6)
  then have "j = kinded kind []" "m = n + 1"
    using run kinded_fields [OF wf kind, of path "[]"] by (auto simp: validate_atom [OF kind k d n] result_splits)
  with k d n show ?thesis
    by (elim insertE emptyE) (auto simp: fits_def intro: counted_typeI [of _ IntType] counted_typeI [of _ BoolType]
        counted_typeI [of _ StrType] counted_typeI [of _ NullType])
qed

lemma collection_sound:
  assumes "type_round path d j n m kind" and k: "kind \<in> {''set'', ''seq''}"
  shows "counted_type d j n m"
proof -
  note round = type_roundD [OF assms(1)]
  note wf = round(1) and d = round(2) and n = round(3) and kind = round(4) and run = round(5) and deeper = round(6)
  then have j: "j = kinded kind [(''element'', field_at ''element'' j)]"
    and v: "validate_model_type (path @ ''.element'') (d + 1) (field_at ''element'' j) (n + 1) = Inr m"
    using run kinded_fields [OF wf kind, of path "[''element'']"] by (auto simp: validate_collection [OF kind k d n] result_splits)
  from readsD [OF deeper json_wf_field_at [OF wf] v] obtain t where t: "field_at ''element'' j = type_json t" "fits (d + 1) t"
    "m = n + 1 + type_nodes t" "m \<le> 8192" by blast
  from k j t show ?thesis
    by (elim insertE emptyE) (auto simp: fits_def intro: counted_typeI [of _ "SetType t"] counted_typeI [of _ "SeqType t"])
qed

lemma tuple_sound:
  assumes "type_round path d j n m kind" and k: "kind = ''tuple''"
  shows "counted_type d j n m"
proof -
  note round = type_roundD [OF assms(1)]
  note wf = round(1) and d = round(2) and n = round(3) and kind = round(4) and run = round(5) and deeper = round(6)
  obtain js where js: "field_at ''elements'' j = JArray js" and j: "j = kinded kind [(''elements'', field_at ''elements'' j)]"
    and v: "rfoldM (validate_model_type (path @ ''.elements[]'') (d + 1)) js (n + 1) = Inr m"
    using run kinded_fields [OF wf kind, of path "[''elements'']"]
    by (auto simp: validate_tuple [OF kind [unfolded k] d n] result_splits status_unexpected_def split: Json.splits)
  have "\<exists>ts. js = map type_json ts \<and> list_all (fits (d + 1)) ts \<and> m = n + 1 + sum_list (map type_nodes ts) \<and> m \<le> 8192"
    by (rule rfoldM_counted [OF v]) (use n readsD [OF deeper] wf_array_field [OF wf js] in \<open>auto simp: list_all_iff\<close>)
  then obtain ts where ts: "js = map type_json ts" "list_all (fits (d + 1)) ts" "m = n + 1 + sum_list (map type_nodes ts)"
    "m \<le> 8192" by blast
  have "max_of (map type_height ts) \<le> 31 - d" using ts(2) by (auto simp: max_of_le list_all_iff fits_def)
  with j js k ts d show ?thesis by (intro counted_typeI [of _ "TupleType ts"]) (auto simp: list_all_iff fits_def)
qed

lemma labelled_sound:
  assumes "type_round path d j n m kind" and k: "kind \<in> {''record'', ''variant''}"
  shows "counted_type d j n m"
proof -
  note round = type_roundD [OF assms(1)]
  note wf = round(1) and d = round(2) and n = round(3) and kind = round(4) and run = round(5) and deeper = round(6)
  obtain es names where es: "field_at (list_field kind) j = JArray es"
    and j: "j = kinded kind [(list_field kind, field_at (list_field kind) j)]"
    and v: "rfoldM (validate_entry path (name_field kind) (payload_field kind) (validate_model_type path (d + 1))) es ([], n + 1)
      = Inr (names, m)"
    using run kinded_fields [OF wf kind, of path "[list_field kind]"]
    by (auto simp: validate_labelled [OF kind k d n] result_splits status_unexpected_def split: Json.splits)
  have "name_field kind \<noteq> payload_field kind" using k by (auto simp: name_field_def payload_field_def)
  from validate_entries_sound [OF deeper wf_array_field [OF wf es] this _ v] n obtain fs where
    fs: "es = map (entry_json (name_field kind) (payload_field kind) type_json) fs" "labels_ok (map fst fs)"
      "list_all (\<lambda>f. fits (d + 1) (snd f)) fs" "m = n + 1 + sum_list (map (\<lambda>f. type_nodes (snd f)) fs)" "m \<le> 8192" by auto
  have "max_of (map (\<lambda>f. type_height (snd f)) fs) \<le> 31 - d" using fs(3) by (auto simp: max_of_le list_all_iff fits_def)
  with k j es fs d show ?thesis
    by (intro counted_typeI [of _ "if kind = ''record'' then RecordType fs else VariantType fs"])
      (auto simp: list_field_def name_field_def payload_field_def list_all_iff fits_def)
qed

lemma map_sound:
  assumes "type_round path d j n m kind" and k: "kind = ''map''"
  shows "counted_type d j n m"
proof -
  note round = type_roundD [OF assms(1)]
  note wf = round(1) and d = round(2) and n = round(3) and kind = round(4) and run = round(5) and deeper = round(6)
  then obtain i where j: "j = kinded kind [(''key'', field_at ''key'' j), (''value'', field_at ''value'' j)]"
    and key: "validate_model_type path (d + 1) (field_at ''key'' j) (n + 1) = Inr i"
    and val: "validate_model_type path (d + 1) (field_at ''value'' j) i = Inr m"
    using run kinded_fields [OF wf kind, of path "[''key'', ''value'']"]
    by (auto simp: validate_map [OF kind [unfolded k] d n] result_splits)
  from readsD [OF deeper json_wf_field_at [OF wf] key] readsD [OF deeper json_wf_field_at [OF wf] val] obtain t u where
    "field_at ''key'' j = type_json t" "fits (d + 1) t" "i = n + 1 + type_nodes t"
    "field_at ''value'' j = type_json u" "fits (d + 1) u" "m = i + type_nodes u" "m \<le> 8192" by blast
  with j k show ?thesis by (intro counted_typeI [of _ "MapType t u"]) (auto simp: fits_def)
qed

lemma opaque_sound:
  assumes "type_round path d j n m kind" and k: "kind = ''opaqueItf''"
  shows "counted_type d j n m"
proof -
  note round = type_roundD [OF assms(1)]
  note wf = round(1) and d = round(2) and n = round(3) and kind = round(4) and run = round(5) and deeper = round(6)
  then obtain s where "j = kinded kind [(''description'', JString s)]" "length s \<le> 256" "m = n + 1"
    using run kinded_fields [OF wf kind, of path "[''description'']"]
    by (auto simp: validate_opaque [OF kind [unfolded k] d n] result_splits short_string_iff)
  with k d n show ?thesis by (intro counted_typeI [of _ "OpaqueItf s"]) (auto simp: fits_def)
qed

lemma validate_type_sound: "reads (validate_model_type path d) (fits d)"
proof (induction "32 - d" arbitrary: d path rule: less_induct)
  case less
  show ?case
    unfolding reads_fits
  proof (intro allI impI)
    fix j n m
    assume wf: "json_wf j" and run: "validate_model_type path d j n = Inr m"
    from run obtain kind where d: "d < 32" and n: "n < 8192" and kind: "jfind ''kind'' j = Some (JString kind)"
      and cases: "kind \<in> {''int'', ''bool'', ''str'', ''null''} \<or> kind \<in> {''set'', ''seq''} \<or> kind = ''tuple''
        \<or> kind \<in> {''record'', ''variant''} \<or> kind = ''map'' \<or> kind = ''opaqueItf''" by (rule validate_kind)
    have IH: "reads (validate_model_type path' (d + 1)) (fits (d + 1))" for path' using less [of "d + 1"] d by simp
    then have here: "type_round path d j n m kind" using wf d n kind run by (simp add: type_round_def)
    show "counted_type d j n m"
      using cases atom_sound [OF here] collection_sound [OF here] tuple_sound [OF here] labelled_sound [OF here]
        map_sound [OF here] opaque_sound [OF here] by (elim disjE) blast+
  qed
qed

subsection \<open>Completeness\<close>

lemma jfind_kinded: "jfind k (kinded kind kvs) = (case map_of (rev kvs) k of Some x \<Rightarrow> Some x
    | None \<Rightarrow> if k = ''kind'' then Some (JString kind) else None)"
  by (simp add: kinded_def map_add_def split: option.split)

lemma field_at_kinded [simp]: "k \<noteq> ''kind'' \<Longrightarrow> field_at k (kinded kind [(k, x)]) = x"
  by (simp add: field_at_def jfind_kinded)

lemma exact_object_kinded [simp]:
  "exact_object (kinded kind kvs) path allowed required = Inr u
    \<longleftrightarrow> insert ''kind'' (fst ` set kvs) \<subseteq> set allowed \<and> set required \<subseteq> insert ''kind'' (fst ` set kvs)"
  by (simp add: kinded_def)

lemma exact_kinded_ok [simp]:
  "insert ''kind'' (fst ` set kvs) \<subseteq> set allowed \<Longrightarrow> set required \<subseteq> insert ''kind'' (fst ` set kvs)
    \<Longrightarrow> exact_object (kinded kind kvs) path allowed required = Inr ()"
  by simp

lemma exact_jobject_ok [simp]:
  "fst ` set kvs \<subseteq> set allowed \<Longrightarrow> set required \<subseteq> fst ` set kvs
    \<Longrightarrow> exact_object (jobject kvs) path allowed required = Inr ()"
  by simp

lemma validate_entry_complete:
  assumes "v (type_json t) n = Inr (n + type_nodes t)" "l \<noteq> []" "length l \<le> 256" "l \<notin> set names" "name \<noteq> payload"
  shows "validate_entry path name payload v (entry_json name payload type_json (l, t)) (names, n) = Inr (l # names, n + type_nodes t)"
proof -
  let ?e = "entry_json name payload type_json (l, t)"
  have "exact_object ?e path [name, payload] [name, payload] = Inr ()" by (simp add: entry_json_def)
  moreover have "short_string (field_at name ?e) path = Inr ()" "string_field ?e name path = Inr l" "field_at payload ?e = type_json t"
    using assms(3,5) by (simp_all add: entry_json_def short_string_def string_field_iff)
  ultimately show ?thesis using assms by (simp add: validate_entry_def)
qed

lemma validate_entries_complete:
  assumes "\<And>l t n. (l, t) \<in> set fs \<Longrightarrow> n + type_nodes t \<le> 8192 \<Longrightarrow> v (type_json t) n = Inr (n + type_nodes t)"
    and "labels_ok (map fst fs)" "set names \<inter> fst ` set fs = {}" "name \<noteq> payload"
    and "n + sum_list (map (\<lambda>f. type_nodes (snd f)) fs) \<le> 8192"
  shows "\<exists>names'. rfoldM (validate_entry path name payload v) (map (entry_json name payload type_json) fs) (names, n)
    = Inr (names', n + sum_list (map (\<lambda>f. type_nodes (snd f)) fs))"
  using assms
proof (induction fs arbitrary: names n)
  case (Cons f fs)
  obtain l t where f: "f = (l, t)" by (cases f)
  have "validate_entry path name payload v (entry_json name payload type_json (l, t)) (names, n) = Inr (l # names, n + type_nodes t)"
    by (rule validate_entry_complete) (use Cons.prems(1) [of l t n] Cons.prems(2-) f in auto)
  moreover have "\<exists>names'. rfoldM (validate_entry path name payload v) (map (entry_json name payload type_json) fs) (l # names, n + type_nodes t)
      = Inr (names', n + type_nodes t + sum_list (map (\<lambda>f. type_nodes (snd f)) fs))"
    by (rule Cons.IH) (use Cons.prems f in auto)
  ultimately show ?case using f by (auto simp: add.assoc)
qed simp

lemma labelled_complete:
  assumes "kind \<in> {''record'', ''variant''}" "d < 32" "labels_ok (map fst fs)"
    and "n + (sum_list (map (\<lambda>f. type_nodes (snd f)) fs) + 1) \<le> 8192"
    and "\<And>l t n. (l, t) \<in> set fs \<Longrightarrow> n + type_nodes t \<le> 8192 \<Longrightarrow>
      validate_model_type path (d + 1) (type_json t) n = Inr (n + type_nodes t)"
  shows "validate_model_type path d (kinded kind [(list_field kind,
      JArray (map (entry_json (name_field kind) (payload_field kind) type_json) fs))]) n
    = Inr (n + (sum_list (map (\<lambda>f. type_nodes (snd f)) fs) + 1))"
proof -
  let ?j = "kinded kind [(list_field kind, JArray (map (entry_json (name_field kind) (payload_field kind) type_json) fs))]"
  have names: "name_field kind \<noteq> payload_field kind" "list_field kind \<noteq> ''kind''"
    using assms(1) by (auto simp: name_field_def payload_field_def list_field_def)
  have "\<exists>names'. rfoldM (validate_entry path (name_field kind) (payload_field kind) (validate_model_type path (d + 1)))
      (map (entry_json (name_field kind) (payload_field kind) type_json) fs) ([], n + 1)
      = Inr (names', n + 1 + sum_list (map (\<lambda>f. type_nodes (snd f)) fs))"
    by (rule validate_entries_complete) (use assms names in auto)
  moreover have "field_at (list_field kind) ?j = JArray (map (entry_json (name_field kind) (payload_field kind) type_json) fs)"
    by (rule field_at_kinded [OF names(2)])
  moreover have "jfind ''kind'' ?j = Some (JString kind)" using names by simp
  ultimately show ?thesis using assms(1,2,4) by (subst validate_labelled) auto
qed

lemma tuple_complete:
  assumes "d < 32" "n + (sum_list (map type_nodes ts) + 1) \<le> 8192"
    and "\<And>t n. t \<in> set ts \<Longrightarrow> n + type_nodes t \<le> 8192 \<Longrightarrow>
      validate_model_type (path @ ''.elements[]'') (d + 1) (type_json t) n = Inr (n + type_nodes t)"
  shows "validate_model_type path d (type_json (TupleType ts)) n = Inr (n + (sum_list (map type_nodes ts) + 1))"
proof -
  have "rfoldM (validate_model_type (path @ ''.elements[]'') (d + 1)) (map type_json ts) (n + 1)
      = Inr (n + 1 + sum_list (map type_nodes ts))"
    by (rule rfoldM_count [where bound = 8192]) (use assms in auto)
  then show ?thesis using assms(1,2) by (subst validate_tuple) auto
qed

lemma map_complete:
  assumes "d < 32" "n + (type_nodes t + type_nodes u + 1) \<le> 8192"
    and "validate_model_type path (d + 1) (type_json t) (n + 1) = Inr (n + 1 + type_nodes t)"
    and "validate_model_type path (d + 1) (type_json u) (n + 1 + type_nodes t) = Inr (n + 1 + type_nodes t + type_nodes u)"
  shows "validate_model_type path d (type_json (MapType t u)) n = Inr (n + (type_nodes t + type_nodes u + 1))"
proof -
  have "field_at ''key'' (type_json (MapType t u)) = type_json t" "field_at ''value'' (type_json (MapType t u)) = type_json u"
    by (simp_all add: field_at_def jfind_kinded)
  then show ?thesis using assms by (subst validate_map) auto
qed

lemma collection_complete:
  assumes "kind \<in> {''set'', ''seq''}" "d < 32" "n + (type_nodes t + 1) \<le> 8192"
    and "validate_model_type (path @ ''.element'') (d + 1) (type_json t) (n + 1) = Inr (n + 1 + type_nodes t)"
  shows "validate_model_type path d (kinded kind [(''element'', type_json t)]) n = Inr (n + (type_nodes t + 1))"
  using assms by (subst validate_collection [where kind = kind]) auto

lemma atom_complete:
  assumes "kind \<in> {''int'', ''bool'', ''str'', ''null''}" "d < 32" "n + 1 \<le> 8192"
  shows "validate_model_type path d (kinded kind []) n = Inr (n + 1)"
  using assms by (subst validate_atom [where kind = kind]) auto

lemma opaque_complete:
  assumes "d < 32" "n + 1 \<le> 8192" "length s \<le> 256"
  shows "validate_model_type path d (type_json (OpaqueItf s)) n = Inr (n + 1)"
  using assms by (subst validate_opaque) (auto simp: short_string_def)

lemma height_bound: "d + (max_of ns + 1) \<le> 32 \<longleftrightarrow> d < 32 \<and> (\<forall>n \<in> set ns. d + 1 + n \<le> 32)"
proof -
  have "d + (max_of ns + 1) \<le> 32 \<longleftrightarrow> d < 32 \<and> max_of ns \<le> 31 - d" by auto
  moreover have "d < 32 \<Longrightarrow> n \<le> 31 - d \<longleftrightarrow> d + 1 + n \<le> 32" for n by auto
  ultimately show ?thesis by (auto simp: max_of_le)
qed

lemma fits_simps:
  "fits d (TupleType ts) \<longleftrightarrow> d < 32 \<and> (\<forall>t \<in> set ts. fits (d + 1) t)"
  "fits d (RecordType fs) \<longleftrightarrow> d < 32 \<and> labels_ok (map fst fs) \<and> (\<forall>f \<in> set fs. fits (d + 1) (snd f))"
  "fits d (VariantType fs) \<longleftrightarrow> d < 32 \<and> labels_ok (map fst fs) \<and> (\<forall>f \<in> set fs. fits (d + 1) (snd f))"
  "fits d (SetType t) \<longleftrightarrow> d < 32 \<and> fits (d + 1) t"
  "fits d (SeqType t) \<longleftrightarrow> d < 32 \<and> fits (d + 1) t"
  "fits d (MapType t u) \<longleftrightarrow> d < 32 \<and> fits (d + 1) t \<and> fits (d + 1) u"
  "fits d (OpaqueItf s) \<longleftrightarrow> d < 32 \<and> length s \<le> 256"
  "fits d IntType \<longleftrightarrow> d < 32" "fits d BoolType \<longleftrightarrow> d < 32" "fits d StrType \<longleftrightarrow> d < 32" "fits d NullType \<longleftrightarrow> d < 32"
  unfolding fits_def type_height.simps type_ok.simps height_bound by (auto simp: list_all_iff)

lemma validate_type_complete:
  "fits d t \<Longrightarrow> n + type_nodes t \<le> 8192 \<Longrightarrow> validate_model_type path d (type_json t) n = Inr (n + type_nodes t)"
proof (induction t arbitrary: path d n)
  case (TupleType ts)
  from TupleType.prems(1) have d: "d < 32" and ts: "\<And>t. t \<in> set ts \<Longrightarrow> fits (d + 1) t" by (auto simp: fits_simps)
  show ?case using tuple_complete [OF d _ TupleType.IH [OF _ ts]] TupleType.prems(2) by simp
next
  case (RecordType fs)
  then have "validate_model_type path (d + 1) (type_json t) n = Inr (n + type_nodes t)"
    if "(l, t) \<in> set fs" "n + type_nodes t \<le> 8192" for l t n
    using that RecordType.IH [OF that(1), of t "d + 1" n path] by (auto simp: fits_simps)
  from labelled_complete [of "''record''" d fs n path, OF _ _ _ _ this] RecordType.prems show ?case
    by (simp add: fits_simps list_field_def name_field_def payload_field_def)
next
  case (VariantType fs)
  then have "validate_model_type path (d + 1) (type_json t) n = Inr (n + type_nodes t)"
    if "(l, t) \<in> set fs" "n + type_nodes t \<le> 8192" for l t n
    using that VariantType.IH [OF that(1), of t "d + 1" n path] by (auto simp: fits_simps)
  from labelled_complete [of "''variant''" d fs n path, OF _ _ _ _ this] VariantType.prems show ?case
    by (simp add: fits_simps list_field_def name_field_def payload_field_def)
next
  case (MapType t u)
  have "validate_model_type path d (type_json (MapType t u)) n = Inr (n + (type_nodes t + type_nodes u + 1))"
    by (rule map_complete) (use MapType in \<open>auto simp: fits_simps\<close>)
  then show ?case by simp
next
  case (SetType t)
  then show ?case using collection_complete [of "''set''" d n t path] by (auto simp: fits_simps)
next
  case (SeqType t)
  then show ?case using collection_complete [of "''seq''" d n t path] by (auto simp: fits_simps)
next
  case (OpaqueItf s)
  then show ?case using opaque_complete [of d n s path] by (auto simp: fits_simps)
qed (use atom_complete in \<open>auto simp: fits_simps\<close>)

theorem model_type_iff:
  assumes "json_wf j"
  shows "validate_model_type path d j n = Inr m \<longleftrightarrow> counted_type d j n m"
  using readsD [OF validate_type_sound assms, of path d n m] validate_type_complete [of d _ n path]
  by (auto simp: counted_type_def)

section \<open>The grammar of literals and paths\<close>

datatype Literal =
    LitNull | LitInt string | LitBool bool | LitStr string
  | LitSet "Literal list" | LitSeq "Literal list" | LitTuple "Literal list"
  | LitRecord "(string \<times> Literal) list" | LitMap "(Literal \<times> Literal) list" | LitVariant string Literal

fun literal_json :: "Literal \<Rightarrow> Json" where
  "literal_json LitNull = kinded ''null'' []"
| "literal_json (LitInt s) = kinded ''int'' [(''value'', JString s)]"
| "literal_json (LitBool b) = kinded ''bool'' [(''value'', JBool b)]"
| "literal_json (LitStr s) = kinded ''str'' [(''value'', JString s)]"
| "literal_json (LitSet ls) = kinded ''set'' [(''values'', JArray (map literal_json ls))]"
| "literal_json (LitSeq ls) = kinded ''seq'' [(''values'', JArray (map literal_json ls))]"
| "literal_json (LitTuple ls) = kinded ''tuple'' [(''values'', JArray (map literal_json ls))]"
| "literal_json (LitRecord fs) = kinded ''record'' [(''fields'', JArray (map (entry_json ''name'' ''value'' literal_json) fs))]"
| "literal_json (LitMap es) = kinded ''map'' [(''entries'',
     JArray (map (\<lambda>e. jobject [(''key'', literal_json (fst e)), (''value'', literal_json (snd e))]) es))]"
| "literal_json (LitVariant t l) = kinded ''variant'' [(''tag'', JString t), (''payload'', literal_json l)]"

text \<open>\<open>literal_ok d l\<close>: the integers of \<open>l\<close> are decimal and its parts at depth \<open>d\<close> and below stay above depth 128.\<close>

fun literal_ok :: "nat \<Rightarrow> Literal \<Rightarrow> bool" where
  "literal_ok d (LitInt s) = (d < 128 \<and> decimal_syntax s)"
| "literal_ok d (LitSet ls) = (d < 128 \<and> list_all (literal_ok (d + 1)) ls)"
| "literal_ok d (LitSeq ls) = (d < 128 \<and> list_all (literal_ok (d + 1)) ls)"
| "literal_ok d (LitTuple ls) = (d < 128 \<and> list_all (literal_ok (d + 1)) ls)"
| "literal_ok d (LitRecord fs) = (d < 128 \<and> list_all (\<lambda>f. literal_ok (d + 1) (snd f)) fs)"
| "literal_ok d (LitMap es) = (d < 128 \<and> list_all (\<lambda>e. literal_ok (d + 1) (fst e) \<and> literal_ok (d + 1) (snd e)) es)"
| "literal_ok d (LitVariant t l) = (d < 128 \<and> literal_ok (d + 1) l)"
| "literal_ok d l = (d < 128)"

definition is_literal :: "nat \<Rightarrow> Json \<Rightarrow> bool" where
  "is_literal d j = (\<exists>l. j = literal_json l \<and> literal_ok d l)"

text \<open>One round of the validator on a document of a known kind.\<close>

lemma is_object_jfind: "jfind k j = Some x \<Longrightarrow> is_object j"
  by (cases j) (simp_all add: jfind_def is_object_def)

lemma literal_untagged:
  assumes "d < 128 \<Longrightarrow> \<nexists>kind. jfind ''kind'' j = Some (JString kind)"
  shows "\<exists>e. validate_literal path d j = Inl e"
proof (cases "d < 128")
  case True
  then have "\<exists>e. string_field j ''kind'' path = Inl e"
    using assms by (auto simp: string_field_def status_unexpected_def split: option.split Json.split)
  with True show ?thesis by (subst validate_literal.simps) (auto simp: status_unexpected_def)
next
  case False
  then show ?thesis by (subst validate_literal.simps) (simp add: status_unexpected_def)
qed

lemma literal_round:
  assumes k: "string_field j ''kind'' path = Inr kind" "is_object j = True" "(128 \<le> d) = False"
  shows "kind = ''null'' \<Longrightarrow> validate_literal path d j = exact_object j path [''kind''] [''kind'']"
    and "kind \<in> {''int'', ''bool'', ''str''} \<Longrightarrow> validate_literal path d j =
      rbind (exact_object j path [''kind'', ''value''] [''kind'', ''value'']) (\<lambda>_.
      if kind = ''bool'' then
        (case field_at ''value'' j of JBool _ \<Rightarrow> Inr () | _ \<Rightarrow> status_unexpected (path @ '': Boolean expected''))
      else rbind (string_field j ''value'' path) (\<lambda>text.
        if kind = ''str'' then Inr ()
        else if decimal_syntax text then Inr ()
        else status_unexpected (path @ '': decimal integer string expected'')))"
    and "kind \<in> {''set'', ''seq'', ''tuple''} \<Longrightarrow> validate_literal path d j =
      rbind (exact_object j path [''kind'', ''values''] [''kind'', ''values'']) (\<lambda>_.
      case field_at ''values'' j of
        JArray items \<Rightarrow> rfoldM (\<lambda>item u. validate_literal path (d + 1) item) items ()
      | _ \<Rightarrow> status_unexpected (path @ '': literal values array expected''))"
    and "kind = ''record'' \<Longrightarrow> validate_literal path d j =
      rbind (exact_object j path [''kind'', ''fields''] [''kind'', ''fields'']) (\<lambda>_.
      case field_at ''fields'' j of
        JArray entries \<Rightarrow> rfoldM (\<lambda>entry u.
          rbind (exact_object entry path [''name'', ''value''] [''name'', ''value'']) (\<lambda>_.
          rbind (string_field entry ''name'' path) (\<lambda>_.
          validate_literal path (d + 1) (field_at ''value'' entry)))) entries ()
      | _ \<Rightarrow> status_unexpected (path @ '': literal entries array expected''))"
    and "kind = ''map'' \<Longrightarrow> validate_literal path d j =
      rbind (exact_object j path [''kind'', ''entries''] [''kind'', ''entries'']) (\<lambda>_.
      case field_at ''entries'' j of
        JArray entries \<Rightarrow> rfoldM (\<lambda>entry u.
          rbind (exact_object entry path [''key'', ''value''] [''key'', ''value'']) (\<lambda>_.
          rbind (validate_literal path (d + 1) (field_at ''key'' entry)) (\<lambda>_.
          validate_literal path (d + 1) (field_at ''value'' entry)))) entries ()
      | _ \<Rightarrow> status_unexpected (path @ '': literal entries array expected''))"
    and "kind = ''variant'' \<Longrightarrow> validate_literal path d j =
      rbind (exact_object j path [''kind'', ''tag'', ''payload''] [''kind'', ''tag'', ''payload'']) (\<lambda>_.
      rbind (string_field j ''tag'' path) (\<lambda>_.
      validate_literal path (d + 1) (field_at ''payload'' j)))"
    and "kind \<noteq> ''null'' \<Longrightarrow> kind \<notin> {''int'', ''bool'', ''str''} \<Longrightarrow> kind \<notin> {''set'', ''seq'', ''tuple''} \<Longrightarrow> kind \<noteq> ''record''
      \<Longrightarrow> kind \<noteq> ''map'' \<Longrightarrow> kind \<noteq> ''variant'' \<Longrightarrow> \<exists>e. validate_literal path d j = Inl e"
  by (subst validate_literal.simps [of path d j, unfolded k rbind_simps if_False not_True_eq_False],
      (auto simp: status_unexpected_def)[1])+

text \<open>A round on a document of the given kind at an admissible depth.\<close>

definition literal_at :: "nat \<Rightarrow> Json \<Rightarrow> string \<Rightarrow> bool" where
  "literal_at d j kind = (json_wf j \<and> d < 128 \<and> jfind ''kind'' j = Some (JString kind))"

lemma literal_atD:
  assumes "literal_at d j kind"
  shows "json_wf j" "d < 128" "jfind ''kind'' j = Some (JString kind)" "string_field j ''kind'' path = Inr kind"
    "is_object j = True" "(128 \<le> d) = False"
  using assms by (auto simp: literal_at_def string_field_iff is_object_jfind)

lemma literal_kind:
  assumes "json_wf j" "validate_literal path d j = Inr u"
  obtains kind where "literal_at d j kind" "kind = ''null'' \<or> kind \<in> {''int'', ''bool'', ''str''} \<or> kind \<in> {''set'', ''seq'', ''tuple''}
    \<or> kind = ''record'' \<or> kind = ''map'' \<or> kind = ''variant''"
proof -
  have "\<exists>kind. d < 128 \<and> jfind ''kind'' j = Some (JString kind)"
    using assms(2) literal_untagged [of d j path] by (metis Inl_Inr_False)
  then obtain kind where k: "literal_at d j kind" using assms(1) by (auto simp: literal_at_def)
  with assms(2) literal_round(7) [OF literal_atD(4-6) [OF k], of path] that show ?thesis by (metis Inl_Inr_False)
qed

lemma is_literalI: "j = literal_json l \<Longrightarrow> literal_ok d l \<Longrightarrow> is_literal d j"
  by (auto simp: is_literal_def)

lemma scalar_literal_sound:
  assumes "literal_at d j kind" and k: "kind \<in> {''int'', ''bool'', ''str''}" and "validate_literal path d j = Inr u"
  shows "is_literal d j"
proof -
  note at = literal_atD [OF assms(1)]
  have ex: "exact_object j path [''kind'', ''value''] [''kind'', ''value''] = Inr ()"
    using assms(3) by (auto simp: literal_round(2) [OF at(4-6) k] result_splits)
  have j: "j = kinded kind [(''value'', field_at ''value'' j)]" using kinded_fields [OF at(1,3) ex] by simp
  note body = assms(3) [unfolded literal_round(2) [OF at(4-6) k] ex rbind_simps]
  from k show ?thesis
  proof (elim insertE emptyE)
    assume "kind = ''int''"
    then obtain s where "field_at ''value'' j = JString s" "decimal_syntax s"
      using body by (auto simp: result_splits string_field_iff field_at_jfind status_unexpected_def split: if_splits)
    with j at(2) \<open>kind = ''int''\<close> show ?thesis by (intro is_literalI [of _ "LitInt s"]) simp_all
  next
    assume "kind = ''bool''"
    then obtain b where "field_at ''value'' j = JBool b" using body by (auto simp: status_unexpected_def split: Json.splits)
    with j at(2) \<open>kind = ''bool''\<close> show ?thesis by (intro is_literalI [of _ "LitBool b"]) simp_all
  next
    assume "kind = ''str''"
    then obtain s where "field_at ''value'' j = JString s" using body by (auto simp: result_splits string_field_iff field_at_jfind)
    with j at(2) \<open>kind = ''str''\<close> show ?thesis by (intro is_literalI [of _ "LitStr s"]) simp_all
  qed
qed

lemma array_literal_sound:
  assumes "literal_at d j kind" and k: "kind \<in> {''set'', ''seq'', ''tuple''}" and "validate_literal path d j = Inr u"
    and deeper: "\<And>j. json_wf j \<Longrightarrow> validate_literal path (d + 1) j = Inr () \<Longrightarrow> is_literal (d + 1) j"
  shows "is_literal d j"
proof -
  note at = literal_atD [OF assms(1)]
  obtain js where ex: "exact_object j path [''kind'', ''values''] [''kind'', ''values''] = Inr ()"
    and js: "field_at ''values'' j = JArray js" "\<forall>x \<in> set js. validate_literal path (d + 1) x = Inr ()"
    using assms(3) by (auto simp: literal_round(3) [OF at(4-6) k] result_splits status_unexpected_def rfoldM_checked split: Json.splits)
  have j: "j = kinded kind [(''values'', JArray js)]" using kinded_fields [OF at(1,3) ex] js(1) by simp
  have "list_all (\<lambda>x. \<exists>l. x = literal_json l \<and> literal_ok (d + 1) l) js"
    using wf_array_field [OF at(1) js(1)] js(2) deeper by (auto simp: list_all_iff is_literal_def)
  then obtain ls where "js = map literal_json ls" "list_all (literal_ok (d + 1)) ls" by (auto simp: list_all_range)
  with j k at(2) show ?thesis
    by (elim insertE emptyE) (auto intro: is_literalI [of _ "LitSet ls"] is_literalI [of _ "LitSeq ls"] is_literalI [of _ "LitTuple ls"])
qed

lemma record_literal_sound:
  assumes "literal_at d j kind" and k: "kind = ''record''" and "validate_literal path d j = Inr u"
    and deeper: "\<And>j. json_wf j \<Longrightarrow> validate_literal path (d + 1) j = Inr () \<Longrightarrow> is_literal (d + 1) j"
  shows "is_literal d j"
proof -
  note at = literal_atD [OF assms(1)]
  obtain es where ex: "exact_object j path [''kind'', ''fields''] [''kind'', ''fields''] = Inr ()"
    and es: "field_at ''fields'' j = JArray es"
    and each: "\<forall>e \<in> set es. exact_object e path [''name'', ''value''] [''name'', ''value''] = Inr ()
      \<and> (\<exists>s. jfind ''name'' e = Some (JString s)) \<and> validate_literal path (d + 1) (field_at ''value'' e) = Inr ()"
    using assms(3) by (auto simp: literal_round(4) [OF at(4-6) k] result_splits status_unexpected_def rfoldM_checked
        string_field_iff split: Json.splits)
  have j: "j = kinded kind [(''fields'', JArray es)]" using kinded_fields [OF at(1,3) ex] es by simp
  have "\<exists>f. e = entry_json ''name'' ''value'' literal_json f \<and> literal_ok (d + 1) (snd f)" if e: "e \<in> set es" for e
  proof -
    from each that obtain s where s: "jfind ''name'' e = Some (JString s)"
      "exact_object e path [''name'', ''value''] [''name'', ''value''] = Inr ()" by blast
    have wf: "json_wf e" using wf_array_field [OF at(1) es] that by (simp add: list_all_iff)
    obtain l where l: "field_at ''value'' e = literal_json l" "literal_ok (d + 1) l"
      using deeper [OF json_wf_field_at [OF wf], of "''value''"] bspec [OF each e] by (auto simp: is_literal_def)
    have "e = entry_json ''name'' ''value'' literal_json (s, l)"
      using exact_object_fields [OF wf s(2)] field_at_jfind [OF s(1)] l(1) by (simp add: entry_json_def)
    with l(2) show ?thesis by auto
  qed
  then obtain fs where "es = map (entry_json ''name'' ''value'' literal_json) fs" "list_all (\<lambda>f. literal_ok (d + 1) (snd f)) fs"
    using list_all_range [of "entry_json ''name'' ''value'' literal_json" "\<lambda>f. literal_ok (d + 1) (snd f)" es]
    by (auto simp: list_all_iff)
  with j k at(2) show ?thesis by (intro is_literalI [of _ "LitRecord fs"]) simp_all
qed

lemma map_literal_sound:
  assumes "literal_at d j kind" and k: "kind = ''map''" and "validate_literal path d j = Inr u"
    and deeper: "\<And>j. json_wf j \<Longrightarrow> validate_literal path (d + 1) j = Inr () \<Longrightarrow> is_literal (d + 1) j"
  shows "is_literal d j"
proof -
  note at = literal_atD [OF assms(1)]
  let ?e = "\<lambda>e. jobject [(''key'', literal_json (fst e)), (''value'', literal_json (snd e))]"
  obtain es where ex: "exact_object j path [''kind'', ''entries''] [''kind'', ''entries''] = Inr ()"
    and es: "field_at ''entries'' j = JArray es"
    and each: "\<forall>e \<in> set es. exact_object e path [''key'', ''value''] [''key'', ''value''] = Inr ()
      \<and> validate_literal path (d + 1) (field_at ''key'' e) = Inr () \<and> validate_literal path (d + 1) (field_at ''value'' e) = Inr ()"
    using assms(3) by (auto simp: literal_round(5) [OF at(4-6) k] result_splits status_unexpected_def rfoldM_checked split: Json.splits)
  have j: "j = kinded kind [(''entries'', JArray es)]" using kinded_fields [OF at(1,3) ex] es by simp
  have "\<exists>f. e = ?e f \<and> literal_ok (d + 1) (fst f) \<and> literal_ok (d + 1) (snd f)" if e: "e \<in> set es" for e
  proof -
    have wf: "json_wf e" using wf_array_field [OF at(1) es] that by (simp add: list_all_iff)
    obtain k l where "field_at ''key'' e = literal_json k" "literal_ok (d + 1) k"
      "field_at ''value'' e = literal_json l" "literal_ok (d + 1) l"
      using deeper [OF json_wf_field_at [OF wf], of "''key''"] deeper [OF json_wf_field_at [OF wf], of "''value''"] bspec [OF each e]
      by (auto simp: is_literal_def)
    moreover from this have "e = ?e (k, l)" using exact_object_fields [OF wf, of path "[''key'', ''value'']"] each that by simp
    ultimately show ?thesis by auto
  qed
  then obtain fs where "es = map ?e fs" "list_all (\<lambda>e. literal_ok (d + 1) (fst e) \<and> literal_ok (d + 1) (snd e)) fs"
    using list_all_range [of ?e "\<lambda>e. literal_ok (d + 1) (fst e) \<and> literal_ok (d + 1) (snd e)" es] by (auto simp: list_all_iff)
  with j k at(2) show ?thesis by (intro is_literalI [of _ "LitMap fs"]) simp_all
qed

lemma variant_literal_sound:
  assumes "literal_at d j kind" and k: "kind = ''variant''" and "validate_literal path d j = Inr u"
    and deeper: "\<And>j. json_wf j \<Longrightarrow> validate_literal path (d + 1) j = Inr () \<Longrightarrow> is_literal (d + 1) j"
  shows "is_literal d j"
proof -
  note at = literal_atD [OF assms(1)]
  obtain t where ex: "exact_object j path [''kind'', ''tag'', ''payload''] [''kind'', ''tag'', ''payload''] = Inr ()"
    and t: "jfind ''tag'' j = Some (JString t)" and v: "validate_literal path (d + 1) (field_at ''payload'' j) = Inr ()"
    using assms(3) by (auto simp: literal_round(6) [OF at(4-6) k] result_splits string_field_iff)
  obtain l where "field_at ''payload'' j = literal_json l" "literal_ok (d + 1) l"
    using deeper [OF json_wf_field_at [OF at(1)] v] by (auto simp: is_literal_def)
  with kinded_fields [OF at(1,3) ex] field_at_jfind [OF t] k at(2) show ?thesis by (intro is_literalI [of _ "LitVariant t l"]) simp_all
qed

lemma validate_literal_sound: "json_wf j \<Longrightarrow> validate_literal path d j = Inr u \<Longrightarrow> is_literal d j"
proof (induction "128 - d" arbitrary: d j u rule: less_induct)
  case less
  obtain kind where at: "literal_at d j kind" and cases: "kind = ''null'' \<or> kind \<in> {''int'', ''bool'', ''str''}
      \<or> kind \<in> {''set'', ''seq'', ''tuple''} \<or> kind = ''record'' \<or> kind = ''map'' \<or> kind = ''variant''"
    using literal_kind [OF less.prems] by blast
  have IH: "is_literal (d + 1) j" if "json_wf j" "validate_literal path (d + 1) j = Inr ()" for j
    using less.hyps [OF _ that] literal_atD(2) [OF at] by simp
  have null: "is_literal d j" if k: "kind = ''null''"
  proof -
    have "exact_object j path [''kind''] [''kind''] = Inr ()" using less.prems(2) literal_round(1) [OF literal_atD(4-6) [OF at] k] by simp
    with kinded_fields [OF literal_atD(1,3) [OF at], of path "[]"] k literal_atD(2) [OF at] show ?thesis
      by (intro is_literalI [of _ LitNull]) simp_all
  qed
  from cases show ?case
    by (elim disjE) (rule null, assumption, rule scalar_literal_sound [OF at _ less.prems(2)], assumption,
        rule array_literal_sound [OF at _ less.prems(2) IH], assumption+, rule record_literal_sound [OF at _ less.prems(2) IH], assumption+,
        rule map_literal_sound [OF at _ less.prems(2) IH], assumption+, rule variant_literal_sound [OF at _ less.prems(2) IH], assumption+)
qed

lemma literal_at_kinded: "d < 128 \<Longrightarrow> ''kind'' \<notin> fst ` set kvs \<Longrightarrow> list_all (\<lambda>kv. json_wf (snd kv)) kvs
    \<Longrightarrow> literal_at d (kinded kind kvs) kind"
  by (simp add: literal_at_def kinded_def map_add_def map_of_eq_None_iff [THEN iffD2] image_iff split: option.split)

lemma json_wf_literal [simp]: "json_wf (literal_json l)"
proof (induction l)
  case (LitRecord fs)
  then show ?case by (auto simp: kinded_def entry_json_def list_all_iff intro!: json_wf_jobject)
next
  case (LitMap es)
  then show ?case by (auto simp: kinded_def list_all_iff intro!: json_wf_jobject)
qed (simp_all add: kinded_def list_all_iff om_wf_Cons)

lemma array_literal_complete:
  assumes "kind \<in> {''set'', ''seq'', ''tuple''}" "d < 128" "\<And>l. l \<in> set ls \<Longrightarrow> validate_literal path (d + 1) (literal_json l) = Inr ()"
  shows "validate_literal path d (kinded kind [(''values'', JArray (map literal_json ls))]) = Inr ()"
proof -
  have at: "literal_at d (kinded kind [(''values'', JArray (map literal_json ls))]) kind"
    by (rule literal_at_kinded) (use assms(2) in \<open>simp_all add: list_all_iff\<close>)
  show ?thesis by (subst literal_round(3) [OF literal_atD(4-6) [OF at]]) (use assms in \<open>auto simp: rfoldM_checked\<close>)
qed

lemma scalar_literal_complete:
  assumes "d < 128"
  shows "decimal_syntax s \<Longrightarrow> validate_literal path d (kinded ''int'' [(''value'', JString s)]) = Inr ()"
    "validate_literal path d (kinded ''bool'' [(''value'', JBool b)]) = Inr ()"
    "validate_literal path d (kinded ''str'' [(''value'', JString s)]) = Inr ()"
proof -
  have str: "literal_at d (kinded kind [(''value'', JString s)]) kind" for kind
    by (rule literal_at_kinded) (use assms in simp_all)
  have bool: "literal_at d (kinded ''bool'' [(''value'', JBool b)]) ''bool''" by (rule literal_at_kinded) (use assms in simp_all)
  show "validate_literal path d (kinded ''int'' [(''value'', JString s)]) = Inr ()" if "decimal_syntax s"
    using that by (subst literal_round(2) [OF literal_atD(4-6) [OF str]]) (simp_all add: string_field_def jfind_kinded)
  show "validate_literal path d (kinded ''bool'' [(''value'', JBool b)]) = Inr ()"
    by (subst literal_round(2) [OF literal_atD(4-6) [OF bool]]) simp_all
  show "validate_literal path d (kinded ''str'' [(''value'', JString s)]) = Inr ()"
    by (subst literal_round(2) [OF literal_atD(4-6) [OF str]]) (simp_all add: string_field_def jfind_kinded)
qed

lemma validate_literal_complete: "literal_ok d l \<Longrightarrow> validate_literal path d (literal_json l) = Inr ()"
proof (induction l arbitrary: d)
  case LitNull
  then have at: "literal_at d (kinded ''null'' []) ''null''" by (intro literal_at_kinded) simp_all
  show ?case unfolding literal_json.simps by (subst literal_round(1) [OF literal_atD(4-6) [OF at]]) simp_all
next
  case (LitRecord fs)
  have at: "literal_at d (literal_json (LitRecord fs)) ''record''"
    unfolding literal_json.simps by (rule literal_at_kinded) (use LitRecord.prems in \<open>auto simp: list_all_iff entry_json_def\<close>)
  have "validate_literal path (d + 1) (literal_json (snd f)) = Inr ()" if "f \<in> set fs" for f
    using LitRecord.IH [OF that, of "snd f" "d + 1"] LitRecord.prems that by (cases f) (auto simp: list_all_iff)
  then show ?case
    by (subst literal_round(4) [OF literal_atD(4-6) [OF at]]) (auto simp: rfoldM_checked entry_json_def string_field_def)
next
  case (LitMap es)
  have at: "literal_at d (literal_json (LitMap es)) ''map''"
    unfolding literal_json.simps by (rule literal_at_kinded) (use LitMap.prems in \<open>auto simp: list_all_iff\<close>)
  have "validate_literal path (d + 1) (literal_json (fst e)) = Inr () \<and> validate_literal path (d + 1) (literal_json (snd e)) = Inr ()"
    if "e \<in> set es" for e
    using LitMap.IH(1) [OF that, of "fst e" "d + 1"] LitMap.IH(2) [OF that, of "snd e" "d + 1"] LitMap.prems that
    by (cases e) (auto simp: list_all_iff)
  then show ?case by (subst literal_round(5) [OF literal_atD(4-6) [OF at]]) (auto simp: rfoldM_checked)
next
  case (LitVariant t l)
  have at: "literal_at d (literal_json (LitVariant t l)) ''variant''"
    unfolding literal_json.simps by (rule literal_at_kinded) (use LitVariant.prems in auto)
  have "field_at ''payload'' (literal_json (LitVariant t l)) = literal_json l" by (simp add: field_at_def jfind_kinded)
  moreover have "string_field (literal_json (LitVariant t l)) ''tag'' path = Inr t" by (simp add: string_field_iff jfind_kinded)
  ultimately show ?case using LitVariant by (subst literal_round(6) [OF literal_atD(4-6) [OF at]]) auto
qed (auto simp: array_literal_complete scalar_literal_complete list_all_iff)

lemma literal_iff: "json_wf j \<Longrightarrow> validate_literal path d j = Inr () \<longleftrightarrow> is_literal d j"
  using validate_literal_sound [of j path d "()"] validate_literal_complete [of d _ path] by (auto simp: is_literal_def)

text \<open>Documents by their fields: the fields \<open>kvs\<close> and, after them, an optional one.\<close>

lemma jobject_eq_iff:
  assumes "json_wf j" "distinct (map fst kvs)" "k \<notin> fst ` set kvs"
  shows "j = jobject (kvs @ opt_field k id v) \<longleftrightarrow>
    exact_object j path (map fst kvs @ [k]) (map fst kvs) = Inr () \<and> (\<forall>kv \<in> set kvs. field_at (fst kv) j = snd kv) \<and> jfind k j = v"
proof
  assume j: "j = jobject (kvs @ opt_field k id v)"
  have "map_of (rev kvs) (fst kv) = Some (snd kv)" if "kv \<in> set kvs" for kv
    using assms(2) that by (intro map_of_is_SomeI) (simp_all add: rev_map [symmetric])
  moreover have "map_of (rev kvs) k = None" using assms(3) by (simp add: map_of_eq_None_iff)
  ultimately show "exact_object j path (map fst kvs @ [k]) (map fst kvs) = Inr () \<and> (\<forall>kv \<in> set kvs. field_at (fst kv) j = snd kv) \<and> jfind k j = v"
    using assms(3) j by (auto simp: opt_field_def field_at_def map_add_def split: option.splits)
next
  assume r: "exact_object j path (map fst kvs @ [k]) (map fst kvs) = Inr () \<and> (\<forall>kv \<in> set kvs. field_at (fst kv) j = snd kv) \<and> jfind k j = v"
  then obtain ms where ms: "j = JObject ms" "fst ` set ms \<subseteq> insert k (fst ` set kvs)" "fst ` set kvs \<subseteq> fst ` set ms"
    by (auto simp: exact_object_iff)
  show "j = jobject (kvs @ opt_field k id v)"
  proof (rule jobject_cong [OF assms(1) ms(1)])
    fix l
    have "map_of (rev kvs) l = jfind l j" if "l \<in> fst ` set kvs"
    proof -
      from that obtain kv where kv: "kv \<in> set kvs" "l = fst kv" by auto
      have "map_of (rev kvs) l = Some (snd kv)" unfolding kv(2) using assms(2) kv(1)
        by (intro map_of_is_SomeI) (simp_all add: rev_map [symmetric])
      moreover have "jfind l j \<noteq> None" using that ms by (auto simp: jfind_def map_of_eq_None_iff)
      moreover have "field_at l j = snd kv" using r kv by auto
      ultimately show ?thesis by (auto simp: field_at_def)
    qed
    moreover have "jfind l j = None" if "l \<notin> insert k (fst ` set kvs)" using that ms by (auto simp: jfind_def map_of_eq_None_iff)
    moreover have "map_of (rev kvs) l = None" if "l \<notin> fst ` set kvs" using that by (simp add: map_of_eq_None_iff)
    ultimately show "map_of (rev (kvs @ opt_field k id v)) l = jfind l j"
      using r assms(3) by (cases "l = k"; cases "l \<in> fst ` set kvs") (auto simp: opt_field_def map_add_def split: option.splits)
  qed
qed

end
