(* ===== verification/Contract_Validation.thy ===== *)
theory Contract_Validation
  imports Contract_Grammar
begin

text \<open>
  The grammar of whole model-interface contracts, and the equivalence with \<^verbatim>\<open>validate_contract\<close>: the validator
  accepts exactly the documents of contracts that satisfy the side conditions and the resource bounds, where
  the bound on type nodes is shared by all types of a contract.
\<close>

section \<open>Path segments\<close>

datatype index_number = UnsignedIndex "64 word" | SignedIndex "64 word"

datatype PathSegment = FieldSelector string | VariantSelector string | IndexSelector index_number | MapKeySelector Literal

fun index_json :: "index_number \<Rightarrow> Json" where
  "index_json (UnsignedIndex w) = JUnsigned w"
| "index_json (SignedIndex w) = JInteger w"

fun segment_json :: "PathSegment \<Rightarrow> Json" where
  "segment_json (FieldSelector s) = JObject [(''field'', JString s)]"
| "segment_json (VariantSelector s) = JObject [(''variantValue'', JString s)]"
| "segment_json (IndexSelector i) = JObject [(''index'', index_json i)]"
| "segment_json (MapKeySelector l) = JObject [(''mapKey'', literal_json l)]"

fun segment_ok :: "PathSegment \<Rightarrow> bool" where
  "segment_ok (FieldSelector s) = (length s \<le> 256)"
| "segment_ok (VariantSelector s) = (length s \<le> 256)"
| "segment_ok (IndexSelector (UnsignedIndex w)) = True"
| "segment_ok (IndexSelector (SignedIndex w)) = (0 \<le> sint w)"
| "segment_ok (MapKeySelector l) = literal_ok 0 l"

lemma nonnegative_integer_iff:
  "nonnegative_integer j \<longleftrightarrow> (\<exists>i. j = index_json i \<and> segment_ok (IndexSelector i))"
proof
  assume "nonnegative_integer j"
  then show "\<exists>i. j = index_json i \<and> segment_ok (IndexSelector i)"
    by (cases j) (auto simp: nonnegative_integer_def intro: exI [of _ "UnsignedIndex _"] exI [of _ "SignedIndex _"])
next
  assume "\<exists>i. j = index_json i \<and> segment_ok (IndexSelector i)"
  then obtain i where "j = index_json i" "segment_ok (IndexSelector i)" by blast
  then show "nonnegative_integer j" by (cases i) (simp_all add: nonnegative_integer_def)
qed

lemma path_segment_iff:
  assumes "json_wf j"
  shows "validate_path_segment path j = Inr () \<longleftrightarrow> (\<exists>g. j = segment_json g \<and> segment_ok g)"
proof
  assume v: "validate_path_segment path j = Inr ()"
  then obtain k x where j: "j = JObject [(k, x)]"
    by (auto simp: validate_path_segment_def status_unexpected_def split: Json.splits list.splits prod.splits)
  have x: "json_wf x" using assms j by simp
  from v j consider "k = ''field''" "short_string x path = Inr ()" | "k = ''variantValue''" "short_string x path = Inr ()"
    | "k = ''index''" "nonnegative_integer x" | "k = ''mapKey''" "validate_literal path 0 x = Inr ()"
    by (auto simp: validate_path_segment_def status_unexpected_def split: if_splits)
  then show "\<exists>g. j = segment_json g \<and> segment_ok g"
  proof cases
    case 1
    then obtain s where "x = JString s" "length s \<le> 256" by (auto simp: short_string_iff)
    with 1 j show ?thesis by (intro exI [of _ "FieldSelector s"]) simp
  next
    case 2
    then obtain s where "x = JString s" "length s \<le> 256" by (auto simp: short_string_iff)
    with 2 j show ?thesis by (intro exI [of _ "VariantSelector s"]) simp
  next
    case 3
    then obtain i where "x = index_json i" "segment_ok (IndexSelector i)" by (auto simp: nonnegative_integer_iff)
    with 3 j show ?thesis by (intro exI [of _ "IndexSelector i"]) simp
  next
    case 4
    then obtain l where "x = literal_json l" "literal_ok 0 l" using literal_iff [OF x] by (auto simp: is_literal_def)
    with 4 j show ?thesis by (intro exI [of _ "MapKeySelector l"]) simp
  qed
next
  assume "\<exists>g. j = segment_json g \<and> segment_ok g"
  then obtain g where "j = segment_json g" "segment_ok g" by blast
  then show "validate_path_segment path j = Inr ()"
    using validate_literal_complete [of 0 _ path] nonnegative_integer_iff
    by (cases g) (auto simp: validate_path_segment_def short_string_def)
qed

section \<open>Counted validators\<close>

text \<open>\<open>counts v g ok w\<close>: the validator \<open>v\<close> accepts exactly the documents \<open>g x\<close> with \<open>ok x\<close>, adding \<open>w x\<close> to the
  node counter and keeping it within the bound.\<close>

definition counts :: "(Json \<Rightarrow> nat \<Rightarrow> nat result) \<Rightarrow> ('a \<Rightarrow> Json) \<Rightarrow> ('a \<Rightarrow> bool) \<Rightarrow> ('a \<Rightarrow> nat) \<Rightarrow> bool" where
  "counts v g ok w = (\<forall>j n m. json_wf j \<longrightarrow> n \<le> 8192 \<longrightarrow>
     (v j n = Inr m \<longleftrightarrow> (\<exists>x. j = g x \<and> ok x \<and> m = n + w x \<and> m \<le> 8192)))"

lemma countsD:
  "counts v g ok w \<Longrightarrow> json_wf j \<Longrightarrow> n \<le> 8192 \<Longrightarrow> v j n = Inr m \<longleftrightarrow> (\<exists>x. j = g x \<and> ok x \<and> m = n + w x \<and> m \<le> 8192)"
  by (simp add: counts_def)

lemma counts_fold:
  assumes "counts v g ok w" "list_all json_wf js" "n \<le> 8192"
  shows "rfoldM v js n = Inr m \<longleftrightarrow>
    (\<exists>xs. js = map g xs \<and> list_all ok xs \<and> m = n + sum_list (map w xs) \<and> m \<le> 8192)"
proof
  assume "rfoldM v js n = Inr m"
  then show "\<exists>xs. js = map g xs \<and> list_all ok xs \<and> m = n + sum_list (map w xs) \<and> m \<le> 8192"
    by (rule rfoldM_counted) (use assms countsD [OF assms(1)] in \<open>auto simp: list_all_iff\<close>)
next
  assume "\<exists>xs. js = map g xs \<and> list_all ok xs \<and> m = n + sum_list (map w xs) \<and> m \<le> 8192"
  then obtain xs where xs: "js = map g xs" "list_all ok xs" "m = n + sum_list (map w xs)" "m \<le> 8192" by blast
  have "v (g x) k = Inr (k + w x)" if "x \<in> set xs" "k + w x \<le> 8192" for x k
    using countsD [OF assms(1), of "g x" k "k + w x"] that xs assms(2) by (auto simp: list_all_iff)
  then show "rfoldM v js n = Inr m"
    unfolding xs(1,3) by (rule rfoldM_count) (use xs in auto)
qed

datatype TypeSlot = Unspecified | NullSlot | Slot ModelType

fun slot_doc :: "TypeSlot \<Rightarrow> Json option" where
  "slot_doc Unspecified = None"
| "slot_doc NullSlot = Some JNull"
| "slot_doc (Slot t) = Some (type_json t)"

fun slot_ok :: "TypeSlot \<Rightarrow> bool" where
  "slot_ok (Slot t) = fits 0 t"
| "slot_ok s = True"

fun slot_nodes :: "TypeSlot \<Rightarrow> nat" where
  "slot_nodes (Slot t) = type_nodes t"
| "slot_nodes s = 0"

lemma type_json_not_null [simp]: "\<not> is_null (type_json t)" "type_json t \<noteq> JNull" "JNull \<noteq> type_json t"
  by (cases t; simp add: kinded_def jobject_def is_null_def)+

lemma expected_type_iff:
  assumes "json_wf j" "n \<le> 8192"
  shows "validate_expected_type path j n = Inr m \<longleftrightarrow>
    (\<exists>s. jfind ''expectedType'' j = slot_doc s \<and> slot_ok s \<and> m = n + slot_nodes s \<and> m \<le> 8192)"
proof (cases "jfind ''expectedType'' j")
  case None
  have none: "None = slot_doc s \<longleftrightarrow> s = Unspecified" for s by (cases s) auto
  show ?thesis unfolding None none using assms(2) None by (auto simp: validate_expected_type_def)
next
  case (Some t)
  have t: "json_wf t" using json_wf_jfind [OF assms(1) Some] .
  show ?thesis
  proof (cases "is_null t")
    case True
    then have null: "Some t = slot_doc s \<longleftrightarrow> s = NullSlot" for s by (cases s) (auto simp: is_null_def split: Json.splits)
    show ?thesis unfolding Some null using assms(2) Some True by (auto simp: validate_expected_type_def)
  next
    case False
    then have slot: "Some t = slot_doc s \<longleftrightarrow> (\<exists>u. s = Slot u \<and> t = type_json u)" for s by (cases s) (auto simp: is_null_def)
    have "validate_expected_type path j n = Inr m \<longleftrightarrow> counted_type 0 t n m"
      using Some False model_type_iff [OF t, of path 0 n m] by (simp add: validate_expected_type_def)
    then show ?thesis unfolding Some slot by (auto simp: counted_type_def)
  qed
qed

lemma jobject_fields_iff:
  assumes "json_wf j" "distinct (map fst kvs)"
  shows "j = jobject kvs \<longleftrightarrow> exact_object j path (map fst kvs) (map fst kvs) = Inr () \<and> (\<forall>kv \<in> set kvs. field_at (fst kv) j = snd kv)"
proof
  assume j: "j = jobject kvs"
  have "map_of (rev kvs) (fst kv) = Some (snd kv)" if "kv \<in> set kvs" for kv
    using assms(2) that by (intro map_of_is_SomeI) (simp_all add: rev_map [symmetric])
  then show "exact_object j path (map fst kvs) (map fst kvs) = Inr () \<and> (\<forall>kv \<in> set kvs. field_at (fst kv) j = snd kv)"
    using j by auto
next
  assume r: "exact_object j path (map fst kvs) (map fst kvs) = Inr () \<and> (\<forall>kv \<in> set kvs. field_at (fst kv) j = snd kv)"
  then have "j = jobject (map (\<lambda>k. (k, field_at k j)) (map fst kvs))" using exact_object_fields [OF assms(1)] by blast
  also have "map (\<lambda>k. (k, field_at k j)) (map fst kvs) = kvs" using r by (auto intro!: map_idI)
  finally show "j = jobject kvs" .
qed

section \<open>Actions\<close>

lemma status_unexpected_Inr [simp]: "status_unexpected t \<noteq> Inr x" "Inr x \<noteq> status_unexpected t"
  by (simp_all add: status_unexpected_def)

datatype PathRoot = InitialRoot | ParametersRoot

fun root_name :: "PathRoot \<Rightarrow> string" where
  "root_name InitialRoot = ''initialState''"
| "root_name ParametersRoot = ''stepParameters''"

datatype ActionInput = ActionInput (input_id: string) (input_root: PathRoot) (input_path: "PathSegment list") (input_type: TypeSlot)

definition from_json :: "PathRoot \<Rightarrow> PathSegment list \<Rightarrow> Json" where
  "from_json r p = jobject [(''root'', JString (root_name r)), (''path'', JArray (map segment_json p))]"

fun input_json :: "ActionInput \<Rightarrow> Json" where
  "input_json (ActionInput i r p s) =
     jobject ([(''id'', JString i), (''from'', from_json r p)] @ opt_field ''expectedType'' id (slot_doc s))"

fun input_ok :: "ActionInput \<Rightarrow> bool" where
  "input_ok (ActionInput i r p s) = (length i \<le> 256 \<and> length p \<le> 32 \<and> list_all segment_ok p \<and> slot_ok s)"

lemma segments_iff:
  assumes "json_wf j"
  shows "bounded_array b j \<and> rfoldM (\<lambda>seg u. validate_path_segment path seg) (array_items j) () = Inr () \<longleftrightarrow>
    (\<exists>p. j = JArray (map segment_json p) \<and> length p \<le> b \<and> list_all segment_ok p)"
proof (cases "\<exists>js. j = JArray js")
  case True
  then obtain js where j: "j = JArray js" by blast
  have "(\<forall>x \<in> set js. validate_path_segment path x = Inr ()) \<longleftrightarrow> list_all (\<lambda>x. \<exists>g. x = segment_json g \<and> segment_ok g) js"
    using assms j path_segment_iff by (auto simp: list_all_iff)
  then show ?thesis using j by (auto simp: bounded_array_def array_items_def rfoldM_checked list_all_range)
next
  case False
  then show ?thesis by (auto simp: bounded_array_def split: Json.splits)
qed

lemma root_iff:
  "(case string_field j ''root'' path of Inr root \<Rightarrow> if root = ''initialState'' \<or> root = ''stepParameters'' then Inr () else status_unexpected t
    | Inl _ \<Rightarrow> status_unexpected t) = Inr () \<longleftrightarrow> (\<exists>r. jfind ''root'' j = Some (JString (root_name r)))"
proof -
  have "(\<exists>r. s = root_name r) \<longleftrightarrow> s = ''initialState'' \<or> s = ''stepParameters''" for s
    by (metis PathRoot.exhaust root_name.simps)
  then show ?thesis by (auto simp: status_unexpected_def string_field_def split: sum.splits if_splits option.splits Json.splits)
qed

lemma counts_input: "counts (validate_input path) input_json input_ok (\<lambda>i. slot_nodes (input_type i))"
  unfolding counts_def
proof (intro allI impI)
  fix j and n m :: nat
  assume wf: "json_wf j" and n: "n \<le> 8192"
  let ?f = "field_at ''from'' j"
  have wff: "json_wf ?f" using json_wf_field_at [OF wf] .
  have from_iff: "?f = from_json r p \<longleftrightarrow> exact_object ?f path [''root'', ''path''] [''root'', ''path''] = Inr ()
      \<and> jfind ''root'' ?f = Some (JString (root_name r)) \<and> field_at ''path'' ?f = JArray (map segment_json p)" for r p
    unfolding from_json_def jobject_fields_iff [OF wff, of "[(''root'', JString (root_name r)), (''path'', JArray (map segment_json p))]" path, simplified]
    by (auto simp: field_at_def split: option.splits)
  have in_iff: "j = input_json (ActionInput i r p s) \<longleftrightarrow> exact_object j path [''id'', ''from'', ''expectedType''] [''id'', ''from''] = Inr ()
      \<and> field_at ''id'' j = JString i \<and> ?f = from_json r p \<and> jfind ''expectedType'' j = slot_doc s" for i r p s
    using jobject_eq_iff [OF wf, of "[(''id'', JString i), (''from'', from_json r p)]" "''expectedType''" "slot_doc s" path] by simp
  have "validate_input path j n = Inr m \<longleftrightarrow> exact_object j path [''id'', ''from'', ''expectedType''] [''id'', ''from''] = Inr ()
      \<and> short_string (field_at ''id'' j) path = Inr () \<and> exact_object ?f path [''root'', ''path''] [''root'', ''path''] = Inr ()
      \<and> (\<exists>r. jfind ''root'' ?f = Some (JString (root_name r)))
      \<and> (bounded_array 32 (field_at ''path'' ?f)
         \<and> rfoldM (\<lambda>seg u. validate_path_segment path seg) (array_items (field_at ''path'' ?f)) () = Inr ())
      \<and> validate_expected_type path j n = Inr m"
    by (auto simp: validate_input_def Let_def rbind_eq_Inr root_iff)
  also have "\<dots> \<longleftrightarrow> (\<exists>i r p s. j = input_json (ActionInput i r p s) \<and> input_ok (ActionInput i r p s)
      \<and> m = n + slot_nodes s \<and> m \<le> 8192)"
    unfolding segments_iff [OF json_wf_field_at [OF wff]] expected_type_iff [OF wf n] short_string_iff in_iff from_iff by auto
  also have "\<dots> \<longleftrightarrow> (\<exists>x. j = input_json x \<and> input_ok x \<and> m = n + slot_nodes (input_type x) \<and> m \<le> 8192)"
    by (metis ActionInput.exhaust ActionInput.sel(4))
  finally show "validate_input path j n = Inr m \<longleftrightarrow> \<dots>" .
qed

datatype ContractAction = ContractAction (action_id: string) (wire_action: string) (wire_aliases: "string list")
  (action_inputs: "ActionInput list")

fun action_json :: "ContractAction \<Rightarrow> Json" where
  "action_json (ContractAction i w as ins) = jobject [(''id'', JString i), (''wireAction'', JString w),
     (''wireAliases'', JArray (map JString as)), (''inputs'', JArray (map input_json ins))]"

fun action_ok :: "ContractAction \<Rightarrow> bool" where
  "action_ok (ContractAction i w as ins) = (length i \<le> 256 \<and> length w \<le> 256 \<and> length as \<le> 16
     \<and> list_all (\<lambda>a. length a \<le> 256) as \<and> length ins \<le> 128 \<and> list_all input_ok ins)"

definition action_nodes :: "ContractAction \<Rightarrow> nat" where
  "action_nodes a = sum_list (map (\<lambda>i. slot_nodes (input_type i)) (action_inputs a))"

lemma aliases_iff:
  "bounded_array b j \<and> rfoldM (\<lambda>a u. short_string a path) (array_items j) () = Inr () \<longleftrightarrow>
    (\<exists>as. j = JArray (map JString as) \<and> length as \<le> b \<and> list_all (\<lambda>a. length a \<le> 256) as)"
proof (cases "\<exists>js. j = JArray js")
  case True
  then obtain js where j: "j = JArray js" by blast
  have "(\<forall>x \<in> set js. short_string x path = Inr ()) \<longleftrightarrow> list_all (\<lambda>x. \<exists>a. x = JString a \<and> length a \<le> 256) js"
    by (auto simp: list_all_iff short_string_iff)
  then show ?thesis using j by (auto simp: bounded_array_def array_items_def rfoldM_checked list_all_range)
next
  case False
  then show ?thesis by (auto simp: bounded_array_def split: Json.splits)
qed

text \<open>A bounded array read by a counted validator.\<close>

lemma counted_array_iff:
  assumes "counts v g ok w" "json_wf j" "n \<le> 8192"
  shows "bounded_array b j \<and> rfoldM v (array_items j) n = Inr m \<longleftrightarrow>
    (\<exists>xs. j = JArray (map g xs) \<and> length xs \<le> b \<and> list_all ok xs \<and> m = n + sum_list (map w xs) \<and> m \<le> 8192)"
proof (cases "\<exists>js. j = JArray js")
  case True
  then obtain js where j: "j = JArray js" by blast
  with assms counts_fold [of v g ok w js n m] show ?thesis by (auto simp: bounded_array_def array_items_def)
next
  case False
  then show ?thesis by (auto simp: bounded_array_def split: Json.splits)
qed

lemma counts_action: "counts (validate_contract_action path) action_json action_ok action_nodes"
  unfolding counts_def
proof (intro allI impI)
  fix j and n m :: nat
  assume wf: "json_wf j" and n: "n \<le> 8192"
  let ?ks = "[''id'', ''wireAction'', ''wireAliases'', ''inputs'']"
  have act_iff: "j = action_json (ContractAction i w as ins) \<longleftrightarrow> exact_object j path ?ks ?ks = Inr () \<and> field_at ''id'' j = JString i
      \<and> field_at ''wireAction'' j = JString w \<and> field_at ''wireAliases'' j = JArray (map JString as)
      \<and> field_at ''inputs'' j = JArray (map input_json ins)" for i w as ins
    using jobject_fields_iff [OF wf, of "[(''id'', JString i), (''wireAction'', JString w),
      (''wireAliases'', JArray (map JString as)), (''inputs'', JArray (map input_json ins))]" path] by simp
  have "validate_contract_action path j n = Inr m \<longleftrightarrow> exact_object j path ?ks ?ks = Inr ()
      \<and> short_string (field_at ''id'' j) path = Inr () \<and> short_string (field_at ''wireAction'' j) path = Inr ()
      \<and> (bounded_array 16 (field_at ''wireAliases'' j)
        \<and> rfoldM (\<lambda>a u. short_string a path) (array_items (field_at ''wireAliases'' j)) () = Inr ())
      \<and> (bounded_array 128 (field_at ''inputs'' j) \<and> rfoldM (validate_input path) (array_items (field_at ''inputs'' j)) n = Inr m)"
    by (auto simp: validate_contract_action_def rbind_eq_Inr)
  also have "\<dots> \<longleftrightarrow> (\<exists>i w as ins. j = action_json (ContractAction i w as ins) \<and> action_ok (ContractAction i w as ins)
      \<and> m = n + action_nodes (ContractAction i w as ins) \<and> m \<le> 8192)"
    unfolding aliases_iff counted_array_iff [OF counts_input json_wf_field_at [OF wf] n] short_string_iff act_iff
    by (auto simp: action_nodes_def)
  also have "\<dots> \<longleftrightarrow> (\<exists>x. j = action_json x \<and> action_ok x \<and> m = n + action_nodes x \<and> m \<le> 8192)"
    by (metis ContractAction.exhaust)
  finally show "validate_contract_action path j n = Inr m \<longleftrightarrow> \<dots>" .
qed

section \<open>Observations\<close>

datatype Provenance = FromImplementation | FromOracle | Derived

fun provenance_name :: "Provenance \<Rightarrow> string" where
  "provenance_name FromImplementation = ''implementation''"
| "provenance_name FromOracle = ''oracle''"
| "provenance_name Derived = ''derived''"

datatype Observation = Observation (obs_id: string) (obs_wire: string) (obs_provenance: Provenance) (obs_type: TypeSlot)

fun contract_observation_json :: "Observation \<Rightarrow> Json" where
  "contract_observation_json (Observation i w p s) = jobject ([(''id'', JString i), (''wireName'', JString w),
     (''provenance'', JString (provenance_name p))] @ opt_field ''expectedType'' id (slot_doc s))"

fun observation_ok :: "Observation \<Rightarrow> bool" where
  "observation_ok (Observation i w p s) = (length i \<le> 256 \<and> length w \<le> 256 \<and> slot_ok s)"

lemma provenance_iff:
  "(case string_field j ''provenance'' path of
      Inr p \<Rightarrow> if p = ''implementation'' \<or> p = ''oracle'' \<or> p = ''derived'' then Inr () else status_unexpected t
    | Inl _ \<Rightarrow> status_unexpected t) = Inr () \<longleftrightarrow> (\<exists>p. jfind ''provenance'' j = Some (JString (provenance_name p)))"
proof -
  have "(\<exists>p. s = provenance_name p) \<longleftrightarrow> s = ''implementation'' \<or> s = ''oracle'' \<or> s = ''derived''" for s
    by (metis Provenance.exhaust provenance_name.simps)
  then show ?thesis by (auto simp: string_field_def status_unexpected_def split: sum.splits if_splits option.splits Json.splits)
qed

lemma counts_observation:
  "counts (validate_observation path) contract_observation_json observation_ok (\<lambda>x. slot_nodes (obs_type x))"
  unfolding counts_def
proof (intro allI impI)
  fix j and n m :: nat
  assume wf: "json_wf j" and n: "n \<le> 8192"
  let ?ks = "[''id'', ''wireName'', ''provenance'']"
  have obs_iff: "j = contract_observation_json (Observation i w p s) \<longleftrightarrow> exact_object j path [''id'', ''wireName'', ''provenance'', ''expectedType''] ?ks = Inr ()
      \<and> field_at ''id'' j = JString i \<and> field_at ''wireName'' j = JString w
      \<and> jfind ''provenance'' j = Some (JString (provenance_name p)) \<and> jfind ''expectedType'' j = slot_doc s" for i w p s
    using jobject_eq_iff [OF wf, of "[(''id'', JString i), (''wireName'', JString w), (''provenance'', JString (provenance_name p))]"
        "''expectedType''" "slot_doc s" path] by (auto simp: field_at_def split: option.splits)
  have "validate_observation path j n = Inr m \<longleftrightarrow> exact_object j path [''id'', ''wireName'', ''provenance'', ''expectedType''] ?ks = Inr ()
      \<and> short_string (field_at ''id'' j) path = Inr () \<and> short_string (field_at ''wireName'' j) path = Inr ()
      \<and> (\<exists>p. jfind ''provenance'' j = Some (JString (provenance_name p))) \<and> validate_expected_type path j n = Inr m"
    by (auto simp: validate_observation_def rbind_eq_Inr provenance_iff)
  also have "\<dots> \<longleftrightarrow> (\<exists>i w p s. j = contract_observation_json (Observation i w p s) \<and> observation_ok (Observation i w p s)
      \<and> m = n + slot_nodes s \<and> m \<le> 8192)"
    unfolding expected_type_iff [OF wf n] short_string_iff obs_iff by auto
  also have "\<dots> \<longleftrightarrow> (\<exists>x. j = contract_observation_json x \<and> observation_ok x \<and> m = n + slot_nodes (obs_type x) \<and> m \<le> 8192)"
    by (metis Observation.exhaust Observation.sel(4))
  finally show "validate_observation path j n = Inr m \<longleftrightarrow> \<dots>" .
qed

section \<open>Contracts\<close>

datatype Contract = Contract (interface_version: string) (model_module: string) (model_source: string)
  (action_variable: string) (parameter_variable: "string option")
  (initializers: "ContractAction list") (contract_actions: "ContractAction list") (contract_observations: "Observation list")

definition model_json :: "string \<Rightarrow> string \<Rightarrow> Json" where
  "model_json m s = jobject [(''module'', JString m), (''source'', JString s)]"

definition parameter_json :: "string option \<Rightarrow> Json" where
  "parameter_json p = (case p of None \<Rightarrow> JNull | Some s \<Rightarrow> JString s)"

definition wire_json :: "string \<Rightarrow> string option \<Rightarrow> Json" where
  "wire_json a p = jobject [(''actionVariable'', JString a), (''parameterVariable'', parameter_json p)]"

fun contract_json :: "Contract \<Rightarrow> Json" where
  "contract_json (Contract v m s a p ins acts obs) = jobject [(''schema'', JString model_interface_contract_schema),
     (''interfaceVersion'', JString v), (''model'', model_json m s), (''wire'', wire_json a p),
     (''initializers'', JArray (map action_json ins)), (''actions'', JArray (map action_json acts)),
     (''observations'', JArray (map contract_observation_json obs))]"

fun contract_ok :: "Contract \<Rightarrow> bool" where
  "contract_ok (Contract v m s a p ins acts obs) =
     (length v \<le> 256 \<and> length m \<le> 256 \<and> length s \<le> 256 \<and> length a \<le> 256 \<and> (\<forall>x \<in> set_option p. length x \<le> 256)
      \<and> length ins \<le> 32 \<and> length acts \<le> 256 \<and> length obs \<le> 1024
      \<and> list_all action_ok ins \<and> list_all action_ok acts \<and> list_all observation_ok obs
      \<and> sum_list (map action_nodes ins) + sum_list (map action_nodes acts)
        + sum_list (map (\<lambda>x. slot_nodes (obs_type x)) obs) \<le> 8192)"

lemma parameter_iff:
  "(if is_null j then Inr () else short_string j path) = Inr () \<longleftrightarrow> (\<exists>p. j = parameter_json p \<and> (\<forall>x \<in> set_option p. length x \<le> 256))"
proof
  assume "(if is_null j then Inr () else short_string j path) = Inr ()"
  then consider "j = JNull" | s where "j = JString s" "length s \<le> 256"
    by (auto simp: short_string_iff is_null_def split: if_splits Json.splits)
  then show "\<exists>p. j = parameter_json p \<and> (\<forall>x \<in> set_option p. length x \<le> 256)"
    by cases (auto simp: parameter_json_def intro: exI [of _ None] exI [of _ "Some _"])
qed (auto simp: parameter_json_def is_null_def short_string_def split: option.splits)

lemma schema_iff:
  "(case string_field j ''schema'' path of Inr s \<Rightarrow> if s = model_interface_contract_schema then Inr () else status_unexpected t
    | Inl _ \<Rightarrow> status_unexpected t) = Inr () \<longleftrightarrow> jfind ''schema'' j = Some (JString model_interface_contract_schema)"
  by (auto simp: string_field_def status_unexpected_def split: sum.splits if_splits option.splits Json.splits)

lemma contract_header_iff:
  assumes "json_wf j"
  shows "validate_contract_header j = Inr () \<longleftrightarrow> jfind ''schema'' j = Some (JString model_interface_contract_schema)
    \<and> (\<exists>v m s a p. field_at ''interfaceVersion'' j = JString v \<and> field_at ''model'' j = model_json m s \<and> field_at ''wire'' j = wire_json a p
      \<and> length v \<le> 256 \<and> length m \<le> 256 \<and> length s \<le> 256 \<and> length a \<le> 256 \<and> (\<forall>x \<in> set_option p. length x \<le> 256))"
proof -
  have wf: "json_wf (field_at k j)" for k using json_wf_field_at [OF assms] .
  have model: "field_at ''model'' j = model_json m s \<longleftrightarrow> exact_object (field_at ''model'' j) contract_path [''module'', ''source''] [''module'', ''source''] = Inr ()
      \<and> field_at ''module'' (field_at ''model'' j) = JString m \<and> field_at ''source'' (field_at ''model'' j) = JString s" for m s
    using jobject_fields_iff [OF wf, of "[(''module'', JString m), (''source'', JString s)]" "''model''" contract_path]
    by (simp add: model_json_def)
  have wire: "field_at ''wire'' j = wire_json a p \<longleftrightarrow>
      exact_object (field_at ''wire'' j) contract_path [''actionVariable'', ''parameterVariable''] [''actionVariable'', ''parameterVariable''] = Inr ()
      \<and> field_at ''actionVariable'' (field_at ''wire'' j) = JString a \<and> field_at ''parameterVariable'' (field_at ''wire'' j) = parameter_json p" for a p
    using jobject_fields_iff [OF wf, of "[(''actionVariable'', JString a), (''parameterVariable'', parameter_json p)]" "''wire''" contract_path]
    by (simp add: wire_json_def)
  show ?thesis
    unfolding validate_contract_header_def Let_def rbind_eq_Inr short_string_iff parameter_iff model wire by (auto simp: schema_iff)
qed

abbreviation check_actions :: "Json list \<Rightarrow> nat \<Rightarrow> nat result" where
  "check_actions \<equiv> rfoldM (validate_contract_action contract_path)"

abbreviation check_observations :: "Json list \<Rightarrow> nat \<Rightarrow> nat result" where
  "check_observations \<equiv> rfoldM (validate_observation contract_path)"

lemma contract_arrays_iff:
  assumes "json_wf j"
  shows "(\<exists>n1 n2 n3. (bounded_array 32 (field_at ''initializers'' j) \<and> check_actions (array_items (field_at ''initializers'' j)) 0 = Inr n1)
      \<and> (bounded_array 256 (field_at ''actions'' j) \<and> check_actions (array_items (field_at ''actions'' j)) n1 = Inr n2)
      \<and> (bounded_array 1024 (field_at ''observations'' j) \<and> check_observations (array_items (field_at ''observations'' j)) n2 = Inr n3))
    \<longleftrightarrow> (\<exists>ins acts obs. field_at ''initializers'' j = JArray (map action_json ins) \<and> field_at ''actions'' j = JArray (map action_json acts)
      \<and> field_at ''observations'' j = JArray (map contract_observation_json obs) \<and> length ins \<le> 32 \<and> length acts \<le> 256 \<and> length obs \<le> 1024
      \<and> list_all action_ok ins \<and> list_all action_ok acts \<and> list_all observation_ok obs
      \<and> sum_list (map action_nodes ins) + sum_list (map action_nodes acts) + sum_list (map (\<lambda>x. slot_nodes (obs_type x)) obs) \<le> 8192)"
    (is "?checks \<longleftrightarrow> ?docs")
proof -
  have wf: "json_wf (field_at k j)" for k using json_wf_field_at [OF assms] .
  note act = counted_array_iff [OF counts_action wf] and obs = counted_array_iff [OF counts_observation wf]
  show ?thesis
  proof
    assume ?checks
    then obtain n1 n2 n3 where
      n1: "bounded_array 32 (field_at ''initializers'' j) \<and> check_actions (array_items (field_at ''initializers'' j)) 0 = Inr n1"
      and n2: "bounded_array 256 (field_at ''actions'' j) \<and> check_actions (array_items (field_at ''actions'' j)) n1 = Inr n2"
      and n3: "bounded_array 1024 (field_at ''observations'' j) \<and> check_observations (array_items (field_at ''observations'' j)) n2 = Inr n3"
      by (elim exE conjE) (rule that, simp_all)
    from act [THEN iffD1, OF le0 n1] obtain ins where ins: "field_at ''initializers'' j = JArray (map action_json ins)"
      "length ins \<le> 32" "list_all action_ok ins" "n1 = sum_list (map action_nodes ins)" "n1 \<le> 8192" by auto
    from act [THEN iffD1, OF ins(5) n2] obtain acts where acts: "field_at ''actions'' j = JArray (map action_json acts)"
      "length acts \<le> 256" "list_all action_ok acts" "n2 = n1 + sum_list (map action_nodes acts)" "n2 \<le> 8192" by auto
    from obs [THEN iffD1, OF acts(5) n3] obtain obs where "field_at ''observations'' j = JArray (map contract_observation_json obs)"
      "length obs \<le> 1024" "list_all observation_ok obs" "n3 = n2 + sum_list (map (\<lambda>x. slot_nodes (obs_type x)) obs)" "n3 \<le> 8192" by auto
    with ins acts show ?docs by (intro exI [of _ ins] exI [of _ acts] exI [of _ obs]) simp
  next
    assume ?docs
    then obtain ins acts xs where docs: "field_at ''initializers'' j = JArray (map action_json ins)"
      "field_at ''actions'' j = JArray (map action_json acts)" "field_at ''observations'' j = JArray (map contract_observation_json xs)"
      "length ins \<le> 32" "length acts \<le> 256" "length xs \<le> 1024" "list_all action_ok ins" "list_all action_ok acts" "list_all observation_ok xs"
      "sum_list (map action_nodes ins) + sum_list (map action_nodes acts) + sum_list (map (\<lambda>x. slot_nodes (obs_type x)) xs) \<le> 8192"
      by (elim exE conjE) (rule that, assumption+)
    let ?n1 = "sum_list (map action_nodes ins)" and ?n2 = "sum_list (map action_nodes ins) + sum_list (map action_nodes acts)"
    show ?checks
      by (rule exI [of _ ?n1], rule exI [of _ ?n2], rule exI, intro conjI [of "_ \<and> _" "(_ \<and> _) \<and> (_ \<and> _)"] conjI [of "_ \<and> _" "_ \<and> _"],
          rule act [THEN iffD2], simp, rule exI [of _ ins], use docs in simp, rule act [THEN iffD2], use docs in simp, rule exI [of _ acts],
          use docs in simp, rule obs [THEN iffD2], use docs in simp, rule exI [of _ xs], use docs in auto)
  qed
qed

lemma contract_iff:
  assumes "json_wf j"
  shows "validate_contract j = Inr () \<longleftrightarrow> (\<exists>c. j = contract_json c \<and> contract_ok c)"
proof -
  have wf: "json_wf (field_at k j)" for k using json_wf_field_at [OF assms] .
  have doc: "j = contract_json (Contract v m s a p ins acts obs) \<longleftrightarrow> exact_object j contract_path contract_fields contract_fields = Inr ()
      \<and> jfind ''schema'' j = Some (JString model_interface_contract_schema) \<and> field_at ''interfaceVersion'' j = JString v
      \<and> field_at ''model'' j = model_json m s \<and> field_at ''wire'' j = wire_json a p
      \<and> field_at ''initializers'' j = JArray (map action_json ins) \<and> field_at ''actions'' j = JArray (map action_json acts)
      \<and> field_at ''observations'' j = JArray (map contract_observation_json obs)" for v m s a p ins acts obs
    using jobject_fields_iff [OF assms, of "[(''schema'', JString model_interface_contract_schema),
     (''interfaceVersion'', JString v), (''model'', model_json m s), (''wire'', wire_json a p),
     (''initializers'', JArray (map action_json ins)), (''actions'', JArray (map action_json acts)),
     (''observations'', JArray (map contract_observation_json obs))]" contract_path]
    by (auto simp: contract_fields_def field_at_def split: option.splits)
  have "validate_contract j = Inr () \<longleftrightarrow> exact_object j contract_path contract_fields contract_fields = Inr ()
      \<and> validate_contract_header j = Inr () \<and> (\<exists>n1 n2 n3.
        (bounded_array 32 (field_at ''initializers'' j) \<and> check_actions (array_items (field_at ''initializers'' j)) 0 = Inr n1)
        \<and> (bounded_array 256 (field_at ''actions'' j) \<and> check_actions (array_items (field_at ''actions'' j)) n1 = Inr n2)
        \<and> (bounded_array 1024 (field_at ''observations'' j) \<and> check_observations (array_items (field_at ''observations'' j)) n2 = Inr n3))"
    by (auto simp: validate_contract_def rbind_eq_Inr)
  also have "\<dots> \<longleftrightarrow> (\<exists>v m s a p ins acts obs. j = contract_json (Contract v m s a p ins acts obs)
      \<and> contract_ok (Contract v m s a p ins acts obs))"
    unfolding contract_header_iff [OF assms] contract_arrays_iff [OF assms] doc contract_ok.simps by blast
  also have "\<dots> \<longleftrightarrow> (\<exists>c. j = contract_json c \<and> contract_ok c)" by (metis Contract.exhaust)
  finally show ?thesis .
qed

text \<open>C13: the validator of inline contracts accepts a document exactly when it is the document of a contract of the
  interface grammar whose names, lists, types and literals stay within the published bounds: 256 bytes for every name,
  32 initializers, 256 actions, 1024 observations, 16 aliases and 128 inputs of an action, paths of 32 segments,
  types of 32 levels and, over the whole contract, 8192 type nodes.\<close>

theorem validate_contract_iff:
  assumes "json_wf j"
  shows "validate_contract j = Inr () \<longleftrightarrow> (\<exists>c. j = contract_json c \<and> contract_ok c)"
  by (rule contract_iff [OF assms])

definition sample_contract :: Contract where
  "sample_contract = Contract ''1'' ''Clock'' ''Clock.tla'' ''action'' (Some ''params'')
     [ContractAction ''init'' ''Init'' [] []]
     [ContractAction ''tick'' ''Tick'' [''Tock'']
        [ActionInput ''by'' ParametersRoot [FieldSelector ''step'', MapKeySelector (LitInt ''-7''), IndexSelector (SignedIndex 2)]
           (Slot (RecordType [(''hour'', IntType), (''zone'', SetType StrType)]))]]
     [Observation ''hour'' ''hr'' FromImplementation NullSlot, Observation ''zone'' ''tz'' FromOracle Unspecified]"

lemma sample_contract_wf: "json_wf (contract_json sample_contract)"
  by (simp add: sample_contract_def model_json_def wire_json_def parameter_json_def from_json_def opt_field_def kinded_def
      entry_json_def om_wf_Cons)

lemma sample_contract_ok: "contract_ok sample_contract"
  by (simp add: sample_contract_def action_nodes_def fits_def labels_ok_def decimal_syntax_def char_class_defs max_of_def)

lemma sample_contract_valid: "validate_contract (contract_json sample_contract) = Inr ()"
  using contract_iff [OF sample_contract_wf] sample_contract_ok by blast

theorem validate_contract_iff_witness: "validate_contract (contract_json sample_contract) = Inr ()"
  by (rule validate_contract_iff [THEN iffD2]) (use sample_contract_wf sample_contract_ok in blast)+

end
