(* ===== verification/Model_Interface.thy ===== *)
theory Model_Interface
  imports Contract_Validation Stepping_Flows
begin

text \<open>
  The rest of \<^verbatim>\<open>src/model_interface.cpp\<close> and \<^verbatim>\<open>include/mirrorcpp/model_interface.hpp\<close>: the strict parser, semantic
  digests, the verification request, the decoding of registration replies, and the registry of compiled
  adapters.

  \<open>negotiation_lib\<close> holds what is used of the JSON library beyond \<open>json_lib\<close>: the events the callback parser reports
  for a text up to the point where parsing ends or fails, and the text of the exception of \<^verbatim>\<open>operator[]\<close> on a document
  of another type. The result of the callback parser is that of \<open>lib_parse\<close>, since the callback discards nothing;
  what the callback throws ends the parse first. An adapter factory is of any type here.
\<close>

section \<open>Strict parsing\<close>

record negotiation_lib =
  nl_events :: "string \<Rightarrow> parse_event list"
  nl_index_what :: "Json \<Rightarrow> string"

definition strict_enter :: "callback_state \<Rightarrow> string + callback_state" where
  "strict_enter st = (if snd st + 1 > 128 then Inl ''JSON nesting exceeds 128'' else Inr (fst st, snd st + 1))"

definition strict_callback :: "callback_state \<Rightarrow> parse_event \<Rightarrow> string + callback_state" where
  "strict_callback st ev = (case ev of
     ObjectStart \<Rightarrow> rbind (strict_enter st) (\<lambda>(keys, n). Inr ({} # keys, n))
   | ArrayStart \<Rightarrow> strict_enter st
   | ObjectEnd \<Rightarrow> Inr (tl (fst st), snd st - 1)
   | ArrayEnd \<Rightarrow> Inr (fst st, snd st - 1)
   | KeyEvent k \<Rightarrow>
       (case fst st of
          [] \<Rightarrow> Inl ''object key outside object''
        | keys # outer \<Rightarrow>
            (if k \<in> keys then Inl (''duplicate object key '' @ in_quotes k) else Inr (insert k keys # outer, snd st)))
   | ValueEvent \<Rightarrow> Inr st)"

definition parse_what :: "parse_failure \<Rightarrow> string" where
  "parse_what f = (case f of ParseError what \<Rightarrow> what | NumberRange what \<Rightarrow> what)"

definition strict_parse :: "json_lib \<Rightarrow> negotiation_lib \<Rightarrow> string \<Rightarrow> Json result" where
  "strict_parse L N text =
     (if length text > 65535 then status_unexpected ''strict JSON exceeds the 65535-byte protocol payload limit''
      else case rfoldM (\<lambda>ev st. strict_callback st ev) (nl_events N text) ([], 0) of
        Inl what \<Rightarrow> status_unexpected (''strict JSON decode failed: '' @ what)
      | Inr _ \<Rightarrow>
          (case lib_parse L text of
             Inl f \<Rightarrow> status_unexpected (''strict JSON decode failed: '' @ parse_what f)
           | Inr j \<Rightarrow> Inr j))"

section \<open>Semantic digests\<close>

datatype SemanticDigest = SemanticDigest (digest_array: "8 word list")

text \<open>\<^verbatim>\<open>std::array<std::uint8_t, 32>\<close>.\<close>

definition digest_wf :: "SemanticDigest \<Rightarrow> bool" where
  "digest_wf d = (length (digest_array d) = 32)"

definition nibble :: "char \<Rightarrow> int" where
  "nibble ch = (if is_digit ch then int (byte_of ch) - 48
     else if 97 \<le> byte_of ch \<and> byte_of ch \<le> 102 then 10 + int (byte_of ch) - 97 else - 1)"

definition digest_byte :: "string \<Rightarrow> nat \<Rightarrow> (8 word) result" where
  "digest_byte hex index =
     (let high = nibble (hex ! (index * 2)); low = nibble (hex ! (index * 2 + 1)) in
      if high < 0 \<or> low < 0
      then Inl (mi_error ''descriptor_digest_invalid'' ''semantic digest must contain lowercase hexadecimal'')
      else Inr (word_of_int (or (push_bit 4 high) low)))"

definition semantic_digest_from_hex :: "string \<Rightarrow> SemanticDigest result" where
  "semantic_digest_from_hex hex =
     (if length hex \<noteq> 64
      then Inl (mi_error ''descriptor_digest_invalid'' ''semantic digest must contain 64 lowercase hex characters'')
      else rbind (rmapM (digest_byte hex) [0..<32]) (\<lambda>bytes. Inr (SemanticDigest bytes)))"

definition digest_prefix :: string where
  "digest_prefix = ''sha256:''"

definition parse_wire_semantic_digest :: "string \<Rightarrow> SemanticDigest result" where
  "parse_wire_semantic_digest wire =
     (if take (length digest_prefix) wire \<noteq> digest_prefix
      then Inl (mi_error ''descriptor_digest_invalid'' ''semantic digest must start with sha256:'')
      else semantic_digest_from_hex (drop (length digest_prefix) wire))"

definition hex_table :: string where
  "hex_table = ''0123456789abcdef''"

definition byte_hex :: "8 word \<Rightarrow> string" where
  "byte_hex b = [hex_table ! unat (drop_bit 4 b), hex_table ! unat (and b 15)]"

definition semantic_digest_hex :: "SemanticDigest \<Rightarrow> string" where
  "semantic_digest_hex digest = concat (map byte_hex (digest_array digest))"

definition render_wire_semantic_digest :: "SemanticDigest \<Rightarrow> string" where
  "render_wire_semantic_digest digest = digest_prefix @ semantic_digest_hex digest"

section \<open>Requests\<close>

datatype NegotiationPolicy = PolicyRequire | PolicyPrefer

record GeneratedModelInterface =
  metadata_digest :: string
  metadata_contract :: string

record ModelInterfaceVerifyRequest =
  request_policy :: NegotiationPolicy
  expected_digest :: SemanticDigest
  request_contract :: Json

definition make_verify_request ::
  "json_lib \<Rightarrow> negotiation_lib \<Rightarrow> GeneratedModelInterface \<Rightarrow> NegotiationPolicy \<Rightarrow> ModelInterfaceVerifyRequest result" where
  "make_verify_request L N metadata policy =
     rbind (semantic_digest_from_hex (metadata_digest metadata)) (\<lambda>digest.
     rbind (strict_parse L N (metadata_contract metadata)) (\<lambda>contract.
     rbind (validate_contract contract) (\<lambda>_.
     Inr \<lparr> request_policy = policy, expected_digest = digest, request_contract = contract \<rparr>)))"

definition model_interface_negotiation_schema :: string where
  "model_interface_negotiation_schema = ''mirrors.model-interface-negotiation/v1''"

definition model_interface_descriptor_schema :: string where
  "model_interface_descriptor_schema = ''mirrors.model-interface-descriptor/v1''"

definition request_json :: "ModelInterfaceVerifyRequest \<Rightarrow> Json" where
  "request_json request = jobject [(''schema'', JString model_interface_negotiation_schema), (''request'', JString ''verify''),
     (''policy'', JString (case request_policy request of PolicyRequire \<Rightarrow> ''require'' | PolicyPrefer \<Rightarrow> ''prefer'')),
     (''acceptDescriptorSchemas'', JArray [JString model_interface_descriptor_schema]),
     (''expectedSemanticDigest'', JString (render_wire_semantic_digest (expected_digest request))),
     (''contract'', jobject [(''inline'', request_contract request)])]"

definition cannot_encode :: "string \<Rightarrow> 'a result" where
  "cannot_encode what = status_unexpected (''cannot encode registration: '' @ what)"

definition exn_what :: "exn \<Rightarrow> string" where
  "exn_what x = (case x of JsonError w \<Rightarrow> w | JsonLibError w \<Rightarrow> w | BindingError c w \<Rightarrow> w | StdException w \<Rightarrow> w | NonStdException \<Rightarrow> [])"

text \<open>\<^verbatim>\<open>encode_registration\<close>: every exception of the block is caught. An assignment to a key of a document that is
  neither an object nor null throws.\<close>

definition encode_model_interface_registration ::
  "json_lib \<Rightarrow> negotiation_lib \<Rightarrow> ClientMessage \<Rightarrow> ModelInterfaceVerifyRequest \<Rightarrow> string result" where
  "encode_model_interface_registration L N reg request =
     (case encode_client_message L reg of
        Inl x \<Rightarrow> cannot_encode (exn_what x)
      | Inr text \<Rightarrow>
          (case lib_parse L text of
             Inl f \<Rightarrow> cannot_encode (parse_what f)
           | Inr outer \<Rightarrow>
               (if jfind ''modelInterface'' outer \<noteq> None then status_unexpected ''registration already contains modelInterface''
                else rbind (case outer of
                    JObject kvs \<Rightarrow> Inr (JObject (om_put ''modelInterface'' (request_json request) kvs))
                  | JNull \<Rightarrow> Inr (JObject [(''modelInterface'', request_json request)])
                  | _ \<Rightarrow> cannot_encode (nl_index_what N outer)) (\<lambda>extended.
                (case lib_dump L extended of
                   Inl what \<Rightarrow> cannot_encode what
                 | Inr encoded \<Rightarrow>
                     (if length encoded > 65535 then status_unexpected ''model-interface registration exceeds 65535 bytes''
                      else Inr encoded))))))"

section \<open>Registration replies\<close>

datatype ModelInterfaceStatus = MI_matched | MI_resolved | MI_not_modified | MI_mismatch | MI_unsupported | MI_unavailable | MI_too_large

record ModelInterfaceReply =
  reply_status :: ModelInterfaceStatus
  reply_descriptor_schema :: "string option"
  reply_semantic :: "SemanticDigest option"
  reply_provenance :: "SemanticDigest option"

record ModelInterfaceFailure =
  failure_status :: ModelInterfaceStatus
  failure_code :: string
  failure_expected :: "SemanticDigest option"
  failure_actual :: "SemanticDigest option"
  failure_provenance :: "SemanticDigest option"

record DecodedReply =
  decoded_message :: MirrorMessage
  decoded_reply :: "ModelInterfaceReply option"
  decoded_failure :: "ModelInterfaceFailure option"

definition optional_digest :: "Json \<Rightarrow> string \<Rightarrow> string \<Rightarrow> SemanticDigest option result" where
  "optional_digest object key path = (case jfind key object of
     None \<Rightarrow> Inr None
   | Some JNull \<Rightarrow> Inr None
   | Some (JString s) \<Rightarrow> rbind (parse_wire_semantic_digest s) (\<lambda>d. Inr (Some d))
   | Some _ \<Rightarrow> Inl (mi_error ''descriptor_digest_invalid'' (path @ ''.'' @ key @ '': string expected'')))"

definition status_of :: "string \<Rightarrow> ModelInterfaceStatus option" where
  "status_of s = map_of [(''matched'', MI_matched), (''resolved'', MI_resolved), (''not_modified'', MI_not_modified),
     (''mismatch'', MI_mismatch), (''unsupported'', MI_unsupported), (''unavailable'', MI_unavailable), (''too_large'', MI_too_large)] s"

definition decode_status :: "Json \<Rightarrow> ModelInterfaceStatus result" where
  "decode_status object = rbind (string_field object ''status'' ''modelInterface'') (\<lambda>status.
     case status_of status of
       Some s \<Rightarrow> Inr s
     | None \<Rightarrow> status_unexpected (''unknown model-interface status: '' @ status))"

definition absent :: "Json \<Rightarrow> string \<Rightarrow> bool" where
  "absent object key = (case jfind key object of None \<Rightarrow> True | Some j \<Rightarrow> is_null j)"

definition check_schema :: "Json \<Rightarrow> string \<Rightarrow> unit result" where
  "check_schema extension text = (case string_field extension ''schema'' ''modelInterface'' of
     Inr s \<Rightarrow> if s = model_interface_negotiation_schema then Inr () else status_unexpected text
   | Inl _ \<Rightarrow> status_unexpected text)"

definition no_descriptor :: "Json \<Rightarrow> bool" where
  "no_descriptor extension = (absent extension ''descriptor'' \<and> absent extension ''descriptorBytes'')"

definition classify_reply :: "Json \<Rightarrow> ModelInterfaceReply \<Rightarrow> ModelInterfaceReply result" where
  "classify_reply extension reply = (case reply_status reply of
     MI_matched \<Rightarrow>
       (if reply_descriptor_schema reply \<noteq> Some model_interface_descriptor_schema \<or> reply_semantic reply = None
          \<or> \<not> no_descriptor extension
        then status_unexpected ''invalid matched model-interface reply'' else Inr reply)
   | MI_mismatch \<Rightarrow>
       (if \<not> no_descriptor extension then status_unexpected ''mismatch reply carried descriptor data'' else Inr reply)
   | s \<Rightarrow>
       (if s = MI_unsupported \<or> s = MI_unavailable then
          (if reply_descriptor_schema reply \<noteq> None \<or> reply_semantic reply \<noteq> None \<or> reply_provenance reply \<noteq> None
             \<or> \<not> no_descriptor extension
           then status_unexpected ''unavailable negotiation carried descriptor identity'' else Inr reply)
        else status_unexpected ''descriptor-mode status is invalid for a compiled verify client''))"

definition decode_reply :: "Json \<Rightarrow> ModelInterfaceReply result" where
  "decode_reply extension =
     rbind (exact_object extension ''modelInterface'' [''schema'', ''status'', ''descriptorSchema'', ''semanticDigest'',
       ''provenanceDigest'', ''descriptorBytes'', ''descriptor''] [''schema'', ''status'']) (\<lambda>_.
     rbind (check_schema extension ''unsupported model-interface negotiation schema'') (\<lambda>_.
     rbind (decode_status extension) (\<lambda>status.
     rbind (optional_digest extension ''semanticDigest'' ''modelInterface'') (\<lambda>semantic.
     rbind (optional_digest extension ''provenanceDigest'' ''modelInterface'') (\<lambda>provenance.
     rbind (if absent extension ''descriptorSchema'' then Inr None
            else rbind (string_field extension ''descriptorSchema'' ''modelInterface'') (\<lambda>s. Inr (Some s))) (\<lambda>schema.
     classify_reply extension \<lparr> reply_status = status, reply_descriptor_schema = schema, reply_semantic = semantic,
       reply_provenance = provenance \<rparr>))))))"

definition check_descriptor_bytes :: "Json \<Rightarrow> unit result" where
  "check_descriptor_bytes extension = (case jfind ''descriptorBytes'' extension of
     None \<Rightarrow> Inr ()
   | Some b \<Rightarrow> if is_null b \<or> nonnegative_integer b then Inr ()
       else status_unexpected ''modelInterface.descriptorBytes: nonnegative integer expected'')"

definition decode_failure :: "Json \<Rightarrow> ModelInterfaceFailure result" where
  "decode_failure extension =
     rbind (exact_object extension ''modelInterface'' [''schema'', ''status'', ''code'', ''expectedSemanticDigest'',
       ''actualSemanticDigest'', ''provenanceDigest'', ''descriptorBytes''] [''schema'', ''status'', ''code'']) (\<lambda>_.
     rbind (check_schema extension ''unsupported model-interface failure schema'') (\<lambda>_.
     rbind (decode_status extension) (\<lambda>status.
     if status \<noteq> MI_mismatch \<and> status \<noteq> MI_unsupported \<and> status \<noteq> MI_unavailable
     then status_unexpected ''unexpected status on verify register_error''
     else rbind (check_descriptor_bytes extension) (\<lambda>_.
     rbind (case string_field extension ''code'' ''modelInterface'' of
              Inr code \<Rightarrow> if code = [] then status_unexpected ''model-interface failure code is empty'' else Inr code
            | Inl _ \<Rightarrow> status_unexpected ''model-interface failure code is empty'') (\<lambda>code.
     rbind (optional_digest extension ''expectedSemanticDigest'' ''modelInterface'') (\<lambda>expected.
     rbind (optional_digest extension ''actualSemanticDigest'' ''modelInterface'') (\<lambda>actual.
     rbind (optional_digest extension ''provenanceDigest'' ''modelInterface'') (\<lambda>provenance.
     if status = MI_mismatch \<and> expected = None then status_unexpected ''mismatch failure lacks expectedSemanticDigest''
     else Inr \<lparr> failure_status = status, failure_code = code, failure_expected = expected, failure_actual = actual,
       failure_provenance = provenance \<rparr>))))))))"

definition decode_model_interface_registration_reply ::
  "json_lib \<Rightarrow> negotiation_lib \<Rightarrow> string \<Rightarrow> DecodedReply outcome" where
  "decode_model_interface_registration_reply L N line =
     obind (Inr (strict_parse L N line)) (\<lambda>raw.
     if \<not> is_object raw then Inr (status_unexpected ''mirror registration reply must be an object'')
     else obind (decode_mirror_message L line) (\<lambda>legacy.
     let decoded = \<lparr> decoded_message = legacy, decoded_reply = None, decoded_failure = None \<rparr> in
     if absent raw ''modelInterface'' then Inr (Inr decoded)
     else Inr (
       let extension = field_at ''modelInterface'' raw in
       rbind (string_field raw ''proto_step'' ''mirror message'') (\<lambda>tag.
       if tag = ''spec_validated'' then
         rbind (decode_reply extension) (\<lambda>reply.
         if legacy \<noteq> SpecValidated None then status_unexpected ''negotiation reply requires a valid specification''
         else Inr (decoded\<lparr> decoded_reply := Some reply \<rparr>))
       else if tag = ''register_error'' then
         rbind (decode_failure extension) (\<lambda>failure. Inr (decoded\<lparr> decoded_failure := Some failure \<rparr>))
       else status_unexpected ''modelInterface is allowed only on registration replies''))))"

section \<open>The registry of compiled adapters\<close>

record CompiledAdapterKey =
  key_digest :: SemanticDigest
  key_adapter :: string
  key_profile :: string
  key_contract_version :: string

type_synonym 'f registry = "(CompiledAdapterKey \<times> 'f) list"

definition same_identity :: "CompiledAdapterKey \<Rightarrow> CompiledAdapterKey \<Rightarrow> bool" where
  "same_identity k k' = (key_digest k = key_digest k' \<and> key_adapter k = key_adapter k')"

definition resolve :: "'f registry \<Rightarrow> CompiledAdapterKey \<Rightarrow> 'f result" where
  "resolve registrations key =
     (let exact = filter (\<lambda>r. fst r = key) registrations in
      if length exact > 1
      then Inl (mi_error ''adapter_ambiguous'' (''multiple exact adapters are registered for '' @ key_adapter key))
      else if length exact = 1 then Inr (snd (hd exact))
      else
        let identity = list_ex (\<lambda>r. same_identity (fst r) key) registrations;
            target = list_ex (\<lambda>r. same_identity (fst r) key \<and> key_profile (fst r) = key_profile key) registrations in
        if identity \<and> \<not> target
        then Inl (mi_error ''target_profile_mismatch'' (''adapter target profile does not match '' @ key_profile key))
        else if target
        then Inl (mi_error ''state_computer_contract_mismatch''
          (''adapter StateComputer contract does not match '' @ key_contract_version key))
        else Inl (mi_error ''adapter_not_registered'' (''adapter is not registered: '' @ key_adapter key)))"

section \<open>Digests and their text\<close>

text \<open>One byte: its two digits are read back, and two digits that are read are those of the byte.\<close>

lemma hex_table_nibble: "i < 16 \<Longrightarrow> nibble (hex_table ! i) = int i"
proof -
  have "list_all (\<lambda>i. nibble (hex_table ! i) = int i) [0..<16]" by code_simp
  then show "i < 16 \<Longrightarrow> nibble (hex_table ! i) = int i" by (simp add: list_all_iff)
qed

lemma hex_table_char: "i < 16 \<Longrightarrow> hex_table ! i = char_of (if i < 10 then 48 + i else 87 + i)"
proof -
  have "list_all (\<lambda>i. hex_table ! i = char_of (if i < 10 then 48 + i else 87 + i)) [0..<16]" by code_simp
  then show "i < 16 \<Longrightarrow> hex_table ! i = char_of (if i < 10 then 48 + i else 87 + i)" by (simp add: list_all_iff)
qed

lemma nibble_hex_table:
  assumes "0 \<le> nibble c"
  shows "nibble c < 16 \<and> hex_table ! nat (nibble c) = c"
proof -
  obtain i where i: "i < 16" "nibble c = int i" "byte_of c = (if i < 10 then 48 + i else 87 + i)"
  proof (cases "is_digit c")
    case True
    then show ?thesis by (intro that [of "byte_of c - 48"]) (auto simp: nibble_def is_digit_def)
  next
    case False
    then show ?thesis using assms by (intro that [of "byte_of c - 87"]) (auto simp: nibble_def split: if_splits)
  qed
  have "hex_table ! i = char_of (byte_of c)" unfolding i(3) by (rule hex_table_char [OF i(1)])
  then have "hex_table ! i = c" by (simp add: byte_of_def)
  with i(1,2) show ?thesis by simp
qed

lemma byte_bound: "unat (b :: 8 word) \<in> set [0..<256]"
proof -
  have "unat b < 2 ^ LENGTH(8)" by (rule unsigned_less)
  then show ?thesis by simp
qed

lemma byte_of_halves: "word_of_int (or (push_bit 4 (int (unat (drop_bit 4 b)))) (int (unat (and b 15)))) = (b :: 8 word)"
proof -
  have "list_all (\<lambda>n. word_of_int (or (push_bit 4 (int (unat (drop_bit 4 (word_of_nat n :: 8 word)))))
      (int (unat (and (word_of_nat n) (15 :: 8 word))))) = (word_of_nat n :: 8 word)) [0..<256]" by code_simp
  from this [unfolded list_all_iff, rule_format, OF byte_bound [of b]] show ?thesis by simp
qed

lemma halves_of_byte:
  assumes "0 \<le> h" "h < 16" "0 \<le> l" "l < 16"
  shows "unat (drop_bit 4 (word_of_int (or (push_bit 4 h) l) :: 8 word)) = nat h"
    "unat (and (word_of_int (or (push_bit 4 h) l)) (15 :: 8 word)) = nat l"
proof -
  have all: "list_all (\<lambda>h. list_all (\<lambda>l. unat (drop_bit 4 (word_of_int (or (push_bit 4 (int h)) (int l)) :: 8 word)) = h
      \<and> unat (and (word_of_int (or (push_bit 4 (int h)) (int l))) (15 :: 8 word)) = l) [0..<16]) [0..<16]" by code_simp
  have "nat h \<in> set [0..<16]" "nat l \<in> set [0..<16]" using assms by auto
  with all have "unat (drop_bit 4 (word_of_int (or (push_bit 4 (int (nat h))) (int (nat l))) :: 8 word)) = nat h
      \<and> unat (and (word_of_int (or (push_bit 4 (int (nat h))) (int (nat l)))) (15 :: 8 word)) = nat l"
    unfolding list_all_iff by blast
  then show "unat (drop_bit 4 (word_of_int (or (push_bit 4 h) l) :: 8 word)) = nat h"
    "unat (and (word_of_int (or (push_bit 4 h) l)) (15 :: 8 word)) = nat l" using assms by simp_all
qed

lemma unat_halves: "unat (drop_bit 4 (b :: 8 word)) < 16" "unat (and b 15) < 16"
proof -
  have "list_all (\<lambda>n. unat (drop_bit 4 (word_of_nat n :: 8 word)) < 16 \<and> unat (and (word_of_nat n) (15 :: 8 word)) < 16) [0..<256]" by code_simp
  from this [unfolded list_all_iff, rule_format, OF byte_bound [of b]] have "unat (drop_bit 4 (word_of_nat (unat b) :: 8 word)) < 16 \<and> unat (and (word_of_nat (unat b)) (15 :: 8 word)) < 16" .
  then show "unat (drop_bit 4 b) < 16" "unat (and b 15) < 16" by simp_all
qed

text \<open>Reading two digits gives exactly the byte they are the text of.\<close>

lemma digest_byte_iff:
  "digest_byte hex i = Inr b \<longleftrightarrow> hex ! (i * 2) = hex_table ! unat (drop_bit 4 b) \<and> hex ! (i * 2 + 1) = hex_table ! unat (and b 15)"
proof
  assume read: "digest_byte hex i = Inr b"
  let ?h = "nibble (hex ! (i * 2))" and ?l = "nibble (hex ! (i * 2 + 1))"
  have h: "0 \<le> ?h" and l: "0 \<le> ?l" and b: "b = word_of_int (or (push_bit 4 ?h) ?l)"
    using read by (auto simp: digest_byte_def Let_def split: if_splits)
  show "hex ! (i * 2) = hex_table ! unat (drop_bit 4 b) \<and> hex ! (i * 2 + 1) = hex_table ! unat (and b 15)"
    using nibble_hex_table [OF h] nibble_hex_table [OF l] halves_of_byte [OF h _ l] b by simp
next
  assume "hex ! (i * 2) = hex_table ! unat (drop_bit 4 b) \<and> hex ! (i * 2 + 1) = hex_table ! unat (and b 15)"
  then show "digest_byte hex i = Inr b" using unat_halves [of b]
    by (simp add: digest_byte_def hex_table_nibble byte_of_halves [simplified])
qed

lemma length_byte_hex: "length (concat (map byte_hex bs)) = 2 * length bs"
  by (induction bs) (simp_all add: byte_hex_def)

lemma digest_text_nth:
  "length hex = 2 * length bs \<Longrightarrow> hex = concat (map byte_hex bs) \<longleftrightarrow>
    (\<forall>i < length bs. hex ! (i * 2) = hex_table ! unat (drop_bit 4 (bs ! i)) \<and> hex ! (i * 2 + 1) = hex_table ! unat (and (bs ! i) 15))"
proof (induction bs arbitrary: hex)
  case (Cons b bs)
  from Cons.prems obtain x y rest where hex: "hex = x # y # rest" "length rest = 2 * length bs"
    by (cases hex; cases "tl hex") auto
  with Cons.IH [OF hex(2)] show ?case by (auto simp: byte_hex_def All_less_Suc2)
qed simp

lemma digest_hex_unique:
  "semantic_digest_from_hex hex = Inr d \<longleftrightarrow> digest_wf d \<and> hex = semantic_digest_hex d"
proof (cases "length hex = 64")
  case True
  obtain bs where d: "d = SemanticDigest bs" by (cases d)
  have "semantic_digest_from_hex hex = Inr d \<longleftrightarrow> list_all2 (\<lambda>i b. digest_byte hex i = Inr b) [0..<32] bs"
    using True d by (auto simp: semantic_digest_from_hex_def rbind_eq_Inr rmapM_Inr_conv)
  also have "\<dots> \<longleftrightarrow> length bs = 32 \<and> (\<forall>i < 32. digest_byte hex i = Inr (bs ! i))" by (auto simp: list_all2_conv_all_nth)
  also have "\<dots> \<longleftrightarrow> length bs = 32 \<and> hex = concat (map byte_hex bs)"
    using True digest_text_nth [of hex bs] by (auto simp: digest_byte_iff)
  finally show ?thesis using d by (simp add: digest_wf_def semantic_digest_hex_def)
next
  case False
  have "length (semantic_digest_hex d) = 2 * length (digest_array d)"
    by (simp add: semantic_digest_hex_def length_byte_hex)
  with False show ?thesis by (auto simp: semantic_digest_from_hex_def digest_wf_def)
qed

lemma wire_digest_unique:
  "parse_wire_semantic_digest wire = Inr d \<longleftrightarrow> digest_wf d \<and> wire = render_wire_semantic_digest d"
  unfolding parse_wire_semantic_digest_def render_wire_semantic_digest_def
  using digest_hex_unique [of "drop (length digest_prefix) wire" d] by (metis append_eq_conv_conj append_take_drop_id Inl_Inr_False)

text \<open>Semantic digests and their wire text correspond one to one: a text is accepted as a digest exactly when it
  is \<^verbatim>\<open>sha256:\<close> followed by the 64 lowercase hexadecimal digits the digest is rendered with.\<close>

theorem wire_digest_iff:
  "parse_wire_semantic_digest wire = Inr d \<longleftrightarrow> digest_wf d \<and> wire = render_wire_semantic_digest d"
  by (rule wire_digest_unique)

section \<open>Replies and registry\<close>

lemma optional_digest_Inr: "optional_digest j k path = Inr (Some d) \<Longrightarrow> digest_wf d \<and> jfind k j = Some (JString (render_wire_semantic_digest d))"
proof -
  assume a: "optional_digest j k path = Inr (Some d)"
  then obtain s where s: "jfind k j = Some (JString s)" "parse_wire_semantic_digest s = Inr d"
    by (auto simp: optional_digest_def rbind_eq_Inr split: option.splits Json.splits)
  have "digest_wf d \<and> s = render_wire_semantic_digest d" using s(2) wire_digest_unique by blast
  with s(1) show ?thesis by simp
qed

lemma decode_reply_Inr:
  assumes "decode_reply x = Inr r"
  shows "reply_status r \<in> {MI_matched, MI_mismatch, MI_unsupported, MI_unavailable}
    \<and> jfind ''schema'' x = Some (JString model_interface_negotiation_schema)
    \<and> (\<exists>s. jfind ''status'' x = Some (JString s) \<and> status_of s = Some (reply_status r))
    \<and> optional_digest x ''semanticDigest'' ''modelInterface'' = Inr (reply_semantic r)
    \<and> (reply_status r = MI_matched \<longrightarrow> reply_semantic r \<noteq> None)
    \<and> (reply_status r \<in> {MI_unsupported, MI_unavailable} \<longrightarrow> reply_semantic r = None)"
proof -
  from assms obtain u status semantic provenance schema where
    sch: "check_schema x ''unsupported model-interface negotiation schema'' = Inr u" and st: "decode_status x = Inr status"
    and sem: "optional_digest x ''semanticDigest'' ''modelInterface'' = Inr semantic"
    and cl: "classify_reply x \<lparr> reply_status = status, reply_descriptor_schema = schema, reply_semantic = semantic,
       reply_provenance = provenance \<rparr> = Inr r"
    by (auto simp: decode_reply_def rbind_eq_Inr)
  have r: "r = \<lparr> reply_status = status, reply_descriptor_schema = schema, reply_semantic = semantic, reply_provenance = provenance \<rparr>
      \<and> status \<in> {MI_matched, MI_mismatch, MI_unsupported, MI_unavailable} \<and> (status = MI_matched \<longrightarrow> semantic \<noteq> None)
      \<and> (status \<in> {MI_unsupported, MI_unavailable} \<longrightarrow> semantic = None)"
    using cl by (cases status) (auto simp: classify_reply_def status_unexpected_def split: if_splits)
  have "\<exists>s. jfind ''status'' x = Some (JString s) \<and> status_of s = Some status"
    using st by (auto simp: decode_status_def rbind_eq_Inr string_field_iff status_unexpected_def split: option.splits)
  moreover have "jfind ''schema'' x = Some (JString model_interface_negotiation_schema)"
    using sch by (auto simp: check_schema_def status_unexpected_def string_field_def split: sum.splits if_splits option.splits Json.splits)
  ultimately show ?thesis using r sem by simp
qed

text \<open>A decoded registration reply carries an extension only on the message it belongs to.\<close>

lemma decode_registration_Inr:
  assumes "decode_model_interface_registration_reply L N line = Inr (Inr d)"
  shows "decode_mirror_message L line = Inr (Inr (decoded_message d))
    \<and> (\<forall>r. decoded_reply d = Some r \<longrightarrow> decoded_message d = SpecValidated None
        \<and> (\<exists>j x. lib_parse L line = Inr j \<and> jfind ''modelInterface'' j = Some x \<and> decode_reply x = Inr r))
    \<and> (\<forall>f. decoded_failure d = Some f \<longrightarrow> (\<exists>e. decoded_message d = RegisterError e))"
proof -
  from assms obtain raw legacy where raw: "strict_parse L N line = Inr raw" and legacy: "decode_mirror_message L line = Inr (Inr legacy)"
    and rest: "absent raw ''modelInterface'' \<and> d = \<lparr> decoded_message = legacy, decoded_reply = None, decoded_failure = None \<rparr>
      \<or> \<not> absent raw ''modelInterface'' \<and> (\<exists>tag. string_field raw ''proto_step'' ''mirror message'' = Inr tag
        \<and> (tag = ''spec_validated'' \<and> (\<exists>r. decode_reply (field_at ''modelInterface'' raw) = Inr r \<and> legacy = SpecValidated None
            \<and> d = \<lparr> decoded_message = legacy, decoded_reply = Some r, decoded_failure = None \<rparr>)
          \<or> tag = ''register_error'' \<and> (\<exists>f. d = \<lparr> decoded_message = legacy, decoded_reply = None, decoded_failure = Some f \<rparr>)))"
    by (auto simp: decode_model_interface_registration_reply_def obind_def Let_def rbind_eq_Inr status_unexpected_def
        split: sum.splits if_splits)
  have parsed: "lib_parse L line = Inr raw"
    using raw by (auto simp: strict_parse_def status_unexpected_def split: if_splits sum.splits)
  have err: "\<exists>e. legacy = RegisterError e" if "string_field raw ''proto_step'' ''mirror message'' = Inr ''register_error''"
    using legacy parsed that by (elim decode_mirror_message_Inr) (auto simp: string_field_iff decode_tagged_def rbind_eq_Inr)
  have ext: "\<exists>x. jfind ''modelInterface'' raw = Some x" if "\<not> absent raw ''modelInterface''"
    using that by (auto simp: absent_def split: option.splits)
  from rest show ?thesis
  proof (elim disjE conjE exE)
    fix tag r
    assume "\<not> absent raw ''modelInterface''" "decode_reply (field_at ''modelInterface'' raw) = Inr r" "legacy = SpecValidated None"
      and d: "d = \<lparr> decoded_message = legacy, decoded_reply = Some r, decoded_failure = None \<rparr>"
    moreover from this ext obtain x where "jfind ''modelInterface'' raw = Some x" by blast
    ultimately show ?thesis using legacy parsed by (auto simp: field_at_def)
  qed (use legacy err in auto)
qed

text \<open>The registry resolves a key exactly when one registration has it, to the factory of that registration;
  otherwise the error tells several exact registrations from none, and for none how far the nearest
  registration matches.\<close>

theorem resolve_spec:
  "(resolve rs key = Inr f \<longleftrightarrow> (\<exists>xs ys. rs = xs @ (key, f) # ys \<and> key \<notin> fst ` set xs \<and> key \<notin> fst ` set ys))
    \<and> (resolve rs key = Inl e \<longleftrightarrow>
      (let n = length (filter (\<lambda>r. fst r = key) rs);
           near = fst ` set (filter (\<lambda>r. same_identity (fst r) key) rs) in
       (1 < n \<and> e = mi_error ''adapter_ambiguous'' (''multiple exact adapters are registered for '' @ key_adapter key))
       \<or> (n = 0 \<and> near = {} \<and> e = mi_error ''adapter_not_registered'' (''adapter is not registered: '' @ key_adapter key))
       \<or> (n = 0 \<and> near \<noteq> {} \<and> key_profile key \<notin> key_profile ` near
          \<and> e = mi_error ''target_profile_mismatch'' (''adapter target profile does not match '' @ key_profile key))
       \<or> (n = 0 \<and> key_profile key \<in> key_profile ` near
          \<and> e = mi_error ''state_computer_contract_mismatch'' (''adapter StateComputer contract does not match '' @ key_contract_version key))))"
proof -
  let ?exact = "filter (\<lambda>r. fst r = key) rs"
  have one: "?exact = [(key, f)] \<longleftrightarrow> (\<exists>xs ys. rs = xs @ (key, f) # ys \<and> key \<notin> fst ` set xs \<and> key \<notin> fst ` set ys)" for f
  proof
    assume "?exact = [(key, f)]"
    then obtain us vs where "rs = us @ (key, f) # vs" "\<forall>u \<in> set us. fst u \<noteq> key" "filter (\<lambda>r. fst r = key) vs = []"
      by (auto simp: filter_eq_Cons_iff)
    then show "\<exists>xs ys. rs = xs @ (key, f) # ys \<and> key \<notin> fst ` set xs \<and> key \<notin> fst ` set ys"
      by (intro exI [of _ us] exI [of _ vs]) (auto simp: filter_empty_conv)
  next
    assume "\<exists>xs ys. rs = xs @ (key, f) # ys \<and> key \<notin> fst ` set xs \<and> key \<notin> fst ` set ys"
    then obtain xs ys where rs: "rs = xs @ (key, f) # ys" and "key \<notin> fst ` set xs" "key \<notin> fst ` set ys" by blast
    then have "filter (\<lambda>r. fst r = key) xs = []" "filter (\<lambda>r. fst r = key) ys = []" by (auto simp: filter_empty_conv)
    with rs show "?exact = [(key, f)]" by simp
  qed
  have ident: "list_ex (\<lambda>r. same_identity (fst r) key) rs \<longleftrightarrow> fst ` set (filter (\<lambda>r. same_identity (fst r) key) rs) \<noteq> {}"
    by (force simp: list_ex_iff)
  have target: "list_ex (\<lambda>r. same_identity (fst r) key \<and> key_profile (fst r) = key_profile key) rs
      \<longleftrightarrow> key_profile key \<in> key_profile ` fst ` set (filter (\<lambda>r. same_identity (fst r) key) rs)"
    by (induction rs) (simp_all add: eq_commute)
  have single: "length ?exact = 1 \<longleftrightarrow> (\<exists>f. ?exact = [(key, f)])"
  proof
    assume "length ?exact = 1"
    then obtain r where "?exact = [r]" by (auto simp: length_Suc_conv)
    then have "r \<in> set ?exact" by simp
    then have "fst r = key" by simp
    with \<open>?exact = [r]\<close> show "\<exists>f. ?exact = [(key, f)]" by (intro exI [of _ "snd r"]) auto
  qed auto
  consider "length ?exact > 1" | g where "?exact = [(key, g)]" | "length ?exact = 0"
  proof -
    have "length ?exact > 1 \<or> length ?exact = 1 \<or> length ?exact = 0" by linarith
    with single that show ?thesis by blast
  qed
  then show ?thesis
    unfolding one [symmetric] Let_def resolve_def ident target
    by cases (auto simp: Let_def)
qed

end
