(* ===== verification/Negotiated_Flow.thy ===== *)
theory Negotiated_Flow
  imports Model_Interface
begin

text \<open>
  The negotiated flows of \<^verbatim>\<open>src/client.cpp\<close>: preparing a compiled adapter, authorising the registration reply,
  creating and disposing the session-local binding, and the stepping loop over \<^verbatim>\<open>PrefixedTransport\<close>, which hands out
  the first reply a second time.

  All application callbacks (factory, configuration check, state computer, disposal) share one application state of
  type \<open>'c\<close>, which each of them reads and returns; a callback may throw. A \<^verbatim>\<open>std::function\<close> that may be empty is an
  option.
\<close>

section \<open>Bindings and selections\<close>

record 'c LocalBinding =
  lb_digest :: SemanticDigest
  lb_computer :: "'c computer option"
  lb_assert :: "('c \<Rightarrow> ApalacheConfig \<Rightarrow> 'c \<times> unit outcome) option"
  lb_dispose :: "('c \<Rightarrow> 'c \<times> unit outcome) option"

type_synonym 'c AdapterFactory = "('c \<Rightarrow> ApalacheConfig \<Rightarrow> 'c \<times> 'c LocalBinding outcome) option"

record 'c CompiledAdapterSelection =
  sel_metadata :: GeneratedModelInterface
  sel_adapter :: string
  sel_profile :: string
  sel_version :: string
  sel_registry :: "'c AdapterFactory registry option"
  sel_policy :: NegotiationPolicy
  sel_fallback :: "'c AdapterFactory option"

record 'c PreparedCompiledAdapter =
  prep_request :: ModelInterfaceVerifyRequest
  prep_key :: CompiledAdapterKey
  prep_factory :: "'c AdapterFactory"
  prep_fallback :: "'c AdapterFactory option"

definition mirrorcpp_target_profile :: string where
  "mirrorcpp_target_profile = ''mirrorcpp-v1''"

definition mirrorcpp_typed_maps_target_profile :: string where
  "mirrorcpp_typed_maps_target_profile = ''mirrorcpp-v2''"

definition state_computer_contract_version :: string where
  "state_computer_contract_version = ''mirrors.state-computer/v1''"

definition local_model_interface_error :: "string \<Rightarrow> string \<Rightarrow> Error" where
  "local_model_interface_error code message = make_error_code EK_model_interface message code"

definition prepare_compiled_adapter ::
  "json_lib \<Rightarrow> negotiation_lib \<Rightarrow> 'c CompiledAdapterSelection \<Rightarrow> 'c PreparedCompiledAdapter result" where
  "prepare_compiled_adapter L N selection =
     (if sel_profile selection \<noteq> mirrorcpp_target_profile \<and> sel_profile selection \<noteq> mirrorcpp_typed_maps_target_profile
      then Inl (local_model_interface_error ''target_profile_mismatch''
        ''negotiated runner requires target profile mirrorcpp-v1 or mirrorcpp-v2'')
      else if sel_version selection \<noteq> state_computer_contract_version
      then Inl (local_model_interface_error ''state_computer_contract_mismatch''
        (''negotiated runner requires StateComputer contract '' @ state_computer_contract_version))
      else case sel_registry selection of
        None \<Rightarrow> Inl (local_model_interface_error ''adapter_not_registered'' ''compiled adapter registry is null'')
      | Some registry \<Rightarrow>
          rbind (make_verify_request L N (sel_metadata selection) (sel_policy selection)) (\<lambda>request.
          let key = \<lparr> key_digest = expected_digest request, key_adapter = sel_adapter selection,
                key_profile = sel_profile selection, key_contract_version = sel_version selection \<rparr> in
          rbind (resolve registry key) (\<lambda>factory.
          Inr \<lparr> prep_request = request, prep_key = key, prep_factory = factory, prep_fallback = sel_fallback selection \<rparr>)))"

section \<open>Authorising the reply\<close>

definition use_fallback :: "'c PreparedCompiledAdapter \<Rightarrow> Error \<Rightarrow> string \<Rightarrow> 'c AdapterFactory result" where
  "use_fallback prepared refused missing =
     (if request_policy (prep_request prepared) \<noteq> PolicyPrefer then Inl refused
      else case prep_fallback prepared of
        None \<Rightarrow> Inl (local_model_interface_error ''legacy_fallback_unavailable'' missing)
      | Some f \<Rightarrow> Inr f)"

definition authorize_compiled_reply :: "DecodedReply \<Rightarrow> 'c PreparedCompiledAdapter \<Rightarrow> 'c AdapterFactory result" where
  "authorize_compiled_reply decoded prepared = (case decoded_message decoded of
     ProtocolError e \<Rightarrow> Inl (make_error EK_protocol e)
   | RegisterError e \<Rightarrow>
       (case decoded_failure decoded of
          None \<Rightarrow> Inl (make_error EK_registration e)
        | Some failure \<Rightarrow>
            (if failure_expected failure \<noteq> None \<and> failure_expected failure \<noteq> Some (key_digest (prep_key prepared))
             then Inl (local_model_interface_error ''negotiation_status_unexpected''
               ''register_error expectedSemanticDigest does not match the request'')
             else Inl (make_error_code EK_registration e (failure_code failure))))
   | SpecValidated (Some detail) \<Rightarrow> Inl (make_error EK_spec_invalid (''spec was not validated: '' @ detail))
   | SpecValidated None \<Rightarrow>
       (case decoded_reply decoded of
          None \<Rightarrow> use_fallback prepared
            (local_model_interface_error ''negotiation_missing'' ''model-interface negotiation reply is missing'')
            ''old server requires an explicit fallback factory under prefer''
        | Some reply \<Rightarrow>
            (case reply_status reply of
               MI_matched \<Rightarrow>
                 (if reply_semantic reply \<noteq> Some (key_digest (prep_key prepared))
                  then Inl (local_model_interface_error ''interface_digest_mismatch''
                    ''server semantic digest does not match the compiled interface'')
                  else Inr (prep_factory prepared))
             | MI_unsupported \<Rightarrow> use_fallback prepared
                 (local_model_interface_error ''descriptor_schema_unsupported'' ''model-interface negotiation is unavailable'')
                 ''preferred negotiation requires an explicit fallback factory''
             | MI_unavailable \<Rightarrow> use_fallback prepared
                 (local_model_interface_error ''negotiation_status_unexpected'' ''model-interface negotiation is unavailable'')
                 ''preferred negotiation requires an explicit fallback factory''
             | MI_mismatch \<Rightarrow> Inl (local_model_interface_error ''interface_digest_mismatch'' ''model-interface digest mismatch'')
             | _ \<Rightarrow> Inl (local_model_interface_error ''negotiation_status_unexpected''
                 ''descriptor-mode reply is invalid for compiled verification'')))
   | _ \<Rightarrow> Inl (local_model_interface_error ''negotiation_status_unexpected'' ''expected spec_validated registration result''))"

section \<open>Calling the application\<close>

text \<open>\<^verbatim>\<open>catch (const std::exception& e)\<close> with its text, \<^verbatim>\<open>catch (...)\<close> without.\<close>

definition threw :: "string \<Rightarrow> exn \<Rightarrow> string" where
  "threw what x = (case x of NonStdException \<Rightarrow> what | _ \<Rightarrow> what @ '': '' @ exn_what x)"

definition dispose_binding :: "'c LocalBinding \<Rightarrow> 'c \<Rightarrow> 'c \<times> unit result" where
  "dispose_binding binding c = (case lb_dispose binding of
     None \<Rightarrow> (c, Inl (local_model_interface_error ''adapter_dispose_failed'' ''binding has no dispose callback''))
   | Some f \<Rightarrow>
       (case f c of
          (c', Inl x) \<Rightarrow> (c', Inl (local_model_interface_error ''adapter_dispose_failed'' (threw ''adapter disposal threw'' x)))
        | (c', Inr (Inl e)) \<Rightarrow> (c', Inl (local_model_interface_error ''adapter_dispose_failed'' (err_message e)))
        | (c', Inr (Inr _)) \<Rightarrow> (c', Inr ())))"

text \<open>Calling an empty \<^verbatim>\<open>std::function\<close> throws \<^verbatim>\<open>std::bad_function_call\<close>.\<close>

definition call_factory :: "'c AdapterFactory \<Rightarrow> 'c \<Rightarrow> ApalacheConfig \<Rightarrow> 'c \<times> 'c LocalBinding result" where
  "call_factory factory c config =
     (case (case factory of None \<Rightarrow> (c, Inl (StdException ''bad_function_call'')) | Some f \<Rightarrow> f c config) of
        (c', Inl x) \<Rightarrow> (c', Inl (local_model_interface_error ''adapter_factory_failed'' (threw ''adapter factory threw'' x)))
      | (c', Inr (Inl e)) \<Rightarrow> (c', Inl (local_model_interface_error ''adapter_factory_failed'' (err_message e)))
      | (c', Inr (Inr b)) \<Rightarrow> (c', Inr b))"

definition check_local_binding :: "'c LocalBinding \<Rightarrow> SemanticDigest \<Rightarrow> 'c \<Rightarrow> ApalacheConfig \<Rightarrow> 'c \<times> 'c computer result" where
  "check_local_binding binding digest c config =
     (if lb_digest binding \<noteq> digest
      then (c, Inl (local_model_interface_error ''binding_digest_mismatch'' ''binding digest does not match adapter key''))
      else case lb_computer binding of
        None \<Rightarrow> (c, Inl (local_model_interface_error ''adapter_factory_failed'' ''binding has no StateComputer''))
      | Some compute \<Rightarrow>
          (case lb_assert binding of
             None \<Rightarrow> (c, Inl (local_model_interface_error ''binding_config_mismatch'' ''binding has no configuration check''))
           | Some f \<Rightarrow>
               (case f c config of
                  (c', Inl x) \<Rightarrow>
                    (c', Inl (local_model_interface_error ''binding_config_mismatch'' (threw ''binding configuration check threw'' x)))
                | (c', Inr (Inl e)) \<Rightarrow> (c', Inl (local_model_interface_error ''binding_config_mismatch'' (err_message e)))
                | (c', Inr (Inr _)) \<Rightarrow> (c', Inr compute))))"

section \<open>The flow\<close>

record 't PrefixedTransport =
  pt_inner :: 't
  pt_first :: "string option"

definition prefixed_ops :: "'t transport_ops \<Rightarrow> 't PrefixedTransport transport_ops" where
  "prefixed_ops ops = \<lparr>
     send_line = (\<lambda>t l. case send_line ops (pt_inner t) l of (i, r) \<Rightarrow> (t\<lparr> pt_inner := i \<rparr>, r)),
     recv_line = (\<lambda>t. case pt_first t of
        Some line \<Rightarrow> Some (t\<lparr> pt_first := None \<rparr>, Inr line)
      | None \<Rightarrow> map_option (\<lambda>(i, r). (t\<lparr> pt_inner := i \<rparr>, r)) (recv_line ops (pt_inner t))),
     close_transport = (\<lambda>t. map_option (\<lambda>(i, r). (t\<lparr> pt_inner := i \<rparr>, r)) (close_transport ops (pt_inner t))),
     async_capable = (\<lambda>t. async_capable ops (pt_inner t)) \<rparr>"

definition close_with :: "'t transport_ops \<Rightarrow> 't \<Rightarrow> 'c \<Rightarrow> unit outcome \<Rightarrow> ('t, 'c) stepping_exit option" where
  "close_with ops t c r = map_option (\<lambda>(t', r). ((t', c), r)) (close_and ops t r)"

definition binding_failure :: "exn \<Rightarrow> Error" where
  "binding_failure x = (case x of
     BindingError code what \<Rightarrow> local_model_interface_error code what
   | NonStdException \<Rightarrow> local_model_interface_error ''adapter_failure'' ''StateComputer threw an unknown exception''
   | _ \<Rightarrow> local_model_interface_error ''adapter_failure'' (''StateComputer threw: '' @ exn_what x))"

definition step_binding ::
  "'t transport_ops \<Rightarrow> json_lib \<Rightarrow> 'c LocalBinding \<Rightarrow> 'c computer \<Rightarrow> Phase \<Rightarrow> string \<Rightarrow> 'c \<Rightarrow> 't \<Rightarrow> ('t, 'c) stepping_exit option" where
  "step_binding ops L binding compute guard first c t =
     (case run_stepping_loop (prefixed_ops ops) L compute c guard \<lparr> pt_inner = t, pt_first = Some first \<rparr> of
        None \<Rightarrow> None
      | Some ((p, c1), primary) \<Rightarrow>
          (case dispose_binding binding c1 of
             (c2, cleanup) \<Rightarrow> close_with ops (pt_inner p) c2
               (case primary of
                  Inl x \<Rightarrow> Inr (Inl (binding_failure x))
                | Inr (Inl e) \<Rightarrow> Inr (Inl e)
                | Inr (Inr _) \<Rightarrow> Inr cleanup)))"

definition run_binding ::
  "'t transport_ops \<Rightarrow> json_lib \<Rightarrow> ApalacheConfig \<Rightarrow> SemanticDigest \<Rightarrow> 'c AdapterFactory \<Rightarrow> Phase \<Rightarrow> string \<Rightarrow> 'c \<Rightarrow> 't
    \<Rightarrow> ('t, 'c) stepping_exit option" where
  "run_binding ops L config digest factory guard first c t =
     (case call_factory factory c config of
        (c1, Inl e) \<Rightarrow> close_with ops t c1 (Inr (Inl e))
      | (c1, Inr binding) \<Rightarrow>
          (case check_local_binding binding digest c1 config of
             (c2, Inl e) \<Rightarrow>
               (case dispose_binding binding c2 of (c3, _) \<Rightarrow> close_with ops t c3 (Inr (Inl e)))
           | (c2, Inr compute) \<Rightarrow> step_binding ops L binding compute guard first c2 t))"

definition negotiate ::
  "'t transport_ops \<Rightarrow> json_lib \<Rightarrow> negotiation_lib \<Rightarrow> ApalacheConfig \<Rightarrow> 'c PreparedCompiledAdapter \<Rightarrow> Phase \<Rightarrow> 'c \<Rightarrow> 't
    \<Rightarrow> ('t, 'c) stepping_exit option" where
  "negotiate ops L N config prepared guard c t =
     (case recv_line ops t of
        None \<Rightarrow> None
      | Some (t1, Inl e) \<Rightarrow> close_with ops t1 c (Inr (Inl e))
      | Some (t1, Inr first) \<Rightarrow>
          (case decode_model_interface_registration_reply L N first of
             Inl x \<Rightarrow> Some ((t1, c), Inl x)
           | Inr (Inl e) \<Rightarrow> close_with ops t1 c (Inr (Inl e))
           | Inr (Inr decoded) \<Rightarrow>
               (case authorize_compiled_reply decoded prepared of
                  Inl e \<Rightarrow> close_with ops t1 c (Inr (Inl e))
                | Inr factory \<Rightarrow> run_binding ops L config (key_digest (prep_key prepared)) factory guard first c t1)))"

definition run_compiled_negotiated ::
  "'t transport_ops \<Rightarrow> json_lib \<Rightarrow> negotiation_lib \<Rightarrow> ApalacheConfig \<Rightarrow> ClientMessage \<Rightarrow> 'c CompiledAdapterSelection \<Rightarrow> 'c \<Rightarrow> 't
    \<Rightarrow> ('t, 'c) stepping_exit option" where
  "run_compiled_negotiated ops L N config reg selection c t =
     (case rbind (prepare_compiled_adapter L N selection) (\<lambda>prepared.
        rbind (encode_model_interface_registration L N reg (prep_request prepared)) (\<lambda>encoded. Inr (prepared, encoded))) of
        Inl e \<Rightarrow> Some ((t, c), Inr (Inl e))
      | Inr (prepared, encoded) \<Rightarrow>
          (case guard_sent Ph_idle reg of
             (guard, Inl e) \<Rightarrow> Some ((t, c), Inr (Inl e))
           | (guard, Inr _) \<Rightarrow>
               (case send_line ops t encoded of
                  (t1, Inl e) \<Rightarrow> close_with ops t1 c (Inr (Inl e))
                | (t1, Inr _) \<Rightarrow> negotiate ops L N config prepared guard c t1)))"

definition run_client_with_traces_negotiated ::
  "'t transport_ops \<Rightarrow> json_lib \<Rightarrow> negotiation_lib \<Rightarrow> ApalacheConfig \<Rightarrow> string list \<Rightarrow> 'c CompiledAdapterSelection \<Rightarrow> 'c \<Rightarrow> 't
    \<Rightarrow> ('t, 'c) stepping_exit option" where
  "run_client_with_traces_negotiated ops L N config paths selection c t =
     run_compiled_negotiated ops L N config (RegisterTraces config paths) selection c t"

definition run_client_negotiated ::
  "'t transport_ops \<Rightarrow> json_lib \<Rightarrow> negotiation_lib \<Rightarrow> ApalacheConfig \<Rightarrow> TraceGenerationConfig \<Rightarrow> 'c CompiledAdapterSelection
    \<Rightarrow> ApalacheSpec option \<Rightarrow> 'c \<Rightarrow> 't \<Rightarrow> ('t, 'c) stepping_exit option" where
  "run_client_negotiated ops L N config trace_config selection inline_spec c t =
     run_compiled_negotiated ops L N config (Register config trace_config inline_spec) selection c t"

end
