(* ===== verification/Negotiated_Session.thy ===== *)
theory Negotiated_Session
  imports Negotiated_Flow
begin

text \<open>
  Properties of the negotiated flows. \<^verbatim>\<open>PrefixedTransport\<close> is a channel in the sense of \<open>line_channel\<close> whenever the
  transport below is, and a live one when that is live, so the lemmas on the stepping loop apply to it unchanged.
\<close>

section \<open>The prefixed transport is a channel\<close>

lemma prefixed_simps [simp]:
  "send_line (prefixed_ops ops) t l = (case send_line ops (pt_inner t) l of (i, r) \<Rightarrow> (t\<lparr> pt_inner := i \<rparr>, r))"
  "recv_line (prefixed_ops ops) t = (case pt_first t of
        Some line \<Rightarrow> Some (t\<lparr> pt_first := None \<rparr>, Inr line)
      | None \<Rightarrow> map_option (\<lambda>(i, r). (t\<lparr> pt_inner := i \<rparr>, r)) (recv_line ops (pt_inner t)))"
  "close_transport (prefixed_ops ops) t = map_option (\<lambda>(i, r). (t\<lparr> pt_inner := i \<rparr>, r)) (close_transport ops (pt_inner t))"
  by (simp_all add: prefixed_ops_def)

definition pt_pending :: "('t \<Rightarrow> string list) \<Rightarrow> 't PrefixedTransport \<Rightarrow> string list" where
  "pt_pending pending t = (case pt_first t of None \<Rightarrow> [] | Some l \<Rightarrow> [l]) @ pending (pt_inner t)"

context line_channel
begin

lemma prefixed_channel:
  "line_channel (prefixed_ops ops) (\<lambda>t. boundary (pt_inner t)) (\<lambda>t. sent (pt_inner t)) (\<lambda>t. is_open (pt_inner t))"
proof
  fix t t' l u e q r c
  show "boundary (pt_inner t') \<and> sent (pt_inner t') = sent (pt_inner t) @ [l]"
    if "send_line (prefixed_ops ops) t l = (t', Inr u)" "boundary (pt_inner t)"
    using that send_ok by (auto split: prod.splits)
  show "valid_line l" if "send_line (prefixed_ops ops) t l = (t', Inr u)"
    using that send_ok_valid by (auto split: prod.splits)
  show "sent (pt_inner t') = sent (pt_inner t)" if "send_line (prefixed_ops ops) t l = (t', Inl e)" "boundary (pt_inner t)"
    using that send_error by (auto split: prod.splits)
  show "sent (pt_inner t') = sent (pt_inner t) \<and> (boundary (pt_inner t') \<longleftrightarrow> boundary (pt_inner t))"
    if "recv_line (prefixed_ops ops) t = Some (t', r)"
    using that recv_silent [of "pt_inner t"] by (auto split: option.splits)
  show "is_open (pt_inner t') \<longleftrightarrow> is_open (pt_inner t)" if "send_line (prefixed_ops ops) t l = (t', q)"
    using that send_open by (auto split: prod.splits)
  show "is_open (pt_inner t') \<longleftrightarrow> is_open (pt_inner t)" if "recv_line (prefixed_ops ops) t = Some (t', r)"
    using that recv_open [of "pt_inner t"] by (auto split: option.splits)
  show "\<not> is_open (pt_inner t') \<and> sent (pt_inner t') = sent (pt_inner t)" if "close_transport (prefixed_ops ops) t = Some (t', c)"
    using that close_closes [of "pt_inner t"] by auto
qed

lemma close_with_closed: "close_with ops t c r = Some ((t', c'), r') \<Longrightarrow> \<not> is_open t' \<and> sent t' = sent t \<and> c' = c \<and> r' = r"
  using close_and_closed [of t r t' r'] by (auto simp: close_with_def)

lemma step_binding_closed:
  assumes "boundary t" "step_binding ops L binding compute guard first c t = Some ((t', c'), q)"
  shows "\<not> is_open t' \<and> (\<exists>ls. sent t' = sent t @ ls \<and> only_reports L ls)"
proof -
  from assms(2) obtain p c1 primary c2 q' where
    run: "run_stepping_loop (prefixed_ops ops) L compute c guard \<lparr> pt_inner = t, pt_first = Some first \<rparr> = Some ((p, c1), primary)"
    and close: "close_with ops (pt_inner p) c2 q' = Some ((t', c'), q)"
    by (auto simp: step_binding_def split: option.splits prod.splits)
  from line_channel.run_stepping_loop_good [OF prefixed_channel _ run] assms(1)
  have "\<exists>ls. sent (pt_inner p) = sent t @ ls \<and> only_reports L ls"
    by (auto simp: line_channel.good_exit_def [OF prefixed_channel])
  with close_with_closed [OF close] show ?thesis by simp
qed

lemma run_binding_closed:
  assumes "boundary t" "run_binding ops L config digest factory guard first c t = Some ((t', c'), q)"
  shows "\<not> is_open t' \<and> (\<exists>ls. sent t' = sent t @ ls \<and> only_reports L ls)"
  using assms(2) close_with_closed step_binding_closed [OF assms(1)]
  by (fastforce simp: run_binding_def split: prod.splits sum.splits)

lemma negotiate_closed:
  assumes "boundary t" "negotiate ops L N config prepared guard c t = Some ((t', c'), q)"
  shows "(is_open t' \<longrightarrow> (\<exists>x line. q = Inl x \<and> decode_model_interface_registration_reply L N line = Inl x)) \<and>
    (\<exists>ls. sent t' = sent t @ ls \<and> only_reports L ls)"
proof -
  from assms(2) obtain t1 r where recv: "recv_line ops t = Some (t1, r)"
    by (auto simp: negotiate_def split: option.splits)
  have t1: "sent t1 = sent t" "boundary t1" using recv_silent [OF recv] assms(1) by auto
  from assms(2) recv consider x line where "t' = t1" "q = Inl x" "decode_model_interface_registration_reply L N line = Inl x"
    | e where "close_with ops t1 c e = Some ((t', c'), q)"
    | factory first where "run_binding ops L config (key_digest (prep_key prepared)) factory guard first c t1 = Some ((t', c'), q)"
    by (auto simp: negotiate_def split: sum.splits)
  then show ?thesis
  proof cases
    case 1 with t1 show ?thesis by (metis append_Nil2 only_reports_simps(1))
  next
    case 2 with t1 close_with_closed [OF 2] show ?thesis by (auto intro!: exI [of _ "[]"])
  next
    case 3 with t1 run_binding_closed [OF t1(2) 3] show ?thesis by auto
  qed
qed

lemma run_compiled_negotiated_closed:
  assumes "boundary t" "run_compiled_negotiated ops L N config reg selection c t = Some ((t', c'), q)"
  shows "((t', c') = (t, c) \<and> (\<exists>e. q = Inr (Inl e))) \<or>
    ((is_open t' \<longrightarrow> (\<exists>x line. q = Inl x \<and> decode_model_interface_registration_reply L N line = Inl x)) \<and>
     (sent t' = sent t \<or> (\<exists>request rl ls. make_verify_request L N (sel_metadata selection) (sel_policy selection) = Inr request \<and>
        encode_model_interface_registration L N reg request = Inr rl \<and> sent t' = sent t @ rl # ls \<and> only_reports L ls)))"
proof (cases "rbind (prepare_compiled_adapter L N selection) (\<lambda>prepared.
        rbind (encode_model_interface_registration L N reg (prep_request prepared)) (\<lambda>encoded. Inr (prepared, encoded)))")
  case (Inl e)
  with assms(2) show ?thesis by (auto simp: run_compiled_negotiated_def)
next
  case (Inr pe)
  then obtain prepared rl where pe: "pe = (prepared, rl)" "prepare_compiled_adapter L N selection = Inr prepared"
    "encode_model_interface_registration L N reg (prep_request prepared) = Inr rl" by (auto simp: result_splits)
  have req: "make_verify_request L N (sel_metadata selection) (sel_policy selection) = Inr (prep_request prepared)"
    using pe(2) by (auto simp: prepare_compiled_adapter_def Let_def result_splits split: if_splits option.splits)
  obtain guard g where g: "guard_sent Ph_idle reg = (guard, g)" by (cases "guard_sent Ph_idle reg")
  obtain t1 s where s: "send_line ops t rl = (t1, s)" by (cases "send_line ops t rl")
  consider e where "g = Inl e" | e where "g = Inr ()" "s = Inl e" | "g = Inr ()" "s = Inr ()"
    by (cases g; cases s) auto
  then show ?thesis
  proof cases
    case 1 with assms(2) Inr pe g show ?thesis by (auto simp: run_compiled_negotiated_def)
  next
    case (2 e)
    then have "close_with ops t1 c (Inr (Inl e)) = Some ((t', c'), q)"
      using assms(2) Inr pe g s by (simp add: run_compiled_negotiated_def)
    from close_with_closed [OF this] send_error [of t rl t1] s 2 assms(1) show ?thesis by simp
  next
    case 3
    have t1: "boundary t1" "sent t1 = sent t @ [rl]" using send_ok s 3 assms(1) by blast+
    have "negotiate ops L N config prepared guard c t1 = Some ((t', c'), q)"
      using assms(2) Inr pe g s 3 by (simp add: run_compiled_negotiated_def)
    from negotiate_closed [OF t1(1) this] t1(2) req pe(3) show ?thesis by auto
  qed
qed

end

section \<open>Authorisation\<close>

text \<open>What entitles a factory to run: a valid specification, and either a reply that matches the compiled digest, which
  selects the factory registered for the exact key, or a server that does not negotiate, the policy \<^verbatim>\<open>prefer\<close>, and an
  explicit fallback.\<close>

definition selection_key :: "'c CompiledAdapterSelection \<Rightarrow> SemanticDigest \<Rightarrow> CompiledAdapterKey" where
  "selection_key sel digest = \<lparr> key_digest = digest, key_adapter = sel_adapter sel, key_profile = sel_profile sel,
     key_contract_version = sel_version sel \<rparr>"

definition authorised :: "'c CompiledAdapterSelection \<Rightarrow> SemanticDigest \<Rightarrow> DecodedReply \<Rightarrow> 'c AdapterFactory \<Rightarrow> bool" where
  "authorised sel digest decoded factory \<longleftrightarrow> decoded_message decoded = SpecValidated None \<and>
     (case decoded_reply decoded of
        Some reply \<Rightarrow>
          (reply_status reply = MI_matched \<and> reply_semantic reply = Some digest
             \<and> (\<exists>registry. sel_registry sel = Some registry \<and> (selection_key sel digest, factory) \<in> set registry))
          \<or> (reply_status reply \<in> {MI_unsupported, MI_unavailable} \<and> sel_policy sel = PolicyPrefer \<and> sel_fallback sel = Some factory)
      | None \<Rightarrow> sel_policy sel = PolicyPrefer \<and> sel_fallback sel = Some factory)"

lemma use_fallback_Inr: "use_fallback p e m = Inr f \<longleftrightarrow> request_policy (prep_request p) = PolicyPrefer \<and> prep_fallback p = Some f"
  by (simp add: use_fallback_def split: option.split)

lemma make_verify_request_policy: "make_verify_request L N md policy = Inr request \<Longrightarrow> request_policy request = policy"
  by (auto simp: make_verify_request_def result_splits)

lemma resolve_member:
  assumes "resolve rs key = Inr f"
  shows "(key, f) \<in> set rs"
proof -
  from assms obtain a where "filter (\<lambda>r. fst r = key) rs = [(a, f)]"
    by (cases "filter (\<lambda>r. fst r = key) rs") (auto simp: resolve_def Let_def split: if_splits)
  then have "(a, f) \<in> set (filter (\<lambda>r. fst r = key) rs)" by simp
  then show ?thesis by auto
qed

lemma prepare_compiled_adapter_Inr:
  assumes "prepare_compiled_adapter L N sel = Inr p"
  shows "make_verify_request L N (sel_metadata sel) (sel_policy sel) = Inr (prep_request p)"
    "prep_key p = selection_key sel (expected_digest (prep_request p))"
    "\<exists>registry. sel_registry sel = Some registry \<and> resolve registry (prep_key p) = Inr (prep_factory p)"
    "prep_fallback p = sel_fallback sel"
  using assms
  by (auto simp: prepare_compiled_adapter_def selection_key_def Let_def result_splits split: if_splits option.splits)

lemma authorize_authorised:
  assumes "prepare_compiled_adapter L N sel = Inr p" "authorize_compiled_reply decoded p = Inr f"
  shows "authorised sel (key_digest (prep_key p)) decoded f"
proof -
  note p = prepare_compiled_adapter_Inr [OF assms(1)]
  have msg: "decoded_message decoded = SpecValidated None"
    using assms(2) by (auto simp: authorize_compiled_reply_def split: MirrorMessage.splits option.splits if_splits)
  have policy: "request_policy (prep_request p) = sel_policy sel" using make_verify_request_policy [OF p(1)] .
  obtain registry where reg: "sel_registry sel = Some registry" "(prep_key p, prep_factory p) \<in> set registry"
    using p(3) by (auto dest: resolve_member)
  have key: "selection_key sel (key_digest (prep_key p)) = prep_key p" by (simp add: p(2) selection_key_def)
  show ?thesis
  proof (cases "decoded_reply decoded")
    case None
    with assms(2) msg policy p(4) show ?thesis by (simp add: authorize_compiled_reply_def authorised_def use_fallback_Inr)
  next
    case (Some reply)
    with assms(2) msg policy p(4) reg key show ?thesis
      by (cases "reply_status reply") (simp_all add: authorize_compiled_reply_def authorised_def use_fallback_Inr split: if_splits)
  qed
qed

lemma close_with_Some: "close_with ops t c r = Some ((t', c'), q) \<Longrightarrow> c' = c \<and> q = r"
  by (auto simp: close_with_def close_and_def split: option.splits)

lemma negotiate_cases:
  assumes "negotiate ops L N config p guard c t = Some ((t', c'), q)"
  obtains (refused) "c' = c" "q \<noteq> Inr (Inr ())"
  | (bound) t1 first decoded factory where "recv_line ops t = Some (t1, Inr first)"
      "decode_model_interface_registration_reply L N first = Inr (Inr decoded)" "authorize_compiled_reply decoded p = Inr factory"
      "run_binding ops L config (key_digest (prep_key p)) factory guard first c t1 = Some ((t', c'), q)"
  using assms close_with_Some
  by (fastforce simp: negotiate_def split: option.splits prod.splits sum.splits)

lemma run_compiled_negotiated_cases:
  assumes "run_compiled_negotiated ops L N config reg sel c t = Some ((t', c'), q)"
  obtains (refused) "c' = c" "q \<noteq> Inr (Inr ())"
  | (bound) p rl guard t1 t2 first decoded factory where "prepare_compiled_adapter L N sel = Inr p"
      "encode_model_interface_registration L N reg (prep_request p) = Inr rl" "send_line ops t rl = (t1, Inr ())"
      "recv_line ops t1 = Some (t2, Inr first)" "guard_sent Ph_idle reg = (guard, Inr ())"
      "decode_model_interface_registration_reply L N first = Inr (Inr decoded)"
      "authorised sel (key_digest (prep_key p)) decoded factory"
      "run_binding ops L config (key_digest (prep_key p)) factory guard first c t2 = Some ((t', c'), q)"
proof -
  from assms consider "c' = c" "q \<noteq> Inr (Inr ())"
    | p rl guard t1 where "prepare_compiled_adapter L N sel = Inr p" "guard_sent Ph_idle reg = (guard, Inr ())"
      "encode_model_interface_registration L N reg (prep_request p) = Inr rl" "send_line ops t rl = (t1, Inr ())"
      "negotiate ops L N config p guard c t1 = Some ((t', c'), q)"
    using close_with_Some
    by (fastforce simp: run_compiled_negotiated_def result_splits split: sum.splits prod.splits)
  then show ?thesis
  proof cases
    case 1 with refused show ?thesis .
  next
    case (2 p rl guard t1)
    from 2(5) show ?thesis
      by (cases rule: negotiate_cases) (use 2 refused bound authorize_authorised in blast)+
  qed
qed

lemma step_binding_Some:
  assumes "step_binding ops L binding compute guard first c t = Some ((t', c'), q)"
  obtains p c1 primary cleanup where
    "run_stepping_loop (prefixed_ops ops) L compute c guard \<lparr> pt_inner = t, pt_first = Some first \<rparr> = Some ((p, c1), primary)"
    "dispose_binding binding c1 = (c', cleanup)"
    "q = (case primary of Inl x \<Rightarrow> Inr (Inl (binding_failure x)) | Inr (Inl e) \<Rightarrow> Inr (Inl e) | Inr (Inr _) \<Rightarrow> Inr cleanup)"
  using assms close_with_Some by (fastforce simp: step_binding_def split: option.splits prod.splits)

lemma run_binding_cases:
  assumes "run_binding ops L config digest factory guard first c t = Some ((t', c'), q)"
  obtains (unbound) e where "call_factory factory c config = (c', Inl e)" "q = Inr (Inl e)"
  | (unfit) c1 binding c2 e cleanup where "call_factory factory c config = (c1, Inr binding)"
      "check_local_binding binding digest c1 config = (c2, Inl e)" "dispose_binding binding c2 = (c', cleanup)" "q = Inr (Inl e)"
  | (ran) c1 binding c2 compute where "call_factory factory c config = (c1, Inr binding)"
      "check_local_binding binding digest c1 config = (c2, Inr compute)"
      "step_binding ops L binding compute guard first c2 t = Some ((t', c'), q)"
  using assms close_with_Some
  by (fastforce simp: run_binding_def split: prod.splits sum.splits)

lemma check_local_binding_Inr:
  "check_local_binding b digest c config = (c', Inr compute) \<Longrightarrow> lb_digest b = digest \<and> lb_computer b = Some compute"
  by (auto simp: check_local_binding_def split: if_splits option.splits prod.splits sum.splits)

section \<open>Disposal\<close>

text \<open>The stepping loop changes the application state only through the computer, so what every call of the computer
  keeps, the loop keeps.\<close>

definition kept :: "('c \<Rightarrow> 'm) \<Rightarrow> 'c computer \<Rightarrow> bool" where
  "kept m compute \<longleftrightarrow> (\<forall>c a ps prev. m (fst (compute c a ps prev)) = m c)"

lemma keptD: "kept m compute \<Longrightarrow> compute c a ps prev = (c', r) \<Longrightarrow> m c' = m c"
  unfolding kept_def by (metis fst_conv)

definition step_keeps :: "('c \<Rightarrow> 'm) \<Rightarrow> 'm \<Rightarrow> (('t, 'c) stepping + ('t, 'c) stepping_exit) option \<Rightarrow> bool" where
  "step_keeps m v res = (case res of None \<Rightarrow> True | Some (Inl s) \<Rightarrow> m (st_computer s) = v | Some (Inr r) \<Rightarrow> m (snd (fst r)) = v)"

lemma step_keeps_simps [simp]:
  "m (st_computer s) = v \<Longrightarrow> step_keeps m v (finish ops s q)"
  "m (st_computer s) = v \<Longrightarrow> step_keeps m v (escape s x)"
  "step_keeps m v (Some (Inl s)) \<longleftrightarrow> m (st_computer s) = v"
  by (auto simp: step_keeps_def finish_def escape_def close_and_def split: option.split)

lemma step_keeps_next_message:
  assumes "m (st_computer s) = v" "\<And>s msg. m (st_computer s) = v \<Longrightarrow> step_keeps m v (k s msg)"
  shows "step_keeps m v (next_message ops L s k)"
  using assms
  by (auto simp: next_message_def Let_def split: option.split sum.split prod.split) (simp add: step_keeps_def)

lemma step_keeps_handle:
  assumes "kept m compute" "m (st_computer s) = v"
  shows "step_keeps m v (handle_step ops L compute s msg)" "step_keeps m v (handle_first ops s msg)"
proof -
  have report: "step_keeps m v (report_step ops L compute a ps prev s)" for a ps prev
    using assms keptD [OF assms(1), of "st_computer s" a ps prev]
    by (simp add: report_step_def Let_def split: prod.split sum.split)
  show "step_keeps m v (handle_step ops L compute s msg)"
    using assms(2) report by (simp add: handle_step_def split: MirrorMessage.split sum.split)
  show "step_keeps m v (handle_first ops s msg)"
    using assms(2) by (simp add: handle_first_def split: MirrorMessage.split option.split)
qed

lemma run_stepping_loop_keeps:
  assumes "kept m compute" "run_stepping_loop ops L compute c guard t = Some ((t', c'), q)"
  shows "m c' = m c"
proof -
  let ?s = "\<lparr> st_transport = t, st_computer = c, st_guard = guard, st_prev = [], st_last = [] \<rparr>"
  have body: "step_keeps m (m c) (stepping_body ops L compute s)" if "m (st_computer s) = m c" for s
    unfolding stepping_body_def using step_keeps_next_message step_keeps_handle(1) [OF assms(1)] that by metis
  have first: "step_keeps m (m c) (next_message ops L ?s (handle_first ops))"
    by (rule step_keeps_next_message) (simp_all add: step_keeps_handle(2) [OF assms(1)])
  have loop: "m (snd (fst r)) = m c" if init: "m (st_computer s) = m c" and run: "stepping_loop ops L compute s = Some r" for s r
  proof (rule stepping_loop_rule [where I = "\<lambda>s. m (st_computer s) = m c", OF _ _ init run])
    show "m (st_computer s') = m c" if "m (st_computer s) = m c" "stepping_body ops L compute s = Some (Inl s')" for s s'
      using body [OF that(1)] that(2) by simp
    show "m (snd (fst r)) = m c" if "m (st_computer s) = m c" "stepping_body ops L compute s = Some (Inr r)" for s r
      using body [OF that(1)] that(2) by (simp add: step_keeps_def)
  qed
  show ?thesis
    using assms(2) first loop [of _ "((t', c'), q)"]
    by (auto simp: run_stepping_loop_def step_keeps_def split: option.splits sum.splits)
qed

text \<open>An application that counts: \<open>made\<close> goes up when a factory returns a binding, \<open>gone\<close> when the binding's disposal
  is called; nothing else changes them.\<close>

definition tracked_binding :: "('c \<Rightarrow> nat) \<Rightarrow> ('c \<Rightarrow> nat) \<Rightarrow> 'c LocalBinding \<Rightarrow> bool" where
  "tracked_binding made gone b \<longleftrightarrow>
     (\<exists>d. lb_dispose b = Some d \<and> (\<forall>c. made (fst (d c)) = made c \<and> gone (fst (d c)) = Suc (gone c)))
     \<and> (\<forall>f. lb_computer b = Some f \<longrightarrow> kept (\<lambda>c. (made c, gone c)) f)
     \<and> (\<forall>f. lb_assert b = Some f \<longrightarrow> (\<forall>c config. made (fst (f c config)) = made c \<and> gone (fst (f c config)) = gone c))"

definition tracked_factory :: "('c \<Rightarrow> nat) \<Rightarrow> ('c \<Rightarrow> nat) \<Rightarrow> 'c AdapterFactory \<Rightarrow> bool" where
  "tracked_factory made gone factory \<longleftrightarrow> (\<forall>f. factory = Some f \<longrightarrow> (\<forall>c config.
     gone (fst (f c config)) = gone c \<and>
     (case snd (f c config) of
        Inr (Inr b) \<Rightarrow> made (fst (f c config)) = Suc (made c) \<and> tracked_binding made gone b
      | _ \<Rightarrow> made (fst (f c config)) = made c)))"

definition tracked_selection :: "('c \<Rightarrow> nat) \<Rightarrow> ('c \<Rightarrow> nat) \<Rightarrow> 'c CompiledAdapterSelection \<Rightarrow> bool" where
  "tracked_selection made gone sel \<longleftrightarrow>
     (\<forall>registry. sel_registry sel = Some registry \<longrightarrow> (\<forall>f \<in> snd ` set registry. tracked_factory made gone f))
     \<and> (\<forall>f. sel_fallback sel = Some f \<longrightarrow> tracked_factory made gone f)"

lemma authorised_tracked: "tracked_selection made gone sel \<Longrightarrow> authorised sel digest decoded f \<Longrightarrow> tracked_factory made gone f"
  by (force simp: tracked_selection_def authorised_def split: option.splits)

lemma dispose_tracked:
  "tracked_binding made gone b \<Longrightarrow> dispose_binding b c = (c', r) \<Longrightarrow> made c' = made c \<and> gone c' = Suc (gone c)"
  by (auto simp: tracked_binding_def dispose_binding_def split: prod.splits sum.splits) (metis fst_conv)+

lemma check_tracked:
  "tracked_binding made gone b \<Longrightarrow> check_local_binding b digest c config = (c', r) \<Longrightarrow> made c' = made c \<and> gone c' = gone c"
  by (auto simp: tracked_binding_def check_local_binding_def split: if_splits option.splits prod.splits sum.splits) (metis fst_conv)+

lemma call_factory_tracked:
  assumes "tracked_factory made gone f" "call_factory f c config = (c', r)"
  shows "gone c' = gone c \<and> (case r of Inl _ \<Rightarrow> made c' = made c | Inr b \<Rightarrow> made c' = Suc (made c) \<and> tracked_binding made gone b)"
proof (cases f)
  case (Some g)
  obtain c1 r1 where g: "g c config = (c1, r1)" by (cases "g c config")
  have "gone (fst (g c config)) = gone c \<and> (case snd (g c config) of
      Inr (Inr b) \<Rightarrow> made (fst (g c config)) = Suc (made c) \<and> tracked_binding made gone b
    | _ \<Rightarrow> made (fst (g c config)) = made c)"
    using assms(1) Some unfolding tracked_factory_def by blast
  with assms(2) Some g show ?thesis
    by (auto simp: call_factory_def split: sum.splits)
qed (use assms in \<open>auto simp: call_factory_def\<close>)

lemma run_binding_tracked:
  assumes "tracked_factory made gone f" "run_binding ops L config digest f guard first c t = Some ((t', c'), q)"
  shows "(made c' = made c \<and> gone c' = gone c \<and> q \<noteq> Inr (Inr ())) \<or> (made c' = Suc (made c) \<and> gone c' = Suc (gone c))"
  using assms(2)
proof (cases rule: run_binding_cases)
  case (unbound e)
  with call_factory_tracked [OF assms(1)] show ?thesis by fastforce
next
  case (unfit c1 binding c2 e cleanup)
  from call_factory_tracked [OF assms(1) unfit(1)] have "tracked_binding made gone binding" "made c1 = Suc (made c)" "gone c1 = gone c"
    by auto
  with check_tracked [of made gone, OF _ unfit(2)] dispose_tracked [of made gone, OF _ unfit(3)] show ?thesis by simp
next
  case (ran c1 binding c2 compute)
  from call_factory_tracked [OF assms(1) ran(1)] have b: "tracked_binding made gone binding" "made c1 = Suc (made c)" "gone c1 = gone c"
    by auto
  have comp: "kept (\<lambda>c. (made c, gone c)) compute"
    using b(1) check_local_binding_Inr [OF ran(2)] by (auto simp: tracked_binding_def)
  from ran(3) obtain p c3 primary cleanup where
    run: "run_stepping_loop (prefixed_ops ops) L compute c2 guard \<lparr> pt_inner = t, pt_first = Some first \<rparr> = Some ((p, c3), primary)"
    and disp: "dispose_binding binding c3 = (c', cleanup)" by (rule step_binding_Some)
  from run_stepping_loop_keeps [OF comp run] check_tracked [OF b(1) ran(2)] dispose_tracked [OF b(1) disp] b show ?thesis by simp
qed

section \<open>A conforming negotiated session\<close>

text \<open>The application of a matched interface: the registered factory makes a binding of the compiled digest, whose
  configuration check accepts.\<close>

definition binds :: "'c PreparedCompiledAdapter \<Rightarrow> ApalacheConfig \<Rightarrow> 'c \<Rightarrow> 'c LocalBinding \<Rightarrow> 'c computer \<Rightarrow> 'c \<Rightarrow> bool" where
  "binds p config c b compute c' \<longleftrightarrow> lb_digest b = key_digest (prep_key p) \<and> lb_computer b = Some compute
     \<and> (\<exists>f c1 check. prep_factory p = Some f \<and> f c config = (c1, Inr (Inr b)) \<and> lb_assert b = Some check
        \<and> check c1 config = (c', Inr (Inr ())))"

definition matched_reply :: "DecodedReply \<Rightarrow> SemanticDigest \<Rightarrow> bool" where
  "matched_reply d digest \<longleftrightarrow> decoded_message d = SpecValidated None
     \<and> (\<exists>reply. decoded_reply d = Some reply \<and> reply_status reply = MI_matched \<and> reply_semantic reply = Some digest)"

lemma binds_run:
  "binds p config c b compute c' \<Longrightarrow> run_binding ops L config (key_digest (prep_key p)) (prep_factory p) guard first c t =
     step_binding ops L b compute guard first c' t"
  by (auto simp: binds_def run_binding_def call_factory_def check_local_binding_def)

lemma matched_authorize: "matched_reply d (key_digest (prep_key p)) \<Longrightarrow> authorize_compiled_reply d p = Inr (prep_factory p)"
  by (auto simp: matched_reply_def authorize_compiled_reply_def)

context live_channel
begin

lemma prefixed_live:
  "live_channel (prefixed_ops ops) (\<lambda>t. boundary (pt_inner t)) (\<lambda>t. sent (pt_inner t)) (\<lambda>t. is_open (pt_inner t))
     (pt_pending pending) (\<lambda>t. healthy (pt_inner t))"
proof (intro live_channel.intro live_channel_axioms.intro prefixed_channel)
  fix t :: "'a PrefixedTransport" and l ls
  show "boundary (pt_inner t)" if "healthy (pt_inner t)" using that by (rule healthy_boundary)
  show "\<exists>t'. recv_line (prefixed_ops ops) t = Some (t', Inr l) \<and> pt_pending pending t' = ls \<and> healthy (pt_inner t')"
    if "healthy (pt_inner t)" "pt_pending pending t = l # ls"
    using that recv_pending [of "pt_inner t" l ls] by (cases "pt_first t") (auto simp: pt_pending_def)
  show "\<exists>t'. send_line (prefixed_ops ops) t l = (t', Inr ()) \<and> pt_pending pending t' = pt_pending pending t \<and> healthy (pt_inner t')"
    if "healthy (pt_inner t)" "valid_line l"
    using send_healthy [OF that] by (auto simp: pt_pending_def)
  show "\<exists>t' c. close_transport (prefixed_ops ops) t = Some (t', c)"
    using close_returns [of "pt_inner t"] by auto
qed

lemma step_binding_replay:
  assumes "healthy t" "pending t = ls @ l # rest" "decodes L first (SpecValidated None)"
    and "list_all2 (decodes L) ls ms" "decodes L l fin" "\<exists>a s ms'. ms @ [fin] = InitialState a s # ms'"
    and "replay compute c [] [] ms = Some (sts, c', act)"
    and "list_all2 (sendable L) sts lines" "session_outcome L act fin = Some q"
    and "lb_dispose b = Some d" "d c' = (c'', Inr (Inr ()))"
  shows "\<exists>t'. step_binding ops L b compute Ph_validating first c t = Some ((t', c''), q) \<and> \<not> is_open t' \<and> sent t' = sent t @ lines"
proof -
  let ?p = "\<lparr> pt_inner = t, pt_first = Some first \<rparr>"
  have pend: "pt_pending pending ?p = first # ls @ l # rest" using assms(2) by (simp add: pt_pending_def)
  obtain p where run: "run_stepping_loop (prefixed_ops ops) L compute c Ph_validating ?p = Some ((p, c'), q)"
    and sent: "sent (pt_inner p) = sent t @ lines"
    using live_channel.run_stepping_loop_replay [OF prefixed_live _ pend assms(3-9)] assms(1) by auto
  have disp: "dispose_binding b c' = (c'', Inr ())" using assms(10,11) by (simp add: dispose_binding_def)
  have q: "\<exists>r. q = Inr r" using assms(9) by (auto simp: session_outcome_def mirror_error_def split: MirrorMessage.splits sum.splits)
  then have "(case q of Inl x \<Rightarrow> Inr (Inl (binding_failure x)) | Inr (Inl e) \<Rightarrow> Inr (Inl e) | Inr (Inr _) \<Rightarrow> Inr (Inr ())) = q"
    by (auto split: sum.splits)
  then have eq: "step_binding ops L b compute Ph_validating first c t = close_with ops (pt_inner p) c'' q"
    by (simp add: step_binding_def run disp)
  obtain t' r where cl: "close_transport ops (pt_inner p) = Some (t', r)" using close_returns by blast
  then have "close_with ops (pt_inner p) c'' q = Some ((t', c''), q)" by (simp add: close_with_def close_and_def)
  with eq close_closes [OF cl] sent show ?thesis by auto
qed

lemma negotiated_replay:
  assumes "healthy t" "prepare_compiled_adapter L N sel = Inr p"
    and "encode_model_interface_registration L N reg (prep_request p) = Inr rl" "valid_line rl"
    and "guard_sent Ph_idle reg = (Ph_validating, Inr ())" "pending t = first # ls @ l # rest"
    and "decode_model_interface_registration_reply L N first = Inr (Inr decoded)" "matched_reply decoded (key_digest (prep_key p))"
    and "binds p config c b compute c1" "list_all2 (decodes L) ls ms" "decodes L l fin"
    and "\<exists>a s ms'. ms @ [fin] = InitialState a s # ms'" "replay compute c1 [] [] ms = Some (sts, c2, act)"
    and "list_all2 (sendable L) sts lines" "session_outcome L act fin = Some q"
    and "lb_dispose b = Some d" "d c2 = (c3, Inr (Inr ()))"
  shows "\<exists>t'. run_compiled_negotiated ops L N config reg sel c t = Some ((t', c3), q) \<and> \<not> is_open t' \<and> sent t' = sent t @ rl # lines"
proof -
  from send_healthy [OF assms(1,4)] obtain t1 where t1: "send_line ops t rl = (t1, Inr ())" "pending t1 = pending t" "healthy t1" by blast
  have sent1: "sent t1 = sent t @ [rl]" using send_ok [OF t1(1) healthy_boundary [OF assms(1)]] by simp
  from recv_pending [OF t1(3)] t1(2) assms(6) obtain t2 where t2: "recv_line ops t1 = Some (t2, Inr first)"
    "pending t2 = ls @ l # rest" "healthy t2" by metis
  have sent2: "sent t2 = sent t1" using recv_silent [OF t2(1)] by simp
  have first: "decodes L first (SpecValidated None)"
    using decode_registration_Inr [OF assms(7)] assms(8) by (simp add: decodes_def matched_reply_def)
  have run: "run_compiled_negotiated ops L N config reg sel c t = step_binding ops L b compute Ph_validating first c1 t2"
    using assms(2,3,5,7) t1(1) t2(1)
    by (simp add: run_compiled_negotiated_def negotiate_def matched_authorize [OF assms(8)] binds_run [OF assms(9)])
  from step_binding_replay [OF t2(3,2) first assms(10-17)] sent1 sent2 show ?thesis by (auto simp: run)
qed

end

text \<open>The prefixed TCP connection, as the loop sees it.\<close>

interpretation prefixed_tcp: live_channel "prefixed_ops tcp_ops" "\<lambda>t. tcp_boundary (pt_inner t)" "\<lambda>t. tcp_sent (pt_inner t)"
  "\<lambda>t. tcp_open (pt_inner t)" "pt_pending tcp_pending" "\<lambda>t. tcp_healthy (pt_inner t)"
  by (rule tcp_live.prefixed_live)

section \<open>Properties\<close>

definition sample_digest :: SemanticDigest where
  "sample_digest = SemanticDigest (replicate 32 0)"

definition sample_computer :: "(nat \<times> nat \<times> State list) computer" where
  "sample_computer app action params prev = (case app of (made, gone, queue) \<Rightarrow>
     (case preset_client queue action params prev of (rest, r) \<Rightarrow> ((made, gone, rest), r)))"

definition sample_binding :: "(nat \<times> nat \<times> State list) LocalBinding" where
  "sample_binding = \<lparr> lb_digest = sample_digest, lb_computer = Some sample_computer,
     lb_assert = Some (\<lambda>app config. (app, Inr (Inr ()))), lb_dispose = Some (\<lambda>(made, gone, queue). ((made, Suc gone, queue), Inr (Inr ()))) \<rparr>"

definition counting_factory :: "(nat \<times> nat \<times> State list) AdapterFactory" where
  "counting_factory = Some (\<lambda>(made, gone, queue) config. ((Suc made, gone, queue), Inr (Inr sample_binding)))"

definition sample_selection :: "(nat \<times> nat \<times> State list) CompiledAdapterSelection" where
  "sample_selection = \<lparr> sel_metadata = \<lparr> metadata_digest = semantic_digest_hex sample_digest, metadata_contract = ''k'' \<rparr>,
     sel_adapter = ''clock'', sel_profile = mirrorcpp_target_profile, sel_version = state_computer_contract_version,
     sel_registry = Some [(\<lparr> key_digest = sample_digest, key_adapter = ''clock'', key_profile = mirrorcpp_target_profile,
       key_contract_version = state_computer_contract_version \<rparr>, counting_factory)],
     sel_policy = PolicyRequire, sel_fallback = None \<rparr>"

definition sample_traces :: ClientMessage where
  "sample_traces = RegisterTraces sample_config [''t.itf.json'']"

text \<open>The document of a matched reply.\<close>

definition matched_json :: Json where
  "matched_json = JObject [(''modelInterface'', JObject [(''descriptorSchema'', JString model_interface_descriptor_schema),
       (''schema'', JString model_interface_negotiation_schema), (''semanticDigest'', JString (render_wire_semantic_digest sample_digest)), (''status'', JString ''matched'')]),
     (''proto_step'', JString ''spec_validated''), (''result'', JString ''valid'')]"

definition negotiated_lib :: json_lib where
  "negotiated_lib = ref_lib [(ref_print (client_json session_lib sample_traces), client_json session_lib sample_traces),
     (''k'', contract_json sample_contract), (''v'', matched_json),
     (''i'', JObject [(''action'', JString ''Init''), (''proto_step'', JString ''initial_state''), (''state'', JObject [(''x'', JInteger 0)])]),
     (''n'', JObject [(''action'', JString ''Tick''), (''parameters'', JObject []), (''proto_step'', JString ''next_step'')]),
     (''d'', JObject [(''proto_step'', JString ''all_steps_done'')])]"

definition quiet_lib :: negotiation_lib where
  "quiet_lib = \<lparr> nl_events = (\<lambda>_. []), nl_index_what = (\<lambda>_. ''cannot use operator[]'') \<rparr>"

lemma negotiated_lib_parses:
  "lib_parse negotiated_lib (ref_print (client_json session_lib sample_traces)) = Inr (client_json session_lib sample_traces)"
  "lib_parse negotiated_lib ''k'' = Inr (contract_json sample_contract)"
  "lib_parse negotiated_lib ''v'' = Inr matched_json"
  "lib_parse negotiated_lib ''i'' = Inr (JObject [(''action'', JString ''Init''), (''proto_step'', JString ''initial_state''), (''state'', JObject [(''x'', JInteger 0)])])"
  "lib_parse negotiated_lib ''n'' = Inr (JObject [(''action'', JString ''Tick''), (''parameters'', JObject []), (''proto_step'', JString ''next_step'')])"
  "lib_parse negotiated_lib ''d'' = Inr (JObject [(''proto_step'', JString ''all_steps_done'')])"
  by (simp_all add: negotiated_lib_def client_json_def jobject_def)

lemma sample_digest_wf: "digest_wf sample_digest"
  by (simp add: digest_wf_def sample_digest_def)

lemma negotiated_lib_decodes:
  "decodes negotiated_lib ''v'' (SpecValidated None)"
  "decodes negotiated_lib ''i'' (InitialState ''Init'' [(''x'', VInt 0)])"
  "decodes negotiated_lib ''n'' (NextStep ''Tick'' [])"
  "decodes negotiated_lib ''d'' AllStepsDone"
  by (simp_all add: decodes_def decode_mirror_message_def negotiated_lib_parses matched_json_def is_object_def jfind_def decode_tagged_def
      decode_spec_validated_def require_object_def jat_def decode_validate_result_def string_member_def require_string_def
      decode_state_field_def decode_state_def om_build_def)

definition sample_prepared :: "(nat \<times> nat \<times> State list) PreparedCompiledAdapter" where
  "sample_prepared = \<lparr> prep_request = \<lparr> request_policy = PolicyRequire, expected_digest = sample_digest,
       request_contract = contract_json sample_contract \<rparr>,
     prep_key = \<lparr> key_digest = sample_digest, key_adapter = ''clock'', key_profile = mirrorcpp_target_profile,
       key_contract_version = state_computer_contract_version \<rparr>,
     prep_factory = counting_factory, prep_fallback = None \<rparr>"

lemma sample_prepares: "prepare_compiled_adapter negotiated_lib quiet_lib sample_selection = Inr sample_prepared"
proof -
  have hex: "semantic_digest_from_hex (semantic_digest_hex sample_digest) = Inr sample_digest"
    by (simp add: digest_hex_unique sample_digest_wf)
  have "strict_parse negotiated_lib quiet_lib ''k'' = Inr (contract_json sample_contract)"
    by (simp add: strict_parse_def quiet_lib_def negotiated_lib_parses)
  with hex have request: "make_verify_request negotiated_lib quiet_lib (sel_metadata sample_selection) PolicyRequire = Inr (prep_request sample_prepared)"
    by (simp add: make_verify_request_def sample_selection_def sample_prepared_def sample_contract_valid)
  show ?thesis
    using request
    by (simp add: prepare_compiled_adapter_def sample_selection_def sample_prepared_def resolve_def Let_def)
qed

definition sample_registration :: string where
  "sample_registration = ref_print (JObject (om_put ''modelInterface'' (request_json (prep_request sample_prepared))
     (om_build ((''proto_step'', JString (client_message_name sample_traces)) # client_fields session_lib sample_traces))))"

lemma sample_registers:
  "encode_model_interface_registration negotiated_lib quiet_lib sample_traces (prep_request sample_prepared) = Inr sample_registration"
  "valid_line sample_registration"
proof -
  let ?doc = "JObject (om_put ''modelInterface'' (request_json (prep_request sample_prepared))
     (om_build ((''proto_step'', JString (client_message_name sample_traces)) # client_fields session_lib sample_traces)))"
  have json: "client_json negotiated_lib sample_traces = client_json session_lib sample_traces"
    by (simp add: sample_traces_def client_json_def client_fields_def)
  have contract: "json_bytes (contract_json sample_contract) \<le> 30000"
    by (simp add: sample_contract_def model_json_def wire_json_def parameter_json_def from_json_def kinded_def entry_json_def
        opt_field_def model_interface_contract_schema_def jobject_def om_build_def)
  have digest: "length (render_wire_semantic_digest sample_digest) = 71"
    using length_byte_hex [of "replicate 32 0"]
    by (simp add: render_wire_semantic_digest_def digest_prefix_def semantic_digest_hex_def sample_digest_def)
  have "json_bytes (request_json (prep_request sample_prepared)) \<le> 40000"
    using contract digest
    by (simp add: request_json_def jobject_def om_build_def sample_prepared_def model_interface_negotiation_schema_def
        model_interface_descriptor_schema_def)
  then have "json_bytes ?doc \<le> 65535"
    by (simp add: sample_traces_def client_fields_def client_message_name_def jobject_def om_build_def encode_apalache_config_def
        sample_config_def opt_field_def json_strings_def json_of_ll_def)
  then have len: "length sample_registration \<le> 65535"
    using length_ref_print [of ?doc] by (simp add: sample_registration_def)
  have "lib_dump negotiated_lib j = Inr (ref_print j)" for j by (simp add: negotiated_lib_def)
  moreover have "jfind ''modelInterface'' (client_json session_lib sample_traces) = None"
    by (simp add: sample_traces_def client_json_def jobject_def client_fields_def client_message_name_def om_build_def
        sample_config_def encode_apalache_config_def jfind_def)
  ultimately show "encode_model_interface_registration negotiated_lib quiet_lib sample_traces (prep_request sample_prepared) = Inr sample_registration"
    using len
    by (simp add: encode_model_interface_registration_def encode_client_message_def json negotiated_lib_parses)
      (simp add: client_json_def jobject_def sample_registration_def)
  show "valid_line sample_registration"
    using len ref_print_not_Nil newline_notin_print by (simp add: valid_line_def sample_registration_def kMaxProtocolLineBytes_def del: ref_print.simps)
qed

lemma sample_decodes: "\<exists>d. decode_model_interface_registration_reply negotiated_lib quiet_lib ''v'' = Inr (Inr d) \<and> matched_reply d sample_digest"
proof -
  have "strict_parse negotiated_lib quiet_lib ''v'' = Inr matched_json"
    by (simp add: strict_parse_def quiet_lib_def negotiated_lib_parses)
  moreover have "parse_wire_semantic_digest (render_wire_semantic_digest sample_digest) = Inr sample_digest"
    by (simp add: wire_digest_unique sample_digest_wf)
  moreover from this have "decode_reply (JObject [(''descriptorSchema'', JString model_interface_descriptor_schema),
       (''schema'', JString model_interface_negotiation_schema), (''semanticDigest'', JString (render_wire_semantic_digest sample_digest)), (''status'', JString ''matched'')]) =
     Inr \<lparr> reply_status = MI_matched, reply_descriptor_schema = Some model_interface_descriptor_schema, reply_semantic = Some sample_digest, reply_provenance = None \<rparr>"
    by (simp add: decode_reply_def exact_object_def check_schema_def decode_status_def status_of_def absent_def
        optional_digest_def classify_reply_def no_descriptor_def string_field_def jfind_def is_null_def)
  ultimately show ?thesis
    using negotiated_lib_decodes(1)
    by (simp add: decode_model_interface_registration_reply_def decodes_def matched_json_def is_object_def absent_def jfind_def
        field_at_def string_field_def Let_def matched_reply_def is_null_def)
qed

lemma sample_binds: "binds sample_prepared config (m, g, q) sample_binding sample_computer (Suc m, g, q)"
  by (simp add: binds_def sample_prepared_def counting_factory_def sample_binding_def)

lemma sample_reports:
  "client_json negotiated_lib (ReportState [(''x'', VInt n)]) = client_json session_lib (ReportState [(''x'', VInt n)])"
proof -
  have "lib_int_str negotiated_lib = lib_int_str session_lib" by (simp add: negotiated_lib_def session_lib_def)
  then show ?thesis by (simp add: client_json_def client_fields_def encode_state_def)
qed

lemma sample_sendable:
  "n \<in> {0, 1} \<Longrightarrow> sendable negotiated_lib [(''x'', VInt n)] (ref_print (client_json session_lib (ReportState [(''x'', VInt n)])))"
proof -
  assume "n \<in> {0, 1}"
  then have "json_bytes (client_json session_lib (ReportState [(''x'', VInt n)])) \<le> kMaxProtocolLineBytes"
    using session_lib_lengths(2,3) by auto
  from session_lib_prints [OF this] show ?thesis
    by (simp add: sendable_def report_line_def encode_client_message_def sample_reports) (simp add: negotiated_lib_def)
qed

lemma sample_negotiated_run:
  "\<exists>t'. run_client_with_traces_negotiated tcp_ops negotiated_lib quiet_lib sample_config [''t.itf.json''] sample_selection
      (0, 0, [[(''x'', VInt 0)], [(''x'', VInt 1)]]) session_transport = Some ((t', (1, 1, [])), Inr (Inr ())) \<and>
    \<not> tcp_open t' \<and> length (tcp_sent t') = 3"
proof -
  obtain d where d: "decode_model_interface_registration_reply negotiated_lib quiet_lib ''v'' = Inr (Inr d)" "matched_reply d sample_digest"
    using sample_decodes by blast
  have "tcp_sent session_transport = []"
    by (simp add: session_transport_def sample_tcp_def tcp_sent_def split_lines_no_newline)
  moreover have "\<exists>t'. run_compiled_negotiated tcp_ops negotiated_lib quiet_lib sample_config sample_traces sample_selection
      (0, 0, [[(''x'', VInt 0)], [(''x'', VInt 1)]]) session_transport = Some ((t', (1, 1, [])), Inr (Inr ())) \<and> \<not> tcp_open t' \<and>
      tcp_sent t' = tcp_sent session_transport @ sample_registration #
        [ref_print (client_json session_lib (ReportState [(''x'', VInt 0)])), ref_print (client_json session_lib (ReportState [(''x'', VInt 1)]))]"
    by (rule tcp_live.negotiated_replay [where first = "''v''" and ls = "[''i'', ''n'']" and l = "''d''" and rest = "[]"
          and ms = "[InitialState ''Init'' [(''x'', VInt 0)], NextStep ''Tick'' []]" and fin = AllStepsDone
          and sts = "[[(''x'', VInt 0)], [(''x'', VInt 1)]]" and act = "''Tick''"
          and ?c2.0 = "(1, 0, [])" and d = "\<lambda>(made, gone, queue). ((made, Suc gone, queue), Inr (Inr ()))", OF _ sample_prepares sample_registers(1,2) _ _ d(1) _ sample_binds])
      (simp_all add: session_transport_healthy negotiated_lib_decodes sample_sendable sample_computer_def preset_client_def
        session_outcome_def sample_binding_def sample_traces_def guard_sent_registrations sample_prepared_def d(2))
  ultimately show ?thesis by (auto simp: run_client_with_traces_negotiated_def sample_traces_def)
qed

text \<open>C10: A conforming negotiated session runs to its verdict: over a healthy TCP connection, when the registration reply
  matches the compiled digest and the registered factory makes a compatible binding, the flow hands the reply to the
  stepping loop a second time, returns the outcome of the final message, has sent the registration and then the states
  the binding's computer produced, and leaves the transport closed and the binding disposed.\<close>

theorem negotiated_session_completes:
  assumes "tcp_healthy t" "prepare_compiled_adapter L N sel = Inr p"
    and "encode_model_interface_registration L N (RegisterTraces config paths) (prep_request p) = Inr rl" "valid_line rl"
    and "tcp_pending t = first # ls @ l # rest"
    and "decode_model_interface_registration_reply L N first = Inr (Inr decoded)" "matched_reply decoded (key_digest (prep_key p))"
    and "binds p config c b compute c1" "list_all2 (decodes L) ls ms" "decodes L l fin"
    and "\<exists>a s ms'. ms @ [fin] = InitialState a s # ms'" "replay compute c1 [] [] ms = Some (sts, c2, act)"
    and "list_all2 (sendable L) sts lines" "session_outcome L act fin = Some q"
    and "lb_dispose b = Some d" "d c2 = (c3, Inr (Inr ()))"
  shows "\<exists>t'. run_client_with_traces_negotiated tcp_ops L N config paths sel c t = Some ((t', c3), q) \<and> \<not> tcp_open t' \<and>
    tcp_sent t' = tcp_sent t @ rl # lines"
  using tcp_live.negotiated_replay [OF assms(1-4) guard_sent_registrations(1) assms(5-)]
  by (simp add: run_client_with_traces_negotiated_def)

theorem negotiated_session_completes_witness:
  "\<exists>t'. run_client_with_traces_negotiated tcp_ops negotiated_lib quiet_lib sample_config [''t.itf.json''] sample_selection
      (0, 0, [[(''x'', VInt 0)], [(''x'', VInt 1)]]) session_transport = Some ((t', (1, 1, [])), Inr (Inr ())) \<and> \<not> tcp_open t'"
proof -
  obtain d where d: "decode_model_interface_registration_reply negotiated_lib quiet_lib ''v'' = Inr (Inr d)" "matched_reply d sample_digest"
    using sample_decodes by blast
  have "\<exists>t'. run_client_with_traces_negotiated tcp_ops negotiated_lib quiet_lib sample_config [''t.itf.json''] sample_selection
      (0, 0, [[(''x'', VInt 0)], [(''x'', VInt 1)]]) session_transport = Some ((t', (1, 1, [])), Inr (Inr ())) \<and> \<not> tcp_open t' \<and>
      tcp_sent t' = tcp_sent session_transport @ sample_registration #
        [ref_print (client_json session_lib (ReportState [(''x'', VInt 0)])), ref_print (client_json session_lib (ReportState [(''x'', VInt 1)]))]"
    by (rule negotiated_session_completes [where first = "''v''" and ls = "[''i'', ''n'']" and l = "''d''" and rest = "[]"
          and ms = "[InitialState ''Init'' [(''x'', VInt 0)], NextStep ''Tick'' []]" and fin = AllStepsDone
          and sts = "[[(''x'', VInt 0)], [(''x'', VInt 1)]]" and act = "''Tick''" and ?c2.0 = "(1, 0, [])"
          and d = "\<lambda>(made, gone, queue). ((made, Suc gone, queue), Inr (Inr ()))",
          OF _ sample_prepares sample_registers [unfolded sample_traces_def] _ d(1) _ sample_binds])
      (simp_all add: session_transport_healthy negotiated_lib_decodes sample_sendable sample_computer_def preset_client_def
        session_outcome_def sample_binding_def sample_prepared_def d(2))
  then show ?thesis by blast
qed

text \<open>C14: Whenever the negotiated flow returns, either it failed before sending anything, with the transport and the
  application untouched, or the transport is closed; it stays open only when an exception of the codec leaves the
  decoding of the registration reply. Everything sent is the registration with the verification request, followed by
  reported states.\<close>

theorem negotiated_flow_closes:
  assumes "tcp_boundary t" "run_client_with_traces_negotiated tcp_ops L N config paths sel c t = Some ((t', c'), q)"
  shows "((t', c') = (t, c) \<and> (\<exists>e. q = Inr (Inl e))) \<or>
    ((tcp_open t' \<longrightarrow> (\<exists>x line. q = Inl x \<and> decode_model_interface_registration_reply L N line = Inl x)) \<and>
     (tcp_sent t' = tcp_sent t \<or>
      (\<exists>request rl ls. make_verify_request L N (sel_metadata sel) (sel_policy sel) = Inr request \<and>
        encode_model_interface_registration L N (RegisterTraces config paths) request = Inr rl \<and>
        tcp_sent t' = tcp_sent t @ rl # ls \<and> only_reports L ls)))"
  using tcp.run_compiled_negotiated_closed [OF assms(1)] assms(2) by (simp add: run_client_with_traces_negotiated_def)

lemma sample_boundary: "tcp_boundary session_transport"
  using session_transport_healthy(1) by (rule tcp_live.healthy_boundary)

theorem negotiated_flow_closes_witness:
  "\<exists>t' c' request rl ls. run_client_with_traces_negotiated tcp_ops negotiated_lib quiet_lib sample_config [''t.itf.json''] sample_selection
      (0, 0, [[(''x'', VInt 0)], [(''x'', VInt 1)]]) session_transport = Some ((t', c'), Inr (Inr ())) \<and>
    encode_model_interface_registration negotiated_lib quiet_lib (RegisterTraces sample_config [''t.itf.json'']) request = Inr rl \<and>
    tcp_sent t' = tcp_sent session_transport @ rl # ls \<and> only_reports negotiated_lib ls"
proof -
  obtain t' where run: "run_client_with_traces_negotiated tcp_ops negotiated_lib quiet_lib sample_config [''t.itf.json''] sample_selection
      (0, 0, [[(''x'', VInt 0)], [(''x'', VInt 1)]]) session_transport = Some ((t', (1, 1, [])), Inr (Inr ()))" "length (tcp_sent t') = 3"
    using sample_negotiated_run by blast
  have "tcp_sent session_transport = []"
    by (simp add: session_transport_def sample_tcp_def tcp_sent_def split_lines_no_newline)
  with negotiated_flow_closes [OF sample_boundary run(1)] run show ?thesis by auto
qed

text \<open>C11: The negotiated flow touches the application, or succeeds, only when authorised: the registration was sent, its
  reply validates the specification and either matches the compiled digest, which selects the factory registered under
  the exact key, or comes from a server that does not negotiate while the policy is \<^verbatim>\<open>prefer\<close> and a fallback is given;
  success further means that this factory made a binding of the compiled digest.\<close>

theorem negotiated_flow_authorised:
  assumes "run_compiled_negotiated ops L N config reg sel c t = Some ((t', c'), q)" "c' \<noteq> c \<or> q = Inr (Inr ())"
  shows "\<exists>request rl t1 t2 first decoded factory.
    make_verify_request L N (sel_metadata sel) (sel_policy sel) = Inr request \<and>
    encode_model_interface_registration L N reg request = Inr rl \<and>
    send_line ops t rl = (t1, Inr ()) \<and> recv_line ops t1 = Some (t2, Inr first) \<and>
    decode_model_interface_registration_reply L N first = Inr (Inr decoded) \<and>
    authorised sel (expected_digest request) decoded factory \<and>
    (q = Inr (Inr ()) \<longrightarrow> (\<exists>c1 b. call_factory factory c config = (c1, Inr b) \<and> lb_digest b = expected_digest request))"
  using assms(1)
proof (cases rule: run_compiled_negotiated_cases)
  case refused
  with assms(2) show ?thesis by blast
next
  case (bound p rl guard t1 t2 first decoded factory)
  have key: "key_digest (prep_key p) = expected_digest (prep_request p)"
    using prepare_compiled_adapter_Inr(2) [OF bound(1)] by (simp add: selection_key_def)
  have "\<exists>c1 b. call_factory factory c config = (c1, Inr b) \<and> lb_digest b = expected_digest (prep_request p)" if "q = Inr (Inr ())"
    using bound(8) that key by (cases rule: run_binding_cases) (auto dest: check_local_binding_Inr)
  with bound key prepare_compiled_adapter_Inr(1) [OF bound(1)] show ?thesis by metis
qed

theorem negotiated_flow_authorised_witness:
  "\<exists>decoded factory. decode_model_interface_registration_reply negotiated_lib quiet_lib ''v'' = Inr (Inr decoded) \<and>
    authorised sample_selection sample_digest decoded factory"
proof -
  obtain t' where "run_compiled_negotiated tcp_ops negotiated_lib quiet_lib sample_config sample_traces sample_selection
      (0, 0, [[(''x'', VInt 0)], [(''x'', VInt 1)]]) session_transport = Some ((t', (1, 1, [])), Inr (Inr ()))"
    using sample_negotiated_run by (auto simp: run_client_with_traces_negotiated_def sample_traces_def)
  from negotiated_flow_authorised [OF this] obtain request rl t1 t2 first decoded factory where
    req: "make_verify_request negotiated_lib quiet_lib (sel_metadata sample_selection) (sel_policy sample_selection) = Inr request"
    and enc: "encode_model_interface_registration negotiated_lib quiet_lib sample_traces request = Inr rl"
    and send: "send_line tcp_ops session_transport rl = (t1, Inr ())" and recv: "recv_line tcp_ops t1 = Some (t2, Inr first)"
    and dec: "decode_model_interface_registration_reply negotiated_lib quiet_lib first = Inr (Inr decoded)"
    and auth: "authorised sample_selection (expected_digest request) decoded factory" by auto
  have same: "request = prep_request sample_prepared"
    using prepare_compiled_adapter_Inr(1) [OF sample_prepares] req by simp
  from tcp_live.send_healthy [OF session_transport_healthy(1) tcp.send_ok_valid [OF send]] send
  have "tcp_healthy t1" "tcp_pending t1 = [''v'', ''i'', ''n'', ''d'']" by (auto simp: session_transport_healthy)
  with tcp_live.recv_pending [of t1 "''v''"] recv have "first = ''v''" by auto
  with dec auth same show ?thesis by (auto simp: sample_prepared_def)
qed

text \<open>C12: Every binding a factory makes is disposed exactly once before the flow returns, on success and on every error
  and exception path; at most one is made, and exactly one when the flow succeeds.\<close>

theorem binding_disposed_once:
  assumes "tracked_selection made gone sel"
    and "run_compiled_negotiated ops L N config reg sel c t = Some ((t', c'), q)"
  shows "(made c' = made c \<and> gone c' = gone c \<and> q \<noteq> Inr (Inr ())) \<or> (made c' = Suc (made c) \<and> gone c' = Suc (gone c))"
  using assms(2)
proof (cases rule: run_compiled_negotiated_cases)
  case (bound p rl guard t1 t2 first decoded factory)
  show ?thesis by (rule run_binding_tracked [OF authorised_tracked [OF assms(1) bound(7)] bound(8)])
qed simp

lemma sample_tracked: "tracked_selection fst (\<lambda>app. fst (snd app)) sample_selection"
  by (auto simp: tracked_selection_def sample_selection_def tracked_factory_def counting_factory_def tracked_binding_def
      sample_binding_def kept_def sample_computer_def split: prod.split)

theorem binding_disposed_once_witness:
  "\<exists>t' made gone queue. run_compiled_negotiated tcp_ops negotiated_lib quiet_lib sample_config sample_traces sample_selection
      (0, 0, [[(''x'', VInt 0)], [(''x'', VInt 1)]]) session_transport = Some ((t', (made, gone, queue)), Inr (Inr ())) \<and>
    made = 1 \<and> gone = 1"
proof -
  obtain t' made gone queue where run: "run_compiled_negotiated tcp_ops negotiated_lib quiet_lib sample_config sample_traces sample_selection
      (0, 0, [[(''x'', VInt 0)], [(''x'', VInt 1)]]) session_transport = Some ((t', (made, gone, queue)), Inr (Inr ()))"
    using sample_negotiated_run by (auto simp: run_client_with_traces_negotiated_def sample_traces_def)
  from binding_disposed_once [OF sample_tracked run] have "made = 1" "gone = 1" by auto
  with run show ?thesis by blast
qed

end
