(* ===== verification/Spec_Resolver.thy ===== *)
theory Spec_Resolver
  imports Protocol_Messages
begin

text \<open>
  \<^verbatim>\<open>src/spec.cpp\<close>: the tokenizer that finds the \<^verbatim>\<open>EXTENDS\<close> and \<^verbatim>\<open>INSTANCE\<close> clauses of a TLA+
  module, the search path, and \<^verbatim>\<open>spec_from_files\<close>, the breadth-first resolution of the import
  closure of a root module.

  The file system is a parameter: \<open>fs_canonical\<close> is \<^verbatim>\<open>std::filesystem::canonical\<close> (\<open>None\<close> for an
  error code), \<open>fs_exists\<close> is \<^verbatim>\<open>std::filesystem::exists\<close> and \<open>fs_read\<close> is the content
  \<^verbatim>\<open>read_file\<close> gets from an input stream (\<open>None\<close> when the stream does not open or breaks). The path
  operations are those of \<^verbatim>\<open>std::filesystem::path\<close> on POSIX, a path being its native string.

  The specification is the import closure \<open>module_reach\<close>, an inductive predicate that knows nothing
  of queues and visited sets; the theorems show that the resolver returns exactly that closure, that
  it fails exactly when a reached module is missing, ambiguous or unreadable, and that it always ends.
\<close>

section \<open>Tokens\<close>

definition builtin_modules :: "string list" where
  "builtin_modules = [''Naturals'', ''Integers'', ''Reals'', ''Sequences'', ''FiniteSets'', ''TLC'',
     ''Bags'', ''Apalache'']"

definition is_builtin :: "string \<Rightarrow> bool" where
  "is_builtin name = (name \<in> set builtin_modules)"

definition ident_start :: "char \<Rightarrow> bool" where
  "ident_start c = (is_alpha c \<or> c = CHR ''_'')"

definition ident_char :: "char \<Rightarrow> bool" where
  "ident_char c = (is_alnum c \<or> c = CHR ''_'')"

text \<open>\<^verbatim>\<open>i + 1 < src.size() && src[i + 1] == x\<close>, on the text after position \<^verbatim>\<open>i\<close>.\<close>

definition next_is :: "char \<Rightarrow> string \<Rightarrow> bool" where
  "next_is x cs = (cs \<noteq> [] \<and> hd cs = x)"

text \<open>The inner loop over a string literal: the text after the closing quote.\<close>

fun skip_string :: "string \<Rightarrow> string" where
  "skip_string [] = []"
| "skip_string (c # cs) =
     (if c = CHR 0x5C \<and> cs \<noteq> [] then skip_string (tl cs)
      else if c = quote then cs
      else skip_string cs)"

lemma skip_string_length: "length (skip_string s) \<le> length s"
  by (induction s rule: skip_string.induct) auto

text \<open>The main loop; the first argument is \<^verbatim>\<open>block_depth\<close>, the second the text from \<^verbatim>\<open>i\<close> on.\<close>

function scan_tokens :: "nat \<Rightarrow> string \<Rightarrow> string list" where
  "scan_tokens d [] = []"
| "scan_tokens d (c # cs) =
     (if 0 < d then
        (if c = CHR ''('' \<and> next_is CHR ''*'' cs then scan_tokens (d + 1) (tl cs)
         else if c = CHR ''*'' \<and> next_is CHR '')'' cs then scan_tokens (d - 1) (tl cs)
         else scan_tokens d cs)
      else if c = CHR 0x5C \<and> next_is CHR ''*'' cs then scan_tokens 0 (dropWhile (\<lambda>x. x \<noteq> newline) cs)
      else if c = CHR ''('' \<and> next_is CHR ''*'' cs then scan_tokens 1 (tl cs)
      else if c = quote then scan_tokens 0 (skip_string cs)
      else if c = CHR '','' then '','' # scan_tokens 0 cs
      else if ident_start c then
        (c # takeWhile ident_char cs) # scan_tokens 0 (dropWhile ident_char cs)
      else scan_tokens 0 cs)"
  by pat_completeness auto
termination
  by (relation "measure (\<lambda>(d, s). length s)")
    (auto simp: less_Suc_eq_le length_dropWhile_le skip_string_length)

declare scan_tokens.simps(2) [simp del]

definition dependency_tokens :: "string \<Rightarrow> string list" where
  "dependency_tokens src = scan_tokens 0 src"

text \<open>
  The clause loop. \<open>extends_more\<close> is the inner loop over \<^verbatim>\<open>, name\<close> pairs: it returns the names and
  the tokens from \<^verbatim>\<open>j\<close> on, where the outer loop continues.
\<close>

fun extends_more :: "string list \<Rightarrow> string list \<times> string list" where
  "extends_more (x # n # ts) =
     (if x = '','' \<and> n \<noteq> '','' then (let (ns, r) = extends_more ts in (n # ns, r)) else ([], x # n # ts))"
| "extends_more ts = ([], ts)"

lemma extends_more_length: "length (snd (extends_more ts)) \<le> length ts"
  by (induction ts rule: extends_more.induct) (auto simp: split_def Let_def)

lemma extends_more_tl: "(ns, r) = extends_more (tl ts) \<Longrightarrow> ts \<noteq> [] \<Longrightarrow> length r < Suc (length ts)"
  using extends_more_length [of "tl ts"] by (cases ts) (auto dest: sym)

function clause_names :: "string list \<Rightarrow> string list" where
  "clause_names [] = []"
| "clause_names (t # ts) =
     (if t = ''EXTENDS'' then
        (if ts = [] \<or> hd ts = '','' then clause_names ts
         else (case extends_more (tl ts) of (ns, r) \<Rightarrow> hd ts # ns @ clause_names r))
      else if t = ''INSTANCE'' \<and> ts \<noteq> [] then hd ts # clause_names (tl ts)
      else clause_names ts)"
  by pat_completeness auto
termination
  by (relation "measure length") (auto simp: extends_more_tl)

declare clause_names.simps(2) [simp del]

definition import_names :: "string \<Rightarrow> string list" where
  "import_names src = clause_names (dependency_tokens src)"

section \<open>Paths and the search path\<close>

abbreviation slash :: char where
  "slash \<equiv> CHR ''/''"

text \<open>\<^verbatim>\<open>path::operator/\<close>, \<^verbatim>\<open>path::filename\<close> and \<^verbatim>\<open>path::parent_path\<close>.\<close>

definition path_join :: "string \<Rightarrow> string \<Rightarrow> string" where
  "path_join d p =
     (if starts_with [slash] p then p
      else if d = [] \<or> List.last d = slash then d @ p
      else d @ [slash] @ p)"

definition path_filename :: "string \<Rightarrow> string" where
  "path_filename p = rev (takeWhile (\<lambda>c. c \<noteq> slash) (rev p))"

definition parent_path :: "string \<Rightarrow> string" where
  "parent_path p =
     (let r = dropWhile (\<lambda>c. c \<noteq> slash) (rev p); s = dropWhile (\<lambda>c. c = slash) r
      in if s = [] then rev r else rev s)"

text \<open>\<^verbatim>\<open>default_search_dirs\<close>: the argument is the value of \<^verbatim>\<open>TLA_LIBRARY_PATH\<close>, if it is set.\<close>

function split_dirs :: "string \<Rightarrow> string list" where
  "split_dirs sv =
     (case find_char CHR '':'' sv of
        None \<Rightarrow> (if sv = [] then [] else [sv])
      | Some n \<Rightarrow> (if n = 0 then [] else [take n sv]) @ split_dirs (drop (n + 1) sv))"
  by pat_completeness auto
termination
  by (relation "measure length") (auto simp: find_char_Some)

declare split_dirs.simps [simp del]

definition default_search_dirs :: "string option \<Rightarrow> string list" where
  "default_search_dirs raw = (case raw of None \<Rightarrow> [] | Some sv \<Rightarrow> split_dirs sv)"

section \<open>Resolution\<close>

record fsys =
  fs_canonical :: "string \<Rightarrow> string option"
  fs_exists :: "string \<Rightarrow> bool"
  fs_read :: "string \<Rightarrow> string option"

text \<open>The three containers of \<^verbatim>\<open>spec_from_files\<close>.\<close>

record resolution =
  res_sources :: "string list"
  res_pending :: "string list"
  res_visited :: "string set"

definition spec_error :: "string \<Rightarrow> Error" where
  "spec_error m = make_error EK_spec_source m"

definition push_file :: "fsys \<Rightarrow> string \<Rightarrow> resolution \<Rightarrow> resolution result" where
  "push_file fs file s = (case fs_canonical fs file of
     None \<Rightarrow> Inl (spec_error (''cannot resolve spec file '' @ [CHR 0x27] @ file @ [CHR 0x27]))
   | Some key \<Rightarrow>
       (if key \<in> res_visited s then Inr s
        else (case fs_read fs key of
            None \<Rightarrow> Inl (spec_error (''cannot read spec file '' @ [CHR 0x27] @ key @ [CHR 0x27]))
          | Some src \<Rightarrow> Inr \<lparr> res_sources = res_sources s @ [src], res_pending = res_pending s @ [key],
                res_visited = insert key (res_visited s) \<rparr>)))"

definition cand_dirs :: "string list \<Rightarrow> string \<Rightarrow> string list" where
  "cand_dirs search_dirs importer =
     (if parent_path importer = [] then ''.'' else parent_path importer) # search_dirs"

fun candidates_in :: "fsys \<Rightarrow> string \<Rightarrow> string set \<Rightarrow> string list \<Rightarrow> string list" where
  "candidates_in fs name seen [] = []"
| "candidates_in fs name seen (d # ds) =
     (let cand = path_join d (name @ ''.tla'') in
      if \<not> fs_exists fs cand then candidates_in fs name seen ds
      else (case fs_canonical fs cand of
          None \<Rightarrow> candidates_in fs name seen ds
        | Some cc \<Rightarrow> (if cc \<in> seen then candidates_in fs name seen ds
                       else cc # candidates_in fs name (insert cc seen) ds)))"

fun join_with :: "string \<Rightarrow> string list \<Rightarrow> string" where
  "join_with sep [] = []"
| "join_with sep [x] = x"
| "join_with sep (x # y # xs) = x @ sep @ join_with sep (y # xs)"

definition resolve_import :: "fsys \<Rightarrow> string list \<Rightarrow> string \<Rightarrow> string \<Rightarrow> resolution \<Rightarrow> resolution result" where
  "resolve_import fs search_dirs importer name s =
     (if is_builtin name then Inr s
      else
        (let dirs = cand_dirs search_dirs importer;
             who = ''module '' @ [CHR 0x27] @ name @ [CHR 0x27] @ '' imported by '' @ [CHR 0x27]
                     @ path_filename importer @ [CHR 0x27]
         in case candidates_in fs name {} dirs of
              [] \<Rightarrow> Inl (spec_error (who @ '' not found (searched: '' @ join_with '', '' dirs @ '')''))
            | [c] \<Rightarrow> push_file fs c s
            | cs \<Rightarrow> Inl (spec_error (who @ '' is ambiguous; found in multiple directories: ''
                        @ join_with '', '' cs))))"

fun resolve_imports :: "fsys \<Rightarrow> string list \<Rightarrow> string \<Rightarrow> string list \<Rightarrow> resolution \<Rightarrow> resolution result" where
  "resolve_imports fs search_dirs importer [] s = Inr s"
| "resolve_imports fs search_dirs importer (n # ns) s =
     rbind (resolve_import fs search_dirs importer n s) (resolve_imports fs search_dirs importer ns)"

text \<open>The queue loop \<^verbatim>\<open>while (idx < pending.size())\<close>. \<open>None\<close> is a loop that never ends.\<close>

partial_function (option) resolve_loop ::
  "fsys \<Rightarrow> string list \<Rightarrow> nat \<Rightarrow> resolution \<Rightarrow> resolution result option" where
  "resolve_loop fs search_dirs idx s =
     (if idx < length (res_pending s) then
        (case resolve_imports fs search_dirs (res_pending s ! idx) (import_names (res_sources s ! idx)) s of
           Inl e \<Rightarrow> Some (Inl e)
         | Inr s' \<Rightarrow> resolve_loop fs search_dirs (idx + 1) s')
      else Some (Inr s))"

declare resolve_loop.simps [code]

definition spec_from_files :: "fsys \<Rightarrow> string \<Rightarrow> string list \<Rightarrow> ApalacheSpec result option" where
  "spec_from_files fs root search_dirs =
     (case push_file fs root \<lparr> res_sources = [], res_pending = [], res_visited = {} \<rparr> of
        Inl e \<Rightarrow> Some (Inl e)
      | Inr s \<Rightarrow>
          (case resolve_loop fs search_dirs 0 s of
             None \<Rightarrow> None
           | Some (Inl e) \<Rightarrow> Some (Inl e)
           | Some (Inr s') \<Rightarrow> Some (Inr \<lparr> spec_sources = res_sources s' \<rparr>)))"

section \<open>Specification: the import closure\<close>

text \<open>The files a module name stands for on a search path.\<close>

definition module_files :: "fsys \<Rightarrow> string \<Rightarrow> string list \<Rightarrow> string set" where
  "module_files fs name dirs =
     {cc. \<exists>d \<in> set dirs. fs_exists fs (path_join d (name @ ''.tla''))
        \<and> fs_canonical fs (path_join d (name @ ''.tla'')) = Some cc}"

definition module_imports :: "fsys \<Rightarrow> string list \<Rightarrow> string \<Rightarrow> string \<Rightarrow> string \<Rightarrow> bool" where
  "module_imports fs dirs c name c' =
     (\<exists>cc. module_files fs name (cand_dirs dirs c) = {cc} \<and> fs_canonical fs cc = Some c')"

inductive module_reach :: "fsys \<Rightarrow> string list \<Rightarrow> string \<Rightarrow> string \<Rightarrow> bool"
  for fs :: fsys and dirs :: "string list" and root :: string where
  reach_root: "fs_canonical fs root = Some c \<Longrightarrow> module_reach fs dirs root c"
| reach_import: "module_reach fs dirs root c \<Longrightarrow> fs_read fs c = Some src \<Longrightarrow>
    name \<in> set (import_names src) \<Longrightarrow> \<not> is_builtin name \<Longrightarrow> module_imports fs dirs c name c' \<Longrightarrow>
    module_reach fs dirs root c'"

definition module_ok :: "fsys \<Rightarrow> string list \<Rightarrow> string \<Rightarrow> bool" where
  "module_ok fs dirs c = (\<exists>src. fs_read fs c = Some src
     \<and> (\<forall>name \<in> set (import_names src). is_builtin name \<or> (\<exists>c'. module_imports fs dirs c name c')))"

definition closure_ok :: "fsys \<Rightarrow> string \<Rightarrow> string list \<Rightarrow> bool" where
  "closure_ok fs root dirs =
     (fs_canonical fs root \<noteq> None \<and> (\<forall>c. module_reach fs dirs root c \<longrightarrow> module_ok fs dirs c))"

text \<open>The one fact about file systems the resolver's termination rests on: there are finitely many files.\<close>

definition fs_finite :: "fsys \<Rightarrow> bool" where
  "fs_finite fs = finite {c. \<exists>p. fs_canonical fs p = Some c}"

section \<open>Candidates\<close>

lemma candidates_in_set: "set (candidates_in fs name seen dirs) = module_files fs name dirs - seen"
proof (induction dirs arbitrary: seen)
  case (Cons d ds)
  have split: "module_files fs name (d # ds) = module_files fs name [d] \<union> module_files fs name ds"
    by (auto simp: module_files_def)
  show ?case
    unfolding split using Cons.IH by (auto simp: module_files_def Let_def split: option.splits)
qed (simp add: module_files_def)

lemma candidates_in_distinct: "distinct (candidates_in fs name seen dirs)"
  by (induction dirs arbitrary: seen) (auto simp: Let_def candidates_in_set split: option.splits)

lemma distinct_set_singleton: "distinct xs \<Longrightarrow> set xs = {c} \<Longrightarrow> xs = [c]"
proof (cases xs)
  case (Cons x ys)
  moreover assume "distinct xs" "set xs = {c}"
  ultimately show ?thesis by (cases ys) auto
qed simp

lemma candidates_in_single:
  "candidates_in fs name {} dirs = [c] \<longleftrightarrow> module_files fs name dirs = {c}"
  using candidates_in_set [of fs name "{}" dirs]
    distinct_set_singleton [OF candidates_in_distinct, of fs name "{}" dirs c] by auto

section \<open>The invariant of the queue\<close>

definition queue_ok :: "fsys \<Rightarrow> string list \<Rightarrow> string \<Rightarrow> resolution \<Rightarrow> bool" where
  "queue_ok fs dirs root s =
     (distinct (res_pending s) \<and> set (res_pending s) = res_visited s
      \<and> map Some (res_sources s) = map (fs_read fs) (res_pending s)
      \<and> (\<forall>c \<in> res_visited s. module_reach fs dirs root c))"

text \<open>The queue only grows at its end.\<close>

definition later :: "resolution \<Rightarrow> resolution \<Rightarrow> bool" where
  "later s s' = (\<exists>ps. res_pending s' = res_pending s @ ps)"

definition import_done :: "fsys \<Rightarrow> string list \<Rightarrow> string \<Rightarrow> resolution \<Rightarrow> string \<Rightarrow> bool" where
  "import_done fs dirs c s name =
     (is_builtin name \<or> (\<exists>c'. module_imports fs dirs c name c' \<and> c' \<in> set (res_pending s)))"

definition module_done :: "fsys \<Rightarrow> string list \<Rightarrow> resolution \<Rightarrow> string \<Rightarrow> bool" where
  "module_done fs dirs s c =
     (\<exists>src. fs_read fs c = Some src \<and> (\<forall>name \<in> set (import_names src). import_done fs dirs c s name))"

text \<open>An error reported by the resolver: it names a module source, and the closure is indeed broken.\<close>

definition closure_error :: "fsys \<Rightarrow> string list \<Rightarrow> string \<Rightarrow> Error \<Rightarrow> bool" where
  "closure_error fs dirs root e = (err_kind e = EK_spec_source \<and> \<not> closure_ok fs root dirs)"

lemma later_refl [simp]: "later s s"
  by (simp add: later_def)

lemma later_trans: "later s t \<Longrightarrow> later t u \<Longrightarrow> later s u"
  by (auto simp: later_def)

lemma import_done_later: "later s t \<Longrightarrow> import_done fs dirs c s n \<Longrightarrow> import_done fs dirs c t n"
  by (auto simp: import_done_def later_def)

lemma module_done_later: "later s t \<Longrightarrow> module_done fs dirs s c \<Longrightarrow> module_done fs dirs t c"
  by (auto simp: module_done_def intro: import_done_later)

lemma queue_source:
  assumes "queue_ok fs dirs root s" "i < length (res_pending s)"
  shows "fs_read fs (res_pending s ! i) = Some (res_sources s ! i)"
proof -
  have eq: "map Some (res_sources s) = map (fs_read fs) (res_pending s)"
    using assms(1) by (simp add: queue_ok_def)
  then have "length (res_sources s) = length (res_pending s)" by (metis length_map)
  with arg_cong [OF eq, of "\<lambda>xs. xs ! i"] assms(2) show ?thesis by simp
qed

lemma push_file_wp:
  assumes "queue_ok fs dirs root s" "fs_canonical fs file = Some c" "module_reach fs dirs root c"
  shows "wp (push_file fs file s)
    (\<lambda>s'. queue_ok fs dirs root s' \<and> later s s' \<and> c \<in> set (res_pending s')) (closure_error fs dirs root)"
proof (cases "fs_read fs c")
  case None
  then have "\<not> module_ok fs dirs c" by (simp add: module_ok_def)
  then have "\<not> closure_ok fs root dirs" using assms(3) by (auto simp: closure_ok_def)
  with assms None show ?thesis
    by (auto simp: push_file_def closure_error_def spec_error_def queue_ok_def)
next
  case (Some src)
  with assms show ?thesis by (auto simp: push_file_def queue_ok_def later_def)
qed

lemma not_closure_ok:
  "module_reach fs dirs root c \<Longrightarrow> fs_read fs c = Some src \<Longrightarrow> name \<in> set (import_names src) \<Longrightarrow>
    \<not> is_builtin name \<Longrightarrow> \<nexists>c'. module_imports fs dirs c name c' \<Longrightarrow> \<not> closure_ok fs root dirs"
  unfolding closure_ok_def module_ok_def by fastforce

lemma resolve_import_cases:
  obtains (builtin) "is_builtin name" "resolve_import fs dirs importer name s = Inr s"
  | (found) c where "\<not> is_builtin name" "module_files fs name (cand_dirs dirs importer) = {c}"
      "resolve_import fs dirs importer name s = push_file fs c s"
  | (failed) m where "\<not> is_builtin name" "\<nexists>c. module_files fs name (cand_dirs dirs importer) = {c}"
      "resolve_import fs dirs importer name s = Inl (spec_error m)"
proof (cases "is_builtin name")
  case True
  then show thesis by (auto intro!: builtin simp: resolve_import_def)
next
  case nb: False
  let ?cs = "candidates_in fs name {} (cand_dirs dirs importer)"
  show thesis
  proof (cases "\<exists>c. ?cs = [c]")
    case True
    then obtain c where c: "?cs = [c]" by blast
    show thesis
      by (rule found [OF nb]) (use c nb in \<open>simp_all add: resolve_import_def flip: candidates_in_single\<close>)
  next
    case False
    then have "\<exists>m. resolve_import fs dirs importer name s = Inl (spec_error m)"
      using nb by (auto simp: resolve_import_def Let_def split: list.splits)
    with nb False show thesis
      by (auto simp flip: candidates_in_single intro: failed)
  qed
qed

lemma resolve_import_wp:
  assumes q: "queue_ok fs dirs root s" and r: "module_reach fs dirs root c" "fs_read fs c = Some src"
    "name \<in> set (import_names src)"
  shows "wp (resolve_import fs dirs c name s)
    (\<lambda>s'. queue_ok fs dirs root s' \<and> later s s' \<and> import_done fs dirs c s' name) (closure_error fs dirs root)"
proof (cases rule: resolve_import_cases [of name fs dirs c s])
  case builtin
  then show ?thesis using q by (simp add: import_done_def)
next
  case (found cc)
  show ?thesis
  proof (cases "fs_canonical fs cc")
    case None
    then have "\<nexists>c'. module_imports fs dirs c name c'"
      using found(2) by (auto simp: module_imports_def)
    then have "\<not> closure_ok fs root dirs" by (rule not_closure_ok [OF r found(1)])
    then show ?thesis using found(3) None by (simp add: push_file_def closure_error_def spec_error_def)
  next
    case (Some c')
    then have i: "module_imports fs dirs c name c'" using found(2) by (simp add: module_imports_def)
    then have "module_reach fs dirs root c'" by (rule reach_import [OF r found(1)])
    from push_file_wp [OF q Some this] show ?thesis
      unfolding found(3) by (rule wp_mono) (use i in \<open>auto simp: import_done_def\<close>)
  qed
next
  case (failed m)
  then have "\<nexists>c'. module_imports fs dirs c name c'" by (auto simp: module_imports_def)
  then have "\<not> closure_ok fs root dirs" by (rule not_closure_ok [OF r failed(1)])
  then show ?thesis using failed(3) by (simp add: closure_error_def spec_error_def)
qed

lemma resolve_imports_wp:
  assumes "queue_ok fs dirs root s" and r: "module_reach fs dirs root c" "fs_read fs c = Some src"
    "set ns \<subseteq> set (import_names src)"
  shows "wp (resolve_imports fs dirs c ns s)
    (\<lambda>s'. queue_ok fs dirs root s' \<and> later s s' \<and> (\<forall>name \<in> set ns. import_done fs dirs c s' name))
    (closure_error fs dirs root)"
  using assms(1,4)
proof (induction ns arbitrary: s)
  case (Cons n ns)
  have n: "n \<in> set (import_names src)" using Cons.prems(2) by simp
  have "wp (resolve_imports fs dirs c ns s')
      (\<lambda>s''. queue_ok fs dirs root s'' \<and> later s s'' \<and> (\<forall>name \<in> set (n # ns). import_done fs dirs c s'' name))
      (closure_error fs dirs root)"
    if s': "queue_ok fs dirs root s' \<and> later s s' \<and> import_done fs dirs c s' n" for s'
    using Cons.IH [of s'] that Cons.prems(2)
    by (auto elim!: wp_mono intro: later_trans import_done_later)
  with wp_mono [OF resolve_import_wp [OF Cons.prems(1) r(1,2) n]] show ?case by simp
qed simp

section \<open>The queue loop\<close>

lemma module_reach_canonical: "module_reach fs dirs root c \<Longrightarrow> \<exists>p. fs_canonical fs p = Some c"
  by (induction rule: module_reach.induct) (auto simp: module_imports_def)

lemma queue_bounded:
  assumes "fs_finite fs" "queue_ok fs dirs root s"
  shows "length (res_pending s) \<le> card {c. \<exists>p. fs_canonical fs p = Some c}"
proof -
  have "set (res_pending s) \<subseteq> {c. \<exists>p. fs_canonical fs p = Some c}"
    using assms(2) by (auto simp: queue_ok_def intro: module_reach_canonical)
  with assms show ?thesis
    by (metis card_mono distinct_card fs_finite_def queue_ok_def)
qed

lemma resolve_step_done:
  assumes src: "fs_read fs (res_pending s ! idx) = Some src" and idx: "idx < length (res_pending s)"
    and l: "later s s'"
    and new: "\<forall>name \<in> set (import_names src). import_done fs dirs (res_pending s ! idx) s' name"
    and old: "\<And>i. i < idx \<Longrightarrow> module_done fs dirs s (res_pending s ! i)" and i: "i < idx + 1"
  shows "module_done fs dirs s' (res_pending s' ! i)"
proof -
  have nth: "res_pending s' ! i = res_pending s ! i"
    using l idx i by (auto simp: later_def nth_append)
  show ?thesis
  proof (cases "i = idx")
    case True
    then show ?thesis using nth src new by (simp add: module_done_def)
  next
    case False
    then show ?thesis using i nth old [of i] module_done_later [OF l] by simp
  qed
qed

text \<open>What the loop establishes: every module of the queue has its imports in the queue.\<close>

definition queue_closed :: "fsys \<Rightarrow> string list \<Rightarrow> string \<Rightarrow> resolution \<Rightarrow> resolution \<Rightarrow> bool" where
  "queue_closed fs dirs root s s' =
     (queue_ok fs dirs root s' \<and> later s s' \<and> (\<forall>c \<in> set (res_pending s'). module_done fs dirs s' c))"

lemma resolve_loop_total:
  assumes fin: "fs_finite fs"
  shows "queue_ok fs dirs root s \<Longrightarrow> (\<And>i. i < idx \<Longrightarrow> module_done fs dirs s (res_pending s ! i)) \<Longrightarrow>
    idx \<le> length (res_pending s) \<Longrightarrow>
    \<exists>r. resolve_loop fs dirs idx s = Some r
      \<and> wp r (queue_closed fs dirs root s) (closure_error fs dirs root)"
proof (induction "card {c. \<exists>p. fs_canonical fs p = Some c} - idx" arbitrary: idx s rule: less_induct)
  case less
  show ?case
  proof (cases "idx < length (res_pending s)")
    case False
    with less.prems show ?thesis
      by (subst resolve_loop.simps) (auto simp: in_set_conv_nth queue_closed_def)
  next
    case True
    let ?c = "res_pending s ! idx" and ?src = "res_sources s ! idx"
    have src: "fs_read fs ?c = Some ?src" by (rule queue_source [OF less.prems(1) True])
    have reach: "module_reach fs dirs root ?c"
      using less.prems(1) True by (auto simp: queue_ok_def)
    note step = resolve_imports_wp [OF less.prems(1) reach src subset_refl]
    show ?thesis
    proof (cases "resolve_imports fs dirs ?c (import_names ?src) s")
      case (Inl e)
      with step True show ?thesis by (subst resolve_loop.simps) simp
    next
      case (Inr s')
      with step have s': "queue_ok fs dirs root s'" "later s s'"
        "\<forall>name \<in> set (import_names ?src). import_done fs dirs ?c s' name" by auto
      have len: "idx + 1 \<le> length (res_pending s')"
        using s'(2) True by (auto simp: later_def)
      have lt: "card {c. \<exists>p. fs_canonical fs p = Some c} - (idx + 1)
          < card {c. \<exists>p. fs_canonical fs p = Some c} - idx"
        using len queue_bounded [OF fin s'(1)] by linarith
      obtain r where r: "resolve_loop fs dirs (idx + 1) s' = Some r"
        "wp r (queue_closed fs dirs root s') (closure_error fs dirs root)"
        using less.hyps [OF lt s'(1) resolve_step_done [OF src True s'(2,3) less.prems(2)] len] by blast
      have "resolve_loop fs dirs idx s = Some r"
        using True Inr r(1) by (subst resolve_loop.simps) simp
      moreover have "wp r (queue_closed fs dirs root s) (closure_error fs dirs root)"
        using r(2) by (rule wp_mono) (use later_trans [OF s'(2)] in \<open>auto simp: queue_closed_def\<close>)
      ultimately show ?thesis by blast
    qed
  qed
qed

lemma module_imports_unique:
  "module_imports fs dirs c name c1 \<Longrightarrow> module_imports fs dirs c name c2 \<Longrightarrow> c1 = c2"
  by (auto simp: module_imports_def)

text \<open>A queue that is closed under imports and holds the root holds everything reachable.\<close>

lemma queue_closed_complete:
  assumes "fs_canonical fs root = Some c0" "c0 \<in> set (res_pending s')"
    and "\<forall>c \<in> set (res_pending s'). module_done fs dirs s' c"
  shows "module_reach fs dirs root c \<Longrightarrow> c \<in> set (res_pending s')"
proof (induction rule: module_reach.induct)
  case (reach_root c)
  then show ?case using assms by simp
next
  case (reach_import c src name c')
  have "import_done fs dirs c s' name"
    using assms(3) reach_import.IH reach_import.hyps(2,3) by (auto simp: module_done_def)
  then obtain c1 where c1: "module_imports fs dirs c name c1" "c1 \<in> set (res_pending s')"
    using reach_import.hyps(4) by (auto simp: import_done_def)
  then show ?case using module_imports_unique [OF c1(1) reach_import.hyps(5)] by simp
qed

lemma module_done_ok: "module_done fs dirs s c \<Longrightarrow> module_ok fs dirs c"
  unfolding module_done_def module_ok_def import_done_def by blast

text \<open>
  What the caller of \<^verbatim>\<open>spec_from_files\<close> is promised: the sources are those of a duplicate-free list of
  files which starts with the root and is the import closure of the root.
\<close>

definition closure_listing :: "fsys \<Rightarrow> string \<Rightarrow> string list \<Rightarrow> string list \<Rightarrow> string list \<Rightarrow> bool" where
  "closure_listing fs root dirs files sources =
     (distinct files \<and> files \<noteq> [] \<and> fs_canonical fs root = Some (hd files)
      \<and> set files = {c. module_reach fs dirs root c} \<and> map (fs_read fs) files = map Some sources)"

lemma spec_from_files_outcome:
  assumes "fs_finite fs"
  shows "\<exists>r. spec_from_files fs root dirs = Some r
    \<and> wp r (\<lambda>spec. closure_ok fs root dirs \<and> (\<exists>files. closure_listing fs root dirs files (spec_sources spec)))
        (closure_error fs dirs root)"
proof (cases "fs_canonical fs root")
  case None
  then show ?thesis
    by (simp add: spec_from_files_def push_file_def closure_error_def closure_ok_def spec_error_def)
next
  case (Some c0)
  let ?s0 = "\<lparr> res_sources = [], res_pending = [], res_visited = {} \<rparr>"
  have q0: "queue_ok fs dirs root ?s0" by (simp add: queue_ok_def)
  note root = push_file_wp [OF q0 Some reach_root [OF Some]]
  show ?thesis
  proof (cases "push_file fs root ?s0")
    case (Inl e)
    with root show ?thesis by (simp add: spec_from_files_def)
  next
    case (Inr s)
    with root have s: "queue_ok fs dirs root s" by simp
    have p: "res_pending s = [c0]"
      using Inr Some by (auto simp: push_file_def split: option.splits)
    obtain r where r: "resolve_loop fs dirs 0 s = Some r"
      "wp r (queue_closed fs dirs root s) (closure_error fs dirs root)"
      using resolve_loop_total [OF assms s, of 0] by auto
    show ?thesis
    proof (cases r)
      case (Inl e)
      with r show ?thesis by (simp add: spec_from_files_def \<open>push_file fs root ?s0 = Inr s\<close>)
    next
      case (Inr s')
      then have qc: "queue_ok fs dirs root s'" "later s s'" "\<forall>c \<in> set (res_pending s'). module_done fs dirs s' c"
        using r(2) by (simp_all add: queue_closed_def)
      from qc(2) p obtain ps where ps: "res_pending s' = c0 # ps" by (auto simp: later_def)
      note all = queue_closed_complete [OF Some _ qc(3), unfolded ps, simplified]
      have "closure_ok fs root dirs"
        using all Some qc(3) ps by (auto simp: closure_ok_def intro: module_done_ok)
      moreover have "closure_listing fs root dirs (res_pending s') (res_sources s')"
        using qc(1) all ps Some by (auto simp: closure_listing_def queue_ok_def)
      ultimately show ?thesis
        using r(1) Inr by (auto simp: spec_from_files_def \<open>push_file fs root ?s0 = Inr s\<close>)
    qed
  qed
qed

section \<open>The tokenizer on TLA+ text\<close>

text \<open>
  Text between two tokens: characters that start nothing, line comments, block comments (which nest),
  and string literals.
\<close>

inductive comment_body :: "string \<Rightarrow> bool" where
  body_end: "comment_body []"
| body_char: "c \<noteq> CHR ''('' \<Longrightarrow> c \<noteq> CHR ''*'' \<Longrightarrow> comment_body b \<Longrightarrow> comment_body (c # b)"
| body_nested: "comment_body a \<Longrightarrow> comment_body b \<Longrightarrow> comment_body (''(*'' @ a @ ''*)'' @ b)"

inductive token_gap :: "string \<Rightarrow> bool" where
  gap_end: "token_gap []"
| gap_char: "\<not> ident_char c \<Longrightarrow> c \<notin> {CHR 0x5C, CHR ''('', quote, CHR '',''} \<Longrightarrow> token_gap g \<Longrightarrow> token_gap (c # g)"
| gap_line: "newline \<notin> set l \<Longrightarrow> token_gap g \<Longrightarrow> token_gap (CHR 0x5C # CHR ''*'' # l @ newline # g)"
| gap_block: "comment_body b \<Longrightarrow> token_gap g \<Longrightarrow> token_gap (''(*'' @ b @ ''*)'' @ g)"
| gap_string: "quote \<notin> set t \<Longrightarrow> CHR 0x5C \<notin> set t \<Longrightarrow> token_gap g \<Longrightarrow> token_gap (quote # t @ quote # g)"

definition tla_ident :: "string \<Rightarrow> bool" where
  "tla_ident w = (w \<noteq> [] \<and> ident_start (hd w) \<and> list_all ident_char (tl w))"

text \<open>The rest of an \<^verbatim>\<open>EXTENDS\<close> list: for each further name, the text around its comma.\<close>

fun extends_text :: "(string \<times> string \<times> string) list \<Rightarrow> string" where
  "extends_text [] = []"
| "extends_text ((g, g', n) # xs) = g @ '','' @ g' @ n @ extends_text xs"

lemma ident_start_char: "ident_start c \<Longrightarrow> ident_char c"
  by (auto simp: ident_start_def ident_char_def is_alnum_def)

lemma ident_start_plain:
  "ident_start c \<Longrightarrow> c \<noteq> CHR 0x5C \<and> c \<noteq> CHR ''('' \<and> c \<noteq> quote \<and> c \<noteq> CHR '',''"
  by (auto simp: ident_start_def char_class_defs)

lemma ident_char_special: "\<not> ident_char CHR 0x5C" "\<not> ident_char CHR ''(''" "\<not> ident_char quote"
    "\<not> ident_char CHR '',''"
  by (auto simp: ident_char_def char_class_defs)

lemma tla_ident_not_comma: "tla_ident w \<Longrightarrow> w \<noteq> '',''"
  by (auto simp: tla_ident_def ident_start_def char_class_defs)

text \<open>The loop, one case at a time.\<close>

lemma scan_skip:
  "\<not> ident_char c \<Longrightarrow> c \<notin> {CHR 0x5C, CHR ''('', quote, CHR '',''} \<Longrightarrow> scan_tokens 0 (c # cs) = scan_tokens 0 cs"
  using ident_start_char [of c] by (auto simp: scan_tokens.simps(2))

lemma scan_body_char:
  "c \<noteq> CHR ''('' \<Longrightarrow> c \<noteq> CHR ''*'' \<Longrightarrow> scan_tokens (Suc d) (c # cs) = scan_tokens (Suc d) cs"
  by (simp add: scan_tokens.simps(2))

lemma scan_open: "scan_tokens d (CHR ''('' # CHR ''*'' # cs) = scan_tokens (Suc d) cs"
  by (simp add: scan_tokens.simps(2) next_is_def)

lemma scan_close: "scan_tokens (Suc d) (CHR ''*'' # CHR '')'' # cs) = scan_tokens d cs"
  by (simp add: scan_tokens.simps(2) next_is_def)

lemma scan_comma: "scan_tokens 0 (CHR '','' # cs) = '','' # scan_tokens 0 cs"
  by (simp add: scan_tokens.simps(2))

lemma scan_line:
  "newline \<notin> set l \<Longrightarrow> scan_tokens 0 (CHR 0x5C # CHR ''*'' # l @ newline # cs) = scan_tokens 0 (newline # cs)"
proof -
  assume "newline \<notin> set l"
  then have "dropWhile (\<lambda>x. x \<noteq> newline) (l @ newline # cs) = newline # cs"
    by (subst dropWhile_append2) auto
  then show ?thesis by (subst scan_tokens.simps) (simp add: next_is_def)
qed

lemma skip_string_plain:
  "quote \<notin> set t \<Longrightarrow> CHR 0x5C \<notin> set t \<Longrightarrow> skip_string (t @ quote # cs) = cs"
  by (induction t) auto

lemma scan_identifier:
  assumes "tla_ident w" "r = [] \<or> \<not> ident_char (hd r)"
  shows "scan_tokens 0 (w @ r) = w # scan_tokens 0 r"
proof -
  obtain c cs where w: "w = c # cs" "ident_start c" "list_all ident_char cs"
    using assms(1) by (cases w) (auto simp: tla_ident_def)
  have all: "\<And>x. x \<in> set cs \<Longrightarrow> ident_char x" using w(3) by (simp add: list_all_iff)
  have "takeWhile ident_char (cs @ r) = cs \<and> dropWhile ident_char (cs @ r) = r"
    using assms(2) all by (cases r) (simp_all add: takeWhile_append2 dropWhile_append2)
  with w ident_start_plain [OF w(2)] show ?thesis by (simp add: scan_tokens.simps(2))
qed

lemma scan_comment: "comment_body b \<Longrightarrow> scan_tokens (Suc d) (b @ cs) = scan_tokens (Suc d) cs"
  by (induction arbitrary: d cs rule: comment_body.induct) (simp_all add: scan_body_char scan_open scan_close)

lemma scan_gap: "token_gap g \<Longrightarrow> scan_tokens 0 (g @ cs) = scan_tokens 0 cs"
proof (induction rule: token_gap.induct)
  case (gap_char c g)
  then show ?case by (simp add: scan_skip)
next
  case (gap_line l g)
  have "scan_tokens 0 (newline # g @ cs) = scan_tokens 0 (g @ cs)"
    by (rule scan_skip) (auto simp: ident_char_def char_class_defs)
  with gap_line show ?case by (simp add: scan_line)
next
  case (gap_block b g)
  then show ?case using scan_open [of 0 "b @ ''*)'' @ g @ cs"] by (simp add: scan_comment scan_close)
next
  case (gap_string t g)
  then show ?case by (simp add: scan_tokens.simps(2) skip_string_plain)
qed simp

lemma token_gap_hd: "token_gap g \<Longrightarrow> g \<noteq> [] \<Longrightarrow> \<not> ident_char (hd (g @ r))"
  by (induction rule: token_gap.induct) (auto simp: ident_char_special)

lemma scan_identifier_gap:
  assumes "tla_ident w" "token_gap g" "g \<noteq> []"
  shows "scan_tokens 0 (w @ g @ r) = w # scan_tokens 0 r"
  using scan_identifier [OF assms(1), of "g @ r"] token_gap_hd [OF assms(2,3)] scan_gap [OF assms(2)] by simp

lemma scan_extends_text:
  assumes "list_all (\<lambda>(g, g', n). token_gap g \<and> token_gap g' \<and> tla_ident n) xs" "tla_ident w"
    "token_gap g" "g \<noteq> []"
  shows "scan_tokens 0 (w @ extends_text xs @ g @ r)
    = w # concat (map (\<lambda>(g, g', n). ['','', n]) xs) @ scan_tokens 0 r"
  using assms(1,2)
proof (induction xs arbitrary: w)
  case Nil
  then show ?case using scan_identifier_gap [OF _ assms(3,4)] by simp
next
  case (Cons x xs)
  obtain h h' n where x: "x = (h, h', n)" by (cases x)
  with Cons.prems have h: "token_gap h" "token_gap h'" "tla_ident n" by auto
  let ?r = "h @ '','' @ h' @ n @ extends_text xs @ g @ r"
  have "?r = [] \<or> \<not> ident_char (hd ?r)"
    using token_gap_hd [OF h(1)] by (cases "h = []") (auto simp: ident_char_special)
  from scan_identifier [OF Cons.prems(2) this] have "scan_tokens 0 (w @ ?r) = w # scan_tokens 0 ?r" .
  moreover have "scan_tokens 0 ?r = '','' # scan_tokens 0 (n @ extends_text xs @ g @ r)"
    using scan_gap [OF h(1)] scan_gap [OF h(2)] scan_comma by simp
  ultimately show ?case using Cons.IH [of n] Cons.prems x h by simp
qed

lemma extends_more_list:
  assumes "list_all (\<lambda>(g, g', n). n \<noteq> '','') xs" "ts = [] \<or> hd ts \<noteq> '',''"
  shows "extends_more (concat (map (\<lambda>(g, g', n). ['','', n]) xs) @ ts) = (map (snd \<circ> snd) xs, ts)"
  using assms(1)
proof (induction xs)
  case Nil
  then show ?case using assms(2) by (cases ts rule: extends_more.cases) auto
qed auto

section \<open>Properties\<close>

text \<open>C15: On a file system with finitely many files \<^verbatim>\<open>spec_from_files\<close> always returns. It fails only
  with a \<^verbatim>\<open>spec_source\<close> error, and exactly when the closure is broken: the root does not resolve, or
  some reached module is unreadable or imports a non-builtin module that is missing or ambiguous.
  Otherwise the sources it returns are those of a duplicate-free list of files that begins with the
  root and consists of exactly the modules reachable by imports: every dependency once, none left
  out, nothing else.\<close>

theorem spec_from_files_closure:
  assumes "fs_finite fs"
  shows "\<exists>r. spec_from_files fs root dirs = Some r
    \<and> (case r of
         Inl e \<Rightarrow> err_kind e = EK_spec_source \<and> \<not> closure_ok fs root dirs
       | Inr spec \<Rightarrow> closure_ok fs root dirs
           \<and> (\<exists>files. closure_listing fs root dirs files (spec_sources spec)))"
  using spec_from_files_outcome [OF assms, of root dirs] by (auto simp: wp_def closure_error_def split: sum.splits)

text \<open>A file system given by a table of canonical paths and contents.\<close>

definition table_fs :: "(string \<times> string) list \<Rightarrow> fsys" where
  "table_fs t = \<lparr> fs_canonical = (\<lambda>p. if map_of t p = None then None else Some p),
     fs_exists = (\<lambda>p. map_of t p \<noteq> None), fs_read = map_of t \<rparr>"

lemma table_fs_finite: "fs_finite (table_fs t)"
proof -
  have "{c. \<exists>p. fs_canonical (table_fs t) p = Some c} \<subseteq> fst ` set t"
    by (auto simp: table_fs_def map_of_eq_None_iff split: if_splits)
  then show ?thesis unfolding fs_finite_def by (rule finite_subset) simp
qed

definition diamond_fs :: fsys where
  "diamond_fs = table_fs [(''/m/R.tla'', ''EXTENDS A, Naturals, B''), (''/m/A.tla'', ''EXTENDS C''),
     (''/m/B.tla'', ''LOCAL INSTANCE C''), (''/m/C.tla'', ''x == 1'')]"

lemma diamond_run:
  "spec_from_files diamond_fs ''/m/R.tla'' [] = Some (Inr \<lparr> spec_sources =
     [''EXTENDS A, Naturals, B'', ''EXTENDS C'', ''LOCAL INSTANCE C'', ''x == 1''] \<rparr>)"
  by code_simp

theorem spec_from_files_closure_witness:
  "fs_finite diamond_fs \<and> closure_ok diamond_fs ''/m/R.tla'' []
    \<and> (\<exists>files. closure_listing diamond_fs ''/m/R.tla'' [] files
         [''EXTENDS A, Naturals, B'', ''EXTENDS C'', ''LOCAL INSTANCE C'', ''x == 1''])"
proof -
  have "fs_finite diamond_fs" by (simp add: diamond_fs_def table_fs_finite)
  from spec_from_files_closure [OF this, of "''/m/R.tla''" "[]"] this show ?thesis
    by (auto simp: diamond_run)
qed

text \<open>The clause scanner reads the import clauses of TLA+. For any layout of an \<^verbatim>\<open>EXTENDS\<close> list -
  white space, line comments, nested block comments or string literals between its tokens, any number
  of names - it yields exactly the listed names, in order, and goes on with the text after the list;
  an \<^verbatim>\<open>INSTANCE\<close> yields the one name that follows it. A clause inside a comment or a string yields
  nothing, since such text may stand in any of the gaps.\<close>

theorem import_clauses_read:
  assumes "token_gap g0" "g0 \<noteq> []" "token_gap g" "g \<noteq> []" "tla_ident n"
    "list_all (\<lambda>(h, h', m). token_gap h \<and> token_gap h' \<and> tla_ident m) xs"
    "dependency_tokens r = [] \<or> hd (dependency_tokens r) \<noteq> '',''"
  shows "import_names (''EXTENDS'' @ g0 @ n @ extends_text xs @ g @ r)
      = n # map (snd \<circ> snd) xs @ import_names r
    \<and> import_names (''INSTANCE'' @ g0 @ n @ g @ r) = n # import_names r
    \<and> import_names (g @ r) = import_names r"
proof -
  have kw: "tla_ident ''EXTENDS''" "tla_ident ''INSTANCE''"
    by (simp_all add: tla_ident_def ident_start_def ident_char_def char_class_defs)
  have nc: "n \<noteq> '',''" by (rule tla_ident_not_comma [OF assms(5)])
  have xs: "list_all (\<lambda>(h, h', m). m \<noteq> '','') xs"
    using assms(6) tla_ident_not_comma by (fastforce simp: list_all_iff)
  note toks = scan_identifier_gap [OF kw(1) assms(1,2), of "n @ extends_text xs @ g @ r"]
    scan_identifier_gap [OF kw(2) assms(1,2), of "n @ g @ r"]
    scan_extends_text [OF assms(6,5,3,4), of r] scan_identifier_gap [OF assms(5,3,4), of r]
  have "clause_names (''EXTENDS'' # n # concat (map (\<lambda>(h, h', m). ['','', m]) xs) @ scan_tokens 0 r)
      = n # map (snd \<circ> snd) xs @ clause_names (scan_tokens 0 r)"
    using extends_more_list [OF xs assms(7) [unfolded dependency_tokens_def]] nc
    by (simp add: clause_names.simps(2))
  moreover have "clause_names (''INSTANCE'' # n # scan_tokens 0 r) = n # clause_names (scan_tokens 0 r)"
    by (simp add: clause_names.simps(2))
  ultimately show ?thesis
    using toks scan_gap [OF assms(3)] by (simp add: import_names_def dependency_tokens_def)
qed

text \<open>A layout with a nested comment, which itself holds a clause, and a line comment.\<close>

lemma sample_gaps:
  "token_gap '' ''" "token_gap ''(* EXTENDS X (* y *) *)''" "token_gap (CHR 0x5C # ''* INSTANCE Z'' @ [newline])"
proof -
  have c: "comment_body s" if "CHR ''('' \<notin> set s" "CHR ''*'' \<notin> set s" for s
    using that by (induction s) (auto intro: comment_body.intros)
  show "token_gap '' ''"
    by (rule gap_char) (auto intro: gap_end simp: ident_char_def char_class_defs)
  have b0: "comment_body ('' y '' :: string)" "comment_body ('' '' :: string)" by (auto intro: c)
  have b1: "comment_body ''(* y *) ''" using body_nested [OF b0] by simp
  have b2: "comment_body (s @ ''(* y *) '')" if "CHR ''('' \<notin> set s" "CHR ''*'' \<notin> set s" for s
    using that b1 by (induction s) (auto intro: body_char)
  show "token_gap ''(* EXTENDS X (* y *) *)''"
    using gap_block [OF b2 [of "'' EXTENDS X ''"] gap_end] by simp
  show "token_gap (CHR 0x5C # ''* INSTANCE Z'' @ [newline])"
    using gap_line [OF _ gap_end, of "'' INSTANCE Z''"] by simp
qed

lemma token_gap_append: "token_gap g \<Longrightarrow> token_gap h \<Longrightarrow> token_gap (g @ h)"
proof (induction rule: token_gap.induct)
  case (gap_line l g)
  then show ?case using token_gap.gap_line [of l "g @ h"] by simp
next
  case (gap_block b g)
  then show ?case using token_gap.gap_block [of b "g @ h"] by simp
next
  case (gap_string t g)
  then show ?case using token_gap.gap_string [of t "g @ h"] by simp
qed (auto intro: token_gap.intros)

theorem import_clauses_read_witness:
  "import_names (''EXTENDS'' @ '' '' @ ''A'' @ extends_text [('' '', ''(* EXTENDS X (* y *) *)'', ''B_1'')]
      @ (CHR 0x5C # ''* INSTANCE Z'' @ [newline]) @ ''INSTANCE C'') = [''A'', ''B_1'', ''C'']"
proof -
  have c: "import_names ''INSTANCE C'' = [''C'']" "dependency_tokens ''INSTANCE C'' = [''INSTANCE'', ''C'']"
    by code_simp+
  have i: "tla_ident ''A''" "tla_ident ''B_1''"
    by (simp_all add: tla_ident_def ident_start_def ident_char_def char_class_defs)
  show ?thesis
    using import_clauses_read [OF sample_gaps(1) _ sample_gaps(3) _ i(1),
        of "[('' '', ''(* EXTENDS X (* y *) *)'', ''B_1'')]" "''INSTANCE C''"]
      sample_gaps(1,2) i(2) c by simp
qed

end
