(* ===== verification/Net_Connect.thy ===== *)
theory Net_Connect
  imports Transport_Framing
begin

text \<open>
  Establishing connections: \<^verbatim>\<open>Socket::connect\<close> (\<^verbatim>\<open>src/detail/net.cpp\<close>), \<^verbatim>\<open>connect_tcp\<close>
  (\<^verbatim>\<open>src/transport.cpp\<close>) and the TLS set-up with certificate pinning (\<^verbatim>\<open>SslStream::connect\<close> and
  \<^verbatim>\<open>connect_tls\<close> of \<^verbatim>\<open>src/detail/tls.cpp\<close>), on POSIX.

  The name resolver, the socket calls and OpenSSL are parameters: \<open>net_os\<close> says what
  \<^verbatim>\<open>getaddrinfo\<close> returns and what happens at each address, \<open>ssl_os\<close> what each OpenSSL call returns.
  A returned text is the text of \<^verbatim>\<open>strerror\<close> or of the OpenSSL error queue. Nothing is assumed about
  them. A failed \<^verbatim>\<open>connect\<close> leaves a stream object that its only caller destroys, so the model returns
  the stream on success only.
\<close>

unbundle bit_operations_syntax

section \<open>TCP\<close>

text \<open>A connected stream is what its reads and sends will do.\<close>

type_synonym tcp_script = "read_event list \<times> send_event list"

text \<open>One turn of the address loop: \<^verbatim>\<open>socket\<close> fails; \<^verbatim>\<open>connect\<close> succeeds or fails at once; or it is in
  progress, and the outcome is that of \<^verbatim>\<open>poll\<close> with the given timeout and of \<^verbatim>\<open>getsockopt\<close>.\<close>

datatype so_error = SoQueryFails string | SoFailed string | SoClear tcp_script
datatype poll_result = PollTimeout | PollError string | PollReady so_error
datatype address = SocketFails string | ConnectFails string | ConnectNow tcp_script
  | ConnectPending "int \<Rightarrow> poll_result"

record net_os =
  os_getaddrinfo :: "string \<Rightarrow> string \<Rightarrow> string + address list"
  os_set_rcvtimeo :: "int \<Rightarrow> int \<Rightarrow> string option"

definition connected_socket :: "tcp_script \<Rightarrow> Socket" where
  "connected_socket io = \<lparr> sk_open = True, sk_buf = [], sk_in = fst io, sk_out = snd io, sk_wire = [] \<rparr>"

definition int_max :: int where
  "int_max = 2147483647"

text \<open>The cap on the poll timeout.\<close>

definition poll_timeout_ms :: "int \<Rightarrow> int" where
  "poll_timeout_ms timeout =
     (let t = (if timeout < 0 then 0 else timeout) in if t > int_max then int_max else t)"

text \<open>The loop over the addresses; the second argument is \<^verbatim>\<open>last_error\<close>.\<close>

fun connect_loop :: "int \<Rightarrow> string \<Rightarrow> address list \<Rightarrow> string + Socket" where
  "connect_loop ms last_error [] = Inl last_error"
| "connect_loop ms last_error (a # as) =
     (case a of
        SocketFails m \<Rightarrow> connect_loop ms m as
      | ConnectNow io \<Rightarrow> Inr (connected_socket io)
      | ConnectFails m \<Rightarrow> connect_loop ms m as
      | ConnectPending f \<Rightarrow>
          (case f ms of
             PollTimeout \<Rightarrow> connect_loop ms ''connect timed out'' as
           | PollError m \<Rightarrow> connect_loop ms m as
           | PollReady so \<Rightarrow>
               (case so of
                  SoQueryFails m \<Rightarrow> connect_loop ms (''getsockopt failed: '' @ m) as
                | SoFailed m \<Rightarrow> connect_loop ms m as
                | SoClear io \<Rightarrow> Inr (connected_socket io))))"

definition sock_connect :: "net_os \<Rightarrow> string \<Rightarrow> 16 word \<Rightarrow> int \<Rightarrow> Socket result" where
  "sock_connect os host port timeout =
     (let port_s = nat_to_string (unat port) in
      case os_getaddrinfo os host port_s of
        Inl m \<Rightarrow> Inl (make_error EK_io (''getaddrinfo('' @ host @ ''): '' @ m))
      | Inr as \<Rightarrow>
          (case connect_loop (poll_timeout_ms timeout) ''no addresses'' as of
             Inl m \<Rightarrow> Inl (make_error EK_io (''connect('' @ host @ '':'' @ port_s @ '') failed: '' @ m))
           | Inr s \<Rightarrow> Inr s))"

definition connect_tcp :: "net_os \<Rightarrow> string \<Rightarrow> 16 word \<Rightarrow> int \<Rightarrow> TcpTransport result" where
  "connect_tcp os host port connect_timeout =
     rbind (sock_connect os host port connect_timeout) (\<lambda>s. Inr \<lparr> tcp_sock = s, tcp_closed = False \<rparr>)"

section \<open>TLS options and pins\<close>

record TlsOptions =
  ca_path :: string
  cert_path :: string
  key_path :: string
  tls_pin :: "string option"
  servername :: "string option"
  handshake_timeout :: int

definition default_tls_options :: TlsOptions where
  "default_tls_options = \<lparr> ca_path = [], cert_path = [], key_path = [], tls_pin = None, servername = None,
     handshake_timeout = 10000 \<rparr>"

record ssl_os =
  ssl_net :: net_os
  ssl_stat_key :: "string \<Rightarrow> string + 32 word"
  ssl_ctx_new :: bool
  ssl_tls13_only :: "string option"
  ssl_load_ca :: "string \<Rightarrow> string option"
  ssl_use_cert :: "string \<Rightarrow> string option"
  ssl_use_key :: "string \<Rightarrow> string option"
  ssl_check_key :: "string option"
  ssl_new :: bool
  ssl_set_fd :: "string option"
  ssl_ip_literal :: "string \<Rightarrow> bool"
  ssl_set_ip :: "string \<Rightarrow> bool"
  ssl_set_host :: "string \<Rightarrow> bool"
  ssl_set_sni :: "string \<Rightarrow> bool"

definition check_key_mode :: "ssl_os \<Rightarrow> string \<Rightarrow> unit result" where
  "check_key_mode os path =
     (case ssl_stat_key os path of
        Inl m \<Rightarrow> Inl (make_error EK_tls (''cannot stat client key '' @ path @ '': '' @ m))
      | Inr mode \<Rightarrow>
          (if mode AND 0xFFF \<noteq> 0x180
           then Inl (make_error EK_tls (''client key file '' @ path
                  @ '' must be mode 0600 (including execute and special bits)''))
           else Inr ()))"

text \<open>\<^verbatim>\<open>find_first_not_of\<close> and \<^verbatim>\<open>find_last_not_of\<close> with the four blanks of the pin normaliser.\<close>

definition pin_blank :: "char \<Rightarrow> bool" where
  "pin_blank c = (c \<in> {CHR 0x20, CHR 0x09, CHR 0x0D, CHR 0x0A})"

definition pin_strip :: "string \<Rightarrow> string" where
  "pin_strip s = rev (dropWhile pin_blank (rev (dropWhile pin_blank s)))"

definition tls_normalize_pin :: "string \<Rightarrow> string result" where
  "tls_normalize_pin pin =
     (if list_all pin_blank pin then Inl (make_error EK_tls ''pin is empty'')
      else
        (let p = to_lower (pin_strip pin) in
         if length p \<noteq> 64
         then Inl (make_error EK_tls (''pin must be 64 lowercase hex chars, got '' @ nat_to_string (length p)))
         else if \<not> list_all is_lower_hex p then Inl (make_error EK_tls (''pin is not valid hex: '' @ p))
         else Inr p))"

section \<open>Handshake and fingerprint\<close>

text \<open>What \<^verbatim>\<open>SSL_connect\<close> reports, with the milliseconds elapsed when it wants more I/O; the peer's leaf
  certificate as its SHA-256 digest, if there is one; and the session's later reads and writes.\<close>

datatype handshake_event = HsDone | HsWant int | HsFail string

record tls_peer =
  peer_handshake :: "handshake_event list"
  peer_digest :: "8 word list option"
  peer_in :: "ssl_read_event list"
  peer_out :: "ssl_write_event list"

fun handshake_loop :: "int \<Rightarrow> handshake_event list \<Rightarrow> unit result option" where
  "handshake_loop budget [] = None"
| "handshake_loop budget (HsDone # es) = Some (Inr ())"
| "handshake_loop budget (HsFail m # es) = Some (Inl (make_error EK_tls (''TLS handshake failed: '' @ m)))"
| "handshake_loop budget (HsWant elapsed # es) =
     (if budget - elapsed \<le> 0 then Some (Inl (make_error EK_tls ''TLS handshake timed out''))
      else handshake_loop budget es)"

definition handshake_with_deadline :: "int \<Rightarrow> handshake_event list \<Rightarrow> unit result option" where
  "handshake_with_deadline timeout es = handshake_loop (if timeout \<le> 0 then 1 else timeout) es"

definition hex_char :: "nat \<Rightarrow> char" where
  "hex_char n = ''0123456789abcdef'' ! n"

definition hex_byte :: "8 word \<Rightarrow> string" where
  "hex_byte b = [hex_char (unat (drop_bit 4 b)), hex_char (unat (b AND 0x0F))]"

definition hex_string :: "8 word list \<Rightarrow> string" where
  "hex_string md = concat (map hex_byte md)"

text \<open>\<^verbatim>\<open>SslStream::peer_fingerprint\<close>: the cached text, or the digest of the peer's certificate.\<close>

definition ssl_peer_fingerprint :: "8 word list option \<Rightarrow> SslStream \<Rightarrow> string \<times> SslStream" where
  "ssl_peer_fingerprint digest s =
     (if ssl_fingerprint s \<noteq> [] then (ssl_fingerprint s, s)
      else if \<not> ssl_session s then ([], s)
      else (case digest of
          None \<Rightarrow> ([], s)
        | Some md \<Rightarrow> (hex_string md, s\<lparr> ssl_fingerprint := hex_string md \<rparr>)))"

section \<open>The TLS connection\<close>

text \<open>\<open>check_ssl m r\<close> is \<^verbatim>\<open>if (call != 1) return tls error\<close> for a call that reports an error text.\<close>

definition check_ssl :: "string \<Rightarrow> string option \<Rightarrow> unit result" where
  "check_ssl m r = (case r of None \<Rightarrow> Inr () | Some e \<Rightarrow> Inl (make_error EK_tls (m @ e)))"

definition check_flag :: "string \<Rightarrow> bool \<Rightarrow> unit result" where
  "check_flag m b = (if b then Inr () else Inl (make_error EK_tls m))"

definition normalize_opt_pin :: "string option \<Rightarrow> string option result" where
  "normalize_opt_pin p = (case p of None \<Rightarrow> Inr None | Some raw \<Rightarrow> rbind (tls_normalize_pin raw) (\<lambda>q. Inr (Some q)))"

definition ssl_context :: "ssl_os \<Rightarrow> TlsOptions \<Rightarrow> unit result" where
  "ssl_context os opts =
     rbind (check_flag ''SSL_CTX_new failed'' (ssl_ctx_new os)) (\<lambda>_.
     rbind (check_ssl ''failed to restrict to TLS 1.3: '' (ssl_tls13_only os)) (\<lambda>_.
     rbind (check_ssl (''SSL_CTX_load_verify_locations('' @ ca_path opts @ ''): '') (ssl_load_ca os (ca_path opts))) (\<lambda>_.
     rbind (check_ssl (''SSL_CTX_use_certificate_chain_file('' @ cert_path opts @ ''): '') (ssl_use_cert os (cert_path opts))) (\<lambda>_.
     rbind (check_ssl (''SSL_CTX_use_PrivateKey_file('' @ key_path opts @ ''): '') (ssl_use_key os (key_path opts))) (\<lambda>_.
     check_ssl ''client private key does not match certificate: '' (ssl_check_key os))))))"

definition ssl_verify_name :: "ssl_os \<Rightarrow> string \<Rightarrow> unit result" where
  "ssl_verify_name os name =
     (if ssl_ip_literal os name then check_flag ''X509_VERIFY_PARAM_set1_ip_asc failed'' (ssl_set_ip os name)
      else rbind (check_flag ''SSL_set1_host failed'' (ssl_set_host os name)) (\<lambda>_.
           check_flag ''SSL_set_tlsext_host_name failed'' (ssl_set_sni os name)))"

text \<open>Everything before the handshake, steps 1 to 6; the result is the normalised pin.\<close>

definition ssl_prepare :: "ssl_os \<Rightarrow> string \<Rightarrow> 16 word \<Rightarrow> TlsOptions \<Rightarrow> string option result" where
  "ssl_prepare os host port opts =
     rbind (check_key_mode os (key_path opts)) (\<lambda>_.
     rbind (normalize_opt_pin (tls_pin opts)) (\<lambda>pin.
     rbind (ssl_context os opts) (\<lambda>_.
     rbind (sock_connect (ssl_net os) host port (handshake_timeout opts)) (\<lambda>_.
     rbind (check_flag ''SSL_new failed'' (ssl_new os)) (\<lambda>_.
     rbind (check_ssl ''SSL_set_fd failed: '' (ssl_set_fd os)) (\<lambda>_.
     rbind (ssl_verify_name os (case servername opts of Some n \<Rightarrow> n | None \<Rightarrow> host)) (\<lambda>_. Inr pin)))))))"

definition fingerprint_mismatch :: "string \<Rightarrow> string \<Rightarrow> Error" where
  "fingerprint_mismatch pin fp = make_error EK_tls (''certificate fingerprint mismatch: expected '' @ pin
     @ '' got '' @ (if fp = [] then ''<none>'' else fp))"

definition ssl_connect :: "ssl_os \<Rightarrow> tls_peer \<Rightarrow> string \<Rightarrow> 16 word \<Rightarrow> TlsOptions \<Rightarrow> SslStream result option" where
  "ssl_connect os peer host port opts =
     (case ssl_prepare os host port opts of
        Inl e \<Rightarrow> Some (Inl e)
      | Inr pin \<Rightarrow>
          (case handshake_with_deadline (handshake_timeout opts) (peer_handshake peer) of
             None \<Rightarrow> None
           | Some (Inl e) \<Rightarrow> Some (Inl e)
           | Some (Inr _) \<Rightarrow>
               (let (fp, s) = ssl_peer_fingerprint (peer_digest peer)
                      \<lparr> ssl_session = True, ssl_buf = [], ssl_in = peer_in peer, ssl_out = peer_out peer,
                        ssl_wire = [], ssl_fingerprint = [] \<rparr>
                in case pin of
                     None \<Rightarrow> Some (Inr s)
                   | Some p \<Rightarrow> (if fp \<noteq> p then Some (Inl (fingerprint_mismatch p fp)) else Some (Inr s)))))"

definition connect_tls :: "ssl_os \<Rightarrow> tls_peer \<Rightarrow> string \<Rightarrow> 16 word \<Rightarrow> TlsOptions \<Rightarrow> TlsTransport result option" where
  "connect_tls os peer host port opts =
     map_option (\<lambda>r. rbind r (\<lambda>s. Inr \<lparr> tls_stream = s, tls_closed = False \<rparr>)) (ssl_connect os peer host port opts)"

section \<open>Addresses in order\<close>

text \<open>What an address is worth: the stream it gives within the timeout, if any.\<close>

definition address_stream :: "int \<Rightarrow> address \<Rightarrow> tcp_script option" where
  "address_stream ms a =
     (case a of
        ConnectNow io \<Rightarrow> Some io
      | ConnectPending f \<Rightarrow> (case f ms of PollReady (SoClear io) \<Rightarrow> Some io | _ \<Rightarrow> None)
      | _ \<Rightarrow> None)"

lemma connect_loop_Cons:
  "(\<exists>io. address_stream ms a = Some io \<and> connect_loop ms m (a # as) = Inr (connected_socket io))
    \<or> (\<exists>m'. address_stream ms a = None \<and> connect_loop ms m (a # as) = connect_loop ms m' as)"
  by (auto simp: address_stream_def split: address.splits poll_result.splits so_error.splits)

lemma connect_loop_first:
  "case List.map_filter (address_stream ms) as of
     [] \<Rightarrow> (\<exists>m'. connect_loop ms m as = Inl m')
   | io # _ \<Rightarrow> connect_loop ms m as = Inr (connected_socket io)"
proof (induction as arbitrary: m)
  case Nil
  then show ?case by (simp add: map_filter_simps)
next
  case (Cons a as)
  show ?case
    using connect_loop_Cons [of ms a m as]
  proof (elim disjE exE conjE)
    fix io
    assume "address_stream ms a = Some io" "connect_loop ms m (a # as) = Inr (connected_socket io)"
    then show ?thesis by (simp add: map_filter_simps(1) del: connect_loop.simps)
  next
    fix m'
    assume a: "address_stream ms a = None" "connect_loop ms m (a # as) = connect_loop ms m' as"
    show ?thesis using Cons.IH [of m'] unfolding a(2) by (simp add: map_filter_simps(1) a(1))
  qed
qed

lemma poll_timeout_bounds: "0 \<le> poll_timeout_ms t \<and> poll_timeout_ms t \<le> int_max"
  by (simp add: poll_timeout_ms_def int_max_def Let_def)

section \<open>Pins\<close>

lemma lower_hex_not_blank: "is_lower_hex c \<Longrightarrow> \<not> pin_blank c"
  by (auto simp: pin_blank_def char_class_defs)

lemma pin_strip_id:
  assumes "list_all is_lower_hex p"
  shows "pin_strip p = p"
proof -
  have *: "dropWhile pin_blank t = t" if "list_all is_lower_hex t" for t
    using that by (cases t) (auto dest: lower_hex_not_blank)
  show ?thesis using assms by (simp add: pin_strip_def * list_all_rev)
qed

lemma to_lower_id: "list_all is_lower_hex p \<Longrightarrow> to_lower p = p"
  by (induction p) (auto simp: to_lower_def)

lemma tls_normalize_pin_form:
  "tls_normalize_pin raw = Inr p \<Longrightarrow> length p = 64 \<and> list_all is_lower_hex p"
  by (auto simp: tls_normalize_pin_def Let_def split: if_splits)

lemma tls_normalize_pin_id:
  assumes "length p = 64" "list_all is_lower_hex p"
  shows "tls_normalize_pin p = Inr p"
proof -
  have "\<not> list_all pin_blank p"
    using assms by (cases p) (auto dest: lower_hex_not_blank)
  with assms show ?thesis by (simp add: tls_normalize_pin_def pin_strip_id to_lower_id)
qed

section \<open>What a TLS connection guarantees\<close>

lemma check_simps [simp]:
  "check_ssl m r = Inr u \<longleftrightarrow> r = None" "check_flag m b = Inr u \<longleftrightarrow> b"
  by (auto simp: check_ssl_def check_flag_def split: option.splits)

lemma check_key_mode_ok:
  "check_key_mode os path = Inr u \<longleftrightarrow> (\<exists>mode. ssl_stat_key os path = Inr mode \<and> mode AND 0xFFF = 0x180)"
  by (auto simp: check_key_mode_def split: sum.splits)

lemma normalize_opt_pin_ok:
  "normalize_opt_pin o' = Inr pin \<longleftrightarrow>
    (o' = None \<and> pin = None) \<or> (\<exists>raw p. o' = Some raw \<and> tls_normalize_pin raw = Inr p \<and> pin = Some p)"
  by (auto simp: normalize_opt_pin_def result_splits split: option.splits)

lemma ssl_prepare_ok:
  "ssl_prepare os host port opts = Inr pin \<Longrightarrow>
    normalize_opt_pin (tls_pin opts) = Inr pin
    \<and> (\<exists>mode. ssl_stat_key os (key_path opts) = Inr mode \<and> mode AND 0xFFF = 0x180)"
  by (auto simp: ssl_prepare_def result_splits check_key_mode_ok)

lemma ssl_connect_ok:
  assumes "ssl_connect os peer host port opts = Some (Inr s)"
  shows "\<exists>pin. ssl_prepare os host port opts = Inr pin
    \<and> ssl_fingerprint s = (case peer_digest peer of None \<Rightarrow> [] | Some md \<Rightarrow> hex_string md)
    \<and> (pin = None \<or> pin = Some (ssl_fingerprint s))"
proof (cases "ssl_prepare os host port opts")
  case (Inl e)
  with assms show ?thesis by (simp add: ssl_connect_def)
next
  case (Inr pin)
  let ?hs = "handshake_with_deadline (handshake_timeout opts) (peer_handshake peer)"
  from assms Inr have "?hs = Some (Inr ())"
    by (cases ?hs) (auto simp: ssl_connect_def split: sum.splits)
  with assms Inr show ?thesis
    by (cases "peer_digest peer"; cases pin) (auto simp: ssl_connect_def ssl_peer_fingerprint_def split: if_splits)
qed

lemma hex_string_Nil [simp]: "hex_string md = [] \<longleftrightarrow> md = []"
  by (cases md) (simp_all add: hex_string_def hex_byte_def)

text \<open>The handshake ends by its deadline: it returns as soon as some event ends it or comes too late.\<close>

fun handshake_ends :: "int \<Rightarrow> handshake_event \<Rightarrow> bool" where
  "handshake_ends budget (HsWant elapsed) = (budget \<le> elapsed)"
| "handshake_ends budget e = True"

lemma handshake_loop_returns:
  "\<exists>e \<in> set es. handshake_ends b e \<Longrightarrow> \<exists>r. handshake_loop b es = Some r"
  by (induction b es rule: handshake_loop.induct) auto

lemma handshake_loop_in_time:
  "handshake_loop b es = Some (Inr u) \<Longrightarrow>
    \<exists>ws rest. es = map HsWant ws @ HsDone # rest \<and> (\<forall>w \<in> set ws. w < b)"
proof (induction b es rule: handshake_loop.induct)
  case (2 b es)
  then show ?case by (intro exI [of _ "[]"] exI [of _ es]) simp
next
  case (4 b w es)
  then obtain ws rest where "es = map HsWant ws @ HsDone # rest" "\<forall>w \<in> set ws. w < b" "w < b"
    by (auto split: if_splits)
  then show ?case by (intro exI [of _ "w # ws"] exI [of _ rest]) simp
qed auto

lemma connect_tls_pin:
  assumes "connect_tls os peer host port opts = Some (Inr t)" "tls_pin opts = Some raw"
  shows "\<exists>md mode. peer_digest peer = Some md \<and> tls_normalize_pin raw = Inr (hex_string md)
    \<and> ssl_fingerprint (tls_stream t) = hex_string md
    \<and> ssl_stat_key os (key_path opts) = Inr mode \<and> mode AND 0xFFF = 0x180"
proof -
  from assms(1) obtain s where s: "ssl_connect os peer host port opts = Some (Inr s)" "tls_stream t = s"
    by (auto simp: connect_tls_def result_splits)
  from ssl_connect_ok [OF s(1)] obtain pin where pin: "ssl_prepare os host port opts = Inr pin"
    "ssl_fingerprint s = (case peer_digest peer of None \<Rightarrow> [] | Some md \<Rightarrow> hex_string md)"
    "pin = None \<or> pin = Some (ssl_fingerprint s)"
    by blast
  note prep = ssl_prepare_ok [OF pin(1)]
  then have norm: "tls_normalize_pin raw = Inr (ssl_fingerprint s)"
    using assms(2) pin(3) by (auto simp: normalize_opt_pin_ok)
  then have "ssl_fingerprint s \<noteq> []" using tls_normalize_pin_form [OF norm] by auto
  then obtain md where "peer_digest peer = Some md" "ssl_fingerprint s = hex_string md"
    using pin(2) by (auto split: option.splits)
  with norm prep s(2) show ?thesis by auto
qed

section \<open>Properties\<close>

text \<open>C37: A pin is never silently dropped. When \<^verbatim>\<open>connect_tls\<close> hands out a transport for options that carry
  a pin, the pin was well formed, the peer presented a certificate whose SHA-256 digest in lower-case
  hex is exactly the normalised pin, that is the fingerprint the transport reports, and the client
  key file had mode 0600.\<close>

theorem connect_tls_pinned:
  assumes "connect_tls os peer host port opts = Some (Inr t)" "tls_pin opts = Some raw"
  shows "\<exists>md mode. peer_digest peer = Some md \<and> tls_normalize_pin raw = Inr (hex_string md)
    \<and> ssl_fingerprint (tls_stream t) = hex_string md
    \<and> ssl_stat_key os (key_path opts) = Inr mode \<and> mode AND 0xFFF = 0x180"
  using connect_tls_pin [OF assms] .

text \<open>A peer whose certificate digest is thirty-two zero bytes, and an environment in which every call
  succeeds.\<close>

definition sample_ssl_os :: ssl_os where
  "sample_ssl_os = \<lparr> ssl_net = \<lparr> os_getaddrinfo = (\<lambda>h p. Inr [SocketFails ''EMFILE'', ConnectNow ([], [])]),
       os_set_rcvtimeo = (\<lambda>s u. None) \<rparr>,
     ssl_stat_key = (\<lambda>p. Inr 0x8180), ssl_ctx_new = True, ssl_tls13_only = None, ssl_load_ca = (\<lambda>p. None),
     ssl_use_cert = (\<lambda>p. None), ssl_use_key = (\<lambda>p. None), ssl_check_key = None, ssl_new = True,
     ssl_set_fd = None, ssl_ip_literal = (\<lambda>n. False), ssl_set_ip = (\<lambda>n. True), ssl_set_host = (\<lambda>n. True),
     ssl_set_sni = (\<lambda>n. True) \<rparr>"

definition sample_peer :: tls_peer where
  "sample_peer = \<lparr> peer_handshake = [HsWant 3, HsDone], peer_digest = Some (replicate 32 0), peer_in = [],
     peer_out = [] \<rparr>"

definition sample_tls_options :: TlsOptions where
  "sample_tls_options = default_tls_options\<lparr> tls_pin := Some ('' '' @ replicate 64 CHR ''0'') \<rparr>"

lemma sample_hex: "hex_string (replicate 32 0) = replicate 64 CHR ''0''"
  by code_simp

lemma sample_pin: "tls_normalize_pin ('' '' @ replicate 64 CHR ''0'') = Inr (replicate 64 CHR ''0'')"
  by code_simp

lemma sample_prepare:
  "ssl_prepare sample_ssl_os ''mirror'' 7000 sample_tls_options = Inr (Some (replicate 64 CHR ''0''))"
proof -
  have "normalize_opt_pin (tls_pin sample_tls_options) = Inr (Some (replicate 64 CHR ''0''))"
    using sample_pin by (simp add: normalize_opt_pin_def sample_tls_options_def)
  then show ?thesis
    by (simp add: ssl_prepare_def sample_ssl_os_def check_key_mode_def sample_tls_options_def
        default_tls_options_def ssl_context_def sock_connect_def ssl_verify_name_def check_ssl_def check_flag_def Let_def)
qed

theorem connect_tls_pinned_witness:
  "\<exists>t. connect_tls sample_ssl_os sample_peer ''mirror'' 7000 sample_tls_options = Some (Inr t)
    \<and> ssl_fingerprint (tls_stream t) = replicate 64 CHR ''0''"
proof -
  have pin: "tls_pin sample_tls_options = Some ('' '' @ replicate 64 CHR ''0'')"
    by (simp add: sample_tls_options_def)
  have "handshake_with_deadline (handshake_timeout sample_tls_options) (peer_handshake sample_peer) = Some (Inr ())"
    by (simp add: handshake_with_deadline_def sample_tls_options_def default_tls_options_def sample_peer_def)
  then obtain t where t: "connect_tls sample_ssl_os sample_peer ''mirror'' 7000 sample_tls_options = Some (Inr t)"
    using sample_hex
    by (simp add: connect_tls_def ssl_connect_def sample_prepare ssl_peer_fingerprint_def sample_peer_def)
  from connect_tls_pinned [OF t pin] t show ?thesis by (simp add: sample_peer_def sample_hex)
qed

text \<open>\<^verbatim>\<open>Socket::connect\<close> uses the addresses in the resolver's order: it connects to the first one that
  accepts in time and fails, with an \<^verbatim>\<open>io\<close> error, exactly when none does; whatever timeout it is given,
  the timeout handed to \<^verbatim>\<open>poll\<close> is between 0 and \<^verbatim>\<open>INT_MAX\<close>.\<close>

theorem sock_connect_first:
  assumes "os_getaddrinfo os host (nat_to_string (unat port)) = Inr as"
  shows "(case List.map_filter (address_stream (poll_timeout_ms timeout)) as of
       [] \<Rightarrow> (\<exists>e. sock_connect os host port timeout = Inl e \<and> err_kind e = EK_io)
     | io # _ \<Rightarrow> sock_connect os host port timeout = Inr (connected_socket io))
    \<and> 0 \<le> poll_timeout_ms timeout \<and> poll_timeout_ms timeout \<le> 2147483647"
  using connect_loop_first [of "poll_timeout_ms timeout" "''no addresses''" as] assms
    poll_timeout_bounds [of timeout]
  by (auto simp: sock_connect_def Let_def int_max_def split: list.splits)

theorem sock_connect_first_witness:
  "sock_connect (ssl_net sample_ssl_os) ''mirror'' 7000 (- 5) = Inr (connected_socket ([], []))"
proof -
  have "os_getaddrinfo (ssl_net sample_ssl_os) ''mirror'' (nat_to_string (unat (7000 :: 16 word)))
      = Inr [SocketFails ''EMFILE'', ConnectNow ([], [])]"
    by (simp add: sample_ssl_os_def)
  from sock_connect_first [OF this, of "- 5"] show ?thesis
    by (simp add: map_filter_simps address_stream_def)
qed

text \<open>The TLS handshake respects its deadline (a timeout of zero or less counts as one millisecond):
  it returns as soon as \<^verbatim>\<open>SSL_connect\<close> succeeds, fails, or still wants I/O when the budget is used up;
  and when it succeeds, every earlier retry happened before the budget was used up.\<close>

theorem handshake_deadline:
  "((\<exists>e \<in> set es. handshake_ends (max 1 timeout) e) \<longrightarrow> (\<exists>r. handshake_with_deadline timeout es = Some r))
    \<and> (handshake_with_deadline timeout es = Some (Inr ()) \<longrightarrow>
        (\<exists>ws rest. es = map HsWant ws @ HsDone # rest \<and> (\<forall>w \<in> set ws. w < max 1 timeout)))"
proof -
  have b: "(if timeout \<le> 0 then 1 else timeout) = max 1 timeout" by auto
  show ?thesis
    unfolding handshake_with_deadline_def b
    using handshake_loop_returns [of es "max 1 timeout"] handshake_loop_in_time [of "max 1 timeout" es "()"] by blast
qed

theorem handshake_deadline_witness:
  "(\<exists>r. handshake_with_deadline 10 [HsWant 4, HsWant 11] = Some r)
    \<and> (\<exists>ws rest. [HsWant 4, HsDone] = map HsWant ws @ HsDone # rest \<and> (\<forall>w \<in> set ws. w < 10))"
proof -
  have "handshake_with_deadline 10 [HsWant 4, HsDone] = Some (Inr ())"
    by (simp add: handshake_with_deadline_def)
  with handshake_deadline [of "[HsWant 4, HsDone]" 10] handshake_deadline [of "[HsWant 4, HsWant 11]" 10]
  show ?thesis by simp
qed

end
