(* ===== verification/C_Strtol.thy ===== *)
theory C_Strtol
  imports Text_Model
begin

text \<open>
  \<^verbatim>\<open>strtol\<close> and \<^verbatim>\<open>strtoll\<close> in base ten, as \<^verbatim>\<open>detail/http.cpp\<close> and the command line use them: both are 64 bits
  wide on the platforms the code is built for, skip leading white space, take an optional sign, and
  return the nearest representable number when the digits overflow. \<open>parse_decimal\<close> is the idiom around
  them, \<^verbatim>\<open>end == s || *end != 0\<close> being a rejection; the argument of the call is \<^verbatim>\<open>c_str()\<close>, which ends at the
  first NUL byte.
\<close>

definition long_max :: int where
  "long_max = 2 ^ 63 - 1"

definition long_min :: int where
  "long_min = - (2 ^ 63)"

definition c_str :: "string \<Rightarrow> string" where
  "c_str s = takeWhile (\<lambda>c. c \<noteq> CHR 0x00) s"

definition saturate :: "int \<Rightarrow> int" where
  "saturate n = max long_min (min long_max n)"

text \<open>The value and the text from \<^verbatim>\<open>end\<close> on; \<open>None\<close> when no digit was read.\<close>

definition strtoll :: "string \<Rightarrow> (int \<times> string) option" where
  "strtoll s =
     (let t = dropWhile is_space s;
          neg = (t \<noteq> [] \<and> hd t = CHR ''-'');
          u = (if t \<noteq> [] \<and> (hd t = CHR ''-'' \<or> hd t = CHR ''+'') then tl t else t);
          ds = takeWhile is_digit u;
          n = int (decimal_val ds)
      in if ds = [] then None else Some (saturate (if neg then - n else n), dropWhile is_digit u))"

definition parse_decimal :: "string \<Rightarrow> int option" where
  "parse_decimal s =
     (case strtoll (c_str s) of Some (n, []) \<Rightarrow> Some n | _ \<Rightarrow> None)"

lemma saturate_id: "long_min \<le> n \<Longrightarrow> n \<le> long_max \<Longrightarrow> saturate n = n"
  by (simp add: saturate_def)

lemma saturate_bounds: "long_min \<le> saturate n \<and> saturate n \<le> long_max"
  by (simp add: saturate_def long_min_def long_max_def)

lemma parse_decimal_bounds: "parse_decimal s = Some n \<Longrightarrow> long_min \<le> n \<and> n \<le> long_max"
  by (auto simp: parse_decimal_def strtoll_def Let_def saturate_bounds
      split: option.splits list.splits if_splits)

lemma digits_c_str: "list_all is_digit s \<Longrightarrow> c_str s = s"
  unfolding c_str_def by (rule takeWhile_eq_all_conv [THEN iffD2])
    (auto simp: list_all_iff char_class_defs)

lemma digit_not_special: "is_digit c \<Longrightarrow> \<not> is_space c \<and> c \<noteq> CHR ''-'' \<and> c \<noteq> CHR ''+''"
  by (auto simp: char_class_defs)

lemma strtoll_digits:
  assumes "list_all is_digit s" "s \<noteq> []"
  shows "strtoll s = Some (saturate (int (decimal_val s)), [])"
proof -
  obtain c cs where s: "s = c # cs" using assms(2) by (cases s) auto
  then have "is_digit c" using assms(1) by simp
  from digit_not_special [OF this] s have hd: "dropWhile is_space s = s" "hd s \<noteq> CHR ''-''" "hd s \<noteq> CHR ''+''"
    by simp_all
  have all: "takeWhile is_digit s = s" "dropWhile is_digit s = []"
    using assms(1) by (simp_all add: takeWhile_eq_all_conv dropWhile_eq_Nil_conv list_all_iff)
  show ?thesis unfolding strtoll_def Let_def by (simp add: assms(2) hd all del: takeWhile_eq_all_conv)
qed

text \<open>Printing a number and reading it back.\<close>

lemma parse_decimal_nat_to_string:
  assumes "int n \<le> long_max"
  shows "parse_decimal (nat_to_string n) = Some (int n)"
proof -
  have "saturate (int n) = int n" using assms by (intro saturate_id) (simp_all add: long_min_def)
  then show ?thesis
    using strtoll_digits [OF nat_to_string_digits, of n] digits_c_str [OF nat_to_string_digits, of n]
    by (simp add: parse_decimal_def)
qed

end
