(* ===== verification/Http_Client.thy ===== *)
theory Http_Client
  imports Net_Connect C_Strtol "HOL-Library.Signed_Division"
begin

text \<open>
  \<^verbatim>\<open>src/detail/http.cpp\<close>: URL parsing, header lookup and the one-shot HTTP GET of the registry client.
  The connection is the socket model of \<^verbatim>\<open>Net_Connect\<close> and \<^verbatim>\<open>Transport_Framing\<close>; a read that exceeds the
  \<^verbatim>\<open>SO_RCVTIMEO\<close> set on the socket is an \<^verbatim>\<open>RError\<close> of its script. \<open>reserve\<close> says which string sizes cannot
  be reserved (\<^verbatim>\<open>read_n\<close> reserves the announced length and lets the exception through).
\<close>

section \<open>Text\<close>

abbreviation carriage_return :: char where
  "carriage_return \<equiv> CHR 0x0D"

definition strip_cr :: "string \<Rightarrow> string" where
  "strip_cr s = (if s \<noteq> [] \<and> List.last s = carriage_return then butlast s else s)"

definition rfind_char :: "char \<Rightarrow> string \<Rightarrow> nat option" where
  "rfind_char c s = map_option (\<lambda>n. length s - 1 - n) (find_char c (rev s))"

fun contains_text :: "string \<Rightarrow> string \<Rightarrow> bool" where
  "contains_text p [] = (p = [])"
| "contains_text p (c # cs) = (starts_with p (c # cs) \<or> contains_text p cs)"

definition url_delimiter :: "char \<Rightarrow> bool" where
  "url_delimiter c = (c \<in> {CHR ''/'', CHR ''?'', CHR ''#''})"

definition port_in_range :: "int \<Rightarrow> bool" where
  "port_in_range p = (1 \<le> p \<and> p \<le> 65535)"

text \<open>The host, the port and the path, or the error text.\<close>

definition parse_url :: "string \<Rightarrow> string + string \<times> 16 word \<times> string" where
  "parse_url url =
     (if length url < 7 \<or> to_lower (take 7 url) \<noteq> ''http://''
      then Inl (''only http:// URLs are supported (got '' @ [CHR 0x27] @ url @ [CHR 0x27] @ '')'')
      else
        (let rest = drop 7 url;
             auth = takeWhile (\<lambda>c. \<not> url_delimiter c) rest;
             tail = dropWhile (\<lambda>c. \<not> url_delimiter c) rest;
             path = (if tail = [] then ''/'' else tail)
         in if auth = [] then Inl ''malformed URL: empty host''
            else (case rfind_char CHR '':'' auth of
                None \<Rightarrow> Inr (auth, 80, path)
              | Some colon \<Rightarrow>
                  (let host = take colon auth; port_str = trim (drop (colon + 1) auth) in
                   if host = [] \<or> port_str = [] then Inl ''malformed URL: bad host:port''
                   else (case parse_decimal port_str of
                       Some p \<Rightarrow> (if port_in_range p then Inr (host, word_of_int p, path)
                                  else Inl (''malformed URL: bad port '' @ [CHR 0x27] @ port_str @ [CHR 0x27]))
                     | None \<Rightarrow> Inl (''malformed URL: bad port '' @ [CHR 0x27] @ port_str @ [CHR 0x27]))))))"

fun header_value :: "string list \<Rightarrow> string \<Rightarrow> string option" where
  "header_value [] name = None"
| "header_value (h # hs) name =
     (case find_char CHR '':'' h of
        None \<Rightarrow> header_value hs name
      | Some colon \<Rightarrow>
          (if to_lower (trim (take colon h)) = to_lower name then Some (trim (drop (colon + 1) h))
           else header_value hs name))"

section \<open>The request\<close>

abbreviation crlf :: string where
  "crlf \<equiv> [carriage_return, newline]"

definition http_request :: "string \<Rightarrow> 16 word \<Rightarrow> string \<Rightarrow> string" where
  "http_request host port path =
     ''GET '' @ path @ '' HTTP/1.1'' @ crlf
     @ ''Host: '' @ host @ (if port \<noteq> 80 then '':'' @ nat_to_string (unat port) else []) @ crlf
     @ ''Accept: application/json'' @ crlf
     @ ''Connection: close'' @ crlf
     @ crlf"

section \<open>The response\<close>

definition malformed_status :: "string \<Rightarrow> Error" where
  "malformed_status line = make_error EK_io (''malformed HTTP status line: '' @ [CHR 0x27] @ line @ [CHR 0x27])"

definition check_status :: "string \<Rightarrow> string \<Rightarrow> unit result" where
  "check_status path line =
     (if length line < 12 \<or> to_lower (take 5 line) \<noteq> ''http/'' then Inl (malformed_status line)
      else (case find_char CHR '' '' line of
          None \<Rightarrow> Inl (malformed_status line)
        | Some sp1 \<Rightarrow>
            (case find_char CHR '' '' (drop (sp1 + 1) line) of
               None \<Rightarrow> Inl (malformed_status line)
             | Some n \<Rightarrow>
                 (let code = take n (drop (sp1 + 1) line); sp2 = sp1 + 1 + n in
                  if code \<noteq> ''200''
                  then Inl (make_error EK_io (''registry HTTP GET '' @ path @ '' returned status '' @ code
                         @ '' ('' @ drop (sp2 + 1) line @ '')''))
                  else Inr ()))))"

text \<open>The bytes still to come, with one unit per event: what a read consumes.\<close>

fun script_size :: "read_event list \<Rightarrow> nat" where
  "script_size [] = 0"
| "script_size (RData d # es) = Suc (length d + script_size es)"
| "script_size (e # es) = Suc (script_size es)"

definition sock_size :: "Socket \<Rightarrow> nat" where
  "sock_size s = length (sk_buf s) + script_size (sk_in s)"

lemma os_read_size: "os_read evs = Some (RData d, es) \<Longrightarrow> length d + script_size es < script_size evs"
  by (induction evs rule: os_read.induct) auto

lemma read_line_size:
  "read_line_from_fd msg buf evs = Some (Inr l, buf', evs') \<Longrightarrow> l \<noteq> [] \<Longrightarrow>
    length buf' + script_size evs' < length buf + script_size evs"
proof (induction msg buf evs rule: read_line_from_fd.induct)
  case (1 msg buf evs)
  show ?case
  proof (cases "find_char newline buf")
    case (Some nl)
    then have "nl < length buf" by (simp add: find_char_Some)
    moreover have "evs' = evs" "buf' = drop (nl + 1) buf"
      using Some 1(2) by (subst (asm) read_line_from_fd.simps; simp split: if_splits)+
    ultimately show ?thesis by simp
  next
    case None
    then obtain e es where e: "os_read evs = Some (e, es)" "length buf \<le> kMaxProtocolLineBytes"
      using 1(2) by (subst (asm) read_line_from_fd.simps) (auto split: if_splits option.splits)
    then obtain d where d: "e = RData d" "d \<noteq> []" "read_line_from_fd msg (buf @ d) es = Some (Inr l, buf', evs')"
      using 1(2,3) None by (subst (asm) read_line_from_fd.simps) (auto split: if_splits read_event.splits)
    have "length buf' + script_size evs' < length (buf @ d) + script_size es"
      using 1(1) [OF None _ _ _ d(1) d(2) d(3) 1(3), of "(e, es)"] e by simp
    then show ?thesis using os_read_size [of evs d es] e d by simp
  qed
qed

lemma sock_read_line_size: "sock_read_line s = Some (s', Inr l) \<Longrightarrow> sock_size s' < sock_size s"
  by (auto simp: sock_read_line_def sock_size_def split: if_splits option.splits sum.splits
      dest!: read_line_size)

text \<open>The header loop.\<close>

function http_headers :: "string list \<Rightarrow> Socket \<Rightarrow> (Socket \<times> string list result) option" where
  "http_headers headers s =
     (case sock_read_line s of
        None \<Rightarrow> None
      | Some (s', Inl e) \<Rightarrow> Some (s', Inl e)
      | Some (s', Inr line) \<Rightarrow>
          (let h = strip_cr line in
           if h = [] then Some (s', Inr headers) else http_headers (headers @ [h]) s'))"
  by pat_completeness auto
termination
  by (relation "measure (\<lambda>(hs, s). sock_size s)") (auto dest: sock_read_line_size)

declare http_headers.simps [simp del]

definition http_body :: "(nat \<Rightarrow> exn option) \<Rightarrow> string list \<Rightarrow> Socket \<Rightarrow> string outcome option" where
  "http_body reserve headers s =
     (if (case header_value headers ''Transfer-Encoding'' of None \<Rightarrow> False
            | Some te \<Rightarrow> contains_text ''chunked'' (to_lower te))
      then Some (Inr (Inl (make_error EK_io
        ''registry HTTP response uses chunked transfer-encoding (documented limitation; Content-Length required)'')))
      else (case header_value headers ''Content-Length'' of
          Some cl \<Rightarrow>
            (case parse_decimal cl of
               Some n \<Rightarrow>
                 (if n < 0 then Some (Inr (Inl (make_error EK_io (''malformed Content-Length: '' @ [CHR 0x27] @ cl @ [CHR 0x27]))))
                  else map_option snd (sock_read_n reserve (nat n) s))
             | None \<Rightarrow> Some (Inr (Inl (make_error EK_io (''malformed Content-Length: '' @ [CHR 0x27] @ cl @ [CHR 0x27])))))
        | None \<Rightarrow> map_option (\<lambda>(s', r). Inr r) (sock_read_until_eof s)))"

definition http_response :: "(nat \<Rightarrow> exn option) \<Rightarrow> string \<Rightarrow> Socket \<Rightarrow> string outcome option" where
  "http_response reserve path s =
     (case sock_read_line s of
        None \<Rightarrow> None
      | Some (s1, Inl e) \<Rightarrow> Some (Inr (Inl e))
      | Some (s1, Inr line) \<Rightarrow>
          (case check_status path (strip_cr line) of
             Inl e \<Rightarrow> Some (Inr (Inl e))
           | Inr _ \<Rightarrow>
               (case http_headers [] s1 of
                  None \<Rightarrow> None
                | Some (s2, Inl e) \<Rightarrow> Some (Inr (Inl e))
                | Some (s2, Inr headers) \<Rightarrow> http_body reserve headers s2)))"

definition http_get :: "net_os \<Rightarrow> (nat \<Rightarrow> exn option) \<Rightarrow> string \<Rightarrow> int \<Rightarrow> string outcome option" where
  "http_get os reserve url timeout =
     (case parse_url url of
        Inl err \<Rightarrow> Some (Inr (Inl (make_error EK_io err)))
      | Inr (host, port, path) \<Rightarrow>
          (case sock_connect os host port timeout of
             Inl e \<Rightarrow> Some (Inr (Inl (make_error EK_io (''registry HTTP connect to '' @ host @ '':''
                 @ nat_to_string (unat port) @ '' failed: '' @ err_message e))))
           | Inr sock \<Rightarrow>
               (case os_set_rcvtimeo os (timeout sdiv 1000) ((timeout smod 1000) * 1000) of
                  Some m \<Rightarrow> Some (Inr (Inl (make_error EK_io (''setsockopt(SO_RCVTIMEO) failed: '' @ m))))
                | None \<Rightarrow>
                    (case sock_write_all sock (http_request host port path) of
                       (s1, Inl e) \<Rightarrow> Some (Inr (Inl e))
                     | (s1, Inr _) \<Rightarrow> http_response reserve path s1))))"

section \<open>URLs\<close>

lemma rfind_char_last: "c \<notin> set t \<Longrightarrow> rfind_char c (s @ c # t) = Some (length s)"
  by (simp add: rfind_char_def find_char_append_notin)

lemma rfind_char_None: "c \<notin> set s \<Longrightarrow> rfind_char c s = None"
  by (simp add: rfind_char_def find_char_None)

lemma digit_url: "is_digit c \<Longrightarrow> \<not> url_delimiter c \<and> c \<noteq> CHR '':'' \<and> \<not> is_space c"
  by (auto simp: url_delimiter_def char_class_defs)

text \<open>The authority part of a URL ends at the first delimiter.\<close>

lemma url_split:
  assumes "list_all (\<lambda>c. \<not> url_delimiter c) a" "p = [] \<or> url_delimiter (hd p)"
  shows "takeWhile (\<lambda>c. \<not> url_delimiter c) (a @ p) = a" "dropWhile (\<lambda>c. \<not> url_delimiter c) (a @ p) = p"
  using assms by (cases p; simp add: list_all_iff takeWhile_append2 dropWhile_append2)+

lemma parse_url_auth:
  assumes "list_all (\<lambda>c. \<not> url_delimiter c) a" "p = [] \<or> url_delimiter (hd p)" "a \<noteq> []"
  shows "parse_url (''http://'' @ a @ p) =
    (let path = (if p = [] then ''/'' else p) in
     case rfind_char CHR '':'' a of
       None \<Rightarrow> Inr (a, 80, path)
     | Some colon \<Rightarrow>
         (let host = take colon a; port_str = trim (drop (colon + 1) a) in
          if host = [] \<or> port_str = [] then Inl ''malformed URL: bad host:port''
          else (case parse_decimal port_str of
              Some n \<Rightarrow> (if port_in_range n then Inr (host, word_of_int n, path)
                         else Inl (''malformed URL: bad port '' @ [CHR 0x27] @ port_str @ [CHR 0x27]))
            | None \<Rightarrow> Inl (''malformed URL: bad port '' @ [CHR 0x27] @ port_str @ [CHR 0x27]))))"
proof -
  have low: "to_lower ''http://'' = ''http://''" by code_simp
  have url: "take 7 (''http://'' @ a @ p) = ''http://''" "drop 7 (''http://'' @ a @ p) = a @ p"
    "\<not> length (''http://'' @ a @ p) < 7" by simp_all
  show ?thesis
    unfolding parse_url_def url low url_split [OF assms(1,2)] Let_def using assms(3) by simp
qed

section \<open>Termination of the exchange\<close>

text \<open>A stream that reports end of file or an error at some point, as a stalled one does once the receive
  timeout is set.\<close>

definition terminated :: "read_event list \<Rightarrow> bool" where
  "terminated evs = list_ex (\<lambda>e. case e of RData d \<Rightarrow> d = [] | RIntr \<Rightarrow> False | RError m \<Rightarrow> True) evs"

lemma terminated_os_read:
  "terminated evs \<Longrightarrow> \<exists>e es. os_read evs = Some (e, es) \<and> e \<noteq> RIntr
    \<and> (\<forall>d. e = RData d \<and> d \<noteq> [] \<longrightarrow> terminated es)"
  by (induction evs rule: os_read.induct) (auto simp: terminated_def)

lemma terminated_read_line:
  "terminated evs \<Longrightarrow> \<exists>r buf' evs'. read_line_from_fd msg buf evs = Some (r, buf', evs')
    \<and> (\<forall>l. r = Inr l \<and> l \<noteq> [] \<longrightarrow> terminated evs')"
proof (induction msg buf evs rule: read_line_from_fd.induct)
  case (1 msg buf evs)
  show ?case
  proof (cases "find_char newline buf = None \<and> \<not> length buf > kMaxProtocolLineBytes")
    case False
    then show ?thesis using 1(2)
      by (cases "find_char newline buf") (simp_all add: read_line_from_fd.simps [of msg buf evs])
  next
    case True
    from terminated_os_read [OF 1(2)] obtain e es where e: "os_read evs = Some (e, es)" "e \<noteq> RIntr"
      "\<forall>d. e = RData d \<and> d \<noteq> [] \<longrightarrow> terminated es" by blast
    show ?thesis
    proof (cases "\<exists>d. e = RData d \<and> d \<noteq> []")
      case False
      then show ?thesis using True e
        by (cases e) (simp_all add: read_line_from_fd.simps [of msg buf evs])
    next
      case T: True
      then obtain d where d: "e = RData d" "d \<noteq> []" "terminated es" using e by blast
      show ?thesis
        using 1(1) [OF _ _ e(1) refl d(1) d(2) d(3)] True e d
        by (simp add: read_line_from_fd.simps [of msg buf evs])
    qed
  qed
qed

lemma terminated_sock_read_line:
  assumes "sk_open s" "terminated (sk_in s)"
  shows "\<exists>s' r. sock_read_line s = Some (s', r) \<and> sk_open s' \<and> (\<forall>l. r = Inr l \<longrightarrow> terminated (sk_in s'))"
proof -
  obtain r buf' evs' where "read_line_from_fd closed_unexpectedly (sk_buf s) (sk_in s) = Some (r, buf', evs')"
    "\<forall>l. r = Inr l \<and> l \<noteq> [] \<longrightarrow> terminated evs'"
    using terminated_read_line [OF assms(2)] by blast
  then show ?thesis using assms(1) by (auto simp: sock_read_line_def split: sum.splits)
qed

lemma terminated_headers:
  "sk_open s \<Longrightarrow> terminated (sk_in s) \<Longrightarrow>
    \<exists>s' r. http_headers hs s = Some (s', r) \<and> sk_open s' \<and> (\<forall>h. r = Inr h \<longrightarrow> terminated (sk_in s'))"
proof (induction hs s rule: http_headers.induct)
  case (1 hs s)
  from terminated_sock_read_line [OF 1(2,3)] obtain s' r where
    r: "sock_read_line s = Some (s', r)" "sk_open s'" "\<forall>l. r = Inr l \<longrightarrow> terminated (sk_in s')" by blast
  show ?case
  proof (cases r)
    case (Inl e)
    then show ?thesis using r by (simp add: http_headers.simps [of hs s])
  next
    case (Inr line)
    show ?thesis
    proof (cases "strip_cr line = []")
      case True
      then show ?thesis using r Inr by (simp add: http_headers.simps [of hs s])
    next
      case False
      have "terminated (sk_in s')" using r(3) Inr by simp
      from 1(1) [OF r(1) _ Inr refl False r(2) this] show ?thesis
        using r Inr False by (simp add: http_headers.simps [of hs s])
    qed
  qed
qed

lemma read_n_loop_event:
  "length acc < n \<Longrightarrow> read_n_loop n acc [] (e # es) =
    (case e of
       RIntr \<Rightarrow> read_n_loop n acc [] es
     | RError m \<Rightarrow> Some (Inl (make_error EK_io (''read failed: '' @ m)), [], es)
     | RData d \<Rightarrow>
         if d = [] then
           Some (Inl (make_error EK_io (''transport closed unexpectedly (EOF before '' @ nat_to_string n @ '' bytes)'')), [], es)
         else read_n_loop n (acc @ d) [] es)"
  by (subst read_n_loop.simps) simp

lemma terminated_read_n: "terminated evs \<Longrightarrow> \<exists>r. read_n_loop n acc buf evs = Some r"
proof (induction n acc buf evs rule: read_n_loop.induct)
  case (1 n acc buf evs)
  show ?case
  proof (cases "length acc < n")
    case False
    then show ?thesis by (simp add: read_n_loop.simps [of n acc buf evs])
  next
    case len: True
    show ?thesis
    proof (cases "buf = []")
      case False
      from 1(1) [OF _ False refl 1(4)] len False show ?thesis
        by (simp add: read_n_loop.simps [of n acc buf evs] Let_def)
    next
      case True
      then obtain e es where es: "evs = e # es" using 1(4) by (cases evs) (auto simp: terminated_def)
      show ?thesis
        using 1(2-4) len True es
        by (cases e) (auto simp: read_n_loop_event terminated_def)
    qed
  qed
qed

lemma terminated_read_eof: "terminated evs \<Longrightarrow> \<exists>r. read_eof_loop acc evs = Some r"
  by (induction acc evs rule: read_eof_loop.induct) (auto simp: terminated_def)

lemma terminated_body:
  assumes "sk_open s" "terminated (sk_in s)"
  shows "\<exists>r. http_body reserve hs s = Some r"
proof -
  have n: "\<exists>r a. sock_read_n reserve n s = Some (a, r)" for n
    using terminated_read_n [OF assms(2), of n "[]" "sk_buf s"] assms(1)
    by (auto simp: sock_read_n_def split: option.splits)
  have "\<exists>r. sock_read_until_eof s = Some r"
    using terminated_read_eof [OF assms(2), of "sk_buf s"] assms(1) by (auto simp: sock_read_until_eof_def)
  then show ?thesis unfolding http_body_def by (simp add: n split: option.splits)
qed

lemma terminated_response:
  assumes "sk_open s" "terminated (sk_in s)"
  shows "\<exists>r. http_response reserve path s = Some r"
proof -
  from terminated_sock_read_line [OF assms] obtain s1 r where
    r: "sock_read_line s = Some (s1, r)" "sk_open s1" "\<forall>l. r = Inr l \<longrightarrow> terminated (sk_in s1)" by blast
  show ?thesis
  proof (cases r)
    case (Inr line)
    then have "terminated (sk_in s1)" using r(3) by simp
    from terminated_headers [OF r(2) this, of "[]"] obtain s2 h where
      h: "http_headers [] s1 = Some (s2, h)" "sk_open s2" "\<forall>hs. h = Inr hs \<longrightarrow> terminated (sk_in s2)" by blast
    then show ?thesis using r Inr terminated_body [of s2 reserve]
      by (cases h) (auto simp: http_response_def split: sum.splits)
  qed (use r in \<open>simp add: http_response_def\<close>)
qed

section \<open>A well-formed response\<close>

text \<open>Header lines as a server sends them.\<close>

definition header_line :: "string \<Rightarrow> bool" where
  "header_line h = (h \<noteq> [] \<and> newline \<notin> set h \<and> length h < kMaxProtocolLineBytes)"

definition http_lines :: "string list \<Rightarrow> string" where
  "http_lines hs = concat (map (\<lambda>h. h @ crlf) hs)"

lemma http_lines_simps [simp]: "http_lines [] = []" "http_lines (h # hs) = h @ crlf @ http_lines hs"
  by (simp_all add: http_lines_def)

lemma strip_cr_line [simp]: "strip_cr (h @ [carriage_return]) = h"
  by (simp add: strip_cr_def)

text \<open>A socket whose remaining input is a given byte string, cut into reads in any way.\<close>

definition delivers :: "Socket \<Rightarrow> string \<Rightarrow> bool" where
  "delivers s bytes = (sk_open s \<and> data_only (sk_in s) \<and> sk_buf s @ script_bytes (sk_in s) = bytes)"

lemma delivers_line:
  assumes "delivers s (l @ crlf @ r)" "newline \<notin> set l" "length l < kMaxProtocolLineBytes"
  shows "\<exists>s'. sock_read_line s = Some (s', Inr (l @ [carriage_return])) \<and> delivers s' r"
proof -
  have d: "data_only (sk_in s)" "sk_buf s @ script_bytes (sk_in s) = (l @ [carriage_return]) @ newline # r"
    "sk_open s" using assms(1) by (simp_all add: delivers_def)
  have l: "newline \<notin> set (l @ [carriage_return])" "length (l @ [carriage_return]) \<le> kMaxProtocolLineBytes"
    using assms(2,3) by simp_all
  from read_line_from_fd_line [OF d(1,2) l, of closed_unexpectedly] obtain buf' evs' where
    "read_line_from_fd closed_unexpectedly (sk_buf s) (sk_in s) = Some (Inr (l @ [carriage_return]), buf', evs')"
    "buf' @ script_bytes evs' = r" "data_only evs'" by blast
  with d(3) show ?thesis by (simp add: sock_read_line_def delivers_def)
qed

lemma delivers_headers:
  "delivers s (http_lines hs @ crlf @ body) \<Longrightarrow> list_all header_line hs \<Longrightarrow>
    \<exists>s'. http_headers acc s = Some (s', Inr (acc @ hs)) \<and> delivers s' body"
proof (induction hs arbitrary: s acc)
  case Nil
  from delivers_line [of s "[]" body] Nil show ?case
    by (subst http_headers.simps) (auto simp: strip_cr_def kMaxProtocolLineBytes_def)
next
  case (Cons h hs)
  have h: "h \<noteq> []" "newline \<notin> set h" "length h < kMaxProtocolLineBytes"
    using Cons.prems(2) by (simp_all add: header_line_def)
  from delivers_line [of s h "http_lines hs @ crlf @ body"] Cons.prems(1) h obtain s' where
    s': "sock_read_line s = Some (s', Inr (h @ [carriage_return]))" "delivers s' (http_lines hs @ crlf @ body)"
    by auto
  from Cons.IH [OF s'(2), of "acc @ [h]"] Cons.prems(2) obtain s'' where
    "http_headers (acc @ [h]) s' = Some (s'', Inr ((acc @ [h]) @ hs))" "delivers s'' body" by auto
  with s'(1) h(1) show ?case by (subst http_headers.simps) simp
qed

lemma read_n_exact:
  "data_only evs \<Longrightarrow> length acc + length (buf @ script_bytes evs) = n \<Longrightarrow>
    \<exists>buf' evs'. read_n_loop n acc buf evs = Some (Inr (acc @ buf @ script_bytes evs), buf', evs')"
proof (induction n acc buf evs rule: read_n_loop.induct)
  case (1 n acc buf evs)
  show ?case
  proof (cases "length acc < n")
    case False
    then have "buf @ script_bytes evs = []" using 1(5) by (cases "buf @ script_bytes evs") auto
    with False show ?thesis by (subst read_n_loop.simps) simp
  next
    case len: True
    show ?thesis
    proof (cases "buf = []")
      case False
      have k: "min (n - length acc) (length buf) = length buf" using 1(5) by simp
      from 1(1) [OF _ False k [symmetric] 1(4)] len 1(5) obtain buf' evs' where
        "read_n_loop n (acc @ buf) [] evs = Some (Inr ((acc @ buf) @ script_bytes evs), buf', evs')" by auto
      then show ?thesis using len False k by (subst read_n_loop.simps) (simp add: Let_def)
    next
      case True
      then obtain e es where es: "evs = e # es" using 1(5) len by (cases evs) auto
      show ?thesis using 1(2-5) len True es
        by (cases e) (auto simp: read_n_loop_event)
    qed
  qed
qed

lemma check_status_ok: "check_status path ''HTTP/1.1 200 OK'' = Inr ()"
proof -
  have "length ''HTTP/1.1 200 OK'' = 15" "to_lower (take 5 ''HTTP/1.1 200 OK'') = ''http/''"
    "find_char CHR '' '' ''HTTP/1.1 200 OK'' = Some 8" "find_char CHR '' '' (drop 9 ''HTTP/1.1 200 OK'') = Some 3"
    "take 3 (drop 9 ''HTTP/1.1 200 OK'') = ''200''"
    by code_simp+
  then show ?thesis by (simp add: check_status_def)
qed

lemma body_exact:
  assumes "delivers s body" "header_value hs ''Transfer-Encoding'' = None"
    "header_value hs ''Content-Length'' = Some (nat_to_string (length body))" "int (length body) \<le> long_max"
    "reserve (length body) = None"
  shows "http_body reserve hs s = Some (Inr (Inr body))"
proof -
  have d: "sk_open s" "data_only (sk_in s)" "sk_buf s @ script_bytes (sk_in s) = body"
    using assms(1) by (simp_all add: delivers_def)
  obtain buf' evs' where "read_n_loop (length body) [] (sk_buf s) (sk_in s) = Some (Inr body, buf', evs')"
    using read_n_exact [OF d(2), of "[]" "sk_buf s" "length body"] d(3) by auto
  then show ?thesis
    using assms d(1) parse_decimal_nat_to_string [OF assms(4)] by (simp add: http_body_def sock_read_n_def)
qed

lemma response_body:
  assumes "delivers s (''HTTP/1.1 200 OK'' @ crlf @ http_lines hs @ crlf @ body)" "list_all header_line hs"
  shows "\<exists>s'. delivers s' body \<and> http_response reserve path s = http_body reserve hs s'"
proof -
  have nl: "newline \<notin> set ''HTTP/1.1 200 OK''" "length ''HTTP/1.1 200 OK'' < kMaxProtocolLineBytes"
    by (simp_all add: kMaxProtocolLineBytes_def)
  from delivers_line [OF assms(1) nl] obtain s1 where
    s1: "sock_read_line s = Some (s1, Inr (''HTTP/1.1 200 OK'' @ [carriage_return]))"
    "delivers s1 (http_lines hs @ crlf @ body)" by blast
  from delivers_headers [OF s1(2) assms(2), of "[]"] obtain s2 where
    s2: "http_headers [] s1 = Some (s2, Inr hs)" "delivers s2 body" by auto
  have "http_response reserve path s = http_body reserve hs s2"
    unfolding http_response_def s1(1)
    using s2(1) check_status_ok by (simp only: option.case prod.case sum.case strip_cr_line)
  with s2(2) show ?thesis by blast
qed

lemma response_exact:
  assumes "delivers s (''HTTP/1.1 200 OK'' @ crlf @ http_lines hs @ crlf @ body)" "list_all header_line hs"
    "header_value hs ''Transfer-Encoding'' = None"
    "header_value hs ''Content-Length'' = Some (nat_to_string (length body))" "int (length body) \<le> long_max"
    "reserve (length body) = None"
  shows "http_response reserve path s = Some (Inr (Inr body))"
  using response_body [OF assms(1,2), of reserve path] body_exact [where reserve = reserve, OF _ assms(3-6)] by auto

lemma http_get_connected:
  assumes "parse_url url = Inr (host, port, path)" "sock_connect os host port timeout = Inr (connected_socket (evs, outs))"
    "os_set_rcvtimeo os (timeout sdiv 1000) ((timeout smod 1000) * 1000) = None" "accepting outs"
    "data_only evs" "script_bytes evs = bytes"
  shows "\<exists>s. delivers s bytes \<and> http_get os reserve url timeout = http_response reserve path s"
proof -
  obtain outs' wire where w: "send_loop (http_request host port path) outs [] = (Inr (), outs', wire)"
    using send_loop_accepting [OF assms(4)] by blast
  then have wr: "sock_write_all (connected_socket (evs, outs)) (http_request host port path)
      = ((connected_socket (evs, outs))\<lparr> sk_out := outs', sk_wire := wire \<rparr>, Inr ())"
    by (simp add: sock_write_all_def connected_socket_def)
  have d: "delivers ((connected_socket (evs, outs))\<lparr> sk_out := outs', sk_wire := wire \<rparr>) bytes"
    using assms(5,6) by (simp add: delivers_def connected_socket_def)
  then show ?thesis by (intro exI conjI) (simp_all add: http_get_def assms(1-3) wr)
qed

lemma http_get_exact:
  assumes "parse_url url = Inr (host, port, path)" "sock_connect os host port timeout = Inr (connected_socket (evs, outs))"
    "os_set_rcvtimeo os (timeout sdiv 1000) ((timeout smod 1000) * 1000) = None" "accepting outs"
    "data_only evs" "script_bytes evs = ''HTTP/1.1 200 OK'' @ crlf @ http_lines hs @ crlf @ body"
    "list_all header_line hs" "header_value hs ''Transfer-Encoding'' = None"
    "header_value hs ''Content-Length'' = Some (nat_to_string (length body))" "int (length body) \<le> 2 ^ 63 - 1"
    "reserve (length body) = None"
  shows "http_get os reserve url timeout = Some (Inr (Inr body))"
proof -
  from http_get_connected [OF assms(1-6), of reserve] obtain s where
    s: "delivers s (''HTTP/1.1 200 OK'' @ crlf @ http_lines hs @ crlf @ body)"
    "http_get os reserve url timeout = http_response reserve path s" by blast
  have len: "int (length body) \<le> long_max" using assms(10) by (simp add: long_max_def)
  show ?thesis
    unfolding s(2) by (rule response_exact [where reserve = reserve, OF s(1) assms(7-9) len assms(11)])
qed

section \<open>Properties\<close>

text \<open>URL parsing inverts URL building: a non-empty host without delimiters, a non-zero 16-bit port and
  a path that is empty or starts with one of the three delimiters are recovered exactly; without a
  port, and with no colon in the host, the port is 80.\<close>

theorem parse_url_roundtrip:
  assumes "host \<noteq> []" "list_all (\<lambda>c. \<not> url_delimiter c) host" "p = [] \<or> url_delimiter (hd p)" "port \<noteq> 0"
  shows "parse_url (''http://'' @ host @ '':'' @ nat_to_string (unat port) @ p)
      = Inr (host, port, if p = [] then ''/'' else p)
    \<and> (CHR '':'' \<notin> set host \<longrightarrow> parse_url (''http://'' @ host @ p) = Inr (host, 80, if p = [] then ''/'' else p))"
proof -
  let ?n = "nat_to_string (unat port)" and ?a = "host @ '':'' @ nat_to_string (unat port)"
  have digits: "list_all is_digit ?n" by (rule nat_to_string_digits)
  have "CHR '':'' \<notin> set ?n" "list_all (\<lambda>c. \<not> is_space c) ?n" "list_all (\<lambda>c. \<not> url_delimiter c) ?n"
    using digits digit_url by (fastforce simp: list_all_iff)+
  then have a: "rfind_char CHR '':'' ?a = Some (length host)" "trim ?n = ?n"
    "list_all (\<lambda>c. \<not> url_delimiter c) ?a"
    using rfind_char_last [of "CHR '':''" ?n host] trim_no_space assms(2) by (simp_all add: url_delimiter_def)
  have lt: "uint port < 65536" using unsigned_less [of port, where ?'a = int] by simp
  have pos: "1 \<le> uint port" using assms(4) by (metis int_one_le_iff_zero_less unsigned_eq_0_iff unsigned_greater_eq less_le)
  have "parse_decimal ?n = Some (int (unat port))"
    by (rule parse_decimal_nat_to_string) (use lt in \<open>simp add: long_max_def\<close>)
  moreover have "port_in_range (int (unat port))"
    using lt pos by (simp add: port_in_range_def)
  moreover have "word_of_int (int (unat port)) = port" by simp
  ultimately have "parse_url (''http://'' @ ?a @ p) = Inr (host, port, if p = [] then ''/'' else p)"
    using parse_url_auth [OF a(3) assms(3)] a(1,2) assms(1) by (simp add: Let_def)
  moreover have "parse_url (''http://'' @ host @ p) = Inr (host, 80, if p = [] then ''/'' else p)"
    if "CHR '':'' \<notin> set host"
    using parse_url_auth [OF assms(2,3,1)] rfind_char_None [OF that] by (simp add: Let_def)
  ultimately show ?thesis by simp
qed

theorem parse_url_roundtrip_witness:
  "parse_url (''http://'' @ ''consul'' @ '':'' @ nat_to_string (unat (8500 :: 16 word)) @ ''/v1'')
     = Inr (''consul'', 8500, ''/v1'')"
  using parse_url_roundtrip [of "''consul''" "''/v1''" 8500] by (simp add: url_delimiter_def)


definition sample_net :: "read_event list \<Rightarrow> net_os" where
  "sample_net evs = \<lparr> os_getaddrinfo = (\<lambda>h p. Inr [ConnectNow (evs, [])]), os_set_rcvtimeo = (\<lambda>s u. None) \<rparr>"

lemma sample_net_connect: "sock_connect (sample_net evs) host port timeout = Inr (connected_socket (evs, []))"
  by (simp add: sample_net_def sock_connect_def Let_def)


text \<open>C39: The HTTP client never hangs on a server that stalls: if every stream the addresses give ends in end
  of file or a read error - which the receive timeout turns a stall into - then \<^verbatim>\<open>http_get\<close> returns,
  whatever bytes the server sent before.\<close>

theorem http_get_returns:
  assumes "\<And>h q as ms io. os_getaddrinfo os h q = Inr as \<Longrightarrow> io \<in> set (List.map_filter (address_stream ms) as) \<Longrightarrow>
      terminated (fst io)"
  shows "\<exists>r. http_get os reserve url timeout = Some r"
proof (cases "parse_url url")
  case (Inr u)
  obtain host port path where u: "u = (host, port, path)" by (cases u)
  show ?thesis
  proof (cases "sock_connect os host port timeout")
    case (Inl e)
    with Inr u show ?thesis by (simp add: http_get_def)
  next
    case (Inr s)
    then obtain as where as: "os_getaddrinfo os host (nat_to_string (unat port)) = Inr as"
      "connect_loop (poll_timeout_ms timeout) ''no addresses'' as = Inr s"
      by (auto simp: sock_connect_def Let_def split: sum.splits)
    then obtain io ios where io: "List.map_filter (address_stream (poll_timeout_ms timeout)) as = io # ios"
      "s = connected_socket io"
      using connect_loop_first [of "poll_timeout_ms timeout" "''no addresses''" as] by (auto split: list.splits)
    then have "terminated (sk_in s)" "sk_open s"
      using assms [OF as(1), of io "poll_timeout_ms timeout"] by (simp_all add: connected_socket_def)
    moreover obtain s1 r where "sock_write_all s (http_request host port path) = (s1, r)" by fastforce
    moreover from calculation have "sk_in s1 = sk_in s" "sk_open s1 = sk_open s"
      by (auto simp: sock_write_all_def split: prod.splits if_splits)
    ultimately have "terminated (sk_in s1)" "sk_open s1" "sock_write_all s (http_request host port path) = (s1, r)"
      by simp_all
    with terminated_response [of s1 reserve path] \<open>parse_url url = Inr u\<close> u Inr show ?thesis
      by (auto simp: http_get_def split: sum.splits option.splits)
  qed
qed (simp add: http_get_def)

theorem http_get_returns_witness:
  "\<exists>r. http_get (sample_net [RData ''HTTP/1.1 200 OK'', RError ''timed out'']) (\<lambda>n. None) ''http://consul/v1'' 5000 = Some r"
  by (rule http_get_returns) (auto simp: sample_net_def address_stream_def map_filter_simps terminated_def)

end
