(* ===== verification/Registry.thy ===== *)
theory Registry
  imports Http_Client Reference_Lib
begin

text \<open>
  \<^verbatim>\<open>src/registry.cpp\<close>: parsing of Consul health entries, discovery, and connecting to the first usable
  candidate. The model is that of a TLS build. The network and OpenSSL are parameters; since the
  environment may change between two attempts, the \<open>i\<close>-th attempt to connect sees the \<open>i\<close>-th TLS
  environment.
\<close>

section \<open>Entries\<close>

record MirrorServiceInfo =
  svc_id :: string
  svc_host :: string
  svc_port :: "16 word"
  svc_cert :: "string option"

definition registry_normalize_pin :: "string \<Rightarrow> string option" where
  "registry_normalize_pin raw =
     (let s = trim raw in
      if length s \<noteq> 64 then None
      else (let out = map to_lower_char s in if list_all is_lower_hex out then Some out else None))"

text \<open>The advertised pin of a service: \<open>None\<close> when the entry must be skipped.\<close>

definition service_pin :: "Json \<Rightarrow> string option option" where
  "service_pin svc =
     (case jfind ''Meta'' svc of
        None \<Rightarrow> Some None
      | Some meta \<Rightarrow>
          (if \<not> is_object meta then Some None
           else (case jfind ''cert-sha256'' meta of
               None \<Rightarrow> Some None
             | Some (JString raw) \<Rightarrow> map_option Some (registry_normalize_pin raw)
             | Some _ \<Rightarrow> None)))"

definition service_id :: "Json \<Rightarrow> string" where
  "service_id svc = (case jfind ''ID'' svc of Some (JString i) \<Rightarrow> i | _ \<Rightarrow> [])"

definition service_host :: "Json \<Rightarrow> string option" where
  "service_host svc = (case jfind ''Address'' svc of
     Some (JString a) \<Rightarrow> (if trim a = [] then None else Some (trim a))
   | _ \<Rightarrow> None)"

definition service_port :: "Json \<Rightarrow> 16 word option" where
  "service_port svc = (case jfind ''Port'' svc of
     None \<Rightarrow> None
   | Some j \<Rightarrow>
       (if \<not> is_number_integer j then None
        else (let port = sint (get_long_long j) in
              if port < 1 \<or> port > 65535 then None else Some (word_of_int port))))"

definition parse_service_entry :: "Json \<Rightarrow> MirrorServiceInfo option" where
  "parse_service_entry entry =
     (case jfind ''Service'' entry of
        None \<Rightarrow> None
      | Some svc \<Rightarrow>
          (if \<not> is_object svc then None
           else (case service_host svc of
               None \<Rightarrow> None
             | Some host \<Rightarrow>
                 (case service_port svc of
                    None \<Rightarrow> None
                  | Some port \<Rightarrow>
                      (case service_pin svc of
                         None \<Rightarrow> None
                       | Some pin \<Rightarrow> Some \<lparr> svc_id = service_id svc, svc_host = host, svc_port = port, svc_cert = pin \<rparr>)))))"

definition parse_registry_entries :: "json_lib \<Rightarrow> string \<Rightarrow> MirrorServiceInfo list" where
  "parse_registry_entries L body =
     (case lib_parse L body of
        Inl _ \<Rightarrow> []
      | Inr (JArray js) \<Rightarrow> List.map_filter parse_service_entry js
      | Inr _ \<Rightarrow> [])"

section \<open>Discovery and connection\<close>

definition discovery_url :: "string \<Rightarrow> string" where
  "discovery_url registry_url =
     rev (dropWhile (\<lambda>c. c = CHR ''/'') (rev registry_url)) @ ''/v1/health/service/modelmirrors?passing=true''"

definition discover_mirrors ::
  "json_lib \<Rightarrow> net_os \<Rightarrow> (nat \<Rightarrow> exn option) \<Rightarrow> string \<Rightarrow> int \<Rightarrow> MirrorServiceInfo list outcome option" where
  "discover_mirrors L os reserve registry_url timeout =
     (case http_get os reserve (discovery_url registry_url) timeout of
        None \<Rightarrow> None
      | Some (Inl x) \<Rightarrow> Some (Inl x)
      | Some (Inr (Inl e)) \<Rightarrow> Some (Inr (Inr []))
      | Some (Inr (Inr body)) \<Rightarrow> Some (Inr (Inr (parse_registry_entries L body))))"

text \<open>The pin of one attempt: an override wins over the advertised pin, and an empty one is no pin.\<close>

definition attempt_options :: "TlsOptions \<Rightarrow> string option \<Rightarrow> MirrorServiceInfo \<Rightarrow> TlsOptions" where
  "attempt_options tls pin_override cand =
     (let pin = (case pin_override of Some p \<Rightarrow> p | None \<Rightarrow> (case svc_cert cand of Some p \<Rightarrow> p | None \<Rightarrow> []))
      in tls\<lparr> tls_pin := (if pin = [] then None else Some pin) \<rparr>)"

fun join_diagnostics :: "string list \<Rightarrow> string" where
  "join_diagnostics [] = []"
| "join_diagnostics [d] = d"
| "join_diagnostics (d # e # ds) = d @ ''; '' @ join_diagnostics (e # ds)"

type_synonym tls_env = "nat \<Rightarrow> ssl_os \<times> tls_peer"

definition try_candidate :: "tls_env \<Rightarrow> TlsOptions \<Rightarrow> string option \<Rightarrow> nat \<Rightarrow> MirrorServiceInfo \<Rightarrow> TlsTransport result option" where
  "try_candidate env tls pin_override i cand =
     connect_tls (fst (env i)) (snd (env i)) (svc_host cand) (svc_port cand) (attempt_options tls pin_override cand)"

fun try_candidates ::
  "tls_env \<Rightarrow> TlsOptions \<Rightarrow> string option \<Rightarrow> nat \<Rightarrow> string list \<Rightarrow> MirrorServiceInfo list \<Rightarrow> TlsTransport result option" where
  "try_candidates env tls pin_override i diagnostics [] =
     Some (Inl (make_error EK_registry (''all registry candidates failed: '' @ join_diagnostics diagnostics)))"
| "try_candidates env tls pin_override i diagnostics (cand # cands) =
     (case try_candidate env tls pin_override i cand of
        None \<Rightarrow> None
      | Some (Inr t) \<Rightarrow> Some (Inr t)
      | Some (Inl e) \<Rightarrow> try_candidates env tls pin_override (i + 1)
          (diagnostics @ [svc_host cand @ '':'' @ nat_to_string (unat (svc_port cand)) @ '': '' @ err_message e]) cands)"

definition connect_from_registry ::
  "json_lib \<Rightarrow> net_os \<Rightarrow> (nat \<Rightarrow> exn option) \<Rightarrow> tls_env \<Rightarrow> string \<Rightarrow> TlsOptions \<Rightarrow> string option \<Rightarrow> int
    \<Rightarrow> TlsTransport outcome option" where
  "connect_from_registry L os reserve env registry_url tls pin_override timeout =
     (case discover_mirrors L os reserve registry_url timeout of
        None \<Rightarrow> None
      | Some (Inl x) \<Rightarrow> Some (Inl x)
      | Some (Inr (Inl e)) \<Rightarrow> Some (Inr (Inl e))
      | Some (Inr (Inr cands)) \<Rightarrow>
          (if cands = [] then Some (Inr (Inl (make_error EK_registry
             (''no mirror candidates discovered from '' @ registry_url))))
           else map_option Inr (try_candidates env tls pin_override 0 [] cands)))"

section \<open>Pins\<close>

definition pin_form :: "string \<Rightarrow> bool" where
  "pin_form p = (length p = 64 \<and> list_all is_lower_hex p)"

lemma registry_normalize_pin_form: "registry_normalize_pin raw = Some p \<Longrightarrow> pin_form p"
  by (auto simp: registry_normalize_pin_def pin_form_def Let_def split: if_splits)

lemma lower_hex_no_space: "list_all is_lower_hex p \<Longrightarrow> trim p = p"
  by (rule trim_no_space) (auto simp: list_all_iff dest: lower_hex_not_space)

lemma registry_normalize_pin_id: "pin_form p \<Longrightarrow> registry_normalize_pin p = Some p"
  using to_lower_id [of p] lower_hex_no_space [of p]
  by (simp add: pin_form_def registry_normalize_pin_def Let_def to_lower_def)

text \<open>A pin accepted by the registry client is accepted unchanged by the TLS client.\<close>

lemma pin_form_tls: "pin_form p \<Longrightarrow> tls_normalize_pin p = Inr p"
  by (simp add: pin_form_def tls_normalize_pin_id)

section \<open>Sound entries\<close>

definition entry_sound :: "MirrorServiceInfo \<Rightarrow> bool" where
  "entry_sound info = (svc_host info \<noteq> [] \<and> trim (svc_host info) = svc_host info \<and> svc_port info \<noteq> 0
     \<and> (\<forall>p. svc_cert info = Some p \<longrightarrow> pin_form p))"

lemma service_port_nonzero:
  assumes "service_port svc = Some p"
  shows "p \<noteq> 0"
proof -
  obtain w :: "64 word" where w: "p = scast w" "1 \<le> sint w" "sint w \<le> 65535"
    using assms by (auto simp: service_port_def Let_def not_less split: option.splits if_splits)
  have "uint (word_of_int (sint w) :: 16 word) = sint w"
    using w(2,3) by (simp add: uint_word_of_int_eq take_bit_int_eq_self del: of_int_sint)
  with w show ?thesis by auto
qed

lemma service_pin_form: "service_pin svc = Some (Some p) \<Longrightarrow> pin_form p"
  by (auto simp: service_pin_def split: option.splits if_splits Json.splits dest: registry_normalize_pin_form)

lemma service_host_trimmed: "service_host svc = Some h \<Longrightarrow> h \<noteq> [] \<and> trim h = h"
  by (auto simp: service_host_def split: option.splits if_splits Json.splits)

lemma parse_service_entry_parts:
  assumes "parse_service_entry entry = Some info"
  obtains svc where "jfind ''Service'' entry = Some svc" "service_host svc = Some (svc_host info)"
    "service_port svc = Some (svc_port info)" "service_pin svc = Some (svc_cert info)"
  using assms by (auto simp: parse_service_entry_def split: option.splits if_splits)

lemma parse_service_entry_sound:
  assumes "parse_service_entry entry = Some info"
  shows "entry_sound info"
proof -
  from parse_service_entry_parts [OF assms] obtain svc where
    "service_host svc = Some (svc_host info)" "service_port svc = Some (svc_port info)"
    "service_pin svc = Some (svc_cert info)" by metis
  then show ?thesis
    using service_host_trimmed service_port_nonzero service_pin_form unfolding entry_sound_def by metis
qed

lemma set_map_filter_mem: "y \<in> set (List.map_filter f xs) \<longleftrightarrow> (\<exists>x \<in> set xs. f x = Some y)"
  by (induction xs) (auto simp: map_filter_simps split: option.splits)

lemma parse_registry_entries_mem:
  assumes "info \<in> set (parse_registry_entries L body)"
  shows "\<exists>js entry. lib_parse L body = Inr (JArray js) \<and> entry \<in> set js \<and> parse_service_entry entry = Some info"
proof (cases "lib_parse L body")
  case (Inr j)
  then show ?thesis using assms by (cases j) (auto simp: parse_registry_entries_def set_map_filter_mem)
qed (use assms in \<open>simp add: parse_registry_entries_def\<close>)

section \<open>Candidates in order\<close>

lemma try_candidates_ok:
  "try_candidates env tls pin_override i diags cands = Some (Inr t) \<Longrightarrow>
    \<exists>k < length cands. try_candidate env tls pin_override (i + k) (cands ! k) = Some (Inr t)
      \<and> (\<forall>j < k. \<exists>e. try_candidate env tls pin_override (i + j) (cands ! j) = Some (Inl e))"
proof (induction cands arbitrary: i diags)
  case (Cons c cs)
  show ?case
  proof (cases "try_candidate env tls pin_override i c")
    case (Some r)
    show ?thesis
    proof (cases r)
      case (Inr t')
      then show ?thesis using Some Cons.prems by (intro exI [of _ 0]) simp
    next
      case (Inl e)
      with Some Cons.prems obtain k where k: "k < length cs"
        "try_candidate env tls pin_override (i + 1 + k) (cs ! k) = Some (Inr t)"
        "\<forall>j < k. \<exists>e. try_candidate env tls pin_override (i + 1 + j) (cs ! j) = Some (Inl e)"
        using Cons.IH by fastforce
      have "\<exists>e. try_candidate env tls pin_override (i + j) ((c # cs) ! j) = Some (Inl e)" if "j < Suc k" for j
        using that k(3) Some Inl by (cases j) simp_all
      with k(1,2) show ?thesis by (intro exI [of _ "Suc k"]) simp
    qed
  qed (use Cons.prems in simp)
qed simp

lemma try_candidates_error:
  "try_candidates env tls pin_override i diags cands = Some (Inl e) \<Longrightarrow> err_kind e = EK_registry"
  by (induction cands arbitrary: i diags) (auto split: option.splits sum.splits)

text \<open>The pin of the caller's TLS options plays no part: each attempt replaces it.\<close>

lemma registry_option_pin:
  "connect_from_registry L os reserve env url (tls\<lparr> tls_pin := p \<rparr>) pin_override timeout
    = connect_from_registry L os reserve env url tls pin_override timeout"
proof -
  have opts: "attempt_options (tls\<lparr> tls_pin := p \<rparr>) pin_override cand = attempt_options tls pin_override cand" for cand
    by (simp add: attempt_options_def Let_def)
  have t: "try_candidates env (tls\<lparr> tls_pin := p \<rparr>) pin_override i diags cands
      = try_candidates env tls pin_override i diags cands" for i diags cands
    by (induction cands arbitrary: i diags) (simp_all add: try_candidate_def opts split: option.split sum.split)
  show ?thesis unfolding connect_from_registry_def t ..
qed

section \<open>Properties\<close>

text \<open>C40: Every candidate taken from a registry answer is usable as it stands: its host is non-empty and
  trimmed, its port is not zero, and a pin it carries consists of 64 lower-case hex digits, so that the
  TLS client accepts it unchanged. It comes from an entry of the answer, and if that entry advertises a
  \<^verbatim>\<open>cert-sha256\<close>, the candidate carries it: a broken advertisement never turns into an unpinned
  candidate.\<close>

theorem registry_candidates_sound:
  assumes "info \<in> set (parse_registry_entries L body)"
  shows "entry_sound info \<and> (\<forall>p. svc_cert info = Some p \<longrightarrow> tls_normalize_pin p = Inr p)
    \<and> (\<exists>js entry svc. lib_parse L body = Inr (JArray js) \<and> entry \<in> set js \<and> jfind ''Service'' entry = Some svc
        \<and> (\<forall>kvs v. jfind ''Meta'' svc = Some (JObject kvs) \<and> map_of kvs ''cert-sha256'' = Some v \<longrightarrow>
             (\<exists>raw p. v = JString raw \<and> registry_normalize_pin raw = Some p \<and> svc_cert info = Some p)))"
proof -
  from parse_registry_entries_mem [OF assms] obtain js entry where
    e: "lib_parse L body = Inr (JArray js)" "entry \<in> set js" "parse_service_entry entry = Some info" by blast
  from parse_service_entry_parts [OF e(3)] obtain svc where
    svc: "jfind ''Service'' entry = Some svc" "service_pin svc = Some (svc_cert info)" by metis
  have sound: "entry_sound info" by (rule parse_service_entry_sound [OF e(3)])
  have "\<exists>raw p. v = JString raw \<and> registry_normalize_pin raw = Some p \<and> svc_cert info = Some p"
    if "jfind ''Meta'' svc = Some (JObject kvs)" "map_of kvs ''cert-sha256'' = Some v" for kvs v
    using svc(2) that by (cases v) (auto simp: service_pin_def is_object_def jfind_def)
  with e svc sound pin_form_tls show ?thesis unfolding entry_sound_def by blast
qed

definition sample_entry :: Json where
  "sample_entry = JObject [(''Service'', JObject [(''Address'', JString '' 10.0.0.7''),
     (''Meta'', JObject [(''cert-sha256'', JString (replicate 64 CHR ''A''))]), (''Port'', JUnsigned 7000)])]"

definition registry_lib :: json_lib where
  "registry_lib = ref_lib [(''answer'', JArray [JNull, sample_entry])]"

definition sample_info :: MirrorServiceInfo where
  "sample_info = \<lparr> svc_id = [], svc_host = ''10.0.0.7'', svc_port = 7000, svc_cert = Some (replicate 64 CHR ''a'') \<rparr>"

lemma sample_entry_parsed: "parse_service_entry sample_entry = Some sample_info"
  by code_simp

lemma sample_registry_answer: "parse_registry_entries registry_lib ''answer'' = [sample_info]"
proof -
  have "lib_parse registry_lib ''answer'' = Inr (JArray [JNull, sample_entry])" by code_simp
  moreover have "parse_service_entry JNull = None" by code_simp
  ultimately show ?thesis
    by (simp add: parse_registry_entries_def map_filter_simps sample_entry_parsed)
qed

theorem registry_candidates_sound_witness:
  "parse_registry_entries registry_lib ''answer'' = [sample_info] \<and> entry_sound sample_info
    \<and> tls_normalize_pin (replicate 64 CHR ''a'') = Inr (replicate 64 CHR ''a'')"
  using registry_candidates_sound [of sample_info registry_lib "''answer''"] sample_registry_answer
  by (simp add: sample_info_def)

lemma http_body_throws: "http_body reserve hs s = Some (Inl x) \<Longrightarrow> \<exists>n. reserve n = Some x"
  by (auto simp: http_body_def sock_read_n_def sock_read_until_eof_def
      split: option.splits if_splits prod.splits)

lemma http_get_throws: "http_get os reserve url timeout = Some (Inl x) \<Longrightarrow> \<exists>n. reserve n = Some x"
  by (auto simp: http_get_def http_response_def split: sum.splits option.splits prod.splits dest: http_body_throws)

lemma discover_outcome:
  assumes "discover_mirrors L os reserve url timeout = Some r"
  shows "(\<exists>ms. r = Inr (Inr ms) \<and> list_all entry_sound ms) \<or> (\<exists>x n. r = Inl x \<and> reserve n = Some x)"
proof -
  have sound: "list_all entry_sound (parse_registry_entries L body)" for body
    using parse_registry_entries_mem [of _ L body] parse_service_entry_sound by (fastforce simp: list_all_iff)
  show ?thesis
    using assms http_get_throws [of os reserve "discovery_url url" timeout]
    by (auto simp: discover_mirrors_def sound split: option.splits sum.splits)
qed

text \<open>Discovery fails closed, with one exception. \<^verbatim>\<open>discover_mirrors\<close> never reports an error: whatever the
  network, the HTTP response and the JSON text do, it returns a list of sound candidates, empty on every
  failure - unless reserving memory for the announced body length throws, and then that exception
  escapes.\<close>

theorem discover_fails_closed:
  assumes "discover_mirrors L os reserve url timeout = Some r"
  shows "(\<exists>ms. r = Inr (Inr ms) \<and> list_all entry_sound ms) \<or> (\<exists>x n. r = Inl x \<and> reserve n = Some x)"
  using discover_outcome [OF assms] .

text \<open>The discovery address of a plain registry host.\<close>

lemma sample_discovery_url:
  "parse_url (discovery_url ''http://consul:8500/'')
     = Inr (''consul'', 8500, ''/v1/health/service/modelmirrors?passing=true'')"
  by code_simp

definition sample_answer :: "read_event list" where
  "sample_answer = [RData (''HTTP/1.1 200 OK'' @ crlf @ ''Content-Length: 6''), RData (crlf @ crlf @ ''answer'')]"

lemma sample_discovery:
  "discover_mirrors registry_lib (sample_net sample_answer) (\<lambda>n. None) ''http://consul:8500/'' 5000
     = Some (Inr (Inr [sample_info]))"
proof -
  have te: "header_value [''Content-Length: 6''] ''Transfer-Encoding'' = None" by code_simp
  have cl: "header_value [''Content-Length: 6''] ''Content-Length'' = Some (nat_to_string (length ''answer''))" by code_simp
  have "http_get (sample_net sample_answer) (\<lambda>n. None) (discovery_url ''http://consul:8500/'') 5000
      = Some (Inr (Inr ''answer''))"
    by (rule http_get_exact [OF sample_discovery_url sample_net_connect _ _ _ _ _ te cl])
      (simp_all add: sample_net_def accepting_def header_line_def kMaxProtocolLineBytes_def sample_answer_def)
  then show ?thesis by (simp add: discover_mirrors_def sample_registry_answer)
qed

theorem discover_fails_closed_witness:
  "discover_mirrors registry_lib (sample_net sample_answer) (\<lambda>n. None) ''http://consul:8500/'' 5000
     = Some (Inr (Inr [sample_info])) \<and> list_all entry_sound [sample_info]"
  using discover_fails_closed [OF sample_discovery] sample_discovery by simp

text \<open>The escape is in the hands of the server. A \<^verbatim>\<open>200 OK\<close> answer that announces a length for which
  \<^verbatim>\<open>std::string::reserve\<close> throws makes \<^verbatim>\<open>discover_mirrors\<close> throw that exception instead of returning an
  empty list.\<close>

theorem announced_length_escapes:
  assumes "parse_url (discovery_url url) = Inr (host, port, path)"
    "sock_connect os host port timeout = Inr (connected_socket (evs, outs))"
    "os_set_rcvtimeo os (timeout sdiv 1000) ((timeout smod 1000) * 1000) = None" "accepting outs"
    "data_only evs" "script_bytes evs = ''HTTP/1.1 200 OK'' @ crlf @ http_lines hs @ crlf @ body"
    "list_all header_line hs" "header_value hs ''Transfer-Encoding'' = None"
    "header_value hs ''Content-Length'' = Some cl" "parse_decimal cl = Some (int n)" "reserve n = Some x"
  shows "discover_mirrors L os reserve url timeout = Some (Inl x)"
proof -
  from http_get_connected [OF assms(1-6), of reserve] obtain s where
    s: "delivers s (''HTTP/1.1 200 OK'' @ crlf @ http_lines hs @ crlf @ body)"
    "http_get os reserve (discovery_url url) timeout = http_response reserve path s" by blast
  from response_body [OF s(1) assms(7), of reserve path] obtain s' where
    s': "delivers s' body" "http_response reserve path s = http_body reserve hs s'" by blast
  have "http_body reserve hs s' = Some (Inl x)"
    using s'(1) assms(8-11) by (simp add: http_body_def sock_read_n_def delivers_def)
  with s(2) s'(2) show ?thesis by (simp add: discover_mirrors_def)
qed

theorem announced_length_escapes_witness:
  "discover_mirrors registry_lib
     (sample_net [RData (''HTTP/1.1 200 OK'' @ crlf @ ''Content-Length: 9223372036854775807'' @ crlf @ crlf)])
     (\<lambda>n. if n > 2 ^ 62 then Some (StdException ''basic_string::_M_create'') else None) ''http://consul:8500/'' 5000
     = Some (Inl (StdException ''basic_string::_M_create''))"
proof -
  let ?h = "''Content-Length: 9223372036854775807''"
  have te: "header_value [?h] ''Transfer-Encoding'' = None" by code_simp
  have cl: "header_value [?h] ''Content-Length'' = Some ''9223372036854775807''" by code_simp
  have n: "parse_decimal ''9223372036854775807'' = Some (int 9223372036854775807)"
    by (simp add: parse_decimal_def c_str_def strtoll_def Let_def decimal_val_def digit_val_def char_class_defs
        saturate_def long_max_def long_min_def)
  show ?thesis
    by (rule announced_length_escapes [where body = "[]", OF sample_discovery_url sample_net_connect _ _ _ _ _ te cl n])
      (simp_all add: sample_net_def accepting_def header_line_def kMaxProtocolLineBytes_def)
qed


definition registry_peer :: tls_peer where
  "registry_peer = sample_peer\<lparr> peer_digest := Some (replicate 32 0xAA) \<rparr>"

lemma sample_attempt:
  "\<exists>t. try_candidate (\<lambda>i. (sample_ssl_os, registry_peer)) default_tls_options None 0 sample_info = Some (Inr t)"
proof -
  let ?pin = "replicate 64 CHR ''a''" and ?tls = "default_tls_options\<lparr> tls_pin := Some (replicate 64 CHR ''a'') \<rparr>"
  have opts: "attempt_options default_tls_options None sample_info = ?tls"
    by (simp add: attempt_options_def sample_info_def)
  have hex: "hex_string (replicate 32 0xAA) = ?pin" by code_simp
  have "pin_form ?pin" by code_simp
  then have "normalize_opt_pin (tls_pin ?tls) = Inr (Some ?pin)"
    by (simp add: normalize_opt_pin_def pin_form_tls)
  then have "ssl_prepare sample_ssl_os ''10.0.0.7'' 7000 ?tls = Inr (Some ?pin)"
    by (simp add: ssl_prepare_def sample_ssl_os_def check_key_mode_def default_tls_options_def
        ssl_context_def sock_connect_def ssl_verify_name_def check_ssl_def check_flag_def Let_def)
  moreover have "handshake_with_deadline (handshake_timeout ?tls) (peer_handshake registry_peer) = Some (Inr ())"
    by (simp add: handshake_with_deadline_def default_tls_options_def registry_peer_def sample_peer_def)
  ultimately show ?thesis
    unfolding try_candidate_def opts
    by (simp add: connect_tls_def ssl_connect_def ssl_peer_fingerprint_def registry_peer_def hex sample_info_def)
qed


end
