(* ===== verification/Cli_Validate.thy ===== *)
theory Cli_Validate
  imports Registry Spec_Resolver Stepping_Flows
begin

text \<open>
  \<^verbatim>\<open>cli/validate.cpp\<close>, the \<^verbatim>\<open>mirrorcpp-validate\<close> program: argument parsing, connection, and the exit code,
  in a TLS build. Everything outside the program is one environment record; a run ends with an exit code
  and the two output texts, or with an exception that leaves \<^verbatim>\<open>main\<close> (the process is terminated).
\<close>

section \<open>Options\<close>

record Options =
  o_has_host :: bool
  o_host :: string
  o_port :: "16 word"
  o_has_registry :: bool
  o_registry :: string
  o_tls :: bool
  o_cert :: string
  o_key :: string
  o_ca :: string
  o_pin :: "string option"
  o_spec :: string
  o_deps :: "string list"
  o_bound :: "64 word"
  o_invariant :: string
  o_init :: "string option"
  o_next :: "string option"
  o_const_init :: "string option"
  o_show_help :: bool

definition default_options :: Options where
  "default_options = \<lparr> o_has_host = False, o_host = [], o_port = 0, o_has_registry = False, o_registry = [],
     o_tls = False, o_cert = [], o_key = [], o_ca = [], o_pin = None, o_spec = [], o_deps = [], o_bound = 10,
     o_invariant = [], o_init = None, o_next = None, o_const_init = None, o_show_help = False \<rparr>"

definition cli_message :: "string \<Rightarrow> string" where
  "cli_message m = ''mirrorcpp-validate: '' @ m @ [newline]"

definition quoted :: "string \<Rightarrow> string" where
  "quoted s = [CHR 0x27] @ s @ [CHR 0x27]"

definition parse_port :: "string \<Rightarrow> 16 word option" where
  "parse_port s = (case parse_decimal s of
     Some v \<Rightarrow> (if port_in_range v then Some (word_of_int v) else None)
   | None \<Rightarrow> None)"

definition value_flags :: "string list" where
  "value_flags = [''--host'', ''--port'', ''--registry'', ''--spec'', ''--dep'', ''--bound'', ''--inv'', ''--init'',
     ''--next'', ''--cinit'', ''--cert'', ''--key'', ''--ca'', ''--pin'']"

text \<open>What a flag does with its value.\<close>

definition set_option :: "string \<Rightarrow> string \<Rightarrow> Options \<Rightarrow> string + Options" where
  "set_option a v opts =
     (if a = ''--host'' then Inr (opts\<lparr> o_host := v, o_has_host := True \<rparr>)
      else if a = ''--port'' then
        (case parse_port v of
           Some p \<Rightarrow> Inr (opts\<lparr> o_port := p \<rparr>)
         | None \<Rightarrow> Inl (cli_message (''bad --port '' @ quoted v @ '' (1..65535)'')))
      else if a = ''--registry'' then Inr (opts\<lparr> o_registry := v, o_has_registry := True \<rparr>)
      else if a = ''--spec'' then Inr (opts\<lparr> o_spec := v \<rparr>)
      else if a = ''--dep'' then Inr (opts\<lparr> o_deps := o_deps opts @ [v] \<rparr>)
      else if a = ''--bound'' then
        (case parse_decimal v of
           Some b \<Rightarrow> (if b < 0 then Inl (cli_message (''bad --bound '' @ quoted v))
                      else Inr (opts\<lparr> o_bound := word_of_int b \<rparr>))
         | None \<Rightarrow> Inl (cli_message (''bad --bound '' @ quoted v)))
      else if a = ''--inv'' then Inr (opts\<lparr> o_invariant := v \<rparr>)
      else if a = ''--init'' then Inr (opts\<lparr> o_init := Some v \<rparr>)
      else if a = ''--next'' then Inr (opts\<lparr> o_next := Some v \<rparr>)
      else if a = ''--cinit'' then Inr (opts\<lparr> o_const_init := Some v \<rparr>)
      else if a = ''--cert'' then Inr (opts\<lparr> o_cert := v \<rparr>)
      else if a = ''--key'' then Inr (opts\<lparr> o_key := v \<rparr>)
      else if a = ''--ca'' then Inr (opts\<lparr> o_ca := v \<rparr>)
      else Inr (opts\<lparr> o_pin := Some v \<rparr>))"

text \<open>The loop over the arguments after the program name.\<close>

fun parse_flags :: "string list \<Rightarrow> Options \<Rightarrow> string + Options" where
  "parse_flags [] opts = Inr opts"
| "parse_flags (a # rest) opts =
     (if a = ''--help'' \<or> a = ''-h'' then parse_flags rest (opts\<lparr> o_show_help := True \<rparr>)
      else if a = ''--tls'' then parse_flags rest (opts\<lparr> o_tls := True \<rparr>)
      else if a \<in> set value_flags then
        (case rest of
           [] \<Rightarrow> Inl (cli_message (''missing value for '' @ a))
         | v # rest' \<Rightarrow> (case set_option a v opts of Inl m \<Rightarrow> Inl m | Inr opts' \<Rightarrow> parse_flags rest' opts'))
      else Inl (cli_message (''unknown option '' @ quoted a)))"

definition check_options :: "Options \<Rightarrow> string + Options" where
  "check_options opts =
     (if o_spec opts = [] then Inl (cli_message ''--spec is required'')
      else if o_has_registry opts \<and> o_has_host opts
        then Inl (cli_message ''--registry is mutually exclusive with --host/--port'')
      else if \<not> o_has_registry opts \<and> \<not> o_has_host opts
        then Inl (cli_message ''need --host/--port or --registry'')
      else if o_pin opts \<noteq> None \<and> \<not> o_tls opts then Inl (cli_message ''--pin requires --tls'')
      else Inr opts)"

definition parse_args :: "string list \<Rightarrow> string + Options" where
  "parse_args args = rbind (parse_flags args default_options) check_options"

section \<open>Connecting\<close>

text \<open>\<^verbatim>\<open>std::unique_ptr<Transport>\<close>: one of the two transports, with virtual dispatch.\<close>

datatype cli_transport = CliTcp TcpTransport | CliTls TlsTransport

definition cli_ops :: "cli_transport transport_ops" where
  "cli_ops = \<lparr>
     send_line = (\<lambda>t l. case t of
         CliTcp u \<Rightarrow> map_prod CliTcp id (send_line tcp_ops u l)
       | CliTls u \<Rightarrow> map_prod CliTls id (send_line tls_ops u l)),
     recv_line = (\<lambda>t. case t of
         CliTcp u \<Rightarrow> map_option (map_prod CliTcp id) (recv_line tcp_ops u)
       | CliTls u \<Rightarrow> map_option (map_prod CliTls id) (recv_line tls_ops u)),
     close_transport = (\<lambda>t. case t of
         CliTcp u \<Rightarrow> map_option (map_prod CliTcp id) (close_transport tcp_ops u)
       | CliTls u \<Rightarrow> map_option (map_prod CliTls id) (close_transport tls_ops u)),
     async_capable = (\<lambda>t. case t of CliTcp u \<Rightarrow> async_capable tcp_ops u | CliTls u \<Rightarrow> async_capable tls_ops u) \<rparr>"

record cli_env =
  ce_lib :: json_lib
  ce_fs :: fsys
  ce_net :: net_os
  ce_reserve :: "nat \<Rightarrow> exn option"
  ce_tls :: tls_env

definition make_tls_options :: "Options \<Rightarrow> TlsOptions" where
  "make_tls_options opts = default_tls_options\<lparr> ca_path := o_ca opts, cert_path := o_cert opts,
     key_path := o_key opts, tls_pin := o_pin opts \<rparr>"

definition no_tls_files :: "Options \<Rightarrow> bool" where
  "no_tls_files opts = (o_cert opts = [] \<or> o_key opts = [] \<or> o_ca opts = [])"

text \<open>The default timeouts are 5 s for discovery and 10 s for connecting.\<close>

definition cli_connect :: "cli_env \<Rightarrow> Options \<Rightarrow> cli_transport outcome option" where
  "cli_connect env opts =
     (if o_has_registry opts then
        (if \<not> o_tls opts then
           Some (Inr (Inl (make_error EK_tls ''--registry requires --tls with --cert/--key/--ca'')))
         else if no_tls_files opts then
           Some (Inr (Inl (make_error EK_tls ''--registry --tls requires --cert, --key and --ca'')))
         else map_option (\<lambda>r. obind r (\<lambda>t. Inr (Inr (CliTls t))))
           (connect_from_registry (ce_lib env) (ce_net env) (ce_reserve env) (ce_tls env) (o_registry opts)
              (make_tls_options opts) None 5000))
      else if o_tls opts then
        (if no_tls_files opts then
           Some (Inr (Inl (make_error EK_tls ''--tls requires --cert, --key and --ca'')))
         else map_option (\<lambda>r. Inr (rbind r (\<lambda>t. Inr (CliTls t))))
           (connect_tls (fst (ce_tls env 0)) (snd (ce_tls env 0)) (o_host opts) (o_port opts) (make_tls_options opts)))
      else Some (Inr (rbind (connect_tcp (ce_net env) (o_host opts) (o_port opts) 10000) (\<lambda>t. Inr (CliTcp t)))))"

section \<open>The program\<close>

record cli_exit =
  exit_code :: nat
  exit_out :: string
  exit_err :: string

definition usage_text :: string where
  "usage_text = concat (map (\<lambda>l. l @ [newline]) [
     ''usage: mirrorcpp-validate'',
     ''  --host H --port P [--tls --cert C --key K --ca CA [--pin SHA256]]'',
     ''       | --registry URL [--tls --cert C --key K --ca CA [--pin SHA256]]'',
     ''  --spec S.tla (required) [--dep D.tla]...'',
     ''  [--bound N (default 10)] [--inv I] [--init P] [--next P] [--cinit C]'',
     '''',
     ''Resolve the spec inline via spec_from_files (EXTENDS/INSTANCE closure);'',
     ''--dep files'' @ [CHR 0x27] @ '' directories are searched for dependencies.'',
     ''--registry implies mTLS discovery and is mutually exclusive with --host/--port.'',
     ''--pin requires --tls.'',
     ''Exit codes: 0 = VALID, 1 = INVALID, 2 = infrastructure error.''])"

definition cli_usage :: cli_exit where
  "cli_usage = \<lparr> exit_code = 0, exit_out = usage_text, exit_err = [] \<rparr>"

definition error2 :: "string \<Rightarrow> cli_exit" where
  "error2 m = \<lparr> exit_code = 2, exit_out = [], exit_err = cli_message (c_str m) \<rparr>"

definition dep_dirs :: "Options \<Rightarrow> string list" where
  "dep_dirs opts = filter (\<lambda>d. d \<noteq> []) (map parent_path (o_deps opts))"

definition validate_config :: "Options \<Rightarrow> ApalacheConfig" where
  "validate_config opts = \<lparr> spec_path = o_spec opts, init_predicate = o_init opts, next_predicate = o_next opts,
     const_init = o_const_init opts, invariant = o_invariant opts, length_bound = o_bound opts, param_vars = [] \<rparr>"

definition verdict_exit :: "ValidateVerdict \<Rightarrow> cli_exit" where
  "verdict_exit v =
     (if vv_valid v then \<lparr> exit_code = 0, exit_out = ''VALID'' @ [newline], exit_err = [] \<rparr>
      else \<lparr> exit_code = 1, exit_out = ''INVALID'' @ [newline] @ c_str (vv_detail v) @ [newline], exit_err = [] \<rparr>)"

definition cli_validate :: "cli_env \<Rightarrow> Options \<Rightarrow> ApalacheSpec \<Rightarrow> cli_transport \<Rightarrow> (exn + cli_exit) option" where
  "cli_validate env opts spec t =
     (case run_client_validate cli_ops (ce_lib env) (validate_config opts) (o_bound opts) (Some spec) t of
        None \<Rightarrow> None
      | Some (t', Inl x) \<Rightarrow> Some (Inl x)
      | Some (t', Inr (Inl e)) \<Rightarrow> Some (Inr (error2 (''validate failed: '' @ err_message e)))
      | Some (t', Inr (Inr v)) \<Rightarrow> Some (Inr (verdict_exit v)))"

definition cli_main :: "cli_env \<Rightarrow> string list \<Rightarrow> (exn + cli_exit) option" where
  "cli_main env args =
     (if ''--help'' \<in> set args \<or> ''-h'' \<in> set args then Some (Inr cli_usage)
      else (case parse_args args of
          Inl m \<Rightarrow> Some (Inr \<lparr> exit_code = 2, exit_out = [], exit_err = m \<rparr>)
        | Inr opts \<Rightarrow>
            (case spec_from_files (ce_fs env) (o_spec opts) (dep_dirs opts) of
               None \<Rightarrow> None
             | Some (Inl e) \<Rightarrow> Some (Inr (error2 (''spec resolution failed: '' @ err_message e)))
             | Some (Inr spec) \<Rightarrow>
                 (case cli_connect env opts of
                    None \<Rightarrow> None
                  | Some (Inl x) \<Rightarrow> Some (Inl x)
                  | Some (Inr (Inl e)) \<Rightarrow> Some (Inr (error2 (''connect failed: '' @ err_message e)))
                  | Some (Inr (Inr t)) \<Rightarrow> cli_validate env opts spec t))))"

section \<open>The dispatching transport\<close>

definition cli_boundary :: "cli_transport \<Rightarrow> bool" where
  "cli_boundary t = (case t of CliTcp u \<Rightarrow> tcp_boundary u | CliTls u \<Rightarrow> tls_boundary u)"

definition cli_sent :: "cli_transport \<Rightarrow> string list" where
  "cli_sent t = (case t of CliTcp u \<Rightarrow> tcp_sent u | CliTls u \<Rightarrow> tls_sent u)"

definition cli_open :: "cli_transport \<Rightarrow> bool" where
  "cli_open t = (case t of CliTcp u \<Rightarrow> tcp_open u | CliTls u \<Rightarrow> tls_open u)"

lemmas cli_defs = cli_boundary_def cli_sent_def cli_open_def

lemma cli_send_cases:
  "send_line cli_ops t l = (t', r) \<longleftrightarrow>
    (\<exists>u u'. t = CliTcp u \<and> t' = CliTcp u' \<and> send_line tcp_ops u l = (u', r))
    \<or> (\<exists>u u'. t = CliTls u \<and> t' = CliTls u' \<and> send_line tls_ops u l = (u', r))"
  by (cases t) (auto simp: cli_ops_def map_prod_def split: prod.splits)

lemma cli_recv_cases:
  "recv_line cli_ops t = Some (t', r) \<longleftrightarrow>
    (\<exists>u u'. t = CliTcp u \<and> t' = CliTcp u' \<and> recv_line tcp_ops u = Some (u', r))
    \<or> (\<exists>u u'. t = CliTls u \<and> t' = CliTls u' \<and> recv_line tls_ops u = Some (u', r))"
  by (cases t) (auto simp: cli_ops_def)

lemma cli_close_cases:
  "close_transport cli_ops t = Some (t', c) \<longleftrightarrow>
    (\<exists>u u'. t = CliTcp u \<and> t' = CliTcp u' \<and> close_transport tcp_ops u = Some (u', c))
    \<or> (\<exists>u u'. t = CliTls u \<and> t' = CliTls u' \<and> close_transport tls_ops u = Some (u', c))"
  by (cases t) (auto simp: cli_ops_def)

interpretation cli: line_transport cli_ops cli_boundary cli_sent cli_open
proof
  fix t t' l u e and r :: "string result" and q :: "unit result" and c :: "64 word result"
  show "cli_boundary t' \<and> cli_sent t' = cli_sent t @ [l]" if "send_line cli_ops t l = (t', Inr u)" "cli_boundary t"
    using that tcp.send_ok tls.send_ok by (auto simp: cli_send_cases cli_defs)
  show "valid_line l" if "send_line cli_ops t l = (t', Inr u)"
    using that tcp.send_ok_valid tls.send_ok_valid by (auto simp: cli_send_cases)
  show "cli_sent t' = cli_sent t" if "send_line cli_ops t l = (t', Inl e)" "cli_boundary t"
    using that tcp.send_error tls.send_error by (auto simp: cli_send_cases cli_defs)
  show "cli_sent t' = cli_sent t \<and> (cli_boundary t' \<longleftrightarrow> cli_boundary t)" if "recv_line cli_ops t = Some (t', r)"
    using that tcp.recv_silent tls.recv_silent by (auto simp: cli_recv_cases cli_defs)
  show "cli_open t' \<longleftrightarrow> cli_open t" if "send_line cli_ops t l = (t', q)"
    using that tcp.send_open tls.send_open by (auto simp: cli_send_cases cli_defs)
  show "cli_open t' \<longleftrightarrow> cli_open t" if "recv_line cli_ops t = Some (t', r)"
    using that tcp.recv_open tls.recv_open by (auto simp: cli_recv_cases cli_defs)
  show "\<not> cli_open t' \<and> cli_sent t' = cli_sent t" if "close_transport cli_ops t = Some (t', c)"
    using that tcp.close_closes tls.close_closes by (auto simp: cli_close_cases cli_defs)
  show "\<exists>e. send_line cli_ops t l = (t, Inl e)" if "\<not> cli_open t"
    using that tcp.closed_send [of _ l] tls.closed_send [of _ l]
    by (cases t) (simp_all add: cli_send_cases cli_defs)
  show "\<exists>e. recv_line cli_ops t = Some (t, Inl e)" if "\<not> cli_open t"
    using that tcp.closed_recv tls.closed_recv by (cases t) (simp_all add: cli_recv_cases cli_defs)
qed

section \<open>One-shot flows close\<close>

context line_transport
begin

text \<open>A one-shot flow that does not throw leaves the transport closed, and on success has sent exactly its
  registration.\<close>

lemma one_shot_closed:
  assumes "one_shot ops L reg classify t = Some (t', Inr r)" "guard_sent Ph_idle reg = (p, Inr u)" "boundary t"
  shows "\<not> is_open t' \<and> (\<forall>v. r = Inr v \<longrightarrow> (\<exists>line. encode_client_message L reg = Inr line \<and> sent t' = sent t @ [line]))"
proof -
  obtain t1 q where send: "send_message ops L t reg = (t1, q)" by fastforce
  show ?thesis
  proof (cases q)
    case (Inl x)
    then show ?thesis using assms(1,2) send by (simp add: one_shot_def)
  next
    case (Inr q')
    show ?thesis
    proof (cases q')
      case (Inl e)
      then show ?thesis using assms(1,2) send \<open>q = Inr q'\<close>
        by (auto simp: one_shot_def dest: close_and_closed)
    next
      case (Inr u')
      with send \<open>q = Inr q'\<close> obtain line where line: "encode_client_message L reg = Inr line"
        "send_line ops t line = (t1, Inr u')"
        by (auto simp: send_message_def split: sum.splits prod.splits)
      then have s1: "sent t1 = sent t @ [line]" using send_ok [OF line(2) assms(3)] by simp
      obtain t2 rl where rl: "recv_line ops t1 = Some (t2, rl)"
        using assms(1,2) send \<open>q = Inr q'\<close> Inr by (auto simp: one_shot_def split: option.splits)
      then have s2: "sent t2 = sent t @ [line]" using recv_silent s1 by simp
      have "close_and ops t2 r' = Some (t', Inr r) \<Longrightarrow> \<not> is_open t' \<and> sent t' = sent t @ [line]" for r'
        using close_and_closed [of t2 r' t' "Inr r"] s2 by simp
      then show ?thesis
        using assms(1,2) send \<open>q = Inr q'\<close> Inr rl line(1)
        by (auto simp: one_shot_def split: sum.splits prod.splits)
    qed
  qed
qed

end

section \<open>Fresh connections\<close>

lemma connect_loop_fresh: "connect_loop ms m as = Inr s \<Longrightarrow> \<exists>io. s = connected_socket io"
  by (induction as arbitrary: m) (auto split: address.splits poll_result.splits so_error.splits)

lemma sock_connect_fresh: "sock_connect os host port timeout = Inr s \<Longrightarrow> \<exists>io. s = connected_socket io"
  by (auto simp: sock_connect_def Let_def simp del: split_paired_Ex split: sum.splits dest: connect_loop_fresh)

lemma ssl_connect_fresh: "ssl_connect os peer host port opts = Some (Inr s) \<Longrightarrow> ssl_wire s = []"
  by (auto simp: ssl_connect_def ssl_peer_fingerprint_def Let_def split: sum.splits option.splits if_splits)

lemma obind_eq_value: "obind r f = Inr (Inr v) \<longleftrightarrow> (\<exists>x. r = Inr (Inr x) \<and> f x = Inr (Inr v))"
  by (auto simp: obind_def split: sum.splits)

lemma connect_tls_fresh:
  assumes "connect_tls os peer host port opts = Some (Inr t)"
  shows "ssl_wire (tls_stream t) = []"
  using assms by (auto simp: connect_tls_def result_splits dest: ssl_connect_fresh)

lemma registry_fresh:
  assumes "connect_from_registry L os reserve env url tls pin_override timeout = Some (Inr (Inr t))"
  shows "ssl_wire (tls_stream t) = []"
proof -
  from assms obtain cands where "try_candidates env tls pin_override 0 [] cands = Some (Inr t)"
    by (auto simp: connect_from_registry_def split: option.splits sum.splits if_splits)
  from try_candidates_ok [OF this] show ?thesis by (auto simp: try_candidate_def dest: connect_tls_fresh)
qed

lemma fresh_boundary:
  "ssl_wire (tls_stream u) = [] \<Longrightarrow> cli_boundary (CliTls u) \<and> cli_sent (CliTls u) = []"
  "sk_wire (tcp_sock w) = [] \<Longrightarrow> cli_boundary (CliTcp w) \<and> cli_sent (CliTcp w) = []"
  by (simp_all add: cli_defs tls_boundary_def tls_sent_def tcp_boundary_def tcp_sent_def split_lines_no_newline)

lemma cli_connect_fresh:
  assumes "cli_connect env opts = Some (Inr (Inr t))"
  shows "cli_boundary t \<and> cli_sent t = []"
proof (cases "o_has_registry opts \<or> o_tls opts")
  case True
  then obtain u where u: "t = CliTls u" "ssl_wire (tls_stream u) = []"
    using assms
    by (auto simp: cli_connect_def obind_eq_value result_splits split: if_splits
        dest: registry_fresh connect_tls_fresh)
  then show ?thesis using fresh_boundary(1) by simp
next
  case False
  then obtain u where u: "t = CliTcp u" "connect_tcp (ce_net env) (o_host opts) (o_port opts) 10000 = Inr u"
    using assms by (auto simp: cli_connect_def result_splits)
  then obtain s io where "u = \<lparr> tcp_sock = s, tcp_closed = False \<rparr>" "s = connected_socket io"
    using sock_connect_fresh by (fastforce simp: connect_tcp_def result_splits)
  then show ?thesis using u(1) fresh_boundary(2) [of u] by (simp add: connected_socket_def)
qed

section \<open>Writing options down\<close>

definition opt_flag :: "string \<Rightarrow> string option \<Rightarrow> string list" where
  "opt_flag a v = (case v of None \<Rightarrow> [] | Some x \<Rightarrow> [a, x])"

text \<open>A command line for given options.\<close>

definition render_options :: "Options \<Rightarrow> string list" where
  "render_options opts =
     (if o_has_host opts then [''--host'', o_host opts] else [])
     @ (if o_port opts \<noteq> 0 then [''--port'', nat_to_string (unat (o_port opts))] else [])
     @ (if o_has_registry opts then [''--registry'', o_registry opts] else [])
     @ (if o_tls opts then [''--tls''] else [])
     @ [''--cert'', o_cert opts, ''--key'', o_key opts, ''--ca'', o_ca opts]
     @ opt_flag ''--pin'' (o_pin opts)
     @ [''--spec'', o_spec opts]
     @ concat (map (\<lambda>d. [''--dep'', d]) (o_deps opts))
     @ [''--bound'', nat_to_string (unat (o_bound opts)), ''--inv'', o_invariant opts]
     @ opt_flag ''--init'' (o_init opts) @ opt_flag ''--next'' (o_next opts) @ opt_flag ''--cinit'' (o_const_init opts)"

text \<open>The options a successful parse can produce.\<close>

definition options_ok :: "Options \<Rightarrow> bool" where
  "options_ok opts = (o_spec opts \<noteq> [] \<and> (o_has_host opts \<longleftrightarrow> \<not> o_has_registry opts)
     \<and> (o_pin opts \<noteq> None \<longrightarrow> o_tls opts) \<and> 0 \<le> sint (o_bound opts)
     \<and> (o_has_host opts \<or> o_host opts = []) \<and> (o_has_registry opts \<or> o_registry opts = []))"

lemma parse_flags_tls [simp]: "parse_flags (''--tls'' # rest) opts = parse_flags rest (opts\<lparr> o_tls := True \<rparr>)"
  by simp

lemma parse_flags_value:
  assumes "a \<in> set value_flags"
  shows "parse_flags (a # v # rest) opts = rbind (set_option a v opts) (parse_flags rest)"
proof -
  have "a \<noteq> ''--help'' \<and> a \<noteq> ''-h'' \<and> a \<noteq> ''--tls''" using assms by (auto simp: value_flags_def)
  with assms show ?thesis by (simp split: sum.split)
qed

lemma parse_flags_values [simp]:
  "parse_flags (''--host'' # v # rest) opts = parse_flags rest (opts\<lparr> o_host := v, o_has_host := True \<rparr>)"
  "parse_flags (''--registry'' # v # rest) opts = parse_flags rest (opts\<lparr> o_registry := v, o_has_registry := True \<rparr>)"
  "parse_flags (''--spec'' # v # rest) opts = parse_flags rest (opts\<lparr> o_spec := v \<rparr>)"
  "parse_flags (''--dep'' # v # rest) opts = parse_flags rest (opts\<lparr> o_deps := o_deps opts @ [v] \<rparr>)"
  "parse_flags (''--inv'' # v # rest) opts = parse_flags rest (opts\<lparr> o_invariant := v \<rparr>)"
  "parse_flags (''--init'' # v # rest) opts = parse_flags rest (opts\<lparr> o_init := Some v \<rparr>)"
  "parse_flags (''--next'' # v # rest) opts = parse_flags rest (opts\<lparr> o_next := Some v \<rparr>)"
  "parse_flags (''--cinit'' # v # rest) opts = parse_flags rest (opts\<lparr> o_const_init := Some v \<rparr>)"
  "parse_flags (''--cert'' # v # rest) opts = parse_flags rest (opts\<lparr> o_cert := v \<rparr>)"
  "parse_flags (''--key'' # v # rest) opts = parse_flags rest (opts\<lparr> o_key := v \<rparr>)"
  "parse_flags (''--ca'' # v # rest) opts = parse_flags rest (opts\<lparr> o_ca := v \<rparr>)"
  "parse_flags (''--pin'' # v # rest) opts = parse_flags rest (opts\<lparr> o_pin := Some v \<rparr>)"
  by (subst parse_flags_value; simp add: value_flags_def set_option_def)+

lemma parse_flags_port [simp]:
  assumes "p \<noteq> 0"
  shows "parse_flags (''--port'' # nat_to_string (unat p) # rest) opts = parse_flags rest (opts\<lparr> o_port := p \<rparr>)"
proof -
  have lt: "uint p < 65536" using unsigned_less [of p, where ?'a = int] by simp
  have "1 \<le> uint p" using assms by (metis int_one_le_iff_zero_less unsigned_eq_0_iff unsigned_greater_eq less_le)
  moreover have "parse_decimal (nat_to_string (unat p)) = Some (int (unat p))"
    by (rule parse_decimal_nat_to_string) (use lt in \<open>simp add: long_max_def\<close>)
  ultimately have "parse_port (nat_to_string (unat p)) = Some p"
    using lt by (simp add: parse_port_def port_in_range_def)
  then show ?thesis by (subst parse_flags_value) (simp_all add: value_flags_def set_option_def)
qed

lemma sint_nonneg_uint: "0 \<le> sint (w :: 64 word) \<Longrightarrow> uint w \<le> long_max"
proof -
  assume "0 \<le> sint w"
  then have "uint w = sint w"
    using sint_lt [of w] by (subst uint_sint) (simp add: take_bit_int_eq_self del: uint_sint [symmetric])
  then show ?thesis using sint_lt [of w] by (simp add: long_max_def)
qed

lemma parse_flags_bound [simp]:
  assumes "0 \<le> sint b"
  shows "parse_flags (''--bound'' # nat_to_string (unat b) # rest) opts = parse_flags rest (opts\<lparr> o_bound := b \<rparr>)"
proof -
  have "parse_decimal (nat_to_string (unat b)) = Some (int (unat b))"
    by (rule parse_decimal_nat_to_string) (use sint_nonneg_uint [OF assms] in simp)
  then show ?thesis by (subst parse_flags_value) (simp_all add: value_flags_def set_option_def)
qed

declare parse_flags.simps(2) [simp del]

lemma parse_flags_deps:
  "parse_flags (concat (map (\<lambda>d. [''--dep'', d]) ds) @ rest) opts = parse_flags rest (opts\<lparr> o_deps := o_deps opts @ ds \<rparr>)"
  by (induction ds arbitrary: opts) simp_all

lemma parse_flags_opt:
  "parse_flags (opt_flag ''--pin'' v @ rest) opts = parse_flags rest (if v = None then opts else opts\<lparr> o_pin := v \<rparr>)"
  "parse_flags (opt_flag ''--init'' v @ rest) opts = parse_flags rest (if v = None then opts else opts\<lparr> o_init := v \<rparr>)"
  "parse_flags (opt_flag ''--next'' v @ rest) opts = parse_flags rest (if v = None then opts else opts\<lparr> o_next := v \<rparr>)"
  "parse_flags (opt_flag ''--cinit'' v @ rest) opts = parse_flags rest (if v = None then opts else opts\<lparr> o_const_init := v \<rparr>)"
  by (cases v; simp add: opt_flag_def)+

section \<open>Properties\<close>

text \<open>A run that reaches a verdict: the arguments parse, the specification resolves, the connection is made
  and the mirror answers the validation request, which is the only line sent; the transport is closed.\<close>

definition validated :: "cli_env \<Rightarrow> string list \<Rightarrow> ValidateVerdict \<Rightarrow> bool" where
  "validated env args v =
     (\<exists>opts spec t t' line. parse_args args = Inr opts
        \<and> spec_from_files (ce_fs env) (o_spec opts) (dep_dirs opts) = Some (Inr spec)
        \<and> cli_connect env opts = Some (Inr (Inr t))
        \<and> run_client_validate cli_ops (ce_lib env) (validate_config opts) (o_bound opts) (Some spec) t = Some (t', Inr (Inr v))
        \<and> encode_client_message (ce_lib env) (RegisterValidate (validate_config opts) (o_bound opts) (Some spec)) = Inr line
        \<and> cli_sent t' = [line] \<and> \<not> cli_open t')"

lemma guard_sent_validate: "guard_sent Ph_idle (RegisterValidate c b sp) = (Ph_validating, Inr ())"
  by (simp add: guard_sent_def client_message_name_def is_reg_tag_def)

lemma validatedI:
  assumes "parse_args args = Inr opts" "spec_from_files (ce_fs env) (o_spec opts) (dep_dirs opts) = Some (Inr spec)"
    "cli_connect env opts = Some (Inr (Inr t))"
    "run_client_validate cli_ops (ce_lib env) (validate_config opts) (o_bound opts) (Some spec) t = Some (t', Inr (Inr v))"
  shows "validated env args v"
  using cli.one_shot_closed [OF assms(4) [unfolded run_client_validate_def] guard_sent_validate]
    cli_connect_fresh [OF assms(3)] assms unfolding validated_def by auto

text \<open>The verdict of a run is determined by its arguments and environment.\<close>

lemma validated_unique: "validated env args v \<Longrightarrow> validated env args w \<Longrightarrow> v = w"
  unfolding validated_def by auto

lemma cli_main_cases:
  assumes "cli_main env args = Some (Inr ex)" "''--help'' \<notin> set args" "''-h'' \<notin> set args"
  shows "(\<exists>v. validated env args v \<and> ex = verdict_exit v) \<or> (exit_code ex = 2 \<and> (\<nexists>v. validated env args v))"
proof (cases "parse_args args")
  case (Inl m)
  then show ?thesis using assms by (auto simp: cli_main_def validated_def)
next
  case parsed: (Inr opts)
  show ?thesis
  proof (cases "spec_from_files (ce_fs env) (o_spec opts) (dep_dirs opts)")
    case None
    then show ?thesis using assms parsed by (simp add: cli_main_def)
  next
    case spec: (Some sr)
    show ?thesis
    proof (cases sr)
      case (Inl e)
      then show ?thesis using assms parsed spec by (auto simp: cli_main_def validated_def error2_def)
    next
      case sp: (Inr sp)
      obtain cr where cr: "cli_connect env opts = Some (Inr cr)"
        using assms parsed spec sp by (auto simp: cli_main_def split: option.splits sum.splits)
      show ?thesis
      proof (cases cr)
        case (Inl e)
        then show ?thesis using assms parsed spec sp cr by (auto simp: cli_main_def validated_def error2_def)
      next
        case (Inr t)
        then obtain t' r where r: "run_client_validate cli_ops (ce_lib env) (validate_config opts) (o_bound opts) (Some sp) t
            = Some (t', Inr r)" "ex = (case r of Inl e \<Rightarrow> error2 (''validate failed: '' @ err_message e) | Inr v \<Rightarrow> verdict_exit v)"
          using assms parsed spec sp cr
          by (auto simp: cli_main_def cli_validate_def split: option.splits sum.splits prod.splits)
        show ?thesis
        proof (cases r)
          case (Inl e)
          then show ?thesis using r parsed spec sp cr Inr by (auto simp: validated_def error2_def)
        next
          case v: (Inr v)
          then show ?thesis
            using r validatedI [OF parsed spec [unfolded sp] cr [unfolded Inr], of t' v] by auto
        qed
      qed
    qed
  qed
qed

text \<open>C36: The exit code of \<^verbatim>\<open>mirrorcpp-validate\<close> means what its usage says. A run that returns (no exception
  leaves \<^verbatim>\<open>main\<close>) and was not asked for help exits with 0 exactly when the mirror judged the specification
  valid, with 1 exactly when it judged it invalid, and with 2 exactly when no verdict was reached; in the
  first two cases the validation request was the only line sent and the connection is closed.\<close>

theorem cli_exit_code:
  assumes "cli_main env args = Some (Inr ex)" "''--help'' \<notin> set args" "''-h'' \<notin> set args"
  shows "(exit_code ex = 0 \<longleftrightarrow> (\<exists>v. validated env args v \<and> vv_valid v))
    \<and> (exit_code ex = 1 \<longleftrightarrow> (\<exists>v. validated env args v \<and> \<not> vv_valid v))
    \<and> (exit_code ex = 2 \<longleftrightarrow> (\<nexists>v. validated env args v))"
  using cli_main_cases [OF assms]
proof
  assume "\<exists>v. validated env args v \<and> ex = verdict_exit v"
  then obtain v where v: "validated env args v" "ex = verdict_exit v" by blast
  then have "validated env args w \<longleftrightarrow> w = v" for w using validated_unique by blast
  then show ?thesis using v(2) by (simp add: verdict_exit_def)
qed auto

text \<open>A run over TCP on a one-module specification, against a mirror that answers with a positive verdict.\<close>

definition cli_args :: "string list" where
  "cli_args = [''--host'', ''h'', ''--port'', ''7000'', ''--spec'', ''/m/S.tla'']"

definition cli_sample :: cli_env where
  "cli_sample = \<lparr> ce_lib = session_lib, ce_fs = table_fs [(''/m/S.tla'', ''x == 1'')],
     ce_net = sample_net [RData (frame [''v''])], ce_reserve = (\<lambda>n. None), ce_tls = (\<lambda>i. (sample_ssl_os, sample_peer)) \<rparr>"

definition cli_sample_options :: Options where
  "cli_sample_options = default_options\<lparr> o_has_host := True, o_host := ''h'', o_port := 7000, o_spec := ''/m/S.tla'' \<rparr>"

lemma cli_sample_parse: "parse_args cli_args = Inr cli_sample_options"
  by code_simp

lemma cli_sample_spec:
  "spec_from_files (table_fs [(''/m/S.tla'', ''x == 1'')]) ''/m/S.tla'' [] = Some (Inr \<lparr> spec_sources = [''x == 1''] \<rparr>)"
  by code_simp

lemma cli_sample_line:
  "\<exists>line. encode_client_message session_lib (RegisterValidate (validate_config cli_sample_options) 10
      (Some \<lparr> spec_sources = [''x == 1''] \<rparr>)) = Inr line \<and> valid_line line"
proof -
  let ?m = "RegisterValidate (validate_config cli_sample_options) 10 (Some \<lparr> spec_sources = [''x == 1''] \<rparr>)"
  have "json_bytes (client_json session_lib ?m) \<le> kMaxProtocolLineBytes"
    by (simp add: client_json_def client_fields_def jobject_def om_build_def encode_apalache_config_def encode_spec_def
        validate_config_def cli_sample_options_def default_options_def opt_field_def json_strings_def json_of_ll_def
        client_message_name_def kMaxProtocolLineBytes_def)
  from session_lib_prints [OF this] show ?thesis by blast
qed

lemma cli_sample_connect:
  "cli_connect cli_sample cli_sample_options = Some (Inr (Inr (CliTcp (sample_tcp [RData (frame [''v''])] []))))"
  by (simp add: cli_connect_def cli_sample_options_def default_options_def cli_sample_def connect_tcp_def
      sample_net_connect connected_socket_def sample_tcp_def)

lemma cli_sample_run: "cli_main cli_sample cli_args = Some (Inr (verdict_exit \<lparr> vv_valid = True, vv_detail = [] \<rparr>))"
proof -
  let ?t = "CliTcp (sample_tcp [RData (frame [''v''])] [])" and ?spec = "\<lparr> spec_sources = [''x == 1''] \<rparr>"
  obtain line where line: "encode_client_message session_lib (RegisterValidate (validate_config cli_sample_options) 10
      (Some ?spec)) = Inr line" "valid_line line"
    using cli_sample_line by blast
  have dec: "decode_mirror_message session_lib ''v'' = Inr (Inr (SpecValidated None))"
    using session_lib_decodes(1) by (simp add: decodes_def)
  have "\<exists>t'. run_client_validate cli_ops session_lib (validate_config cli_sample_options) 10 (Some ?spec) ?t
      = Some (t', Inr (Inr \<lparr> vv_valid = True, vv_detail = [] \<rparr>))"
    using line dec
    by (simp add: run_client_validate_def one_shot_def guard_sent_validate send_message_def cli_ops_def tcp_ops_def
        tcp_send_line_def sample_tcp_def reject_embedded_newline_ok [of _ "()", THEN iffD2] sock_write_all_def
        tcp_recv_line_def sock_read_line_def read_line_from_fd.simps [of _ "[]"]
        read_line_from_fd.simps [of _ "''v'' @ [newline]", simplified] kMaxProtocolLineBytes_def
        guard_received_def guard_visit_def mirror_message_name_def close_and_def tcp_close_def classify_validate_def)
  moreover have "dep_dirs cli_sample_options = []" "o_spec cli_sample_options = ''/m/S.tla''" "o_bound cli_sample_options = 10"
    by (simp_all add: dep_dirs_def cli_sample_options_def default_options_def)
  moreover have "''--help'' \<notin> set cli_args" "''-h'' \<notin> set cli_args"
    "ce_fs cli_sample = table_fs [(''/m/S.tla'', ''x == 1'')]" "ce_lib cli_sample = session_lib"
    by (simp_all add: cli_args_def cli_sample_def)
  ultimately show ?thesis
    using cli_sample_parse cli_sample_spec cli_sample_connect by (auto simp: cli_main_def cli_validate_def)
qed

theorem cli_exit_code_witness:
  "exit_code (verdict_exit \<lparr> vv_valid = True, vv_detail = [] \<rparr>) = 0 \<and> (\<exists>v. validated cli_sample cli_args v \<and> vv_valid v)"
proof -
  have "''--help'' \<notin> set cli_args" "''-h'' \<notin> set cli_args" by (simp_all add: cli_args_def)
  from cli_exit_code [OF cli_sample_run this] show ?thesis by (simp add: verdict_exit_def)
qed

text \<open>Although the usage text offers \<^verbatim>\<open>--pin\<close> together with \<^verbatim>\<open>--registry\<close>, the pin has no effect there: with
  \<^verbatim>\<open>--registry\<close> the connection is the same for every value of \<^verbatim>\<open>--pin\<close>, because the pin is passed in the TLS
  options, whose pin the registry client replaces.\<close>

theorem cli_registry_pin_ignored:
  assumes "o_has_registry opts"
  shows "cli_connect env (opts\<lparr> o_pin := p \<rparr>) = cli_connect env opts"
proof -
  have "make_tls_options (opts\<lparr> o_pin := p \<rparr>) = (make_tls_options opts)\<lparr> tls_pin := p \<rparr>"
    by (simp add: make_tls_options_def)
  then show ?thesis using assms by (simp add: cli_connect_def no_tls_files_def registry_option_pin)
qed

theorem cli_registry_pin_ignored_witness:
  "cli_connect cli_sample (default_options\<lparr> o_has_registry := True, o_pin := Some ''00'' \<rparr>)
    = cli_connect cli_sample (default_options\<lparr> o_has_registry := True \<rparr>)"
  using cli_registry_pin_ignored [of "default_options\<lparr> o_has_registry := True \<rparr>" cli_sample "Some ''00''"] by simp

lemma parse_render_flags:
  assumes "options_ok opts"
  shows "parse_flags (render_options opts) default_options = Inr (opts\<lparr> o_show_help := False \<rparr>)"
proof -
  have b: "0 \<le> sint (o_bound opts)" using assms by (simp add: options_ok_def)
  note flags = parse_flags_deps parse_flags_opt parse_flags_bound [OF b]
  have tail: "parse_flags (opt_flag ''--cinit'' v) o' = Inr (if v = None then o' else o'\<lparr> o_const_init := v \<rparr>)" for v o'
    using parse_flags_opt(4) [of v "[]" o'] by simp
  show ?thesis
    using assms unfolding render_options_def options_ok_def
    by (cases "o_has_registry opts"; cases "o_port opts = 0"; cases "o_tls opts")
      (simp_all add: flags tail default_options_def)
qed

text \<open>Any consistent set of options can be given on the command line: writing the options down as flags and
  parsing them returns exactly the same options. In particular numbers survive the \<^verbatim>\<open>strtol\<close> conversions,
  repeated \<^verbatim>\<open>--dep\<close> flags keep their order, and no flag value is taken for a flag.\<close>

theorem cli_options_roundtrip:
  assumes "options_ok opts" "\<not> o_show_help opts"
  shows "parse_args (render_options opts) = Inr opts"
proof -
  have eq: "opts\<lparr> o_show_help := False \<rparr> = opts" using assms(2) by (cases opts) simp
  have "check_options opts = Inr opts"
    using assms(1) unfolding check_options_def options_ok_def by presburger
  then show ?thesis unfolding parse_args_def parse_render_flags [OF assms(1)] eq by simp
qed

theorem cli_options_roundtrip_witness:
  "parse_args (render_options (cli_sample_options\<lparr> o_deps := [''a/A.tla'', ''--tls''], o_init := Some ''Init'' \<rparr>))
    = Inr (cli_sample_options\<lparr> o_deps := [''a/A.tla'', ''--tls''], o_init := Some ''Init'' \<rparr>)"
  by (rule cli_options_roundtrip) (simp_all add: options_ok_def cli_sample_options_def default_options_def)

end
