(* ===== verification/Schedule_Admission.thy ===== *)
theory Schedule_Admission
  imports Schedule_Format
begin

text \<open>
  The adapter's declarations, the execution policy, outcomes and cleanup states of
  \<^verbatim>\<open>include/mirrorcpp/schedule.hpp\<close>, and \<^verbatim>\<open>Execution::Impl::admit\<close> of \<^verbatim>\<open>src/schedule.cpp\<close>: the static
  admission of a whole schedule before any application code runs. \<open>schedule_admissible\<close> states what an
  admitted schedule is without reference to the loop of the code.
\<close>

section \<open>Data\<close>

record ActorDeclaration =
  decl_actor :: string
  decl_operation :: string

record Policy =
  max_actors :: nat
  max_steps :: nat
  execution_timeout :: int
  cleanup_timeout :: int

datatype Outcome =
    OutCompleted | OutInvalidSchedule | OutIncompatibleIdentity | OutCancelled | OutTimedOut
  | OutUnexpectedCheckpoint | OutUncontrolledActor | OutApplicationFailed | OutObservationFailed | OutResourceFailed

datatype Cleanup = CleanNotStarted | CleanConfirmed | CleanIncomplete | CleanTeardownFailed

fun outcome_name :: "Outcome \<Rightarrow> string" where
  "outcome_name OutCompleted = ''completed''"
| "outcome_name OutInvalidSchedule = ''invalid_schedule''"
| "outcome_name OutIncompatibleIdentity = ''incompatible_identity''"
| "outcome_name OutCancelled = ''cancelled''"
| "outcome_name OutTimedOut = ''timed_out''"
| "outcome_name OutUnexpectedCheckpoint = ''unexpected_checkpoint''"
| "outcome_name OutUncontrolledActor = ''uncontrolled_actor''"
| "outcome_name OutApplicationFailed = ''application_failed''"
| "outcome_name OutObservationFailed = ''observation_failed''"
| "outcome_name OutResourceFailed = ''resource_failed''"

fun cleanup_name :: "Cleanup \<Rightarrow> string" where
  "cleanup_name CleanNotStarted = ''not_started''"
| "cleanup_name CleanConfirmed = ''confirmed''"
| "cleanup_name CleanIncomplete = ''incomplete''"
| "cleanup_name CleanTeardownFailed = ''teardown_failed''"

text \<open>Budgets are milliseconds; the bound is 24 hours.\<close>

definition valid_budget :: "int \<Rightarrow> bool" where
  "valid_budget ms = (0 < ms \<and> ms \<le> 86400000)"

text \<open>What the factory returns, seen from the scheduler: the workers' names and whether each carries a
  function, and whether the observer and the teardown are present.\<close>

record Program =
  prog_workers :: "(string \<times> bool) list"
  prog_observe :: bool
  prog_teardown :: bool

record Adapter =
  adapter_identity :: Identity
  adapter_actors :: "ActorDeclaration list"
  adapter_checkpoints :: "string list"
  adapter_factory :: "(Json \<Rightarrow> string option + Program) option"

section \<open>Admission\<close>

datatype admission =
    Admitted "ActorDeclaration list" "string set"
  | Refused Outcome string
  | AdmitThrows string

fun declared_actors :: "string set \<Rightarrow> ActorDeclaration list \<Rightarrow> string set option" where
  "declared_actors seen [] = Some seen"
| "declared_actors seen (a # as) =
     (if \<not> schedule_identifier (decl_actor a) \<or> \<not> schedule_identifier (decl_operation a) \<or> decl_actor a \<in> seen
      then None else declared_actors (insert (decl_actor a) seen) as)"

fun declared_checkpoints :: "string set \<Rightarrow> string list \<Rightarrow> string set option" where
  "declared_checkpoints seen [] = Some seen"
| "declared_checkpoints seen (c # cs) =
     (if \<not> schedule_identifier c \<or> c \<in> seen then None else declared_checkpoints (insert c seen) cs)"

fun step_admission :: "string set \<Rightarrow> string set \<Rightarrow> string set \<Rightarrow> Step list \<Rightarrow> string + string set" where
  "step_admission actors cps fin [] = Inr fin"
| "step_admission actors cps fin (s # ss) =
     (if step_actor s \<notin> actors \<or> step_actor s \<in> fin then Inl ''unknown actor or step after completion''
      else if step_checkpoint s = completion then step_admission actors cps (insert (step_actor s) fin) ss
      else if step_checkpoint s \<notin> cps then Inl ''undeclared schedule checkpoint''
      else step_admission actors cps fin ss)"

definition policy_bounds_ok :: "Policy \<Rightarrow> bool" where
  "policy_bounds_ok P = (max_actors P \<noteq> 0 \<and> max_actors P \<le> 64 \<and> max_steps P \<noteq> 0 \<and> max_steps P \<le> 65536
     \<and> valid_budget (execution_timeout P) \<and> valid_budget (cleanup_timeout P))"

definition declarations_admission :: "Adapter \<Rightarrow> Schedule \<Rightarrow> admission" where
  "declarations_admission A s =
     (case declared_actors {} (adapter_actors A) of
        None \<Rightarrow> Refused OutInvalidSchedule ''invalid or duplicate logical actor''
      | Some actors \<Rightarrow> (case declared_checkpoints {} (adapter_checkpoints A) of
          None \<Rightarrow> Refused OutInvalidSchedule ''invalid or duplicate checkpoint declaration''
        | Some cps \<Rightarrow> (case step_admission actors cps {} (sched_steps s) of
            Inl why \<Rightarrow> Refused OutInvalidSchedule why
          | Inr fin \<Rightarrow>
              (if fin \<noteq> actors then Refused OutInvalidSchedule ''every actor requires one terminal completion step''
               else Admitted (adapter_actors A) cps))))"

definition admit :: "schedule_lib \<Rightarrow> bool \<Rightarrow> Policy \<Rightarrow> Adapter \<Rightarrow> Schedule \<Rightarrow> admission" where
  "admit SL in_callback P A s =
     (if in_callback then Refused OutInvalidSchedule ''scheduler callbacks cannot reenter scheduling''
      else if \<not> policy_bounds_ok P then Refused OutInvalidSchedule ''invalid execution policy bounds''
      else if scheduling_profile s \<noteq> profile \<or> \<not> identity_valid (sched_identity s) \<or> \<not> identity_valid (adapter_identity A)
      then Refused OutInvalidSchedule ''invalid profile or identity syntax''
      else if sched_identity s \<noteq> adapter_identity A
      then Refused OutIncompatibleIdentity ''schedule and adapter identities differ''
      else if adapter_factory A = None \<or> adapter_actors A = [] \<or> length (adapter_actors A) > max_actors P
        \<or> length (adapter_checkpoints A) > max_steps P \<or> length (sched_steps s) > max_steps P
      then Refused OutInvalidSchedule ''missing factory or actor/step bounds exceeded''
      else (case encode_schedule SL s of
          Inl what \<Rightarrow> Refused OutInvalidSchedule what
        | Inr _ \<Rightarrow> (case sl_dump SL (sched_inputs s) of
            Inl what \<Rightarrow> AdmitThrows what
          | Inr text \<Rightarrow>
              (if length text > max_observation_bytes then Refused OutInvalidSchedule ''inputs exceed byte bound''
               else declarations_admission A s))))"

section \<open>What an admitted schedule is\<close>

text \<open>The checkpoints one actor is to reach, in order.\<close>

definition actor_plan :: "string \<Rightarrow> Step list \<Rightarrow> string list" where
  "actor_plan a ss = map step_checkpoint (filter (\<lambda>s. step_actor s = a) ss)"

text \<open>A complete plan: declared checkpoints, then the completion, and nothing after it.\<close>

definition plan_complete :: "string set \<Rightarrow> string list \<Rightarrow> bool" where
  "plan_complete cps plan = (plan \<noteq> [] \<and> last plan = completion \<and> set (butlast plan) \<subseteq> cps)"

definition plan_open :: "string set \<Rightarrow> string list \<Rightarrow> bool" where
  "plan_open cps plan = (set plan \<subseteq> cps)"

definition schedule_admissible :: "ActorDeclaration list \<Rightarrow> string list \<Rightarrow> Step list \<Rightarrow> bool" where
  "schedule_admissible as cps ss =
     (distinct (map decl_actor as) \<and> list_all (\<lambda>a. schedule_identifier (decl_actor a) \<and> schedule_identifier (decl_operation a)) as
      \<and> distinct cps \<and> list_all schedule_identifier cps
      \<and> step_actor ` set ss \<subseteq> decl_actor ` set as
      \<and> (\<forall>a \<in> decl_actor ` set as. plan_complete (set cps) (actor_plan a ss)))"

lemma declared_actors_iff:
  "declared_actors seen as = Some all \<longleftrightarrow> distinct (map decl_actor as) \<and> decl_actor ` set as \<inter> seen = {}
     \<and> list_all (\<lambda>a. schedule_identifier (decl_actor a) \<and> schedule_identifier (decl_operation a)) as
     \<and> all = seen \<union> decl_actor ` set as"
  by (induction as arbitrary: seen) auto

lemma declared_checkpoints_iff:
  "declared_checkpoints seen cs = Some all \<longleftrightarrow> distinct cs \<and> set cs \<inter> seen = {} \<and> list_all schedule_identifier cs
     \<and> all = seen \<union> set cs"
  by (induction cs arbitrary: seen) auto

lemma completion_not_identifier: "\<not> schedule_identifier completion"
  by code_simp

lemma actor_plan_Cons:
  "actor_plan a (s # ss) = (if step_actor s = a then step_checkpoint s # actor_plan a ss else actor_plan a ss)"
  by (simp add: actor_plan_def)

lemma actor_plan_Nil [simp]: "actor_plan a [] = []"
  by (simp add: actor_plan_def)

lemma plan_complete_Cons:
  assumes "completion \<notin> cps"
  shows "plan_complete cps (c # plan) \<longleftrightarrow> (if c = completion then plan = [] else c \<in> cps \<and> plan_complete cps plan)"
  using assms by (auto simp: plan_complete_def in_set_butlastD neq_Nil_conv)

lemma plan_open_Cons: "plan_open cps (c # plan) \<longleftrightarrow> c \<in> cps \<and> plan_open cps plan"
  by (simp add: plan_open_def)

text \<open>The loop over the steps, by what remains of every actor's plan: an actor that is done has none left,
  another one may only meet declared checkpoints, and is done afterwards when its plan is complete.\<close>

lemma step_admission_iff:
  assumes "completion \<notin> cps"
  shows "step_admission actors cps fin ss = Inr fin' \<longleftrightarrow>
    step_actor ` set ss \<subseteq> actors \<and> (\<forall>a \<in> fin. actor_plan a ss = [])
    \<and> (\<forall>a. a \<notin> fin \<longrightarrow> (if a \<in> fin' then plan_complete cps (actor_plan a ss) else plan_open cps (actor_plan a ss)))
    \<and> fin \<subseteq> fin'"
proof (induction ss arbitrary: fin)
  case Nil
  then show ?case by (auto simp: plan_complete_def plan_open_def)
next
  case (Cons s ss)
  let ?a = "step_actor s" and ?c = "step_checkpoint s"
  have shift: "actor_plan a (s # ss) = actor_plan a ss" if "a \<noteq> ?a" for a using that by (simp add: actor_plan_Cons)
  have own: "actor_plan ?a (s # ss) = ?c # actor_plan ?a ss" by (simp add: actor_plan_Cons)
  consider "?a \<notin> actors \<or> ?a \<in> fin" | "?a \<in> actors" "?a \<notin> fin" "?c = completion"
    | "?a \<in> actors" "?a \<notin> fin" "?c \<noteq> completion" "?c \<notin> cps" | "?a \<in> actors" "?a \<notin> fin" "?c \<noteq> completion" "?c \<in> cps"
    by blast
  then show ?case
  proof cases
    case 1
    then show ?thesis using own by auto
  next
    case 2
    have "step_admission actors cps fin (s # ss) = Inr fin' \<longleftrightarrow> step_admission actors cps (insert ?a fin) ss = Inr fin'"
      using 2 by simp
    also note Cons.IH
    also have "(step_actor ` set ss \<subseteq> actors \<and> (\<forall>a \<in> insert ?a fin. actor_plan a ss = [])
        \<and> (\<forall>a. a \<notin> insert ?a fin \<longrightarrow> (if a \<in> fin' then plan_complete cps (actor_plan a ss) else plan_open cps (actor_plan a ss)))
        \<and> insert ?a fin \<subseteq> fin') \<longleftrightarrow> (step_actor ` set (s # ss) \<subseteq> actors \<and> (\<forall>a \<in> fin. actor_plan a (s # ss) = [])
        \<and> (\<forall>a. a \<notin> fin \<longrightarrow> (if a \<in> fin' then plan_complete cps (actor_plan a (s # ss)) else plan_open cps (actor_plan a (s # ss))))
        \<and> fin \<subseteq> fin')"
      using 2 assms by (auto simp: actor_plan_Cons plan_complete_Cons plan_open_Cons split: if_splits)
    finally show ?thesis .
  next
    case 3
    then show ?thesis using own assms by (auto simp: plan_complete_Cons plan_open_Cons)
  next
    case 4
    then show ?thesis using Cons.IH [of fin] assms
      by (auto simp: actor_plan_Cons plan_complete_Cons plan_open_Cons split: if_splits)
  qed
qed

lemma step_admission_complete:
  assumes "completion \<notin> cps"
  shows "step_admission actors cps {} ss = Inr actors \<longleftrightarrow>
    step_actor ` set ss \<subseteq> actors \<and> (\<forall>a \<in> actors. plan_complete cps (actor_plan a ss))"
proof -
  have "plan_open cps (actor_plan a ss)" if "step_actor ` set ss \<subseteq> actors" "a \<notin> actors" for a
  proof -
    have "actor_plan a ss = []" using that by (auto simp: actor_plan_def filter_empty_conv)
    then show ?thesis by (simp add: plan_open_def)
  qed
  then show ?thesis by (auto simp: step_admission_iff [OF assms])
qed

lemma declarations_admission_iff:
  "declarations_admission A s = Admitted as cps \<longleftrightarrow> as = adapter_actors A \<and> cps = set (adapter_checkpoints A)
     \<and> schedule_admissible (adapter_actors A) (adapter_checkpoints A) (sched_steps s)"
proof (cases "distinct (adapter_checkpoints A) \<and> list_all schedule_identifier (adapter_checkpoints A)
    \<and> distinct (map decl_actor (adapter_actors A))
    \<and> list_all (\<lambda>a. schedule_identifier (decl_actor a) \<and> schedule_identifier (decl_operation a)) (adapter_actors A)")
  case True
  then have some: "declared_actors {} (adapter_actors A) = Some (decl_actor ` set (adapter_actors A))"
      "declared_checkpoints {} (adapter_checkpoints A) = Some (set (adapter_checkpoints A))"
    by (simp_all add: declared_actors_iff declared_checkpoints_iff)
  have "completion \<notin> set (adapter_checkpoints A)" using True completion_not_identifier by (auto simp: list_all_iff)
  from step_admission_complete [OF this, of "decl_actor ` set (adapter_actors A)" "sched_steps s"] some True show ?thesis
    by (cases "step_admission (decl_actor ` set (adapter_actors A)) (set (adapter_checkpoints A)) {} (sched_steps s)")
      (auto simp: declarations_admission_def schedule_admissible_def)
next
  case False
  then have "declared_actors {} (adapter_actors A) = None \<or> declared_checkpoints {} (adapter_checkpoints A) = None"
    by (metis declared_actors_iff declared_checkpoints_iff option.exhaust)
  with False show ?thesis
    by (auto simp: declarations_admission_def schedule_admissible_def split: option.splits)
qed

lemma admit_accepts:
  assumes "parse_print_law SL (schedule_json s)" "json_wf (sched_inputs s)"
  shows "admit SL in_callback P A s = Admitted as cps \<longleftrightarrow>
    \<not> in_callback \<and> policy_bounds_ok P \<and> schedule_ok s \<and> sched_identity s = adapter_identity A
    \<and> adapter_factory A \<noteq> None \<and> adapter_actors A \<noteq> [] \<and> length (adapter_actors A) \<le> max_actors P
    \<and> length (adapter_checkpoints A) \<le> max_steps P \<and> length (sched_steps s) \<le> max_steps P
    \<and> (\<exists>t. sl_dump SL (schedule_json s) = Inr t \<and> length t \<le> max_artifact_bytes)
    \<and> (\<exists>t. sl_dump SL (sched_inputs s) = Inr t \<and> length t \<le> max_observation_bytes)
    \<and> schedule_admissible (adapter_actors A) (adapter_checkpoints A) (sched_steps s)
    \<and> as = adapter_actors A \<and> cps = set (adapter_checkpoints A)"
proof (cases "\<exists>t. encode_schedule SL s = Inr t")
  case True
  then obtain t where enc: "encode_schedule SL s = Inr t" by blast
  then have "schedule_ok s \<and> sl_dump SL (schedule_json s) = Inr t \<and> length t \<le> max_artifact_bytes"
    using encode_schedule_Inr [OF assms] by simp
  with enc show ?thesis
    by (cases "sl_dump SL (sched_inputs s)")
      (auto simp: admit_def declarations_admission_iff schedule_ok_def)
next
  case False
  then obtain what where what: "encode_schedule SL s = Inl what" by (cases "encode_schedule SL s") auto
  with False have "\<not> (schedule_ok s \<and> (\<exists>t. sl_dump SL (schedule_json s) = Inr t \<and> length t \<le> max_artifact_bytes))"
    using encode_schedule_Inr [OF assms] by blast
  with what show ?thesis by (auto simp: admit_def)
qed

text \<open>C31: Admission accepts exactly the schedules that fit the policy and the adapter: sane bounds, the adapter's
  own identity, an encodable artifact, unique valid declarations, and for every declared actor a plan of
  declared checkpoints that ends in its only completion step.\<close>

theorem admit_iff:
  assumes "parse_print_law SL (schedule_json s)" "json_wf (sched_inputs s)"
  shows "admit SL in_callback P A s = Admitted as cps \<longleftrightarrow>
    \<not> in_callback \<and> policy_bounds_ok P \<and> schedule_ok s \<and> sched_identity s = adapter_identity A
    \<and> adapter_factory A \<noteq> None \<and> adapter_actors A \<noteq> [] \<and> length (adapter_actors A) \<le> max_actors P
    \<and> length (adapter_checkpoints A) \<le> max_steps P \<and> length (sched_steps s) \<le> max_steps P
    \<and> (\<exists>t. sl_dump SL (schedule_json s) = Inr t \<and> length t \<le> max_artifact_bytes)
    \<and> (\<exists>t. sl_dump SL (sched_inputs s) = Inr t \<and> length t \<le> max_observation_bytes)
    \<and> schedule_admissible (adapter_actors A) (adapter_checkpoints A) (sched_steps s)
    \<and> as = adapter_actors A \<and> cps = set (adapter_checkpoints A)"
  by (rule admit_accepts [OF assms])

definition sample_policy :: Policy where
  "sample_policy = \<lparr> max_actors = 16, max_steps = 4096, execution_timeout = 2000, cleanup_timeout = 1000 \<rparr>"

definition sample_adapter :: Adapter where
  "sample_adapter = \<lparr> adapter_identity = sample_identity, adapter_actors = [\<lparr> decl_actor = ''left'', decl_operation = ''inc'' \<rparr>, \<lparr> decl_actor = ''right'', decl_operation = ''inc'' \<rparr>],
     adapter_checkpoints = [''read''],
     adapter_factory = Some (\<lambda>_. Inr \<lparr> prog_workers = [(''left'', True), (''right'', True)], prog_observe = True, prog_teardown = True \<rparr>) \<rparr>"

lemma sample_admissible:
  "schedule_admissible (adapter_actors sample_adapter) (adapter_checkpoints sample_adapter) (sched_steps sample_schedule)"
  by code_simp

lemma sample_dumped:
  "length (ref_print (schedule_json sample_schedule)) \<le> max_artifact_bytes"
  "length (ref_print (sched_inputs sample_schedule)) \<le> max_observation_bytes"
proof -
  have "length (ref_print (schedule_json sample_schedule)) = 503" by code_simp
  moreover have "length (ref_print (sched_inputs sample_schedule)) = 2" by code_simp
  ultimately show "length (ref_print (schedule_json sample_schedule)) \<le> max_artifact_bytes"
    "length (ref_print (sched_inputs sample_schedule)) \<le> max_observation_bytes"
    by (simp_all add: max_artifact_bytes_def max_observation_bytes_def)
qed

lemma sample_admitted:
  "admit (ref_schedule_lib (schedule_json sample_schedule)) False sample_policy sample_adapter sample_schedule
    = Admitted (adapter_actors sample_adapter) (set (adapter_checkpoints sample_adapter))"
  using sample_schedule_ok sample_admissible sample_dumped
  by (subst admit_accepts [OF ref_schedule_lib_law])
    (simp_all add: sample_adapter_def sample_policy_def sample_schedule_def ref_schedule_lib_def policy_bounds_ok_def valid_budget_def)

theorem admit_iff_witness:
  "admit (ref_schedule_lib (schedule_json sample_schedule)) False sample_policy sample_adapter sample_schedule
    = Admitted (adapter_actors sample_adapter) (set (adapter_checkpoints sample_adapter))"
  using sample_schedule_ok sample_admissible sample_dumped
  by (subst admit_iff [OF ref_schedule_lib_law])
    (simp_all add: sample_adapter_def sample_policy_def sample_schedule_def ref_schedule_lib_def policy_bounds_ok_def valid_budget_def)

end
