(* ===== verification/Schedule_Execution.thy ===== *)
theory Schedule_Execution
  imports Schedule_Admission
begin

text \<open>
  The checkpoint coordinator of \<^verbatim>\<open>src/schedule.cpp\<close>: \<^verbatim>\<open>detail::Shared\<close>, \<^verbatim>\<open>Checkpoint\<close>, \<^verbatim>\<open>Execution\<close> and its
  worker threads. Every region of the code that runs under the mutex is one function on the state; the
  places where a thread is without it (the waits, the joins, the application's own code) are the program
  counters \<open>tpc\<close> and \<open>ctl\<close>, and \<open>exec_step\<close> interleaves the regions. What the code reads from outside, the
  clock, the stop token (an atomic that may change inside a region), the results of the factory, the
  observer and the teardown, are arguments of the functions. \<open>exec_reachable\<close> is the set of states some
  interleaving and some environment lead to.
\<close>

section \<open>Shared state and checkpoints\<close>

datatype ActorPhase = PhStarting | PhParked | PhRunning | PhFinished

record ActorState =
  act_decl :: ActorDeclaration
  act_phase :: ActorPhase
  act_thread :: "nat option"
  act_checkpoint :: string
  act_joined :: bool
  act_arrival :: "string option"

record Report =
  rep_outcome :: Outcome
  rep_detail :: string
  rep_schedule_completed :: bool
  rep_cleanup :: Cleanup
  rep_remaining :: "string list"
  rep_generation :: "64 word"
  rep_execution_id :: string
  rep_events :: "Json list"
  rep_observations :: "Json list"
  rep_attempts :: "Json list"

definition passed :: "Report \<Rightarrow> bool" where
  "passed r = (rep_outcome r = OutCompleted \<and> rep_schedule_completed r \<and> rep_cleanup r = CleanConfirmed)"

record Shared =
  sh_cancelled :: bool
  sh_stopping :: bool
  sh_failed :: bool
  sh_actors :: "ActorState list"
  sh_checkpoints :: "string set"
  sh_report :: Report

definition shared_fail :: "Outcome \<Rightarrow> string \<Rightarrow> Shared \<Rightarrow> Shared" where
  "shared_fail oc why sh =
     (if sh_failed sh then sh
      else sh\<lparr>sh_failed := True, sh_report := (sh_report sh)\<lparr>rep_outcome := oc, rep_detail := take 1024 why\<rparr>\<rparr>)"

definition upd_actor :: "nat \<Rightarrow> (ActorState \<Rightarrow> ActorState) \<Rightarrow> Shared \<Rightarrow> Shared" where
  "upd_actor i f sh = sh\<lparr>sh_actors := (sh_actors sh)[i := f (sh_actors sh ! i)]\<rparr>"

definition phase_of :: "Shared \<Rightarrow> nat \<Rightarrow> ActorPhase" where
  "phase_of sh i = act_phase (sh_actors sh ! i)"

datatype arrive_result = ArriveLogicError string | ArriveStopped | ArriveParked

text \<open>\<^verbatim>\<open>Checkpoint::arrive\<close> by the thread \<open>tid\<close> on the hook of actor \<open>i\<close>, up to the wait.\<close>

definition checkpoint_arrive :: "bool \<Rightarrow> nat \<Rightarrow> nat \<Rightarrow> string \<Rightarrow> Shared \<Rightarrow> arrive_result \<times> Shared" where
  "checkpoint_arrive in_observer tid i cp sh =
     (if in_observer then (ArriveLogicError ''observer cannot enter a checkpoint'', sh)
      else if act_thread (sh_actors sh ! i) \<noteq> Some tid \<or> phase_of sh i \<noteq> PhRunning
      then (ArriveStopped, shared_fail OutUncontrolledActor ''checkpoint called outside its owned actor'' sh)
      else if sh_stopping sh then (ArriveStopped, sh)
      else if \<not> schedule_identifier cp \<or> cp \<notin> sh_checkpoints sh
      then (ArriveStopped,
        shared_fail OutUnexpectedCheckpoint (''undeclared checkpoint: '' @ take 128 cp)
          (upd_actor i (\<lambda>a. a\<lparr>act_checkpoint := take 128 cp, act_arrival := Some (take 128 cp)\<rparr>) sh))
      else (ArriveParked,
        upd_actor i (\<lambda>a. a\<lparr>act_checkpoint := cp, act_arrival := Some cp, act_phase := PhParked\<rparr>) sh))"

text \<open>A parked thread goes on when it is permitted or stopped; \<open>Some True\<close> is a permit.\<close>

definition parked_wakes :: "nat \<Rightarrow> Shared \<Rightarrow> bool option" where
  "parked_wakes i sh = (if sh_stopping sh then Some False else if phase_of sh i = PhRunning then Some True else None)"

definition stop_requested :: "Shared \<Rightarrow> bool" where
  "stop_requested sh = sh_cancelled sh"

section \<open>Worker threads\<close>

definition thread_park :: "nat \<Rightarrow> nat \<Rightarrow> Shared \<Rightarrow> Shared" where
  "thread_park i tid sh = upd_actor i (\<lambda>a. a\<lparr>act_thread := Some tid, act_phase := PhParked\<rparr>) sh"

definition thread_catch :: "string option \<Rightarrow> Shared \<Rightarrow> Shared" where
  "thread_catch what sh = shared_fail OutApplicationFailed
     (case what of Some w \<Rightarrow> w | None \<Rightarrow> ''nonstandard actor exception'') sh"

definition thread_finish :: "nat \<Rightarrow> Shared \<Rightarrow> Shared" where
  "thread_finish i sh = upd_actor i (\<lambda>a. a\<lparr>act_checkpoint := completion,
     act_arrival := (case act_arrival a of None \<Rightarrow> Some completion | Some c \<Rightarrow> Some c), act_phase := PhFinished\<rparr>) sh"

section \<open>The execution and its controller\<close>

record Execution =
  ex_shared :: Shared
  ex_schedule :: Schedule
  ex_policy :: Policy
  ex_adapter :: Adapter
  ex_program :: Program
  ex_observation_bytes :: nat
  ex_constructed :: bool
  ex_initialized :: bool
  ex_closed :: bool
  ex_next_step :: nat
  ex_deadline :: int
  ex_teardown_attempted :: bool
  ex_teardown_failed :: bool
  ex_teardown_detail :: string
  ex_threads :: "bool list"

abbreviation upd_shared :: "(Shared \<Rightarrow> Shared) \<Rightarrow> Execution \<Rightarrow> Execution" where
  "upd_shared f ex \<equiv> ex\<lparr>ex_shared := f (ex_shared ex)\<rparr>"

abbreviation ex_fail :: "Outcome \<Rightarrow> string \<Rightarrow> Execution \<Rightarrow> Execution" where
  "ex_fail oc why \<equiv> upd_shared (shared_fail oc why)"

abbreviation ex_failed :: "Execution \<Rightarrow> bool" where
  "ex_failed ex \<equiv> sh_failed (ex_shared ex)"

abbreviation ex_actors :: "Execution \<Rightarrow> ActorState list" where
  "ex_actors ex \<equiv> sh_actors (ex_shared ex)"

abbreviation ex_report :: "Execution \<Rightarrow> Report" where
  "ex_report ex \<equiv> sh_report (ex_shared ex)"

definition upd_report :: "(Report \<Rightarrow> Report) \<Rightarrow> Execution \<Rightarrow> Execution" where
  "upd_report f ex = upd_shared (\<lambda>sh. sh\<lparr>sh_report := f (sh_report sh)\<rparr>) ex"

text \<open>The checks that follow every wait and end every region: a stop token that fired, then the deadline.\<close>

definition poll :: "bool \<Rightarrow> int \<Rightarrow> Execution \<Rightarrow> Execution" where
  "poll fired now ex =
     (let sh = (ex_shared ex)\<lparr>sh_cancelled := sh_cancelled (ex_shared ex) \<or> fired\<rparr>;
          sh = (if \<not> sh_failed sh \<and> sh_cancelled sh then shared_fail OutCancelled ''execution cancelled'' sh else sh);
          sh = (if \<not> sh_failed sh \<and> ex_deadline ex \<le> now then shared_fail OutTimedOut ''execution deadline exceeded'' sh else sh)
      in ex\<lparr>ex_shared := sh\<rparr>)"

definition wait_over :: "int \<Rightarrow> (Shared \<Rightarrow> bool) \<Rightarrow> Execution \<Rightarrow> bool" where
  "wait_over now ready ex = (ex_failed ex \<or> sh_cancelled (ex_shared ex) \<or> ready (ex_shared ex) \<or> ex_deadline ex \<le> now)"

definition jnat :: "nat \<Rightarrow> Json" where
  "jnat n = JUnsigned (of_nat n)"

definition event_json :: "nat \<Rightarrow> string \<Rightarrow> nat \<Rightarrow> ActorDeclaration \<Rightarrow> string \<Rightarrow> Json" where
  "event_json ordinal kind step d cp = jobject [(''ordinal'', jnat ordinal), (''kind'', JString kind), (''step'', jnat step),
     (''actor'', JString (decl_actor d)), (''operation'', JString (decl_operation d)), (''checkpoint'', JString cp)]"

definition exec_event :: "string \<Rightarrow> nat \<Rightarrow> ActorDeclaration \<Rightarrow> string \<Rightarrow> Execution \<Rightarrow> Execution" where
  "exec_event kind step d cp = upd_report (\<lambda>r. r\<lparr>rep_events := rep_events r @ [event_json (length (rep_events r)) kind step d cp]\<rparr>)"

type_synonym callback_result = "string option + Json"

definition observation_json :: "nat \<Rightarrow> Json \<Rightarrow> Json" where
  "observation_json index v = jobject [(''afterSteps'', jnat index), (''state'', v)]"

definition observe :: "schedule_lib \<Rightarrow> nat \<Rightarrow> callback_result \<Rightarrow> Execution \<Rightarrow> Execution" where
  "observe SL index r ex = (case r of
     Inl (Some what) \<Rightarrow> ex_fail OutObservationFailed what ex
   | Inl None \<Rightarrow> ex_fail OutObservationFailed ''nonstandard observer exception'' ex
   | Inr v \<Rightarrow>
       (if \<not> plain_json 0 v then ex_fail OutObservationFailed ''observation must be bounded plain JSON'' ex
        else (case sl_dump SL v of
            Inl what \<Rightarrow> ex_fail OutObservationFailed what ex
          | Inr text \<Rightarrow>
              (if length text > max_observation_bytes \<or> ex_observation_bytes ex + length text > 8 * max_artifact_bytes
               then ex_fail OutObservationFailed ''observations exceed byte bound'' ex
               else upd_report (\<lambda>r. r\<lparr>rep_observations := rep_observations r @ [observation_json index v]\<rparr>)
                 (ex\<lparr>ex_observation_bytes := ex_observation_bytes ex + length text\<rparr>)))))"

section \<open>Start\<close>

definition nonce_text :: "32 word list \<Rightarrow> string" where
  "nonce_text ws = concat (map (\<lambda>w. map (\<lambda>k. hex_digit (unat w div 16 ^ k mod 16)) [7, 6, 5, 4, 3, 2, 1, 0]) ws)"

definition empty_program :: Program where
  "empty_program = \<lparr> prog_workers = [], prog_observe = False, prog_teardown = False \<rparr>"

definition new_shared :: Shared where
  "new_shared = \<lparr> sh_cancelled = False, sh_stopping = False, sh_failed = False, sh_actors = [], sh_checkpoints = {},
     sh_report = \<lparr> rep_outcome = OutCompleted, rep_detail = [], rep_schedule_completed = False, rep_cleanup = CleanNotStarted,
       rep_remaining = [], rep_generation = 0, rep_execution_id = [], rep_events = [], rep_observations = [],
       rep_attempts = [] \<rparr> \<rparr>"

definition actor_new :: "ActorDeclaration \<Rightarrow> ActorState" where
  "actor_new d = \<lparr> act_decl = d, act_phase = PhStarting, act_thread = None, act_checkpoint = ''$start'', act_joined = False,
     act_arrival = None \<rparr>"

definition new_execution :: "64 word \<Rightarrow> 32 word list \<Rightarrow> Policy \<Rightarrow> Adapter \<Rightarrow> Schedule \<Rightarrow> Execution" where
  "new_execution generation random P A s = \<lparr> ex_shared = new_shared\<lparr>sh_report := (sh_report new_shared)
       \<lparr>rep_generation := generation, rep_execution_id := nonce_text random\<rparr>\<rparr>, ex_schedule = s, ex_policy = P,
     ex_adapter = A, ex_program = empty_program, ex_observation_bytes = 0, ex_constructed = False, ex_initialized = False,
     ex_closed = False, ex_next_step = 0, ex_deadline = 0, ex_teardown_attempted = False, ex_teardown_failed = False,
     ex_teardown_detail = [], ex_threads = [] \<rparr>"

text \<open>\<^verbatim>\<open>start\<close> up to admission; \<open>Some\<close> says whether the schedule was admitted, \<open>None\<close> that an exception left it.\<close>

definition start_admit :: "schedule_lib \<Rightarrow> bool \<Rightarrow> Execution \<Rightarrow> (Execution \<times> bool) option" where
  "start_admit SL in_callback ex = (case admit SL in_callback (ex_policy ex) (ex_adapter ex) (ex_schedule ex) of
     AdmitThrows what \<Rightarrow> None
   | Refused oc why \<Rightarrow> Some (ex_fail oc why ex, False)
   | Admitted as cps \<Rightarrow> Some (upd_shared (\<lambda>sh. sh\<lparr>sh_actors := map actor_new as, sh_checkpoints := cps\<rparr>) ex, True))"

fun collect_workers :: "string set \<Rightarrow> Shared \<Rightarrow> (string \<times> bool) list \<Rightarrow> string set \<times> Shared" where
  "collect_workers seen sh [] = (seen, sh)"
| "collect_workers seen sh ((w, has) # ws) =
     (if \<not> has \<or> w \<in> seen
      then collect_workers seen (shared_fail OutApplicationFailed ''missing worker function or duplicate worker identity'' sh) ws
      else collect_workers (insert w seen) sh ws)"

definition check_program :: "Program \<Rightarrow> Shared \<Rightarrow> Shared" where
  "check_program p sh =
     (let (seen, sh) = collect_workers {} sh (prog_workers p);
          sh = (if card seen \<noteq> length (sh_actors sh) \<or> \<not> prog_observe p \<or> \<not> prog_teardown p
                then shared_fail OutApplicationFailed ''factory worker set, observer or teardown missing'' sh else sh)
      in (if list_all (\<lambda>a. decl_actor (act_decl a) \<in> seen) (sh_actors sh) then sh
          else shared_fail OutApplicationFailed ''factory omitted declared actor'' sh))"

text \<open>Construction; the flag says that the program exists and is complete, so threads follow.\<close>

definition start_construct :: "bool \<Rightarrow> int \<Rightarrow> bool \<Rightarrow> int \<Rightarrow> Execution \<Rightarrow> Execution" where
  "start_construct fired0 now0 fired1 now1 ex =
     (let ex = upd_shared (\<lambda>sh. sh\<lparr>sh_cancelled := sh_cancelled sh \<or> fired0\<rparr>) ex in
      if sh_cancelled (ex_shared ex) then ex_fail OutCancelled ''cancelled before application construction'' ex
      else (let ex = ex\<lparr>ex_deadline := now0 + execution_timeout (ex_policy ex)\<rparr> in
        (case (case adapter_factory (ex_adapter ex) of Some f \<Rightarrow> f (sched_inputs (ex_schedule ex)) | None \<Rightarrow> Inl (Some ''bad_function_call'')) of
           Inl (Some what) \<Rightarrow> ex_fail OutApplicationFailed what ex
         | Inl None \<Rightarrow> ex_fail OutApplicationFailed ''nonstandard factory exception'' ex
         | Inr p \<Rightarrow>
             (let sh = check_program p (ex_shared ex);
                  sh = sh\<lparr>sh_cancelled := sh_cancelled sh \<or> fired1\<rparr>;
                  sh = (if sh_cancelled sh then shared_fail OutCancelled ''cancelled during construction'' sh else sh);
                  sh = (if ex_deadline ex \<le> now1 then shared_fail OutTimedOut ''construction exceeded execution deadline'' sh else sh)
              in ex\<lparr>ex_program := p, ex_constructed := True, ex_shared := sh\<rparr>))))"

definition start_spawn :: "(nat \<times> string) option \<Rightarrow> Execution \<Rightarrow> Execution" where
  "start_spawn r ex = (case r of
     None \<Rightarrow> ex\<lparr>ex_threads := replicate (length (ex_actors ex)) True\<rparr>
   | Some (k, what) \<Rightarrow> ex_fail OutResourceFailed what (ex\<lparr>ex_threads := replicate k True\<rparr>))"

definition all_parked :: "Shared \<Rightarrow> bool" where
  "all_parked sh = list_all (\<lambda>a. act_phase a = PhParked) (sh_actors sh)"

definition start_barrier :: "schedule_lib \<Rightarrow> bool \<Rightarrow> int \<Rightarrow> callback_result \<Rightarrow> bool \<Rightarrow> int \<Rightarrow> Execution \<Rightarrow> Execution" where
  "start_barrier SL fired now r fired' now' ex =
     (let ex = poll fired now ex;
          ex = (if \<not> ex_failed ex then observe SL 0 r ex else ex);
          ex = poll fired' now' ex
      in ex\<lparr>ex_initialized := \<not> ex_failed ex\<rparr>)"

section \<open>Advance and finish\<close>

definition find_actor :: "string \<Rightarrow> ActorState list \<Rightarrow> nat option" where
  "find_actor a as = List.find (\<lambda>i. decl_actor (act_decl (as ! i)) = a) [0..<length as]"

text \<open>The end of \<^verbatim>\<open>advance\<close>: the last checks, and completion.\<close>

definition advance_end :: "bool \<Rightarrow> int \<Rightarrow> Execution \<Rightarrow> Execution" where
  "advance_end fired now ex =
     (let ex = poll fired now ex in
      if \<not> ex_failed ex \<and> ex_next_step ex = length (sched_steps (ex_schedule ex))
      then upd_report (\<lambda>r. r\<lparr>rep_schedule_completed := True\<rparr>) ex else ex)"

text \<open>The beginning of \<^verbatim>\<open>advance\<close>: an exception, or the state with the actor that was permitted.\<close>

definition permit :: "nat \<Rightarrow> Execution \<Rightarrow> Execution" where
  "permit i ex = upd_shared (upd_actor i (\<lambda>a. a\<lparr>act_arrival := None, act_phase := PhRunning\<rparr>))
     (exec_event ''permit'' (ex_next_step ex) (act_decl (ex_actors ex ! i)) (act_checkpoint (ex_actors ex ! i)) ex)"

definition advance_begin ::
  "bool \<Rightarrow> bool \<Rightarrow> Step \<Rightarrow> bool \<Rightarrow> int \<Rightarrow> Execution \<Rightarrow> string + (Execution \<times> nat option)" where
  "advance_begin owner in_callback requested fired now ex =
     (if \<not> owner \<or> in_callback then Inl ''advance requires the owning controller outside scheduler callbacks''
      else if \<not> ex_initialized ex \<or> ex_closed ex \<or> ex_failed ex \<or> rep_schedule_completed (ex_report ex)
      then Inl ''execution cannot advance in its current lifecycle''
      else
       (let ex = poll fired now ex in
        if ex_failed ex then Inr (ex, None)
        else if ex_next_step ex \<ge> length (sched_steps (ex_schedule ex)) \<or> requested \<noteq> sched_steps (ex_schedule ex) ! ex_next_step ex
        then Inr (ex_fail OutInvalidSchedule ''callback interval differs from the admitted schedule'' ex, None)
        else (case find_actor (step_actor requested) (ex_actors ex) of
            None \<Rightarrow> Inr (ex, None)
          | Some i \<Rightarrow>
              (if phase_of (ex_shared ex) i \<noteq> PhParked
               then Inr (ex_fail OutUnexpectedCheckpoint ''selected actor is not parked'' ex, None)
               else Inr (permit i ex, Some i)))))"

text \<open>After the wait: the arrival is recorded and compared; \<open>True\<close> says that the controller joins the actor next.\<close>

definition record_arrival :: "nat \<Rightarrow> Execution \<Rightarrow> Execution" where
  "record_arrival i ex = (case act_arrival (ex_actors ex ! i) of
     Some cp \<Rightarrow> exec_event ''arrival'' (ex_next_step ex) (act_decl (ex_actors ex ! i)) cp ex
   | None \<Rightarrow> ex)"

definition advance_observe :: "schedule_lib \<Rightarrow> callback_result \<Rightarrow> Execution \<Rightarrow> Execution" where
  "advance_observe SL r ex = observe SL (ex_next_step ex + 1) r (ex\<lparr>ex_next_step := ex_next_step ex + 1\<rparr>)"

definition advance_arrived ::
  "schedule_lib \<Rightarrow> nat \<Rightarrow> Step \<Rightarrow> bool \<Rightarrow> int \<Rightarrow> callback_result \<Rightarrow> Execution \<Rightarrow> Execution \<times> bool" where
  "advance_arrived SL i requested fired now r ex =
     (let ex = poll fired now ex; arrived = (\<not> ex_failed ex); ex = record_arrival i ex; a = ex_actors ex ! i in
      if \<not> arrived then (ex, False)
      else if act_checkpoint a \<noteq> step_checkpoint requested
      then (ex_fail OutUnexpectedCheckpoint
              (''expected '' @ step_checkpoint requested @ '', arrived at '' @ act_checkpoint a) ex, False)
      else if act_phase a = PhFinished then (ex, True)
      else (advance_observe SL r ex, False))"

definition advance_joined :: "schedule_lib \<Rightarrow> nat \<Rightarrow> callback_result \<Rightarrow> Execution \<Rightarrow> Execution" where
  "advance_joined SL i r ex = advance_observe SL r
     (upd_shared (upd_actor i (\<lambda>a. a\<lparr>act_joined := True\<rparr>)) (ex\<lparr>ex_threads := (ex_threads ex)[i := False]\<rparr>))"

text \<open>\<^verbatim>\<open>finish\<close>: an exception, or the state and whether cleanup follows.\<close>

definition finish_begin :: "bool \<Rightarrow> bool \<Rightarrow> Execution \<Rightarrow> string + (Execution \<times> bool)" where
  "finish_begin owner in_callback ex =
     (if \<not> owner \<or> in_callback then Inl ''finish requires the owning controller outside scheduler callbacks''
      else if ex_closed ex \<or> \<not> ex_constructed ex then Inr (ex, False)
      else if \<not> ex_failed ex \<and> (\<not> ex_initialized ex \<or> \<not> rep_schedule_completed (ex_report ex))
      then Inr (ex_fail OutInvalidSchedule ''finish requires the complete admitted schedule'' ex, True)
      else Inr (ex, True))"

section \<open>Cleanup and destruction\<close>

definition stop_actors :: "Execution \<Rightarrow> Execution" where
  "stop_actors ex = upd_shared (\<lambda>sh. sh\<lparr>sh_stopping := True, sh_cancelled := True\<rparr>) ex"

text \<open>\<^verbatim>\<open>cleanup\<close> up to its wait: an exception, or the state and whether there is a program to clean up.\<close>

definition cleanup_begin :: "bool \<Rightarrow> bool \<Rightarrow> int \<Rightarrow> Execution \<Rightarrow> string + (Execution \<times> bool)" where
  "cleanup_begin owner in_callback timeout ex =
     (if \<not> owner \<or> in_callback then Inl ''cleanup requires the owning controller outside callbacks''
      else if \<not> valid_budget timeout then Inl ''invalid cleanup budget''
      else (let ex = ex\<lparr>ex_closed := True\<rparr> in
        if \<not> ex_constructed ex then Inr (ex, False) else Inr (stop_actors ex, True)))"

definition all_finished :: "Execution \<Rightarrow> bool" where
  "all_finished ex = list_all (\<lambda>i. phase_of (ex_shared ex) i = PhFinished) [0..<length (ex_threads ex)]"

definition join_actor :: "nat \<Rightarrow> Execution \<Rightarrow> Execution" where
  "join_actor i ex =
     (if phase_of (ex_shared ex) i = PhFinished \<and> ex_threads ex ! i
      then upd_shared (upd_actor i (\<lambda>a. a\<lparr>act_joined := True\<rparr>)) (ex\<lparr>ex_threads := (ex_threads ex)[i := False]\<rparr>)
      else ex)"

definition remaining_actors :: "Execution \<Rightarrow> string list" where
  "remaining_actors ex = map (\<lambda>i. decl_actor (act_decl (ex_actors ex ! i))) (filter (\<lambda>i. ex_threads ex ! i) [0..<length (ex_threads ex)])"

text \<open>The end of \<^verbatim>\<open>cleanup\<close>: the status and one more attempt in the report.\<close>

definition cleanup_report :: "Execution \<Rightarrow> Execution" where
  "cleanup_report ex =
     (let status = (if rep_remaining (ex_report ex) \<noteq> [] then CleanIncomplete
                    else if ex_teardown_failed ex then CleanTeardownFailed else CleanConfirmed)
      in upd_report (\<lambda>r. r\<lparr>rep_cleanup := status, rep_attempts := rep_attempts r @ [jobject [(''status'', JString (cleanup_name status)),
           (''remainingActors'', JArray (map JString (rep_remaining r))), (''detail'', JString (ex_teardown_detail ex))]]\<rparr>) ex)"

text \<open>After the joins: what remains; \<open>True\<close> says that the teardown is called next, without the mutex.\<close>

definition cleanup_collect :: "Execution \<Rightarrow> Execution \<times> bool" where
  "cleanup_collect ex =
     (let ex = upd_report (\<lambda>r. r\<lparr>rep_remaining := remaining_actors ex\<rparr>) ex in
      if rep_remaining (ex_report ex) = [] \<and> \<not> ex_teardown_attempted ex
      then (ex\<lparr>ex_teardown_attempted := True\<rparr>, True)
      else (cleanup_report ex, False))"

definition teardown_result :: "(string option) option \<Rightarrow> Execution \<Rightarrow> Execution" where
  "teardown_result r ex =
     (if \<not> prog_teardown (ex_program ex)
      then ex\<lparr>ex_teardown_failed := True, ex_teardown_detail := take 1024 ''adapter omitted explicit teardown''\<rparr>
      else (case r of
          None \<Rightarrow> ex
        | Some (Some what) \<Rightarrow> ex\<lparr>ex_teardown_failed := True, ex_teardown_detail := take 1024 what\<rparr>
        | Some None \<Rightarrow> ex\<lparr>ex_teardown_failed := True, ex_teardown_detail := ''nonstandard teardown exception''\<rparr>))"

section \<open>Receipt\<close>

definition receipt_schema :: string where
  "receipt_schema = ''mirrors.checkpoint-replay/v1''"

definition receipt :: "Execution \<Rightarrow> Json" where
  "receipt ex = (let r = ex_report ex; P = ex_policy ex in
     jobject [(''schema'', JString receipt_schema), (''schedule'', schedule_json (ex_schedule ex)),
       (''actors'', JArray (map (\<lambda>a. jobject [(''actor'', JString (decl_actor a)), (''operation'', JString (decl_operation a))])
          (adapter_actors (ex_adapter ex)))),
       (''checkpoints'', JArray (map JString (adapter_checkpoints (ex_adapter ex)))),
       (''generation'', JUnsigned (rep_generation r)), (''executionId'', JString (rep_execution_id r)),
       (''policy'', jobject [(''maxActors'', jnat (max_actors P)), (''maxSteps'', jnat (max_steps P)),
          (''executionTimeoutMs'', JInteger (of_int (execution_timeout P))), (''cleanupTimeoutMs'', JInteger (of_int (cleanup_timeout P)))]),
       (''outcome'', JString (outcome_name (rep_outcome r))), (''detail'', JString (rep_detail r)),
       (''scheduleCompleted'', JBool (rep_schedule_completed r)), (''passed'', JBool (passed r)),
       (''events'', JArray (rep_events r)), (''observations'', JArray (rep_observations r)),
       (''cleanup'', JString (cleanup_name (rep_cleanup r))), (''remainingActors'', JArray (map JString (rep_remaining r))),
       (''cleanupAttempts'', JArray (rep_attempts r)), (''coverage'', JString ''recorded-schedule-only'')])"

end
