(* ===== verification/Schedule_Machine.thy ===== *)
theory Schedule_Machine
  imports Schedule_Execution
begin

text \<open>
  The interleavings of the coordinator: the controller thread and one thread per actor, each at a program
  counter between two regions of \<^verbatim>\<open>src/schedule.cpp\<close>, an environment that fires the stop token, lets time
  pass and calls hooks from foreign threads, and a user who calls \<^verbatim>\<open>advance\<close>, \<^verbatim>\<open>finish\<close>, \<^verbatim>\<open>cleanup\<close> and the
  destructor when the controller is idle. \<open>sys_teardowns\<close> counts the calls of the application's teardown.
  \<open>run_call\<close> is the controller loop of \<^verbatim>\<open>run_schedule\<close>.
\<close>

section \<open>Program counters\<close>

text \<open>A worker: not created, before its first region, waiting for the first permit, in application code,
  waiting in \<^verbatim>\<open>arrive\<close>, with a caught exception, before its last region, after it, and exited.\<close>

datatype tpc = TNone | TSpawned | TStartWait | TBody | TArriveWait | TRaised "string option" | TReturned | TFinished | TExited

datatype ctl =
    CtlConstruct | CtlSpawn | CtlBarrier | CtlIdle
  | CtlWaiting nat Step | CtlJoining nat | CtlReturn
  | CtlCleanup int | CtlCleanWait int | CtlCleanJoin nat | CtlTeardown
  | CtlDestroyJoin nat | CtlDestroyed

record Sys =
  sys_exec :: Execution
  sys_tpcs :: "tpc list"
  sys_ctl :: ctl
  sys_teardowns :: nat

datatype body_end = BodyReturns | BodyStops | BodyThrows "string option"

datatype action =
    ActCancel
  | ActConstruct bool int bool int
  | ActSpawn "(nat \<times> string) option"
  | ActBarrier bool int callback_result bool int
  | ActPark nat nat
  | ActWake nat
  | ActArrive nat string
  | ActForeign nat nat string
  | ActBodyEnd nat body_end
  | ActCatch nat
  | ActFinish nat
  | ActExit nat
  | ActAdvance bool bool Step bool int bool int
  | ActArrived bool int callback_result bool int
  | ActJoined callback_result bool int
  | ActReturn
  | ActFinishCall bool bool
  | ActCleanupCall bool bool int int
  | ActCleanup int
  | ActCleanWait int
  | ActCleanJoin
  | ActTeardown "string option option"
  | ActDestroy
  | ActDestroyJoin "string option option"

section \<open>Steps of the workers and the environment\<close>

abbreviation set_tpc :: "nat \<Rightarrow> tpc \<Rightarrow> Sys \<Rightarrow> Sys" where
  "set_tpc i t s \<equiv> s\<lparr>sys_tpcs := (sys_tpcs s)[i := t]\<rparr>"

abbreviation on_shared :: "(Shared \<Rightarrow> Shared) \<Rightarrow> Sys \<Rightarrow> Sys" where
  "on_shared f s \<equiv> s\<lparr>sys_exec := upd_shared f (sys_exec s)\<rparr>"

abbreviation tpc_of :: "Sys \<Rightarrow> nat \<Rightarrow> tpc" where
  "tpc_of s i \<equiv> sys_tpcs s ! i"

definition worker_wake :: "nat \<Rightarrow> Sys \<Rightarrow> Sys option" where
  "worker_wake i s = (case tpc_of s i of
     TStartWait \<Rightarrow> map_option (\<lambda>permitted. set_tpc i (if permitted then TBody else TReturned) s) (parked_wakes i (ex_shared (sys_exec s)))
   | TArriveWait \<Rightarrow> map_option (\<lambda>permitted. set_tpc i TBody s) (parked_wakes i (ex_shared (sys_exec s)))
   | _ \<Rightarrow> None)"

text \<open>A hook call from the worker's own body. The exception of a stopped hook is raised inside that body.\<close>

definition worker_arrive :: "nat \<Rightarrow> string \<Rightarrow> Sys \<Rightarrow> Sys" where
  "worker_arrive i cp s = (case act_thread (ex_actors (sys_exec s) ! i) of
     None \<Rightarrow> s
   | Some tid \<Rightarrow> (case checkpoint_arrive False tid i cp (ex_shared (sys_exec s)) of (r, sh) \<Rightarrow>
       set_tpc i (if r = ArriveParked then TArriveWait else TBody) (s\<lparr>sys_exec := (sys_exec s)\<lparr>ex_shared := sh\<rparr>\<rparr>)))"

definition worker_step :: "action \<Rightarrow> Sys \<Rightarrow> Sys option" where
  "worker_step a s = (case a of
     ActCancel \<Rightarrow> Some (on_shared (\<lambda>sh. sh\<lparr>sh_cancelled := True\<rparr>) s)
   | ActPark i tid \<Rightarrow>
       (if i < length (sys_tpcs s) \<and> tpc_of s i = TSpawned
        then Some (set_tpc i TStartWait (on_shared (thread_park i tid) s)) else None)
   | ActWake i \<Rightarrow> (if i < length (sys_tpcs s) then worker_wake i s else None)
   | ActArrive i cp \<Rightarrow> (if i < length (sys_tpcs s) \<and> tpc_of s i = TBody then Some (worker_arrive i cp s) else None)
   | ActForeign tid i cp \<Rightarrow>
       (if i < length (sys_tpcs s) \<and> act_thread (ex_actors (sys_exec s) ! i) \<noteq> Some tid
        then Some (on_shared (\<lambda>sh. snd (checkpoint_arrive False tid i cp sh)) s) else None)
   | ActBodyEnd i b \<Rightarrow>
       (if i < length (sys_tpcs s) \<and> tpc_of s i = TBody
        then Some (set_tpc i (case b of BodyThrows w \<Rightarrow> TRaised w | _ \<Rightarrow> TReturned) s) else None)
   | ActCatch i \<Rightarrow>
       (if i < length (sys_tpcs s)
        then (case tpc_of s i of TRaised w \<Rightarrow> Some (set_tpc i TReturned (on_shared (thread_catch w) s)) | _ \<Rightarrow> None) else None)
   | ActFinish i \<Rightarrow>
       (if i < length (sys_tpcs s) \<and> tpc_of s i = TReturned
        then Some (set_tpc i TFinished (on_shared (thread_finish i) s)) else None)
   | ActExit i \<Rightarrow> (if i < length (sys_tpcs s) \<and> tpc_of s i = TFinished then Some (set_tpc i TExited s) else None)
   | _ \<Rightarrow> None)"

section \<open>Steps of the controller\<close>

abbreviation go :: "Execution \<Rightarrow> ctl \<Rightarrow> Sys \<Rightarrow> Sys" where
  "go ex c s \<equiv> s\<lparr>sys_exec := ex, sys_ctl := c\<rparr>"

definition start_step :: "schedule_lib \<Rightarrow> action \<Rightarrow> Sys \<Rightarrow> Sys option" where
  "start_step SL a s = (let ex = sys_exec s in case (sys_ctl s, a) of
     (CtlConstruct, ActConstruct fired0 now0 fired1 now1) \<Rightarrow>
       (let ex = start_construct fired0 now0 fired1 now1 ex in
        Some (go ex (if \<not> ex_failed ex then CtlSpawn
                     else if ex_constructed ex then CtlCleanup (cleanup_timeout (ex_policy ex)) else CtlIdle) s))
   | (CtlSpawn, ActSpawn r) \<Rightarrow>
       (if (case r of None \<Rightarrow> True | Some (k, _) \<Rightarrow> k < length (ex_actors ex))
        then Some ((go (start_spawn r ex) CtlBarrier s)
          \<lparr>sys_tpcs := map (\<lambda>i. if i < (case r of None \<Rightarrow> length (ex_actors ex) | Some (k, _) \<Rightarrow> k) then TSpawned else TNone)
             [0..<length (ex_actors ex)]\<rparr>)
        else None)
   | (CtlBarrier, ActBarrier fired now r fired' now') \<Rightarrow>
       (if wait_over now all_parked ex
        then (let ex = start_barrier SL fired now r fired' now' ex in
          Some (go ex (if ex_initialized ex then CtlIdle else CtlCleanup (cleanup_timeout (ex_policy ex))) s))
        else None)
   | _ \<Rightarrow> None)"

definition advance_step :: "schedule_lib \<Rightarrow> action \<Rightarrow> Sys \<Rightarrow> Sys option" where
  "advance_step SL a s = (let ex = sys_exec s in case (sys_ctl s, a) of
     (CtlIdle, ActAdvance owner in_callback requested fired now fired' now') \<Rightarrow>
       (case advance_begin owner in_callback requested fired now ex of
          Inl _ \<Rightarrow> Some s
        | Inr (ex, Some i) \<Rightarrow> Some (go ex (CtlWaiting i requested) s)
        | Inr (ex, None) \<Rightarrow> Some (go (advance_end fired' now' ex) CtlReturn s))
   | (CtlWaiting i requested, ActArrived fired now r fired' now') \<Rightarrow>
       (if wait_over now (\<lambda>sh. phase_of sh i \<noteq> PhRunning) ex
        then (case advance_arrived SL i requested fired now r ex of
            (ex, True) \<Rightarrow> Some (go ex (CtlJoining i) s)
          | (ex, False) \<Rightarrow> Some (go (advance_end fired' now' ex) CtlReturn s))
        else None)
   | (CtlJoining i, ActJoined r fired' now') \<Rightarrow>
       (if \<not> ex_threads ex ! i \<or> tpc_of s i = TExited
        then Some (go (advance_end fired' now' (advance_joined SL i r ex)) CtlReturn s) else None)
   | (CtlReturn, ActReturn) \<Rightarrow>
       Some (go ex (if ex_failed ex then CtlCleanup (cleanup_timeout (ex_policy ex)) else CtlIdle) s)
   | (CtlIdle, ActFinishCall owner in_callback) \<Rightarrow>
       (case finish_begin owner in_callback ex of
          Inl _ \<Rightarrow> Some s
        | Inr (ex, True) \<Rightarrow> Some (go ex (CtlCleanup (cleanup_timeout (ex_policy ex))) s)
        | Inr (ex, False) \<Rightarrow> Some s)
   | _ \<Rightarrow> None)"

definition enter_cleanup :: "bool \<Rightarrow> bool \<Rightarrow> int \<Rightarrow> int \<Rightarrow> Sys \<Rightarrow> Sys" where
  "enter_cleanup owner in_callback timeout now s = (case cleanup_begin owner in_callback timeout (sys_exec s) of
     Inl _ \<Rightarrow> go (sys_exec s) CtlIdle s
   | Inr (ex, True) \<Rightarrow> go ex (CtlCleanWait (now + timeout)) s
   | Inr (ex, False) \<Rightarrow> go ex CtlIdle s)"

definition cleanup_step :: "action \<Rightarrow> Sys \<Rightarrow> Sys option" where
  "cleanup_step a s = (let ex = sys_exec s in case (sys_ctl s, a) of
     (CtlIdle, ActCleanupCall owner in_callback timeout now) \<Rightarrow> Some (enter_cleanup owner in_callback timeout now s)
   | (CtlCleanup timeout, ActCleanup now) \<Rightarrow> Some (enter_cleanup True False timeout now s)
   | (CtlCleanWait until, ActCleanWait now) \<Rightarrow>
       (if all_finished ex \<or> until \<le> now then Some (go ex (CtlCleanJoin 0) s) else None)
   | (CtlCleanJoin k, ActCleanJoin) \<Rightarrow>
       (if k < length (ex_threads ex)
        then (if phase_of (ex_shared ex) k = PhFinished \<and> ex_threads ex ! k \<and> tpc_of s k \<noteq> TExited then None
              else Some (go (join_actor k ex) (CtlCleanJoin (k + 1)) s))
        else (case cleanup_collect ex of
            (ex, True) \<Rightarrow> Some (go ex CtlTeardown s)
          | (ex, False) \<Rightarrow> Some (go ex CtlIdle s)))
   | (CtlTeardown, ActTeardown r) \<Rightarrow>
       Some ((go (cleanup_report (teardown_result r ex)) CtlIdle s)
         \<lparr>sys_teardowns := sys_teardowns s + (if prog_teardown (ex_program ex) then 1 else 0)\<rparr>)
   | (CtlIdle, ActDestroy) \<Rightarrow> Some (go (stop_actors ex) (CtlDestroyJoin 0) s)
   | (CtlDestroyJoin k, ActDestroyJoin r) \<Rightarrow>
       (if k < length (ex_threads ex)
        then (if ex_threads ex ! k \<and> tpc_of s k \<noteq> TExited then None
              else Some (go (ex\<lparr>ex_threads := (ex_threads ex)[k := False]\<rparr>) (CtlDestroyJoin (k + 1)) s))
        else Some ((go ex CtlDestroyed s)
          \<lparr>sys_teardowns := sys_teardowns s
             + (if ex_constructed ex \<and> \<not> ex_teardown_attempted ex \<and> prog_teardown (ex_program ex) then 1 else 0)\<rparr>))
   | _ \<Rightarrow> None)"

definition exec_step :: "schedule_lib \<Rightarrow> action \<Rightarrow> Sys \<Rightarrow> Sys option" where
  "exec_step SL a s = (case worker_step a s of Some s' \<Rightarrow> Some s'
     | None \<Rightarrow> (case start_step SL a s of Some s' \<Rightarrow> Some s'
       | None \<Rightarrow> (case advance_step SL a s of Some s' \<Rightarrow> Some s' | None \<Rightarrow> cleanup_step a s)))"

fun exec_run :: "schedule_lib \<Rightarrow> action list \<Rightarrow> Sys \<Rightarrow> Sys option" where
  "exec_run SL [] s = Some s"
| "exec_run SL (a # as) s = Option.bind (exec_step SL a s) (exec_run SL as)"

text \<open>\<^verbatim>\<open>start_schedule\<close>: a new handle, admitted or refused.\<close>

definition sys_start :: "schedule_lib \<Rightarrow> bool \<Rightarrow> 64 word \<Rightarrow> 32 word list \<Rightarrow> Policy \<Rightarrow> Adapter \<Rightarrow> Schedule \<Rightarrow> Sys option" where
  "sys_start SL in_callback generation random P A s =
     map_option (\<lambda>(ex, admitted). \<lparr> sys_exec = ex, sys_tpcs = [], sys_ctl = (if admitted then CtlConstruct else CtlIdle),
        sys_teardowns = 0 \<rparr>)
       (start_admit SL in_callback (new_execution generation random P A s))"

inductive exec_reachable :: "schedule_lib \<Rightarrow> Policy \<Rightarrow> Adapter \<Rightarrow> Schedule \<Rightarrow> Sys \<Rightarrow> bool"
  for SL :: schedule_lib and P :: Policy and A :: Adapter and sched :: Schedule where
  reach_start: "sys_start SL in_callback generation random P A sched = Some s \<Longrightarrow> exec_reachable SL P A sched s"
| reach_step: "exec_reachable SL P A sched s \<Longrightarrow> exec_step SL a s = Some t \<Longrightarrow> exec_reachable SL P A sched t"

text \<open>The loop of \<^verbatim>\<open>run_schedule\<close> over an initialized execution: its next call, given the steps not yet requested.\<close>

datatype api_call = CallAdvance Step | CallFinish

definition run_call :: "Execution \<Rightarrow> Step list \<Rightarrow> api_call \<times> Step list" where
  "run_call ex todo = (case todo of
     [] \<Rightarrow> (CallFinish, [])
   | st # todo' \<Rightarrow> if ex_closed ex then (CallFinish, []) else (CallAdvance st, todo'))"

end
