(* ===== verification/Schedule_Transitions.thy ===== *)
theory Schedule_Transitions
  imports Schedule_Machine
begin

text \<open>
  The transitions of the coordinator as rules of case analysis: what each region of the code leaves alone
  (the collection \<open>frame\<close>), and for every step of \<open>exec_step\<close> the state it starts from and the state it
  leads to. The invariants are proved over these rules.
\<close>

named_theorems frame

section \<open>What the regions leave alone\<close>

lemma shared_fail_frame [frame]:
  "sh_actors (shared_fail oc why sh) = sh_actors sh"
  "sh_stopping (shared_fail oc why sh) = sh_stopping sh"
  "sh_cancelled (shared_fail oc why sh) = sh_cancelled sh"
  "sh_checkpoints (shared_fail oc why sh) = sh_checkpoints sh"
  "sh_failed (shared_fail oc why sh)"
  "rep_events (sh_report (shared_fail oc why sh)) = rep_events (sh_report sh)"
  "rep_observations (sh_report (shared_fail oc why sh)) = rep_observations (sh_report sh)"
  "rep_schedule_completed (sh_report (shared_fail oc why sh)) = rep_schedule_completed (sh_report sh)"
  "rep_cleanup (sh_report (shared_fail oc why sh)) = rep_cleanup (sh_report sh)"
  "rep_remaining (sh_report (shared_fail oc why sh)) = rep_remaining (sh_report sh)"
  "phase_of (shared_fail oc why sh) = phase_of sh"
  by (auto simp: shared_fail_def phase_of_def fun_eq_iff)

lemma upd_actor_frame [frame]:
  "sh_stopping (upd_actor i f sh) = sh_stopping sh"
  "sh_cancelled (upd_actor i f sh) = sh_cancelled sh"
  "sh_checkpoints (upd_actor i f sh) = sh_checkpoints sh"
  "sh_failed (upd_actor i f sh) = sh_failed sh"
  "sh_report (upd_actor i f sh) = sh_report sh"
  "length (sh_actors (upd_actor i f sh)) = length (sh_actors sh)"
  by (simp_all add: upd_actor_def)

lemma upd_report_frame [frame]:
  "sh_actors (ex_shared (upd_report f ex)) = sh_actors (ex_shared ex)"
  "sh_stopping (ex_shared (upd_report f ex)) = sh_stopping (ex_shared ex)"
  "sh_cancelled (ex_shared (upd_report f ex)) = sh_cancelled (ex_shared ex)"
  "sh_checkpoints (ex_shared (upd_report f ex)) = sh_checkpoints (ex_shared ex)"
  "sh_failed (ex_shared (upd_report f ex)) = sh_failed (ex_shared ex)"
  "sh_report (ex_shared (upd_report f ex)) = f (sh_report (ex_shared ex))"
  "phase_of (ex_shared (upd_report f ex)) = phase_of (ex_shared ex)"
  "ex_schedule (upd_report f ex) = ex_schedule ex" "ex_policy (upd_report f ex) = ex_policy ex"
  "ex_adapter (upd_report f ex) = ex_adapter ex" "ex_program (upd_report f ex) = ex_program ex"
  "ex_constructed (upd_report f ex) = ex_constructed ex" "ex_initialized (upd_report f ex) = ex_initialized ex"
  "ex_closed (upd_report f ex) = ex_closed ex" "ex_next_step (upd_report f ex) = ex_next_step ex"
  "ex_deadline (upd_report f ex) = ex_deadline ex" "ex_threads (upd_report f ex) = ex_threads ex"
  "ex_teardown_attempted (upd_report f ex) = ex_teardown_attempted ex"
  "ex_teardown_failed (upd_report f ex) = ex_teardown_failed ex"
  "ex_teardown_detail (upd_report f ex) = ex_teardown_detail ex"
  by (simp_all add: upd_report_def phase_of_def fun_eq_iff)

text \<open>The effect of a region that at most fails: it sets the stop flag or the failure, and nothing else.\<close>

definition at_most_fails :: "Execution \<Rightarrow> Execution \<Rightarrow> bool" where
  "at_most_fails ex ex' = (\<exists>c oc why. oc \<noteq> OutCompleted \<and> (ex' = ex\<lparr>ex_shared := (ex_shared ex)\<lparr>sh_cancelled := c\<rparr>\<rparr>
     \<or> ex' = ex\<lparr>ex_shared := shared_fail oc why ((ex_shared ex)\<lparr>sh_cancelled := c\<rparr>)\<rparr>))"

lemma shared_fail_again: "sh_failed sh \<Longrightarrow> shared_fail oc why sh = sh"
  by (simp add: shared_fail_def)

lemma poll_at_most_fails: "at_most_fails ex (poll fired now ex)"
proof -
  let ?c = "sh_cancelled (ex_shared ex) \<or> fired"
  consider "ex_failed ex" | "\<not> ex_failed ex" "?c" | "\<not> ex_failed ex" "\<not> ?c" "ex_deadline ex \<le> now"
    | "\<not> ex_failed ex" "\<not> ?c" "\<not> ex_deadline ex \<le> now" by blast
  then show ?thesis
  proof cases
    case 1
    then have "poll fired now ex = ex\<lparr>ex_shared := (ex_shared ex)\<lparr>sh_cancelled := ?c\<rparr>\<rparr>" by (simp add: poll_def Let_def)
    then show ?thesis unfolding at_most_fails_def by blast
  next
    case 2
    then have "poll fired now ex
        = ex\<lparr>ex_shared := shared_fail OutCancelled ''execution cancelled'' ((ex_shared ex)\<lparr>sh_cancelled := ?c\<rparr>)\<rparr>"
      by (simp add: poll_def Let_def frame)
    then show ?thesis unfolding at_most_fails_def by blast
  next
    case 3
    then have "poll fired now ex
        = ex\<lparr>ex_shared := shared_fail OutTimedOut ''execution deadline exceeded'' ((ex_shared ex)\<lparr>sh_cancelled := ?c\<rparr>)\<rparr>"
      by (simp add: poll_def Let_def)
    then show ?thesis unfolding at_most_fails_def by blast
  next
    case 4
    then have "poll fired now ex = ex\<lparr>ex_shared := (ex_shared ex)\<lparr>sh_cancelled := ?c\<rparr>\<rparr>" by (simp add: poll_def Let_def)
    then show ?thesis unfolding at_most_fails_def by blast
  qed
qed

lemma poll_frame [frame]:
  "sh_actors (ex_shared (poll fired now ex)) = sh_actors (ex_shared ex)"
  "sh_stopping (ex_shared (poll fired now ex)) = sh_stopping (ex_shared ex)"
  "sh_checkpoints (ex_shared (poll fired now ex)) = sh_checkpoints (ex_shared ex)"
  "phase_of (ex_shared (poll fired now ex)) = phase_of (ex_shared ex)"
  "rep_events (ex_report (poll fired now ex)) = rep_events (ex_report ex)"
  "rep_observations (ex_report (poll fired now ex)) = rep_observations (ex_report ex)"
  "rep_schedule_completed (ex_report (poll fired now ex)) = rep_schedule_completed (ex_report ex)"
  "rep_cleanup (ex_report (poll fired now ex)) = rep_cleanup (ex_report ex)"
  "rep_remaining (ex_report (poll fired now ex)) = rep_remaining (ex_report ex)"
  "ex_schedule (poll fired now ex) = ex_schedule ex" "ex_policy (poll fired now ex) = ex_policy ex"
  "ex_adapter (poll fired now ex) = ex_adapter ex" "ex_program (poll fired now ex) = ex_program ex"
  "ex_constructed (poll fired now ex) = ex_constructed ex" "ex_initialized (poll fired now ex) = ex_initialized ex"
  "ex_closed (poll fired now ex) = ex_closed ex" "ex_next_step (poll fired now ex) = ex_next_step ex"
  "ex_deadline (poll fired now ex) = ex_deadline ex" "ex_threads (poll fired now ex) = ex_threads ex"
  "ex_teardown_attempted (poll fired now ex) = ex_teardown_attempted ex"
  "ex_teardown_failed (poll fired now ex) = ex_teardown_failed ex"
  "ex_teardown_detail (poll fired now ex) = ex_teardown_detail ex"
  "ex_observation_bytes (poll fired now ex) = ex_observation_bytes ex"
  using poll_at_most_fails [of ex fired now] by (auto simp: at_most_fails_def frame phase_of_def fun_eq_iff)

lemma poll_failed: "ex_failed ex \<Longrightarrow> ex_failed (poll fired now ex)"
  by (simp add: poll_def Let_def)

lemma poll_failed_report: "ex_failed ex \<Longrightarrow> ex_report (poll fired now ex) = ex_report ex"
  by (simp add: poll_def Let_def)

lemma poll_ok: "\<not> ex_failed (poll fired now ex) \<Longrightarrow>
   \<not> ex_failed ex \<and> \<not> sh_cancelled (ex_shared ex) \<and> \<not> fired \<and> now < ex_deadline ex \<and> poll fired now ex = ex"
  by (cases ex; cases "ex_shared ex") (auto simp: poll_def Let_def frame split: if_splits)

lemma collect_workers_fails:
  "snd (collect_workers seen sh ws) = sh
     \<or> snd (collect_workers seen sh ws) = shared_fail OutApplicationFailed ''missing worker function or duplicate worker identity'' sh"
proof (induction seen sh ws rule: collect_workers.induct)
  case (2 seen sh w has ws)
  then show ?case by (auto simp: shared_fail_again frame)
qed simp

lemma check_program_fails: "check_program p sh = sh \<or> (\<exists>why. check_program p sh = shared_fail OutApplicationFailed why sh)"
  using collect_workers_fails [of "{}" sh "prog_workers p"]
  by (auto simp: check_program_def Let_def shared_fail_again frame split: prod.splits)

lemma check_program_frame [frame]:
  "sh_actors (check_program p sh) = sh_actors sh"
  "sh_stopping (check_program p sh) = sh_stopping sh"
  "sh_cancelled (check_program p sh) = sh_cancelled sh"
  "sh_checkpoints (check_program p sh) = sh_checkpoints sh"
  "rep_events (sh_report (check_program p sh)) = rep_events (sh_report sh)"
  "rep_observations (sh_report (check_program p sh)) = rep_observations (sh_report sh)"
  "rep_schedule_completed (sh_report (check_program p sh)) = rep_schedule_completed (sh_report sh)"
  "rep_cleanup (sh_report (check_program p sh)) = rep_cleanup (sh_report sh)"
  using check_program_fails [of p sh] by (auto simp: frame)

lemma start_construct_frame [frame]:
  "sh_actors (ex_shared (start_construct f n f' n' ex)) = sh_actors (ex_shared ex)"
  "sh_stopping (ex_shared (start_construct f n f' n' ex)) = sh_stopping (ex_shared ex)"
  "sh_checkpoints (ex_shared (start_construct f n f' n' ex)) = sh_checkpoints (ex_shared ex)"
  "rep_events (ex_report (start_construct f n f' n' ex)) = rep_events (ex_report ex)"
  "rep_observations (ex_report (start_construct f n f' n' ex)) = rep_observations (ex_report ex)"
  "rep_schedule_completed (ex_report (start_construct f n f' n' ex)) = rep_schedule_completed (ex_report ex)"
  "rep_cleanup (ex_report (start_construct f n f' n' ex)) = rep_cleanup (ex_report ex)"
  "ex_schedule (start_construct f n f' n' ex) = ex_schedule ex"
  "ex_policy (start_construct f n f' n' ex) = ex_policy ex"
  "ex_adapter (start_construct f n f' n' ex) = ex_adapter ex"
  "ex_initialized (start_construct f n f' n' ex) = ex_initialized ex"
  "ex_closed (start_construct f n f' n' ex) = ex_closed ex"
  "ex_next_step (start_construct f n f' n' ex) = ex_next_step ex"
  "ex_threads (start_construct f n f' n' ex) = ex_threads ex"
  "ex_teardown_attempted (start_construct f n f' n' ex) = ex_teardown_attempted ex"
  "ex_teardown_failed (start_construct f n f' n' ex) = ex_teardown_failed ex"
  by (simp_all add: start_construct_def Let_def frame split: sum.split option.split)

lemma check_program_failed: "sh_failed sh \<Longrightarrow> check_program p sh = sh"
  using check_program_fails [of p sh] by (auto simp: shared_fail_again)

lemma check_program_outcome:
  "sh_failed sh = (rep_outcome (sh_report sh) \<noteq> OutCompleted) \<Longrightarrow>
    sh_failed (check_program p sh) = (rep_outcome (sh_report (check_program p sh)) \<noteq> OutCompleted)"
  using check_program_fails [of p sh] by (auto simp: shared_fail_def)

lemma exec_event_frame [frame]:
  "sh_actors (ex_shared (exec_event kind k d cp ex)) = sh_actors (ex_shared ex)"
  "sh_stopping (ex_shared (exec_event kind k d cp ex)) = sh_stopping (ex_shared ex)"
  "sh_checkpoints (ex_shared (exec_event kind k d cp ex)) = sh_checkpoints (ex_shared ex)"
  "rep_observations (ex_report (exec_event kind k d cp ex)) = rep_observations (ex_report ex)"
  "rep_schedule_completed (ex_report (exec_event kind k d cp ex)) = rep_schedule_completed (ex_report ex)"
  "rep_cleanup (ex_report (exec_event kind k d cp ex)) = rep_cleanup (ex_report ex)"
  "ex_schedule (exec_event kind k d cp ex) = ex_schedule ex" "ex_policy (exec_event kind k d cp ex) = ex_policy ex"
  "ex_adapter (exec_event kind k d cp ex) = ex_adapter ex" "ex_program (exec_event kind k d cp ex) = ex_program ex"
  "ex_constructed (exec_event kind k d cp ex) = ex_constructed ex"
  "ex_initialized (exec_event kind k d cp ex) = ex_initialized ex"
  "ex_closed (exec_event kind k d cp ex) = ex_closed ex" "ex_next_step (exec_event kind k d cp ex) = ex_next_step ex"
  "ex_threads (exec_event kind k d cp ex) = ex_threads ex"
  "ex_teardown_attempted (exec_event kind k d cp ex) = ex_teardown_attempted ex"
  "ex_teardown_failed (exec_event kind k d cp ex) = ex_teardown_failed ex"
  "ex_deadline (exec_event kind k d cp ex) = ex_deadline ex"
  "sh_failed (ex_shared (exec_event kind k d cp ex)) = sh_failed (ex_shared ex)"
  "rep_events (ex_report (exec_event kind k d cp ex)) = rep_events (ex_report ex) @ [event_json (length (rep_events (ex_report ex))) kind k d cp]"
  by (simp_all add: exec_event_def frame)

lemma observe_frame [frame]:
  "sh_actors (ex_shared (observe SL k r ex)) = sh_actors (ex_shared ex)"
  "sh_stopping (ex_shared (observe SL k r ex)) = sh_stopping (ex_shared ex)"
  "sh_checkpoints (ex_shared (observe SL k r ex)) = sh_checkpoints (ex_shared ex)"
  "rep_events (ex_report (observe SL k r ex)) = rep_events (ex_report ex)"
  "rep_schedule_completed (ex_report (observe SL k r ex)) = rep_schedule_completed (ex_report ex)"
  "rep_cleanup (ex_report (observe SL k r ex)) = rep_cleanup (ex_report ex)"
  "ex_schedule (observe SL k r ex) = ex_schedule ex" "ex_policy (observe SL k r ex) = ex_policy ex"
  "ex_adapter (observe SL k r ex) = ex_adapter ex" "ex_program (observe SL k r ex) = ex_program ex"
  "ex_constructed (observe SL k r ex) = ex_constructed ex" "ex_initialized (observe SL k r ex) = ex_initialized ex"
  "ex_closed (observe SL k r ex) = ex_closed ex" "ex_next_step (observe SL k r ex) = ex_next_step ex"
  "ex_threads (observe SL k r ex) = ex_threads ex"
  "ex_teardown_attempted (observe SL k r ex) = ex_teardown_attempted ex"
  "ex_teardown_failed (observe SL k r ex) = ex_teardown_failed ex" "ex_deadline (observe SL k r ex) = ex_deadline ex"
  by (simp_all add: observe_def frame split: sum.split option.split)

lemma advance_end_frame [frame]:
  "sh_actors (ex_shared (advance_end f n ex)) = sh_actors (ex_shared ex)"
  "sh_stopping (ex_shared (advance_end f n ex)) = sh_stopping (ex_shared ex)"
  "sh_checkpoints (ex_shared (advance_end f n ex)) = sh_checkpoints (ex_shared ex)"
  "rep_events (ex_report (advance_end f n ex)) = rep_events (ex_report ex)"
  "rep_observations (ex_report (advance_end f n ex)) = rep_observations (ex_report ex)"
  "rep_cleanup (ex_report (advance_end f n ex)) = rep_cleanup (ex_report ex)"
  "ex_schedule (advance_end f n ex) = ex_schedule ex" "ex_policy (advance_end f n ex) = ex_policy ex"
  "ex_adapter (advance_end f n ex) = ex_adapter ex" "ex_program (advance_end f n ex) = ex_program ex"
  "ex_constructed (advance_end f n ex) = ex_constructed ex" "ex_initialized (advance_end f n ex) = ex_initialized ex"
  "ex_closed (advance_end f n ex) = ex_closed ex" "ex_next_step (advance_end f n ex) = ex_next_step ex"
  "ex_threads (advance_end f n ex) = ex_threads ex"
  "ex_teardown_attempted (advance_end f n ex) = ex_teardown_attempted ex"
  "ex_teardown_failed (advance_end f n ex) = ex_teardown_failed ex"
  "ex_deadline (advance_end f n ex) = ex_deadline ex"
  by (simp_all add: advance_end_def Let_def frame)

lemma record_arrival_frame [frame]:
  "sh_actors (ex_shared (record_arrival i ex)) = sh_actors (ex_shared ex)"
  "sh_stopping (ex_shared (record_arrival i ex)) = sh_stopping (ex_shared ex)"
  "sh_checkpoints (ex_shared (record_arrival i ex)) = sh_checkpoints (ex_shared ex)"
  "rep_observations (ex_report (record_arrival i ex)) = rep_observations (ex_report ex)"
  "rep_schedule_completed (ex_report (record_arrival i ex)) = rep_schedule_completed (ex_report ex)"
  "rep_cleanup (ex_report (record_arrival i ex)) = rep_cleanup (ex_report ex)"
  "ex_schedule (record_arrival i ex) = ex_schedule ex" "ex_policy (record_arrival i ex) = ex_policy ex"
  "ex_adapter (record_arrival i ex) = ex_adapter ex" "ex_program (record_arrival i ex) = ex_program ex"
  "ex_constructed (record_arrival i ex) = ex_constructed ex"
  "ex_initialized (record_arrival i ex) = ex_initialized ex" "ex_closed (record_arrival i ex) = ex_closed ex"
  "ex_next_step (record_arrival i ex) = ex_next_step ex" "ex_threads (record_arrival i ex) = ex_threads ex"
  "ex_teardown_attempted (record_arrival i ex) = ex_teardown_attempted ex"
  "ex_teardown_failed (record_arrival i ex) = ex_teardown_failed ex"
  "ex_deadline (record_arrival i ex) = ex_deadline ex"
  "sh_failed (ex_shared (record_arrival i ex)) = sh_failed (ex_shared ex)"
  by (simp_all add: record_arrival_def frame split: option.split)

lemma advance_observe_frame [frame]:
  "sh_actors (ex_shared (advance_observe SL r ex)) = sh_actors (ex_shared ex)"
  "sh_stopping (ex_shared (advance_observe SL r ex)) = sh_stopping (ex_shared ex)"
  "sh_checkpoints (ex_shared (advance_observe SL r ex)) = sh_checkpoints (ex_shared ex)"
  "rep_events (ex_report (advance_observe SL r ex)) = rep_events (ex_report ex)"
  "rep_schedule_completed (ex_report (advance_observe SL r ex)) = rep_schedule_completed (ex_report ex)"
  "rep_cleanup (ex_report (advance_observe SL r ex)) = rep_cleanup (ex_report ex)"
  "ex_schedule (advance_observe SL r ex) = ex_schedule ex" "ex_policy (advance_observe SL r ex) = ex_policy ex"
  "ex_adapter (advance_observe SL r ex) = ex_adapter ex" "ex_program (advance_observe SL r ex) = ex_program ex"
  "ex_constructed (advance_observe SL r ex) = ex_constructed ex"
  "ex_initialized (advance_observe SL r ex) = ex_initialized ex" "ex_closed (advance_observe SL r ex) = ex_closed ex"
  "ex_threads (advance_observe SL r ex) = ex_threads ex"
  "ex_teardown_attempted (advance_observe SL r ex) = ex_teardown_attempted ex"
  "ex_teardown_failed (advance_observe SL r ex) = ex_teardown_failed ex"
  "ex_deadline (advance_observe SL r ex) = ex_deadline ex"
  "ex_next_step (advance_observe SL r ex) = ex_next_step ex + 1"
  by (simp_all add: advance_observe_def frame)

lemma start_barrier_frame [frame]:
  "sh_actors (ex_shared (start_barrier SL f n r f' n' ex)) = sh_actors (ex_shared ex)"
  "sh_stopping (ex_shared (start_barrier SL f n r f' n' ex)) = sh_stopping (ex_shared ex)"
  "sh_checkpoints (ex_shared (start_barrier SL f n r f' n' ex)) = sh_checkpoints (ex_shared ex)"
  "rep_events (ex_report (start_barrier SL f n r f' n' ex)) = rep_events (ex_report ex)"
  "rep_schedule_completed (ex_report (start_barrier SL f n r f' n' ex)) = rep_schedule_completed (ex_report ex)"
  "rep_cleanup (ex_report (start_barrier SL f n r f' n' ex)) = rep_cleanup (ex_report ex)"
  "ex_schedule (start_barrier SL f n r f' n' ex) = ex_schedule ex"
  "ex_policy (start_barrier SL f n r f' n' ex) = ex_policy ex"
  "ex_adapter (start_barrier SL f n r f' n' ex) = ex_adapter ex"
  "ex_program (start_barrier SL f n r f' n' ex) = ex_program ex"
  "ex_constructed (start_barrier SL f n r f' n' ex) = ex_constructed ex"
  "ex_closed (start_barrier SL f n r f' n' ex) = ex_closed ex"
  "ex_next_step (start_barrier SL f n r f' n' ex) = ex_next_step ex"
  "ex_threads (start_barrier SL f n r f' n' ex) = ex_threads ex"
  "ex_teardown_attempted (start_barrier SL f n r f' n' ex) = ex_teardown_attempted ex"
  "ex_teardown_failed (start_barrier SL f n r f' n' ex) = ex_teardown_failed ex"
  "ex_deadline (start_barrier SL f n r f' n' ex) = ex_deadline ex"
  "ex_initialized (start_barrier SL f n r f' n' ex) = (\<not> ex_failed (start_barrier SL f n r f' n' ex))"
  by (simp_all add: start_barrier_def Let_def frame)

lemma start_spawn_frame [frame]:
  "sh_actors (ex_shared (start_spawn r ex)) = sh_actors (ex_shared ex)"
  "sh_stopping (ex_shared (start_spawn r ex)) = sh_stopping (ex_shared ex)"
  "sh_checkpoints (ex_shared (start_spawn r ex)) = sh_checkpoints (ex_shared ex)"
  "rep_events (ex_report (start_spawn r ex)) = rep_events (ex_report ex)"
  "rep_observations (ex_report (start_spawn r ex)) = rep_observations (ex_report ex)"
  "rep_schedule_completed (ex_report (start_spawn r ex)) = rep_schedule_completed (ex_report ex)"
  "rep_cleanup (ex_report (start_spawn r ex)) = rep_cleanup (ex_report ex)"
  "ex_schedule (start_spawn r ex) = ex_schedule ex" "ex_policy (start_spawn r ex) = ex_policy ex"
  "ex_adapter (start_spawn r ex) = ex_adapter ex" "ex_program (start_spawn r ex) = ex_program ex"
  "ex_constructed (start_spawn r ex) = ex_constructed ex" "ex_initialized (start_spawn r ex) = ex_initialized ex"
  "ex_closed (start_spawn r ex) = ex_closed ex" "ex_next_step (start_spawn r ex) = ex_next_step ex"
  "ex_teardown_attempted (start_spawn r ex) = ex_teardown_attempted ex"
  "ex_teardown_failed (start_spawn r ex) = ex_teardown_failed ex" "ex_deadline (start_spawn r ex) = ex_deadline ex"
  by (simp_all add: start_spawn_def frame split: option.split prod.split)

lemma permit_frame [frame]:
  "sh_stopping (ex_shared (permit i ex)) = sh_stopping (ex_shared ex)"
  "sh_checkpoints (ex_shared (permit i ex)) = sh_checkpoints (ex_shared ex)"
  "rep_observations (ex_report (permit i ex)) = rep_observations (ex_report ex)"
  "rep_schedule_completed (ex_report (permit i ex)) = rep_schedule_completed (ex_report ex)"
  "rep_cleanup (ex_report (permit i ex)) = rep_cleanup (ex_report ex)" "ex_schedule (permit i ex) = ex_schedule ex"
  "ex_policy (permit i ex) = ex_policy ex" "ex_adapter (permit i ex) = ex_adapter ex"
  "ex_program (permit i ex) = ex_program ex" "ex_constructed (permit i ex) = ex_constructed ex"
  "ex_initialized (permit i ex) = ex_initialized ex" "ex_closed (permit i ex) = ex_closed ex"
  "ex_next_step (permit i ex) = ex_next_step ex" "ex_threads (permit i ex) = ex_threads ex"
  "ex_teardown_attempted (permit i ex) = ex_teardown_attempted ex"
  "ex_teardown_failed (permit i ex) = ex_teardown_failed ex" "ex_deadline (permit i ex) = ex_deadline ex"
  "sh_failed (ex_shared (permit i ex)) = sh_failed (ex_shared ex)"
  "length (sh_actors (ex_shared (permit i ex))) = length (sh_actors (ex_shared ex))"
  by (simp_all add: permit_def frame)

lemma cleanup_report_frame [frame]:
  "sh_actors (ex_shared (cleanup_report ex)) = sh_actors (ex_shared ex)"
  "sh_stopping (ex_shared (cleanup_report ex)) = sh_stopping (ex_shared ex)"
  "sh_checkpoints (ex_shared (cleanup_report ex)) = sh_checkpoints (ex_shared ex)"
  "rep_events (ex_report (cleanup_report ex)) = rep_events (ex_report ex)"
  "rep_observations (ex_report (cleanup_report ex)) = rep_observations (ex_report ex)"
  "rep_schedule_completed (ex_report (cleanup_report ex)) = rep_schedule_completed (ex_report ex)"
  "ex_schedule (cleanup_report ex) = ex_schedule ex" "ex_policy (cleanup_report ex) = ex_policy ex"
  "ex_adapter (cleanup_report ex) = ex_adapter ex" "ex_program (cleanup_report ex) = ex_program ex"
  "ex_constructed (cleanup_report ex) = ex_constructed ex" "ex_initialized (cleanup_report ex) = ex_initialized ex"
  "ex_closed (cleanup_report ex) = ex_closed ex" "ex_next_step (cleanup_report ex) = ex_next_step ex"
  "ex_threads (cleanup_report ex) = ex_threads ex"
  "ex_teardown_attempted (cleanup_report ex) = ex_teardown_attempted ex"
  "ex_teardown_failed (cleanup_report ex) = ex_teardown_failed ex" "ex_deadline (cleanup_report ex) = ex_deadline ex"
  by (simp_all add: cleanup_report_def Let_def frame)

lemma teardown_result_frame [frame]:
  "sh_actors (ex_shared (teardown_result r ex)) = sh_actors (ex_shared ex)"
  "sh_stopping (ex_shared (teardown_result r ex)) = sh_stopping (ex_shared ex)"
  "sh_checkpoints (ex_shared (teardown_result r ex)) = sh_checkpoints (ex_shared ex)"
  "rep_events (ex_report (teardown_result r ex)) = rep_events (ex_report ex)"
  "rep_observations (ex_report (teardown_result r ex)) = rep_observations (ex_report ex)"
  "rep_schedule_completed (ex_report (teardown_result r ex)) = rep_schedule_completed (ex_report ex)"
  "rep_cleanup (ex_report (teardown_result r ex)) = rep_cleanup (ex_report ex)"
  "ex_schedule (teardown_result r ex) = ex_schedule ex" "ex_policy (teardown_result r ex) = ex_policy ex"
  "ex_adapter (teardown_result r ex) = ex_adapter ex" "ex_program (teardown_result r ex) = ex_program ex"
  "ex_constructed (teardown_result r ex) = ex_constructed ex"
  "ex_initialized (teardown_result r ex) = ex_initialized ex" "ex_closed (teardown_result r ex) = ex_closed ex"
  "ex_next_step (teardown_result r ex) = ex_next_step ex" "ex_threads (teardown_result r ex) = ex_threads ex"
  "ex_teardown_attempted (teardown_result r ex) = ex_teardown_attempted ex"
  "ex_deadline (teardown_result r ex) = ex_deadline ex"
  "rep_remaining (ex_report (teardown_result r ex)) = rep_remaining (ex_report ex)"
  by (simp_all add: teardown_result_def split: option.split)

lemma stop_actors_frame [frame]:
  "sh_actors (ex_shared (stop_actors ex)) = sh_actors (ex_shared ex)"
  "sh_checkpoints (ex_shared (stop_actors ex)) = sh_checkpoints (ex_shared ex)"
  "rep_events (ex_report (stop_actors ex)) = rep_events (ex_report ex)"
  "rep_observations (ex_report (stop_actors ex)) = rep_observations (ex_report ex)"
  "rep_schedule_completed (ex_report (stop_actors ex)) = rep_schedule_completed (ex_report ex)"
  "rep_cleanup (ex_report (stop_actors ex)) = rep_cleanup (ex_report ex)"
  "ex_schedule (stop_actors ex) = ex_schedule ex" "ex_policy (stop_actors ex) = ex_policy ex"
  "ex_adapter (stop_actors ex) = ex_adapter ex" "ex_program (stop_actors ex) = ex_program ex"
  "ex_constructed (stop_actors ex) = ex_constructed ex" "ex_initialized (stop_actors ex) = ex_initialized ex"
  "ex_closed (stop_actors ex) = ex_closed ex" "ex_next_step (stop_actors ex) = ex_next_step ex"
  "ex_threads (stop_actors ex) = ex_threads ex" "ex_teardown_attempted (stop_actors ex) = ex_teardown_attempted ex"
  "ex_teardown_failed (stop_actors ex) = ex_teardown_failed ex" "ex_deadline (stop_actors ex) = ex_deadline ex"
  "sh_stopping (ex_shared (stop_actors ex))" "sh_failed (ex_shared (stop_actors ex)) = sh_failed (ex_shared ex)"
  by (simp_all add: stop_actors_def)

section \<open>The transitions one by one\<close>

lemma list_update_same: "xs ! i = x \<Longrightarrow> xs[i := x] = xs"
  by auto

lemma worker_step_cases [consumes 1, case_names cancel park stopped permitted raised refused undeclared same parked ended caught finished exited]:
  assumes "worker_step a s = Some t"
  obtains "t = on_shared (\<lambda>sh. sh\<lparr>sh_cancelled := True\<rparr>) s"
  | i tid where "i < length (sys_tpcs s)" "tpc_of s i = TSpawned" "t = set_tpc i TStartWait (on_shared (thread_park i tid) s)"
  | i where "i < length (sys_tpcs s)" "tpc_of s i = TStartWait" "sh_stopping (ex_shared (sys_exec s))" "t = set_tpc i TReturned s"
  | i where "i < length (sys_tpcs s)" "tpc_of s i = TStartWait \<or> tpc_of s i = TArriveWait" "\<not> sh_stopping (ex_shared (sys_exec s))"
      "phase_of (ex_shared (sys_exec s)) i = PhRunning" "t = set_tpc i TBody s"
  | i where "i < length (sys_tpcs s)" "tpc_of s i = TArriveWait" "sh_stopping (ex_shared (sys_exec s))" "t = set_tpc i TBody s"
  | why where "t = on_shared (shared_fail OutUncontrolledActor why) s"
  | i cp why where "i < length (sys_tpcs s)" "tpc_of s i = TBody" "phase_of (ex_shared (sys_exec s)) i = PhRunning"
      "t = on_shared (\<lambda>sh. shared_fail OutUnexpectedCheckpoint why (upd_actor i (\<lambda>a. a\<lparr>act_checkpoint := cp, act_arrival := Some cp\<rparr>) sh)) s"
  | "t = s"
  | i cp where "i < length (sys_tpcs s)" "tpc_of s i = TBody" "phase_of (ex_shared (sys_exec s)) i = PhRunning"
      "\<not> sh_stopping (ex_shared (sys_exec s))" "schedule_identifier cp" "cp \<in> sh_checkpoints (ex_shared (sys_exec s))"
      "t = set_tpc i TArriveWait (on_shared (upd_actor i (\<lambda>a. a\<lparr>act_checkpoint := cp, act_arrival := Some cp, act_phase := PhParked\<rparr>)) s)"
  | i t' where "i < length (sys_tpcs s)" "tpc_of s i = TBody" "t' = TReturned \<or> (\<exists>w. t' = TRaised w)" "t = set_tpc i t' s"
  | i w where "i < length (sys_tpcs s)" "tpc_of s i = TRaised w" "t = set_tpc i TReturned (on_shared (thread_catch w) s)"
  | i where "i < length (sys_tpcs s)" "tpc_of s i = TReturned" "t = set_tpc i TFinished (on_shared (thread_finish i) s)"
  | i where "i < length (sys_tpcs s)" "tpc_of s i = TFinished" "t = set_tpc i TExited s"
proof (cases a)
  case (ActWake i)
  then have lt: "i < length (sys_tpcs s)" and wake: "worker_wake i s = Some t"
    using assms by (auto simp: worker_step_def split: if_splits)
  show ?thesis
  proof (cases "sh_stopping (ex_shared (sys_exec s))")
    case True
    then show ?thesis using lt wake that(3,5) by (auto simp: worker_wake_def parked_wakes_def split: tpc.splits)
  next
    case False
    then show ?thesis using lt wake that(4) by (auto simp: worker_wake_def parked_wakes_def split: tpc.splits if_splits)
  qed
next
  case (ActArrive i cp)
  then have lt: "i < length (sys_tpcs s)" and body: "tpc_of s i = TBody" and t: "t = worker_arrive i cp s"
    using assms by (auto simp: worker_step_def split: if_splits)
  show ?thesis
  proof (cases "act_thread (ex_actors (sys_exec s) ! i)")
    case None
    then show ?thesis using t that(8) by (simp add: worker_arrive_def)
  next
    case (Some tid)
    let ?sh = "ex_shared (sys_exec s)"
    have t: "t = set_tpc i (if fst (checkpoint_arrive False tid i cp ?sh) = ArriveParked then TArriveWait else TBody)
        (s\<lparr>sys_exec := (sys_exec s)\<lparr>ex_shared := snd (checkpoint_arrive False tid i cp ?sh)\<rparr>\<rparr>)"
      using t Some by (simp add: worker_arrive_def split: prod.splits)
    consider "phase_of ?sh i \<noteq> PhRunning" | "phase_of ?sh i = PhRunning" "sh_stopping ?sh"
      | "phase_of ?sh i = PhRunning" "\<not> sh_stopping ?sh" "\<not> schedule_identifier cp \<or> cp \<notin> sh_checkpoints ?sh"
      | "phase_of ?sh i = PhRunning" "\<not> sh_stopping ?sh" "schedule_identifier cp" "cp \<in> sh_checkpoints ?sh"
      by blast
    then show ?thesis
    proof cases
      case 1
      then show ?thesis using t Some body that(6) by (simp add: checkpoint_arrive_def list_update_same)
    next
      case 2
      then show ?thesis using t Some body that(8) by (simp add: checkpoint_arrive_def list_update_same)
    next
      case 3
      then show ?thesis using t Some body lt that(7) by (simp add: checkpoint_arrive_def list_update_same)
    next
      case 4
      then show ?thesis using t Some body lt that(9) by (simp add: checkpoint_arrive_def)
    qed
  qed
next
  case (ActForeign tid i cp)
  then show ?thesis using assms that(6) by (auto simp: worker_step_def checkpoint_arrive_def split: if_splits)
next
  case (ActBodyEnd i b)
  then show ?thesis using assms that(10) [of i "case b of BodyThrows w \<Rightarrow> TRaised w | _ \<Rightarrow> TReturned"]
    by (auto simp: worker_step_def split: if_splits body_end.splits)
next
  case (ActCatch i)
  then show ?thesis using assms that(11) by (auto simp: worker_step_def split: if_splits tpc.splits)
next
  case ActCancel
  then show ?thesis using assms that(1) by (simp add: worker_step_def)
next
  case (ActPark i tid)
  then show ?thesis using assms that(2) [of i tid] by (auto simp: worker_step_def split: if_splits)
next
  case (ActFinish i)
  then show ?thesis using assms that(12) [of i] by (auto simp: worker_step_def split: if_splits)
next
  case (ActExit i)
  then show ?thesis using assms that(13) [of i] by (auto simp: worker_step_def split: if_splits)
qed (use assms in \<open>simp_all add: worker_step_def\<close>)

lemma start_step_cases [consumes 1, case_names construct spawn barrier]:
  assumes "start_step SL a s = Some t"
  obtains f n f' n' where "sys_ctl s = CtlConstruct"
      "t = go (start_construct f n f' n' (sys_exec s)) (if \<not> ex_failed (start_construct f n f' n' (sys_exec s)) then CtlSpawn
         else if ex_constructed (start_construct f n f' n' (sys_exec s))
         then CtlCleanup (cleanup_timeout (ex_policy (start_construct f n f' n' (sys_exec s)))) else CtlIdle) s"
  | r k where "sys_ctl s = CtlSpawn" "k \<le> length (ex_actors (sys_exec s))"
      "k = length (ex_threads (start_spawn r (sys_exec s)))"
      "t = (go (start_spawn r (sys_exec s)) CtlBarrier s)\<lparr>sys_tpcs := map (\<lambda>i. if i < k then TSpawned else TNone)
         [0..<length (ex_actors (sys_exec s))]\<rparr>"
  | f n r f' n' where "sys_ctl s = CtlBarrier" "wait_over n all_parked (sys_exec s)"
      "t = go (start_barrier SL f n r f' n' (sys_exec s)) (if ex_initialized (start_barrier SL f n r f' n' (sys_exec s)) then CtlIdle
         else CtlCleanup (cleanup_timeout (ex_policy (start_barrier SL f n r f' n' (sys_exec s))))) s"
proof (cases a)
  case (ActConstruct f n f' n')
  then show ?thesis using assms that(1) [of f n f' n'] by (simp add: start_step_def Let_def split: ctl.splits)
next
  case (ActSpawn r)
  have "sys_ctl s = CtlSpawn" using assms ActSpawn by (simp add: start_step_def Let_def split: ctl.splits)
  then show ?thesis using assms ActSpawn that(2) [of "length (ex_threads (start_spawn r (sys_exec s)))" r]
    by (cases r) (auto simp: start_step_def Let_def start_spawn_def split: if_splits)
next
  case (ActBarrier f n r f' n')
  then show ?thesis using assms that(3) [of n f r f' n'] by (simp add: start_step_def Let_def split: ctl.splits if_splits)
qed (use assms in \<open>simp_all add: start_step_def Let_def split: ctl.splits\<close>)

lemma advance_step_cases [consumes 1, case_names refused permitted rejected joins arrived joined returned finish]:
  assumes "advance_step SL a s = Some t"
  obtains "t = s"
  | i req f n ex where "sys_ctl s = CtlIdle" "advance_begin True False req f n (sys_exec s) = Inr (ex, Some i)"
      "t = go ex (CtlWaiting i req) s"
  | req f n f' n' ex where "sys_ctl s = CtlIdle" "advance_begin True False req f n (sys_exec s) = Inr (ex, None)"
      "t = go (advance_end f' n' ex) CtlReturn s"
  | i req f n r ex where "sys_ctl s = CtlWaiting i req" "wait_over n (\<lambda>sh. phase_of sh i \<noteq> PhRunning) (sys_exec s)"
      "advance_arrived SL i req f n r (sys_exec s) = (ex, True)" "t = go ex (CtlJoining i) s"
  | i req f n r f' n' ex where "sys_ctl s = CtlWaiting i req" "wait_over n (\<lambda>sh. phase_of sh i \<noteq> PhRunning) (sys_exec s)"
      "advance_arrived SL i req f n r (sys_exec s) = (ex, False)" "t = go (advance_end f' n' ex) CtlReturn s"
  | i r f' n' where "sys_ctl s = CtlJoining i" "\<not> ex_threads (sys_exec s) ! i \<or> tpc_of s i = TExited"
      "t = go (advance_end f' n' (advance_joined SL i r (sys_exec s))) CtlReturn s"
  | "sys_ctl s = CtlReturn"
      "t = go (sys_exec s) (if ex_failed (sys_exec s) then CtlCleanup (cleanup_timeout (ex_policy (sys_exec s))) else CtlIdle) s"
  | ex where "sys_ctl s = CtlIdle" "finish_begin True False (sys_exec s) = Inr (ex, True)"
      "t = go ex (CtlCleanup (cleanup_timeout (ex_policy ex))) s"
proof (cases a)
  case (ActAdvance owner in_callback req f n f' n')
  then have idle: "sys_ctl s = CtlIdle" using assms by (simp add: advance_step_def Let_def split: ctl.splits)
  show ?thesis
  proof (cases "advance_begin owner in_callback req f n (sys_exec s)")
    case (Inl e)
    then show ?thesis using assms ActAdvance idle that(1) by (simp add: advance_step_def)
  next
    case (Inr r)
    then have "owner" "\<not> in_callback" by (auto simp: advance_begin_def split: if_splits)
    then show ?thesis using Inr assms ActAdvance idle that(2,3)
      by (cases r; cases "snd r") (auto simp: advance_step_def)
  qed
next
  case (ActArrived f n r f' n')
  then obtain i req where w: "sys_ctl s = CtlWaiting i req" using assms by (auto simp: advance_step_def Let_def split: ctl.splits)
  obtain ex b where ab: "advance_arrived SL i req f n r (sys_exec s) = (ex, b)" by fastforce
  show ?thesis
  proof (cases b)
    case True
    then have "wait_over n (\<lambda>sh. phase_of sh i \<noteq> PhRunning) (sys_exec s)" "t = go ex (CtlJoining i) s"
      using assms ActArrived w ab by (simp_all add: advance_step_def Let_def split: if_splits)
    then show ?thesis using w ab True that(4) [of i req n f r ex] by simp
  next
    case False
    then show ?thesis using assms ActArrived w ab that(5) [of i req n f r ex f' n'] by (simp add: advance_step_def Let_def split: if_splits)
  qed
next
  case (ActJoined r f' n')
  then show ?thesis using assms that(6) by (auto simp: advance_step_def Let_def split: ctl.splits if_splits)
next
  case ActReturn
  then show ?thesis using assms that(7) by (simp add: advance_step_def Let_def split: ctl.splits)
next
  case (ActFinishCall owner in_callback)
  then have idle: "sys_ctl s = CtlIdle" using assms by (simp add: advance_step_def Let_def split: ctl.splits)
  show ?thesis
  proof (cases "finish_begin owner in_callback (sys_exec s)")
    case (Inl e)
    then show ?thesis using assms ActFinishCall idle that(1) by (simp add: advance_step_def)
  next
    case (Inr r)
    then have "owner" "\<not> in_callback" by (auto simp: finish_begin_def split: if_splits)
    then show ?thesis using Inr assms ActFinishCall idle that(1,8)
      by (cases r; cases "snd r") (auto simp: advance_step_def)
  qed
qed (use assms in \<open>simp_all add: advance_step_def Let_def split: ctl.splits\<close>)

lemma cleanup_step_cases [consumes 1, case_names refused nothing stop waited skip joined collected report teardown destroy destroyed_one destroyed]:
  assumes "cleanup_step a s = Some t"
  obtains "sys_ctl s = CtlIdle \<or> (\<exists>u. sys_ctl s = CtlCleanup u)" "t = go (sys_exec s) CtlIdle s"
  | "sys_ctl s = CtlIdle \<or> (\<exists>u. sys_ctl s = CtlCleanup u)" "\<not> ex_constructed (sys_exec s)"
      "t = go ((sys_exec s)\<lparr>ex_closed := True\<rparr>) CtlIdle s"
  | u where "sys_ctl s = CtlIdle \<or> (\<exists>u. sys_ctl s = CtlCleanup u)" "ex_constructed (sys_exec s)"
      "t = go (stop_actors ((sys_exec s)\<lparr>ex_closed := True\<rparr>)) (CtlCleanWait u) s"
  | u where "sys_ctl s = CtlCleanWait u" "t = go (sys_exec s) (CtlCleanJoin 0) s"
  | k where "sys_ctl s = CtlCleanJoin k" "k < length (ex_threads (sys_exec s))"
      "\<not> (phase_of (ex_shared (sys_exec s)) k = PhFinished \<and> ex_threads (sys_exec s) ! k)" "t = go (sys_exec s) (CtlCleanJoin (k + 1)) s"
  | k where "sys_ctl s = CtlCleanJoin k" "k < length (ex_threads (sys_exec s))"
      "phase_of (ex_shared (sys_exec s)) k = PhFinished" "ex_threads (sys_exec s) ! k" "tpc_of s k = TExited"
      "t = go (join_actor k (sys_exec s)) (CtlCleanJoin (k + 1)) s"
  | k ex where "sys_ctl s = CtlCleanJoin k" "\<not> k < length (ex_threads (sys_exec s))" "cleanup_collect (sys_exec s) = (ex, True)"
      "t = go ex CtlTeardown s"
  | k ex where "sys_ctl s = CtlCleanJoin k" "\<not> k < length (ex_threads (sys_exec s))" "cleanup_collect (sys_exec s) = (ex, False)"
      "t = go ex CtlIdle s"
  | r where "sys_ctl s = CtlTeardown" "t = (go (cleanup_report (teardown_result r (sys_exec s))) CtlIdle s)
       \<lparr>sys_teardowns := sys_teardowns s + (if prog_teardown (ex_program (sys_exec s)) then 1 else 0)\<rparr>"
  | "sys_ctl s = CtlIdle" "t = go (stop_actors (sys_exec s)) (CtlDestroyJoin 0) s"
  | k where "sys_ctl s = CtlDestroyJoin k" "k < length (ex_threads (sys_exec s))" "ex_threads (sys_exec s) ! k \<longrightarrow> tpc_of s k = TExited"
      "t = go ((sys_exec s)\<lparr>ex_threads := (ex_threads (sys_exec s))[k := False]\<rparr>) (CtlDestroyJoin (k + 1)) s"
  | k where "sys_ctl s = CtlDestroyJoin k" "\<not> k < length (ex_threads (sys_exec s))"
      "t = (go (sys_exec s) CtlDestroyed s)\<lparr>sys_teardowns := sys_teardowns s
         + (if ex_constructed (sys_exec s) \<and> \<not> ex_teardown_attempted (sys_exec s) \<and> prog_teardown (ex_program (sys_exec s)) then 1 else 0)\<rparr>"
proof -
  note outcome = that
  have enter: thesis if "sys_ctl s = CtlIdle \<or> (\<exists>u. sys_ctl s = CtlCleanup u)" "t = enter_cleanup owner in_callback timeout now s"
    for owner in_callback timeout now
  proof (cases "owner \<and> \<not> in_callback \<and> valid_budget timeout")
    case True
    then show ?thesis using that outcome(2) outcome(3) [of "now + timeout"]
      by (cases "ex_constructed (sys_exec s)") (simp_all add: enter_cleanup_def cleanup_begin_def)
  next
    case False
    then show ?thesis using that outcome(1) by (auto simp: enter_cleanup_def cleanup_begin_def)
  qed
  note step = assms [unfolded cleanup_step_def Let_def]
  show thesis
  proof (cases a)
    case (ActCleanupCall owner in_callback timeout now)
    then show ?thesis using step by (intro enter) (auto split: ctl.splits)
  next
    case (ActCleanup now)
    then obtain u where "sys_ctl s = CtlCleanup u" "t = enter_cleanup True False u now s" using step by (auto split: ctl.splits)
    then show ?thesis by (intro enter) auto
  next
    case (ActCleanWait now)
    then show ?thesis using step outcome(4) by (auto split: ctl.splits if_splits)
  next
    case ActCleanJoin
    then obtain k where k: "sys_ctl s = CtlCleanJoin k" using step by (auto split: ctl.splits)
    show ?thesis
    proof (cases "k < length (ex_threads (sys_exec s))")
      case True
      then show ?thesis using step ActCleanJoin k outcome(5,6) by (auto simp: join_actor_def split: if_splits)
    next
      case False
      obtain ex b where c: "cleanup_collect (sys_exec s) = (ex, b)" by fastforce
      then show ?thesis using step ActCleanJoin k False outcome(7,8) by (cases b) auto
    qed
  next
    case (ActTeardown r)
    then show ?thesis using step outcome(9) [of r] by (auto split: ctl.splits)
  next
    case ActDestroy
    then show ?thesis using step outcome(10) by (auto split: ctl.splits)
  next
    case (ActDestroyJoin r)
    then obtain k where k: "sys_ctl s = CtlDestroyJoin k" using step by (auto split: ctl.splits)
    show ?thesis using step ActDestroyJoin k outcome(11) [of k] outcome(12) [of k]
      by (cases "k < length (ex_threads (sys_exec s))") (auto split: if_splits)
  qed (use step in \<open>simp_all split: ctl.splits\<close>)
qed

lemma exec_step_cases [consumes 1, case_names worker start advance cleanup]:
  assumes "exec_step SL a s = Some t"
  obtains "worker_step a s = Some t" | "start_step SL a s = Some t" | "advance_step SL a s = Some t" | "cleanup_step a s = Some t"
  using assms by (auto simp: exec_step_def split: option.splits)

end
