(* ===== verification/Schedule_Safety.thy ===== *)
theory Schedule_Safety
  imports Schedule_Transitions
begin

text \<open>
  Invariants of the reachable states of the coordinator: the first failure is kept, at most one actor runs,
  the observer runs only while every actor is parked or finished, the log of an execution that has not
  failed is the log its schedule prescribes, the teardown is called at most once and only after every
  thread is joined, and what a passed report means.
\<close>

section \<open>The first failure is kept\<close>

definition keeps_failure :: "Execution \<Rightarrow> Execution \<Rightarrow> bool" where
  "keeps_failure ex ex' =
     ((ex_failed ex \<longrightarrow> ex_failed ex' \<and> rep_outcome (ex_report ex') = rep_outcome (ex_report ex) \<and> rep_detail (ex_report ex') = rep_detail (ex_report ex))
      \<and> (ex_failed ex = (rep_outcome (ex_report ex) \<noteq> OutCompleted) \<longrightarrow> ex_failed ex' = (rep_outcome (ex_report ex') \<noteq> OutCompleted)))"

lemma keeps_refl [simp]: "keeps_failure ex ex"
  by (simp add: keeps_failure_def)

lemma keeps_trans: "keeps_failure ex ex' \<Longrightarrow> keeps_failure ex' ex'' \<Longrightarrow> keeps_failure ex ex''"
  by (auto simp: keeps_failure_def)

lemma keeps_fail: "oc \<noteq> OutCompleted \<Longrightarrow> keeps_failure ex (ex_fail oc why ex)"
  by (auto simp: keeps_failure_def shared_fail_def)

lemma keeps_same_report:
  "ex_failed ex' = ex_failed ex \<Longrightarrow> rep_outcome (ex_report ex') = rep_outcome (ex_report ex) \<Longrightarrow>
    rep_detail (ex_report ex') = rep_detail (ex_report ex) \<Longrightarrow> keeps_failure ex ex'"
  by (simp add: keeps_failure_def)

lemma keeps_at_most_fails: "at_most_fails ex ex' \<Longrightarrow> keeps_failure ex ex'"
  by (auto simp: at_most_fails_def keeps_failure_def shared_fail_def)

lemmas keeps_poll = keeps_at_most_fails [OF poll_at_most_fails]

lemma keeps_observe: "keeps_failure ex (observe SL k r ex)"
  by (auto simp: observe_def frame split: sum.splits option.splits intro: keeps_fail keeps_same_report)

lemma keeps_advance_end: "keeps_failure ex (advance_end f n ex)"
proof -
  have "keeps_failure (poll f n ex) (advance_end f n ex)"
    by (auto simp: advance_end_def Let_def frame intro: keeps_same_report)
  then show ?thesis by (rule keeps_trans [OF keeps_poll])
qed

lemma keeps_exec_event: "keeps_failure ex (exec_event kind k d cp ex)"
  by (auto simp: exec_event_def frame intro: keeps_same_report)

lemma keeps_upd_actor: "keeps_failure ex (upd_shared (upd_actor i f) ex)"
  by (auto simp: frame intro: keeps_same_report)

lemma keeps_permit: "keeps_failure ex (permit i ex)"
  unfolding permit_def by (rule keeps_trans [OF keeps_exec_event keeps_upd_actor])

lemma keeps_advance_begin: "advance_begin True False req f n ex = Inr (ex', r) \<Longrightarrow> keeps_failure ex ex'"
  by (auto simp: advance_begin_def Let_def split: if_splits option.splits
      intro: keeps_poll keeps_trans [OF keeps_poll keeps_permit] keeps_trans [OF keeps_poll keeps_fail])

lemma keeps_record_arrival: "keeps_failure ex (record_arrival i ex)"
  by (auto simp: record_arrival_def keeps_exec_event split: option.splits)

lemma keeps_advance_observe: "keeps_failure ex (advance_observe SL r ex)"
  unfolding advance_observe_def by (rule keeps_trans [OF _ keeps_observe]) (auto intro: keeps_same_report)

lemma keeps_arrival: "keeps_failure ex (record_arrival i (poll f n ex))"
  by (rule keeps_trans [OF keeps_poll keeps_record_arrival])

lemma keeps_advance_arrived: "advance_arrived SL i req f n r ex = (ex', b) \<Longrightarrow> keeps_failure ex ex'"
  using keeps_arrival [of ex i f n]
  by (auto simp: advance_arrived_def Let_def split: if_splits intro: keeps_trans keeps_fail keeps_advance_observe)

lemma keeps_advance_joined: "keeps_failure ex (advance_joined SL i r ex)"
  unfolding advance_joined_def
  by (rule keeps_trans [OF _ keeps_advance_observe]) (auto simp: frame intro: keeps_same_report)

lemma keeps_finish: "finish_begin True False ex = Inr (ex', b) \<Longrightarrow> keeps_failure ex ex'"
  by (auto simp: finish_begin_def split: if_splits intro: keeps_fail)

lemma keeps_cleanup_report: "keeps_failure ex (cleanup_report ex)"
  by (auto simp: cleanup_report_def Let_def frame intro: keeps_same_report)

lemma keeps_cleanup_collect: "cleanup_collect ex = (ex', b) \<Longrightarrow> keeps_failure ex ex'"
  by (auto simp: cleanup_collect_def cleanup_report_def Let_def frame split: if_splits intro!: keeps_same_report)

lemma keeps_teardown_result: "keeps_failure ex (teardown_result r ex)"
  by (auto simp: teardown_result_def split: option.splits intro: keeps_same_report)

lemma keeps_shared_chain:
  "keeps_failure ex ex' \<Longrightarrow> oc \<noteq> OutCompleted \<Longrightarrow> keeps_failure ex (ex'\<lparr>ex_shared := shared_fail oc why (ex_shared ex')\<rparr>)"
  by (rule keeps_trans [OF _ keeps_fail])

lemma keeps_start_construct: "keeps_failure ex (start_construct f n f' n' ex)"
  by (simp add: start_construct_def Let_def keeps_failure_def shared_fail_def check_program_failed check_program_outcome
      split: sum.split option.split)
    (use check_program_outcome [of "(ex_shared ex)\<lparr>sh_cancelled := False\<rparr>"] in auto)

lemma keeps_start_spawn: "keeps_failure ex (start_spawn r ex)"
  by (auto simp: start_spawn_def keeps_failure_def shared_fail_def split: option.splits)

lemma keeps_start_barrier: "keeps_failure ex (start_barrier SL f n r f' n' ex)"
proof -
  have "keeps_failure ex (if \<not> ex_failed (poll f n ex) then observe SL 0 r (poll f n ex) else poll f n ex)"
    by (simp add: keeps_poll keeps_trans [OF keeps_poll keeps_observe])
  from keeps_trans [OF this keeps_poll] show ?thesis
    unfolding start_barrier_def Let_def by (rule keeps_trans) (auto intro: keeps_same_report)
qed

text \<open>Every step of every thread keeps the failure.\<close>

lemma keeps_worker_step: "worker_step a s = Some t \<Longrightarrow> keeps_failure (sys_exec s) (sys_exec t)"
proof (induction rule: worker_step_cases)
  case (undeclared i cp why)
  then show ?case by (simp add: keeps_failure_def shared_fail_def frame)
qed (simp_all add: keeps_failure_def shared_fail_def thread_park_def thread_catch_def thread_finish_def frame)

lemma keeps_start_step: "start_step SL a s = Some t \<Longrightarrow> keeps_failure (sys_exec s) (sys_exec t)"
  by (erule start_step_cases) (simp_all add: keeps_start_construct keeps_start_spawn keeps_start_barrier)

lemma keeps_advance_step: "advance_step SL a s = Some t \<Longrightarrow> keeps_failure (sys_exec s) (sys_exec t)"
proof (induction rule: advance_step_cases)
  case (permitted i req f n ex)
  then show ?case using keeps_advance_begin by simp
next
  case (rejected req f n f' n' ex)
  then show ?case using keeps_trans [OF keeps_advance_begin keeps_advance_end] by simp
next
  case (joins i req f n r ex)
  then show ?case using keeps_advance_arrived by simp
next
  case (arrived i req f n r f' n' ex)
  then show ?case using keeps_trans [OF keeps_advance_arrived keeps_advance_end] by simp
next
  case (joined i r f' n')
  then show ?case using keeps_trans [OF keeps_advance_joined keeps_advance_end] by simp
qed (simp_all add: keeps_finish)

lemma keeps_cleanup_step: "cleanup_step a s = Some t \<Longrightarrow> keeps_failure (sys_exec s) (sys_exec t)"
proof (induction rule: cleanup_step_cases)
  case (collected k ex)
  then show ?case using keeps_cleanup_collect by simp
next
  case (report k ex)
  then show ?case using keeps_cleanup_collect by simp
next
  case (teardown r)
  then show ?case using keeps_trans [OF keeps_teardown_result keeps_cleanup_report] by simp
qed (auto simp: keeps_same_report stop_actors_def join_actor_def frame)

lemma keeps_exec_step: "exec_step SL a s = Some t \<Longrightarrow> keeps_failure (sys_exec s) (sys_exec t)"
  by (erule exec_step_cases) (rule keeps_worker_step keeps_start_step keeps_advance_step keeps_cleanup_step; assumption)+

lemma exec_run_keeps: "exec_run SL as s = Some t \<Longrightarrow> keeps_failure (sys_exec s) (sys_exec t)"
proof (induction as arbitrary: s)
  case (Cons a as)
  then show ?case using keeps_trans keeps_exec_step by (fastforce simp: bind_eq_Some_conv)
qed simp

text \<open>The primary failure is preserved: once an execution has failed, no later call, thread or environment
  event changes its outcome or its detail.\<close>

theorem primary_failure_kept:
  assumes "ex_failed (sys_exec s)" "exec_run SL as s = Some t"
  shows "ex_failed (sys_exec t) \<and> rep_outcome (ex_report (sys_exec t)) = rep_outcome (ex_report (sys_exec s))
    \<and> rep_detail (ex_report (sys_exec t)) = rep_detail (ex_report (sys_exec s))"
  using exec_run_keeps [OF assms(2)] assms(1) by (simp add: keeps_failure_def)

section \<open>Controller, threads and phases\<close>

fun destroying :: "ctl \<Rightarrow> bool" where
  "destroying (CtlDestroyJoin k) = True"
| "destroying CtlDestroyed = True"
| "destroying c = False"

fun controlling :: "ctl \<Rightarrow> bool" where
  "controlling CtlConstruct = True"
| "controlling CtlSpawn = True"
| "controlling CtlBarrier = True"
| "controlling (CtlWaiting i req) = True"
| "controlling (CtlJoining i) = True"
| "controlling CtlReturn = True"
| "controlling c = False"

abbreviation stopping :: "Sys \<Rightarrow> bool" where
  "stopping s \<equiv> sh_stopping (ex_shared (sys_exec s))"

abbreviation phase :: "Sys \<Rightarrow> nat \<Rightarrow> ActorPhase" where
  "phase s i \<equiv> act_phase (sh_actors (ex_shared (sys_exec s)) ! i)"

text \<open>Nobody stops the actors while the controller still starts or advances.\<close>

definition ctl_ok :: "Sys \<Rightarrow> bool" where
  "ctl_ok s = ((stopping s \<longrightarrow> ex_closed (sys_exec s) \<or> destroying (sys_ctl s))
     \<and> (controlling (sys_ctl s) \<longrightarrow> \<not> ex_closed (sys_exec s) \<and> \<not> stopping s))"

lemma advance_begin_frame:
  assumes "advance_begin True False req f n ex = Inr (ex', r)"
  shows "\<not> ex_closed ex" "\<not> ex_failed ex" "ex_initialized ex" "ex_closed ex' = ex_closed ex" "ex_initialized ex' = ex_initialized ex"
    "sh_stopping (ex_shared ex') = sh_stopping (ex_shared ex)" "ex_threads ex' = ex_threads ex"
    "length (ex_actors ex') = length (ex_actors ex)" "ex_next_step ex' = ex_next_step ex" "ex_schedule ex' = ex_schedule ex"
    "ex_constructed ex' = ex_constructed ex" "ex_policy ex' = ex_policy ex" "ex_adapter ex' = ex_adapter ex"
    "ex_program ex' = ex_program ex" "ex_teardown_attempted ex' = ex_teardown_attempted ex"
    "ex_teardown_failed ex' = ex_teardown_failed ex" "rep_cleanup (ex_report ex') = rep_cleanup (ex_report ex)"
    "rep_schedule_completed (ex_report ex') = rep_schedule_completed (ex_report ex)"
    "rep_observations (ex_report ex') = rep_observations (ex_report ex)"
    "sh_checkpoints (ex_shared ex') = sh_checkpoints (ex_shared ex)"
  using assms by (auto simp: advance_begin_def Let_def frame split: if_splits option.splits)

lemma advance_arrived_frame:
  assumes "advance_arrived SL i req f n r ex = (ex', b)"
  shows "ex_closed ex' = ex_closed ex" "ex_initialized ex' = ex_initialized ex"
    "sh_stopping (ex_shared ex') = sh_stopping (ex_shared ex)" "ex_threads ex' = ex_threads ex"
    "ex_actors ex' = ex_actors ex" "ex_schedule ex' = ex_schedule ex"
    "ex_constructed ex' = ex_constructed ex" "ex_policy ex' = ex_policy ex" "ex_adapter ex' = ex_adapter ex"
    "ex_program ex' = ex_program ex" "ex_teardown_attempted ex' = ex_teardown_attempted ex"
    "ex_teardown_failed ex' = ex_teardown_failed ex" "rep_cleanup (ex_report ex') = rep_cleanup (ex_report ex)"
    "rep_schedule_completed (ex_report ex') = rep_schedule_completed (ex_report ex)"
    "sh_checkpoints (ex_shared ex') = sh_checkpoints (ex_shared ex)"
  using assms by (auto simp: advance_arrived_def Let_def frame split: if_splits)

lemma advance_joined_frame [frame]:
  "ex_closed (advance_joined SL i r ex) = ex_closed ex" "ex_initialized (advance_joined SL i r ex) = ex_initialized ex"
  "sh_stopping (ex_shared (advance_joined SL i r ex)) = sh_stopping (ex_shared ex)"
  "ex_threads (advance_joined SL i r ex) = (ex_threads ex)[i := False]"
  "ex_actors (advance_joined SL i r ex) = (ex_actors ex)[i := (ex_actors ex ! i)\<lparr>act_joined := True\<rparr>]"
  "ex_schedule (advance_joined SL i r ex) = ex_schedule ex" "ex_constructed (advance_joined SL i r ex) = ex_constructed ex"
  "ex_policy (advance_joined SL i r ex) = ex_policy ex" "ex_adapter (advance_joined SL i r ex) = ex_adapter ex"
  "ex_program (advance_joined SL i r ex) = ex_program ex" "ex_next_step (advance_joined SL i r ex) = ex_next_step ex + 1"
  "ex_teardown_attempted (advance_joined SL i r ex) = ex_teardown_attempted ex"
  "ex_teardown_failed (advance_joined SL i r ex) = ex_teardown_failed ex"
  "rep_cleanup (ex_report (advance_joined SL i r ex)) = rep_cleanup (ex_report ex)"
  "rep_events (ex_report (advance_joined SL i r ex)) = rep_events (ex_report ex)"
  "rep_schedule_completed (ex_report (advance_joined SL i r ex)) = rep_schedule_completed (ex_report ex)"
  "sh_checkpoints (ex_shared (advance_joined SL i r ex)) = sh_checkpoints (ex_shared ex)"
  by (simp_all add: advance_joined_def frame) (simp_all add: upd_actor_def)

lemma finish_begin_frame:
  assumes "finish_begin True False ex = Inr (ex', True)"
  shows "\<not> ex_closed ex" "ex_constructed ex" "ex' = ex \<or> (\<exists>oc why. ex' = ex_fail oc why ex)"
  using assms by (auto simp: finish_begin_def split: if_splits)

lemma cleanup_collect_frame:
  assumes "cleanup_collect ex = (ex', b)"
  shows "ex_closed ex' = ex_closed ex" "ex_initialized ex' = ex_initialized ex" "ex_threads ex' = ex_threads ex"
    "sh_stopping (ex_shared ex') = sh_stopping (ex_shared ex)" "ex_actors ex' = ex_actors ex" "ex_schedule ex' = ex_schedule ex"
    "ex_constructed ex' = ex_constructed ex" "ex_policy ex' = ex_policy ex" "ex_adapter ex' = ex_adapter ex"
    "ex_program ex' = ex_program ex" "ex_next_step ex' = ex_next_step ex" "ex_teardown_failed ex' = ex_teardown_failed ex"
    "rep_schedule_completed (ex_report ex') = rep_schedule_completed (ex_report ex)"
    "rep_observations (ex_report ex') = rep_observations (ex_report ex)" "rep_events (ex_report ex') = rep_events (ex_report ex)"
    "sh_checkpoints (ex_shared ex') = sh_checkpoints (ex_shared ex)" "ex_failed ex' = ex_failed ex"
  using assms by (auto simp: cleanup_collect_def cleanup_report_def Let_def frame split: if_splits)

lemma worker_step_frame:
  assumes "worker_step a s = Some t"
  shows "sys_ctl t = sys_ctl s" "stopping t = stopping s" "ex_closed (sys_exec t) = ex_closed (sys_exec s)"
    "ex_initialized (sys_exec t) = ex_initialized (sys_exec s)" "ex_threads (sys_exec t) = ex_threads (sys_exec s)"
    "length (sys_tpcs t) = length (sys_tpcs s)" "length (ex_actors (sys_exec t)) = length (ex_actors (sys_exec s))"
    "ex_schedule (sys_exec t) = ex_schedule (sys_exec s)" "ex_next_step (sys_exec t) = ex_next_step (sys_exec s)"
    "ex_constructed (sys_exec t) = ex_constructed (sys_exec s)" "ex_policy (sys_exec t) = ex_policy (sys_exec s)"
    "ex_adapter (sys_exec t) = ex_adapter (sys_exec s)" "ex_program (sys_exec t) = ex_program (sys_exec s)"
    "ex_teardown_attempted (sys_exec t) = ex_teardown_attempted (sys_exec s)"
    "ex_teardown_failed (sys_exec t) = ex_teardown_failed (sys_exec s)" "sys_teardowns t = sys_teardowns s"
    "rep_events (ex_report (sys_exec t)) = rep_events (ex_report (sys_exec s))"
    "rep_observations (ex_report (sys_exec t)) = rep_observations (ex_report (sys_exec s))"
    "rep_cleanup (ex_report (sys_exec t)) = rep_cleanup (ex_report (sys_exec s))"
    "rep_schedule_completed (ex_report (sys_exec t)) = rep_schedule_completed (ex_report (sys_exec s))"
    "sh_checkpoints (ex_shared (sys_exec t)) = sh_checkpoints (ex_shared (sys_exec s))"
  using assms by (cases rule: worker_step_cases; simp add: thread_park_def thread_catch_def thread_finish_def frame)+

lemma ctl_ok_step: "exec_step SL a s = Some t \<Longrightarrow> ctl_ok s \<Longrightarrow> ctl_ok t"
proof (induction rule: exec_step_cases)
  case worker
  then show ?case by (simp add: ctl_ok_def worker_step_frame)
next
  case start
  then show ?case by (cases rule: start_step_cases) (simp_all add: ctl_ok_def frame split: if_splits)
next
  case advance
  then show ?case
  proof (cases rule: advance_step_cases)
    case (finish ex)
    then show ?thesis using advance(2) finish_begin_frame(3) [OF finish(2)] by (auto simp: ctl_ok_def frame)
  qed (auto simp: ctl_ok_def frame advance_begin_frame advance_arrived_frame)
next
  case cleanup
  then show ?case
    by (cases rule: cleanup_step_cases) (auto simp: ctl_ok_def frame cleanup_collect_frame join_actor_def)
qed

text \<open>How the program counter of a thread and the phase of its actor agree.\<close>

fun tpc_phase_ok :: "bool \<Rightarrow> tpc \<Rightarrow> ActorPhase \<Rightarrow> bool" where
  "tpc_phase_ok st TNone ph = (ph = PhStarting)"
| "tpc_phase_ok st TSpawned ph = (ph = PhStarting)"
| "tpc_phase_ok st TStartWait ph = (ph = PhParked \<or> ph = PhRunning)"
| "tpc_phase_ok st TArriveWait ph = (ph = PhParked \<or> ph = PhRunning)"
| "tpc_phase_ok st TBody ph = (ph = PhRunning \<or> st \<and> ph = PhParked)"
| "tpc_phase_ok st (TRaised w) ph = (ph = PhRunning \<or> st \<and> ph = PhParked)"
| "tpc_phase_ok st TReturned ph = (ph = PhRunning \<or> st \<and> ph = PhParked)"
| "tpc_phase_ok st TFinished ph = (ph = PhFinished)"
| "tpc_phase_ok st TExited ph = (ph = PhFinished)"

definition threads_ok :: "Sys \<Rightarrow> bool" where
  "threads_ok s = ((sys_tpcs s = [] \<or> length (sys_tpcs s) = length (ex_actors (sys_exec s)))
     \<and> (ex_initialized (sys_exec s) \<or> sys_ctl s = CtlBarrier \<longrightarrow> length (sys_tpcs s) = length (ex_actors (sys_exec s)))
     \<and> (\<not> ex_constructed (sys_exec s) \<or> sys_ctl s = CtlSpawn \<or> sys_ctl s = CtlConstruct \<longrightarrow> sys_tpcs s = [])
     \<and> (sys_ctl s = CtlSpawn \<longrightarrow> ex_constructed (sys_exec s))
     \<and> length (ex_threads (sys_exec s)) \<le> length (sys_tpcs s)
     \<and> (sys_tpcs s = [] \<longrightarrow> (\<forall>i < length (ex_actors (sys_exec s)). phase s i = PhStarting))
     \<and> (\<forall>i < length (sys_tpcs s). tpc_phase_ok (stopping s) (tpc_of s i) (phase s i))
     \<and> (\<forall>i < length (sys_tpcs s). (tpc_of s i = TNone) = (length (ex_threads (sys_exec s)) \<le> i))
     \<and> (\<forall>i < length (ex_threads (sys_exec s)). \<not> ex_threads (sys_exec s) ! i \<longrightarrow> tpc_of s i = TExited))"

lemma tpc_phase_ok_mono: "tpc_phase_ok st t ph \<Longrightarrow> tpc_phase_ok (st \<or> st') t ph"
  by (cases t) auto

text \<open>A step of one thread: its counter and its phase change, nothing else that matters here.\<close>

lemma threads_ok_worker:
  assumes "threads_ok s" "i < length (sys_tpcs s)" "tpc_of s i \<noteq> TNone" "tpc_of s i \<noteq> TExited" "t' \<noteq> TNone"
    and "sys_tpcs u = (sys_tpcs s)[i := t']" "ex_threads (sys_exec u) = ex_threads (sys_exec s)" "stopping u = stopping s"
    and "length (ex_actors (sys_exec u)) = length (ex_actors (sys_exec s))" "\<And>j. j < length (sys_tpcs s) \<Longrightarrow> j \<noteq> i \<Longrightarrow> phase u j = phase s j"
    and "tpc_phase_ok (stopping s) t' (phase u i)" "sys_ctl u = sys_ctl s" "ex_initialized (sys_exec u) = ex_initialized (sys_exec s)"
    and "ex_constructed (sys_exec u) = ex_constructed (sys_exec s)"
  shows "threads_ok u"
  using assms by (auto simp: threads_ok_def nth_list_update)

lemma threads_ok_same:
  assumes "threads_ok s" "sys_tpcs u = sys_tpcs s" "ex_threads (sys_exec u) = ex_threads (sys_exec s)" "stopping s \<longrightarrow> stopping u"
    and "length (ex_actors (sys_exec u)) = length (ex_actors (sys_exec s))" "\<And>j. phase u j = phase s j"
    and "ex_initialized (sys_exec u) \<or> sys_ctl u = CtlBarrier \<longrightarrow> ex_initialized (sys_exec s) \<or> sys_ctl s = CtlBarrier"
    and "\<not> ex_constructed (sys_exec u) \<or> sys_ctl u = CtlSpawn \<or> sys_ctl u = CtlConstruct \<longrightarrow>
      \<not> ex_constructed (sys_exec s) \<or> sys_ctl s = CtlSpawn \<or> sys_ctl s = CtlConstruct"
    and "sys_ctl u = CtlSpawn \<longrightarrow> ex_constructed (sys_exec u)"
  shows "threads_ok u"
proof -
  have "tpc_phase_ok (stopping u) t ph" if "tpc_phase_ok (stopping s) t ph" for t ph
    using tpc_phase_ok_mono [OF that, of "stopping u"] assms(4) by (cases "stopping s"; cases "stopping u") auto
  then show ?thesis using assms by (auto simp: threads_ok_def)
qed

text \<open>Joining one thread that has exited.\<close>

lemma threads_ok_join:
  assumes "threads_ok s" "\<not> ex_threads (sys_exec s) ! i \<or> tpc_of s i = TExited" "sys_tpcs u = sys_tpcs s"
    and "ex_threads (sys_exec u) = (ex_threads (sys_exec s))[i := False]" "stopping u = stopping s"
    and "length (ex_actors (sys_exec u)) = length (ex_actors (sys_exec s))" "\<And>j. phase u j = phase s j"
    and "ex_initialized (sys_exec u) = ex_initialized (sys_exec s)" "ex_constructed (sys_exec u) = ex_constructed (sys_exec s)"
    and "sys_ctl u \<noteq> CtlBarrier" "sys_ctl u \<noteq> CtlSpawn" "sys_ctl u \<noteq> CtlConstruct"
  shows "threads_ok u"
proof -
  have "tpc_of s j = TExited" if "j < length (ex_threads (sys_exec s))" "\<not> (ex_threads (sys_exec s))[i := False] ! j" for j
    using that assms(1,2) by (cases "i = j") (auto simp: threads_ok_def)
  then show ?thesis using assms by (auto simp: threads_ok_def)
qed

lemma phase_upd_actor: "act_phase (sh_actors (upd_actor i f sh) ! j) =
   (if i = j \<and> i < length (sh_actors sh) then act_phase (f (sh_actors sh ! i)) else act_phase (sh_actors sh ! j))"
  by (cases "i < length (sh_actors sh)") (auto simp: upd_actor_def nth_list_update list_update_beyond)

lemma actor_joined [frame]:
  "act_phase (as[i := (as ! i)\<lparr>act_joined := True\<rparr>] ! j) = act_phase (as ! j)"
  "act_checkpoint (as[i := (as ! i)\<lparr>act_joined := True\<rparr>] ! j) = act_checkpoint (as ! j)"
  "act_arrival (as[i := (as ! i)\<lparr>act_joined := True\<rparr>] ! j) = act_arrival (as ! j)"
  "act_decl (as[i := (as ! i)\<lparr>act_joined := True\<rparr>] ! j) = act_decl (as ! j)"
  by (cases "i < length as"; cases "i = j"; simp add: list_update_beyond)+

lemma threads_ok_len: "threads_ok s \<Longrightarrow> i < length (sys_tpcs s) \<Longrightarrow> i < length (ex_actors (sys_exec s))"
  by (auto simp: threads_ok_def)

lemma threads_ok_worker_step: "worker_step a s = Some t \<Longrightarrow> threads_ok s \<Longrightarrow> threads_ok t"
proof (induction rule: worker_step_cases)
  case (park i tid)
  show ?case by (rule threads_ok_worker [of s i TStartWait]) (use park threads_ok_len [of s i] in \<open>auto simp: thread_park_def phase_upd_actor frame\<close>)
next
  case (stopped i)
  show ?case by (rule threads_ok_worker [of s i TReturned]) (use stopped in \<open>auto simp: threads_ok_def\<close>)
next
  case (permitted i)
  show ?case by (rule threads_ok_worker [of s i TBody]) (use permitted in \<open>auto simp: phase_of_def\<close>)
next
  case (raised i)
  show ?case by (rule threads_ok_worker [of s i TBody]) (use raised in \<open>auto simp: threads_ok_def\<close>)
next
  case (undeclared i cp why)
  show ?case by (rule threads_ok_same [of s]) (use undeclared in \<open>auto simp: frame phase_upd_actor threads_ok_def\<close>)
next
  case (parked i cp)
  show ?case by (rule threads_ok_worker [of s i TArriveWait]) (use parked threads_ok_len [of s i] in \<open>auto simp: phase_upd_actor frame\<close>)
next
  case (ended i t')
  show ?case by (rule threads_ok_worker [of s i t']) (use ended in \<open>auto simp: threads_ok_def\<close>)
next
  case (caught i w)
  show ?case by (rule threads_ok_worker [of s i TReturned]) (use caught in \<open>auto simp: thread_catch_def frame threads_ok_def\<close>)
next
  case (finished i)
  show ?case by (rule threads_ok_worker [of s i TFinished]) (use finished threads_ok_len [of s i] in \<open>auto simp: thread_finish_def phase_upd_actor frame\<close>)
next
  case (exited i)
  show ?case by (rule threads_ok_worker [of s i TExited]) (use exited in \<open>auto simp: threads_ok_def\<close>)
next
  case cancel
  then show ?case by (simp add: threads_ok_def)
next
  case (refused why)
  then show ?case by (simp add: threads_ok_def frame)
qed simp

lemma find_actor_Some: "find_actor a as = Some i \<Longrightarrow> i < length as \<and> decl_actor (act_decl (as ! i)) = a"
  by (auto simp: find_actor_def find_Some_iff)

lemma advance_begin_Some:
  assumes "advance_begin True False req f n ex = Inr (ex', Some i)"
  shows "ex' = permit i ex" "i < length (ex_actors ex)" "decl_actor (act_decl (ex_actors ex ! i)) = step_actor req"
    "act_phase (ex_actors ex ! i) = PhParked" "ex_next_step ex < length (sched_steps (ex_schedule ex))"
    "req = sched_steps (ex_schedule ex) ! ex_next_step ex" "\<not> rep_schedule_completed (ex_report ex)"
proof -
  from assms have ok: "\<not> ex_failed (poll f n ex)"
    by (auto simp: advance_begin_def Let_def split: if_splits)
  then have "poll f n ex = ex" using poll_ok by blast
  with assms ok show "ex' = permit i ex" "i < length (ex_actors ex)" "decl_actor (act_decl (ex_actors ex ! i)) = step_actor req"
    "act_phase (ex_actors ex ! i) = PhParked" "ex_next_step ex < length (sched_steps (ex_schedule ex))"
    "req = sched_steps (ex_schedule ex) ! ex_next_step ex" "\<not> rep_schedule_completed (ex_report ex)"
    by (auto simp: advance_begin_def Let_def phase_of_def dest: find_actor_Some split: if_splits option.splits)
qed

lemma advance_begin_None:
  assumes "advance_begin True False req f n ex = Inr (ex', None)"
  shows "ex_actors ex' = ex_actors ex"
  using assms by (auto simp: advance_begin_def Let_def frame split: if_splits option.splits)

lemma permit_actors:
  "ex_actors (permit i ex) = (ex_actors ex)[i := (ex_actors ex ! i)\<lparr>act_arrival := None, act_phase := PhRunning\<rparr>]"
  by (simp add: permit_def upd_actor_def frame)

lemma start_construct_ok: "\<not> ex_failed (start_construct f n f' n' ex) \<Longrightarrow> ex_constructed (start_construct f n f' n' ex)"
  by (auto simp: start_construct_def Let_def frame split: if_splits sum.splits option.splits)

lemma start_spawn_joinable: "i < length (ex_threads (start_spawn r ex)) \<Longrightarrow> ex_threads (start_spawn r ex) ! i"
  by (auto simp: start_spawn_def split: option.splits)

lemma threads_ok_start_step: "start_step SL a s = Some t \<Longrightarrow> threads_ok s \<Longrightarrow> threads_ok t"
proof (induction rule: start_step_cases)
  case (construct f n f' n')
  show ?case by (rule threads_ok_same [of s]) (use construct start_construct_ok in \<open>auto simp: frame\<close>)
next
  case (spawn r k)
  then show ?case by (auto simp: threads_ok_def frame start_spawn_joinable)
next
  case (barrier f n r f' n')
  show ?case by (rule threads_ok_same [of s]) (use barrier in \<open>auto simp: frame\<close>)
qed

lemma threads_ok_advance_step: "advance_step SL a s = Some t \<Longrightarrow> threads_ok s \<Longrightarrow> ctl_ok s \<Longrightarrow> threads_ok t"
proof (induction rule: advance_step_cases)
  case (permitted i req f n ex)
  note began = advance_begin_frame [OF permitted(2)] advance_begin_Some [OF permitted(2)]
  have "\<not> stopping s" using permitted began by (auto simp: ctl_ok_def)
  moreover have len: "length (sys_tpcs s) = length (ex_actors (sys_exec s))"
    using permitted(4) began(3) by (simp add: threads_ok_def)
  then have "tpc_phase_ok (stopping s) (tpc_of s i) PhParked"
    using permitted(4) advance_begin_Some(2,4) [OF permitted(2)] by (auto simp: threads_ok_def)
  ultimately have "tpc_phase_ok (stopping s) (tpc_of s i) PhRunning" by (cases "tpc_of s i") simp_all
  with len permitted(1,3,4) began(11) advance_begin_Some(1,2) [OF permitted(2)] show ?case
    by (auto simp: threads_ok_def permit_actors nth_list_update frame)
next
  case (rejected req f n f' n' ex)
  show ?case
    by (rule threads_ok_same [of s]) (use rejected advance_begin_frame [OF rejected(2)] advance_begin_None [OF rejected(2)] in \<open>auto simp: frame\<close>)
next
  case (joins i req f n r ex)
  show ?case by (rule threads_ok_same [of s]) (use joins advance_arrived_frame [OF joins(3)] in \<open>auto simp: frame\<close>)
next
  case (arrived i req f n r f' n' ex)
  show ?case by (rule threads_ok_same [of s]) (use arrived advance_arrived_frame [OF arrived(3)] in \<open>auto simp: frame\<close>)
next
  case (joined i r f' n')
  show ?case by (rule threads_ok_join [OF joined(4,2)]) (simp_all add: joined(3) frame)
next
  case returned
  show ?case by (rule threads_ok_same [of s]) (use returned in auto)
next
  case (finish ex)
  show ?case by (rule threads_ok_same [of s]) (use finish finish_begin_frame(3) [OF finish(2)] in \<open>auto simp: frame\<close>)
qed simp

lemma threads_ok_cleanup_step: "cleanup_step a s = Some t \<Longrightarrow> threads_ok s \<Longrightarrow> threads_ok t"
proof (induction rule: cleanup_step_cases)
  case (stop u)
  show ?case by (rule threads_ok_same [of s]) (use stop in \<open>auto simp: frame\<close>)
next
  case (joined k)
  show ?case by (rule threads_ok_join [of s k]) (use joined in \<open>simp_all add: join_actor_def frame phase_upd_actor\<close>)
next
  case (collected k ex)
  show ?case by (rule threads_ok_same [of s]) (use collected cleanup_collect_frame [OF collected(3)] in \<open>auto simp: frame\<close>)
next
  case (report k ex)
  show ?case by (rule threads_ok_same [of s]) (use report cleanup_collect_frame [OF report(3)] in \<open>auto simp: frame\<close>)
next
  case destroy
  show ?case by (rule threads_ok_same [of s]) (use destroy in \<open>auto simp: frame\<close>)
next
  case (destroyed_one k)
  show ?case by (rule threads_ok_join [of s k]) (use destroyed_one in auto)
qed (auto simp: threads_ok_def frame)

lemma threads_ok_step: "exec_step SL a s = Some t \<Longrightarrow> threads_ok s \<Longrightarrow> ctl_ok s \<Longrightarrow> threads_ok t"
  by (erule exec_step_cases)
    (blast intro: threads_ok_worker_step threads_ok_start_step threads_ok_advance_step threads_ok_cleanup_step)+

section \<open>At most one actor runs\<close>

text \<open>The actor that runs is the one the controller waits for, unless the execution has failed.\<close>

definition excl_ok :: "Sys \<Rightarrow> bool" where
  "excl_ok s = ((\<forall>i < length (ex_actors (sys_exec s)). phase s i = PhRunning \<longrightarrow> ex_failed (sys_exec s) \<or> (\<exists>req. sys_ctl s = CtlWaiting i req))
     \<and> (\<forall>i < length (ex_actors (sys_exec s)). \<forall>j < length (ex_actors (sys_exec s)). phase s i = PhRunning \<and> phase s j = PhRunning \<longrightarrow> i = j))"

lemma failed_mono: "exec_step SL a s = Some t \<Longrightarrow> ex_failed (sys_exec s) \<Longrightarrow> ex_failed (sys_exec t)"
  using keeps_exec_step by (fastforce simp: keeps_failure_def)

text \<open>Steps that start no actor and do not leave a wait.\<close>

lemma excl_ok_same:
  assumes "excl_ok s" "length (ex_actors (sys_exec t)) = length (ex_actors (sys_exec s))"
    and "\<And>j. j < length (ex_actors (sys_exec s)) \<Longrightarrow> phase t j = PhRunning \<Longrightarrow> phase s j = PhRunning"
    and "ex_failed (sys_exec s) \<Longrightarrow> ex_failed (sys_exec t)"
    and "\<And>i req. sys_ctl s = CtlWaiting i req \<Longrightarrow> sys_ctl t = CtlWaiting i req \<or> ex_failed (sys_exec t) \<or> phase t i \<noteq> PhRunning"
  shows "excl_ok t"
  using assms unfolding excl_ok_def by metis

lemma advance_arrived_ok:
  assumes "advance_arrived SL i req f n r ex = (ex', b)" "\<not> ex_failed ex'"
    and "wait_over n (\<lambda>sh. phase_of sh i \<noteq> PhRunning) ex"
  shows "act_phase (ex_actors ex ! i) \<noteq> PhRunning" "\<not> ex_failed ex" "act_checkpoint (ex_actors ex ! i) = step_checkpoint req"
    "b \<longrightarrow> act_phase (ex_actors ex ! i) = PhFinished \<and> ex' = record_arrival i ex"
    "\<not> b \<longrightarrow> act_phase (ex_actors ex ! i) \<noteq> PhFinished \<and> ex' = advance_observe SL r (record_arrival i ex)"
proof -
  have "\<not> ex_failed (poll f n ex)"
  proof
    assume "ex_failed (poll f n ex)"
    then have "ex_failed ex'" using assms(1) by (auto simp: advance_arrived_def Let_def frame split: if_splits)
    with assms(2) show False ..
  qed
  from poll_ok [OF this] have ok: "\<not> ex_failed ex" "\<not> sh_cancelled (ex_shared ex)" "n < ex_deadline ex" "poll f n ex = ex" by auto
  then show "act_phase (ex_actors ex ! i) \<noteq> PhRunning" "\<not> ex_failed ex" using assms(3) by (auto simp: wait_over_def phase_of_def)
  show "act_checkpoint (ex_actors ex ! i) = step_checkpoint req"
    "b \<longrightarrow> act_phase (ex_actors ex ! i) = PhFinished \<and> ex' = record_arrival i ex"
    "\<not> b \<longrightarrow> act_phase (ex_actors ex ! i) \<noteq> PhFinished \<and> ex' = advance_observe SL r (record_arrival i ex)"
    using assms(1,2) ok by (auto simp: advance_arrived_def Let_def frame split: if_splits)
qed

lemma advance_end_failed: "ex_failed ex \<Longrightarrow> ex_failed (advance_end f n ex)"
  using keeps_advance_end [of ex f n] by (simp add: keeps_failure_def)

lemma worker_phase_running:
  assumes "worker_step a s = Some t" "threads_ok s" "phase t j = PhRunning"
  shows "phase s j = PhRunning"
  using assms(1)
proof (cases rule: worker_step_cases)
  case (park i tid)
  then show ?thesis using assms(2,3) by (auto simp: thread_park_def phase_upd_actor frame split: if_splits dest: threads_ok_len)
next
  case (finished i)
  then show ?thesis using assms(2,3) by (auto simp: thread_finish_def phase_upd_actor frame split: if_splits dest: threads_ok_len)
next
  case (parked i cp)
  then show ?thesis using assms(2,3) by (auto simp: phase_upd_actor frame split: if_splits dest: threads_ok_len)
qed (use assms(3) in \<open>auto simp: thread_catch_def phase_upd_actor frame split: if_splits\<close>)

lemma excl_ok_worker_step: "worker_step a s = Some t \<Longrightarrow> threads_ok s \<Longrightarrow> excl_ok s \<Longrightarrow> excl_ok t"
proof (rule excl_ok_same [of s])
  assume step: "worker_step a s = Some t"
  show "ex_failed (sys_exec s) \<Longrightarrow> ex_failed (sys_exec t)" using keeps_worker_step [OF step] by (simp add: keeps_failure_def)
qed (auto simp: worker_step_frame dest: worker_phase_running)

lemma start_step_actors: "start_step SL a s = Some t \<Longrightarrow> ex_actors (sys_exec t) = ex_actors (sys_exec s)"
  by (erule start_step_cases) (simp_all add: frame)

lemma cleanup_step_phase:
  assumes "cleanup_step a s = Some t"
  shows "length (ex_actors (sys_exec t)) = length (ex_actors (sys_exec s)) \<and> phase t j = phase s j"
  using assms
proof (cases rule: cleanup_step_cases)
  case (joined k)
  then show ?thesis by (simp add: join_actor_def phase_upd_actor frame)
qed (simp_all add: frame cleanup_collect_frame)

lemma cleanup_step_ctl: "cleanup_step a s = Some t \<Longrightarrow> sys_ctl s \<noteq> CtlWaiting i req"
  by (auto elim: cleanup_step_cases)

lemma start_step_ctl: "start_step SL a s = Some t \<Longrightarrow> sys_ctl s \<noteq> CtlWaiting i req"
  by (auto elim: start_step_cases)

lemma excl_ok_advance_step:
  assumes "advance_step SL a s = Some t" "excl_ok s"
  shows "excl_ok t"
  using assms(1)
proof (cases rule: advance_step_cases)
  case refused
  then show ?thesis using assms(2) by simp
next
  case (permitted i req f n ex)
  note ok = advance_begin_frame(2) [OF permitted(2)] advance_begin_Some(1,2) [OF permitted(2)]
  have "phase s j \<noteq> PhRunning" if "j < length (ex_actors (sys_exec s))" for j
    using that assms(2) permitted(1) ok(1) by (auto simp: excl_ok_def)
  then show ?thesis using permitted(1,3) ok(2,3) by (auto simp: excl_ok_def permit_actors nth_list_update)
next
  case (rejected req f n f' n' ex)
  show ?thesis
    by (rule excl_ok_same [OF assms(2)])
      (use rejected advance_begin_frame [OF rejected(2)] advance_begin_None [OF rejected(2)] in \<open>auto simp: frame\<close>)
next
  case (joins i req f n r ex)
  show ?thesis
    by (rule excl_ok_same [OF assms(2)])
      (use joins advance_arrived_frame [OF joins(3)] advance_arrived_ok [OF joins(3) _ joins(2)] in \<open>auto simp: frame\<close>)
next
  case (arrived i req f n r f' n' ex)
  show ?thesis
    by (rule excl_ok_same [OF assms(2)])
      (use arrived advance_arrived_frame [OF arrived(3)] advance_arrived_ok [OF arrived(3) _ arrived(2)] advance_end_failed
        in \<open>auto simp: frame\<close>)
next
  case (joined i r f' n')
  have "ex_failed (sys_exec s) \<Longrightarrow> ex_failed (sys_exec t)"
    using keeps_advance_step [OF assms(1)] by (simp add: keeps_failure_def)
  then show ?thesis by (intro excl_ok_same [OF assms(2)]) (simp_all add: joined frame)
next
  case returned
  show ?thesis by (rule excl_ok_same [OF assms(2)]) (use returned in auto)
next
  case (finish ex)
  show ?thesis by (rule excl_ok_same [OF assms(2)]) (use finish finish_begin_frame(3) [OF finish(2)] in \<open>auto simp: frame\<close>)
qed

lemma excl_ok_step:
  assumes "exec_step SL a s = Some t" "threads_ok s" "excl_ok s"
  shows "excl_ok t"
  using assms(1)
proof (cases rule: exec_step_cases)
  case worker
  then show ?thesis using excl_ok_worker_step assms(2,3) by blast
next
  case start
  show ?thesis
    by (rule excl_ok_same [OF assms(3)])
      (use start start_step_actors [OF start] start_step_ctl [OF start] failed_mono [OF assms(1)] in auto)
next
  case advance
  then show ?thesis using excl_ok_advance_step assms(3) by blast
next
  case cleanup
  show ?thesis
    by (rule excl_ok_same [OF assms(3)])
      (use cleanup cleanup_step_phase [OF cleanup] cleanup_step_ctl [OF cleanup] failed_mono [OF assms(1)] in auto)
qed

lemma sys_start_ok:
  assumes "sys_start SL in_callback generation random P A sched = Some s"
  shows "ctl_ok s \<and> threads_ok s \<and> excl_ok s"
  using assms
  by (auto simp: sys_start_def start_admit_def new_execution_def new_shared_def ctl_ok_def threads_ok_def excl_ok_def actor_new_def
      shared_fail_def split: admission.splits if_splits)

lemma reachable_ok: "exec_reachable SL P A sched s \<Longrightarrow> ctl_ok s \<and> threads_ok s \<and> excl_ok s"
proof (induction rule: exec_reachable.induct)
  case reach_start
  then show ?case by (rule sys_start_ok)
next
  case (reach_step s a t)
  then show ?case using ctl_ok_step threads_ok_step excl_ok_step by blast
qed

text \<open>C23: Mutual exclusion: in every reachable state, under every interleaving, at most one actor holds a permit,
  and until the actors are told to stop at most one worker executes application code.\<close>

theorem one_actor_runs:
  assumes "exec_reachable SL P A sched s" "i < length (sys_tpcs s)" "j < length (sys_tpcs s)" "i \<noteq> j"
  shows "\<not> (phase s i = PhRunning \<and> phase s j = PhRunning)
    \<and> (\<not> stopping s \<longrightarrow> \<not> (tpc_of s i = TBody \<and> tpc_of s j = TBody))"
proof -
  from reachable_ok [OF assms(1)] have ok: "threads_ok s" "excl_ok s" by auto
  have len: "i < length (ex_actors (sys_exec s))" "j < length (ex_actors (sys_exec s))"
    using threads_ok_len [OF ok(1)] assms(2,3) by auto
  have "phase s k = PhRunning" if "tpc_of s k = TBody" "\<not> stopping s" "k < length (sys_tpcs s)" for k
  proof -
    have "tpc_phase_ok (stopping s) (tpc_of s k) (phase s k)" using ok(1) that(3) by (simp add: threads_ok_def)
    then show ?thesis using that(1,2) by simp
  qed
  moreover have "\<not> (phase s i = PhRunning \<and> phase s j = PhRunning)"
    using ok(2) len assms(4) by (auto simp: excl_ok_def)
  ultimately show ?thesis using assms(2,3) by blast
qed

end
