(* ===== verification/Schedule_Log.thy ===== *)
theory Schedule_Log
  imports Schedule_Safety
begin

text \<open>
  What an execution records: the observer runs only at quiescence, the events of an execution that has not
  failed are those its schedule prescribes, there is one observation per executed step and one for the
  initial state, and the teardown runs once, after every thread is joined. The last theorem reads a passed
  report back: it determines the log.
\<close>

section \<open>Quiescence\<close>

definition init_ok :: "Sys \<Rightarrow> bool" where
  "init_ok s = ((ex_initialized (sys_exec s) \<longrightarrow> (\<forall>i < length (ex_actors (sys_exec s)). phase s i \<noteq> PhStarting))
     \<and> (\<forall>i req. sys_ctl s = CtlWaiting i req \<longrightarrow> ex_initialized (sys_exec s) \<and> i < length (ex_actors (sys_exec s)))
     \<and> (\<forall>i. sys_ctl s = CtlJoining i \<longrightarrow> ex_initialized (sys_exec s) \<and> i < length (ex_actors (sys_exec s)) \<and> phase s i = PhFinished
          \<and> (\<forall>j < length (ex_actors (sys_exec s)). phase s j \<noteq> PhRunning)))"

lemma worker_phase_starting:
  assumes "worker_step a s = Some t" "phase t j = PhStarting"
  shows "phase s j = PhStarting"
  using assms
  by (cases rule: worker_step_cases)
    (auto simp: thread_park_def thread_catch_def thread_finish_def phase_upd_actor frame split: if_splits)

lemma worker_phase_finished:
  assumes "worker_step a s = Some t" "threads_ok s" "phase s j = PhFinished" "j < length (ex_actors (sys_exec s))" "ex_initialized (sys_exec s)"
  shows "phase t j = PhFinished"
proof -
  have len: "length (sys_tpcs s) = length (ex_actors (sys_exec s))" using assms(2,5) by (simp add: threads_ok_def)
  then have "tpc_phase_ok (stopping s) (tpc_of s j) PhFinished" using assms(2-4) by (auto simp: threads_ok_def)
  then have "tpc_of s j = TFinished \<or> tpc_of s j = TExited" by (cases "tpc_of s j") auto
  with assms(1,3) show ?thesis
    by (cases rule: worker_step_cases)
      (auto simp: thread_park_def thread_catch_def thread_finish_def phase_upd_actor frame)
qed

lemma init_ok_worker_step:
  assumes "worker_step a s = Some t" "threads_ok s" "init_ok s"
  shows "init_ok t"
  using assms(3)
  by (auto simp: init_ok_def worker_step_frame [OF assms(1)] dest: worker_phase_starting [OF assms(1)] worker_phase_running [OF assms(1,2)]
      intro: worker_phase_finished [OF assms(1,2)])

lemma init_ok_start_step:
  assumes "start_step SL a s = Some t" "init_ok s"
  shows "init_ok t"
  using assms(1)
proof (cases rule: start_step_cases)
  case (barrier f n r f' n')
  have "phase s i \<noteq> PhStarting" if ok: "\<not> ex_failed (start_barrier SL f n r f' n' (sys_exec s))" and lt: "i < length (ex_actors (sys_exec s))" for i
  proof -
    have "\<not> ex_failed (poll f n (sys_exec s))"
      using ok keeps_trans [OF keeps_observe keeps_poll] by (auto simp: start_barrier_def Let_def poll_failed split: if_splits)
    from poll_ok [OF this] have "all_parked (ex_shared (sys_exec s))" using barrier(2) by (auto simp: wait_over_def)
    then show ?thesis using lt by (auto simp: all_parked_def list_all_iff)
  qed
  then show ?thesis using barrier(3) by (auto simp: init_ok_def frame)
qed (use assms(2) in \<open>auto simp: init_ok_def frame\<close>)

lemma init_ok_same:
  assumes "init_ok s" "length (ex_actors (sys_exec t)) = length (ex_actors (sys_exec s))" "\<And>j. phase t j = phase s j"
    and "ex_initialized (sys_exec t) = ex_initialized (sys_exec s)" "\<And>i req. sys_ctl t \<noteq> CtlWaiting i req" "\<And>i. sys_ctl t \<noteq> CtlJoining i"
  shows "init_ok t"
  using assms by (auto simp: init_ok_def)

lemma init_ok_advance_step:
  assumes "advance_step SL a s = Some t" "init_ok s" "excl_ok s"
  shows "init_ok t"
  using assms(1)
proof (cases rule: advance_step_cases)
  case refused
  then show ?thesis using assms(2) by simp
next
  case (permitted i req f n ex)
  then show ?thesis using assms(2) advance_begin_frame(3,8) [OF permitted(2)] advance_begin_Some(1,2) [OF permitted(2)]
    by (auto simp: init_ok_def permit_actors nth_list_update frame)
next
  case (rejected req f n f' n' ex)
  show ?thesis
    by (rule init_ok_same [OF assms(2)])
      (use rejected advance_begin_frame [OF rejected(2)] advance_begin_None [OF rejected(2)] in \<open>auto simp: frame\<close>)
next
  case (joins i req f n r ex)
  have "\<not> ex_failed ex" using joins(3) by (auto simp: advance_arrived_def Let_def frame split: if_splits)
  note ok = advance_arrived_ok [OF joins(3) this joins(2)]
  have "phase s j \<noteq> PhRunning" if "j < length (ex_actors (sys_exec s))" for j
    using that assms(3) joins(1) ok(1,2) by (auto simp: excl_ok_def)
  then show ?thesis using joins(1,4) assms(2) ok(4) advance_arrived_frame [OF joins(3)] by (auto simp: init_ok_def)
next
  case (arrived i req f n r f' n' ex)
  show ?thesis
    by (rule init_ok_same [OF assms(2)]) (use arrived advance_arrived_frame [OF arrived(3)] in \<open>auto simp: frame\<close>)
next
  case (joined i r f' n')
  show ?thesis by (rule init_ok_same [OF assms(2)]) (simp_all add: joined frame)
next
  case returned
  show ?thesis by (rule init_ok_same [OF assms(2)]) (simp_all add: returned)
next
  case (finish ex)
  show ?thesis by (rule init_ok_same [OF assms(2)]) (use finish finish_begin_frame(3) [OF finish(2)] in \<open>auto simp: frame\<close>)
qed

lemma cleanup_step_frame:
  assumes "cleanup_step a s = Some t"
  shows "ex_initialized (sys_exec t) = ex_initialized (sys_exec s)" "sys_ctl t \<noteq> CtlWaiting i req" "sys_ctl t \<noteq> CtlJoining i"
    "sys_tpcs t = sys_tpcs s" "ex_schedule (sys_exec t) = ex_schedule (sys_exec s)" "ex_next_step (sys_exec t) = ex_next_step (sys_exec s)"
    "ex_adapter (sys_exec t) = ex_adapter (sys_exec s)" "ex_program (sys_exec t) = ex_program (sys_exec s)"
    "rep_events (ex_report (sys_exec t)) = rep_events (ex_report (sys_exec s))"
    "rep_observations (ex_report (sys_exec t)) = rep_observations (ex_report (sys_exec s))"
    "rep_schedule_completed (ex_report (sys_exec t)) = rep_schedule_completed (ex_report (sys_exec s))"
    "sh_checkpoints (ex_shared (sys_exec t)) = sh_checkpoints (ex_shared (sys_exec s))"
  using assms by (cases rule: cleanup_step_cases; simp add: frame cleanup_collect_frame join_actor_def)+

lemma init_ok_step:
  assumes "exec_step SL a s = Some t" "threads_ok s" "excl_ok s" "init_ok s"
  shows "init_ok t"
  using assms(1)
proof (cases rule: exec_step_cases)
  case cleanup
  show ?thesis
    by (rule init_ok_same [OF assms(4)])
      (use cleanup_step_phase [OF cleanup] cleanup_step_frame [OF cleanup] in simp_all)
qed (use assms init_ok_worker_step init_ok_start_step init_ok_advance_step in blast)+

lemma reachable_init: "exec_reachable SL P A sched s \<Longrightarrow> init_ok s"
proof (induction rule: exec_reachable.induct)
  case reach_start
  then show ?case
    by (auto simp: sys_start_def start_admit_def new_execution_def init_ok_def split: admission.splits if_splits)
next
  case (reach_step s a t)
  then show ?case using init_ok_step reachable_ok by blast
qed

lemma advance_arrived_observed:
  assumes "advance_arrived SL i req f n r ex = (ex', b)" "rep_observations (ex_report ex') \<noteq> rep_observations (ex_report ex)"
    and "wait_over n (\<lambda>sh. phase_of sh i \<noteq> PhRunning) ex"
  shows "act_phase (ex_actors ex ! i) \<noteq> PhRunning" "\<not> ex_failed ex"
proof -
  have "\<not> ex_failed (poll f n ex)"
    using assms(1,2) by (auto simp: advance_arrived_def Let_def frame split: if_splits)
  from poll_ok [OF this] show "act_phase (ex_actors ex ! i) \<noteq> PhRunning" "\<not> ex_failed ex"
    using assms(3) by (auto simp: wait_over_def phase_of_def)
qed

lemma start_barrier_observed:
  assumes "rep_observations (ex_report (start_barrier SL f n r f' n' ex)) \<noteq> rep_observations (ex_report ex)"
    and "wait_over n all_parked ex"
  shows "all_parked (ex_shared ex)"
proof -
  have "\<not> ex_failed (poll f n ex)" using assms(1) by (auto simp: start_barrier_def Let_def frame split: if_splits)
  from poll_ok [OF this] show ?thesis using assms(2) by (auto simp: wait_over_def)
qed

text \<open>C24: The observer sees a quiescent program: whenever a step records an observation, every actor is parked
  or finished, and no worker is in application code or on its way out of it.\<close>

theorem observer_quiescent:
  assumes "exec_reachable SL P A sched s" "exec_step SL a s = Some t"
    and "rep_observations (ex_report (sys_exec t)) \<noteq> rep_observations (ex_report (sys_exec s))"
    and "i < length (ex_actors (sys_exec s))"
  shows "(phase s i = PhParked \<or> phase s i = PhFinished)
    \<and> (tpc_of s i = TStartWait \<or> tpc_of s i = TArriveWait \<or> tpc_of s i = TFinished \<or> tpc_of s i = TExited)"
proof -
  from reachable_ok [OF assms(1)] reachable_init [OF assms(1)]
  have ok: "ctl_ok s" "threads_ok s" "excl_ok s" "init_ok s" by auto
  have quiet: "(phase s i = PhParked \<or> phase s i = PhFinished) \<and> controlling (sys_ctl s) \<and> length (sys_tpcs s) = length (ex_actors (sys_exec s))"
    using assms(2)
  proof (cases rule: exec_step_cases)
    case worker
    then show ?thesis using assms(3) worker_step_frame(18) by blast
  next
    case start
    then show ?thesis
    proof (cases rule: start_step_cases)
      case (barrier f n r f' n')
      then have "all_parked (ex_shared (sys_exec s))" using start_barrier_observed assms(3) by simp
      then show ?thesis using assms(4) barrier(1) ok(2) by (auto simp: all_parked_def list_all_iff threads_ok_def)
    qed (use assms(3) in \<open>simp_all add: frame\<close>)
  next
    case advance
    then show ?thesis
    proof (cases rule: advance_step_cases)
      case (joins k req f n r ex)
      then show ?thesis using assms(3) by (auto simp: advance_arrived_def Let_def frame split: if_splits)
    next
      case (arrived k req f n r f' n' ex)
      then have "\<not> ex_failed (sys_exec s)" "phase s k \<noteq> PhRunning"
        using advance_arrived_observed [OF arrived(3) _ arrived(2)] assms(3) by (auto simp: frame)
      then have "phase s i \<noteq> PhRunning" using ok(3) arrived(1) assms(4) by (auto simp: excl_ok_def)
      then show ?thesis using ok(2,4) arrived(1) assms(4) by (cases "phase s i") (auto simp: init_ok_def threads_ok_def)
    next
      case (joined k r f' n')
      then show ?thesis using ok(2,4) assms(4) by (cases "phase s i") (auto simp: init_ok_def threads_ok_def)
    next
      case (finish ex)
      then show ?thesis using assms(3) finish_begin_frame(3) [OF finish(2)] by (auto simp: frame)
    qed (use assms(3) in \<open>auto simp: frame advance_begin_frame\<close>)
  next
    case cleanup
    then show ?thesis using assms(3) cleanup_step_frame(10) by blast
  qed
  then have "tpc_phase_ok False (tpc_of s i) (phase s i)" using ok(1,2) assms(4) by (auto simp: ctl_ok_def threads_ok_def)
  with quiet show ?thesis by (cases "tpc_of s i") auto
qed

section \<open>The log a schedule prescribes\<close>

text \<open>Where an actor stands after the first \<open>k\<close> steps.\<close>

definition position :: "Step list \<Rightarrow> nat \<Rightarrow> string \<Rightarrow> string" where
  "position ss k a = (let plan = actor_plan a (take k ss) in if plan = [] then ''$start'' else last plan)"

definition decl_for :: "ActorDeclaration list \<Rightarrow> string \<Rightarrow> ActorDeclaration" where
  "decl_for as a = (case List.find (\<lambda>d. decl_actor d = a) as of Some d \<Rightarrow> d | None \<Rightarrow> \<lparr> decl_actor = a, decl_operation = [] \<rparr>)"

definition permit_event :: "ActorDeclaration list \<Rightarrow> Step list \<Rightarrow> nat \<Rightarrow> Json" where
  "permit_event as ss k = event_json (2 * k) ''permit'' k (decl_for as (step_actor (ss ! k))) (position ss k (step_actor (ss ! k)))"

definition arrival_event :: "ActorDeclaration list \<Rightarrow> Step list \<Rightarrow> nat \<Rightarrow> Json" where
  "arrival_event as ss k = event_json (2 * k + 1) ''arrival'' k (decl_for as (step_actor (ss ! k))) (step_checkpoint (ss ! k))"

definition schedule_events :: "ActorDeclaration list \<Rightarrow> Step list \<Rightarrow> nat \<Rightarrow> Json list" where
  "schedule_events as ss k = concat (map (\<lambda>j. [permit_event as ss j, arrival_event as ss j]) [0..<k])"

lemma schedule_events_Suc:
  "schedule_events as ss (Suc k) = schedule_events as ss k @ [permit_event as ss k, arrival_event as ss k]"
  by (simp add: schedule_events_def)

lemma length_schedule_events: "length (schedule_events as ss k) = 2 * k"
  by (induction k) (simp_all add: schedule_events_Suc, simp add: schedule_events_def)

lemma position_0: "position ss 0 a = ''$start''"
  by (simp add: position_def)

lemma position_Suc:
  assumes "k < length ss"
  shows "position ss (Suc k) a = (if step_actor (ss ! k) = a then step_checkpoint (ss ! k) else position ss k a)"
  using assms by (simp add: position_def take_Suc_conv_app_nth actor_plan_def Let_def)

lemma decl_for_nth:
  assumes "distinct (map decl_actor as)" "i < length as"
  shows "decl_for as (decl_actor (as ! i)) = as ! i"
proof -
  have "List.find (\<lambda>d. decl_actor d = decl_actor (as ! i)) as = Some (as ! i)"
    using assms by (auto simp: find_Some_iff distinct_conv_nth intro!: exI [of _ i])
  then show ?thesis by (simp add: decl_for_def)
qed

abbreviation decls :: "Sys \<Rightarrow> ActorDeclaration list" where
  "decls s \<equiv> map act_decl (ex_actors (sys_exec s))"

abbreviation steps :: "Sys \<Rightarrow> Step list" where
  "steps s \<equiv> sched_steps (ex_schedule (sys_exec s))"

abbreviation next_step :: "Sys \<Rightarrow> nat" where
  "next_step s \<equiv> ex_next_step (sys_exec s)"

abbreviation events :: "Sys \<Rightarrow> Json list" where
  "events s \<equiv> rep_events (ex_report (sys_exec s))"

abbreviation actor_at :: "Sys \<Rightarrow> nat \<Rightarrow> ActorState" where
  "actor_at s i \<equiv> ex_actors (sys_exec s) ! i"

text \<open>The actor a step is about, while the controller works on it.\<close>

definition busy_with :: "Sys \<Rightarrow> nat \<Rightarrow> bool" where
  "busy_with s i = (next_step s < length (steps s) \<and> i < length (ex_actors (sys_exec s))
     \<and> decl_actor (act_decl (actor_at s i)) = step_actor (steps s ! next_step s))"

definition ctl_log :: "Sys \<Rightarrow> bool" where
  "ctl_log s = (case sys_ctl s of
     CtlWaiting i req \<Rightarrow> busy_with s i \<and> req = steps s ! next_step s
       \<and> events s = schedule_events (decls s) (steps s) (next_step s) @ [permit_event (decls s) (steps s) (next_step s)]
       \<and> (if phase s i = PhRunning then act_arrival (actor_at s i) = None
          else act_arrival (actor_at s i) = Some (act_checkpoint (actor_at s i)))
   | CtlJoining i \<Rightarrow> busy_with s i \<and> events s = schedule_events (decls s) (steps s) (Suc (next_step s))
       \<and> act_checkpoint (actor_at s i) = step_checkpoint (steps s ! next_step s)
   | _ \<Rightarrow> events s = schedule_events (decls s) (steps s) (next_step s))"

fun busy :: "ctl \<Rightarrow> nat option" where
  "busy (CtlWaiting i req) = Some i"
| "busy (CtlJoining i) = Some i"
| "busy c = None"

definition positions_ok :: "Sys \<Rightarrow> bool" where
  "positions_ok s = (\<not> stopping s \<longrightarrow> (\<forall>i < length (ex_actors (sys_exec s)). busy (sys_ctl s) \<noteq> Some i \<longrightarrow>
     act_checkpoint (actor_at s i) = position (steps s) (next_step s) (decl_actor (act_decl (actor_at s i)))))"

definition log_ok :: "Sys \<Rightarrow> bool" where
  "log_ok s = (distinct (map decl_actor (decls s)) \<and> (\<not> ex_failed (sys_exec s) \<longrightarrow> ctl_log s \<and> positions_ok s))"

lemma ctl_log_idle: "busy (sys_ctl s) = None \<Longrightarrow> ctl_log s = (events s = schedule_events (decls s) (steps s) (next_step s))"
  by (cases "sys_ctl s") (simp_all add: ctl_log_def)

lemma decls_upd_actor:
  "(\<And>a. act_decl (f a) = act_decl a) \<Longrightarrow> map act_decl (sh_actors (upd_actor i f sh)) = map act_decl (sh_actors sh)"
  by (cases "i < length (sh_actors sh)") (auto simp: upd_actor_def map_update list_update_beyond list_update_same)

lemma worker_step_decls: "worker_step a s = Some t \<Longrightarrow> decls t = decls s"
  by (erule worker_step_cases)
    (simp_all add: thread_park_def thread_catch_def thread_finish_def decls_upd_actor frame)

text \<open>Steps after which the same actors stand where they stood, with no actor busy before or after.\<close>

lemma log_ok_idle:
  assumes "log_ok s" "ex_failed (sys_exec s) \<Longrightarrow> ex_failed (sys_exec t)" "busy (sys_ctl s) = None" "busy (sys_ctl t) = None"
    and "events t = events s" "steps t = steps s" "next_step t = next_step s" "decls t = decls s" "stopping s \<Longrightarrow> stopping t"
    and "\<And>i. act_checkpoint (actor_at t i) = act_checkpoint (actor_at s i)"
  shows "log_ok t"
proof -
  have "act_decl (actor_at t i) = act_decl (actor_at s i)" if "i < length (ex_actors (sys_exec s))" for i
    using assms(8) that by (metis length_map nth_map)
  moreover have "length (ex_actors (sys_exec t)) = length (ex_actors (sys_exec s))" using assms(8) by (metis length_map)
  ultimately show ?thesis using assms by (auto simp: log_ok_def ctl_log_idle positions_ok_def)
qed

lemma log_ok_cong:
  assumes "log_ok s" "ex_failed (sys_exec s) \<Longrightarrow> ex_failed (sys_exec t)" "sys_ctl t = sys_ctl s"
    and "events t = events s" "steps t = steps s" "next_step t = next_step s" "stopping t = stopping s"
    and "ex_actors (sys_exec t) = ex_actors (sys_exec s)"
  shows "log_ok t"
  using assms by (auto simp: log_ok_def ctl_log_def positions_ok_def busy_with_def split: ctl.splits)

text \<open>A permitted actor parks or finishes at a checkpoint.\<close>

lemma log_ok_arrives:
  assumes "log_ok s" "excl_ok s" "ex_failed (sys_exec t) = ex_failed (sys_exec s)" "sys_ctl t = sys_ctl s"
    and "events t = events s" "steps t = steps s" "next_step t = next_step s" "stopping t = stopping s"
    and "ex_actors (sys_exec t) = (ex_actors (sys_exec s))[i := a]" "i < length (ex_actors (sys_exec s))" "phase s i = PhRunning"
    and "act_decl a = act_decl (actor_at s i)" "act_phase a \<noteq> PhRunning"
    and "act_arrival (actor_at s i) = None \<Longrightarrow> act_arrival a = Some (act_checkpoint a)"
  shows "log_ok t"
proof -
  have decl: "decls t = decls s" using assms(9,10,12) by (auto intro!: nth_equalityI simp: nth_list_update)
  have "ctl_log t \<and> positions_ok t" if "\<not> ex_failed (sys_exec t)"
  proof -
    from that assms(2,3,10,11) obtain req where w: "sys_ctl s = CtlWaiting i req" by (auto simp: excl_ok_def)
    have "ctl_log s" "positions_ok s" using assms(1,3) that by (auto simp: log_ok_def)
    then show ?thesis using w assms decl by (auto simp: ctl_log_def positions_ok_def busy_with_def nth_list_update)
  qed
  then show ?thesis using assms(1) decl by (simp add: log_ok_def)
qed

lemma log_ok_worker_step:
  assumes "worker_step a s = Some t" "log_ok s" "ctl_ok s" "threads_ok s" "excl_ok s" "init_ok s"
  shows "log_ok t"
proof -
  have fail: "ex_failed (sys_exec s) \<Longrightarrow> ex_failed (sys_exec t)"
    using keeps_worker_step [OF assms(1)] by (simp add: keeps_failure_def)
  have quick: ?thesis if "ex_failed (sys_exec t)" using assms(2) worker_step_decls [OF assms(1)] that by (simp add: log_ok_def)
  have same: ?thesis if "ex_actors (sys_exec t) = ex_actors (sys_exec s)"
    by (rule log_ok_cong [OF assms(2) fail]) (simp_all add: worker_step_frame [OF assms(1)] that)
  show ?thesis using assms(1)
  proof (cases rule: worker_step_cases)
    case (park i tid)
    have lt: "i < length (ex_actors (sys_exec s))" using threads_ok_len assms(4) park(1) by blast
    have "phase s i = PhStarting" using assms(4) park(1,2) by (auto simp: threads_ok_def)
    then have "\<not> ex_initialized (sys_exec s)" using assms(6) lt by (auto simp: init_ok_def)
    then have "busy (sys_ctl s) = None" using assms(6) by (cases "sys_ctl s") (auto simp: init_ok_def)
    moreover have "act_checkpoint (actor_at t j) = act_checkpoint (actor_at s j)" for j
      using lt by (cases "i = j") (simp_all add: park(3) thread_park_def upd_actor_def)
    ultimately show ?thesis
      by (intro log_ok_idle [OF assms(2) fail]) (simp_all add: worker_step_frame [OF assms(1)] worker_step_decls [OF assms(1)])
  next
    case (undeclared i cp why)
    then show ?thesis by (intro quick) (simp add: frame)
  next
    case (parked i cp)
    have lt: "i < length (ex_actors (sys_exec s))" using threads_ok_len assms(4) parked(1) by blast
    show ?thesis
      by (rule log_ok_arrives [OF assms(2,5), where i = i
            and a = "(actor_at s i)\<lparr>act_checkpoint := cp, act_arrival := Some cp, act_phase := PhParked\<rparr>"])
        (use lt parked(3) in \<open>simp_all add: parked(7) upd_actor_def phase_of_def\<close>)
  next
    case (caught i w)
    then show ?thesis by (intro quick) (simp add: thread_catch_def frame)
  next
    case (finished i)
    have lt: "i < length (ex_actors (sys_exec s))" using threads_ok_len assms(4) finished(1) by blast
    have tp: "phase s i = PhRunning \<or> stopping s" using assms(4) finished(1,2) by (auto simp: threads_ok_def)
    show ?thesis
    proof (cases "phase s i = PhRunning")
      case True
      show ?thesis
        by (rule log_ok_arrives [OF assms(2,5), where i = i and a = "(actor_at s i)\<lparr>act_checkpoint := completion, act_arrival :=
              (case act_arrival (actor_at s i) of None \<Rightarrow> Some completion | Some c \<Rightarrow> Some c), act_phase := PhFinished\<rparr>"])
          (use lt True in \<open>simp_all add: finished(3) thread_finish_def upd_actor_def\<close>)
    next
      case False
      then have st: "stopping s" using tp by blast
      then have "busy (sys_ctl s) = None" using assms(3) by (cases "sys_ctl s") (auto simp: ctl_ok_def)
      then show ?thesis using st assms(2) fail worker_step_decls [OF assms(1)]
        by (auto simp: log_ok_def ctl_log_idle positions_ok_def worker_step_frame [OF assms(1)])
    qed
  qed (rule same, simp add: frame)+
qed

lemma start_step_frame:
  assumes "start_step SL a s = Some t"
  shows "ex_actors (sys_exec t) = ex_actors (sys_exec s)" "events t = events s" "steps t = steps s" "next_step t = next_step s"
    "busy (sys_ctl s) = None" "busy (sys_ctl t) = None" "stopping t = stopping s" "ex_schedule (sys_exec t) = ex_schedule (sys_exec s)"
    "rep_schedule_completed (ex_report (sys_exec t)) = rep_schedule_completed (ex_report (sys_exec s))"
    "ex_adapter (sys_exec t) = ex_adapter (sys_exec s)" "rep_cleanup (ex_report (sys_exec t)) = rep_cleanup (ex_report (sys_exec s))"
    "ex_teardown_attempted (sys_exec t) = ex_teardown_attempted (sys_exec s)"
    "ex_teardown_failed (sys_exec t) = ex_teardown_failed (sys_exec s)" "sys_teardowns t = sys_teardowns s"
  using assms by (cases rule: start_step_cases; simp add: frame)+

lemma join_actor_frame [frame]:
  "map act_decl (ex_actors (join_actor k ex)) = map act_decl (ex_actors ex)"
  "act_checkpoint (ex_actors (join_actor k ex) ! i) = act_checkpoint (ex_actors ex ! i)"
  "sh_stopping (ex_shared (join_actor k ex)) = sh_stopping (ex_shared ex)"
  by (simp_all add: join_actor_def frame decls_upd_actor) (simp add: upd_actor_def frame)

lemma cleanup_step_actor:
  assumes "cleanup_step a s = Some t"
  shows "decls t = decls s \<and> act_checkpoint (actor_at t i) = act_checkpoint (actor_at s i) \<and> busy (sys_ctl s) = None
    \<and> busy (sys_ctl t) = None \<and> (stopping s \<longrightarrow> stopping t)"
  using assms
proof (cases rule: cleanup_step_cases)
  case (stop u)
  then show ?thesis by (auto simp: frame)
next
  case destroy
  then show ?thesis by (auto simp: frame)
qed (auto simp: frame cleanup_collect_frame)

lemma log_ok_permit:
  assumes "log_ok s" "ctl_ok s" "sys_ctl s = CtlIdle" "advance_begin True False req f n (sys_exec s) = Inr (ex, Some i)"
    and "t = go ex (CtlWaiting i req) s"
  shows "log_ok t"
proof -
  note began = advance_begin_Some [OF assms(4)] advance_begin_frame(1,2) [OF assms(4)]
  have ns: "\<not> stopping s" using assms(2,3) began by (auto simp: ctl_ok_def)
  have ok: "ctl_log s" "positions_ok s" "distinct (map decl_actor (decls s))" using assms(1) began by (auto simp: log_ok_def)
  have decl: "decls t = decls s" using assms(5) began(1) by (simp add: permit_def frame decls_upd_actor)
  have at: "actor_at t i = (actor_at s i)\<lparr>act_arrival := None, act_phase := PhRunning\<rparr>"
    using assms(5) began(1,2) by (simp add: permit_actors)
  have other: "actor_at t j = actor_at s j" if "j \<noteq> i" for j using assms(5) began(1) that by (simp add: permit_actors)
  have pos: "act_checkpoint (actor_at s i) = position (steps s) (next_step s) (step_actor req)"
    using ok(2) ns began(2,3) assms(3) by (auto simp: positions_ok_def)
  have decl_i: "decl_for (decls s) (step_actor req) = act_decl (actor_at s i)"
    using decl_for_nth [OF ok(3), of i] began(2,3) by simp
  have ev: "events s = schedule_events (decls s) (steps s) (next_step s)" using ok(1) assms(3) by (simp add: ctl_log_idle)
  have "events t = events s @ [permit_event (decls s) (steps s) (next_step s)]"
    using assms(5) began(1,6) pos decl_i
    by (simp add: permit_def frame permit_event_def ev length_schedule_events)
  then have "ctl_log t" using at decl began assms(5) ev
    by (simp add: ctl_log_def busy_with_def frame)
  moreover have "positions_ok t"
    using ok(2) ns assms(3,5) began(1) other by (auto simp: positions_ok_def frame)
  ultimately show ?thesis using ok(3) decl by (simp add: log_ok_def)
qed

text \<open>The step the controller works on is recorded, and counted.\<close>

lemma log_ok_recorded:
  assumes "log_ok s" "sys_ctl s = CtlWaiting i req" "\<not> ex_failed (sys_exec s)" "phase s i \<noteq> PhRunning"
    and "act_checkpoint (actor_at s i) = step_checkpoint req"
  shows "rep_events (ex_report (record_arrival i (sys_exec s))) = schedule_events (decls s) (steps s) (Suc (next_step s))"
proof -
  have w: "busy_with s i" "req = steps s ! next_step s" "act_arrival (actor_at s i) = Some (step_checkpoint req)"
    "events s = schedule_events (decls s) (steps s) (next_step s) @ [permit_event (decls s) (steps s) (next_step s)]"
    using assms by (auto simp: log_ok_def ctl_log_def)
  have "decl_for (decls s) (step_actor req) = act_decl (actor_at s i)"
    using decl_for_nth [of "decls s" i] assms(1) w(1,2) by (simp add: log_ok_def busy_with_def)
  then show ?thesis using w by (simp add: record_arrival_def frame schedule_events_Suc arrival_event_def length_schedule_events)
qed

lemma positions_advance:
  assumes "positions_ok s" "busy (sys_ctl s) = Some i" "busy_with s i" "distinct (map decl_actor (decls s))" "\<not> stopping s"
    and "act_checkpoint (actor_at s i) = step_checkpoint (steps s ! next_step s)" "j < length (ex_actors (sys_exec s))"
  shows "act_checkpoint (actor_at s j) = position (steps s) (Suc (next_step s)) (decl_actor (act_decl (actor_at s j)))"
proof (cases "j = i")
  case True
  then show ?thesis using assms(3,6) by (simp add: busy_with_def position_Suc)
next
  case False
  then have "decl_actor (act_decl (actor_at s j)) \<noteq> step_actor (steps s ! next_step s)"
    using assms(3,7) nth_eq_iff_index_eq [OF assms(4), of i j] by (auto simp: busy_with_def)
  then show ?thesis using assms(1-3,5,7) False by (auto simp: positions_ok_def busy_with_def position_Suc)
qed

lemma log_ok_counted:
  assumes "log_ok s" "ctl_ok s" "busy (sys_ctl s) = Some i" "busy_with s i" "positions_ok s" "busy (sys_ctl t) = None"
    and "act_checkpoint (actor_at s i) = step_checkpoint (steps s ! next_step s)"
    and "events t = schedule_events (decls s) (steps s) (Suc (next_step s))" "steps t = steps s" "next_step t = Suc (next_step s)"
    and "decls t = decls s" "\<And>j. act_checkpoint (actor_at t j) = act_checkpoint (actor_at s j)"
  shows "log_ok t"
proof -
  have ns: "\<not> stopping s" using assms(2,3) by (cases "sys_ctl s") (auto simp: ctl_ok_def)
  have len: "length (ex_actors (sys_exec t)) = length (ex_actors (sys_exec s))" using assms(11) by (metis length_map)
  have "act_decl (actor_at t j) = act_decl (actor_at s j)" if "j < length (ex_actors (sys_exec s))" for j
    using assms(11) that len by (metis length_map nth_map)
  then have "positions_ok t"
    using positions_advance [OF assms(5,3,4) _ ns assms(7)] assms(1,9,10,12) len by (simp add: positions_ok_def log_ok_def)
  then show ?thesis using assms by (simp add: log_ok_def ctl_log_idle)
qed

lemma log_ok_advance_step:
  assumes "advance_step SL a s = Some t" "log_ok s" "ctl_ok s" "init_ok s"
  shows "log_ok t"
proof -
  have fail: "ex_failed (sys_exec s) \<Longrightarrow> ex_failed (sys_exec t)"
    using keeps_advance_step [OF assms(1)] by (simp add: keeps_failure_def)
  have quick: ?thesis if "ex_failed (sys_exec t)" "decls t = decls s" using assms(2) that by (simp add: log_ok_def)
  show ?thesis using assms(1)
  proof (cases rule: advance_step_cases)
    case refused
    then show ?thesis using assms(2) by simp
  next
    case (permitted i req f n ex)
    then show ?thesis using log_ok_permit assms(2,3) by blast
  next
    case (rejected req f n f' n' ex)
    have "events t = events s \<or> ex_failed (sys_exec t)"
      using rejected(2,3) by (auto simp: advance_begin_def Let_def frame advance_end_failed split: if_splits option.splits)
    then show ?thesis
    proof
      assume "events t = events s"
      then show ?thesis
        by (intro log_ok_idle [OF assms(2) fail])
          (use rejected advance_begin_frame [OF rejected(2)] advance_begin_None [OF rejected(2)] in \<open>simp_all add: frame\<close>)
    next
      assume "ex_failed (sys_exec t)"
      then show ?thesis by (rule quick) (use rejected advance_begin_None [OF rejected(2)] in \<open>simp add: frame\<close>)
    qed
  next
    case (joins i req f n r ex)
    have nf: "\<not> ex_failed ex" using joins(3) by (auto simp: advance_arrived_def Let_def frame split: if_splits)
    note ok = advance_arrived_ok [OF joins(3) nf joins(2)] and fr = advance_arrived_frame [OF joins(3)]
    have ex: "ex = record_arrival i (sys_exec s)" using ok(4) by simp
    have "events t = schedule_events (decls s) (steps s) (Suc (next_step s))"
      using log_ok_recorded [OF assms(2) joins(1) ok(2,1,3)] joins(4) ex by simp
    moreover have "busy_with s i" "req = steps s ! next_step s" "positions_ok s" using assms(2) joins(1) ok(2) by (auto simp: log_ok_def ctl_log_def)
    ultimately show ?thesis using assms(2) joins ok fr ex by (auto simp: log_ok_def ctl_log_def positions_ok_def busy_with_def frame)
  next
    case (arrived i req f n r f' n' ex)
    note fr = advance_arrived_frame [OF arrived(3)]
    show ?thesis
    proof (cases "ex_failed (sys_exec t)")
      case True
      then show ?thesis using arrived(4) fr by (intro quick) (simp_all add: frame)
    next
      case False
      then have nf: "\<not> ex_failed ex" using arrived(4) advance_end_failed by auto
      note ok = advance_arrived_ok [OF arrived(3) nf arrived(2)]
      have ex: "ex = advance_observe SL r (record_arrival i (sys_exec s))" using ok(5) by simp
      have w: "busy_with s i" "req = steps s ! next_step s" "positions_ok s" using assms(2) arrived(1) ok(2) by (auto simp: log_ok_def ctl_log_def)
      show ?thesis
        by (rule log_ok_counted [OF assms(2,3) _ w(1,3)])
          (use arrived(1,4) ok(3) w(2) fr ex log_ok_recorded [OF assms(2) arrived(1) ok(2,1,3)] in \<open>simp_all add: frame\<close>)
    qed
  next
    case (joined i r f' n')
    show ?thesis
    proof (cases "ex_failed (sys_exec s)")
      case True
      then show ?thesis using joined(3) by (intro quick fail) (auto simp: frame intro!: nth_equalityI)
    next
      case False
      then have w: "busy_with s i" "positions_ok s" "events s = schedule_events (decls s) (steps s) (Suc (next_step s))"
        "act_checkpoint (actor_at s i) = step_checkpoint (steps s ! next_step s)"
        using assms(2) joined(1) by (auto simp: log_ok_def ctl_log_def)
      show ?thesis
        by (rule log_ok_counted [OF assms(2,3) _ w(1,2)])
          (use joined(1,3) w(3,4) in \<open>auto simp: frame intro!: nth_equalityI\<close>)
    qed
  next
    case returned
    then show ?thesis by (intro log_ok_idle [OF assms(2) fail]) simp_all
  next
    case (finish ex)
    then show ?thesis using finish_begin_frame(3) [OF finish(2)] by (intro log_ok_idle [OF assms(2) fail]) (auto simp: frame)
  qed
qed

lemma log_ok_step:
  assumes "exec_step SL a s = Some t" "log_ok s" "ctl_ok s" "threads_ok s" "excl_ok s" "init_ok s"
  shows "log_ok t"
  using assms(1)
proof (cases rule: exec_step_cases)
  case worker
  then show ?thesis using log_ok_worker_step assms by blast
next
  case start
  show ?thesis
    by (rule log_ok_idle [OF assms(2) failed_mono [OF assms(1)]]) (simp_all add: start_step_frame [OF start])
next
  case advance
  then show ?thesis using log_ok_advance_step assms by blast
next
  case cleanup
  show ?thesis
    by (rule log_ok_idle [OF assms(2) failed_mono [OF assms(1)]])
      (use cleanup_step_actor [OF cleanup] cleanup_step_frame [OF cleanup] in simp_all)
qed

section \<open>Observations and completion\<close>

definition observations_ok :: "Json list \<Rightarrow> nat \<Rightarrow> bool" where
  "observations_ok obs n = (length obs = n \<and> (\<forall>k < n. \<exists>v. obs ! k = observation_json k v))"

abbreviation observations :: "Sys \<Rightarrow> Json list" where
  "observations s \<equiv> rep_observations (ex_report (sys_exec s))"

abbreviation completed :: "Sys \<Rightarrow> bool" where
  "completed s \<equiv> rep_schedule_completed (ex_report (sys_exec s))"

definition obs_ok :: "Sys \<Rightarrow> bool" where
  "obs_ok s = ((\<not> ex_failed (sys_exec s) \<longrightarrow> observations_ok (observations s) (if ex_initialized (sys_exec s) then Suc (next_step s) else 0))
     \<and> (\<not> ex_initialized (sys_exec s) \<longrightarrow> next_step s = 0)
     \<and> (completed s \<longrightarrow> ex_initialized (sys_exec s) \<and> next_step s = length (steps s) \<and> busy (sys_ctl s) = None)
     \<and> (busy (sys_ctl s) \<noteq> None \<or> sys_ctl s = CtlReturn \<longrightarrow> ex_initialized (sys_exec s))
     \<and> (sys_ctl s = CtlBarrier \<or> sys_ctl s = CtlSpawn \<or> sys_ctl s = CtlConstruct \<longrightarrow> \<not> ex_initialized (sys_exec s)))"

lemma observations_snoc: "observations_ok obs n \<Longrightarrow> observations_ok (obs @ [observation_json n v]) (Suc n)"
  by (auto simp: observations_ok_def nth_append less_Suc_eq)

text \<open>An observation that does not fail the execution is appended.\<close>

lemma observe_ok:
  assumes "\<not> ex_failed (observe SL k r ex)"
  obtains v where "rep_observations (ex_report (observe SL k r ex)) = rep_observations (ex_report ex) @ [observation_json k v]" "\<not> ex_failed ex"
  using assms by (auto simp: observe_def frame split: sum.splits option.splits if_splits)

lemma advance_end_completed:
  "rep_schedule_completed (ex_report (advance_end f n ex)) \<longrightarrow>
    rep_schedule_completed (ex_report ex) \<or> ex_next_step ex = length (sched_steps (ex_schedule ex))"
  by (auto simp: advance_end_def Let_def frame)

lemma advance_end_ok: "\<not> ex_failed (advance_end f n ex) \<Longrightarrow> \<not> ex_failed ex"
  using advance_end_failed by blast

lemma obs_ok_same:
  assumes "obs_ok s" "ex_failed (sys_exec s) \<Longrightarrow> ex_failed (sys_exec t)" "observations t = observations s"
    and "ex_initialized (sys_exec t) = ex_initialized (sys_exec s)" "next_step t = next_step s" "steps t = steps s"
    and "completed t \<longrightarrow> completed s \<or> ex_initialized (sys_exec s) \<and> next_step s = length (steps s)"
    and "completed t \<longrightarrow> busy (sys_ctl t) = None" "busy (sys_ctl t) \<noteq> None \<or> sys_ctl t = CtlReturn \<longrightarrow> ex_initialized (sys_exec s)"
    and "sys_ctl t = CtlBarrier \<or> sys_ctl t = CtlSpawn \<or> sys_ctl t = CtlConstruct \<longrightarrow> \<not> ex_initialized (sys_exec s)"
  shows "obs_ok t"
proof -
  have "completed s \<longrightarrow> ex_initialized (sys_exec s) \<and> next_step s = length (steps s)"
    "\<not> ex_initialized (sys_exec s) \<longrightarrow> next_step s = 0"
    "\<not> ex_failed (sys_exec s) \<longrightarrow> observations_ok (observations s) (if ex_initialized (sys_exec s) then Suc (next_step s) else 0)"
    using assms(1) by (simp_all add: obs_ok_def)
  then show ?thesis using assms(2,7-10) by (cases "ex_initialized (sys_exec s)") (simp_all add: obs_ok_def assms(3-6), blast+)
qed

lemma obs_ok_counted:
  assumes "obs_ok s" "busy (sys_ctl s) \<noteq> None" "sys_ctl t = CtlReturn" "ex_initialized (sys_exec t) = ex_initialized (sys_exec s)"
    and "\<not> ex_failed (sys_exec t) \<Longrightarrow> \<not> ex_failed (sys_exec s) \<and> next_step t = Suc (next_step s)
      \<and> (\<exists>v. observations t = observations s @ [observation_json (Suc (next_step s)) v])"
    and "completed t \<longrightarrow> completed s \<or> next_step t = length (steps t)"
  shows "obs_ok t"
proof -
  have s: "ex_initialized (sys_exec s)" "\<not> completed s" using assms(1,2) by (auto simp: obs_ok_def)
  have "observations_ok (observations t) (Suc (next_step t))" if "\<not> ex_failed (sys_exec t)"
  proof -
    from assms(5) [OF that] obtain v where v: "\<not> ex_failed (sys_exec s)" "next_step t = Suc (next_step s)"
      "observations t = observations s @ [observation_json (Suc (next_step s)) v]" by blast
    moreover have "observations_ok (observations s) (Suc (next_step s))" using assms(1) v(1) s(1) by (simp add: obs_ok_def)
    ultimately show ?thesis using observations_snoc by simp
  qed
  with s show ?thesis using assms(3,4,6) by (simp add: obs_ok_def)
qed

lemma obs_ok_start_step:
  assumes "start_step SL a s = Some t" "obs_ok s"
  shows "obs_ok t"
proof -
  have fail: "ex_failed (sys_exec s) \<Longrightarrow> ex_failed (sys_exec t)"
    using keeps_start_step [OF assms(1)] by (simp add: keeps_failure_def)
  show ?thesis using assms(1)
  proof (cases rule: start_step_cases)
    case (construct f n f' n')
    then show ?thesis using assms(2) by (intro obs_ok_same [OF assms(2) fail]) (auto simp: frame obs_ok_def)
  next
    case (spawn r k)
    then show ?thesis using assms(2) by (intro obs_ok_same [OF assms(2) fail]) (auto simp: frame obs_ok_def)
  next
    case (barrier f n r f' n')
    have s0: "\<not> ex_initialized (sys_exec s)" "next_step s = 0" "\<not> completed s" using assms(2) barrier(1) by (auto simp: obs_ok_def)
    have "observations_ok (observations t) (Suc 0)" if "\<not> ex_failed (sys_exec t)"
    proof -
      let ?ex = "poll f n (sys_exec s)"
      have nf: "\<not> ex_failed (poll f' n' (if \<not> ex_failed ?ex then observe SL 0 r ?ex else ?ex))"
        using that barrier(3) by (simp add: start_barrier_def Let_def)
      from poll_ok [OF this] have nf': "\<not> ex_failed (if \<not> ex_failed ?ex then observe SL 0 r ?ex else ?ex)" by blast
      then have p: "\<not> ex_failed ?ex" by (auto split: if_splits)
      with nf' have "\<not> ex_failed (observe SL 0 r ?ex)" by simp
      then obtain v where v: "rep_observations (ex_report (observe SL 0 r ?ex)) = rep_observations (ex_report ?ex) @ [observation_json 0 v]"
        by (rule observe_ok)
      have "observations s = []" using assms(2) s0 poll_ok [OF p] by (auto simp: obs_ok_def observations_ok_def)
      then have "observations t = [observation_json 0 v]"
        using barrier(3) p v by (simp add: start_barrier_def Let_def frame)
      then show ?thesis by (auto simp: observations_ok_def)
    qed
    then show ?thesis using barrier(3) s0 by (auto simp: obs_ok_def frame)
  qed
qed

lemma obs_ok_advance_step:
  assumes "advance_step SL a s = Some t" "obs_ok s"
  shows "obs_ok t"
proof -
  have fail: "ex_failed (sys_exec s) \<Longrightarrow> ex_failed (sys_exec t)"
    using keeps_advance_step [OF assms(1)] by (simp add: keeps_failure_def)
  show ?thesis using assms(1)
  proof (cases rule: advance_step_cases)
    case refused
    then show ?thesis using assms(2) by simp
  next
    case (permitted i req f n ex)
    show ?thesis
      by (rule obs_ok_same [OF assms(2) fail])
        (use permitted advance_begin_frame [OF permitted(2)] advance_begin_Some(7) [OF permitted(2)] in simp_all)
  next
    case (rejected req f n f' n' ex)
    show ?thesis
      by (rule obs_ok_same [OF assms(2) fail])
        (use rejected advance_begin_frame [OF rejected(2)] advance_end_completed [of f' n' ex] in \<open>auto simp: frame\<close>)
  next
    case (joins i req f n r ex)
    have nf: "\<not> ex_failed ex" using joins(3) by (auto simp: advance_arrived_def Let_def frame split: if_splits)
    have ex: "ex = record_arrival i (sys_exec s)" using advance_arrived_ok(4) [OF joins(3) nf joins(2)] by simp
    show ?thesis
      by (rule obs_ok_same [OF assms(2) fail]) (use joins(1,4) ex assms(2) in \<open>auto simp: frame obs_ok_def\<close>)
  next
    case (arrived i req f n r f' n' ex)
    have *: "\<not> ex_failed (sys_exec s) \<and> next_step t = Suc (next_step s)
      \<and> (\<exists>v. observations t = observations s @ [observation_json (Suc (next_step s)) v])" if "\<not> ex_failed (sys_exec t)"
    proof -
      have nf: "\<not> ex_failed ex" using that arrived(4) advance_end_ok by simp
      note ok = advance_arrived_ok [OF arrived(3) nf arrived(2)]
      have ex: "ex = advance_observe SL r (record_arrival i (sys_exec s))" using ok(5) by simp
      obtain v where "rep_observations (ex_report ex) = observations s @ [observation_json (Suc (next_step s)) v]"
        by (rule observe_ok [OF nf [unfolded ex advance_observe_def]]) (simp add: ex advance_observe_def frame)
      then show ?thesis using ok(2) arrived(4) ex by (auto simp: frame)
    qed
    show ?thesis
      by (rule obs_ok_counted [OF assms(2) _ _ _ *])
        (use arrived advance_arrived_frame [OF arrived(3)] advance_end_completed [of f' n' ex] in \<open>auto simp: frame\<close>)
  next
    case (joined i r f' n')
    let ?ex = "advance_joined SL i r (sys_exec s)"
    have *: "\<not> ex_failed (sys_exec s) \<and> next_step t = Suc (next_step s)
      \<and> (\<exists>v. observations t = observations s @ [observation_json (Suc (next_step s)) v])" if "\<not> ex_failed (sys_exec t)"
    proof -
      have nf: "\<not> ex_failed ?ex" using that joined(3) advance_end_ok by simp
      obtain v where "rep_observations (ex_report ?ex) = observations s @ [observation_json (Suc (next_step s)) v]"
        by (rule observe_ok [OF nf [unfolded advance_joined_def advance_observe_def]])
          (simp add: advance_joined_def advance_observe_def frame)
      then show ?thesis using that joined(3) fail by (auto simp: frame)
    qed
    show ?thesis
      by (rule obs_ok_counted [OF assms(2) _ _ _ *])
        (use joined(1,3) advance_end_completed [of f' n' ?ex] in \<open>auto simp: frame\<close>)
  next
    case returned
    show ?thesis by (rule obs_ok_same [OF assms(2) fail]) (use returned assms(2) in \<open>auto simp: obs_ok_def\<close>)
  next
    case (finish ex)
    show ?thesis
      by (rule obs_ok_same [OF assms(2) fail]) (use finish finish_begin_frame(3) [OF finish(2)] assms(2) in \<open>auto simp: frame obs_ok_def\<close>)
  qed
qed

lemma obs_ok_step:
  assumes "exec_step SL a s = Some t" "obs_ok s"
  shows "obs_ok t"
  using assms(1)
proof (cases rule: exec_step_cases)
  case worker
  show ?thesis
    by (rule obs_ok_same [OF assms(2) failed_mono [OF assms(1)]])
      (use assms(2) in \<open>auto simp: worker_step_frame [OF worker] obs_ok_def\<close>)
next
  case cleanup
  have "sys_ctl t \<noteq> CtlReturn" "sys_ctl t \<noteq> CtlBarrier" "sys_ctl t \<noteq> CtlSpawn" "sys_ctl t \<noteq> CtlConstruct"
    using cleanup by (auto elim!: cleanup_step_cases)
  then show ?thesis
    by (intro obs_ok_same [OF assms(2) failed_mono [OF assms(1)]])
      (use assms(2) cleanup_step_actor [OF cleanup] in \<open>simp_all add: cleanup_step_frame [OF cleanup]\<close>)
qed (use assms obs_ok_start_step obs_ok_advance_step in blast)+

end
