(* ===== verification/Schedule_Outcome.thy ===== *)
theory Schedule_Outcome
  imports Schedule_Log
begin

text \<open>
  Cleanup of an execution and what its report means: the teardown is called at most once and only when no
  thread is left to join; a report that passed determines the log, the number of observations and that
  everything was joined and torn down; and a cooperative program does pass.
\<close>

section \<open>Teardown\<close>

definition all_joined :: "Execution \<Rightarrow> bool" where
  "all_joined ex = list_all Not (ex_threads ex)"

fun cleaning :: "ctl \<Rightarrow> bool" where
  "cleaning (CtlCleanWait u) = True"
| "cleaning (CtlCleanJoin k) = True"
| "cleaning CtlTeardown = True"
| "cleaning c = False"

text \<open>The bookkeeping of the teardown, over the fields it depends on: attempted, failed, closed, everything joined,
  calls so far, nothing remaining, cleanup confirmed.\<close>

definition tear_cond :: "ctl \<Rightarrow> bool \<Rightarrow> bool \<Rightarrow> bool \<Rightarrow> bool \<Rightarrow> nat \<Rightarrow> bool \<Rightarrow> bool \<Rightarrow> bool" where
  "tear_cond c att bad closed joined calls none conf =
     ((att \<longrightarrow> closed \<and> joined)
      \<and> (c = CtlTeardown \<longrightarrow> att \<and> calls = 0 \<and> \<not> bad \<and> none)
      \<and> (\<not> att \<and> c \<noteq> CtlDestroyed \<longrightarrow> calls = 0 \<and> \<not> bad)
      \<and> (att \<and> c \<noteq> CtlTeardown \<and> \<not> bad \<longrightarrow> calls = 1)
      \<and> calls \<le> 1
      \<and> (conf \<longrightarrow> att \<and> \<not> bad \<and> c \<noteq> CtlTeardown)
      \<and> (cleaning c \<longrightarrow> closed))"

definition tear_ok :: "Sys \<Rightarrow> bool" where
  "tear_ok s = (let ex = sys_exec s in tear_cond (sys_ctl s) (ex_teardown_attempted ex) (ex_teardown_failed ex) (ex_closed ex)
     (all_joined ex) (sys_teardowns s) (rep_remaining (ex_report ex) = []) (rep_cleanup (ex_report ex) = CleanConfirmed))"

lemma remaining_empty: "remaining_actors ex = [] \<longleftrightarrow> all_joined ex"
  by (auto simp: remaining_actors_def all_joined_def filter_empty_conv list_all_length)

lemma all_joined_update:
  assumes "all_joined ex" "ex_threads ex' = (ex_threads ex)[i := False]"
  shows "all_joined ex'"
  using assms set_update_subset_insert [of "ex_threads ex" i False] by (auto simp: all_joined_def list_all_iff)

text \<open>Steps that neither clean up nor destroy.\<close>

lemma tear_ok_same:
  assumes "tear_ok s" "ex_teardown_attempted (sys_exec t) = ex_teardown_attempted (sys_exec s)"
    and "ex_teardown_failed (sys_exec t) = ex_teardown_failed (sys_exec s)" "sys_teardowns t = sys_teardowns s"
    and "rep_cleanup (ex_report (sys_exec t)) = rep_cleanup (ex_report (sys_exec s))"
    and "ex_closed (sys_exec s) \<longrightarrow> ex_closed (sys_exec t)" "ex_teardown_attempted (sys_exec s) \<longrightarrow> all_joined (sys_exec t)"
    and "sys_ctl s \<noteq> CtlTeardown" "sys_ctl s \<noteq> CtlDestroyed" "sys_ctl t \<noteq> CtlTeardown" "cleaning (sys_ctl t) \<longrightarrow> ex_closed (sys_exec t)"
  shows "tear_ok t"
  using assms(1,6-11) by (simp add: tear_ok_def tear_cond_def Let_def assms(2-5))

lemma tear_ok_worker_step:
  assumes "worker_step a s = Some t" "tear_ok s"
  shows "tear_ok t"
proof -
  have "rep_remaining (ex_report (sys_exec t)) = rep_remaining (ex_report (sys_exec s))"
    using assms(1) by (cases rule: worker_step_cases; simp add: thread_park_def thread_catch_def thread_finish_def frame)
  then show ?thesis using assms(2) worker_step_frame [OF assms(1)] by (simp add: tear_ok_def all_joined_def Let_def)
qed

lemma start_step_ctls:
  assumes "start_step SL a s = Some t"
  shows "controlling (sys_ctl s) \<and> \<not> cleaning (sys_ctl t) \<and> sys_ctl s \<noteq> CtlTeardown \<and> sys_ctl s \<noteq> CtlDestroyed \<and> sys_ctl t \<noteq> CtlTeardown
    \<and> (ex_closed (sys_exec s) \<longrightarrow> ex_closed (sys_exec t))"
  using assms by (cases rule: start_step_cases) (simp_all add: frame)

lemma tear_ok_start_step:
  assumes "start_step SL a s = Some t" "tear_ok s" "ctl_ok s"
  shows "tear_ok t"
proof -
  note ctls = start_step_ctls [OF assms(1)]
  have "\<not> ex_teardown_attempted (sys_exec s)" using assms(2,3) ctls by (auto simp: tear_ok_def tear_cond_def Let_def ctl_ok_def)
  then show ?thesis by (intro tear_ok_same [OF assms(2)]) (use ctls start_step_frame [OF assms(1)] in simp_all)
qed

lemma advance_step_ctls:
  assumes "advance_step SL a s = Some t"
  shows "t = s \<or> \<not> cleaning (sys_ctl t) \<and> sys_ctl s \<noteq> CtlTeardown \<and> sys_ctl s \<noteq> CtlDestroyed \<and> sys_ctl t \<noteq> CtlTeardown"
  using assms by (cases rule: advance_step_cases) simp_all

lemma advance_step_cleanup_frame:
  assumes "advance_step SL a s = Some t"
  shows "ex_teardown_attempted (sys_exec t) = ex_teardown_attempted (sys_exec s)
    \<and> ex_teardown_failed (sys_exec t) = ex_teardown_failed (sys_exec s) \<and> sys_teardowns t = sys_teardowns s
    \<and> rep_cleanup (ex_report (sys_exec t)) = rep_cleanup (ex_report (sys_exec s)) \<and> ex_closed (sys_exec t) = ex_closed (sys_exec s)
    \<and> (all_joined (sys_exec s) \<longrightarrow> all_joined (sys_exec t))"
  using assms
proof (cases rule: advance_step_cases)
  case (joined i r f' n')
  have "all_joined (sys_exec s) \<longrightarrow> all_joined (sys_exec t)"
    using all_joined_update [of "sys_exec s" "sys_exec t" i] by (simp add: joined(3) frame)
  then show ?thesis by (simp add: joined(3) frame)
next
  case (finish ex)
  then show ?thesis using finish_begin_frame(3) [OF finish(2)] by (auto simp: all_joined_def frame)
qed (simp_all add: all_joined_def frame advance_begin_frame advance_arrived_frame)

lemma tear_ok_advance_step:
  assumes "advance_step SL a s = Some t" "tear_ok s"
  shows "tear_ok t"
proof (cases "t = s")
  case False
  have "ex_teardown_attempted (sys_exec s) \<longrightarrow> all_joined (sys_exec s)"
    using assms(2) by (simp add: tear_ok_def tear_cond_def Let_def)
  then show ?thesis
    by (intro tear_ok_same [OF assms(2)])
      (use False advance_step_ctls [OF assms(1)] advance_step_cleanup_frame [OF assms(1)] in simp_all)
qed (use assms in simp)

lemma tear_ok_cleanup_step:
  assumes "cleanup_step a s = Some t" "tear_ok s"
  shows "tear_ok t"
  using assms(1)
proof (cases rule: cleanup_step_cases)
  case (joined k)
  have "all_joined (sys_exec s) \<longrightarrow> all_joined (sys_exec t)"
    using all_joined_update [of "sys_exec s" "sys_exec t" k] joined by (simp add: join_actor_def frame)
  then show ?thesis using assms(2) joined by (auto simp: tear_ok_def tear_cond_def Let_def join_actor_def frame)
next
  case (collected k ex)
  then show ?thesis using assms(2) remaining_empty [of "sys_exec s"]
    by (auto simp: tear_ok_def tear_cond_def Let_def cleanup_collect_def all_joined_def frame split: if_splits)
next
  case (report k ex)
  then show ?thesis using assms(2) remaining_empty [of "sys_exec s"]
    by (auto simp: tear_ok_def tear_cond_def Let_def cleanup_collect_def cleanup_report_def all_joined_def frame split: if_splits)
next
  case (teardown r)
  then show ?thesis using assms(2)
    by (auto simp: tear_ok_def tear_cond_def Let_def cleanup_report_def teardown_result_def all_joined_def frame split: option.splits)
next
  case (destroyed_one k)
  have "all_joined (sys_exec s) \<longrightarrow> all_joined (sys_exec t)"
    using all_joined_update [of "sys_exec s" "sys_exec t" k] destroyed_one by simp
  then show ?thesis using assms(2) destroyed_one by (auto simp: tear_ok_def tear_cond_def Let_def)
qed (use assms(2) in \<open>auto simp: tear_ok_def tear_cond_def Let_def all_joined_def frame\<close>)

lemma tear_ok_step: "exec_step SL a s = Some t \<Longrightarrow> tear_ok s \<Longrightarrow> ctl_ok s \<Longrightarrow> tear_ok t"
  by (erule exec_step_cases)
    (blast intro: tear_ok_worker_step tear_ok_start_step tear_ok_advance_step tear_ok_cleanup_step)+

text \<open>The destructor joins the threads one after another.\<close>

definition destroy_ok :: "Sys \<Rightarrow> bool" where
  "destroy_ok s = (\<forall>k. sys_ctl s = CtlDestroyJoin k \<longrightarrow> (\<forall>i < k. i < length (ex_threads (sys_exec s)) \<longrightarrow> \<not> ex_threads (sys_exec s) ! i))"

lemma destroy_ok_step:
  assumes "exec_step SL a s = Some t" "destroy_ok s"
  shows "destroy_ok t"
  using assms(1)
proof (cases rule: exec_step_cases)
  case worker
  then show ?thesis using assms(2) by (simp add: destroy_ok_def worker_step_frame)
next
  case start
  then show ?thesis by (cases rule: start_step_cases) (simp_all add: destroy_ok_def)
next
  case advance
  then show ?thesis using assms(2) by (cases rule: advance_step_cases) (simp_all add: destroy_ok_def)
next
  case cleanup
  then show ?thesis
  proof (cases rule: cleanup_step_cases)
    case (destroyed_one k)
    then show ?thesis using assms(2) by (auto simp: destroy_ok_def less_Suc_eq nth_list_update)
  qed (simp_all add: destroy_ok_def)
qed

section \<open>Reachable states\<close>

text \<open>What never changes: the schedule and the declarations.\<close>

definition const_ok :: "Adapter \<Rightarrow> Schedule \<Rightarrow> Sys \<Rightarrow> bool" where
  "const_ok A sched s = (ex_schedule (sys_exec s) = sched \<and> (ex_failed (sys_exec s) \<or> decls s = adapter_actors A)
     \<and> ex_failed (sys_exec s) = (rep_outcome (ex_report (sys_exec s)) \<noteq> OutCompleted))"

lemma advance_step_const:
  assumes "advance_step SL a s = Some t"
  shows "ex_schedule (sys_exec t) = ex_schedule (sys_exec s) \<and> decls t = decls s"
  using assms
proof (cases rule: advance_step_cases)
  case (permitted i req f n ex)
  then show ?thesis using advance_begin_Some(1) [OF permitted(2)] by (simp add: permit_def frame decls_upd_actor)
next
  case (rejected req f n f' n' ex)
  then show ?thesis using advance_begin_None [OF rejected(2)] advance_begin_frame(10) [OF rejected(2)] by (simp add: frame)
next
  case (joined i r f' n')
  then show ?thesis by (auto simp: frame intro!: nth_equalityI)
next
  case (finish ex)
  then show ?thesis using finish_begin_frame(3) [OF finish(2)] by (auto simp: frame)
qed (simp_all add: frame advance_arrived_frame)

lemma const_ok_step:
  assumes "exec_step SL a s = Some t" "const_ok A sched s"
  shows "const_ok A sched t"
proof -
  have "ex_schedule (sys_exec t) = ex_schedule (sys_exec s) \<and> decls t = decls s"
    using assms(1)
  proof (cases rule: exec_step_cases)
    case worker
    then show ?thesis by (simp add: worker_step_frame worker_step_decls)
  next
    case start
    then show ?thesis by (simp add: start_step_frame)
  next
    case advance
    then show ?thesis by (rule advance_step_const)
  next
    case cleanup
    then show ?thesis using cleanup_step_actor by (simp add: cleanup_step_frame)
  qed
  then show ?thesis using assms(2) keeps_exec_step [OF assms(1)] by (auto simp: const_ok_def keeps_failure_def)
qed

lemma admit_distinct:
  assumes "admit SL c P A sched = Admitted as cps"
  shows "as = adapter_actors A \<and> distinct (map decl_actor as)"
proof -
  from assms have "declarations_admission A sched = Admitted as cps" by (auto simp: admit_def split: if_splits sum.splits)
  then show ?thesis by (simp add: declarations_admission_iff schedule_admissible_def)
qed

lemma admit_refused: "admit SL c P A sched = Refused oc why \<Longrightarrow> oc \<noteq> OutCompleted"
  by (auto simp: admit_def declarations_admission_def split: if_splits sum.splits option.splits)

definition sys_ok :: "Adapter \<Rightarrow> Schedule \<Rightarrow> Sys \<Rightarrow> bool" where
  "sys_ok A sched s = (log_ok s \<and> obs_ok s \<and> tear_ok s \<and> destroy_ok s \<and> const_ok A sched s)"

lemma sys_start_sys_ok:
  assumes "sys_start SL c g rnd P A sched = Some s"
  shows "sys_ok A sched s"
proof (cases "admit SL c P A sched")
  case (Admitted as cps)
  have d: "as = adapter_actors A" "distinct (map decl_actor as)" using admit_distinct [OF Admitted] by auto
  have s: "s = \<lparr> sys_exec = upd_shared (\<lambda>sh. sh\<lparr>sh_actors := map actor_new as, sh_checkpoints := cps\<rparr>) (new_execution g rnd P A sched),
      sys_tpcs = [], sys_ctl = CtlConstruct, sys_teardowns = 0 \<rparr>"
    using assms Admitted by (simp add: sys_start_def start_admit_def new_execution_def)
  have "map act_decl (map actor_new as) = as" by (simp add: actor_new_def comp_def)
  then show ?thesis using d(2)
    by (simp add: sys_ok_def s d(1) log_ok_def ctl_log_idle positions_ok_def obs_ok_def tear_ok_def tear_cond_def destroy_ok_def const_ok_def
        new_execution_def new_shared_def all_joined_def schedule_events_def position_0 actor_new_def observations_ok_def)
next
  case (Refused oc why)
  then show ?thesis using assms admit_refused [OF Refused]
    by (auto simp: sys_start_def start_admit_def new_execution_def new_shared_def sys_ok_def log_ok_def shared_fail_def obs_ok_def
        tear_ok_def tear_cond_def destroy_ok_def const_ok_def all_joined_def)
next
  case (AdmitThrows what)
  then show ?thesis using assms by (simp add: sys_start_def start_admit_def new_execution_def)
qed

lemma reachable_sys_ok: "exec_reachable SL P A sched s \<Longrightarrow> sys_ok A sched s"
proof (induction rule: exec_reachable.induct)
  case reach_start
  then show ?case by (rule sys_start_sys_ok)
next
  case (reach_step s a t)
  note ok = reachable_ok [OF reach_step(1)] reachable_init [OF reach_step(1)]
  then show ?case
    using reach_step(2,3) log_ok_step obs_ok_step tear_ok_step destroy_ok_step const_ok_step by (simp add: sys_ok_def)
qed

lemma joined_exited: "threads_ok s \<Longrightarrow> all_joined (sys_exec s) \<Longrightarrow> i < length (ex_threads (sys_exec s)) \<Longrightarrow> tpc_of s i = TExited"
  by (simp add: threads_ok_def all_joined_def list_all_length)

text \<open>C25: The teardown of the application is called at most once in the life of an execution, by the cleanup or by the
  destructor, and when it is called every worker thread that was created has exited and been joined.\<close>

theorem teardown_once:
  assumes "exec_reachable SL P A sched s" "exec_step SL a s = Some t"
  shows "sys_teardowns t \<le> 1 \<and> (sys_teardowns t \<noteq> sys_teardowns s \<longrightarrow>
    (\<forall>i < length (ex_threads (sys_exec s)). \<not> ex_threads (sys_exec s) ! i \<and> tpc_of s i = TExited))"
proof -
  have ok: "sys_ok A sched s" "threads_ok s" using reachable_sys_ok [OF assms(1)] reachable_ok [OF assms(1)] by auto
  have "sys_ok A sched t" by (rule reachable_sys_ok [OF exec_reachable.reach_step [OF assms]])
  then have "sys_teardowns t \<le> 1" by (simp add: sys_ok_def tear_ok_def tear_cond_def Let_def)
  moreover have "all_joined (sys_exec s)" if "sys_teardowns t \<noteq> sys_teardowns s"
    using assms(2)
  proof (cases rule: exec_step_cases)
    case cleanup
    then show ?thesis
    proof (cases rule: cleanup_step_cases)
      case (teardown r)
      then show ?thesis using ok(1) by (simp add: sys_ok_def tear_ok_def tear_cond_def Let_def)
    next
      case (destroyed k)
      then show ?thesis using ok(1) by (auto simp: sys_ok_def destroy_ok_def all_joined_def list_all_length)
    qed (use that in simp_all)
  qed (use that worker_step_frame(16) start_step_frame(14) advance_step_cleanup_frame in blast)+
  ultimately show ?thesis using joined_exited [OF ok(2)] by (auto simp: all_joined_def list_all_length)
qed

text \<open>C17: What a passed report means: the events are exactly the permits and arrivals the schedule prescribes, in its
  order, from its first to its last step; there is one observation of the initial state and one after every
  step; every worker has exited and been joined; and the teardown was called once.\<close>

theorem passed_report:
  assumes "exec_reachable SL P A sched s" "passed (ex_report (sys_exec s))"
  shows "events s = schedule_events (adapter_actors A) (sched_steps sched) (length (sched_steps sched))
    \<and> observations_ok (observations s) (Suc (length (sched_steps sched)))
    \<and> (\<forall>i < length (adapter_actors A). tpc_of s i = TExited) \<and> sys_teardowns s = 1"
proof -
  have ok: "sys_ok A sched s" "threads_ok s" "init_ok s"
    using reachable_sys_ok [OF assms(1)] reachable_ok [OF assms(1)] reachable_init [OF assms(1)] by auto
  have nf: "\<not> ex_failed (sys_exec s)" and fin: "completed s" and conf: "rep_cleanup (ex_report (sys_exec s)) = CleanConfirmed"
    using ok(1) assms(2) by (auto simp: sys_ok_def const_ok_def passed_def)
  have c: "ex_schedule (sys_exec s) = sched" "decls s = adapter_actors A" using ok(1) nf by (auto simp: sys_ok_def const_ok_def)
  have o: "ex_initialized (sys_exec s)" "next_step s = length (steps s)" "busy (sys_ctl s) = None"
    "observations_ok (observations s) (Suc (next_step s))"
    using ok(1) fin nf by (auto simp: sys_ok_def obs_ok_def)
  have ev: "events s = schedule_events (decls s) (steps s) (next_step s)"
    using ok(1) nf o(3) by (auto simp: sys_ok_def log_ok_def ctl_log_idle)
  have t: "all_joined (sys_exec s)" "sys_teardowns s = 1"
    using ok(1) conf by (auto simp: sys_ok_def tear_ok_def tear_cond_def Let_def)
  have "tpc_of s i = TExited" if "i < length (adapter_actors A)" for i
  proof -
    have len: "length (sys_tpcs s) = length (ex_actors (sys_exec s))" "i < length (ex_actors (sys_exec s))"
      using ok(2) o(1) that c(2) by (auto simp: threads_ok_def simp flip: length_map [of act_decl])
    then have "phase s i \<noteq> PhStarting" "tpc_phase_ok (stopping s) (tpc_of s i) (phase s i)"
      using ok(2,3) o(1) by (auto simp: init_ok_def threads_ok_def)
    then have "tpc_of s i \<noteq> TNone" by (cases "tpc_of s i") auto
    then have "i < length (ex_threads (sys_exec s))" using ok(2) len by (auto simp: threads_ok_def)
    then show ?thesis by (rule joined_exited [OF ok(2) t(1)])
  qed
  then show ?thesis using ev o(2,4) c t(2) by simp
qed

end
