(* ===== verification/Schedule_Liveness.thy ===== *)
theory Schedule_Liveness
  imports Schedule_Outcome
begin

text \<open>
  A cooperative program passes: the calls of \<^verbatim>\<open>run_schedule\<close> together with workers that reach exactly the
  checkpoints the schedule names, observations within the bounds, no cancellation and a clock before the
  deadline lead from an admitted schedule to a passed report. The run is given explicitly, as a list of
  actions computed from the schedule.
\<close>

section \<open>The cooperative run\<close>

definition observable :: "schedule_lib \<Rightarrow> Json \<Rightarrow> bool" where
  "observable SL v = (plain_json 0 v \<and> (case sl_dump SL v of Inr text \<Rightarrow> length text \<le> max_observation_bytes | Inl _ \<Rightarrow> False))"

definition observed_bytes :: "schedule_lib \<Rightarrow> Json \<Rightarrow> nat" where
  "observed_bytes SL v = (case sl_dump SL v of Inr text \<Rightarrow> length text | Inl _ \<Rightarrow> 0)"

definition actor_index :: "ActorDeclaration list \<Rightarrow> string \<Rightarrow> nat" where
  "actor_index as a = length (takeWhile (\<lambda>d. decl_actor d \<noteq> a) as)"

definition coop_start :: "int \<Rightarrow> nat \<Rightarrow> Json \<Rightarrow> action list" where
  "coop_start now n v = [ActConstruct False now False now, ActSpawn None] @ map (\<lambda>i. ActPark i i) [0..<n]
     @ [ActBarrier False now (Inr v) False now]"

definition coop_step :: "int \<Rightarrow> nat \<Rightarrow> Step \<Rightarrow> Json \<Rightarrow> action list" where
  "coop_step now i st v =
     [ActAdvance True False st False now False now, ActWake i]
     @ (if step_checkpoint st = completion
        then [ActBodyEnd i BodyReturns, ActFinish i, ActArrived False now (Inr v) False now, ActExit i, ActJoined (Inr v) False now]
        else [ActArrive i (step_checkpoint st), ActArrived False now (Inr v) False now])
     @ [ActReturn]"

definition coop_finish :: "int \<Rightarrow> nat \<Rightarrow> action list" where
  "coop_finish now n = [ActFinishCall True False, ActCleanup now, ActCleanWait now] @ replicate (Suc n) ActCleanJoin @ [ActTeardown None]"

fun coop_steps :: "int \<Rightarrow> ActorDeclaration list \<Rightarrow> Step list \<Rightarrow> Json list \<Rightarrow> action list" where
  "coop_steps now as (st # ss) (v # vs) = coop_step now (actor_index as (step_actor st)) st v @ coop_steps now as ss vs"
| "coop_steps now as ss vs = []"

definition coop_run :: "int \<Rightarrow> ActorDeclaration list \<Rightarrow> Step list \<Rightarrow> Json list \<Rightarrow> action list" where
  "coop_run now as ss vs = coop_start now (length as) (hd vs) @ coop_steps now as ss (tl vs) @ coop_finish now (length as)"

lemma exec_run_append: "exec_run SL (as @ bs) s = Option.bind (exec_run SL as s) (exec_run SL bs)"
proof (induction as arbitrary: s)
  case (Cons a as)
  then show ?case by (cases "exec_step SL a s") simp_all
qed simp

lemma exec_run_snoc: "exec_run SL as s = Some u \<Longrightarrow> exec_step SL a u = Some t \<Longrightarrow> exec_run SL (as @ [a]) s = Some t"
  by (simp add: exec_run_append)

lemma actor_index_nth: "distinct (map decl_actor as) \<Longrightarrow> i < length as \<Longrightarrow> actor_index as (decl_actor (as ! i)) = i"
proof (induction as arbitrary: i)
  case (Cons a as)
  then show ?case by (cases i) (auto simp: actor_index_def)
qed simp

section \<open>Plans\<close>

definition actor_done :: "Step list \<Rightarrow> nat \<Rightarrow> string \<Rightarrow> bool" where
  "actor_done ss k a = (completion \<in> set (actor_plan a (take k ss)))"

lemma actor_plan_append: "actor_plan a (xs @ ys) = actor_plan a xs @ actor_plan a ys"
  by (simp add: actor_plan_def)

lemma admissible_completion: "schedule_admissible as cps ss \<Longrightarrow> completion \<notin> set cps"
  using completion_not_identifier by (auto simp: schedule_admissible_def list_all_iff)

lemma admissible_step:
  assumes "schedule_admissible as cps ss" "k < length ss"
  shows "\<exists>i < length as. decl_actor (as ! i) = step_actor (ss ! k)" "\<not> actor_done ss k (step_actor (ss ! k))"
    "step_checkpoint (ss ! k) = completion \<or> step_checkpoint (ss ! k) \<in> set cps \<and> schedule_identifier (step_checkpoint (ss ! k))"
proof -
  let ?a = "step_actor (ss ! k)" and ?c = "step_checkpoint (ss ! k)"
  have mem: "?a \<in> decl_actor ` set as" using assms by (auto simp: schedule_admissible_def)
  then show "\<exists>i < length as. decl_actor (as ! i) = ?a" by (metis (no_types, lifting) image_iff in_set_conv_nth)
  have "actor_plan ?a ss = actor_plan ?a (take k ss) @ ?c # actor_plan ?a (drop (Suc k) ss)"
    using id_take_nth_drop [OF assms(2)] by (metis actor_plan_Cons actor_plan_append)
  moreover have "plan_complete (set cps) (actor_plan ?a ss)" using assms(1) mem by (auto simp: schedule_admissible_def)
  ultimately have pc: "last (?c # actor_plan ?a (drop (Suc k) ss)) = completion"
      "set (actor_plan ?a (take k ss) @ butlast (?c # actor_plan ?a (drop (Suc k) ss))) \<subseteq> set cps"
    by (simp_all add: plan_complete_def butlast_append)
  then show "\<not> actor_done ss k ?a" using admissible_completion [OF assms(1)] by (auto simp: actor_done_def)
  show "?c = completion \<or> ?c \<in> set cps \<and> schedule_identifier ?c"
  proof (cases "actor_plan ?a (drop (Suc k) ss) = []")
    case False
    then have "?c \<in> set cps" using pc(2) by simp
    then show ?thesis using assms(1) by (auto simp: schedule_admissible_def list_all_iff)
  qed (use pc(1) in simp)
qed

lemma actor_done_Suc:
  assumes "k < length ss"
  shows "actor_done ss (Suc k) a \<longleftrightarrow> actor_done ss k a \<or> step_actor (ss ! k) = a \<and> step_checkpoint (ss ! k) = completion"
  using assms by (auto simp: actor_done_def take_Suc_conv_app_nth actor_plan_append actor_plan_Cons)

lemma actor_done_0: "\<not> actor_done ss 0 a"
  by (simp add: actor_done_def)

lemma actor_done_end: "schedule_admissible as cps ss \<Longrightarrow> i < length as \<Longrightarrow> actor_done ss (length ss) (decl_actor (as ! i))"
  unfolding schedule_admissible_def plan_complete_def actor_done_def by (metis image_eqI last_in_set nth_mem order_refl take_all)

lemma admissible_steps: "schedule_admissible as cps ss \<Longrightarrow> as \<noteq> [] \<Longrightarrow> ss \<noteq> []"
  using actor_done_end [of as cps ss 0] by (auto simp: actor_done_def)

section \<open>Regions that do not fail\<close>

lemma poll_fine: "\<not> sh_cancelled (ex_shared ex) \<Longrightarrow> now < ex_deadline ex \<Longrightarrow> poll False now ex = ex"
  by (simp add: poll_def Let_def)

lemma observe_fine:
  assumes "observable SL v" "ex_observation_bytes ex + observed_bytes SL v \<le> 8 * max_artifact_bytes"
  shows "observe SL k (Inr v) ex = upd_report (\<lambda>r. r\<lparr>rep_observations := rep_observations r @ [observation_json k v]\<rparr>)
    (ex\<lparr>ex_observation_bytes := ex_observation_bytes ex + observed_bytes SL v\<rparr>)"
  using assms by (auto simp: observe_def observable_def observed_bytes_def split: sum.splits)

section \<open>Between two steps\<close>

text \<open>The state of one actor after \<open>k\<close> steps: done, exited and joined, or parked in its hook.\<close>

definition coop_actor :: "Step list \<Rightarrow> nat \<Rightarrow> Sys \<Rightarrow> nat \<Rightarrow> bool" where
  "coop_actor ss k s i = (act_thread (actor_at s i) = Some i
     \<and> (if actor_done ss k (decl_actor (act_decl (actor_at s i)))
        then phase s i = PhFinished \<and> tpc_of s i = TExited \<and> \<not> ex_threads (sys_exec s) ! i
        else phase s i = PhParked \<and> (tpc_of s i = TStartWait \<or> tpc_of s i = TArriveWait) \<and> ex_threads (sys_exec s) ! i))"

definition coop_flags :: "Policy \<Rightarrow> Adapter \<Rightarrow> Schedule \<Rightarrow> int \<Rightarrow> Sys \<Rightarrow> bool" where
  "coop_flags P A sched now s = (let ex = sys_exec s in
     \<not> ex_failed ex \<and> \<not> sh_cancelled (ex_shared ex) \<and> \<not> sh_stopping (ex_shared ex)
     \<and> sh_checkpoints (ex_shared ex) = set (adapter_checkpoints A) \<and> decls s = adapter_actors A \<and> ex_schedule ex = sched
     \<and> ex_policy ex = P \<and> rep_outcome (ex_report ex) = OutCompleted \<and> ex_constructed ex \<and> \<not> ex_closed ex \<and> now < ex_deadline ex
     \<and> prog_teardown (ex_program ex) \<and> \<not> ex_teardown_attempted ex \<and> \<not> ex_teardown_failed ex
     \<and> length (sys_tpcs s) = length (adapter_actors A) \<and> length (ex_threads ex) = length (adapter_actors A))"

definition coop_state :: "schedule_lib \<Rightarrow> Policy \<Rightarrow> Adapter \<Rightarrow> Schedule \<Rightarrow> int \<Rightarrow> nat \<Rightarrow> nat \<Rightarrow> Sys \<Rightarrow> bool" where
  "coop_state SL P A sched now bytes k s = (coop_flags P A sched now s \<and> sys_ctl s = CtlIdle \<and> ex_initialized (sys_exec s)
     \<and> next_step s = k \<and> completed s = (k = length (sched_steps sched)) \<and> ex_observation_bytes (sys_exec s) = bytes
     \<and> (\<forall>i < length (adapter_actors A). coop_actor (sched_steps sched) k s i))"

lemma find_actor_nth:
  assumes "distinct (map decl_actor (map act_decl as))" "i < length as"
  shows "find_actor (decl_actor (act_decl (as ! i))) as = Some i"
  using assms by (auto simp: find_actor_def find_Some_iff distinct_conv_nth intro!: exI [of _ i])

text \<open>The first half of a step: the permit and the wake-up.\<close>

lemma coop_permit:
  assumes "coop_state SL P A sched now bytes k s" "k < length (sched_steps sched)" "distinct (map decl_actor (adapter_actors A))"
    and "i < length (adapter_actors A)" "decl_actor (adapter_actors A ! i) = step_actor (sched_steps sched ! k)"
    and "\<not> actor_done (sched_steps sched) k (step_actor (sched_steps sched ! k))"
  shows "exec_run SL [ActAdvance True False (sched_steps sched ! k) False now False now, ActWake i] s
    = Some (set_tpc i TBody (go (permit i (sys_exec s)) (CtlWaiting i (sched_steps sched ! k)) s))"
proof -
  let ?ex = "sys_exec s" and ?st = "sched_steps sched ! k"
  note fl = assms(1) [unfolded coop_state_def coop_flags_def Let_def]
  have len: "length (ex_actors ?ex) = length (adapter_actors A)" using fl by (metis length_map)
  have name: "decl_actor (act_decl (actor_at s i)) = step_actor ?st"
    using fl assms(4,5) len by (metis nth_map)
  have ca: "phase s i = PhParked" "tpc_of s i = TStartWait \<or> tpc_of s i = TArriveWait"
    using fl assms(4,6) name by (auto simp: coop_actor_def)
  have found: "find_actor (step_actor ?st) (ex_actors ?ex) = Some i"
    using find_actor_nth [of "ex_actors ?ex" i] assms(3,4) fl len name by simp
  have "poll False now ?ex = ?ex" using fl by (simp add: poll_fine)
  then have "advance_begin True False ?st False now ?ex = Inr (permit i ?ex, Some i)"
    using fl assms(2) found ca(1) by (simp add: advance_begin_def Let_def phase_of_def)
  then have one: "exec_step SL (ActAdvance True False ?st False now False now) s = Some (go (permit i ?ex) (CtlWaiting i ?st) s)"
    using fl by (simp add: exec_step_def worker_step_def start_step_def advance_step_def Let_def)
  have "worker_wake i (go (permit i ?ex) (CtlWaiting i ?st) s) = Some (set_tpc i TBody (go (permit i ?ex) (CtlWaiting i ?st) s))"
    using ca(2) fl assms(4) len by (auto simp: worker_wake_def parked_wakes_def phase_of_def permit_actors frame)
  then show ?thesis using one fl assms(4) by (simp add: exec_step_def worker_step_def)
qed

text \<open>The second half: the observation and the end of \<^verbatim>\<open>advance\<close>.\<close>

lemma advance_tail:
  assumes "\<not> ex_failed ex" "\<not> sh_cancelled (ex_shared ex)" "now < ex_deadline ex" "observable SL v"
    and "ex_observation_bytes ex + observed_bytes SL v \<le> 8 * max_artifact_bytes"
  shows "\<not> ex_failed (advance_end False now (advance_observe SL (Inr v) ex))"
    "\<not> sh_cancelled (ex_shared (advance_end False now (advance_observe SL (Inr v) ex)))"
    "rep_outcome (ex_report (advance_end False now (advance_observe SL (Inr v) ex))) = rep_outcome (ex_report ex)"
    "ex_observation_bytes (advance_end False now (advance_observe SL (Inr v) ex)) = ex_observation_bytes ex + observed_bytes SL v"
    "rep_schedule_completed (ex_report (advance_end False now (advance_observe SL (Inr v) ex)))
      = (rep_schedule_completed (ex_report ex) \<or> Suc (ex_next_step ex) = length (sched_steps (ex_schedule ex)))"
  using assms by (simp_all add: advance_end_def advance_observe_def observe_fine poll_fine frame upd_report_def Let_def)

lemma coop_flags_exec:
  assumes "coop_flags P A sched now s" "\<not> ex_failed (sys_exec t)" "\<not> sh_cancelled (ex_shared (sys_exec t))"
    and "sh_stopping (ex_shared (sys_exec t)) = sh_stopping (ex_shared (sys_exec s))"
    and "sh_checkpoints (ex_shared (sys_exec t)) = sh_checkpoints (ex_shared (sys_exec s))" "decls t = decls s"
    and "ex_schedule (sys_exec t) = ex_schedule (sys_exec s)" "ex_policy (sys_exec t) = ex_policy (sys_exec s)"
    and "rep_outcome (ex_report (sys_exec t)) = rep_outcome (ex_report (sys_exec s))" "ex_constructed (sys_exec t) = ex_constructed (sys_exec s)"
    and "ex_closed (sys_exec t) = ex_closed (sys_exec s)" "ex_deadline (sys_exec t) = ex_deadline (sys_exec s)"
    and "ex_program (sys_exec t) = ex_program (sys_exec s)" "ex_teardown_attempted (sys_exec t) = ex_teardown_attempted (sys_exec s)"
    and "ex_teardown_failed (sys_exec t) = ex_teardown_failed (sys_exec s)" "length (sys_tpcs t) = length (sys_tpcs s)"
    and "length (ex_threads (sys_exec t)) = length (ex_threads (sys_exec s))"
  shows "coop_flags P A sched now t"
  using assms by (simp add: coop_flags_def Let_def)

text \<open>The state an actor is left in by a step, from the one before: the others are untouched.\<close>

lemma coop_state_next:
  assumes "coop_state SL P A sched now bytes k s" "k < length (sched_steps sched)" "distinct (map decl_actor (adapter_actors A))"
    and "i < length (adapter_actors A)" "decl_actor (adapter_actors A ! i) = step_actor (sched_steps sched ! k)"
    and "coop_flags P A sched now t" "sys_ctl t = CtlIdle" "ex_initialized (sys_exec t)" "next_step t = Suc k"
    and "completed t = (Suc k = length (sched_steps sched))" "ex_observation_bytes (sys_exec t) = bytes'"
    and "\<And>j. j < length (adapter_actors A) \<Longrightarrow> j \<noteq> i \<Longrightarrow>
      actor_at t j = actor_at s j \<and> tpc_of t j = tpc_of s j \<and> ex_threads (sys_exec t) ! j = ex_threads (sys_exec s) ! j"
    and "act_thread (actor_at t i) = Some i"
    and "if step_checkpoint (sched_steps sched ! k) = completion
      then phase t i = PhFinished \<and> tpc_of t i = TExited \<and> \<not> ex_threads (sys_exec t) ! i
      else \<not> actor_done (sched_steps sched) k (step_actor (sched_steps sched ! k))
        \<and> phase t i = PhParked \<and> tpc_of t i = TArriveWait \<and> ex_threads (sys_exec t) ! i"
  shows "coop_state SL P A sched now bytes' (Suc k) t"
proof -
  have name: "decl_actor (act_decl (actor_at u j)) = decl_actor (adapter_actors A ! j)"
    if "coop_flags P A sched now u" "j < length (adapter_actors A)" for u j
    using that unfolding coop_flags_def Let_def by (metis length_map nth_map)
  have fl: "coop_flags P A sched now s" using assms(1) by (simp add: coop_state_def)
  have "coop_actor (sched_steps sched) (Suc k) t j" if "j < length (adapter_actors A)" for j
  proof (cases "j = i")
    case True
    then show ?thesis using assms(4,5,13,14) name [OF assms(6)] actor_done_Suc [OF assms(2)]
      by (auto simp: coop_actor_def split: if_splits)
  next
    case False
    then have "decl_actor (adapter_actors A ! j) \<noteq> step_actor (sched_steps sched ! k)"
      using nth_eq_iff_index_eq [OF assms(3), of i j] assms(4,5) that by auto
    moreover have "coop_actor (sched_steps sched) k s j" using assms(1) that by (simp add: coop_state_def)
    ultimately show ?thesis using assms(12) [OF that False] name [OF fl that] actor_done_Suc [OF assms(2)]
      by (auto simp: coop_actor_def split: if_splits)
  qed
  then show ?thesis using assms(6-11) by (simp add: coop_state_def)
qed

text \<open>During a step: the actor \<open>i\<close> is permitted, and everything else stands as in \<open>s\<close>.\<close>

definition coop_busy ::
  "Policy \<Rightarrow> Adapter \<Rightarrow> Schedule \<Rightarrow> int \<Rightarrow> nat \<Rightarrow> nat \<Rightarrow> Sys \<Rightarrow> nat \<Rightarrow> ActorPhase \<Rightarrow> tpc \<Rightarrow> string option \<Rightarrow> Sys \<Rightarrow> bool" where
  "coop_busy P A sched now bytes k s i ph tp arr u = (coop_flags P A sched now u \<and> sys_ctl u = CtlWaiting i (sched_steps sched ! k)
     \<and> ex_initialized (sys_exec u) \<and> next_step u = k \<and> \<not> completed u \<and> ex_observation_bytes (sys_exec u) = bytes
     \<and> ex_threads (sys_exec u) = ex_threads (sys_exec s) \<and> act_thread (actor_at u i) = Some i
     \<and> (\<forall>j < length (adapter_actors A). j \<noteq> i \<longrightarrow> actor_at u j = actor_at s j \<and> tpc_of u j = tpc_of s j)
     \<and> phase u i = ph \<and> tpc_of u i = tp \<and> act_arrival (actor_at u i) = arr
     \<and> (case arr of Some c \<Rightarrow> act_checkpoint (actor_at u i) = c | None \<Rightarrow> True))"

lemma coop_flags_len: "coop_flags P A sched now s \<Longrightarrow> length (ex_actors (sys_exec s)) = length (adapter_actors A)"
  unfolding coop_flags_def Let_def by (metis length_map)

lemma coop_flags_name:
  "coop_flags P A sched now s \<Longrightarrow> i < length (adapter_actors A) \<Longrightarrow> decl_actor (act_decl (actor_at s i)) = decl_actor (adapter_actors A ! i)"
  unfolding coop_flags_def Let_def by (metis length_map nth_map)

lemma decls_list_update:
  "act_decl a = act_decl (as ! i) \<Longrightarrow> map act_decl (as[i := a]) = map act_decl as"
  by (cases "i < length as") (auto simp: map_update list_update_beyond list_update_same)

text \<open>An update of the actor under way keeps the rest.\<close>

lemma coop_busy_update:
  assumes "coop_busy P A sched now bytes k s i ph tp arr u" "i < length (adapter_actors A)"
    and "w = set_tpc i tp' (on_shared (upd_actor i f) u)" "act_decl (f (actor_at u i)) = act_decl (actor_at u i)"
    and "act_thread (f (actor_at u i)) = Some i" "act_phase (f (actor_at u i)) = ph'" "act_arrival (f (actor_at u i)) = Some c"
    and "act_checkpoint (f (actor_at u i)) = c"
  shows "coop_busy P A sched now bytes k s i ph' tp' (Some c) w"
proof -
  note b = assms(1) [unfolded coop_busy_def]
  have len: "length (ex_actors (sys_exec u)) = length (adapter_actors A)" "length (sys_tpcs u) = length (adapter_actors A)"
    using b coop_flags_len by (auto simp: coop_flags_def Let_def)
  have cf: "coop_flags P A sched now u" using b by simp
  have "coop_flags P A sched now w"
    by (rule coop_flags_exec [OF cf]) (use cf assms(3,4) in \<open>simp_all add: frame upd_actor_def decls_list_update coop_flags_def Let_def\<close>)
  moreover have "actor_at w i = f (actor_at u i)" "tpc_of w i = tp'"
    using assms(2,3) len by (simp_all add: upd_actor_def)
  moreover have "actor_at w j = actor_at u j" "tpc_of w j = tpc_of u j" if "j \<noteq> i" for j
    using assms(3) that by (simp_all add: upd_actor_def)
  ultimately show ?thesis using b assms(3,5-8) by (simp add: coop_busy_def frame)
qed

lemma coop_permitted:
  assumes "coop_state SL P A sched now bytes k s" "k < length (sched_steps sched)" "i < length (adapter_actors A)"
  shows "coop_busy P A sched now bytes k s i PhRunning TBody None (set_tpc i TBody (go (permit i (sys_exec s)) (CtlWaiting i (sched_steps sched ! k)) s))"
proof -
  note st = assms(1) [unfolded coop_state_def]
  have len: "length (ex_actors (sys_exec s)) = length (adapter_actors A)" "length (sys_tpcs s) = length (adapter_actors A)"
    using st coop_flags_len by (auto simp: coop_flags_def Let_def)
  have th: "act_thread (actor_at s i) = Some i" using st assms(3) by (simp add: coop_actor_def)
  let ?u = "set_tpc i TBody (go (permit i (sys_exec s)) (CtlWaiting i (sched_steps sched ! k)) s)"
  have fr: "sh_cancelled (ex_shared (permit i ex)) = sh_cancelled (ex_shared ex)" "rep_outcome (ex_report (permit i ex)) = rep_outcome (ex_report ex)"
    "ex_observation_bytes (permit i ex) = ex_observation_bytes ex" for ex
    by (simp_all add: permit_def exec_event_def upd_report_def upd_actor_def)
  have "coop_flags P A sched now ?u"
    by (rule coop_flags_exec [of P A sched now s])
      (use st in \<open>simp_all add: frame fr permit_actors decls_list_update coop_flags_def Let_def\<close>)
  then show ?thesis using st assms(2,3) len th by (simp add: coop_busy_def frame fr permit_actors)
qed

lemma coop_arrives:
  assumes "coop_busy P A sched now bytes k s i PhRunning TBody None u" "i < length (adapter_actors A)"
    and "schedule_identifier c" "c \<in> set (adapter_checkpoints A)"
  shows "\<exists>w. exec_step SL (ActArrive i c) u = Some w \<and> coop_busy P A sched now bytes k s i PhParked TArriveWait (Some c) w"
proof -
  note b = assms(1) [unfolded coop_busy_def] and fl = assms(1) [unfolded coop_busy_def coop_flags_def Let_def]
  let ?w = "set_tpc i TArriveWait (on_shared (upd_actor i (\<lambda>a. a\<lparr>act_checkpoint := c, act_arrival := Some c, act_phase := PhParked\<rparr>)) u)"
  have "worker_arrive i c u = ?w" using fl assms(3,4) by (simp add: worker_arrive_def checkpoint_arrive_def phase_of_def)
  then have "exec_step SL (ActArrive i c) u = Some ?w" using fl assms(2) by (simp add: exec_step_def worker_step_def)
  moreover have "coop_busy P A sched now bytes k s i PhParked TArriveWait (Some c) ?w"
    by (rule coop_busy_update [OF assms(1,2) refl]) (use b in simp_all)
  ultimately show ?thesis by blast
qed

lemma coop_completes:
  assumes "coop_busy P A sched now bytes k s i PhRunning TBody None u" "i < length (adapter_actors A)"
  shows "\<exists>w. exec_run SL [ActBodyEnd i BodyReturns, ActFinish i] u = Some w
    \<and> coop_busy P A sched now bytes k s i PhFinished TFinished (Some completion) w"
proof -
  note b = assms(1) [unfolded coop_busy_def] and fl = assms(1) [unfolded coop_busy_def coop_flags_def Let_def]
  let ?w = "set_tpc i TFinished (on_shared (thread_finish i) u)"
  have "exec_run SL [ActBodyEnd i BodyReturns, ActFinish i] u = Some ?w"
    using fl assms(2) by (simp add: exec_step_def worker_step_def)
  moreover have "coop_busy P A sched now bytes k s i PhFinished TFinished (Some completion) ?w"
    by (rule coop_busy_update [OF assms(1,2), where f = "\<lambda>a. a\<lparr>act_checkpoint := completion,
         act_arrival := (case act_arrival a of None \<Rightarrow> Some completion | Some c \<Rightarrow> Some c), act_phase := PhFinished\<rparr>"])
      (use b in \<open>simp_all add: thread_finish_def\<close>)
  ultimately show ?thesis by blast
qed

lemma record_arrival_more [frame]:
  "sh_cancelled (ex_shared (record_arrival i ex)) = sh_cancelled (ex_shared ex)"
  "rep_outcome (ex_report (record_arrival i ex)) = rep_outcome (ex_report ex)"
  "ex_observation_bytes (record_arrival i ex) = ex_observation_bytes ex"
  by (simp_all add: record_arrival_def exec_event_def upd_report_def split: option.split)

text \<open>The observation after an arrival, for an execution that stands as the busy state does.\<close>

lemma coop_tail_flags:
  assumes "coop_flags P A sched now u" "decls w = decls u" "sys_tpcs w = tps" "length tps = length (sys_tpcs u)"
    and "\<not> ex_failed ex" "\<not> sh_cancelled (ex_shared ex)" "now < ex_deadline ex" "rep_outcome (ex_report ex) = rep_outcome (ex_report (sys_exec u))"
    and "observable SL v" "ex_observation_bytes ex + observed_bytes SL v \<le> 8 * max_artifact_bytes"
    and "sys_exec w = advance_end False now (advance_observe SL (Inr v) ex)"
    and "sh_stopping (ex_shared ex) = sh_stopping (ex_shared (sys_exec u))" "sh_checkpoints (ex_shared ex) = sh_checkpoints (ex_shared (sys_exec u))"
    and "ex_schedule ex = ex_schedule (sys_exec u)" "ex_policy ex = ex_policy (sys_exec u)" "ex_constructed ex = ex_constructed (sys_exec u)"
    and "ex_closed ex = ex_closed (sys_exec u)" "ex_deadline ex = ex_deadline (sys_exec u)" "ex_program ex = ex_program (sys_exec u)"
    and "ex_teardown_attempted ex = ex_teardown_attempted (sys_exec u)" "ex_teardown_failed ex = ex_teardown_failed (sys_exec u)"
    and "length (ex_threads ex) = length (ex_threads (sys_exec u))"
  shows "coop_flags P A sched now w"
  by (rule coop_flags_exec [OF assms(1)]) (use assms advance_tail [OF assms(5-7,9,10)] in \<open>simp_all add: frame\<close>)

lemma coop_step_parked:
  assumes "coop_state SL P A sched now bytes k s" "k < length (sched_steps sched)" "distinct (map decl_actor (adapter_actors A))"
    and "i < length (adapter_actors A)" "decl_actor (adapter_actors A ! i) = step_actor (sched_steps sched ! k)"
    and "\<not> actor_done (sched_steps sched) k (step_actor (sched_steps sched ! k))" "step_checkpoint (sched_steps sched ! k) \<noteq> completion"
    and "observable SL v" "bytes + observed_bytes SL v \<le> 8 * max_artifact_bytes"
    and "coop_busy P A sched now bytes k s i PhParked TArriveWait (Some (step_checkpoint (sched_steps sched ! k))) u"
  shows "\<exists>t. exec_run SL [ActArrived False now (Inr v) False now, ActReturn] u = Some t
    \<and> coop_state SL P A sched now (bytes + observed_bytes SL v) (Suc k) t"
proof -
  note b = assms(10) [unfolded coop_busy_def] and fl = assms(10) [unfolded coop_busy_def coop_flags_def Let_def]
  let ?st = "sched_steps sched ! k"
  let ?arr = "record_arrival i (sys_exec u)"
  let ?ex = "advance_end False now (advance_observe SL (Inr v) ?arr)"
  let ?t = "go ?ex CtlIdle u"
  have tail: "\<not> ex_failed ?ex" "\<not> sh_cancelled (ex_shared ?ex)" "ex_observation_bytes ?ex = bytes + observed_bytes SL v"
    "rep_schedule_completed (ex_report ?ex) = (Suc k = length (sched_steps sched))"
    using advance_tail [of ?arr now SL v] fl assms(8,9) by (simp_all add: frame)
  have "advance_arrived SL i ?st False now (Inr v) (sys_exec u) = (advance_observe SL (Inr v) ?arr, False)"
    using fl by (simp add: advance_arrived_def Let_def poll_fine frame)
  then have one: "exec_step SL (ActArrived False now (Inr v) False now) u = Some (go ?ex CtlReturn u)"
    using fl by (simp add: exec_step_def worker_step_def start_step_def advance_step_def Let_def wait_over_def phase_of_def)
  have two: "exec_step SL ActReturn (go ?ex CtlReturn u) = Some ?t"
    using tail(1) by (simp add: exec_step_def worker_step_def start_step_def advance_step_def Let_def)
  have cf: "coop_flags P A sched now u" using b by simp
  have "coop_flags P A sched now ?t"
    by (rule coop_tail_flags [OF cf _ refl, where ex = ?arr and SL = SL and v = v]) (use fl assms(8,9) in \<open>simp_all add: frame\<close>)
  then have "coop_state SL P A sched now (bytes + observed_bytes SL v) (Suc k) ?t"
    by (rule coop_state_next [OF assms(1-5)])
      (use b tail(3,4) assms(1,4-7) coop_flags_name [of P A sched now s i] in
        \<open>simp_all add: frame coop_state_def coop_actor_def\<close>)
  with one two show ?thesis by simp
qed

lemma coop_step_finished:
  assumes "coop_state SL P A sched now bytes k s" "k < length (sched_steps sched)" "distinct (map decl_actor (adapter_actors A))"
    and "i < length (adapter_actors A)" "decl_actor (adapter_actors A ! i) = step_actor (sched_steps sched ! k)"
    and "step_checkpoint (sched_steps sched ! k) = completion"
    and "observable SL v" "bytes + observed_bytes SL v \<le> 8 * max_artifact_bytes"
    and "coop_busy P A sched now bytes k s i PhFinished TFinished (Some completion) u"
  shows "\<exists>t. exec_run SL [ActArrived False now (Inr v) False now, ActExit i, ActJoined (Inr v) False now, ActReturn] u = Some t
    \<and> coop_state SL P A sched now (bytes + observed_bytes SL v) (Suc k) t"
proof -
  note b = assms(9) [unfolded coop_busy_def] and fl = assms(9) [unfolded coop_busy_def coop_flags_def Let_def]
  let ?st = "sched_steps sched ! k"
  let ?arr = "record_arrival i (sys_exec u)"
  let ?j = "upd_shared (upd_actor i (\<lambda>a. a\<lparr>act_joined := True\<rparr>)) (?arr\<lparr>ex_threads := (ex_threads ?arr)[i := False]\<rparr>)"
  define ex where "ex = advance_end False now (advance_observe SL (Inr v) ?j)"
  let ?w = "set_tpc i TExited (go ?arr (CtlJoining i) u)"
  let ?t = "set_tpc i TExited (go ex CtlIdle u)"
  have len: "i < length (sys_tpcs u)" "i < length (ex_actors (sys_exec u))" "i < length (ex_threads (sys_exec u))"
    using b coop_flags_len assms(4) by (auto simp: coop_flags_def Let_def)
  have tail: "\<not> ex_failed ex" "\<not> sh_cancelled (ex_shared ex)" "ex_observation_bytes ex = bytes + observed_bytes SL v"
    "rep_schedule_completed (ex_report ex) = (Suc k = length (sched_steps sched))"
    using advance_tail [of ?j now SL v] fl assms(7,8) unfolding ex_def by (simp_all add: frame)
  have "advance_arrived SL i ?st False now (Inr v) (sys_exec u) = (?arr, True)"
    using fl assms(6) by (simp add: advance_arrived_def Let_def poll_fine frame)
  then have one: "exec_step SL (ActArrived False now (Inr v) False now) u = Some (go ?arr (CtlJoining i) u)"
    using fl by (simp add: exec_step_def worker_step_def start_step_def advance_step_def Let_def wait_over_def phase_of_def)
  have two: "exec_step SL (ActExit i) (go ?arr (CtlJoining i) u) = Some ?w" using fl len assms(4) by (simp add: exec_step_def worker_step_def)
  have three: "exec_step SL (ActJoined (Inr v) False now) ?w = Some (set_tpc i TExited (go ex CtlReturn u))"
    using len by (simp add: exec_step_def worker_step_def start_step_def advance_step_def Let_def advance_joined_def ex_def)
  have four: "exec_step SL ActReturn (set_tpc i TExited (go ex CtlReturn u)) = Some ?t"
    using tail(1) by (simp add: exec_step_def worker_step_def start_step_def advance_step_def Let_def)
  have at: "ex_actors ex = (ex_actors (sys_exec u))[i := (actor_at u i)\<lparr>act_joined := True\<rparr>]" unfolding ex_def by (simp add: frame) (simp add: upd_actor_def frame)
  have thr: "ex_threads ex = (ex_threads (sys_exec u))[i := False]" "next_step (go ex CtlIdle u) = Suc (next_step u)"
    "ex_initialized ex = ex_initialized (sys_exec u)"
    unfolding ex_def by (simp_all add: frame)
  have cf: "coop_flags P A sched now u" using b by simp
  have "coop_flags P A sched now ?t"
    by (rule coop_tail_flags [OF cf _ refl, where ex = ?j and SL = SL and v = v])
      (use fl assms(7,8) in \<open>simp_all add: ex_def frame decls_upd_actor\<close>)
  then have "coop_state SL P A sched now (bytes + observed_bytes SL v) (Suc k) ?t"
    by (rule coop_state_next [OF assms(1-5)])
      (use b tail(3,4) thr(2,3) assms(6) len in \<open>simp_all add: at thr(1)\<close>)
  with one two three four show ?thesis by simp
qed

lemma coop_step_run:
  assumes "coop_state SL P A sched now bytes k s" "k < length (sched_steps sched)"
    and "schedule_admissible (adapter_actors A) (adapter_checkpoints A) (sched_steps sched)"
    and "observable SL v" "bytes + observed_bytes SL v \<le> 8 * max_artifact_bytes"
  shows "\<exists>t. exec_run SL (coop_step now (actor_index (adapter_actors A) (step_actor (sched_steps sched ! k))) (sched_steps sched ! k) v) s = Some t
    \<and> coop_state SL P A sched now (bytes + observed_bytes SL v) (Suc k) t"
proof -
  let ?st = "sched_steps sched ! k"
  note adm = admissible_step [OF assms(3,2)]
  have dist: "distinct (map decl_actor (adapter_actors A))" using assms(3) by (simp add: schedule_admissible_def)
  from adm(1) obtain i where i: "i < length (adapter_actors A)" "decl_actor (adapter_actors A ! i) = step_actor ?st" by blast
  have idx: "actor_index (adapter_actors A) (step_actor ?st) = i" using actor_index_nth [OF dist i(1)] i(2) by simp
  note permit = coop_permit [OF assms(1,2) dist i adm(2)] and busy = coop_permitted [OF assms(1,2) i(1)]
  show ?thesis
  proof (cases "step_checkpoint ?st = completion")
    case True
    from coop_completes [OF busy i(1), of SL] obtain w where w: "exec_run SL [ActBodyEnd i BodyReturns, ActFinish i]
        (set_tpc i TBody (go (permit i (sys_exec s)) (CtlWaiting i ?st) s)) = Some w"
      and bw: "coop_busy P A sched now bytes k s i PhFinished TFinished (Some completion) w" by blast
    have run: "coop_step now i ?st v = [ActAdvance True False ?st False now False now, ActWake i] @ [ActBodyEnd i BodyReturns, ActFinish i]
        @ [ActArrived False now (Inr v) False now, ActExit i, ActJoined (Inr v) False now, ActReturn]"
      using True by (simp add: coop_step_def)
    show ?thesis using coop_step_finished [OF assms(1,2) dist i True assms(4,5) bw]
      unfolding idx run exec_run_append permit w Option.bind.bind_lunit by blast
  next
    case False
    then have "schedule_identifier (step_checkpoint ?st)" "step_checkpoint ?st \<in> set (adapter_checkpoints A)" using adm(3) by auto
    from coop_arrives [OF busy i(1) this, of SL] obtain w where w: "exec_run SL [ActArrive i (step_checkpoint ?st)]
        (set_tpc i TBody (go (permit i (sys_exec s)) (CtlWaiting i ?st) s)) = Some w"
      and bw: "coop_busy P A sched now bytes k s i PhParked TArriveWait (Some (step_checkpoint ?st)) w" by auto
    have run: "coop_step now i ?st v = [ActAdvance True False ?st False now False now, ActWake i] @ [ActArrive i (step_checkpoint ?st)]
        @ [ActArrived False now (Inr v) False now, ActReturn]"
      using False by (simp add: coop_step_def)
    show ?thesis using coop_step_parked [OF assms(1,2) dist i adm(2) False assms(4,5) bw]
      unfolding idx run exec_run_append permit w Option.bind.bind_lunit by blast
  qed
qed

lemma coop_steps_run:
  assumes "coop_state SL P A sched now bytes k s" "k + length vs = length (sched_steps sched)"
    and "schedule_admissible (adapter_actors A) (adapter_checkpoints A) (sched_steps sched)"
    and "list_all (observable SL) vs" "bytes + sum_list (map (observed_bytes SL) vs) \<le> 8 * max_artifact_bytes"
  shows "\<exists>t bytes'. exec_run SL (coop_steps now (adapter_actors A) (drop k (sched_steps sched)) vs) s = Some t
    \<and> coop_state SL P A sched now bytes' (length (sched_steps sched)) t"
  using assms
proof (induction vs arbitrary: bytes k s)
  case Nil
  then show ?case by auto
next
  case (Cons v vs)
  have k: "k < length (sched_steps sched)" using Cons.prems(2) by simp
  from coop_step_run [OF Cons.prems(1) k Cons.prems(3), of v] Cons.prems(4,5) obtain t where
    t: "exec_run SL (coop_step now (actor_index (adapter_actors A) (step_actor (sched_steps sched ! k))) (sched_steps sched ! k) v) s = Some t"
      "coop_state SL P A sched now (bytes + observed_bytes SL v) (Suc k) t" by auto
  show ?case using Cons.IH [OF t(2) _ Cons.prems(3)] Cons.prems(2,4,5) t(1)
    by (simp add: Cons_nth_drop_Suc [OF k, symmetric] exec_run_append add.assoc)
qed

text \<open>The calls of the run are those of the loop of \<^verbatim>\<open>run_schedule\<close>.\<close>

lemma run_call_follows:
  assumes "coop_state SL P A sched now bytes k s"
  shows "run_call (sys_exec s) (drop k (sched_steps sched)) =
    (if k < length (sched_steps sched) then (CallAdvance (sched_steps sched ! k), drop (Suc k) (sched_steps sched)) else (CallFinish, []))"
  using assms by (auto simp: coop_state_def coop_flags_def run_call_def Cons_nth_drop_Suc [symmetric] Let_def)

section \<open>Start and end of the run\<close>

text \<open>What the factory owes: one worker with a function for every declared actor, an observer and a teardown.\<close>

definition program_complete :: "ActorDeclaration list \<Rightarrow> Program \<Rightarrow> bool" where
  "program_complete as p = (distinct (map fst (prog_workers p)) \<and> list_all snd (prog_workers p)
     \<and> fst ` set (prog_workers p) = decl_actor ` set as \<and> prog_observe p \<and> prog_teardown p)"

lemma collect_workers_fine:
  "distinct (map fst ws) \<Longrightarrow> list_all snd ws \<Longrightarrow> fst ` set ws \<inter> seen = {} \<Longrightarrow> collect_workers seen sh ws = (seen \<union> fst ` set ws, sh)"
  by (induction seen sh ws rule: collect_workers.induct) auto

lemma check_program_fine:
  assumes "program_complete as p" "map act_decl (sh_actors sh) = as" "distinct (map decl_actor as)"
  shows "check_program p sh = sh"
proof -
  have "length (sh_actors sh) = length as" "decl_actor ` set as = decl_actor ` act_decl ` set (sh_actors sh)"
    using assms(2) by (auto simp flip: length_map [of act_decl])
  moreover have "card (decl_actor ` set as) = length as" using distinct_card [OF assms(3)] by simp
  ultimately show ?thesis using assms(1) collect_workers_fine [of "prog_workers p" "{}" sh]
    by (auto simp: check_program_def program_complete_def Let_def list_all_iff)
qed

lemma start_construct_fine:
  assumes "\<not> sh_cancelled (ex_shared ex)" "adapter_factory (ex_adapter ex) = Some fac" "fac (sched_inputs (ex_schedule ex)) = Inr p"
    and "program_complete (map act_decl (ex_actors ex)) p" "distinct (map decl_actor (map act_decl (ex_actors ex)))"
    and "0 < execution_timeout (ex_policy ex)"
  shows "start_construct False now False now ex
    = ex\<lparr>ex_deadline := now + execution_timeout (ex_policy ex), ex_program := p, ex_constructed := True\<rparr>"
proof -
  have "check_program p (ex_shared ex) = ex_shared ex" by (rule check_program_fine [OF assms(4) refl assms(5)])
  moreover have sh: "(ex_shared ex)\<lparr>sh_cancelled := False\<rparr> = ex_shared ex" using assms(1) by simp
  ultimately show ?thesis using assms(1-3,6) by (simp add: start_construct_def Let_def sh)
qed

definition parked_actors :: "nat \<Rightarrow> ActorState list \<Rightarrow> ActorState list" where
  "parked_actors m as = map (\<lambda>i. if i < m then (as ! i)\<lparr>act_thread := Some i, act_phase := PhParked\<rparr> else as ! i) [0..<length as]"

definition parked_tpcs :: "nat \<Rightarrow> nat \<Rightarrow> tpc list" where
  "parked_tpcs m n = map (\<lambda>i. if i < m then TStartWait else TSpawned) [0..<n]"

lemma parked_Suc:
  assumes "m < length as"
  shows "(parked_actors m as)[m := (parked_actors m as ! m)\<lparr>act_thread := Some m, act_phase := PhParked\<rparr>] = parked_actors (Suc m) as"
    "(parked_tpcs m (length as))[m := TStartWait] = parked_tpcs (Suc m) (length as)"
  using assms by (auto intro!: nth_equalityI simp: parked_actors_def parked_tpcs_def nth_list_update less_Suc_eq)

lemma coop_parks:
  assumes "sys_tpcs s = parked_tpcs 0 (length (ex_actors (sys_exec s)))" "m \<le> length (ex_actors (sys_exec s))"
  shows "exec_run SL (map (\<lambda>i. ActPark i i) [0..<m]) s
    = Some ((on_shared (\<lambda>sh. sh\<lparr>sh_actors := parked_actors m (sh_actors sh)\<rparr>) s)\<lparr>sys_tpcs := parked_tpcs m (length (ex_actors (sys_exec s)))\<rparr>)"
  using assms(2)
proof (induction m)
  case 0
  have "parked_actors 0 as = as" for as by (simp add: parked_actors_def map_nth)
  then show ?case using assms(1) by simp
next
  case (Suc m)
  let ?u = "(on_shared (\<lambda>sh. sh\<lparr>sh_actors := parked_actors m (sh_actors sh)\<rparr>) s)\<lparr>sys_tpcs := parked_tpcs m (length (ex_actors (sys_exec s)))\<rparr>"
  have m: "m < length (ex_actors (sys_exec s))" using Suc.prems by simp
  have "exec_step SL (ActPark m m) ?u = Some ((on_shared (\<lambda>sh. sh\<lparr>sh_actors := parked_actors (Suc m) (sh_actors sh)\<rparr>) s)
      \<lparr>sys_tpcs := parked_tpcs (Suc m) (length (ex_actors (sys_exec s)))\<rparr>)"
    using m parked_Suc [OF m] by (simp add: exec_step_def worker_step_def thread_park_def upd_actor_def parked_tpcs_def)
  then show ?case using Suc by (simp add: exec_run_append)
qed

lemma parked_actors_decls: "map act_decl (parked_actors m as) = map act_decl as"
  by (rule nth_equalityI) (auto simp: parked_actors_def)

lemma coop_spawned:
  assumes "sys_start SL c g rnd P A sched = Some s" "admit SL c P A sched = Admitted (adapter_actors A) (set (adapter_checkpoints A))"
    and "distinct (map decl_actor (adapter_actors A))" "0 < execution_timeout P"
    and "adapter_factory A = Some fac" "fac (sched_inputs sched) = Inr p" "program_complete (adapter_actors A) p"
  shows "\<exists>u. exec_run SL ([ActConstruct False now False now, ActSpawn None] @ map (\<lambda>i. ActPark i i) [0..<length (adapter_actors A)]) s = Some u
    \<and> coop_flags P A sched now u \<and> sys_ctl u = CtlBarrier \<and> next_step u = 0 \<and> \<not> completed u \<and> ex_observation_bytes (sys_exec u) = 0
    \<and> ex_threads (sys_exec u) = replicate (length (adapter_actors A)) True \<and> sys_tpcs u = parked_tpcs (length (adapter_actors A)) (length (adapter_actors A))
    \<and> ex_actors (sys_exec u) = parked_actors (length (adapter_actors A)) (map actor_new (adapter_actors A))"
proof -
  let ?n = "length (adapter_actors A)"
  define ex where "ex = upd_shared (\<lambda>sh. sh\<lparr>sh_actors := map actor_new (adapter_actors A), sh_checkpoints := set (adapter_checkpoints A)\<rparr>)
      (new_execution g rnd P A sched)"
  have s: "s = \<lparr> sys_exec = ex, sys_tpcs = [], sys_ctl = CtlConstruct, sys_teardowns = 0 \<rparr>"
    using assms(1,2) by (simp add: ex_def sys_start_def start_admit_def new_execution_def)
  have decls: "map act_decl (ex_actors ex) = adapter_actors A" by (simp add: ex_def actor_new_def comp_def)
  have e0: "\<not> sh_cancelled (ex_shared ex)" "ex_adapter ex = A" "ex_schedule ex = sched" "ex_policy ex = P" "length (ex_actors ex) = ?n"
    by (simp_all add: ex_def new_execution_def new_shared_def)
  define ex1 where "ex1 = ex\<lparr>ex_deadline := now + execution_timeout P, ex_program := p, ex_constructed := True\<rparr>"
  have "start_construct False now False now ex = ex1"
    using start_construct_fine [of ex fac p now] e0 decls assms(3-7) by (simp add: ex1_def)
  moreover have "\<not> ex_failed ex1" by (simp add: ex1_def ex_def new_execution_def new_shared_def)
  ultimately have one: "exec_step SL (ActConstruct False now False now) s = Some (s\<lparr>sys_exec := ex1, sys_ctl := CtlSpawn\<rparr>)"
    by (simp add: exec_step_def worker_step_def start_step_def s)
  define s2 where "s2 = s\<lparr>sys_exec := ex1\<lparr>ex_threads := replicate ?n True\<rparr>, sys_ctl := CtlBarrier, sys_tpcs := parked_tpcs 0 ?n\<rparr>"
  have len1: "length (ex_actors ex1) = ?n" using e0 by (simp add: ex1_def)
  have two: "exec_step SL (ActSpawn None) (s\<lparr>sys_exec := ex1, sys_ctl := CtlSpawn\<rparr>) = Some s2"
    using len1 by (simp add: exec_step_def worker_step_def start_step_def s2_def start_spawn_def parked_tpcs_def s cong: map_cong)
  define u where "u = (on_shared (\<lambda>sh. sh\<lparr>sh_actors := parked_actors ?n (sh_actors sh)\<rparr>) s2)\<lparr>sys_tpcs := parked_tpcs ?n ?n\<rparr>"
  have "exec_run SL (map (\<lambda>i. ActPark i i) [0..<?n]) s2 = Some u"
    using coop_parks [of s2 ?n SL] len1 by (simp add: s2_def u_def)
  moreover have "coop_flags P A sched now u"
    using assms(4,7) decls
    by (simp add: coop_flags_def u_def s2_def ex1_def parked_actors_decls program_complete_def parked_tpcs_def)
      (simp add: ex_def new_execution_def new_shared_def)
  ultimately show ?thesis using one two
    by (simp add: exec_run_append) (simp add: u_def s2_def ex1_def ex_def new_execution_def new_shared_def)
qed

lemma coop_start_run:
  assumes "sys_start SL c g rnd P A sched = Some s" "admit SL c P A sched = Admitted (adapter_actors A) (set (adapter_checkpoints A))"
    and "distinct (map decl_actor (adapter_actors A))" "0 < execution_timeout P" "sched_steps sched \<noteq> []"
    and "adapter_factory A = Some fac" "fac (sched_inputs sched) = Inr p" "program_complete (adapter_actors A) p"
    and "observable SL v" "observed_bytes SL v \<le> 8 * max_artifact_bytes"
  shows "\<exists>t. exec_run SL (coop_start now (length (adapter_actors A)) v) s = Some t \<and> coop_state SL P A sched now (observed_bytes SL v) 0 t"
proof -
  let ?n = "length (adapter_actors A)"
  from coop_spawned [OF assms(1-4,6-8), of now] obtain u where
    run: "exec_run SL ([ActConstruct False now False now, ActSpawn None] @ map (\<lambda>i. ActPark i i) [0..<?n]) s = Some u"
    and fl: "coop_flags P A sched now u" and u: "sys_ctl u = CtlBarrier" "next_step u = 0" "\<not> completed u" "ex_observation_bytes (sys_exec u) = 0"
      "ex_threads (sys_exec u) = replicate ?n True" "sys_tpcs u = parked_tpcs ?n ?n"
      "ex_actors (sys_exec u) = parked_actors ?n (map actor_new (adapter_actors A))" by blast
  note cf = fl [unfolded coop_flags_def Let_def]
  let ?ex = "(observe SL 0 (Inr v) (sys_exec u))\<lparr>ex_initialized := True\<rparr>"
  have obs: "observe SL 0 (Inr v) (sys_exec u) = upd_report (\<lambda>r. r\<lparr>rep_observations := rep_observations r @ [observation_json 0 v]\<rparr>)
      ((sys_exec u)\<lparr>ex_observation_bytes := observed_bytes SL v\<rparr>)"
    using observe_fine [of SL v "sys_exec u" 0] assms(9,10) u(4) by simp
  have "start_barrier SL False now (Inr v) False now (sys_exec u) = ?ex"
    using cf by (simp add: start_barrier_def Let_def poll_fine obs frame)
  moreover have "all_parked (ex_shared (sys_exec u))" using u(7) by (auto simp: all_parked_def parked_actors_def list_all_iff)
  ultimately have "exec_step SL (ActBarrier False now (Inr v) False now) u = Some (go ?ex CtlIdle u)"
    using cf u(1) by (simp add: exec_step_def worker_step_def start_step_def Let_def wait_over_def)
  moreover have "coop_start now ?n v = ([ActConstruct False now False now, ActSpawn None] @ map (\<lambda>i. ActPark i i) [0..<?n])
      @ [ActBarrier False now (Inr v) False now]"
    by (simp add: coop_start_def)
  ultimately have "exec_run SL (coop_start now ?n v) s = Some (go ?ex CtlIdle u)"
    using exec_run_snoc [OF run] by metis
  moreover have "coop_flags P A sched now (go ?ex CtlIdle u)"
    by (rule coop_flags_exec [OF fl]) (use cf in \<open>simp_all add: obs frame\<close>)
  then have "coop_state SL P A sched now (observed_bytes SL v) 0 (go ?ex CtlIdle u)"
    using u assms(5) by (simp add: coop_state_def coop_actor_def obs frame parked_actors_def parked_tpcs_def actor_done_0) (simp add: upd_report_def)
  ultimately show ?thesis by blast
qed

text \<open>Cleanup after the last step: nothing is left to join.\<close>

lemma coop_joins:
  assumes "sys_ctl s = CtlCleanJoin j" "list_all Not (ex_threads (sys_exec s))" "j + m = length (ex_threads (sys_exec s))"
  shows "exec_run SL (replicate m ActCleanJoin) s = Some (go (sys_exec s) (CtlCleanJoin (j + m)) s)"
  using assms
proof (induction m arbitrary: j s)
  case (Suc m)
  have "\<not> ex_threads (sys_exec s) ! j" using Suc.prems(2,3) by (simp add: list_all_length)
  then have "exec_step SL ActCleanJoin s = Some (go (sys_exec s) (CtlCleanJoin (Suc j)) s)"
    using Suc.prems(1,3) by (simp add: exec_step_def worker_step_def start_step_def advance_step_def cleanup_step_def Let_def join_actor_def)
  then show ?case using Suc.IH [of "go (sys_exec s) (CtlCleanJoin (Suc j)) s" "Suc j"] Suc.prems by simp
qed simp

lemma coop_finish_run:
  assumes "coop_state SL P A sched now bytes (length (sched_steps sched)) s" "valid_budget (cleanup_timeout P)"
    and "schedule_admissible (adapter_actors A) (adapter_checkpoints A) (sched_steps sched)"
  shows "\<exists>t. exec_run SL (coop_finish now (length (adapter_actors A))) s = Some t \<and> passed (ex_report (sys_exec t))"
proof -
  let ?n = "length (adapter_actors A)" and ?u = "cleanup_timeout P"
  note st = assms(1) [unfolded coop_state_def] and fl = assms(1) [unfolded coop_state_def coop_flags_def Let_def]
  have quiet: "phase s i = PhFinished \<and> \<not> ex_threads (sys_exec s) ! i" if "i < ?n" for i
    using st that actor_done_end [OF assms(3) that] coop_flags_name [of P A sched now s i] by (auto simp: coop_actor_def)
  have thr: "length (ex_threads (sys_exec s)) = ?n" using fl by simp
  then have joined: "list_all Not (ex_threads (sys_exec s))" using quiet by (simp add: list_all_length)
  have one: "exec_step SL (ActFinishCall True False) s = Some (go (sys_exec s) (CtlCleanup ?u) s)"
    using fl by (simp add: exec_step_def worker_step_def start_step_def advance_step_def finish_begin_def)
  let ?ex = "stop_actors ((sys_exec s)\<lparr>ex_closed := True\<rparr>)"
  have two: "exec_step SL (ActCleanup now) (go (sys_exec s) (CtlCleanup ?u) s) = Some (go ?ex (CtlCleanWait (now + ?u)) s)"
    using fl assms(2) by (simp add: exec_step_def worker_step_def start_step_def advance_step_def cleanup_step_def enter_cleanup_def cleanup_begin_def)
  have "all_finished ?ex" using quiet thr by (simp add: all_finished_def frame list_all_length phase_of_def)
  then have three: "exec_step SL (ActCleanWait now) (go ?ex (CtlCleanWait (now + ?u)) s) = Some (go ?ex (CtlCleanJoin 0) s)"
    by (simp add: exec_step_def worker_step_def start_step_def advance_step_def cleanup_step_def Let_def)
  have four: "exec_run SL (replicate ?n ActCleanJoin) (go ?ex (CtlCleanJoin 0) s) = Some (go ?ex (CtlCleanJoin ?n) s)"
    using coop_joins [of "go ?ex (CtlCleanJoin 0) s" 0 ?n SL] joined thr by (simp add: frame)
  let ?fx = "(upd_report (\<lambda>r. r\<lparr>rep_remaining := []\<rparr>) ?ex)\<lparr>ex_teardown_attempted := True\<rparr>"
  have "remaining_actors ?ex = []" using joined by (simp add: remaining_empty all_joined_def frame)
  then have "cleanup_collect ?ex = (?fx, True)" using fl by (simp add: cleanup_collect_def frame)
  then have five: "exec_step SL ActCleanJoin (go ?ex (CtlCleanJoin ?n) s) = Some (go ?fx CtlTeardown s)"
    using thr by (simp add: exec_step_def worker_step_def start_step_def advance_step_def cleanup_step_def frame)
  have td: "teardown_result None ?fx = ?fx" using fl by (simp add: teardown_result_def frame)
  have six: "exec_step SL (ActTeardown None) (go ?fx CtlTeardown s) = Some ((go (cleanup_report ?fx) CtlIdle s)\<lparr>sys_teardowns := sys_teardowns s + 1\<rparr>)"
    using fl by (simp add: exec_step_def worker_step_def start_step_def advance_step_def cleanup_step_def Let_def td) (simp add: frame)
  have "passed (ex_report (cleanup_report ?fx))"
    using fl by (simp add: passed_def cleanup_report_def Let_def frame) (simp add: stop_actors_def)
  moreover have "coop_finish now ?n = [ActFinishCall True False, ActCleanup now, ActCleanWait now] @ replicate ?n ActCleanJoin @ [ActCleanJoin, ActTeardown None]"
    by (simp add: coop_finish_def replicate_append_same [symmetric])
  ultimately show ?thesis using one two three four five six by (auto simp: exec_run_append)
qed

lemma coop_run_passed:
  assumes "sys_start SL c g rnd P A sched = Some s" "admit SL c P A sched = Admitted as cps"
    and "adapter_factory A = Some fac" "fac (sched_inputs sched) = Inr p" "program_complete (adapter_actors A) p"
    and "length vs = Suc (length (sched_steps sched))" "list_all (observable SL) vs"
    and "sum_list (map (observed_bytes SL) vs) \<le> 8 * max_artifact_bytes"
  shows "\<exists>t. exec_run SL (coop_run now (adapter_actors A) (sched_steps sched) vs) s = Some t \<and> passed (ex_report (sys_exec t))"
proof -
  have bounds: "policy_bounds_ok P" "adapter_actors A \<noteq> []" and decl: "declarations_admission A sched = Admitted as cps"
    using assms(2) by (auto simp: admit_def split: if_splits sum.splits)
  from decl have adm: "schedule_admissible (adapter_actors A) (adapter_checkpoints A) (sched_steps sched)"
    and eqs: "as = adapter_actors A" "cps = set (adapter_checkpoints A)" by (auto simp: declarations_admission_iff)
  have dist: "distinct (map decl_actor (adapter_actors A))" using adm by (simp add: schedule_admissible_def)
  obtain v vs' where vs: "vs = v # vs'" using assms(6) by (cases vs) auto
  have time: "0 < execution_timeout P" "valid_budget (cleanup_timeout P)" using bounds(1) by (auto simp: policy_bounds_ok_def valid_budget_def)
  from coop_start_run [OF assms(1) assms(2) [unfolded eqs] dist time(1) admissible_steps [OF adm bounds(2)] assms(3-5), of v now]
  obtain t1 where t1: "exec_run SL (coop_start now (length (adapter_actors A)) v) s = Some t1"
      "coop_state SL P A sched now (observed_bytes SL v) 0 t1" using assms(7,8) vs by auto
  from coop_steps_run [OF t1(2) _ adm, of vs'] obtain t2 bytes where
    t2: "exec_run SL (coop_steps now (adapter_actors A) (sched_steps sched) vs') t1 = Some t2"
      "coop_state SL P A sched now bytes (length (sched_steps sched)) t2" using assms(6-8) vs by auto
  from coop_finish_run [OF t2(2) time(2) adm] t1(1) t2(1) show ?thesis by (auto simp: coop_run_def vs exec_run_append)
qed


lemma exec_run_reachable:
  "exec_run SL as s = Some t \<Longrightarrow> exec_reachable SL P A sched s \<Longrightarrow> exec_reachable SL P A sched t"
proof (induction as arbitrary: s)
  case (Cons a as)
  then show ?case by (auto simp: bind_eq_Some_conv intro: exec_reachable.reach_step)
qed simp

section \<open>A run of two actors\<close>

text \<open>The coordinator on a schedule of two actors, with the reference printer and constant observations.\<close>

definition coop_lib :: schedule_lib where
  "coop_lib = ref_schedule_lib (schedule_json sample_schedule)"

definition sample_start :: Sys where
  "sample_start = \<lparr> sys_exec = upd_shared (\<lambda>sh. sh\<lparr>sh_actors := map actor_new (adapter_actors sample_adapter),
       sh_checkpoints := set (adapter_checkpoints sample_adapter)\<rparr>) (new_execution 1 [] sample_policy sample_adapter sample_schedule),
     sys_tpcs = [], sys_ctl = CtlConstruct, sys_teardowns = 0 \<rparr>"

lemma sample_started: "sys_start coop_lib False 1 [] sample_policy sample_adapter sample_schedule = Some sample_start"
  using sample_admitted by (simp add: sys_start_def start_admit_def coop_lib_def sample_start_def new_execution_def)

lemma sample_observations:
  "list_all (observable coop_lib) [JNull, JNull, JNull, JNull]"
  "sum_list (map (observed_bytes coop_lib) [JNull, JNull, JNull, JNull]) \<le> 8 * max_artifact_bytes"
  by (simp_all add: observable_def observed_bytes_def coop_lib_def ref_schedule_lib_def max_observation_bytes_def max_artifact_bytes_def)

lemma sample_program:
  "program_complete (adapter_actors sample_adapter) \<lparr> prog_workers = [(''left'', True), (''right'', True)], prog_observe = True, prog_teardown = True \<rparr>"
  by (simp add: program_complete_def sample_adapter_def)

lemma sample_factory:
  "adapter_factory sample_adapter = Some (\<lambda>_. Inr \<lparr> prog_workers = [(''left'', True), (''right'', True)], prog_observe = True, prog_teardown = True \<rparr>)"
  by (simp add: sample_adapter_def)

lemma sample_steps: "length [JNull, JNull, JNull, JNull] = Suc (length (sched_steps sample_schedule))"
  by (simp add: sample_schedule_def)


lemma sample_passed:
  obtains t where "exec_run coop_lib (coop_run 0 (adapter_actors sample_adapter) (sched_steps sample_schedule) [JNull, JNull, JNull, JNull]) sample_start = Some t"
    "passed (ex_report (sys_exec t))" "exec_reachable coop_lib sample_policy sample_adapter sample_schedule t"
proof -
  from coop_run_passed [OF sample_started sample_admitted [folded coop_lib_def] sample_factory refl sample_program sample_steps sample_observations, of 0]
  obtain t where t: "exec_run coop_lib (coop_run 0 (adapter_actors sample_adapter) (sched_steps sample_schedule) [JNull, JNull, JNull, JNull]) sample_start = Some t"
    "passed (ex_report (sys_exec t))" by blast
  from that [OF t exec_run_reachable [OF t(1) exec_reachable.reach_start [OF sample_started]]] show thesis .
qed

text \<open>A run that changes a quantity has a step that does.\<close>

lemma exec_run_changes:
  assumes "exec_run SL as s = Some t" "exec_reachable SL P A sched s" "f t \<noteq> f s"
  shows "\<exists>u a w. exec_reachable SL P A sched u \<and> exec_step SL a u = Some w \<and> f w \<noteq> f u"
  using assms
proof (induction as arbitrary: s)
  case (Cons a as)
  then obtain w where w: "exec_step SL a s = Some w" "exec_run SL as w = Some t" by (auto simp: bind_eq_Some_conv)
  show ?case
  proof (cases "f w = f s")
    case True
    then show ?thesis using Cons.IH [OF w(2) exec_reachable.reach_step [OF Cons.prems(2) w(1)]] Cons.prems(3) by simp
  next
    case False
    then show ?thesis using Cons.prems(2) w(1) by blast
  qed
qed simp

lemma passed_shape:
  assumes "exec_reachable SL P A sched t" "passed (ex_report (sys_exec t))"
  shows "length (sys_tpcs t) = length (adapter_actors A)" "length (ex_actors (sys_exec t)) = length (adapter_actors A)"
    "length (observations t) = Suc (length (sched_steps sched))" "sys_teardowns t = 1"
proof -
  have ok: "sys_ok A sched t" "threads_ok t" using reachable_sys_ok [OF assms(1)] reachable_ok [OF assms(1)] by auto
  have nf: "\<not> ex_failed (sys_exec t)" "completed t" "rep_cleanup (ex_report (sys_exec t)) = CleanConfirmed"
    using ok(1) assms(2) by (auto simp: sys_ok_def const_ok_def passed_def)
  then have c: "decls t = adapter_actors A" "ex_initialized (sys_exec t)" "length (observations t) = Suc (length (sched_steps sched))"
    using ok(1) by (auto simp: sys_ok_def const_ok_def obs_ok_def observations_ok_def)
  then show "length (ex_actors (sys_exec t)) = length (adapter_actors A)" by (metis length_map)
  then show "length (sys_tpcs t) = length (adapter_actors A)" using ok(2) c(2) by (simp add: threads_ok_def)
  show "length (observations t) = Suc (length (sched_steps sched))" by (rule c(3))
  show "sys_teardowns t = 1" using ok(1) nf(3) by (auto simp: sys_ok_def tear_ok_def tear_cond_def Let_def)
qed

lemma sample_actors: "length (adapter_actors sample_adapter) = 2"
  by (simp add: sample_adapter_def)

theorem one_actor_runs_witness:
  "\<exists>t. exec_reachable coop_lib sample_policy sample_adapter sample_schedule t \<and> 1 < length (sys_tpcs t)
    \<and> \<not> (phase t 0 = PhRunning \<and> phase t 1 = PhRunning) \<and> (\<not> stopping t \<longrightarrow> \<not> (tpc_of t 0 = TBody \<and> tpc_of t 1 = TBody))"
proof (rule sample_passed)
  fix t assume t: "passed (ex_report (sys_exec t))" "exec_reachable coop_lib sample_policy sample_adapter sample_schedule t"
  have len: "1 < length (sys_tpcs t)" using passed_shape(1) [OF t(2,1)] sample_actors by simp
  then have "0 < length (sys_tpcs t)" by linarith
  from one_actor_runs [OF t(2) this len] t(2) len show ?thesis by auto
qed

theorem observer_quiescent_witness:
  "\<exists>s a t. exec_reachable coop_lib sample_policy sample_adapter sample_schedule s \<and> exec_step coop_lib a s = Some t
    \<and> observations t \<noteq> observations s \<and> (0 < length (ex_actors (sys_exec s)) \<longrightarrow> phase s 0 = PhParked \<or> phase s 0 = PhFinished)"
proof (rule sample_passed)
  fix t assume t: "exec_run coop_lib (coop_run 0 (adapter_actors sample_adapter) (sched_steps sample_schedule) [JNull, JNull, JNull, JNull]) sample_start = Some t"
    "passed (ex_report (sys_exec t))" "exec_reachable coop_lib sample_policy sample_adapter sample_schedule t"
  have "observations t \<noteq> observations sample_start"
    using passed_shape(3) [OF t(3,2)] by (auto simp: sample_start_def new_execution_def new_shared_def)
  from exec_run_changes [OF t(1) exec_reachable.reach_start [OF sample_started], where f = observations, OF this]
  obtain u a w where w: "exec_reachable coop_lib sample_policy sample_adapter sample_schedule u" "exec_step coop_lib a u = Some w" "observations w \<noteq> observations u"
    by blast
  then show ?thesis using observer_quiescent [OF w, of 0] by blast
qed

theorem teardown_once_witness:
  "\<exists>s a t. exec_reachable coop_lib sample_policy sample_adapter sample_schedule s \<and> exec_step coop_lib a s = Some t
    \<and> sys_teardowns t \<noteq> sys_teardowns s \<and> sys_teardowns t \<le> 1 \<and> (\<forall>i < length (ex_threads (sys_exec s)). tpc_of s i = TExited)"
proof (rule sample_passed)
  fix t assume t: "exec_run coop_lib (coop_run 0 (adapter_actors sample_adapter) (sched_steps sample_schedule) [JNull, JNull, JNull, JNull]) sample_start = Some t"
    "passed (ex_report (sys_exec t))" "exec_reachable coop_lib sample_policy sample_adapter sample_schedule t"
  have "sys_teardowns t \<noteq> sys_teardowns sample_start" using passed_shape(4) [OF t(3,2)] by (simp add: sample_start_def)
  from exec_run_changes [OF t(1) exec_reachable.reach_start [OF sample_started], where f = sys_teardowns, OF this]
  obtain u a w where w: "exec_reachable coop_lib sample_policy sample_adapter sample_schedule u" "exec_step coop_lib a u = Some w"
    "sys_teardowns w \<noteq> sys_teardowns u" by blast
  then show ?thesis using teardown_once [OF w(1,2)] by blast
qed

theorem passed_report_witness:
  "\<exists>t. exec_reachable coop_lib sample_policy sample_adapter sample_schedule t \<and> passed (ex_report (sys_exec t))
    \<and> events t = schedule_events (adapter_actors sample_adapter) (sched_steps sample_schedule) 3 \<and> length (observations t) = 4 \<and> sys_teardowns t = 1"
proof (rule sample_passed)
  fix t assume t: "passed (ex_report (sys_exec t))" "exec_reachable coop_lib sample_policy sample_adapter sample_schedule t"
  have "length (sched_steps sample_schedule) = 3" by (simp add: sample_schedule_def)
  then show ?thesis using passed_report [OF t(2,1)] t by (auto simp: observations_ok_def numeral_Bit0)
qed

text \<open>A refused execution, and what a later stop request leaves of it.\<close>

definition refused_sys :: Sys where
  "refused_sys = \<lparr> sys_exec = ex_fail OutInvalidSchedule ''scheduler callbacks cannot reenter scheduling''
       (new_execution 1 [] sample_policy sample_adapter sample_schedule), sys_tpcs = [], sys_ctl = CtlIdle, sys_teardowns = 0 \<rparr>"

theorem primary_failure_kept_witness:
  "\<exists>t. exec_run coop_lib [ActCancel, ActFinishCall True False, ActCleanupCall True False 1000 0] refused_sys = Some t
    \<and> ex_failed (sys_exec t) \<and> rep_outcome (ex_report (sys_exec t)) = OutInvalidSchedule"
proof -
  have failed: "ex_failed (sys_exec refused_sys)" "rep_outcome (ex_report (sys_exec refused_sys)) = OutInvalidSchedule"
    by (simp_all add: refused_sys_def new_execution_def new_shared_def shared_fail_def)
  obtain t where t: "exec_run coop_lib [ActCancel, ActFinishCall True False, ActCleanupCall True False 1000 0] refused_sys = Some t"
    by (simp add: exec_step_def worker_step_def start_step_def advance_step_def cleanup_step_def enter_cleanup_def cleanup_begin_def finish_begin_def
        refused_sys_def new_execution_def valid_budget_def)
  show ?thesis using primary_failure_kept [OF failed(1) t] t failed(2) by simp
qed

end
