(* ===== verification/Schedule_Enumeration.thy ===== *)
theory Schedule_Enumeration
  imports Schedule_Admission
begin

text \<open>
  The enumerator of \<^verbatim>\<open>src/schedule_exploration.cpp\<close>: a depth-first search over the positions of the
  actors' checkpoint chains that records every merge of the chains with at most \<^verbatim>\<open>max_preemptions\<close>
  preemptions, until the stop token, the deadline or the cap on recorded schedules ends it.

  \<open>visit\<close> is the recursive lambda with its mutable captures as \<open>visit_state\<close>; its fuel is the recursion
  depth, and one more than the number of steps is enough. The polls of the stop token and the clock are the
  parameter \<open>poll\<close>, indexed by the number of the visit: \<open>Some reason\<close> when the visit is stopped. \<open>merges\<close> is
  the functional reference, and \<open>merge_of\<close> with \<open>preemptions\<close> says what it enumerates.
\<close>

section \<open>The search\<close>

record ActorChain =
  chain_actor :: ActorDeclaration
  chain_checkpoints :: "string list"

record Enumeration =
  enum_schedules :: "Step list list"
  enum_exhausted :: bool
  enum_stop_reason :: string

record visit_state =
  vs_positions :: "nat list"
  vs_current :: "Step list"
  vs_result :: Enumeration
  vs_visits :: nat

abbreviation chain_length :: "ActorChain list \<Rightarrow> nat \<Rightarrow> nat" where
  "chain_length actors i \<equiv> length (chain_checkpoints (actors ! i))"

definition chain_step :: "ActorChain list \<Rightarrow> nat \<Rightarrow> nat \<Rightarrow> Step" where
  "chain_step actors i offset =
     \<lparr> step_actor = decl_actor (chain_actor (actors ! i)), step_checkpoint = chain_checkpoints (actors ! i) ! offset \<rparr>"

definition total_steps :: "ActorChain list \<Rightarrow> nat" where
  "total_steps actors = sum_list (map (\<lambda>a. length (chain_checkpoints a)) actors)"

definition is_preemption :: "ActorChain list \<Rightarrow> nat list \<Rightarrow> nat option \<Rightarrow> nat \<Rightarrow> bool" where
  "is_preemption actors positions prior index =
     (case prior of None \<Rightarrow> False | Some p \<Rightarrow> p \<noteq> index \<and> positions ! p < chain_length actors p)"

definition enum_halt :: "string \<Rightarrow> visit_state \<Rightarrow> visit_state" where
  "enum_halt reason st = st\<lparr>vs_result := (vs_result st)\<lparr>enum_exhausted := False, enum_stop_reason := reason\<rparr>\<rparr>"

text \<open>A complete schedule is recorded unless the cap is reached.\<close>

definition enum_record :: "nat \<Rightarrow> visit_state \<Rightarrow> visit_state" where
  "enum_record cap st =
     (if length (enum_schedules (vs_result st)) = cap then enum_halt ''enumeration_limit'' st
      else st\<lparr>vs_result := (vs_result st)\<lparr>enum_schedules := enum_schedules (vs_result st) @ [vs_current st]\<rparr>\<rparr>)"

definition enum_push :: "ActorChain list \<Rightarrow> nat \<Rightarrow> visit_state \<Rightarrow> visit_state" where
  "enum_push actors i st =
     st\<lparr>vs_positions := (vs_positions st)[i := vs_positions st ! i + 1],
        vs_current := vs_current st @ [chain_step actors i (vs_positions st ! i)]\<rparr>"

definition enum_pop :: "nat \<Rightarrow> visit_state \<Rightarrow> visit_state" where
  "enum_pop i st =
     st\<lparr>vs_current := butlast (vs_current st), vs_positions := (vs_positions st)[i := vs_positions st ! i - 1]\<rparr>"

record enum_env =
  env_actors :: "ActorChain list"
  env_max_preemptions :: nat
  env_cap :: nat
  env_poll :: "nat \<Rightarrow> string option"

fun visit :: "enum_env \<Rightarrow> nat \<Rightarrow> nat option \<Rightarrow> nat \<Rightarrow> visit_state \<Rightarrow> visit_state"
  and visit_loop :: "enum_env \<Rightarrow> nat \<Rightarrow> nat option \<Rightarrow> nat \<Rightarrow> nat list \<Rightarrow> visit_state \<Rightarrow> visit_state" where
  "visit E 0 prior preempted st = st"
| "visit E (Suc fuel) prior preempted st =
     (if \<not> enum_exhausted (vs_result st) then st
      else
        let polled = st\<lparr>vs_visits := vs_visits st + 1\<rparr> in
        case env_poll E (vs_visits st) of
          Some reason \<Rightarrow> enum_halt reason polled
        | None \<Rightarrow>
            (if length (vs_current st) = total_steps (env_actors E) then enum_record (env_cap E) polled
             else visit_loop E fuel prior preempted [0..<length (env_actors E)] polled))"
| "visit_loop E fuel prior preempted [] st = st"
| "visit_loop E fuel prior preempted (i # is) st =
     (if vs_positions st ! i = chain_length (env_actors E) i then visit_loop E fuel prior preempted is st
      else
        let preempted' = preempted + of_bool (is_preemption (env_actors E) (vs_positions st) prior i) in
        (if preempted' > env_max_preemptions E then visit_loop E fuel prior preempted is st
         else
           let st' = enum_pop i (visit E fuel (Some i) preempted' (enum_push (env_actors E) i st)) in
           (if \<not> enum_exhausted (vs_result st') then st' else visit_loop E fuel prior preempted is st')))"

definition enum_start :: "ActorChain list \<Rightarrow> visit_state" where
  "enum_start actors =
     \<lparr> vs_positions = replicate (length actors) 0, vs_current = [],
       vs_result = \<lparr> enum_schedules = [], enum_exhausted = True, enum_stop_reason = [] \<rparr>, vs_visits = 0 \<rparr>"

definition enumerate_schedules :: "enum_env \<Rightarrow> Enumeration" where
  "enumerate_schedules E =
     vs_result (visit E (total_steps (env_actors E) + 1) None 0 (enum_start (env_actors E)))"

section \<open>The reference enumeration\<close>

text \<open>\<open>merges\<close> lists the ways to finish \<open>n\<close> remaining steps from the given positions, by value.\<close>

fun merges :: "ActorChain list \<Rightarrow> nat \<Rightarrow> nat \<Rightarrow> nat option \<Rightarrow> nat \<Rightarrow> nat list \<Rightarrow> Step list list" where
  "merges actors bound 0 prior preempted pos = [[]]"
| "merges actors bound (Suc n) prior preempted pos =
     concat (map (\<lambda>i.
       let preempted' = preempted + of_bool (is_preemption actors pos prior i) in
       if pos ! i = chain_length actors i \<or> preempted' > bound then []
       else map ((#) (chain_step actors i (pos ! i))) (merges actors bound n (Some i) preempted' (pos[i := pos ! i + 1])))
       [0..<length actors])"

definition all_merges :: "ActorChain list \<Rightarrow> nat \<Rightarrow> Step list list" where
  "all_merges actors bound = merges actors bound (total_steps actors) None 0 (replicate (length actors) 0)"

section \<open>The search implements the reference\<close>

definition chains_left :: "ActorChain list \<Rightarrow> nat list \<Rightarrow> nat" where
  "chains_left actors pos = (\<Sum>i<length actors. chain_length actors i - pos ! i)"

definition chain_positions_ok :: "ActorChain list \<Rightarrow> nat list \<Rightarrow> bool" where
  "chain_positions_ok actors pos =
     (length pos = length actors \<and> (\<forall>i<length actors. pos ! i \<le> chain_length actors i))"

text \<open>\<open>emits E L st st'\<close>: the search appended the schedules of \<open>L\<close>, or a proper prefix of them when it
  stopped, and gave back the positions and the current prefix as they were.\<close>

definition stopped_by :: "enum_env \<Rightarrow> bool \<Rightarrow> visit_state \<Rightarrow> bool" where
  "stopped_by E pending st =
     (enum_stop_reason (vs_result st) = ''enumeration_limit''
        \<and> length (enum_schedules (vs_result st)) = env_cap E \<and> pending
      \<or> (\<exists>m. env_poll E m = Some (enum_stop_reason (vs_result st))))"

definition emits :: "enum_env \<Rightarrow> Step list list \<Rightarrow> visit_state \<Rightarrow> visit_state \<Rightarrow> bool" where
  "emits E L st st' =
     (vs_positions st' = vs_positions st \<and> vs_current st' = vs_current st
      \<and> (length (enum_schedules (vs_result st)) \<le> env_cap E
           \<longrightarrow> length (enum_schedules (vs_result st')) \<le> env_cap E)
      \<and> (\<exists>k \<le> length L.
           enum_schedules (vs_result st') = enum_schedules (vs_result st) @ map ((@) (vs_current st)) (take k L)
           \<and> (if enum_exhausted (vs_result st')
              then k = length L \<and> enum_stop_reason (vs_result st') = enum_stop_reason (vs_result st)
              else stopped_by E (k < length L) st')))"

lemma emits_Nil: "enum_exhausted (vs_result st) \<Longrightarrow> emits E [] st st"
  by (simp add: emits_def)

lemma emits_visits [simp]: "emits E L (st\<lparr>vs_visits := v\<rparr>) st' = emits E L st st'"
  by (cases st) (simp add: emits_def)

lemma emits_halt: "env_poll E m = Some r \<Longrightarrow> emits E L st (enum_halt r (st\<lparr>vs_visits := v\<rparr>))"
  unfolding emits_def stopped_by_def enum_halt_def by (intro conjI exI [of _ 0]) auto

lemma emits_append:
  assumes "emits E L st st'" "enum_exhausted (vs_result st')" "emits E M st' st''"
  shows "emits E (L @ M) st st''"
proof -
  from assms(1,2) have L: "vs_positions st' = vs_positions st" "vs_current st' = vs_current st"
    "length (enum_schedules (vs_result st)) \<le> env_cap E \<longrightarrow> length (enum_schedules (vs_result st')) \<le> env_cap E"
    "enum_schedules (vs_result st') = enum_schedules (vs_result st) @ map ((@) (vs_current st)) L"
    "enum_stop_reason (vs_result st') = enum_stop_reason (vs_result st)"
    by (auto simp: emits_def)
  from assms(3) obtain k where k: "k \<le> length M"
    "enum_schedules (vs_result st'') = enum_schedules (vs_result st') @ map ((@) (vs_current st')) (take k M)"
    "if enum_exhausted (vs_result st'')
     then k = length M \<and> enum_stop_reason (vs_result st'') = enum_stop_reason (vs_result st')
     else stopped_by E (k < length M) st''"
    by (auto simp: emits_def)
  have "\<exists>k \<le> length (L @ M).
      enum_schedules (vs_result st'') = enum_schedules (vs_result st) @ map ((@) (vs_current st)) (take k (L @ M))
      \<and> (if enum_exhausted (vs_result st'')
         then k = length (L @ M) \<and> enum_stop_reason (vs_result st'') = enum_stop_reason (vs_result st)
         else stopped_by E (k < length (L @ M)) st'')"
    by (rule exI [of _ "length L + k"]) (use k L in \<open>simp split: if_splits\<close>)
  then show ?thesis using assms(3) L(1-3) by (simp add: emits_def)
qed

lemma emits_stopped:
  assumes "emits E L st st'" "\<not> enum_exhausted (vs_result st')"
  shows "emits E (L @ M) st st'"
proof -
  from assms obtain k where k: "k \<le> length L" "stopped_by E (k < length L) st'"
    "enum_schedules (vs_result st') = enum_schedules (vs_result st) @ map ((@) (vs_current st)) (take k L)"
    by (auto simp: emits_def)
  have "stopped_by E (k < length (L @ M)) st'" using k(2) by (auto simp: stopped_by_def)
  then have "\<exists>k \<le> length (L @ M).
      enum_schedules (vs_result st') = enum_schedules (vs_result st) @ map ((@) (vs_current st)) (take k (L @ M))
      \<and> stopped_by E (k < length (L @ M)) st'"
    using k(1,3) by (intro exI [of _ k]) simp
  then show ?thesis using assms by (simp add: emits_def)
qed

lemma emits_push_pop:
  assumes "emits E L (enum_push actors i st) st'" "i < length (vs_positions st)"
  shows "emits E (map ((#) (chain_step actors i (vs_positions st ! i))) L) st (enum_pop i st')"
proof -
  have *: "(@) (vs_current st @ [x]) = (@) (vs_current st) \<circ> (#) x" for x
    by (simp add: fun_eq_iff)
  show ?thesis using assms
    by (auto simp: emits_def enum_push_def enum_pop_def stopped_by_def take_map *)
qed

lemma chains_left_step:
  assumes "chain_positions_ok actors pos" "i < length actors" "pos ! i \<noteq> chain_length actors i"
  shows "chain_positions_ok actors (pos[i := pos ! i + 1])"
    and "chains_left actors pos = Suc (chains_left actors (pos[i := pos ! i + 1]))"
proof -
  have lt: "pos ! i < chain_length actors i" and len: "length pos = length actors"
    using assms by (auto simp: chain_positions_ok_def le_less)
  then show "chain_positions_ok actors (pos[i := pos ! i + 1])"
    using assms by (auto simp: chain_positions_ok_def nth_list_update)
  let ?f = "\<lambda>pos j. chain_length actors j - pos ! j"
  have split: "chains_left actors p = ?f p i + (\<Sum>j \<in> {..<length actors} - {i}. ?f p j)" for p
    unfolding chains_left_def using assms(2) by (subst sum.remove [of _ i]) auto
  have "(\<Sum>j \<in> {..<length actors} - {i}. ?f pos j) = (\<Sum>j \<in> {..<length actors} - {i}. ?f (pos[i := pos ! i + 1]) j)"
    by (rule sum.cong) auto
  moreover have "?f pos i = Suc (?f (pos[i := pos ! i + 1]) i)"
    using lt len assms(2) by simp
  ultimately show "chains_left actors pos = Suc (chains_left actors (pos[i := pos ! i + 1]))"
    using split [of pos] split [of "pos[i := pos ! i + 1]"] by simp
qed

lemma chains_left_0: "chain_positions_ok actors pos \<Longrightarrow> chains_left actors pos = 0 \<longleftrightarrow> (\<forall>i<length actors. pos ! i = chain_length actors i)"
  by (auto simp: chains_left_def chain_positions_ok_def intro: le_antisym)

text \<open>The options of one node, for a list of actor indices still to be tried.\<close>

definition options_from :: "ActorChain list \<Rightarrow> nat \<Rightarrow> nat \<Rightarrow> nat option \<Rightarrow> nat \<Rightarrow> nat list \<Rightarrow> nat list \<Rightarrow> Step list list" where
  "options_from actors bound n prior preempted pos is =
     concat (map (\<lambda>i.
       let preempted' = preempted + of_bool (is_preemption actors pos prior i) in
       if pos ! i = chain_length actors i \<or> preempted' > bound then []
       else map ((#) (chain_step actors i (pos ! i))) (merges actors bound n (Some i) preempted' (pos[i := pos ! i + 1]))) is)"

lemma options_from_Nil [simp]: "options_from actors bound n prior preempted pos [] = []"
  by (simp add: options_from_def)

lemma merges_Suc: "merges actors bound (Suc n) prior preempted pos
    = options_from actors bound n prior preempted pos [0..<length actors]"
  by (simp add: options_from_def)

lemma visit_loop_emits:
  assumes sub: "\<And>prior preempted st. \<lbrakk>enum_exhausted (vs_result st); chain_positions_ok (env_actors E) (vs_positions st);
        chains_left (env_actors E) (vs_positions st) = n; length (vs_current st) + n = total_steps (env_actors E)\<rbrakk>
      \<Longrightarrow> emits E (merges (env_actors E) (env_max_preemptions E) n prior preempted (vs_positions st)) st
            (visit E fuel prior preempted st)"
    and "set is \<subseteq> {..<length (env_actors E)}"
    and "enum_exhausted (vs_result st)" "chain_positions_ok (env_actors E) (vs_positions st)"
      "chains_left (env_actors E) (vs_positions st) = Suc n" "length (vs_current st) + Suc n = total_steps (env_actors E)"
  shows "emits E (options_from (env_actors E) (env_max_preemptions E) n prior preempted (vs_positions st) is) st
    (visit_loop E fuel prior preempted is st)"
  using assms(2-)
proof (induction "is" arbitrary: st)
  case Nil
  then show ?case by (simp add: emits_Nil)
next
  case (Cons i "is")
  let ?A = "env_actors E" and ?pos = "vs_positions st"
  let ?p = "preempted + of_bool (is_preemption ?A ?pos prior i)"
  show ?case
  proof (cases "?pos ! i = chain_length ?A i \<or> ?p > env_max_preemptions E")
    case True
    then show ?thesis using Cons.IH [of st] Cons.prems by (auto simp: options_from_def Let_def)
  next
    case False
    let ?in = "enum_push ?A i st" and ?st = "enum_pop i (visit E fuel (Some i) ?p (enum_push ?A i st))"
    have i: "i < length ?A" using Cons.prems(1) by simp
    have len: "i < length ?pos" using i Cons.prems(3) by (simp add: chain_positions_ok_def)
    note left = chains_left_step [OF Cons.prems(3) i]
    have "emits E (merges ?A (env_max_preemptions E) n (Some i) ?p (vs_positions ?in)) ?in (visit E fuel (Some i) ?p ?in)"
      by (rule sub) (use False left Cons.prems in \<open>simp_all add: enum_push_def\<close>)
    then have here: "emits E (map ((#) (chain_step ?A i (?pos ! i)))
        (merges ?A (env_max_preemptions E) n (Some i) ?p (?pos[i := ?pos ! i + 1]))) st ?st"
      using emits_push_pop [OF _ len] by (simp add: enum_push_def)
    have split: "options_from ?A (env_max_preemptions E) n prior preempted ?pos (i # is)
        = map ((#) (chain_step ?A i (?pos ! i))) (merges ?A (env_max_preemptions E) n (Some i) ?p (?pos[i := ?pos ! i + 1]))
          @ options_from ?A (env_max_preemptions E) n prior preempted ?pos is"
      using False by (simp add: options_from_def Let_def)
    show ?thesis
    proof (cases "enum_exhausted (vs_result ?st)")
      case True
      have same: "vs_positions ?st = ?pos" "vs_current ?st = vs_current st" using here by (simp_all add: emits_def)
      have "emits E (options_from ?A (env_max_preemptions E) n prior preempted (vs_positions ?st) is) ?st
          (visit_loop E fuel prior preempted is ?st)"
        by (rule Cons.IH) (use True same Cons.prems in simp_all)
      then show ?thesis using emits_append [OF here True] same False True split by (simp add: Let_def)
    next
      case stop: False
      then show ?thesis using emits_stopped [OF here stop] False split by (simp add: Let_def)
    qed
  qed
qed

lemma visit_emits:
  assumes "n < fuel" "enum_exhausted (vs_result st)" "chain_positions_ok (env_actors E) (vs_positions st)"
    "chains_left (env_actors E) (vs_positions st) = n" "length (vs_current st) + n = total_steps (env_actors E)"
  shows "emits E (merges (env_actors E) (env_max_preemptions E) n prior preempted (vs_positions st)) st
    (visit E fuel prior preempted st)"
  using assms
proof (induction n arbitrary: fuel prior preempted st)
  case 0
  then obtain f where f: "fuel = Suc f" by (cases fuel) auto
  show ?case
  proof (cases "env_poll E (vs_visits st)")
    case None
    show ?thesis using 0 None f
      by (auto simp: Let_def emits_def enum_record_def enum_halt_def stopped_by_def intro: exI [of _ "Suc 0"])
  next
    case (Some reason)
    then show ?thesis using 0 f by (simp add: Let_def emits_halt)
  qed
next
  case (Suc n)
  then obtain f where f: "fuel = Suc f" by (cases fuel) auto
  let ?polled = "st\<lparr>vs_visits := vs_visits st + 1\<rparr>"
  show ?case
  proof (cases "env_poll E (vs_visits st)")
    case None
    have "emits E (options_from (env_actors E) (env_max_preemptions E) n prior preempted (vs_positions ?polled)
        [0..<length (env_actors E)]) ?polled (visit_loop E f prior preempted [0..<length (env_actors E)] ?polled)"
      by (rule visit_loop_emits) (use Suc f in auto)
    then show ?thesis using None Suc.prems f by (simp add: Let_def merges_Suc del: merges.simps)
  next
    case (Some reason)
    then show ?thesis using Suc.prems f by (simp add: Let_def emits_halt)
  qed
qed

lemma enum_start_ok:
  "chain_positions_ok actors (vs_positions (enum_start actors))"
  "chains_left actors (vs_positions (enum_start actors)) = total_steps actors"
  by (simp_all add: enum_start_def chain_positions_ok_def chains_left_def total_steps_def sum_list_sum_nth atLeast0LessThan)

lemma enumerate_emits:
  obtains k where "k \<le> length (all_merges (env_actors E) (env_max_preemptions E))"
    and "enum_schedules (enumerate_schedules E) = take k (all_merges (env_actors E) (env_max_preemptions E))"
    and "k \<le> env_cap E"
    and "if enum_exhausted (enumerate_schedules E)
      then k = length (all_merges (env_actors E) (env_max_preemptions E)) \<and> enum_stop_reason (enumerate_schedules E) = []
      else enum_stop_reason (enumerate_schedules E) = ''enumeration_limit'' \<and> k = env_cap E
             \<and> k < length (all_merges (env_actors E) (env_max_preemptions E))
        \<or> (\<exists>m. env_poll E m = Some (enum_stop_reason (enumerate_schedules E)))"
proof -
  let ?st = "enum_start (env_actors E)"
  have "emits E (merges (env_actors E) (env_max_preemptions E) (total_steps (env_actors E)) None 0 (vs_positions ?st)) ?st
      (visit E (total_steps (env_actors E) + 1) None 0 ?st)"
    by (rule visit_emits) (simp_all add: enum_start_ok, simp_all add: enum_start_def)
  moreover define st' where "st' = visit E (total_steps (env_actors E) + 1) None 0 ?st"
  ultimately have "emits E (all_merges (env_actors E) (env_max_preemptions E)) ?st st'"
    by (simp add: all_merges_def enum_start_def)
  moreover have "enumerate_schedules E = vs_result st'" by (simp add: enumerate_schedules_def st'_def)
  moreover have "((@) []) = (\<lambda>s :: Step list. s)" by (simp add: fun_eq_iff)
  ultimately obtain k where "k \<le> length (all_merges (env_actors E) (env_max_preemptions E))"
    "enum_schedules (enumerate_schedules E) = take k (all_merges (env_actors E) (env_max_preemptions E))"
    "length (enum_schedules (enumerate_schedules E)) \<le> env_cap E"
    "if enum_exhausted (enumerate_schedules E)
     then k = length (all_merges (env_actors E) (env_max_preemptions E)) \<and> enum_stop_reason (enumerate_schedules E) = []
     else stopped_by E (k < length (all_merges (env_actors E) (env_max_preemptions E))) st'"
    by (auto simp: emits_def enum_start_def)
  then show ?thesis using \<open>enumerate_schedules E = vs_result st'\<close>
    by (intro that [of k]) (auto simp: stopped_by_def split: if_splits)
qed

section \<open>What the reference enumerates\<close>

abbreviation chain_name :: "ActorChain \<Rightarrow> string" where
  "chain_name a \<equiv> decl_actor (chain_actor a)"

text \<open>A merge runs through every chain in its order and has no step of anybody else.\<close>

definition merge_of :: "ActorChain list \<Rightarrow> Step list \<Rightarrow> bool" where
  "merge_of actors steps =
     (list_all (\<lambda>a. actor_plan (chain_name a) steps = chain_checkpoints a) actors
      \<and> list_all (\<lambda>s. step_actor s \<in> chain_name ` set actors) steps)"

text \<open>A preemption: the next step is another actor's while this one still has steps to come.\<close>

fun preemptions :: "Step list \<Rightarrow> nat" where
  "preemptions (s # t # ss) =
     (if step_actor s \<noteq> step_actor t \<and> step_actor s \<in> step_actor ` set (t # ss) then 1 else 0) + preemptions (t # ss)"
| "preemptions _ = 0"

definition preemptions_after :: "ActorChain list \<Rightarrow> nat option \<Rightarrow> Step list \<Rightarrow> nat" where
  "preemptions_after actors prior steps =
     (case prior of None \<Rightarrow> preemptions steps
      | Some p \<Rightarrow> preemptions (\<lparr> step_actor = chain_name (actors ! p), step_checkpoint = [] \<rparr> # steps))"

definition finishes :: "ActorChain list \<Rightarrow> nat list \<Rightarrow> Step list \<Rightarrow> bool" where
  "finishes actors pos steps =
     ((\<forall>i<length actors. actor_plan (chain_name (actors ! i)) steps = drop (pos ! i) (chain_checkpoints (actors ! i)))
      \<and> step_actor ` set steps \<subseteq> chain_name ` set actors)"

lemma preemptions_head: "step_actor s = step_actor t \<Longrightarrow> preemptions (s # ss) = preemptions (t # ss)"
  by (cases ss) simp_all

lemma actor_plan_empty: "actor_plan a steps = [] \<longleftrightarrow> a \<notin> step_actor ` set steps"
  by (auto simp: actor_plan_def filter_empty_conv)

lemma name_eq_iff:
  "distinct (map chain_name actors) \<Longrightarrow> i < length actors \<Longrightarrow> j < length actors
    \<Longrightarrow> chain_name (actors ! i) = chain_name (actors ! j) \<longleftrightarrow> i = j"
  by (simp add: distinct_conv_nth) blast

lemma preemptions_after_Cons:
  assumes "distinct (map chain_name actors)" "finishes actors pos (chain_step actors i k # steps)"
    "i < length actors" "case prior of None \<Rightarrow> True | Some p \<Rightarrow> p < length actors"
  shows "preemptions_after actors prior (chain_step actors i k # steps)
    = of_bool (is_preemption actors pos prior i) + preemptions_after actors (Some i) steps"
proof (cases prior)
  case None
  then show ?thesis by (auto simp: preemptions_after_def is_preemption_def chain_step_def intro: preemptions_head)
next
  case (Some p)
  let ?s = "chain_step actors i k"
  have p: "p < length actors" using assms(4) Some by simp
  have "actor_plan (chain_name (actors ! p)) (?s # steps) = drop (pos ! p) (chain_checkpoints (actors ! p))"
    using assms(2) p by (simp add: finishes_def)
  then have "pos ! p < chain_length actors p \<longleftrightarrow> chain_name (actors ! p) \<in> step_actor ` set (?s # steps)"
    using actor_plan_empty [of "chain_name (actors ! p)" "?s # steps"] by (metis drop_eq_Nil not_less)
  moreover have "step_actor ?s = chain_name (actors ! i)" by (simp add: chain_step_def)
  ultimately show ?thesis using Some name_eq_iff [OF assms(1) p assms(3)]
    by (simp add: preemptions_after_def is_preemption_def preemptions_head [of ?s "\<lparr>step_actor = chain_name (actors ! i), step_checkpoint = []\<rparr>"])
qed

lemma finishes_Cons:
  assumes "distinct (map chain_name actors)" "chain_positions_ok actors pos"
  shows "finishes actors pos (s # steps) \<longleftrightarrow>
    (\<exists>i<length actors. pos ! i \<noteq> chain_length actors i \<and> s = chain_step actors i (pos ! i)
      \<and> finishes actors (pos[i := pos ! i + 1]) steps)" (is "?L = ?R")
proof
  assume L: ?L
  then obtain i where i: "i < length actors" "step_actor s = chain_name (actors ! i)"
    by (auto simp: finishes_def in_set_conv_nth)
  then have plan: "step_checkpoint s # actor_plan (chain_name (actors ! i)) steps = drop (pos ! i) (chain_checkpoints (actors ! i))"
    using L by (simp add: finishes_def actor_plan_Cons split: if_splits)
  then have lt: "pos ! i < chain_length actors i" by (metis drop_eq_Nil list.distinct(1) not_less)
  with plan have cp: "step_checkpoint s = chain_checkpoints (actors ! i) ! (pos ! i)"
      "actor_plan (chain_name (actors ! i)) steps = drop (Suc (pos ! i)) (chain_checkpoints (actors ! i))"
    by (simp_all flip: Cons_nth_drop_Suc)
  have "finishes actors (pos[i := pos ! i + 1]) steps"
    using L i cp name_eq_iff [OF assms(1)] assms(2)
    by (auto simp: finishes_def actor_plan_Cons nth_list_update chain_positions_ok_def)
  then show ?R using i lt cp by (intro exI [of _ i]) (simp add: chain_step_def)
next
  assume ?R
  then obtain i where i: "i < length actors" "pos ! i \<noteq> chain_length actors i" "s = chain_step actors i (pos ! i)"
    and rest: "finishes actors (pos[i := pos ! i + 1]) steps" by blast
  have lt: "pos ! i < chain_length actors i" using i assms(2) by (auto simp: chain_positions_ok_def le_less)
  show ?L unfolding finishes_def
  proof (intro conjI allI impI)
    fix j assume j: "j < length actors"
    then show "actor_plan (chain_name (actors ! j)) (s # steps) = drop (pos ! j) (chain_checkpoints (actors ! j))"
      using rest i lt name_eq_iff [OF assms(1) i(1) j] assms(2)
      by (auto simp: finishes_def actor_plan_Cons chain_step_def chain_positions_ok_def nth_list_update Cons_nth_drop_Suc)
  next
    show "step_actor ` set (s # steps) \<subseteq> chain_name ` set actors"
      using rest i by (auto simp: finishes_def chain_step_def)
  qed
qed

lemma finishes_Nil:
  "chain_positions_ok actors pos \<Longrightarrow> finishes actors pos [] \<longleftrightarrow> chains_left actors pos = 0"
  by (auto simp: finishes_def chains_left_0 chain_positions_ok_def intro: le_antisym)

lemma merges_Suc_mem:
  "s # ss \<in> set (merges actors bound (Suc n) prior preempted pos) \<longleftrightarrow>
    (\<exists>i<length actors. pos ! i \<noteq> chain_length actors i
       \<and> preempted + of_bool (is_preemption actors pos prior i) \<le> bound \<and> s = chain_step actors i (pos ! i)
       \<and> ss \<in> set (merges actors bound n (Some i) (preempted + of_bool (is_preemption actors pos prior i))
           (pos[i := pos ! i + 1])))"
proof -
  have option: "s # ss \<in> set (if c \<or> bound < p then [] else map ((#) x) L) \<longleftrightarrow> \<not> c \<and> p \<le> bound \<and> s = x \<and> ss \<in> set L"
    for c p x L by (auto simp: not_less)
  have concat_mem: "x \<in> set (concat (map f [0..<m])) \<longleftrightarrow> (\<exists>i<m. x \<in> set (f i))" for x :: "Step list" and f m
    by auto
  show ?thesis unfolding merges.simps Let_def concat_mem option by (rule refl)
qed

lemma finishes_option_iff:
  assumes names: "distinct (map chain_name actors)" and pos: "chain_positions_ok actors pos"
    and prior: "case prior of None \<Rightarrow> True | Some p \<Rightarrow> p < length actors"
  shows "(\<exists>i<length actors. pos ! i \<noteq> chain_length actors i \<and> s = chain_step actors i (pos ! i)
      \<and> finishes actors (pos[i := pos ! i + 1]) ss
      \<and> preempted + of_bool (is_preemption actors pos prior i) + preemptions_after actors (Some i) ss \<le> bound)
    \<longleftrightarrow> finishes actors pos (s # ss) \<and> preempted + preemptions_after actors prior (s # ss) \<le> bound" (is "?L \<longleftrightarrow> ?R")
proof -
  have cost: "preempted + of_bool (is_preemption actors pos prior i) + preemptions_after actors (Some i) ss
      = preempted + preemptions_after actors prior (s # ss)"
    if "i < length actors" "s = chain_step actors i (pos ! i)" "finishes actors pos (s # ss)" for i
    using preemptions_after_Cons [OF names that(3) [unfolded that(2)] that(1) prior] that(2) by simp
  note here = finishes_Cons [OF names pos, of s ss]
  show ?thesis
  proof
    assume ?L
    then obtain i where i: "i < length actors" "s = chain_step actors i (pos ! i)" "pos ! i \<noteq> chain_length actors i"
      "finishes actors (pos[i := pos ! i + 1]) ss"
      "preempted + of_bool (is_preemption actors pos prior i) + preemptions_after actors (Some i) ss \<le> bound"
      by (elim exE conjE) (rule that)
    then have "finishes actors pos (s # ss)" unfolding here by (intro exI [of _ i] conjI)
    with cost [OF i(1,2)] i(5) show ?R by simp
  next
    assume R: ?R
    from conjunct1 [OF R, unfolded here]
    obtain i where i: "i < length actors" "pos ! i \<noteq> chain_length actors i" "s = chain_step actors i (pos ! i)"
      "finishes actors (pos[i := pos ! i + 1]) ss"
      by (elim exE conjE) (rule that)
    from R cost [OF i(1,3)] show ?L by (intro exI [of _ i] conjI i) simp
  qed
qed

lemma merges_iff:
  assumes names: "distinct (map chain_name actors)"
    and "chain_positions_ok actors pos" "chains_left actors pos = n" "preempted \<le> bound"
      "case prior of None \<Rightarrow> True | Some p \<Rightarrow> p < length actors"
  shows "steps \<in> set (merges actors bound n prior preempted pos) \<longleftrightarrow>
    finishes actors pos steps \<and> preempted + preemptions_after actors prior steps \<le> bound"
  using assms(2-)
proof (induction n arbitrary: pos prior preempted steps)
  case 0
  have "finishes actors pos steps \<longleftrightarrow> steps = []"
  proof (cases steps)
    case (Cons s ss)
    then show ?thesis using finishes_Cons [OF names 0(1)] chains_left_0 [OF 0(1)] 0(2) by auto
  qed (use finishes_Nil 0 in simp)
  moreover have "preemptions_after actors prior [] = 0" by (simp add: preemptions_after_def split: option.split)
  ultimately show ?case using 0(3) by auto
next
  case (Suc n)
  show ?case
  proof (cases steps)
    case Nil
    then show ?thesis using finishes_Nil [OF Suc.prems(1)] Suc.prems(2) by (auto simp: Let_def split: if_splits)
  next
    case (Cons s ss)
    let ?p = "\<lambda>i. preempted + of_bool (is_preemption actors pos prior i)"
    have sub: "?p i \<le> bound \<and> s = chain_step actors i (pos ! i) \<and> ss \<in> set (merges actors bound n (Some i) (?p i) (pos[i := pos ! i + 1]))
        \<longleftrightarrow> s = chain_step actors i (pos ! i) \<and> finishes actors (pos[i := pos ! i + 1]) ss
          \<and> ?p i + preemptions_after actors (Some i) ss \<le> bound"
      if i: "i < length actors" "pos ! i \<noteq> chain_length actors i" for i
    proof (cases "?p i \<le> bound")
      case True
      have "ss \<in> set (merges actors bound n (Some i) (?p i) (pos[i := pos ! i + 1])) \<longleftrightarrow>
          finishes actors (pos[i := pos ! i + 1]) ss \<and> ?p i + preemptions_after actors (Some i) ss \<le> bound"
        by (rule Suc.IH) (use True i chains_left_step [OF Suc.prems(1) i] Suc.prems(2) in simp_all)
      with True show ?thesis by blast
    qed simp
    show ?thesis
      unfolding Cons merges_Suc_mem finishes_option_iff [OF names Suc.prems(1,4), symmetric]
      by (intro ex_cong1 conj_cong refl sub)
  qed
qed

lemma merges_distinct:
  assumes "distinct (map chain_name actors)"
  shows "distinct (merges actors bound n prior preempted pos)"
proof (induction n arbitrary: prior preempted pos)
  case (Suc n)
  have head: "\<exists>i \<in> set is. \<exists>ss. steps = chain_step actors i (pos ! i) # ss"
    if "steps \<in> set (options_from actors bound n prior preempted pos is)" for steps "is"
    using that by (auto simp: options_from_def Let_def split: if_splits)
  have "distinct (options_from actors bound n prior preempted pos is)"
    if "distinct is" "set is \<subseteq> {..<length actors}" for "is"
    using that
  proof (induction "is")
    case (Cons i "is")
    let ?here = "options_from actors bound n prior preempted pos [i]"
    have "distinct ?here" using Suc.IH by (simp add: options_from_def Let_def distinct_map)
    moreover have "set ?here \<inter> set (options_from actors bound n prior preempted pos is) = {}"
    proof (rule equals0I)
      fix steps assume "steps \<in> set ?here \<inter> set (options_from actors bound n prior preempted pos is)"
      then obtain j where "j \<in> set is" "chain_name (actors ! i) = chain_name (actors ! j)"
        using head [of steps "[i]"] head [of steps "is"] by (auto simp: chain_step_def)
      then show False using Cons.prems name_eq_iff [OF assms, of i j] by auto
    qed
    moreover have "options_from actors bound n prior preempted pos (i # is)
        = ?here @ options_from actors bound n prior preempted pos is"
      by (simp add: options_from_def)
    ultimately show ?case using Cons by simp
  qed simp
  then show ?case by (simp add: merges_Suc atLeast0LessThan del: merges.simps)
qed simp

lemma set_all_merges:
  assumes "distinct (map chain_name actors)"
  shows "set (all_merges actors bound) = {steps. merge_of actors steps \<and> preemptions steps \<le> bound}"
proof -
  have "steps \<in> set (all_merges actors bound) \<longleftrightarrow>
      finishes actors (replicate (length actors) 0) steps \<and> 0 + preemptions_after actors None steps \<le> bound" for steps
    unfolding all_merges_def
    by (rule merges_iff) (use assms enum_start_ok [of actors] in \<open>simp_all add: enum_start_def\<close>)
  moreover have "finishes actors (replicate (length actors) 0) steps \<longleftrightarrow> merge_of actors steps" for steps
    by (simp add: finishes_def merge_of_def list_all_length [of _ actors]) (auto simp: list_all_iff)
  ultimately show ?thesis by (auto simp: preemptions_after_def)
qed

section \<open>Properties\<close>

text \<open>C20: a search that ends by itself has recorded exactly the merges of the actors' checkpoint chains with
  at most the bound of preemptions, each of them once, and at most as many as the cap.\<close>

theorem enumerate_exhaustive:
  assumes "distinct (map chain_name (env_actors E))" "enum_exhausted (enumerate_schedules E)"
  shows "set (enum_schedules (enumerate_schedules E))
      = {steps. merge_of (env_actors E) steps \<and> preemptions steps \<le> env_max_preemptions E}
    \<and> distinct (enum_schedules (enumerate_schedules E))
    \<and> length (enum_schedules (enumerate_schedules E)) \<le> env_cap E
    \<and> enum_stop_reason (enumerate_schedules E) = []"
proof (rule enumerate_emits [of E])
  fix k
  assume "enum_schedules (enumerate_schedules E) = take k (all_merges (env_actors E) (env_max_preemptions E))" "k \<le> env_cap E"
    and "if enum_exhausted (enumerate_schedules E)
      then k = length (all_merges (env_actors E) (env_max_preemptions E)) \<and> enum_stop_reason (enumerate_schedules E) = []
      else enum_stop_reason (enumerate_schedules E) = ''enumeration_limit'' \<and> k = env_cap E
             \<and> k < length (all_merges (env_actors E) (env_max_preemptions E))
        \<or> (\<exists>m. env_poll E m = Some (enum_stop_reason (enumerate_schedules E)))"
  then show ?thesis
    using assms set_all_merges [OF assms(1)] merges_distinct [OF assms(1)] by (simp add: all_merges_def)
qed

text \<open>Without a stop request and before the deadline the search ends and is cut only by the cap: it records
  the first \<^verbatim>\<open>cap\<close> of the merges in lexicographic order of the actors, and reports \<^verbatim>\<open>enumeration_limit\<close> exactly
  when there are more.\<close>

theorem enumerate_capped:
  assumes "\<And>n. env_poll E n = None"
  shows "enum_schedules (enumerate_schedules E) = take (env_cap E) (all_merges (env_actors E) (env_max_preemptions E))
    \<and> (enum_exhausted (enumerate_schedules E)
         \<longleftrightarrow> length (all_merges (env_actors E) (env_max_preemptions E)) \<le> env_cap E)
    \<and> enum_stop_reason (enumerate_schedules E)
        = (if enum_exhausted (enumerate_schedules E) then [] else ''enumeration_limit'')"
  by (rule enumerate_emits [of E]) (use assms in \<open>auto split: if_splits\<close>)

definition sample_chains :: "ActorChain list" where
  "sample_chains =
     [\<lparr> chain_actor = \<lparr> decl_actor = ''left'', decl_operation = ''op'' \<rparr>, chain_checkpoints = [''a'', completion] \<rparr>,
      \<lparr> chain_actor = \<lparr> decl_actor = ''right'', decl_operation = ''op'' \<rparr>, chain_checkpoints = [''b'', completion] \<rparr>]"

definition sample_search :: "nat \<Rightarrow> nat \<Rightarrow> enum_env" where
  "sample_search bound cap =
     \<lparr> env_actors = sample_chains, env_max_preemptions = bound, env_cap = cap, env_poll = \<lambda>_. None \<rparr>"

lemma sample_search_runs:
  "enum_exhausted (enumerate_schedules (sample_search 0 4))"
  "length (enum_schedules (enumerate_schedules (sample_search 0 4))) = 2"
  "\<not> enum_exhausted (enumerate_schedules (sample_search 2 4))"
  "length (enum_schedules (enumerate_schedules (sample_search 2 4))) = 4"
  by code_simp+

theorem enumerate_exhaustive_witness:
  "distinct (map chain_name (env_actors (sample_search 0 4)))
    \<and> set (enum_schedules (enumerate_schedules (sample_search 0 4)))
      = {steps. merge_of sample_chains steps \<and> preemptions steps \<le> 0}"
  using enumerate_exhaustive [of "sample_search 0 4"] sample_search_runs(1)
  by (simp add: sample_search_def sample_chains_def)

theorem enumerate_capped_witness:
  "enum_stop_reason (enumerate_schedules (sample_search 2 4)) = ''enumeration_limit''
    \<and> enum_schedules (enumerate_schedules (sample_search 2 4)) = take 4 (all_merges sample_chains 2)"
proof -
  have "env_poll (sample_search 2 4) n = None" for n by (simp add: sample_search_def)
  from enumerate_capped [OF this] show ?thesis using sample_search_runs(3) by (simp add: sample_search_def)
qed

end
