(* ===== verification/Schedule_Canonical.thy ===== *)
theory Schedule_Canonical
  imports Value_Codec
begin

text \<open>
  \<^verbatim>\<open>canonical_value\<close> and \<^verbatim>\<open>canonical_state\<close> of \<^verbatim>\<open>src/schedule_exploration.cpp\<close>: the type-tagged documents by which
  the exploration tells states apart. The node counter the C++ code passes by reference is the state of the
  folds; \<open>om_emplace\<close> is \<^verbatim>\<open>std::map::emplace\<close>, which keeps an entry that is there. The two checks of a call, the
  nesting depth and the number of nodes, come before anything else it does.

  \<open>same_value\<close> is the equality the documents stand for: sets by their members, maps by their entries, whatever
  the order of either.
\<close>

section \<open>Canonical documents\<close>

definition om_emplace :: "string \<Rightarrow> 'v \<Rightarrow> 'v smap \<Rightarrow> 'v smap" where
  "om_emplace k v m = (if map_of m k = None then om_put k v m else m)"

definition canon_require :: "bool \<Rightarrow> string \<Rightarrow> exn + unit" where
  "canon_require c msg = (if c then Inr () else Inl (StdException msg))"

definition canon_dump :: "json_lib \<Rightarrow> Json \<Rightarrow> exn + string" where
  "canon_dump L j = (case lib_dump L j of Inl what \<Rightarrow> Inl (JsonLibError what) | Inr s \<Rightarrow> Inr s)"

definition tagged :: "string \<Rightarrow> Json \<Rightarrow> Json" where
  "tagged t j = JArray [JString t, j]"

definition canon_key :: "Value \<Rightarrow> bool" where
  "canon_key v = (case v of VStr _ \<Rightarrow> True | VInt _ \<Rightarrow> True | _ \<Rightarrow> False)"

definition same_key_kind :: "Value \<Rightarrow> Value \<Rightarrow> bool" where
  "same_key_kind u v = (case (u, v) of (VStr _, VStr _) \<Rightarrow> True | (VInt _, VInt _) \<Rightarrow> True | _ \<Rightarrow> False)"

definition max_canonical_nodes :: nat where
  "max_canonical_nodes = 65536"

definition canon_enter :: "nat \<Rightarrow> nat \<Rightarrow> exn + nat" where
  "canon_enter depth nodes =
     (if depth \<le> 32 \<and> nodes + 1 \<le> max_canonical_nodes then Inr (nodes + 1)
      else Inl (StdException ''canonical value exceeds structural bound''))"

function canonical_value :: "json_lib \<Rightarrow> Value \<Rightarrow> nat \<Rightarrow> nat \<Rightarrow> exn + Json \<times> nat" where
  "canonical_value L v depth nodes0 = rbind (canon_enter depth nodes0) (\<lambda>nodes. case v of
     VNull \<Rightarrow> Inr (JArray [JString ''null''], nodes)
   | VInt i \<Rightarrow> Inr (tagged ''integer'' (JString (lib_int_str L i)), nodes)
   | VBool b \<Rightarrow> Inr (tagged ''boolean'' (JBool b), nodes)
   | VStr s \<Rightarrow> Inr (tagged ''string'' (JString s), nodes)
   | VUnserializable s \<Rightarrow> Inr (tagged ''unserializable'' (JString s), nodes)
   | VVariant t u \<Rightarrow> rbind (canonical_value L u (depth + 1) nodes) (\<lambda>(j, n).
       Inr (JArray [JString ''variant'', JString t, j], n))
   | VRecord fs \<Rightarrow> rbind (rfoldM (\<lambda>f (acc, n). rbind (canonical_value L (snd f) (depth + 1) n) (\<lambda>(j, n').
         Inr (acc @ [JArray [JString (fst f), j]], n'))) fs ([], nodes)) (\<lambda>(fields, n).
       Inr (tagged ''record'' (JArray fields), n))
   | VMap es \<Rightarrow> rbind (rfoldM (\<lambda>e (acc, n).
         rbind (canon_require (canon_key (fst e)) ''unsupported canonical map key'') (\<lambda>_.
         rbind (canon_require (same_key_kind (fst (hd es)) (fst e)) ''mixed canonical map keys'') (\<lambda>_.
         rbind (canonical_value L (fst e) (depth + 1) n) (\<lambda>(k, n').
         rbind (canonical_value L (snd e) (depth + 1) n') (\<lambda>(j, n'').
         rbind (canon_dump L k) (\<lambda>key.
         rbind (canon_require (map_of acc key = None) ''duplicate canonical map key'') (\<lambda>_.
         Inr (om_emplace key (JArray [k, j]) acc, n'')))))))) es ([], nodes)) (\<lambda>(entries, n).
       Inr (tagged ''map'' (JArray (map snd entries)), n))
   | VSet vs \<Rightarrow> rbind (rfoldM (\<lambda>u (acc, n). rbind (canonical_value L u (depth + 1) n) (\<lambda>(j, n').
         rbind (canon_dump L j) (\<lambda>key. Inr (om_emplace key j acc, n')))) vs ([], nodes)) (\<lambda>(members, n).
       Inr (tagged ''set'' (JArray (map snd members)), n))
   | VSeq vs \<Rightarrow> rbind (rfoldM (\<lambda>u (acc, n). rbind (canonical_value L u (depth + 1) n) (\<lambda>(j, n').
         Inr (acc @ [j], n'))) vs ([], nodes)) (\<lambda>(items, n). Inr (tagged ''sequence'' (JArray items), n))
   | VTuple vs \<Rightarrow> rbind (rfoldM (\<lambda>u (acc, n). rbind (canonical_value L u (depth + 1) n) (\<lambda>(j, n').
         Inr (acc @ [j], n'))) vs ([], nodes)) (\<lambda>(items, n). Inr (tagged ''tuple'' (JArray items), n)))"
  by pat_completeness auto
termination
proof (relation "measure (\<lambda>(L, v, d, n). size v)", goal_cases)
qed (auto intro!: le_imp_less_Suc intro: size_list_estimation' simp: less_Suc_eq_le)

definition canonical_state :: "json_lib \<Rightarrow> State \<Rightarrow> exn + string" where
  "canonical_state L s =
     rbind (rfoldM (\<lambda>kv (acc, n). rbind (canonical_value L (snd kv) 0 n) (\<lambda>(j, n').
       Inr (acc @ [JArray [JString (fst kv), j]], n'))) s ([], 0)) (\<lambda>(variables, _).
     rbind (canon_dump L (tagged ''mirrors.canonical-state/v1'' (JArray variables))) (\<lambda>text.
     rbind (canon_require (length text \<le> 1048576) ''canonical state exceeds byte bound'') (\<lambda>_. Inr text)))"

declare canonical_value.simps [simp del]

section \<open>The equality behind the documents\<close>

lemma size_pair:
  "(a, b) \<in> set xs \<Longrightarrow> size b \<le> size_list (size_prod f size) xs"
  "(a, b) \<in> set xs \<Longrightarrow> size a \<le> size_list (size_prod size g) xs"
  by (rule size_list_estimation' [of "(a, b)"]; simp)+

function same_value :: "Value \<Rightarrow> Value \<Rightarrow> bool" where
  "same_value u v = (case (u, v) of
     (VSet xs, VSet ys) \<Rightarrow> list_all (\<lambda>x. list_ex (\<lambda>y. same_value x y) ys) xs \<and> list_all (\<lambda>y. list_ex (\<lambda>x. same_value x y) xs) ys
   | (VSeq xs, VSeq ys) \<Rightarrow> length xs = length ys \<and> list_all (\<lambda>(x, y). same_value x y) (zip xs ys)
   | (VTuple xs, VTuple ys) \<Rightarrow> length xs = length ys \<and> list_all (\<lambda>(x, y). same_value x y) (zip xs ys)
   | (VRecord fs, VRecord gs) \<Rightarrow> length fs = length gs
       \<and> list_all (\<lambda>(f, g). fst f = fst g \<and> same_value (snd f) (snd g)) (zip fs gs)
   | (VMap es, VMap ds) \<Rightarrow>
       list_all (\<lambda>e. list_ex (\<lambda>d. same_value (fst e) (fst d) \<and> same_value (snd e) (snd d)) ds) es
       \<and> list_all (\<lambda>d. list_ex (\<lambda>e. same_value (fst e) (fst d) \<and> same_value (snd e) (snd d)) es) ds
   | (VVariant t x, VVariant t' y) \<Rightarrow> t = t' \<and> same_value x y
   | _ \<Rightarrow> u = v)"
  by pat_completeness auto
termination
  by (relation "measure (\<lambda>(u, v). size u)")
    (auto dest!: set_zip_leftD intro!: le_imp_less_Suc intro: size_list_estimation' size_pair)

declare same_value.simps [simp del]

lemma same_value_simps [simp]:
  "same_value (VSet xs) (VSet ys) \<longleftrightarrow>
     (\<forall>x \<in> set xs. \<exists>y \<in> set ys. same_value x y) \<and> (\<forall>y \<in> set ys. \<exists>x \<in> set xs. same_value x y)"
  "same_value (VSeq xs) (VSeq ys) \<longleftrightarrow> list_all2 same_value xs ys"
  "same_value (VTuple xs) (VTuple ys) \<longleftrightarrow> list_all2 same_value xs ys"
  "same_value (VRecord fs) (VRecord gs) \<longleftrightarrow> list_all2 (\<lambda>f g. fst f = fst g \<and> same_value (snd f) (snd g)) fs gs"
  "same_value (VMap es) (VMap ds) \<longleftrightarrow>
     (\<forall>e \<in> set es. \<exists>d \<in> set ds. same_value (fst e) (fst d) \<and> same_value (snd e) (snd d))
     \<and> (\<forall>d \<in> set ds. \<exists>e \<in> set es. same_value (fst e) (fst d) \<and> same_value (snd e) (snd d))"
  "same_value (VVariant t u) (VVariant t' w) \<longleftrightarrow> t = t' \<and> same_value u w"
  by (subst same_value.simps; auto simp: list_all2_iff list_all_iff list_ex_iff)+

definition same_state :: "State \<Rightarrow> State \<Rightarrow> bool" where
  "same_state s t = list_all2 (\<lambda>f g. fst f = fst g \<and> same_value (snd f) (snd g)) s t"

section \<open>What the folds collect\<close>

lemma rfoldM_items:
  assumes "rfoldM (\<lambda>u (acc, n). rbind (F u n) (\<lambda>(j, n'). Inr (acc @ [g u j], n'))) us (acc, n) = Inr (r, n')"
  shows "\<exists>js. list_all2 (\<lambda>u j. \<exists>n n'. F u n = Inr (j, n')) us js \<and> r = acc @ map2 g us js"
  using assms
proof (induction us arbitrary: acc n)
  case (Cons u us)
  then obtain j m where u: "F u n = Inr (j, m)"
    and rest: "rfoldM (\<lambda>u (acc, n). rbind (F u n) (\<lambda>(j, n'). Inr (acc @ [g u j], n'))) us (acc @ [g u j], m) = Inr (r, n')"
    by (auto simp: result_splits)
  from Cons.IH [OF rest] obtain js where "list_all2 (\<lambda>u j. \<exists>n n'. F u n = Inr (j, n')) us js" "r = acc @ g u j # map2 g us js"
    by auto
  with u show ?case by (intro exI [of _ "j # js"]) auto
qed simp

text \<open>A map whose keys are the printed form of what it holds.\<close>

definition keyed :: "json_lib \<Rightarrow> ('v \<Rightarrow> Json) \<Rightarrow> 'v smap \<Rightarrow> bool" where
  "keyed L key m = (om_wf m \<and> (\<forall>(k, v) \<in> set m. lib_dump L (key v) = Inr k))"

definition dump_injective :: "json_lib \<Rightarrow> bool" where
  "dump_injective L = (\<forall>j k s. lib_dump L j = Inr s \<longrightarrow> lib_dump L k = Inr s \<longrightarrow> j = k)"

lemma canon_dump_Inr [simp]: "canon_dump L j = Inr s \<longleftrightarrow> lib_dump L j = Inr s"
  by (simp add: canon_dump_def split: sum.split)

lemma canon_require_Inr [simp]: "canon_require c m = Inr u \<longleftrightarrow> c"
  by (simp add: canon_require_def)

lemma set_om_put_fresh: "map_of m k = None \<Longrightarrow> set (om_put k v m) = insert (k, v) (set m)"
  by (induction k v m rule: om_put.induct) (auto split: if_splits)

lemma keyed_put:
  "keyed L key m \<Longrightarrow> lib_dump L (key v) = Inr k \<Longrightarrow> map_of m k = None \<Longrightarrow> keyed L key (om_put k v m)"
  by (auto simp: keyed_def set_om_put_fresh)

lemma keyed_eq_iff:
  assumes "keyed L key m" "keyed L key m'"
  shows "map snd m = map snd m' \<longleftrightarrow> snd ` set m = snd ` set m'"
proof
  assume eq: "snd ` set m = snd ` set m'"
  have "x \<in> set m \<longleftrightarrow> x \<in> set m'" for x
  proof -
    have "x \<in> set m \<longleftrightarrow> snd x \<in> snd ` set m \<and> lib_dump L (key (snd x)) = Inr (fst x)" if "keyed L key m" for m
      using that by (cases x) (force simp: keyed_def)
    with assms eq show ?thesis by simp
  qed
  then have "set m = set m'" by auto
  then have "m = m'" using assms by (intro om_ext) (auto simp: keyed_def map_of_inject_set om_wf_distinct)
  then show "map snd m = map snd m'" by simp
qed (metis set_map)

lemma rfoldM_members:
  assumes "dump_injective L" "keyed L (\<lambda>j. j) m"
    and "rfoldM (\<lambda>u (acc, n). rbind (F u n) (\<lambda>(j, n'). rbind (canon_dump L j) (\<lambda>key. Inr (om_emplace key j acc, n')))) us (m, n)
      = Inr (r, n')"
  shows "\<exists>js. list_all2 (\<lambda>u j. \<exists>n n'. F u n = Inr (j, n')) us js \<and> keyed L (\<lambda>j. j) r \<and> snd ` set r = snd ` set m \<union> set js"
  using assms(2-)
proof (induction us arbitrary: m n)
  case (Cons u us)
  let ?f = "\<lambda>u (acc, n). rbind (F u n) (\<lambda>(j, n'). rbind (canon_dump L j) (\<lambda>key. Inr (om_emplace key j acc, n')))"
  from Cons.prems(2) obtain j k i where u: "F u n = Inr (j, i)" "lib_dump L j = Inr k"
    and rest: "rfoldM ?f us (om_emplace k j m, i) = Inr (r, n')"
    by (auto simp: result_splits)
  have put: "keyed L (\<lambda>j. j) (om_emplace k j m) \<and> snd ` set (om_emplace k j m) = insert j (snd ` set m)"
  proof (cases "map_of m k")
    case None
    then show ?thesis using keyed_put [OF Cons.prems(1), of j k] u by (simp add: om_emplace_def set_om_put_fresh)
  next
    case (Some i)
    then have "(k, i) \<in> set m" by (rule map_of_SomeD)
    moreover from this have "i = j" using Cons.prems(1) u(2) assms(1) by (auto simp: keyed_def dump_injective_def)
    ultimately show ?thesis using Some Cons.prems(1) by (force simp: om_emplace_def)
  qed
  from Cons.IH [OF conjunct1 [OF put] rest] obtain js where "list_all2 (\<lambda>u j. \<exists>n n'. F u n = Inr (j, n')) us js"
    "keyed L (\<lambda>j. j) r" "snd ` set r = insert j (snd ` set m) \<union> set js" using put by auto
  then show ?case using u(1) by (intro exI [of _ "j # js"]) auto
qed simp

definition entry_key :: "Json \<Rightarrow> Json" where
  "entry_key e = (case e of JArray (k # _) \<Rightarrow> k | _ \<Rightarrow> JNull)"

definition canon_entry :: "json_lib \<Rightarrow> (Value \<Rightarrow> nat \<Rightarrow> exn + Json \<times> nat) \<Rightarrow> Value \<Rightarrow> Value \<times> Value
    \<Rightarrow> Json smap \<times> nat \<Rightarrow> exn + Json smap \<times> nat" where
  "canon_entry L F key0 = (\<lambda>e (acc, n).
     rbind (canon_require (canon_key (fst e)) ''unsupported canonical map key'') (\<lambda>_.
     rbind (canon_require (same_key_kind key0 (fst e)) ''mixed canonical map keys'') (\<lambda>_.
     rbind (F (fst e) n) (\<lambda>(k, n').
     rbind (F (snd e) n') (\<lambda>(j, n'').
     rbind (canon_dump L k) (\<lambda>key.
     rbind (canon_require (map_of acc key = None) ''duplicate canonical map key'') (\<lambda>_.
     Inr (om_emplace key (JArray [k, j]) acc, n''))))))))"

lemma rfoldM_entries:
  assumes "keyed L entry_key m" "rfoldM (canon_entry L F key0) es (m, n) = Inr (r, n')"
  shows "\<exists>ps. list_all2 (\<lambda>e (k, j). canon_key (fst e) \<and> (\<exists>n n'. F (fst e) n = Inr (k, n')) \<and> (\<exists>n n'. F (snd e) n = Inr (j, n'))) es ps
    \<and> keyed L entry_key r \<and> snd ` set r = snd ` set m \<union> (\<lambda>(k, j). JArray [k, j]) ` set ps"
  using assms
proof (induction es arbitrary: m n)
  case (Cons e es)
  from Cons.prems(2) obtain k j i i' key where e: "canon_key (fst e)" "F (fst e) n = Inr (k, i)" "F (snd e) i = Inr (j, i')"
      "lib_dump L k = Inr key" "map_of m key = None"
    and rest: "rfoldM (canon_entry L F key0) es (om_put key (JArray [k, j]) m, i') = Inr (r, n')"
    by (auto simp: canon_entry_def result_splits om_emplace_def)
  have "keyed L entry_key (om_put key (JArray [k, j]) m)"
    by (rule keyed_put [OF Cons.prems(1)]) (use e in \<open>simp_all add: entry_key_def\<close>)
  from Cons.IH [OF this rest] obtain ps where
    "list_all2 (\<lambda>e (k, j). canon_key (fst e) \<and> (\<exists>n n'. F (fst e) n = Inr (k, n')) \<and> (\<exists>n n'. F (snd e) n = Inr (j, n'))) es ps"
    "keyed L entry_key r" "snd ` set r = insert (JArray [k, j]) (snd ` set m) \<union> (\<lambda>(k, j). JArray [k, j]) ` set ps"
    using e(5) by (auto simp: set_om_put_fresh)
  then show ?case using e by (intro exI [of _ "(k, j) # ps"]) auto
qed simp

definition canonical_of :: "json_lib \<Rightarrow> Value \<Rightarrow> Json \<Rightarrow> bool" where
  "canonical_of L v j = (\<exists>depth nodes nodes'. canonical_value L v depth nodes = Inr (j, nodes'))"

lemma canonical_ofI: "canonical_value L v depth nodes = Inr (j, nodes') \<Longrightarrow> canonical_of L v j"
  by (auto simp: canonical_of_def)

lemma canonical_of_atom:
  "canonical_of L VNull j \<Longrightarrow> j = JArray [JString ''null'']"
  "canonical_of L (VInt i) j \<Longrightarrow> j = tagged ''integer'' (JString (lib_int_str L i))"
  "canonical_of L (VBool b) j \<Longrightarrow> j = tagged ''boolean'' (JBool b)"
  "canonical_of L (VStr s) j \<Longrightarrow> j = tagged ''string'' (JString s)"
  "canonical_of L (VUnserializable s) j \<Longrightarrow> j = tagged ''unserializable'' (JString s)"
  by (auto simp: canonical_of_def canonical_value.simps result_splits)

lemma canonical_of_variant:
  "canonical_of L (VVariant t u) j \<Longrightarrow> \<exists>k. canonical_of L u k \<and> j = JArray [JString ''variant'', JString t, k]"
  by (auto simp: canonical_of_def canonical_value.simps [of L "VVariant t u"] result_splits)

lemma map2_snd: "list_all2 R us js \<Longrightarrow> map2 (\<lambda>u j. j) us js = js"
  by (induction rule: list_all2_induct) simp_all

lemma list_all2_canonical:
  "list_all2 (\<lambda>u j. \<exists>n n'. canonical_value L (f u) d n = Inr (j, n')) us js \<Longrightarrow> list_all2 (\<lambda>u j. canonical_of L (f u) j) us js"
  by (erule list_all2_mono) (auto intro: canonical_ofI)

lemma canonical_of_items:
  assumes "rfoldM (\<lambda>u (acc, n). rbind (canonical_value L (f u) d n) (\<lambda>(j, n'). Inr (acc @ [g u j], n'))) us ([], n) = Inr (r, n')"
  shows "\<exists>js. list_all2 (\<lambda>u j. canonical_of L (f u) j) us js \<and> r = map2 g us js"
proof -
  from rfoldM_items [OF assms] obtain js where
    js: "list_all2 (\<lambda>u j. \<exists>n n'. canonical_value L (f u) d n = Inr (j, n')) us js" "r = map2 g us js" by auto
  from list_all2_canonical [OF js(1)] js(2) show ?thesis by (intro exI [of _ js] conjI)
qed

lemma canonical_of_seq:
  assumes "canonical_of L (VSeq us) j"
  shows "\<exists>js. list_all2 (canonical_of L) us js \<and> j = tagged ''sequence'' (JArray js)"
proof -
  from assms obtain d n r n' where "j = tagged ''sequence'' (JArray r)"
    "rfoldM (\<lambda>u (acc, n). rbind (canonical_value L u d n) (\<lambda>(j, n'). Inr (acc @ [j], n'))) us ([], n) = Inr (r, n')"
    by (auto simp: canonical_of_def canonical_value.simps [of L "VSeq us"] result_splits)
  with canonical_of_items [of L "\<lambda>u. u" d "\<lambda>u j. j" us n r n'] show ?thesis by (auto simp: map2_snd)
qed

lemma canonical_of_tuple:
  assumes "canonical_of L (VTuple us) j"
  shows "\<exists>js. list_all2 (canonical_of L) us js \<and> j = tagged ''tuple'' (JArray js)"
proof -
  from assms obtain d n r n' where "j = tagged ''tuple'' (JArray r)"
    "rfoldM (\<lambda>u (acc, n). rbind (canonical_value L u d n) (\<lambda>(j, n'). Inr (acc @ [j], n'))) us ([], n) = Inr (r, n')"
    by (auto simp: canonical_of_def canonical_value.simps [of L "VTuple us"] result_splits)
  with canonical_of_items [of L "\<lambda>u. u" d "\<lambda>u j. j" us n r n'] show ?thesis by (auto simp: map2_snd)
qed

definition field_doc :: "string \<times> Value \<Rightarrow> Json \<Rightarrow> Json" where
  "field_doc f j = JArray [JString (fst f), j]"

lemma canonical_of_record:
  assumes "canonical_of L (VRecord fs) j"
  shows "\<exists>js. list_all2 (\<lambda>f j. canonical_of L (snd f) j) fs js \<and> j = tagged ''record'' (JArray (map2 field_doc fs js))"
proof -
  from assms obtain d n r n' where "j = tagged ''record'' (JArray r)"
    "rfoldM (\<lambda>f (acc, n). rbind (canonical_value L (snd f) d n) (\<lambda>(j, n'). Inr (acc @ [field_doc f j], n'))) fs ([], n) = Inr (r, n')"
    by (auto simp: canonical_of_def canonical_value.simps [of L "VRecord fs"] result_splits field_doc_def)
  with canonical_of_items [of L snd d field_doc fs n r n'] show ?thesis by auto
qed

lemma keyed_Nil [simp]: "keyed L key []"
  by (simp add: keyed_def)

lemma canonical_of_set:
  assumes "dump_injective L" "canonical_of L (VSet us) j"
  shows "\<exists>js m. list_all2 (canonical_of L) us js \<and> keyed L (\<lambda>j. j) m \<and> snd ` set m = set js
    \<and> j = tagged ''set'' (JArray (map snd m))"
proof -
  from assms(2) obtain d n r n' where r: "j = tagged ''set'' (JArray (map snd r))"
    "rfoldM (\<lambda>u (acc, n). rbind (canonical_value L u d n) (\<lambda>(j, n'). rbind (canon_dump L j) (\<lambda>key. Inr (om_emplace key j acc, n')))) us ([], n)
      = Inr (r, n')"
    by (auto simp: canonical_of_def canonical_value.simps [of L "VSet us"] result_splits)
  from rfoldM_members [OF assms(1) keyed_Nil r(2)] obtain js where
    js: "list_all2 (\<lambda>u j. \<exists>n n'. canonical_value L u d n = Inr (j, n')) us js" "keyed L (\<lambda>j. j) r" "snd ` set r = set js" by auto
  from list_all2_canonical [OF js(1)] js(2,3) r(1) show ?thesis by (intro exI [of _ js] exI [of _ r] conjI)
qed

lemma canonical_of_map:
  assumes "canonical_of L (VMap es) j"
  shows "\<exists>ps m. list_all2 (\<lambda>e p. canon_key (fst e) \<and> canonical_of L (fst e) (fst p) \<and> canonical_of L (snd e) (snd p)) es ps
    \<and> keyed L entry_key m \<and> snd ` set m = (\<lambda>(k, j). JArray [k, j]) ` set ps \<and> j = tagged ''map'' (JArray (map snd m))"
proof -
  from assms obtain d n r n' where r: "j = tagged ''map'' (JArray (map snd r))"
    "rfoldM (canon_entry L (\<lambda>v. canonical_value L v d) (fst (hd es))) es ([], n) = Inr (r, n')"
    by (auto simp: canonical_of_def canonical_value.simps [of L "VMap es"] result_splits canon_entry_def)
  from rfoldM_entries [OF keyed_Nil r(2)] obtain ps where ps:
    "list_all2 (\<lambda>e (k, j). canon_key (fst e) \<and> (\<exists>n n'. canonical_value L (fst e) d n = Inr (k, n'))
      \<and> (\<exists>n n'. canonical_value L (snd e) d n = Inr (j, n'))) es ps"
    "keyed L entry_key r" "snd ` set r = (\<lambda>(k, j). JArray [k, j]) ` set ps" by auto
  have "list_all2 (\<lambda>e p. canon_key (fst e) \<and> canonical_of L (fst e) (fst p) \<and> canonical_of L (snd e) (snd p)) es ps"
    using ps(1) by (rule list_all2_mono) (auto intro: canonical_ofI)
  with ps(2,3) r(1) show ?thesis by blast
qed

section \<open>Documents are equal exactly when values are the same\<close>

lemma matched_lists:
  assumes "list_all2 R us js" "list_all2 R' vs ks"
    and "\<And>u v j k. u \<in> set us \<Longrightarrow> v \<in> set vs \<Longrightarrow> R u j \<Longrightarrow> R' v k \<Longrightarrow> j = k \<longleftrightarrow> S u v"
  shows "js = ks \<longleftrightarrow> list_all2 S us vs"
  using assms
proof (induction arbitrary: vs ks rule: list_all2_induct)
  case Nil
  then show ?case by (cases vs) auto
next
  case (Cons u us j js)
  show ?case
  proof (cases vs)
    case Nil
    then show ?thesis using Cons.prems(1) by auto
  next
    case vs: (Cons v vs')
    then obtain k ks' where ks: "ks = k # ks'" "R' v k" "list_all2 R' vs' ks'"
      using Cons.prems(1) by (auto simp: list_all2_Cons1)
    have "js = ks' \<longleftrightarrow> list_all2 S us vs'" by (rule Cons.IH [OF ks(3)]) (use Cons.prems(2) vs in auto)
    moreover have "j = k \<longleftrightarrow> S u v" using Cons.prems(2) [of u v j k] Cons.hyps vs ks(2) by simp
    ultimately show ?thesis using vs ks by simp
  qed
qed

lemma list_all2_members:
  "list_all2 R us js \<Longrightarrow> u \<in> set us \<Longrightarrow> \<exists>j \<in> set js. R u j"
  "list_all2 R us js \<Longrightarrow> j \<in> set js \<Longrightarrow> \<exists>u \<in> set us. R u j"
  by (metis in_set_conv_nth list_all2_conv_all_nth)+

lemma matched_sets:
  assumes us: "list_all2 R us js" and vs: "list_all2 R' vs ks"
    and iff: "\<And>u v j k. u \<in> set us \<Longrightarrow> v \<in> set vs \<Longrightarrow> R u j \<Longrightarrow> R' v k \<Longrightarrow> j = k \<longleftrightarrow> S u v"
  shows "set js = set ks \<longleftrightarrow> (\<forall>u \<in> set us. \<exists>v \<in> set vs. S u v) \<and> (\<forall>v \<in> set vs. \<exists>u \<in> set us. S u v)"
proof
  assume eq: "set js = set ks"
  show "(\<forall>u \<in> set us. \<exists>v \<in> set vs. S u v) \<and> (\<forall>v \<in> set vs. \<exists>u \<in> set us. S u v)"
    using list_all2_members(1) [OF us] list_all2_members(2) [OF us] list_all2_members(1) [OF vs]
      list_all2_members(2) [OF vs] iff eq by metis
next
  assume match: "(\<forall>u \<in> set us. \<exists>v \<in> set vs. S u v) \<and> (\<forall>v \<in> set vs. \<exists>u \<in> set us. S u v)"
  have "j \<in> set ks" if "j \<in> set js" for j
  proof -
    from list_all2_members(2) [OF us that] obtain u where u: "u \<in> set us" "R u j" by blast
    with match obtain v where v: "v \<in> set vs" "S u v" by blast
    from list_all2_members(1) [OF vs v(1)] obtain k where "k \<in> set ks" "R' v k" by blast
    with iff [OF u(1) v(1) u(2)] v(2) show ?thesis by auto
  qed
  moreover have "k \<in> set js" if "k \<in> set ks" for k
  proof -
    from list_all2_members(2) [OF vs that] obtain v where v: "v \<in> set vs" "R' v k" by blast
    with match obtain u where u: "u \<in> set us" "S u v" by blast
    from list_all2_members(1) [OF us u(1)] obtain j where "j \<in> set js" "R u j" by blast
    with iff [OF u(1) v(1)] v(2) u(2) show ?thesis by auto
  qed
  ultimately show "set js = set ks" by blast
qed

lemma tagged_inject [simp]: "tagged t j = tagged t' j' \<longleftrightarrow> t = t' \<and> j = j'"
  by (simp add: tagged_def)

lemma tagged_other [simp]: "tagged t j \<noteq> JArray [k]" "JArray [k] \<noteq> tagged t j"
  "tagged t j \<noteq> JArray (a # b # c # d)" "JArray (a # b # c # d) \<noteq> tagged t j"
  by (simp_all add: tagged_def)

lemma lib_int_str_inject: "lib_int_laws L \<Longrightarrow> lib_int_str L i = lib_int_str L i' \<longleftrightarrow> i = i'"
  unfolding lib_int_laws_def by (metis sum.inject(2))

text \<open>The tag of a document tells the kind of its value.\<close>

fun kind_tag :: "Value \<Rightarrow> string" where
  "kind_tag VNull = ''null''"
| "kind_tag (VInt _) = ''integer''"
| "kind_tag (VBool _) = ''boolean''"
| "kind_tag (VStr _) = ''string''"
| "kind_tag (VSet _) = ''set''"
| "kind_tag (VSeq _) = ''sequence''"
| "kind_tag (VTuple _) = ''tuple''"
| "kind_tag (VRecord _) = ''record''"
| "kind_tag (VMap _) = ''map''"
| "kind_tag (VVariant _ _) = ''variant''"
| "kind_tag (VUnserializable _) = ''unserializable''"

lemma canonical_tag:
  assumes "dump_injective L" "canonical_of L v j"
  shows "\<exists>js. j = JArray (JString (kind_tag v) # js)"
proof (cases v)
  case (VSet us)
  with canonical_of_set [OF assms(1)] assms(2) show ?thesis by (auto simp: tagged_def)
next
  case (VMap es)
  with canonical_of_map assms(2) show ?thesis by (auto simp: tagged_def dest: canonical_of_map)
qed (use assms(2) in \<open>auto simp: tagged_def dest: canonical_of_atom canonical_of_variant canonical_of_seq canonical_of_tuple canonical_of_record\<close>)

lemma same_value_kind: "same_value u v \<Longrightarrow> kind_tag u = kind_tag v"
  by (subst (asm) same_value.simps) (auto split: Value.splits)

lemma canon_key_iff:
  assumes "lib_int_laws L" "canon_key u" "canon_key v" "canonical_of L u j" "canonical_of L v k"
  shows "j = k \<longleftrightarrow> same_value u v"
  using assms by (cases u; cases v) (auto simp: canon_key_def same_value.simps lib_int_str_inject dest!: canonical_of_atom)

lemma keyed_docs_iff:
  "keyed L key m \<Longrightarrow> keyed L key m' \<Longrightarrow> tagged t (JArray (map snd m)) = tagged t (JArray (map snd m')) \<longleftrightarrow> snd ` set m = snd ` set m'"
  by (simp add: keyed_eq_iff del: map_eq_conv)

lemma canonical_set_iff:
  assumes "dump_injective L" "canonical_of L (VSet us) j" "canonical_of L (VSet vs) k"
    and "\<And>u v j k. u \<in> set us \<Longrightarrow> canonical_of L u j \<Longrightarrow> canonical_of L v k \<Longrightarrow> j = k \<longleftrightarrow> same_value u v"
  shows "j = k \<longleftrightarrow> same_value (VSet us) (VSet vs)"
proof -
  from canonical_of_set [OF assms(1,2)] obtain js m where u: "list_all2 (canonical_of L) us js" "keyed L (\<lambda>j. j) m"
    "snd ` set m = set js" "j = tagged ''set'' (JArray (map snd m))" by blast
  from canonical_of_set [OF assms(1,3)] obtain ks m' where v: "list_all2 (canonical_of L) vs ks" "keyed L (\<lambda>j. j) m'"
    "snd ` set m' = set ks" "k = tagged ''set'' (JArray (map snd m'))" by blast
  have "j = k \<longleftrightarrow> set js = set ks"
    unfolding u(4) v(4) keyed_docs_iff [OF u(2) v(2)] u(3) v(3) by (rule refl)
  also have "\<dots> \<longleftrightarrow> same_value (VSet us) (VSet vs)"
    using matched_sets [OF u(1) v(1), of same_value] assms(4) by simp
  finally show ?thesis .
qed

lemma canonical_map_iff:
  assumes "lib_int_laws L" "canonical_of L (VMap es) j" "canonical_of L (VMap ds) k"
    and "\<And>e v j k. e \<in> set es \<Longrightarrow> canonical_of L (snd e) j \<Longrightarrow> canonical_of L v k \<Longrightarrow> j = k \<longleftrightarrow> same_value (snd e) v"
  shows "j = k \<longleftrightarrow> same_value (VMap es) (VMap ds)"
proof -
  let ?R = "\<lambda>e p. canon_key (fst e) \<and> canonical_of L (fst e) (fst p) \<and> canonical_of L (snd e) (snd p)"
  from canonical_of_map [OF assms(2)] obtain ps m where u: "list_all2 ?R es ps" "keyed L entry_key m"
    "snd ` set m = (\<lambda>(k, j). JArray [k, j]) ` set ps" "j = tagged ''map'' (JArray (map snd m))" by blast
  from canonical_of_map [OF assms(3)] obtain qs m' where v: "list_all2 ?R ds qs" "keyed L entry_key m'"
    "snd ` set m' = (\<lambda>(k, j). JArray [k, j]) ` set qs" "k = tagged ''map'' (JArray (map snd m'))" by blast
  have "j = k \<longleftrightarrow> (\<lambda>(k, j). JArray [k, j]) ` set ps = (\<lambda>(k, j). JArray [k, j]) ` set qs"
    unfolding u(4) v(4) keyed_docs_iff [OF u(2) v(2)] u(3) v(3) by (rule refl)
  also have "\<dots> \<longleftrightarrow> set ps = set qs"
    by (rule inj_image_eq_iff) (auto simp: inj_def)
  also have "\<dots> \<longleftrightarrow> (\<forall>e \<in> set es. \<exists>d \<in> set ds. same_value (fst e) (fst d) \<and> same_value (snd e) (snd d))
      \<and> (\<forall>d \<in> set ds. \<exists>e \<in> set es. same_value (fst e) (fst d) \<and> same_value (snd e) (snd d))"
  proof (rule matched_sets [OF u(1) v(1)])
    fix e d p q assume "e \<in> set es" "?R e p" "?R d q"
    then show "p = q \<longleftrightarrow> same_value (fst e) (fst d) \<and> same_value (snd e) (snd d)"
      using canon_key_iff [OF assms(1), of "fst e" "fst d"] assms(4) [of e "snd p" "snd d" "snd q"] by (cases p; cases q) simp
  qed
  finally show ?thesis by simp
qed

lemma canonical_fields_iff:
  assumes "list_all2 (\<lambda>f j. canonical_of L (snd f) j) fs js" "list_all2 (\<lambda>f j. canonical_of L (snd f) j) gs ks"
    and "\<And>f v j k. f \<in> set fs \<Longrightarrow> canonical_of L (snd f) j \<Longrightarrow> canonical_of L v k \<Longrightarrow> j = k \<longleftrightarrow> same_value (snd f) v"
  shows "map2 field_doc fs js = map2 field_doc gs ks \<longleftrightarrow> list_all2 (\<lambda>f g. fst f = fst g \<and> same_value (snd f) (snd g)) fs gs"
proof (rule matched_lists)
  show "list_all2 (\<lambda>f d. \<exists>j. canonical_of L (snd f) j \<and> d = field_doc f j) fs (map2 field_doc fs js)"
    using assms(1) by (induction rule: list_all2_induct) auto
  show "list_all2 (\<lambda>f d. \<exists>j. canonical_of L (snd f) j \<and> d = field_doc f j) gs (map2 field_doc gs ks)"
    using assms(2) by (induction rule: list_all2_induct) auto
next
  fix f g d d' assume f: "f \<in> set fs" "\<exists>j. canonical_of L (snd f) j \<and> d = field_doc f j" "\<exists>j. canonical_of L (snd g) j \<and> d' = field_doc g j"
  then obtain j k where "canonical_of L (snd f) j" "d = field_doc f j" "canonical_of L (snd g) k" "d' = field_doc g k" by blast
  with assms(3) [OF f(1), of j "snd g" k] show "d = d' \<longleftrightarrow> fst f = fst g \<and> same_value (snd f) (snd g)"
    by (simp add: field_doc_def)
qed

lemma canonical_other_kind:
  assumes "dump_injective L" "canonical_of L u j" "canonical_of L v k" "kind_tag u \<noteq> kind_tag v"
  shows "j = k \<longleftrightarrow> same_value u v"
  using canonical_tag [OF assms(1,2)] canonical_tag [OF assms(1,3)] same_value_kind [of u v] assms(4) by auto

lemma kind_tag_eq:
  "kind_tag (VSet us) = kind_tag v \<Longrightarrow> \<exists>vs. v = VSet vs"
  "kind_tag (VSeq us) = kind_tag v \<Longrightarrow> \<exists>vs. v = VSeq vs"
  "kind_tag (VTuple us) = kind_tag v \<Longrightarrow> \<exists>vs. v = VTuple vs"
  "kind_tag (VRecord fs) = kind_tag v \<Longrightarrow> \<exists>gs. v = VRecord gs"
  "kind_tag (VMap es) = kind_tag v \<Longrightarrow> \<exists>ds. v = VMap ds"
  "kind_tag (VVariant t u) = kind_tag v \<Longrightarrow> \<exists>t' u'. v = VVariant t' u'"
  by (cases v; simp)+

lemma canonical_atom_iff:
  assumes "lib_int_laws L" "canonical_of L u j" "canonical_of L v k" "kind_tag u = kind_tag v"
    "u = VNull \<or> (\<exists>i. u = VInt i) \<or> (\<exists>b. u = VBool b) \<or> (\<exists>s. u = VStr s) \<or> (\<exists>s. u = VUnserializable s)"
  shows "j = k \<longleftrightarrow> same_value u v"
  using assms
  by (elim disjE exE; cases v) (auto simp: same_value.simps lib_int_str_inject dest!: canonical_of_atom)

lemma canonical_iff:
  assumes laws: "lib_int_laws L" "dump_injective L"
    and "canonical_of L u j" "canonical_of L v k"
  shows "j = k \<longleftrightarrow> same_value u v"
  using assms(3-)
proof (induction u arbitrary: v j k rule: Value_induct)
  case (VSet us)
  then show ?case using canonical_set_iff [OF laws(2)] canonical_other_kind [OF laws(2)] kind_tag_eq(1) by metis
next
  case (VMap es)
  then show ?case using canonical_map_iff [OF laws(1)] canonical_other_kind [OF laws(2)] kind_tag_eq(5) by metis
next
  case (VSeq us)
  show ?case
  proof (cases "kind_tag (VSeq us) = kind_tag v")
    case True
    then obtain vs where v: "v = VSeq vs" using kind_tag_eq(2) by blast
    from VSeq.prems v obtain js ks where "list_all2 (canonical_of L) us js" "j = tagged ''sequence'' (JArray js)"
      "list_all2 (canonical_of L) vs ks" "k = tagged ''sequence'' (JArray ks)" using canonical_of_seq by metis
    with matched_lists [of "canonical_of L" us js "canonical_of L" vs ks same_value] VSeq.IH v show ?thesis by simp
  qed (use canonical_other_kind [OF laws(2)] VSeq.prems in blast)
next
  case (VTuple us)
  show ?case
  proof (cases "kind_tag (VTuple us) = kind_tag v")
    case True
    then obtain vs where v: "v = VTuple vs" using kind_tag_eq(3) by blast
    from VTuple.prems v obtain js ks where "list_all2 (canonical_of L) us js" "j = tagged ''tuple'' (JArray js)"
      "list_all2 (canonical_of L) vs ks" "k = tagged ''tuple'' (JArray ks)" using canonical_of_tuple by metis
    with matched_lists [of "canonical_of L" us js "canonical_of L" vs ks same_value] VTuple.IH v show ?thesis by simp
  qed (use canonical_other_kind [OF laws(2)] VTuple.prems in blast)
next
  case (VRecord fs)
  show ?case
  proof (cases "kind_tag (VRecord fs) = kind_tag v")
    case True
    then obtain gs where v: "v = VRecord gs" using kind_tag_eq(4) by blast
    from canonical_of_record [OF VRecord.prems(1)] canonical_of_record [OF VRecord.prems(2) [unfolded v]]
    obtain js ks where "list_all2 (\<lambda>f j. canonical_of L (snd f) j) fs js" "j = tagged ''record'' (JArray (map2 field_doc fs js))"
      "list_all2 (\<lambda>f j. canonical_of L (snd f) j) gs ks" "k = tagged ''record'' (JArray (map2 field_doc gs ks))" by blast
    with canonical_fields_iff [of L fs js gs ks] VRecord.IH v show ?thesis by simp
  qed (use canonical_other_kind [OF laws(2)] VRecord.prems in blast)
next
  case (VVariant t u)
  show ?case
  proof (cases "kind_tag (VVariant t u) = kind_tag v")
    case True
    then obtain t' w where v: "v = VVariant t' w" using kind_tag_eq(6) by blast
    from VVariant.prems v obtain j' k' where "canonical_of L u j'" "canonical_of L w k'"
      "j = JArray [JString ''variant'', JString t, j']" "k = JArray [JString ''variant'', JString t', k']"
      using canonical_of_variant by metis
    with VVariant.IH v show ?thesis by simp
  qed (use canonical_other_kind [OF laws(2)] VVariant.prems in blast)
qed (use canonical_atom_iff [OF laws(1)] canonical_other_kind [OF laws(2)] in blast)+

section \<open>States\<close>

lemma canonical_state_Inr:
  assumes "canonical_state L s = Inr text"
  shows "\<exists>js. list_all2 (\<lambda>f j. canonical_of L (snd f) j) s js \<and> length text \<le> 1048576
    \<and> lib_dump L (tagged ''mirrors.canonical-state/v1'' (JArray (map2 field_doc s js))) = Inr text"
proof -
  from assms obtain vars n where out: "length text \<le> 1048576" "lib_dump L (tagged ''mirrors.canonical-state/v1'' (JArray vars)) = Inr text"
    and vars: "rfoldM (\<lambda>kv (acc, n). rbind (canonical_value L (snd kv) 0 n) (\<lambda>(j, n'). Inr (acc @ [field_doc kv j], n'))) s ([], 0) = Inr (vars, n)"
    by (auto simp: canonical_state_def result_splits field_doc_def)
  from canonical_of_items [OF vars] obtain js where
    "list_all2 (\<lambda>f j. canonical_of L (snd f) j) s js" "vars = map2 field_doc s js" by blast
  with out show ?thesis by blast
qed

lemma canonical_state_eq:
  assumes laws: "lib_int_laws L" "dump_injective L" and s: "canonical_state L s = Inr a" and t: "canonical_state L t = Inr b"
  shows "a = b \<longleftrightarrow> same_state s t"
proof -
  from canonical_state_Inr [OF s] obtain js where js: "list_all2 (\<lambda>f j. canonical_of L (snd f) j) s js"
    "lib_dump L (tagged ''mirrors.canonical-state/v1'' (JArray (map2 field_doc s js))) = Inr a" by blast
  from canonical_state_Inr [OF t] obtain ks where ks: "list_all2 (\<lambda>f j. canonical_of L (snd f) j) t ks"
    "lib_dump L (tagged ''mirrors.canonical-state/v1'' (JArray (map2 field_doc t ks))) = Inr b" by blast
  have "a = b \<longleftrightarrow> map2 field_doc s js = map2 field_doc t ks"
  proof
    assume "a = b"
    with js(2) ks(2) laws(2) have "tagged ''mirrors.canonical-state/v1'' (JArray (map2 field_doc s js))
        = tagged ''mirrors.canonical-state/v1'' (JArray (map2 field_doc t ks))"
      unfolding dump_injective_def by blast
    then show "map2 field_doc s js = map2 field_doc t ks" by (simp only: tagged_inject Json.inject)
  qed (use js(2) ks(2) in simp)
  also have "\<dots> \<longleftrightarrow> same_state s t"
    unfolding same_state_def by (rule canonical_fields_iff [OF js(1) ks(1)]) (use canonical_iff [OF laws] in blast)
  finally show ?thesis .
qed

text \<open>Values that compare equal are the same: the documents never tell apart what \<^verbatim>\<open>Value::operator==\<close> identifies.\<close>

lemma same_value_of_eq: "sets_distinct u \<Longrightarrow> sets_distinct v \<Longrightarrow> value_eq u v \<Longrightarrow> same_value u v"
proof (induction u arbitrary: v rule: Value_induct)
  case (VSet us)
  then obtain vs where v: "v = VSet vs" using value_eq_kind(1) by metis
  have conv: "\<forall>y \<in> set vs. \<exists>x \<in> set us. value_eq y x" using value_eq_sym [OF VSet.prems(1,3)] v by simp
  have same: "same_value x y" if "x \<in> set us" "y \<in> set vs" "value_eq x y" for x y
    using that VSet v by (auto simp: list_all_iff)
  have "value_eq x y" if "y \<in> set vs" "value_eq y x" for x y
    using that value_eq_sym [of y x] VSet.prems(2) v by (auto simp: list_all_iff)
  with conv same VSet.prems(3) v show ?case by simp meson
next
  case (VSeq us)
  then obtain vs where v: "v = VSeq vs" using value_eq_kind(2) by metis
  with VSeq.prems(3) have "list_all2 value_eq us vs" by simp
  then have "list_all2 same_value us vs"
    by (rule list.rel_mono_strong) (use VSeq v in \<open>auto simp: list_all_iff\<close>)
  with v show ?case by simp
next
  case (VTuple us)
  then obtain vs where v: "v = VTuple vs" using value_eq_kind(3) by metis
  with VTuple.prems(3) have "list_all2 value_eq us vs" by simp
  then have "list_all2 same_value us vs"
    by (rule list.rel_mono_strong) (use VTuple v in \<open>auto simp: list_all_iff\<close>)
  with v show ?case by simp
next
  case (VRecord fs)
  then obtain gs where v: "v = VRecord gs" using value_eq_kind(4) by metis
  with VRecord.prems(3) have "list_all2 (\<lambda>f g. fst f = fst g \<and> value_eq (snd f) (snd g)) fs gs" by simp
  then have "list_all2 (\<lambda>f g. fst f = fst g \<and> same_value (snd f) (snd g)) fs gs"
    by (rule list.rel_mono_strong) (use VRecord v in \<open>auto simp: list_all_iff\<close>)
  with v show ?case by simp
next
  case (VMap es)
  then obtain ds where v: "v = VMap ds" using value_eq_kind(5) by metis
  let ?R = "\<lambda>e d. value_eq (fst e) (fst d) \<and> value_eq (snd e) (snd d)"
  from VMap.prems(3) v have "list_all2 ?R es ds" by simp
  then have "list_all2 (\<lambda>e d. same_value (fst e) (fst d) \<and> same_value (snd e) (snd d)) es ds"
    by (rule list.rel_mono_strong) (use VMap v in \<open>auto simp: list_all_iff\<close>)
  from list_all2_members(1) [OF this] list_all2_members(2) [OF this] show ?case unfolding v same_value_simps by blast
next
  case (VVariant t u)
  then obtain w where "v = VVariant t w" "value_eq u w" using value_eq_kind(6) by metis
  with VVariant show ?case by simp
qed (auto simp: same_value.simps)

section \<open>Properties\<close>


definition table_lib :: "(Json \<times> string) list \<Rightarrow> json_lib" where
  "table_lib tbl = (ref_lib [])\<lparr>lib_dump := \<lambda>j. case map_of tbl j of None \<Rightarrow> Inl [] | Some s \<Rightarrow> Inr s\<rparr>"

lemma table_lib_laws: "distinct (map snd tbl) \<Longrightarrow> lib_int_laws (table_lib tbl) \<and> dump_injective (table_lib tbl)"
proof
  assume "distinct (map snd tbl)"
  then have "a = b" if "(a, s) \<in> set tbl" "(b, s) \<in> set tbl" for a b s
    using that by (fastforce simp: distinct_map inj_on_def)
  then show "dump_injective (table_lib tbl)"
    by (auto simp: table_lib_def dump_injective_def split: option.splits dest!: map_of_SomeD)
  show "lib_int_laws (table_lib tbl)" using ref_lib_int_laws [of "[]"] by (simp add: table_lib_def lib_int_laws_def)
qed

definition canon_sample :: "Value list \<Rightarrow> State" where
  "canon_sample vs = [(''x'', VSet vs)]"

definition canon_sample_lib :: json_lib where
  "canon_sample_lib = table_lib
     [(tagged ''boolean'' (JBool False), ''f''), (tagged ''boolean'' (JBool True), ''t''),
      (tagged ''mirrors.canonical-state/v1'' (JArray [JArray [JString ''x'', tagged ''set'' (JArray
         [tagged ''boolean'' (JBool False), tagged ''boolean'' (JBool True)])]]), ''s'')]"

lemma canon_sample_runs:
  "canonical_state canon_sample_lib (canon_sample [VBool True, VBool False, VBool True]) = Inr ''s''"
  "canonical_state canon_sample_lib (canon_sample [VBool False, VBool True]) = Inr ''s''"
  by (simp_all add: canonical_state_def canon_sample_def canon_sample_lib_def table_lib_def canonical_value.simps canon_enter_def
      max_canonical_nodes_def canon_dump_def canon_require_def om_emplace_def tagged_def)


end
