(* ===== verification/Schedule_Exploration.thy ===== *)
theory Schedule_Exploration
  imports Schedule_Execution Schedule_Enumeration Schedule_Canonical
begin

text \<open>
  \<^verbatim>\<open>explore_finite\<close> of \<^verbatim>\<open>src/schedule_exploration.cpp\<close>: the declaration of a finite space is checked, its
  schedules are enumerated, and every schedule is run with every declared input through the runner, whose
  evidence is checked and folded into the campaign's report.

  The body of one run is state passing with exceptions, \<open>xbind\<close>: what it changed before an exception stays
  changed, as in the C++ code. The nested loops over schedules and inputs are one loop over the pairs, since
  every break of the inner one leaves the outer one too. The runner, the clock and the stop token are the
  fields of \<open>explore_env\<close>, indexed by the number of the run; \<open>explore_lib\<close> adds to the JSON parameters the
  library's equality of documents, of which \<open>json_eq_laws\<close> states what is documented.
\<close>

section \<open>Exceptions and state\<close>

datatype run_exn = LengthError string | StdError string | NonStdError

definition exn_text :: "exn \<Rightarrow> run_exn" where
  "exn_text e = (case e of JsonError w \<Rightarrow> StdError w | JsonLibError w \<Rightarrow> StdError w | BindingError c w \<Rightarrow> StdError w
     | StdException w \<Rightarrow> StdError w | NonStdException \<Rightarrow> NonStdError)"

type_synonym ('s, 'a) xstate = "'s \<Rightarrow> (run_exn + 'a) \<times> 's"

definition xbind :: "('s, 'a) xstate \<Rightarrow> ('a \<Rightarrow> ('s, 'b) xstate) \<Rightarrow> ('s, 'b) xstate" where
  "xbind m f s = (case m s of (Inl e, s') \<Rightarrow> (Inl e, s') | (Inr x, s') \<Rightarrow> f x s')"

definition xlift :: "run_exn + 'a \<Rightarrow> ('s, 'a) xstate" where
  "xlift r s = (r, s)"

definition xmodify :: "('s \<Rightarrow> 's) \<Rightarrow> ('s, unit) xstate" where
  "xmodify f s = (Inr (), f s)"

definition xget :: "('s \<Rightarrow> ('s, 'a) xstate) \<Rightarrow> ('s, 'a) xstate" where
  "xget f s = f s s"

fun xforM :: "('a \<Rightarrow> ('s, unit) xstate) \<Rightarrow> 'a list \<Rightarrow> ('s, unit) xstate" where
  "xforM f [] = xlift (Inr ())"
| "xforM f (x # xs) = xbind (f x) (\<lambda>_. xforM f xs)"

definition require_that :: "bool \<Rightarrow> string \<Rightarrow> run_exn + unit" where
  "require_that c message = (if c then Inr () else Inl (StdError message))"

section \<open>Documents\<close>

record explore_lib =
  xl_json :: json_lib
  xl_schedule :: schedule_lib
  xl_eq :: "Json \<Rightarrow> Json \<Rightarrow> bool"
  xl_type_what :: "Json \<Rightarrow> string"

text \<open>Only the same string equals a string and only the same truth value a truth value; a number equals itself.\<close>

definition json_eq_laws :: "explore_lib \<Rightarrow> bool" where
  "json_eq_laws X = ((\<forall>j s. xl_eq X j (JString s) \<longleftrightarrow> j = JString s) \<and> (\<forall>j b. xl_eq X j (JBool b) \<longleftrightarrow> j = JBool b)
     \<and> (\<forall>w. xl_eq X (JUnsigned w) (JUnsigned w)))"

definition at_key :: "explore_lib \<Rightarrow> string \<Rightarrow> Json \<Rightarrow> run_exn + Json" where
  "at_key X k j = (case jfind k j of Some v \<Rightarrow> Inr v | None \<Rightarrow> Inl (StdError (lib_at_what (xl_json X) k)))"

definition at_index :: "explore_lib \<Rightarrow> nat \<Rightarrow> Json \<Rightarrow> run_exn + Json" where
  "at_index X i j = (case j of JArray js \<Rightarrow> (if i < length js then Inr (js ! i) else Inl (StdError (xl_type_what X j)))
     | _ \<Rightarrow> Inl (StdError (xl_type_what X j)))"

definition as_string :: "explore_lib \<Rightarrow> Json \<Rightarrow> run_exn + string" where
  "as_string X j = (case j of JString s \<Rightarrow> Inr s | _ \<Rightarrow> Inl (StdError (xl_type_what X j)))"

definition jcount :: "nat \<Rightarrow> Json" where
  "jcount n = JUnsigned (of_nat n)"

definition is_text :: "explore_lib \<Rightarrow> Json \<Rightarrow> string \<Rightarrow> bool" where
  "is_text X j s = xl_eq X j (JString s)"

definition is_truth :: "explore_lib \<Rightarrow> Json \<Rightarrow> bool \<Rightarrow> bool" where
  "is_truth X j b = xl_eq X j (JBool b)"

definition set_key :: "string \<Rightarrow> Json \<Rightarrow> Json \<Rightarrow> Json" where
  "set_key k v j = (case j of JObject kvs \<Rightarrow> JObject (om_put k v kvs) | _ \<Rightarrow> jobject [(k, v)])"

section \<open>Evidence of one run\<close>

definition actor_entry :: "explore_lib \<Rightarrow> Json \<Rightarrow> string smap \<Rightarrow> run_exn + string smap" where
  "actor_entry X j m =
     rbind (require_that (is_object j \<and> jsize j = 2 \<and> jfind ''actor'' j \<noteq> None \<and> jfind ''operation'' j \<noteq> None)
       ''invalid execution actor'') (\<lambda>_.
     rbind (rbind (at_key X ''actor'' j) (as_string X)) (\<lambda>a.
     rbind (rbind (at_key X ''operation'' j) (as_string X)) (\<lambda>b.
     rbind (require_that (map_of m a = None) ''duplicate execution actor'') (\<lambda>_. Inr (om_emplace a b m)))))"

definition actor_map :: "explore_lib \<Rightarrow> Json \<Rightarrow> run_exn + string smap" where
  "actor_map X j = (case j of JArray js \<Rightarrow> rfoldM (actor_entry X) js [] | _ \<Rightarrow> Inl (StdError ''missing execution actors''))"

text \<open>The comparison of a sample, when it has one: \<open>Some\<close> category, or \<open>None\<close> when it matched.\<close>

definition comparison_category :: "explore_lib \<Rightarrow> Json \<Rightarrow> Json \<Rightarrow> run_exn + string option" where
  "comparison_category X execution comparison =
     rbind (at_key X ''schema'' comparison) (\<lambda>schema.
     rbind (require_that (is_text X schema ''mirrors.scheduled-comparison/v1'') ''invalid comparison sample'') (\<lambda>_.
     rbind (rbind (at_key X ''binding'' comparison) (at_key X ''executions'')) (\<lambda>records.
     rbind (if jsize records = 1 then rbind (at_index X 0 records) (\<lambda>r. Inr (xl_eq X r execution)) else Inr False) (\<lambda>same.
     rbind (require_that same ''comparison and schedule evidence differ'') (\<lambda>_.
     rbind (at_key X ''comparison'' comparison) (\<lambda>c.
     if is_text X c ''step_mismatch'' then
       rbind (rbind (at_key X ''passed'' comparison) (\<lambda>p.
         if is_truth X p False
         then rbind (rbind (at_key X ''client'' comparison) (at_key X ''kind'')) (\<lambda>k. Inr (is_text X k ''step_mismatch''))
         else Inr False)) (\<lambda>ok.
       rbind (require_that ok ''invalid mismatch sample'') (\<lambda>_. Inr (Some ''model_mismatch'')))
     else if \<not> is_text X c ''matched'' then Inr (Some ''comparison_failed'')
     else rbind (at_key X ''passed'' comparison) (\<lambda>p.
       Inr (if \<not> is_truth X p True then Some ''comparison_failed'' else None))))))))"

definition execution_category :: "explore_lib \<Rightarrow> Json \<Rightarrow> run_exn + string" where
  "execution_category X execution =
     rbind (at_key X ''passed'' execution) (\<lambda>p.
     if is_truth X p True then Inr ''passed''
     else rbind (rbind (at_key X ''outcome'' execution) (as_string X)) (\<lambda>outcome.
       Inr (if outcome = ''timed_out'' then ''timed_out''
            else if outcome = ''cancelled'' then ''cancelled''
            else if outcome \<in> {''unexpected_checkpoint'', ''invalid_schedule'', ''incompatible_identity''} then ''schedule_failed''
            else ''execution_failed'')))"

definition cleanup_confirmed :: "explore_lib \<Rightarrow> Json \<Rightarrow> run_exn + bool" where
  "cleanup_confirmed X execution =
     rbind (at_key X ''cleanup'' execution) (\<lambda>c.
     if is_text X c ''confirmed''
     then rbind (at_key X ''remainingActors'' execution) (\<lambda>r. Inr (jsize r = 0))
     else Inr False)"

definition run_category :: "explore_lib \<Rightarrow> Json \<Rightarrow> Json \<Rightarrow> run_exn + string" where
  "run_category X execution comparison =
     rbind (cleanup_confirmed X execution) (\<lambda>clean.
     if \<not> clean then Inr ''cleanup_failed''
     else rbind (if is_null comparison then Inr None else comparison_category X execution comparison) (\<lambda>c.
       case c of Some cat \<Rightarrow> Inr cat | None \<Rightarrow> execution_category X execution))"

definition event_matches :: "explore_lib \<Rightarrow> Json \<Rightarrow> Step list \<Rightarrow> nat \<Rightarrow> nat \<Rightarrow> run_exn + unit" where
  "event_matches X events steps i offset =
     rbind (at_index X (i * 2 + offset) events) (\<lambda>event.
     rbind (rbind (at_key X ''ordinal'' event) (\<lambda>n.
       if xl_eq X n (jcount (i * 2 + offset))
       then rbind (at_key X ''step'' event) (\<lambda>s.
         if xl_eq X s (jcount i)
         then rbind (at_key X ''actor'' event) (\<lambda>a. Inr (is_text X a (step_actor (steps ! i))))
         else Inr False)
       else Inr False)) (\<lambda>same.
     rbind (require_that same ''execution event identity differs'') (\<lambda>_.
     rbind (at_key X ''kind'' event) (\<lambda>kind.
     rbind (require_that (is_text X kind (if offset = 0 then ''permit'' else ''arrival'')) ''execution event order differs'') (\<lambda>_.
     if offset = 1
     then rbind (at_key X ''checkpoint'' event) (\<lambda>c.
       require_that (is_text X c (step_checkpoint (steps ! i))) ''execution arrival differs'')
     else Inr ())))))"

definition validate_success :: "explore_lib \<Rightarrow> Json \<Rightarrow> Step list \<Rightarrow> run_exn + unit" where
  "validate_success X execution steps =
     rbind (rbind (at_key X ''scheduleCompleted'' execution) (\<lambda>c.
       if is_truth X c True
       then rbind (at_key X ''outcome'' execution) (\<lambda>out. Inr (is_text X out ''completed'')) else Inr False)) (\<lambda>ok.
     rbind (require_that ok ''false completed schedule'') (\<lambda>_.
     rbind (at_key X ''events'' execution) (\<lambda>events.
     rbind (require_that (is_array events \<and> jsize events = length steps * 2) ''wrong accepted interval denominator'') (\<lambda>_.
     rbind (rfoldM (\<lambda>(i, offset) _. event_matches X events steps i offset)
       (concat (map (\<lambda>i. [(i, 0), (i, 1)]) [0..<length steps])) ()) (\<lambda>_.
     rbind (at_key X ''observations'' execution) (\<lambda>obs.
     require_that (jsize obs = length steps + 1) ''wrong observation denominator''))))))"

section \<open>Spaces, limits and the campaign\<close>

record FiniteSpace =
  space_identity :: Identity
  space_actors :: "ActorChain list"
  space_inputs :: "Json list"
  space_max_preemptions :: nat
  require_model_comparison :: bool
  state_variables :: "string list"
  instrumentation_variables :: "string list"

record ExplorationLimits =
  max_enumerated_schedules :: nat
  max_runs :: nat
  time_budget :: int
  max_evidence_bytes :: nat

text \<open>\<open>xe_head n\<close> is the reason that ends the campaign before run \<open>n\<close> (the stop token or the clock), \<open>xe_limit n\<close>
  the reason that is read again once the run limit is reached, \<open>xe_late n\<close> whether the deadline has passed after
  run \<open>n\<close>.\<close>

record explore_env =
  xe_poll :: "nat \<Rightarrow> string option"
  xe_head :: "nat \<Rightarrow> string option"
  xe_limit :: "nat \<Rightarrow> string"
  xe_late :: "nat \<Rightarrow> bool"
  xe_has_runner :: bool
  xe_runner :: "nat \<Rightarrow> Schedule \<Rightarrow> run_exn + Json \<times> Json"

record Campaign =
  cm_attempted :: nat
  cm_completed :: nat
  cm_bytes :: nat
  cm_coverage_bytes :: nat
  cm_comparison_runs :: nat
  cm_halt :: bool
  cm_stop_reason :: string
  cm_states :: "nat smap"
  cm_state_rows :: "Json list"
  cm_transitions :: "((nat \<times> nat) \<times> nat) list"
  cm_executions :: "string list"
  cm_runs :: "Json list"
  cm_categories :: "nat smap"
  cm_counterexample :: "Json option"
  cm_failure :: "Json option"
  cm_comparison :: string
  run_row :: Json
  run_disposition :: string
  run_cleanup_known :: bool
  run_prior :: "nat option"

definition coverage_limit :: nat where
  "coverage_limit = 8 * 1048576"

fun edge_less :: "nat \<times> nat \<Rightarrow> nat \<times> nat \<Rightarrow> bool" where
  "edge_less (a, b) (c, d) = (a < c \<or> a = c \<and> b < d)"

text \<open>\<^verbatim>\<open>++transitions[edge]\<close> on the ordered map.\<close>

fun edge_bump :: "nat \<times> nat \<Rightarrow> ((nat \<times> nat) \<times> nat) list \<Rightarrow> ((nat \<times> nat) \<times> nat) list" where
  "edge_bump e [] = [(e, 1)]"
| "edge_bump e ((f, c) # m) =
     (if e = f then (f, c + 1) # m else if edge_less e f then (e, 1) # (f, c) # m else (f, c) # edge_bump e m)"

definition charge_coverage :: "nat \<Rightarrow> (Campaign, unit) xstate" where
  "charge_coverage n = xget (\<lambda>c.
     if cm_coverage_bytes c + n > coverage_limit then xlift (Inl (LengthError ''coverage byte bound exceeded''))
     else xmodify (\<lambda>c. c\<lparr>cm_coverage_bytes := cm_coverage_bytes c + n\<rparr>))"

text \<open>\<^verbatim>\<open>states.emplace(canonical, states.size())\<close> and the row of a new state.\<close>

definition intern_state :: "explore_lib \<Rightarrow> string \<Rightarrow> (Campaign, nat) xstate" where
  "intern_state X canonical = xget (\<lambda>c. case map_of (cm_states c) canonical of
     Some n \<Rightarrow> xlift (Inr n)
   | None \<Rightarrow>
       xbind (charge_coverage (length canonical + 128)) (\<lambda>_.
       let n = length (cm_states c) in
       xbind (xmodify (\<lambda>c. c\<lparr>cm_states := om_put canonical n (cm_states c)\<rparr>)) (\<lambda>_.
       xbind (xlift (case lib_parse (xl_json X) canonical of
           Inr j \<Rightarrow> Inr j | Inl (ParseError w) \<Rightarrow> Inl (StdError w) | Inl (NumberRange w) \<Rightarrow> Inl (StdError w))) (\<lambda>doc.
       xbind (xmodify (\<lambda>c. c\<lparr>cm_state_rows := cm_state_rows c @ [jobject [(''id'', jcount n), (''canonical'', doc)]]\<rparr>)) (\<lambda>_.
       xlift (Inr n))))))"

definition count_transition :: "nat \<Rightarrow> (Campaign, unit) xstate" where
  "count_transition n = xget (\<lambda>c. case run_prior c of
     None \<Rightarrow> xlift (Inr ())
   | Some p \<Rightarrow>
       xbind (if map_of (cm_transitions c) (p, n) = None then charge_coverage 128 else xlift (Inr ())) (\<lambda>_.
       xmodify (\<lambda>c. c\<lparr>cm_transitions := edge_bump (p, n) (cm_transitions c)\<rparr>)))"

definition project_state :: "FiniteSpace \<Rightarrow> State \<Rightarrow> run_exn + State" where
  "project_state space st =
     rbind (require_that (length st = length (state_variables space) + length (instrumentation_variables space))
       ''observation projection omits or adds fields'') (\<lambda>_.
     rbind (require_that (list_all (\<lambda>k. map_of st k \<noteq> None) (instrumentation_variables space))
       ''declared instrumentation variable absent'') (\<lambda>_.
     let base = filter (\<lambda>kv. fst kv \<notin> set (instrumentation_variables space)) st in
     rbind (require_that (list_all (\<lambda>k. map_of base k \<noteq> None) (state_variables space)) ''base observation variable absent'') (\<lambda>_.
     Inr base)))"

definition lift_exn :: "exn + 'a \<Rightarrow> run_exn + 'a" where
  "lift_exn r = (case r of Inl e \<Rightarrow> Inl (exn_text e) | Inr x \<Rightarrow> Inr x)"

definition observation_state :: "explore_lib \<Rightarrow> FiniteSpace \<Rightarrow> Json \<Rightarrow> nat \<Rightarrow> run_exn + string" where
  "observation_state X space execution i =
     rbind (rbind (at_key X ''observations'' execution) (at_index X i)) (\<lambda>obs.
     rbind (at_key X ''afterSteps'' obs) (\<lambda>after.
     rbind (require_that (xl_eq X after (jcount i)) ''observation position differs'') (\<lambda>_.
     rbind (at_key X ''state'' obs) (\<lambda>j.
     rbind (lift_exn (decode_state (xl_json X) j)) (\<lambda>st.
     rbind (project_state space st) (\<lambda>base. lift_exn (canonical_state (xl_json X) base)))))))"

definition record_observation :: "explore_lib \<Rightarrow> FiniteSpace \<Rightarrow> Json \<Rightarrow> nat \<Rightarrow> (Campaign, unit) xstate" where
  "record_observation X space execution i =
     xbind (xlift (observation_state X space execution i)) (\<lambda>canonical.
     xbind (intern_state X canonical) (\<lambda>n.
     xbind (count_transition n) (\<lambda>_.
     xmodify (\<lambda>c. c\<lparr>run_prior := Some n\<rparr>))))"

section \<open>One run\<close>

definition execution_id_ok :: "string \<Rightarrow> bool" where
  "execution_id_ok eid = (length eid = 32 \<and> list_all is_lower_hex eid)"

text \<open>\<open>schedule\<close> is the document \<^verbatim>\<open>row.at("schedule")\<close>.\<close>

definition check_binding :: "explore_lib \<Rightarrow> string smap \<Rightarrow> Json \<Rightarrow> Json \<Rightarrow> run_exn + string" where
  "check_binding X declarations schedule execution =
     rbind (rbind (at_key X ''schema'' execution) (\<lambda>schema.
       if is_text X schema receipt_schema
       then rbind (at_key X ''schedule'' execution) (\<lambda>s. Inr (xl_eq X s schedule))
       else Inr False)) (\<lambda>bound.
     rbind (require_that bound ''runner evidence is not bound to the selected schedule'') (\<lambda>_.
     rbind (rbind (at_key X ''actors'' execution) (actor_map X)) (\<lambda>actors.
     rbind (require_that (actors = declarations) ''runner actor declarations differ'') (\<lambda>_.
     rbind (at_key X ''executionId'' execution) (as_string X)))))"

definition put_row :: "string \<Rightarrow> Json \<Rightarrow> (Campaign, unit) xstate" where
  "put_row k v = xmodify (\<lambda>c. c\<lparr>run_row := set_key k v (run_row c)\<rparr>)"

definition row_failure :: "nat \<Rightarrow> string \<Rightarrow> Json \<Rightarrow> Json" where
  "row_failure n disposition schedule =
     jobject [(''ordinal'', jcount n), (''category'', JString disposition), (''schedule'', schedule)]"

definition account_run :: "explore_lib \<Rightarrow> FiniteSpace \<Rightarrow> Step list \<Rightarrow> Json \<Rightarrow> Json \<Rightarrow> (Campaign, unit) xstate" where
  "account_run X space steps schedule execution = xget (\<lambda>c.
     if run_disposition c = ''passed'' then
       xbind (xlift (validate_success X execution steps)) (\<lambda>_.
       xbind (xmodify (\<lambda>c. c\<lparr>run_prior := None\<rparr>)) (\<lambda>_.
       xbind (xforM (record_observation X space execution) [0..<length steps + 1]) (\<lambda>_.
       xmodify (\<lambda>c. c\<lparr>cm_completed := cm_completed c + 1\<rparr>))))
     else if run_disposition c = ''model_mismatch'' \<and> cm_counterexample c = None then
       xmodify (\<lambda>c. c\<lparr>cm_counterexample := Some (row_failure (cm_attempted c - 1) (run_disposition c) schedule)\<rparr>)
     else xlift (Inr ()))"

definition examine_sample ::
  "explore_lib \<Rightarrow> FiniteSpace \<Rightarrow> string smap \<Rightarrow> Step list \<Rightarrow> Json \<Rightarrow> Json \<times> Json \<Rightarrow> (Campaign, unit) xstate" where
  "examine_sample X space declarations steps schedule sample = (case sample of (execution, comparison) \<Rightarrow>
     xbind (put_row ''execution'' execution) (\<lambda>_.
     xbind (if is_null comparison then xlift (Inr ()) else put_row ''comparison'' comparison) (\<lambda>_.
     xget (\<lambda>c.
     xbind (xlift (check_binding X declarations schedule execution)) (\<lambda>eid.
     xbind (xlift (require_that (execution_id_ok eid \<and> eid \<notin> set (cm_executions c)) ''invalid or duplicate execution identity'')) (\<lambda>_.
     xbind (xmodify (\<lambda>c. c\<lparr>cm_executions := eid # cm_executions c\<rparr>)) (\<lambda>_.
     xbind (xlift (cleanup_confirmed X execution)) (\<lambda>clean.
     xbind (xmodify (\<lambda>c. c\<lparr>run_cleanup_known := clean\<rparr>)) (\<lambda>_.
     xbind (xlift (run_category X execution comparison)) (\<lambda>cat.
     xbind (xmodify (\<lambda>c. c\<lparr>run_disposition :=
       if require_model_comparison space \<and> is_null comparison then ''comparison_missing'' else cat\<rparr>)) (\<lambda>_.
     xbind (put_row ''execution'' execution) (\<lambda>_.
     xbind (if is_null comparison then xlift (Inr ())
            else xbind (xmodify (\<lambda>c. c\<lparr>cm_comparison_runs := cm_comparison_runs c + 1\<rparr>)) (\<lambda>_.
                 xbind (put_row ''comparison'' comparison) (\<lambda>_.
                 xmodify (\<lambda>c. c\<lparr>cm_comparison := ''requested''\<rparr>)))) (\<lambda>_.
     account_run X space steps schedule execution)))))))))))))"

text \<open>The handlers around the body of a run.\<close>

definition catch_run :: "(run_exn + unit) \<times> Campaign \<Rightarrow> Campaign" where
  "catch_run r = (case r of
     (Inr _, c) \<Rightarrow> c
   | (Inl (LengthError what), c) \<Rightarrow>
       c\<lparr>run_disposition := ''coverage_failed'', run_row := set_key ''error'' (JString what) (run_row c),
         cm_stop_reason := ''coverage_limit'', cm_halt := True\<rparr>
   | (Inl (StdError what), c) \<Rightarrow>
       c\<lparr>run_disposition := ''runner_or_evidence_failed'', run_row := set_key ''error'' (JString (take 1024 what)) (run_row c)\<rparr>
   | (Inl NonStdError, c) \<Rightarrow>
       c\<lparr>run_disposition := ''runner_or_evidence_failed'',
         run_row := set_key ''error'' (JString ''nonstandard runner failure'') (run_row c)\<rparr>)"

definition classify_run :: "Json \<Rightarrow> Campaign \<Rightarrow> Campaign" where
  "classify_run schedule c =
     (let d = run_disposition c in
      c\<lparr>run_row := set_key ''category'' (JString d) (run_row c),
        cm_failure := (if d \<noteq> ''passed'' \<and> cm_failure c = None then Some (row_failure (cm_attempted c - 1) d schedule) else cm_failure c),
        cm_categories := om_put d (case map_of (cm_categories c) d of None \<Rightarrow> 1 | Some n \<Rightarrow> n + 1) (cm_categories c)\<rparr>)"

text \<open>Keeping the evidence of a run within the byte budget, then the reasons to stop the campaign.\<close>

definition retain_run :: "ExplorationLimits \<Rightarrow> bool \<Rightarrow> nat \<Rightarrow> Campaign \<Rightarrow> Campaign" where
  "retain_run limits late row_bytes c =
     (if row_bytes > max_evidence_bytes limits - min (cm_bytes c) (max_evidence_bytes limits)
      then c\<lparr>cm_runs := cm_runs c @ [jobject [(''ordinal'', jcount (cm_attempted c - 1)), (''category'', JString (run_disposition c)),
               (''evidenceOmitted'', JString ''byte_budget'')]],
             cm_stop_reason := ''evidence_limit'', cm_halt := True\<rparr>
      else
        let kept = c\<lparr>cm_bytes := cm_bytes c + row_bytes, cm_runs := cm_runs c @ [run_row c]\<rparr> in
        if cm_halt kept then kept
        else if \<not> run_cleanup_known kept then kept\<lparr>cm_stop_reason := ''unconfirmed_cleanup'', cm_halt := True\<rparr>
        else if late then kept\<lparr>cm_stop_reason := ''time_budget'', cm_halt := True\<rparr>
        else kept)"

definition candidate :: "FiniteSpace \<Rightarrow> Step list \<times> nat \<Rightarrow> Schedule" where
  "candidate space p = \<lparr> scheduling_profile = profile, sched_identity = space_identity space,
     sched_inputs = space_inputs space ! snd p, sched_steps = fst p \<rparr>"

definition begin_run :: "nat \<Rightarrow> Json \<Rightarrow> Campaign \<Rightarrow> Campaign" where
  "begin_run input_index schedule c =
     c\<lparr>run_row := jobject [(''ordinal'', jcount (cm_attempted c)), (''inputIndex'', jcount input_index), (''schedule'', schedule)],
       cm_attempted := cm_attempted c + 1, run_disposition := [], run_cleanup_known := False\<rparr>"

definition run_body :: "explore_lib \<Rightarrow> FiniteSpace \<Rightarrow> string smap \<Rightarrow> Schedule \<Rightarrow> Json \<Rightarrow> (run_exn + Json \<times> Json) \<Rightarrow> Campaign \<Rightarrow> Campaign" where
  "run_body X space declarations sched schedule sample c =
     catch_run (xbind (xlift sample) (examine_sample X space declarations (sched_steps sched) schedule) c)"

text \<open>One pass of the loop body behind its guard. An exception outside the inner handlers ends the campaign.\<close>

definition explore_run ::
  "explore_lib \<Rightarrow> explore_env \<Rightarrow> FiniteSpace \<Rightarrow> ExplorationLimits \<Rightarrow> string smap \<Rightarrow> Step list \<times> nat \<Rightarrow> Campaign
    \<Rightarrow> string \<times> Campaign + Campaign" where
  "explore_run X env space limits declarations p c =
     (let sched = candidate space p in
      case rbind (encode_schedule (xl_schedule X) sched) (\<lambda>artifact. snd (sl_parse (xl_schedule X) artifact)) of
        Inl what \<Rightarrow> Inl (what, c)
      | Inr schedule \<Rightarrow>
          let ran = classify_run schedule
            (run_body X space declarations sched schedule (xe_runner env (cm_attempted c) sched) (begin_run (snd p) schedule c)) in
          (case lib_dump (xl_json X) (run_row ran) of
             Inl what \<Rightarrow> Inl (what, ran)
           | Inr bytes \<Rightarrow> Inr (retain_run limits (xe_late env (cm_attempted c)) (length bytes) ran)))"

fun explore_loop ::
  "explore_lib \<Rightarrow> explore_env \<Rightarrow> FiniteSpace \<Rightarrow> ExplorationLimits \<Rightarrow> string smap \<Rightarrow> (Step list \<times> nat) list \<Rightarrow> Campaign
    \<Rightarrow> string \<times> Campaign + Campaign" where
  "explore_loop X env space limits declarations [] c = Inr c"
| "explore_loop X env space limits declarations (p # ps) c =
     (case xe_head env (cm_attempted c) of
        Some reason \<Rightarrow> Inr (c\<lparr>cm_stop_reason := reason, cm_halt := True\<rparr>)
      | None \<Rightarrow>
          (if cm_attempted c \<ge> max_runs limits
           then Inr (c\<lparr>cm_stop_reason := xe_limit env (cm_attempted c), cm_halt := True\<rparr>)
           else case explore_run X env space limits declarations p c of
             Inl failed \<Rightarrow> Inl failed
           | Inr c' \<Rightarrow> (if cm_halt c' then Inr c' else explore_loop X env space limits declarations ps c')))"

section \<open>The declaration of a space\<close>

definition chain_ok :: "ActorChain \<Rightarrow> string smap \<Rightarrow> string + string smap" where
  "chain_ok a declarations =
     (let name = chain_name a; cps = chain_checkpoints a in
      if \<not> (schedule_identifier name \<and> schedule_identifier (decl_operation (chain_actor a)) \<and> map_of declarations name = None)
      then Inl ''duplicate/invalid exploration actor''
      else if cps = [] \<or> last cps \<noteq> completion then Inl ''actor chain needs terminal completion''
      else if \<not> list_all schedule_identifier (butlast cps) then Inl ''invalid actor chain checkpoint''
      else Inr (om_emplace name (decl_operation (chain_actor a)) declarations))"

definition chain_steps :: "ActorChain \<Rightarrow> Step list" where
  "chain_steps a = map (\<lambda>cp. \<lparr> step_actor = chain_name a, step_checkpoint = cp \<rparr>) (chain_checkpoints a)"

definition check_input :: "explore_lib \<Rightarrow> Schedule \<Rightarrow> Json \<Rightarrow> string list \<Rightarrow> string + string list" where
  "check_input X check input keys =
     rbind (encode_schedule (xl_schedule X) (check\<lparr>sched_inputs := input\<rparr>)) (\<lambda>_.
     rbind (lib_dump (xl_json X) input) (\<lambda>d.
     if length d > 65535 then Inl ''exploration input exceeds byte bound''
     else if d \<in> set keys then Inl ''duplicate declared input assignment''
     else Inr (d # keys)))"

definition limits_ok :: "FiniteSpace \<Rightarrow> ExplorationLimits \<Rightarrow> bool" where
  "limits_ok space limits =
     (space_max_preemptions space \<le> 64 \<and> 0 < max_enumerated_schedules limits \<and> max_enumerated_schedules limits \<le> 4096
      \<and> max_runs limits \<le> 65536 \<and> 0 < time_budget limits \<and> time_budget limits \<le> 24 * 3600000
      \<and> 0 < max_evidence_bytes limits \<and> max_evidence_bytes limits \<le> 64 * 1048576)"

definition variables_check :: "FiniteSpace \<Rightarrow> string + unit" where
  "variables_check space =
     (let vs = state_variables space; is = instrumentation_variables space in
      if \<not> (vs \<noteq> [] \<and> length vs \<le> 1024 \<and> length is \<le> 1024) then Inl ''bounded base observation variables required''
      else if \<not> (list_all schedule_identifier vs \<and> distinct vs) then Inl ''duplicate/invalid state variable''
      else if \<not> (list_all (\<lambda>k. schedule_identifier k \<and> k \<notin> set vs) is \<and> distinct is) then Inl ''invalid instrumentation projection''
      else Inr ())"

definition sorted_actors :: "FiniteSpace \<Rightarrow> ActorChain list" where
  "sorted_actors space = sort_key chain_name (space_actors space)"

definition check_space :: "explore_lib \<Rightarrow> bool \<Rightarrow> FiniteSpace \<Rightarrow> ExplorationLimits \<Rightarrow> string + string smap" where
  "check_space X has_runner space limits =
     (let actors = sorted_actors space in
      if \<not> has_runner then Inl ''missing exploration runner''
      else if \<not> (space_actors space \<noteq> [] \<and> length (space_actors space) \<le> 8 \<and> space_inputs space \<noteq> [] \<and> length (space_inputs space) \<le> 64)
      then Inl ''finite actor/input bound exceeded''
      else if \<not> limits_ok space limits then Inl ''invalid exploration limits''
      else
        rbind (rfoldM chain_ok actors []) (\<lambda>declarations.
        if total_steps actors > 64 then Inl ''exploration step bound exceeded''
        else
          rbind (rfoldM (check_input X \<lparr> scheduling_profile = profile, sched_identity = space_identity space,
              sched_inputs = JObject [], sched_steps = concat (map chain_steps actors) \<rparr>) (space_inputs space) []) (\<lambda>_.
          rbind (variables_check space) (\<lambda>_. Inr declarations))))"

section \<open>The report\<close>

record Exploration =
  xr_status :: string
  xr_stop_reason :: string
  xr_error :: "string option"
  xr_complete :: bool
  xr_enumeration_exhausted :: bool
  xr_denominator_known :: bool
  xr_shapes :: "nat option"
  xr_attempted :: nat
  xr_completed :: nat
  xr_comparison_runs :: nat
  xr_transitions :: "Json list"
  xr_campaign :: Campaign

definition campaign_start :: "string \<Rightarrow> Campaign" where
  "campaign_start reason =
     \<lparr> cm_attempted = 0, cm_completed = 0, cm_bytes = 0, cm_coverage_bytes = 0, cm_comparison_runs = 0, cm_halt = False,
       cm_stop_reason = reason, cm_states = [], cm_state_rows = [], cm_transitions = [], cm_executions = [], cm_runs = [],
       cm_categories = [], cm_counterexample = None, cm_failure = None, cm_comparison = ''not_requested'',
       run_row = JNull, run_disposition = [], run_cleanup_known = False, run_prior = None \<rparr>"

definition invalid_report :: "string \<Rightarrow> bool \<Rightarrow> nat option \<Rightarrow> Campaign \<Rightarrow> Exploration" where
  "invalid_report what known shapes c =
     \<lparr> xr_status = ''invalid_declaration'', xr_stop_reason = ''invalid_declaration'', xr_error = Some (take 1024 what),
       xr_complete = False, xr_enumeration_exhausted = False, xr_denominator_known = known, xr_shapes = shapes,
       xr_attempted = 0, xr_completed = 0, xr_comparison_runs = 0, xr_transitions = [], xr_campaign = c \<rparr>"

definition transition_json :: "(nat \<times> nat) \<times> nat \<Rightarrow> Json" where
  "transition_json t = jobject [(''from'', jcount (fst (fst t))), (''to'', jcount (snd (fst t))), (''count'', jcount (snd t))]"

definition final_report :: "Enumeration \<Rightarrow> nat \<Rightarrow> Campaign \<Rightarrow> Exploration" where
  "final_report en eligible c =
     (let exhausted = enum_exhausted en \<and> cm_attempted c = eligible;
          complete = exhausted \<and> cm_completed c = eligible \<and> \<not> cm_halt c in
      \<lparr> xr_status = (if complete then ''complete'' else ''incomplete''),
        xr_stop_reason = (if cm_stop_reason c = [] then (if cm_completed c = eligible then ''complete'' else ''non_pass_runs'')
          else cm_stop_reason c),
        xr_error = None, xr_complete = complete, xr_enumeration_exhausted = exhausted, xr_denominator_known = enum_exhausted en,
        xr_shapes = Some (length (enum_schedules en)), xr_attempted = cm_attempted c, xr_completed = cm_completed c,
        xr_comparison_runs = cm_comparison_runs c, xr_transitions = map transition_json (cm_transitions c), xr_campaign = c \<rparr>)"

definition run_pairs :: "Step list list \<Rightarrow> nat \<Rightarrow> (Step list \<times> nat) list" where
  "run_pairs schedules inputs = concat (map (\<lambda>steps. map (Pair steps) [0..<inputs]) schedules)"

definition space_search :: "explore_env \<Rightarrow> FiniteSpace \<Rightarrow> ExplorationLimits \<Rightarrow> enum_env" where
  "space_search env space limits =
     \<lparr> env_actors = sorted_actors space, env_max_preemptions = space_max_preemptions space,
       env_cap = max_enumerated_schedules limits, env_poll = xe_poll env \<rparr>"

definition explore_finite :: "explore_lib \<Rightarrow> explore_env \<Rightarrow> FiniteSpace \<Rightarrow> ExplorationLimits \<Rightarrow> Exploration" where
  "explore_finite X env space limits =
     (case check_space X (xe_has_runner env) space limits of
        Inl what \<Rightarrow> invalid_report what False None (campaign_start [])
      | Inr declarations \<Rightarrow>
          let en = enumerate_schedules (space_search env space limits);
              pairs = run_pairs (enum_schedules en) (length (space_inputs space)) in
          (case explore_loop X env space limits declarations pairs (campaign_start (enum_stop_reason en)) of
             Inl (what, c) \<Rightarrow> invalid_report what (enum_exhausted en) (Some (length (enum_schedules en))) c
           | Inr c \<Rightarrow> final_report en (length (enum_schedules en) * length (space_inputs space)) c))"

text \<open>The JSON document of a report; \<open>elapsed\<close> is the time on the clock.\<close>

definition count_or_null :: "nat option \<Rightarrow> Json" where
  "count_or_null n = (case n of None \<Rightarrow> JNull | Some k \<Rightarrow> jcount k)"

definition limits_json :: "ExplorationLimits \<Rightarrow> Json" where
  "limits_json l = jobject [(''maxEnumeratedSchedules'', jcount (max_enumerated_schedules l)), (''maxRuns'', jcount (max_runs l)),
     (''timeBudgetMs'', JInteger (of_int (time_budget l))), (''maxEvidenceBytes'', jcount (max_evidence_bytes l))]"

definition exploration_profile :: string where
  "exploration_profile = ''mirrorcpp.finite-checkpoint-exploration/v1''"

definition exploration_json :: "FiniteSpace \<Rightarrow> ExplorationLimits \<Rightarrow> int \<Rightarrow> Exploration \<Rightarrow> Json" where
  "exploration_json space limits elapsed r =
     (let c = xr_campaign r; eligible = (\<lambda>n. n * length (space_inputs space)) in
      jobject ([(''schema'', JString ''mirrors.finite-exploration/v1''), (''profile'', JString exploration_profile),
        (''complete'', JBool (xr_complete r)), (''enumerationExhausted'', JBool (xr_enumeration_exhausted r)),
        (''denominatorKnown'', JBool (xr_denominator_known r)),
        (''eligibleRuns'', count_or_null (if xr_denominator_known r then map_option eligible (xr_shapes r) else None)),
        (''attemptedRuns'', jcount (xr_attempted r)), (''completedRuns'', jcount (xr_completed r)), (''runs'', JArray (cm_runs c)),
        (''states'', JArray (cm_state_rows c)), (''transitions'', JArray (xr_transitions r)),
        (''categories'', JObject (map (\<lambda>kv. (fst kv, jcount (snd kv))) (cm_categories c))),
        (''firstCounterexample'', case cm_counterexample c of None \<Rightarrow> JNull | Some j \<Rightarrow> j),
        (''firstFailure'', case cm_failure c of None \<Rightarrow> JNull | Some j \<Rightarrow> j), (''por'', JString ''disabled''),
        (''projection'', jobject [(''baseVariables'', JArray (map JString (state_variables space))),
           (''instrumentationVariables'', JArray (map JString (instrumentation_variables space)))]),
        (''comparison'', JString (cm_comparison c)), (''comparisonRequired'', JBool (require_model_comparison space)),
        (''comparisonRuns'', jcount (xr_comparison_runs r))]
      @ (case xr_shapes r of None \<Rightarrow> [] | Some n \<Rightarrow>
        [(''enumeratedScheduleShapes'', jcount n), (''inputAssignments'', jcount (length (space_inputs space))),
         (''maxPreemptions'', jcount (space_max_preemptions space)), (''declaredInputs'', JArray (space_inputs space)),
         (''limits'', limits_json limits), (''eligibleRunsLowerBound'', jcount (eligible n))])
      @ [(''stopReason'', JString (xr_stop_reason r)), (''status'', JString (xr_status r))]
      @ opt_field ''error'' JString (xr_error r) @ [(''elapsedMs'', JInteger (of_int elapsed))]))"

text \<open>The sample of a run that was compared with the model.\<close>

definition comparison_sample :: "explore_lib \<Rightarrow> Json \<Rightarrow> run_exn + Json \<times> Json" where
  "comparison_sample X evidence =
     rbind (rbind (at_key X ''binding'' evidence) (at_key X ''executions'')) (\<lambda>executions.
     rbind (require_that (is_array executions \<and> jsize executions = 1) ''exploration comparison needs exactly one execution'') (\<lambda>_.
     rbind (at_index X 0 executions) (\<lambda>e. Inr (e, evidence))))"

section \<open>Reasoning about runs\<close>

text \<open>Weakest preconditions of the state passing part: \<open>Q\<close> after a normal end, \<open>R\<close> after an exception.\<close>

definition xwp :: "('s, 'a) xstate \<Rightarrow> ('a \<Rightarrow> 's \<Rightarrow> bool) \<Rightarrow> (run_exn \<Rightarrow> 's \<Rightarrow> bool) \<Rightarrow> 's \<Rightarrow> bool" where
  "xwp m Q R s = (case m s of (Inl e, s') \<Rightarrow> R e s' | (Inr x, s') \<Rightarrow> Q x s')"

lemma xwp_xbind [simp]: "xwp (xbind m f) Q R s = xwp m (\<lambda>x. xwp (f x) Q R) R s"
  by (simp add: xwp_def xbind_def split: prod.split sum.split)

lemma xwp_xlift [simp]: "xwp (xlift r) Q R s = wp r (\<lambda>x. Q x s) (\<lambda>e. R e s)"
  by (simp add: xwp_def xlift_def wp_def split: sum.split)

lemma xwp_xmodify [simp]: "xwp (xmodify f) Q R s = Q () (f s)"
  by (simp add: xwp_def xmodify_def)

lemma xwp_xget [simp]: "xwp (xget f) Q R s = xwp (f s) Q R s"
  by (simp add: xwp_def xget_def)

lemma xwp_if [simp]: "xwp (if b then m else n) Q R s = (if b then xwp m Q R s else xwp n Q R s)"
  by simp

lemma xwp_mono:
  "xwp m Q R s \<Longrightarrow> (\<And>x t. Q x t \<Longrightarrow> Q' x t) \<Longrightarrow> (\<And>e t. R e t \<Longrightarrow> R' e t) \<Longrightarrow> xwp m Q' R' s"
  by (auto simp: xwp_def split: prod.splits sum.splits)

lemma xwp_xforM:
  assumes "\<And>x t. x \<in> set xs \<Longrightarrow> I t \<Longrightarrow> xwp (f x) (\<lambda>_. I) (\<lambda>_. I) t" "I s"
  shows "xwp (xforM f xs) (\<lambda>_. I) (\<lambda>_. I) s"
  using assms
proof (induction xs arbitrary: s)
  case (Cons x xs)
  have step: "xwp (f x) (\<lambda>_. I) (\<lambda>_. I) s" using Cons.prems by simp
  show ?case unfolding xforM.simps xwp_xbind
    by (rule xwp_mono [OF step]) (use Cons in auto)
qed simp

text \<open>The fields that the evidence of one run leaves alone.\<close>

definition same_run :: "Campaign \<Rightarrow> Campaign \<Rightarrow> bool" where
  "same_run c c' =
     (cm_attempted c' = cm_attempted c \<and> cm_completed c' = cm_completed c \<and> cm_bytes c' = cm_bytes c \<and> cm_runs c' = cm_runs c
      \<and> cm_halt c' = cm_halt c \<and> run_cleanup_known c' = run_cleanup_known c \<and> run_disposition c' = run_disposition c
      \<and> run_row c' = run_row c \<and> cm_executions c' = cm_executions c)"

definition coverage_ok :: "Campaign \<Rightarrow> bool" where
  "coverage_ok c = (cm_coverage_bytes c \<le> coverage_limit)"

lemma same_run_refl [simp]: "same_run c c"
  by (simp add: same_run_def)

lemma wp_top: "(\<And>x. Q x) \<Longrightarrow> (\<And>e. E e) \<Longrightarrow> wp r Q E"
  by (cases r) simp_all

lemma charge_coverage_wp:
  "xwp (charge_coverage n) (\<lambda>_ t. t = c\<lparr>cm_coverage_bytes := cm_coverage_bytes c + n\<rparr> \<and> coverage_ok t) (\<lambda>_ t. t = c) c"
  by (simp add: charge_coverage_def coverage_ok_def)

lemma record_observation_wp:
  assumes "same_run c d" "coverage_ok d"
  shows "xwp (record_observation X space execution i) (\<lambda>_ t. same_run c t \<and> coverage_ok t) (\<lambda>_ t. same_run c t \<and> coverage_ok t) d"
proof -
  let ?I = "\<lambda>t. same_run c t \<and> coverage_ok t"
  have charge: "xwp (charge_coverage n) (\<lambda>_. ?I) (\<lambda>_. ?I) t" if "?I t" for n t
    using that by (intro xwp_mono [OF charge_coverage_wp [of n t]]) (auto simp: same_run_def)
  have intern: "xwp (intern_state X canonical) (\<lambda>_. ?I) (\<lambda>_. ?I) t" if "?I t" for canonical t
  proof (cases "map_of (cm_states t) canonical")
    case None
    show ?thesis
      unfolding intern_state_def using None
      by (auto simp: Let_def intro!: xwp_mono [OF charge [OF that]] wp_top) (auto simp: same_run_def coverage_ok_def)
  qed (use that in \<open>simp add: intern_state_def\<close>)
  have count: "xwp (count_transition n) (\<lambda>_. ?I) (\<lambda>_. ?I) t" if "?I t" for n t
  proof (cases "run_prior t")
    case (Some p)
    show ?thesis
    proof (cases "map_of (cm_transitions t) (p, n)")
      case None
      show ?thesis unfolding count_transition_def using Some None
        by (auto intro!: xwp_mono [OF charge [OF that]]) (auto simp: same_run_def coverage_ok_def)
    qed (use Some that in \<open>auto simp: count_transition_def same_run_def coverage_ok_def\<close>)
  qed (use that in \<open>simp add: count_transition_def\<close>)
  show ?thesis unfolding record_observation_def
    using assms by (auto intro!: wp_top xwp_mono [OF intern] xwp_mono [OF count]) (auto simp: same_run_def coverage_ok_def)
qed

definition accepted_run ::
  "explore_lib \<Rightarrow> FiniteSpace \<Rightarrow> string smap \<Rightarrow> Step list \<Rightarrow> Json \<Rightarrow> run_exn + Json \<times> Json \<Rightarrow> bool" where
  "accepted_run X space declarations steps schedule sample =
     (\<exists>execution comparison eid. sample = Inr (execution, comparison)
        \<and> check_binding X declarations schedule execution = Inr eid \<and> execution_id_ok eid
        \<and> cleanup_confirmed X execution = Inr True \<and> run_category X execution comparison = Inr ''passed''
        \<and> (require_model_comparison space \<longrightarrow> \<not> is_null comparison) \<and> validate_success X execution steps = Inr ())"

definition clean_run :: "explore_lib \<Rightarrow> run_exn + Json \<times> Json \<Rightarrow> bool" where
  "clean_run X sample = (\<exists>execution comparison. sample = Inr (execution, comparison) \<and> cleanup_confirmed X execution = Inr True)"

text \<open>The outcome of the body: the counters move only for an accepted run, and the cleanup is known only when the
  evidence confirms it.\<close>

definition body_failed :: "bool \<Rightarrow> Campaign \<Rightarrow> Campaign \<Rightarrow> bool" where
  "body_failed clean c c' =
     (cm_attempted c' = cm_attempted c \<and> cm_bytes c' = cm_bytes c \<and> cm_runs c' = cm_runs c \<and> coverage_ok c'
      \<and> (run_cleanup_known c' \<longrightarrow> clean) \<and> cm_completed c' = cm_completed c)"

definition body_outcome :: "bool \<Rightarrow> bool \<Rightarrow> Campaign \<Rightarrow> Campaign \<Rightarrow> bool" where
  "body_outcome accepted clean c c' =
     (cm_attempted c' = cm_attempted c \<and> cm_bytes c' = cm_bytes c \<and> cm_runs c' = cm_runs c \<and> coverage_ok c'
      \<and> (run_cleanup_known c' \<longrightarrow> clean)
      \<and> (cm_completed c' = cm_completed c
         \<or> cm_completed c' = cm_completed c + 1 \<and> accepted \<and> run_disposition c' = ''passed'' \<and> cm_halt c' = cm_halt c))"

lemma account_run_wp:
  assumes c: "coverage_ok c" "run_cleanup_known c \<longrightarrow> clean"
    and accepted: "run_disposition c = ''passed'' \<Longrightarrow> validate_success X execution steps = Inr () \<Longrightarrow> accepted"
  shows "xwp (account_run X space steps schedule execution) (\<lambda>_. body_outcome accepted clean c)
    (\<lambda>_. body_failed clean c) c"
proof (cases "run_disposition c = ''passed''")
  case True
  let ?d = "c\<lparr>run_prior := None\<rparr>"
  show ?thesis
  proof (cases "validate_success X execution steps")
    case (Inr u)
    have "xwp (xforM (record_observation X space execution) [0..<length steps + 1]) (\<lambda>_ t. same_run ?d t \<and> coverage_ok t)
        (\<lambda>_ t. same_run ?d t \<and> coverage_ok t) ?d"
      by (rule xwp_xforM) (use record_observation_wp c(1) in \<open>auto simp: coverage_ok_def\<close>)
    then show ?thesis unfolding account_run_def using True Inr accepted c
      by (simp, elim xwp_mono) (auto simp: body_outcome_def body_failed_def same_run_def coverage_ok_def)
  qed (use True c in \<open>simp add: account_run_def body_failed_def\<close>)
qed (use c in \<open>auto simp: account_run_def body_outcome_def coverage_ok_def\<close>)

lemma body_outcome_trans:
  "body_outcome a clean d t \<Longrightarrow> cm_attempted d = cm_attempted c \<Longrightarrow> cm_bytes d = cm_bytes c \<Longrightarrow> cm_runs d = cm_runs c
    \<Longrightarrow> cm_completed d = cm_completed c \<Longrightarrow> cm_halt d = cm_halt c \<Longrightarrow> body_outcome a clean c t"
  "body_failed clean d t \<Longrightarrow> cm_attempted d = cm_attempted c \<Longrightarrow> cm_bytes d = cm_bytes c \<Longrightarrow> cm_runs d = cm_runs c
    \<Longrightarrow> cm_completed d = cm_completed c \<Longrightarrow> body_failed clean c t"
  by (auto simp: body_outcome_def body_failed_def)

definition prepared_run :: "FiniteSpace \<Rightarrow> string \<Rightarrow> string \<Rightarrow> bool \<Rightarrow> Json \<Rightarrow> Campaign \<Rightarrow> Campaign \<Rightarrow> bool" where
  "prepared_run space eid cat clean comparison c d =
     (cm_attempted d = cm_attempted c \<and> cm_bytes d = cm_bytes c \<and> cm_runs d = cm_runs c \<and> cm_completed d = cm_completed c
      \<and> cm_halt d = cm_halt c \<and> cm_coverage_bytes d = cm_coverage_bytes c \<and> run_cleanup_known d = clean
      \<and> run_disposition d = (if require_model_comparison space \<and> is_null comparison then ''comparison_missing'' else cat))"

lemma account_prepared:
  assumes "coverage_ok c" "prepared_run space eid cat clean comparison c d"
    and "check_binding X declarations schedule execution = Inr eid" "execution_id_ok eid"
      "cleanup_confirmed X execution = Inr clean" "run_category X execution comparison = Inr cat"
  shows "xwp (account_run X space steps schedule execution)
    (\<lambda>_. body_outcome (accepted_run X space declarations steps schedule (Inr (execution, comparison))) (clean_run X (Inr (execution, comparison))) c)
    (\<lambda>_. body_failed (clean_run X (Inr (execution, comparison))) c) d"
    (is "xwp _ (\<lambda>_. body_outcome ?a ?c c) _ d")
proof -
  have passed: "clean" if "cat = ''passed''"
    using assms(5,6) that by (auto simp: run_category_def split: if_splits)
  have "xwp (account_run X space steps schedule execution) (\<lambda>_. body_outcome ?a ?c d)
      (\<lambda>_. body_failed ?c d) d"
  proof (rule account_run_wp)
    show "coverage_ok d" using assms(1,2) by (simp add: coverage_ok_def prepared_run_def)
    show "run_cleanup_known d \<longrightarrow> ?c" using assms(2,5) by (simp add: clean_run_def prepared_run_def)
    assume "run_disposition d = ''passed''" "validate_success X execution steps = Inr ()"
    with assms(2) have "cat = ''passed''" "require_model_comparison space \<longrightarrow> \<not> is_null comparison"
      by (auto simp: prepared_run_def split: if_splits)
    with assms(3-6) passed \<open>validate_success X execution steps = Inr ()\<close> show ?a by (auto simp: accepted_run_def)
  qed
  then show ?thesis
    by (rule xwp_mono) (use assms(2) body_outcome_trans in \<open>auto simp: prepared_run_def\<close>)
qed

lemma body_failed_unchanged:
  assumes "coverage_ok c" "cm_attempted t = cm_attempted c" "cm_bytes t = cm_bytes c" "cm_runs t = cm_runs c"
    "cm_completed t = cm_completed c" "cm_coverage_bytes t = cm_coverage_bytes c" "run_cleanup_known t \<longrightarrow> clean"
  shows "body_failed clean c t"
  using assms by (simp add: body_failed_def coverage_ok_def)

lemma examine_sample_wp:
  assumes c: "coverage_ok c" "\<not> run_cleanup_known c"
  shows "xwp (examine_sample X space declarations steps schedule (execution, comparison))
    (\<lambda>_. body_outcome (accepted_run X space declarations steps schedule (Inr (execution, comparison))) (clean_run X (Inr (execution, comparison))) c)
    (\<lambda>_. body_failed (clean_run X (Inr (execution, comparison))) c) c"
  unfolding examine_sample_def
  by (auto simp: put_row_def require_that_def simp del: One_nat_def
      intro!: wpI account_prepared body_failed_unchanged c)
    (auto simp: prepared_run_def c clean_run_def)

lemma body_failed_outcome: "body_failed clean c t \<Longrightarrow> body_outcome a clean c t"
  by (simp add: body_failed_def body_outcome_def)

lemma run_body_outcome:
  assumes c: "coverage_ok c" "\<not> run_cleanup_known c"
  shows "body_outcome (accepted_run X space declarations (sched_steps sched) schedule sample) (clean_run X sample) c
    (run_body X space declarations sched schedule sample c)"
proof -
  let ?body = "xbind (xlift sample) (examine_sample X space declarations (sched_steps sched) schedule)"
  have body: "xwp ?body (\<lambda>_. body_outcome (accepted_run X space declarations (sched_steps sched) schedule sample) (clean_run X sample) c)
      (\<lambda>_. body_failed (clean_run X sample) c) c"
  proof (cases sample)
    case (Inl e)
    then show ?thesis using c by (simp add: body_failed_def)
  next
    case (Inr es)
    then show ?thesis using examine_sample_wp [OF c] by (cases es) simp
  qed
  have failed: "body_outcome a k c (catch_run (Inl e, t))" if "body_failed k c t" for a k e t
    using that by (cases e) (simp_all add: catch_run_def body_failed_def body_outcome_def coverage_ok_def)
  show ?thesis
  proof (cases "?body c")
    case (Pair r t)
    then show ?thesis using body failed by (cases r) (simp_all add: run_body_def xwp_def catch_run_def)
  qed
qed

definition schedule_document :: "explore_lib \<Rightarrow> Schedule \<Rightarrow> string + Json" where
  "schedule_document X sched = rbind (encode_schedule (xl_schedule X) sched) (\<lambda>artifact. snd (sl_parse (xl_schedule X) artifact))"

definition pair_accepted ::
  "explore_lib \<Rightarrow> explore_env \<Rightarrow> FiniteSpace \<Rightarrow> string smap \<Rightarrow> nat \<Rightarrow> Step list \<times> nat \<Rightarrow> bool" where
  "pair_accepted X env space declarations n p =
     (\<exists>schedule. schedule_document X (candidate space p) = Inr schedule
        \<and> accepted_run X space declarations (fst p) schedule (xe_runner env n (candidate space p)))"

definition pair_clean :: "explore_lib \<Rightarrow> explore_env \<Rightarrow> FiniteSpace \<Rightarrow> nat \<Rightarrow> Step list \<times> nat \<Rightarrow> bool" where
  "pair_clean X env space n p = clean_run X (xe_runner env n (candidate space p))"

lemma explore_run_result:
  assumes run: "explore_run X env space limits declarations p c = Inr c'"
    and c: "coverage_ok c" "cm_bytes c \<le> max_evidence_bytes limits"
  shows "cm_attempted c' = cm_attempted c + 1 \<and> length (cm_runs c') = length (cm_runs c) + 1
    \<and> cm_bytes c' \<le> max_evidence_bytes limits \<and> coverage_ok c'
    \<and> (\<not> cm_halt c' \<longrightarrow> pair_clean X env space (cm_attempted c) p)
    \<and> (cm_completed c' = cm_completed c
       \<or> cm_completed c' = cm_completed c + 1 \<and> pair_accepted X env space declarations (cm_attempted c) p)"
proof -
  let ?sched = "candidate space p" and ?sample = "xe_runner env (cm_attempted c) (candidate space p)"
  from run obtain schedule where doc: "schedule_document X ?sched = Inr schedule"
    by (auto simp: explore_run_def schedule_document_def Let_def split: sum.splits)
  define b where "b = run_body X space declarations ?sched schedule ?sample (begin_run (snd p) schedule c)"
  from run doc obtain bytes where "lib_dump (xl_json X) (run_row (classify_run schedule b)) = Inr bytes"
    and c': "c' = retain_run limits (xe_late env (cm_attempted c)) (length bytes) (classify_run schedule b)"
    by (auto simp: explore_run_def schedule_document_def Let_def b_def split: sum.splits)
  have "body_outcome (accepted_run X space declarations (fst p) schedule ?sample) (clean_run X ?sample) (begin_run (snd p) schedule c) b"
    using run_body_outcome [of "begin_run (snd p) schedule c" X space declarations ?sched schedule ?sample] c(1)
    by (simp add: b_def begin_run_def coverage_ok_def candidate_def)
  then have b: "cm_attempted b = cm_attempted c + 1" "cm_bytes b = cm_bytes c" "cm_runs b = cm_runs c" "coverage_ok b"
    "run_cleanup_known b \<longrightarrow> pair_clean X env space (cm_attempted c) p"
    "cm_completed b = cm_completed c \<or> cm_completed b = cm_completed c + 1 \<and> pair_accepted X env space declarations (cm_attempted c) p"
    using doc by (auto simp: body_outcome_def begin_run_def pair_clean_def pair_accepted_def)
  show ?thesis unfolding c' retain_run_def classify_run_def Let_def
    using b c by (auto simp: coverage_ok_def split: if_splits)
qed

lemma explore_run_failure:
  assumes run: "explore_run X env space limits declarations p c = Inl (what, c')" and c: "coverage_ok c"
  shows "cm_attempted c' \<le> cm_attempted c + 1 \<and> cm_bytes c' = cm_bytes c \<and> coverage_ok c'"
proof (cases "schedule_document X (candidate space p)")
  case (Inl w)
  then have "c' = c" using run by (simp add: explore_run_def schedule_document_def Let_def)
  then show ?thesis using c by simp
next
  case (Inr schedule)
  let ?sample = "xe_runner env (cm_attempted c) (candidate space p)"
  define b where "b = run_body X space declarations (candidate space p) schedule ?sample (begin_run (snd p) schedule c)"
  have "c' = classify_run schedule b"
    using run Inr by (auto simp: explore_run_def schedule_document_def Let_def b_def split: sum.splits)
  moreover have "body_outcome (accepted_run X space declarations (fst p) schedule ?sample) (clean_run X ?sample) (begin_run (snd p) schedule c) b"
    using run_body_outcome [of "begin_run (snd p) schedule c" X space declarations "candidate space p" schedule ?sample] c
    by (simp add: b_def begin_run_def coverage_ok_def candidate_def)
  ultimately show ?thesis by (simp add: body_outcome_def begin_run_def classify_run_def Let_def coverage_ok_def)
qed

section \<open>The loop\<close>

text \<open>What holds of the campaign after its first \<open>cm_attempted\<close> pairs.\<close>

definition loop_ok ::
  "explore_lib \<Rightarrow> explore_env \<Rightarrow> FiniteSpace \<Rightarrow> ExplorationLimits \<Rightarrow> string smap \<Rightarrow> (Step list \<times> nat) list \<Rightarrow> Campaign \<Rightarrow> bool" where
  "loop_ok X env space limits declarations pairs c =
     (cm_attempted c \<le> length pairs \<and> cm_attempted c \<le> max_runs limits \<and> length (cm_runs c) = cm_attempted c
      \<and> cm_bytes c \<le> max_evidence_bytes limits \<and> coverage_ok c \<and> cm_completed c \<le> cm_attempted c
      \<and> (cm_completed c = cm_attempted c \<longrightarrow> (\<forall>m<cm_attempted c. pair_accepted X env space declarations m (pairs ! m)))
      \<and> (\<forall>m<cm_attempted c. Suc m < cm_attempted c \<or> \<not> cm_halt c \<longrightarrow> pair_clean X env space m (pairs ! m)))"

text \<open>What is left of it when an exception ends the campaign.\<close>

definition loop_failed :: "explore_lib \<Rightarrow> explore_env \<Rightarrow> FiniteSpace \<Rightarrow> ExplorationLimits \<Rightarrow> (Step list \<times> nat) list \<Rightarrow> Campaign \<Rightarrow> bool" where
  "loop_failed X env space limits pairs c =
     (cm_attempted c \<le> length pairs \<and> cm_attempted c \<le> max_runs limits \<and> cm_bytes c \<le> max_evidence_bytes limits \<and> coverage_ok c
      \<and> (\<forall>m. Suc m < cm_attempted c \<longrightarrow> pair_clean X env space m (pairs ! m)))"

lemma loop_ok_failed: "loop_ok X env space limits declarations pairs c \<Longrightarrow> loop_failed X env space limits pairs c"
  by (auto simp: loop_ok_def loop_failed_def)

lemma loop_ok_run:
  assumes "loop_ok X env space limits declarations pairs c" "\<not> cm_halt c" "cm_attempted c < length pairs" "cm_attempted c < max_runs limits"
    and run: "explore_run X env space limits declarations (pairs ! cm_attempted c) c = Inr c'"
  shows "loop_ok X env space limits declarations pairs c' \<and> cm_attempted c' = Suc (cm_attempted c)"
proof -
  have c: "coverage_ok c" "cm_bytes c \<le> max_evidence_bytes limits" "cm_completed c \<le> cm_attempted c"
    and accepted: "cm_completed c = cm_attempted c \<longrightarrow> (\<forall>m<cm_attempted c. pair_accepted X env space declarations m (pairs ! m))"
    and clean: "\<forall>m<cm_attempted c. pair_clean X env space m (pairs ! m)"
    using assms(1,2) by (simp_all add: loop_ok_def)
  note r = explore_run_result [OF run c(1,2)]
  have "pair_accepted X env space declarations m (pairs ! m)" if "cm_completed c' = cm_attempted c'" "m < cm_attempted c'" for m
    using r that accepted c(3) by (cases "m = cm_attempted c") auto
  moreover have "pair_clean X env space m (pairs ! m)" if "m < cm_attempted c'" "Suc m < cm_attempted c' \<or> \<not> cm_halt c'" for m
    using r that clean by (cases "m = cm_attempted c") auto
  moreover have "length (cm_runs c) = cm_attempted c" using assms(1) by (simp add: loop_ok_def)
  moreover have "cm_completed c' \<le> cm_attempted c'" using r c(3) by auto
  ultimately show ?thesis using r assms(3,4) by (simp add: loop_ok_def)
qed

lemma loop_failed_run:
  assumes "loop_ok X env space limits declarations pairs c" "\<not> cm_halt c" "cm_attempted c < length pairs" "cm_attempted c < max_runs limits"
    and run: "explore_run X env space limits declarations (pairs ! cm_attempted c) c = Inl (what, c')"
  shows "loop_failed X env space limits pairs c'"
proof -
  have c: "coverage_ok c" "cm_bytes c \<le> max_evidence_bytes limits" "\<forall>m<cm_attempted c. pair_clean X env space m (pairs ! m)"
    using assms(1,2) by (simp_all add: loop_ok_def)
  from explore_run_failure [OF run c(1)] c assms(3,4) show ?thesis by (auto simp: loop_failed_def)
qed

lemma explore_loop_ok:
  assumes "loop_ok X env space limits declarations pairs c" "\<not> cm_halt c" "ps = drop (cm_attempted c) pairs"
  shows "case explore_loop X env space limits declarations ps c of
      Inl (what, c') \<Rightarrow> loop_failed X env space limits pairs c'
    | Inr c' \<Rightarrow> loop_ok X env space limits declarations pairs c' \<and> (\<not> cm_halt c' \<longrightarrow> cm_attempted c' = length pairs)"
  using assms
proof (induction ps arbitrary: c)
  case Nil
  then show ?case by (simp add: loop_ok_def)
next
  case (Cons p ps)
  have lt: "cm_attempted c < length pairs" using Cons.prems(3) by (metis drop_eq_Nil list.distinct(1) not_le)
  then have p: "p = pairs ! cm_attempted c" "ps = drop (Suc (cm_attempted c)) pairs"
    using Cons.prems(3) by (simp_all flip: Cons_nth_drop_Suc)
  have halted: "loop_ok X env space limits declarations pairs (c\<lparr>cm_stop_reason := r, cm_halt := True\<rparr>)" for r
    using Cons.prems(1) by (auto simp: loop_ok_def coverage_ok_def)
  show ?case
  proof (cases "xe_head env (cm_attempted c) \<noteq> None \<or> cm_attempted c \<ge> max_runs limits")
    case True
    then show ?thesis using halted by (cases "xe_head env (cm_attempted c)") auto
  next
    case False
    then have limit: "cm_attempted c < max_runs limits" by simp
    show ?thesis
    proof (cases "explore_run X env space limits declarations p c")
      case (Inl f)
      then show ?thesis using loop_failed_run [OF Cons.prems(1,2) lt limit] p(1) False by (cases f) simp
    next
      case (Inr c')
      then have c': "loop_ok X env space limits declarations pairs c'" "cm_attempted c' = Suc (cm_attempted c)"
        using loop_ok_run [OF Cons.prems(1,2) lt limit] p(1) by simp_all
      show ?thesis using False Inr c' Cons.IH [OF c'(1)] p(2) by (cases "cm_halt c'") simp_all
    qed
  qed
qed

lemma campaign_start_ok: "loop_ok X env space limits declarations pairs (campaign_start reason)"
  by (simp add: loop_ok_def campaign_start_def coverage_ok_def)

lemma length_run_pairs: "length (run_pairs schedules n) = length schedules * n"
  by (induction schedules) (simp_all add: run_pairs_def)

lemma set_run_pairs: "set (run_pairs schedules n) = set schedules \<times> {..<n}"
  by (auto simp: run_pairs_def)

section \<open>What accepted evidence says\<close>

definition passing_evidence :: "Step list \<Rightarrow> Json \<Rightarrow> bool" where
  "passing_evidence steps execution =
     (jfind ''schema'' execution = Some (JString receipt_schema) \<and> jfind ''passed'' execution = Some (JBool True)
      \<and> jfind ''scheduleCompleted'' execution = Some (JBool True) \<and> jfind ''outcome'' execution = Some (JString ''completed'')
      \<and> jfind ''cleanup'' execution = Some (JString ''confirmed'')
      \<and> (\<exists>events. jfind ''events'' execution = Some (JArray events) \<and> length events = 2 * length steps
           \<and> (\<forall>i<length steps.
                jfind ''kind'' (events ! (2 * i)) = Some (JString ''permit'')
                \<and> jfind ''actor'' (events ! (2 * i)) = Some (JString (step_actor (steps ! i)))
                \<and> jfind ''kind'' (events ! (2 * i + 1)) = Some (JString ''arrival'')
                \<and> jfind ''actor'' (events ! (2 * i + 1)) = Some (JString (step_actor (steps ! i)))
                \<and> jfind ''checkpoint'' (events ! (2 * i + 1)) = Some (JString (step_checkpoint (steps ! i))))))"

lemma at_key_Inr [simp]: "at_key X k j = Inr v \<longleftrightarrow> jfind k j = Some v"
  by (simp add: at_key_def split: option.split)

lemma require_that_Inr [simp]: "require_that c m = Inr u \<longleftrightarrow> c"
  by (simp add: require_that_def)

lemma eq_laws_text [simp]: "json_eq_laws X \<Longrightarrow> is_text X j s \<longleftrightarrow> j = JString s"
  by (simp add: json_eq_laws_def is_text_def)

lemma eq_laws_truth [simp]: "json_eq_laws X \<Longrightarrow> is_truth X j b \<longleftrightarrow> j = JBool b"
  by (simp add: json_eq_laws_def is_truth_def)

lemma rfoldM_unit: "rfoldM (\<lambda>x _. f x) xs () = Inr () \<longleftrightarrow> (\<forall>x \<in> set xs. f x = Inr ())"
  by (induction xs) (auto simp: result_splits)

lemma at_index_Inr: "at_index X i j = Inr v \<longleftrightarrow> (\<exists>js. j = JArray js \<and> i < length js \<and> v = js ! i)"
  by (cases j) (auto simp: at_index_def)

lemma event_matches_Inr:
  assumes "json_eq_laws X" "event_matches X (JArray events) steps i offset = Inr ()"
  shows "jfind ''actor'' (events ! (i * 2 + offset)) = Some (JString (step_actor (steps ! i)))
    \<and> jfind ''kind'' (events ! (i * 2 + offset)) = Some (JString (if offset = 0 then ''permit'' else ''arrival''))
    \<and> (offset = 1 \<longrightarrow> jfind ''checkpoint'' (events ! (i * 2 + offset)) = Some (JString (step_checkpoint (steps ! i))))"
  using assms by (auto simp: event_matches_def result_splits at_index_Inr split: if_splits)

lemma execution_category_passed:
  "json_eq_laws X \<Longrightarrow> execution_category X execution = Inr ''passed'' \<Longrightarrow> jfind ''passed'' execution = Some (JBool True)"
  by (auto simp: execution_category_def result_splits split: if_splits)

lemma run_category_passed:
  assumes "json_eq_laws X" "run_category X execution comparison = Inr ''passed''"
  shows "jfind ''passed'' execution = Some (JBool True)"
proof -
  let ?cmp = "if is_null comparison then Inr None else comparison_category X execution comparison"
  let ?rest = "\<lambda>cat. case cat of Some cat \<Rightarrow> Inr cat | None \<Rightarrow> execution_category X execution"
  from assms(2) have "rbind ?cmp ?rest = Inr ''passed''"
    by (cases "cleanup_confirmed X execution") (auto simp: run_category_def split: if_split_asm)
  then obtain cat where cat: "?cmp = Inr cat" and "?rest cat = Inr ''passed''" unfolding rbind_eq_Inr by blast
  moreover have "cat \<noteq> Some ''passed''"
    using cat by (auto simp: comparison_category_def result_splits split: if_splits)
  ultimately show ?thesis using execution_category_passed [OF assms(1)] by (cases cat) auto
qed

lemma validate_success_Inr:
  assumes "json_eq_laws X" "validate_success X execution steps = Inr ()"
  obtains events where "jfind ''scheduleCompleted'' execution = Some (JBool True)" "jfind ''outcome'' execution = Some (JString ''completed'')"
    "jfind ''events'' execution = Some (JArray events)" "length events = 2 * length steps"
    "\<And>i offset. i < length steps \<Longrightarrow> offset < 2 \<Longrightarrow> event_matches X (JArray events) steps i offset = Inr ()"
proof -
  let ?idx = "concat (map (\<lambda>i. [(i, 0), (i, 1)]) [0..<length steps])"
  from assms obtain j where j: "jfind ''scheduleCompleted'' execution = Some (JBool True)"
    "jfind ''outcome'' execution = Some (JString ''completed'')" "jfind ''events'' execution = Some j" "is_array j" "jsize j = length steps * 2"
    and all: "rfoldM (\<lambda>(i, offset) _. event_matches X j steps i offset) ?idx () = Inr ()"
    by (auto simp: validate_success_def result_splits split: if_splits)
  from j(4) obtain events where events: "j = JArray events" by (cases j) (auto simp: is_array_def)
  have fold: "(\<lambda>(i, offset) (_ :: unit). event_matches X j steps i offset) = (\<lambda>x _. case x of (i, offset) \<Rightarrow> event_matches X j steps i offset)"
    by (simp add: fun_eq_iff)
  from all have "\<forall>x \<in> set ?idx. (case x of (i, offset) \<Rightarrow> event_matches X j steps i offset) = Inr ()"
    unfolding fold rfoldM_unit .
  moreover have "(i, offset) \<in> set ?idx" if "i < length steps" "offset < 2" for i offset :: nat
    using that by (auto simp: less_2_cases_iff)
  ultimately show ?thesis using that j events by (auto simp: jsize_def)
qed

lemma accepted_run_evidence:
  assumes "json_eq_laws X" "accepted_run X space declarations steps schedule sample"
  shows "\<exists>execution comparison. sample = Inr (execution, comparison) \<and> passing_evidence steps execution
    \<and> (require_model_comparison space \<longrightarrow> \<not> is_null comparison)"
proof -
  from assms(2) obtain execution comparison eid where sample: "sample = Inr (execution, comparison)"
    "check_binding X declarations schedule execution = Inr eid" "cleanup_confirmed X execution = Inr True"
    "run_category X execution comparison = Inr ''passed''" "require_model_comparison space \<longrightarrow> \<not> is_null comparison"
    "validate_success X execution steps = Inr ()" by (auto simp: accepted_run_def)
  have schema: "jfind ''schema'' execution = Some (JString receipt_schema)"
    using sample(2) assms(1) by (auto simp: check_binding_def result_splits split: if_splits)
  have cleanup: "jfind ''cleanup'' execution = Some (JString ''confirmed'')"
    using sample(3) assms(1) by (auto simp: cleanup_confirmed_def result_splits split: if_splits)
  from validate_success_Inr [OF assms(1) sample(6)] obtain events where
    v: "jfind ''scheduleCompleted'' execution = Some (JBool True)" "jfind ''outcome'' execution = Some (JString ''completed'')"
    "jfind ''events'' execution = Some (JArray events)" "length events = 2 * length steps"
    and ev: "\<And>i offset. i < length steps \<Longrightarrow> offset < 2 \<Longrightarrow> event_matches X (JArray events) steps i offset = Inr ()" by blast
  have "passing_evidence steps execution" unfolding passing_evidence_def
    using schema cleanup v run_category_passed [OF assms(1) sample(4)]
      event_matches_Inr [OF assms(1) ev, of _ 0] event_matches_Inr [OF assms(1) ev, of _ 1]
    by (auto simp: mult.commute)
  with sample(1,5) show ?thesis by blast
qed

lemma chain_ok_Inr:
  "chain_ok a m = Inr m' \<longleftrightarrow> schedule_identifier (chain_name a) \<and> schedule_identifier (decl_operation (chain_actor a))
    \<and> map_of m (chain_name a) = None \<and> chain_checkpoints a \<noteq> [] \<and> last (chain_checkpoints a) = completion
    \<and> list_all schedule_identifier (butlast (chain_checkpoints a)) \<and> m' = om_put (chain_name a) (decl_operation (chain_actor a)) m"
  by (auto simp: chain_ok_def Let_def om_emplace_def)

lemma rfoldM_chain_ok:
  "rfoldM chain_ok as m = Inr m' \<Longrightarrow>
    distinct (map chain_name as) \<and> fst ` set m \<inter> chain_name ` set as = {}
    \<and> list_all (\<lambda>a. schedule_identifier (chain_name a) \<and> schedule_identifier (decl_operation (chain_actor a))
        \<and> chain_checkpoints a \<noteq> [] \<and> last (chain_checkpoints a) = completion
        \<and> list_all schedule_identifier (butlast (chain_checkpoints a))) as"
proof (induction as arbitrary: m)
  case (Cons a as)
  from Cons.prems obtain n where a: "chain_ok a m = Inr n" and rest: "rfoldM chain_ok as n = Inr m'"
    by (auto simp: result_splits)
  have "map_of m (chain_name a) = None" "n = om_put (chain_name a) (decl_operation (chain_actor a)) m"
    using a by (simp_all add: chain_ok_Inr)
  then show ?case using Cons.IH [OF rest] a by (auto simp: chain_ok_Inr map_of_eq_None_iff)
qed simp

lemma check_space_Inr:
  assumes "check_space X has_runner space limits = Inr declarations"
  shows "limits_ok space limits" "rfoldM chain_ok (sorted_actors space) [] = Inr declarations"
    "length (space_inputs space) \<le> 64" "distinct (map chain_name (space_actors space))"
proof -
  show *: "limits_ok space limits" "rfoldM chain_ok (sorted_actors space) [] = Inr declarations" "length (space_inputs space) \<le> 64"
    using assms by (auto simp: check_space_def Let_def result_splits split: if_splits)
  show "distinct (map chain_name (space_actors space))"
    using rfoldM_chain_ok [OF *(2)] by (simp add: distinct_map sorted_actors_def)
qed

lemma merge_of_sorted: "merge_of (sorted_actors space) steps = merge_of (space_actors space) steps"
  by (simp add: merge_of_def list_all_iff sorted_actors_def)

lemma set_enumerated:
  assumes "check_space X has_runner space limits = Inr declarations"
    and "enum_exhausted (enumerate_schedules (space_search env space limits))"
  shows "set (enum_schedules (enumerate_schedules (space_search env space limits)))
    = {steps. merge_of (space_actors space) steps \<and> preemptions steps \<le> space_max_preemptions space}"
proof -
  have names: "distinct (map chain_name (sorted_actors space))"
    using rfoldM_chain_ok [OF check_space_Inr(2) [OF assms(1)]] by blast
  show ?thesis
  proof (rule enumerate_emits [of "space_search env space limits"])
    fix k assume "enum_schedules (enumerate_schedules (space_search env space limits))
        = take k (all_merges (env_actors (space_search env space limits)) (env_max_preemptions (space_search env space limits)))"
      and "if enum_exhausted (enumerate_schedules (space_search env space limits))
        then k = length (all_merges (env_actors (space_search env space limits)) (env_max_preemptions (space_search env space limits)))
          \<and> enum_stop_reason (enumerate_schedules (space_search env space limits)) = []
        else enum_stop_reason (enumerate_schedules (space_search env space limits)) = ''enumeration_limit'' \<and> k = env_cap (space_search env space limits)
               \<and> k < length (all_merges (env_actors (space_search env space limits)) (env_max_preemptions (space_search env space limits)))
          \<or> (\<exists>m. env_poll (space_search env space limits) m = Some (enum_stop_reason (enumerate_schedules (space_search env space limits))))"
    then show ?thesis using assms(2) set_all_merges [OF names] by (simp add: space_search_def merge_of_sorted)
  qed
qed

section \<open>Properties\<close>

definition space_pairs :: "explore_env \<Rightarrow> FiniteSpace \<Rightarrow> ExplorationLimits \<Rightarrow> (Step list \<times> nat) list" where
  "space_pairs env space limits =
     run_pairs (enum_schedules (enumerate_schedules (space_search env space limits))) (length (space_inputs space))"

lemma explore_finite_cases:
  obtains (invalid) what where "explore_finite X env space limits = invalid_report what False None (campaign_start [])"
  | (failed) declarations what known shapes c where "check_space X (xe_has_runner env) space limits = Inr declarations"
      "explore_finite X env space limits = invalid_report what known shapes c" "loop_failed X env space limits (space_pairs env space limits) c"
  | (ran) declarations c where "check_space X (xe_has_runner env) space limits = Inr declarations"
      "explore_finite X env space limits
        = final_report (enumerate_schedules (space_search env space limits)) (length (space_pairs env space limits)) c"
      "loop_ok X env space limits declarations (space_pairs env space limits) c"
      "\<not> cm_halt c \<longrightarrow> cm_attempted c = length (space_pairs env space limits)"
proof (cases "check_space X (xe_has_runner env) space limits")
  case (Inl what)
  then show ?thesis by (intro invalid [of what]) (simp add: explore_finite_def)
next
  case (Inr declarations)
  let ?en = "enumerate_schedules (space_search env space limits)" and ?pairs = "space_pairs env space limits"
  let ?start = "campaign_start (enum_stop_reason ?en)"
  have loop: "case explore_loop X env space limits declarations ?pairs ?start of
      Inl (what, c') \<Rightarrow> loop_failed X env space limits ?pairs c'
    | Inr c' \<Rightarrow> loop_ok X env space limits declarations ?pairs c' \<and> (\<not> cm_halt c' \<longrightarrow> cm_attempted c' = length ?pairs)"
    by (rule explore_loop_ok [OF campaign_start_ok]) (simp_all add: campaign_start_def)
  show ?thesis
  proof (cases "explore_loop X env space limits declarations ?pairs ?start")
    case (Inl f)
    then show ?thesis using failed [OF Inr] loop Inr
      by (cases f) (simp add: explore_finite_def Let_def space_pairs_def)
  next
    case run: (Inr c)
    then show ?thesis using ran [OF Inr] loop Inr
      by (simp add: explore_finite_def Let_def space_pairs_def length_run_pairs)
  qed
qed


text \<open>C19: no run follows one whose cleanup is unconfirmed: before every run but the first, the runner had returned
  evidence with a confirmed cleanup and no remaining actors.\<close>

theorem exploration_stops_unclean:
  assumes "json_eq_laws X" "Suc m < cm_attempted (xr_campaign (explore_finite X env space limits))"
  shows "\<exists>execution comparison r. xe_runner env m (candidate space (space_pairs env space limits ! m)) = Inr (execution, comparison)
    \<and> jfind ''cleanup'' execution = Some (JString ''confirmed'')
    \<and> jfind ''remainingActors'' execution = Some r \<and> jsize r = 0"
proof -
  have "pair_clean X env space m (space_pairs env space limits ! m)"
  proof (cases rule: explore_finite_cases [of X env space limits])
    case (invalid what)
    then show ?thesis using assms(2) by (simp add: invalid_report_def campaign_start_def)
  next
    case (failed declarations what known shapes c)
    then show ?thesis using assms(2) by (simp add: invalid_report_def loop_failed_def)
  next
    case (ran declarations c)
    then show ?thesis using assms(2) by (auto simp: final_report_def Let_def loop_ok_def)
  qed
  then show ?thesis using assms(1)
    by (auto simp: pair_clean_def clean_run_def cleanup_confirmed_def result_splits split: if_splits)
qed

text \<open>A campaign stays within its limits: runs, retained evidence and coverage, whatever the runner returns.\<close>

theorem exploration_bounded:
  "cm_attempted (xr_campaign (explore_finite X env space limits)) \<le> max_runs limits
    \<and> cm_attempted (xr_campaign (explore_finite X env space limits)) \<le> length (space_pairs env space limits)
    \<and> cm_bytes (xr_campaign (explore_finite X env space limits)) \<le> max_evidence_bytes limits
    \<and> cm_coverage_bytes (xr_campaign (explore_finite X env space limits)) \<le> 8 * 1048576
    \<and> xr_completed (explore_finite X env space limits) \<le> xr_attempted (explore_finite X env space limits)"
proof (cases rule: explore_finite_cases [of X env space limits])
  case (invalid what)
  then show ?thesis by (simp add: invalid_report_def campaign_start_def)
next
  case (failed declarations what known shapes c)
  then show ?thesis by (simp add: invalid_report_def loop_failed_def coverage_ok_def coverage_limit_def)
next
  case (ran declarations c)
  then show ?thesis by (simp add: final_report_def Let_def loop_ok_def coverage_ok_def coverage_limit_def)
qed

end
