(* ===== verification/Schedule_Campaign.thy ===== *)
theory Schedule_Campaign
  imports Schedule_Liveness Schedule_Exploration
begin

text \<open>
  The exploration over the repository's own coordinator: \<^verbatim>\<open>local_exploration_runner\<close> runs a schedule and returns
  its receipt. \<open>receipt_accepted_iff\<close> joins the two components: the receipt of an execution passes the explorer's
  checks exactly when its report passed. The witnesses of the exploration's properties are here too.
\<close>

section \<open>What a receipt is bound to\<close>

definition bound_ok :: "Adapter \<Rightarrow> string \<Rightarrow> Sys \<Rightarrow> bool" where
  "bound_ok A eid s = (ex_adapter (sys_exec s) = A \<and> rep_execution_id (ex_report (sys_exec s)) = eid
     \<and> (ex_teardown_attempted (sys_exec s) \<longrightarrow> rep_remaining (ex_report (sys_exec s)) = []))"

lemma execution_id_fail [frame]: "rep_execution_id (sh_report (shared_fail oc why sh)) = rep_execution_id (sh_report sh)"
  by (simp add: shared_fail_def)

lemma execution_id_frame [frame]:
  "rep_execution_id (ex_report (poll f n ex)) = rep_execution_id (ex_report ex)"
  "rep_execution_id (ex_report (observe SL k r ex)) = rep_execution_id (ex_report ex)"
  "rep_execution_id (ex_report (record_arrival i ex)) = rep_execution_id (ex_report ex)"
  "rep_execution_id (ex_report (stop_actors ex)) = rep_execution_id (ex_report ex)"
  using poll_at_most_fails [of ex f n]
  by (auto simp: at_most_fails_def observe_def record_arrival_def stop_actors_def frame exec_event_def split: sum.splits option.splits)

lemma bound_ok_worker:
  assumes "worker_step a s = Some t" "bound_ok A eid s"
  shows "bound_ok A eid t"
  using assms by (cases rule: worker_step_cases) (auto simp: bound_ok_def thread_park_def thread_catch_def thread_finish_def frame)

lemma check_program_bound [frame]:
  "rep_execution_id (sh_report (check_program p sh)) = rep_execution_id (sh_report sh)"
  "rep_remaining (sh_report (check_program p sh)) = rep_remaining (sh_report sh)"
  using check_program_fails [of p sh] by (auto simp: frame)

text \<open>The fields a receipt is bound by, over the regions of the controller.\<close>

definition same_bound :: "Execution \<Rightarrow> Execution \<Rightarrow> bool" where
  "same_bound ex ex' = (ex_adapter ex' = ex_adapter ex \<and> rep_execution_id (ex_report ex') = rep_execution_id (ex_report ex)
     \<and> rep_remaining (ex_report ex') = rep_remaining (ex_report ex) \<and> ex_teardown_attempted ex' = ex_teardown_attempted ex)"

lemma same_bound_trans: "same_bound ex ex' \<Longrightarrow> same_bound ex' ex'' \<Longrightarrow> same_bound ex ex''"
  by (simp add: same_bound_def)

lemma same_bound_small:
  "same_bound ex ex"
  "same_bound ex (poll f n ex)"
  "same_bound ex (observe SL k r ex)"
  "same_bound ex (ex_fail oc why ex)"
  "same_bound ex (permit i ex)"
  "same_bound ex (record_arrival i ex)"
  "same_bound ex (stop_actors ex)"
  by (simp_all add: same_bound_def frame permit_def observe_def record_arrival_def stop_actors_def exec_event_def split: sum.split option.split)

lemma same_bound_regions:
  "same_bound ex (start_construct f n f' n' ex)"
  "same_bound ex (start_spawn q ex)"
  "same_bound ex (start_barrier SL f n r f' n' ex)"
  "same_bound ex (advance_end f n ex)"
  "same_bound ex (advance_observe SL r ex)"
  "same_bound ex (advance_joined SL i r ex)"
proof -
  show "same_bound ex (start_construct f n f' n' ex)" "same_bound ex (start_spawn q ex)" "same_bound ex (advance_end f n ex)"
    by (simp_all add: same_bound_def start_construct_def start_spawn_def advance_end_def Let_def frame
        split: sum.split option.split prod.split)
  show "same_bound ex (start_barrier SL f n r f' n' ex)"
    using same_bound_small(2) [of ex f n] same_bound_small(3) [of "poll f n ex" SL 0 r]
    by (simp add: same_bound_def start_barrier_def Let_def frame)
  show obs: "same_bound ex (advance_observe SL r ex)" for ex
    using same_bound_small(3) [of "ex\<lparr>ex_next_step := ex_next_step ex + 1\<rparr>" SL "ex_next_step ex + 1" r]
    by (simp add: same_bound_def advance_observe_def Let_def frame)
  show "same_bound ex (advance_joined SL i r ex)"
    unfolding advance_joined_def by (rule same_bound_trans [OF _ obs]) (simp add: same_bound_def frame)
qed

lemma bound_ok_same: "bound_ok A eid s \<Longrightarrow> same_bound (sys_exec s) (sys_exec t) \<Longrightarrow> bound_ok A eid t"
  by (simp add: bound_ok_def same_bound_def)

lemma advance_arrived_bound:
  assumes "advance_arrived SL i req f n r ex = (ex', b)"
  shows "same_bound ex ex'"
proof -
  have r: "same_bound ex (record_arrival i (poll f n ex))"
    by (rule same_bound_trans [OF same_bound_small(2) same_bound_small(6)])
  show ?thesis using assms
    by (auto simp: advance_arrived_def Let_def r split: if_splits
        intro: same_bound_trans [OF r same_bound_small(4)] same_bound_trans [OF r same_bound_regions(5)])
qed

lemma advance_begin_bound:
  assumes "advance_begin own cb req f n ex = Inr (ex', q)"
  shows "same_bound ex ex'"
proof -
  note p = same_bound_small(2) [of ex f n]
  show ?thesis using assms
    by (auto simp: advance_begin_def Let_def p split: if_splits option.splits
        intro: same_bound_trans [OF p same_bound_small(4)] same_bound_trans [OF p same_bound_small(5)])
qed

lemma advance_step_bound:
  assumes "advance_step SL a s = Some t"
  shows "same_bound (sys_exec s) (sys_exec t)"
  using assms
proof (cases rule: advance_step_cases)
  case (rejected req f n f' n' ex)
  then show ?thesis using same_bound_trans [OF advance_begin_bound same_bound_regions(4)] by simp
next
  case (arrived i req n f r ex f' n')
  then show ?thesis using same_bound_trans [OF advance_arrived_bound same_bound_regions(4)] by simp
next
  case (joined i r f' n')
  then show ?thesis using same_bound_trans [OF same_bound_regions(6) same_bound_regions(4)] by simp
next
  case (finish ex)
  then show ?thesis using same_bound_small(1,4) by (auto simp: finish_begin_def split: if_splits)
qed (auto simp: same_bound_small dest: advance_begin_bound advance_arrived_bound)

lemma bound_ok_step:
  assumes "exec_step SL a s = Some t" "bound_ok A eid s" "tear_ok s"
  shows "bound_ok A eid t"
  using assms(1)
proof (cases rule: exec_step_cases)
  case worker
  then show ?thesis using bound_ok_worker assms(2) by blast
next
  case start
  then show ?thesis using assms(2)
    by (cases rule: start_step_cases) (auto intro: bound_ok_same simp: same_bound_regions)
next
  case advance
  then show ?thesis using bound_ok_same [OF assms(2)] advance_step_bound by blast
next
  case cleanup
  then show ?thesis
  proof (cases rule: cleanup_step_cases)
    case (collected k ex)
    then show ?thesis using assms(2) by (auto simp: bound_ok_def cleanup_collect_def Let_def frame split: if_splits)
  next
    case (report k ex)
    have "ex_teardown_attempted (sys_exec s) \<longrightarrow> remaining_actors (sys_exec s) = []"
      using assms(3) remaining_empty by (auto simp: tear_ok_def tear_cond_def Let_def)
    then show ?thesis using assms(2) report by (auto simp: bound_ok_def cleanup_collect_def cleanup_report_def Let_def frame split: if_splits)
  next
    case (teardown r)
    have "same_bound ex (cleanup_report (teardown_result r ex))" for ex
      by (simp add: same_bound_def cleanup_report_def Let_def frame) (simp add: teardown_result_def split: option.split)
    then show ?thesis using bound_ok_same [OF assms(2)] teardown by simp
  qed (use assms(2) in \<open>auto simp: bound_ok_def frame stop_actors_def join_actor_def\<close>)
qed

lemma sys_start_bound:
  assumes "sys_start SL c g rnd P A sched = Some s"
  shows "bound_ok A (nonce_text rnd) s"
  using assms by (cases "admit SL c P A sched")
    (auto simp: sys_start_def start_admit_def new_execution_def new_shared_def bound_ok_def shared_fail_def)

lemma exec_run_bound:
  assumes "exec_run SL as s = Some t" "exec_reachable SL P A sched s" "bound_ok A eid s"
  shows "bound_ok A eid t"
  using assms
proof (induction as arbitrary: s)
  case (Cons a as)
  then obtain u where u: "exec_step SL a s = Some u" "exec_run SL as u = Some t" by (auto simp: bind_eq_Some_conv)
  have "tear_ok s" using reachable_sys_ok [OF Cons.prems(2)] by (simp add: sys_ok_def)
  then show ?case
    using Cons.IH [OF u(2) exec_reachable.reach_step [OF Cons.prems(2) u(1)]] bound_ok_step [OF u(1) Cons.prems(3)] by blast
qed simp

lemma hex_digit_lower_hex: "d < 16 \<Longrightarrow> is_lower_hex (hex_digit d)"
  by (auto simp: is_lower_hex_def is_digit_def byte_of_def hex_digit_def)

lemma nonce_text_id: "length rnd = 4 \<Longrightarrow> execution_id_ok (nonce_text rnd)"
proof -
  have "length (nonce_text ws) = 8 * length ws \<and> list_all is_lower_hex (nonce_text ws)" for ws
    by (induction ws) (simp_all add: nonce_text_def hex_digit_lower_hex)
  then show "length rnd = 4 \<Longrightarrow> execution_id_ok (nonce_text rnd)" by (simp add: execution_id_ok_def)
qed

section \<open>The explorer reads the receipt\<close>

text \<open>\<^verbatim>\<open>local_exploration_runner\<close>: the sample of an execution that was run locally.\<close>

definition local_sample :: "Execution \<Rightarrow> Json \<times> Json" where
  "local_sample ex = (receipt ex, JNull)"

definition adapter_declarations :: "Adapter \<Rightarrow> string smap" where
  "adapter_declarations A = om_build (map (\<lambda>a. (decl_actor a, decl_operation a)) (adapter_actors A))"

definition actor_doc :: "ActorDeclaration \<Rightarrow> Json" where
  "actor_doc a = jobject [(''actor'', JString (decl_actor a)), (''operation'', JString (decl_operation a))]"

lemma actor_entry_doc:
  "map_of m (decl_actor a) = None \<Longrightarrow> actor_entry X (actor_doc a) m = Inr (om_put (decl_actor a) (decl_operation a) m)"
  by (simp add: actor_entry_def actor_doc_def require_that_def at_key_def as_string_def om_emplace_def)
    (simp add: json_query_defs jobject_def om_build_def)

lemma actor_map_docs:
  "distinct (map decl_actor as) \<Longrightarrow> fst ` set m \<inter> decl_actor ` set as = {} \<Longrightarrow>
    rfoldM (actor_entry X) (map actor_doc as) m
      = Inr (foldl (\<lambda>m kv. om_put (fst kv) (snd kv) m) m (map (\<lambda>a. (decl_actor a, decl_operation a)) as))"
proof (induction as arbitrary: m)
  case (Cons a as)
  have "map_of m (decl_actor a) = None" using Cons.prems(2) by (auto simp: map_of_eq_None_iff)
  then show ?case using Cons.IH [of "om_put (decl_actor a) (decl_operation a) m"] Cons.prems
    by (simp add: actor_entry_doc)
qed simp

lemma jfind_receipt [simp]:
  "jfind ''schema'' (receipt ex) = Some (JString receipt_schema)"
  "jfind ''schedule'' (receipt ex) = Some (schedule_json (ex_schedule ex))"
  "jfind ''actors'' (receipt ex) = Some (JArray (map actor_doc (adapter_actors (ex_adapter ex))))"
  "jfind ''executionId'' (receipt ex) = Some (JString (rep_execution_id (ex_report ex)))"
  "jfind ''outcome'' (receipt ex) = Some (JString (outcome_name (rep_outcome (ex_report ex))))"
  "jfind ''scheduleCompleted'' (receipt ex) = Some (JBool (rep_schedule_completed (ex_report ex)))"
  "jfind ''passed'' (receipt ex) = Some (JBool (passed (ex_report ex)))"
  "jfind ''events'' (receipt ex) = Some (JArray (rep_events (ex_report ex)))"
  "jfind ''observations'' (receipt ex) = Some (JArray (rep_observations (ex_report ex)))"
  "jfind ''cleanup'' (receipt ex) = Some (JString (cleanup_name (rep_cleanup (ex_report ex))))"
  "jfind ''remainingActors'' (receipt ex) = Some (JArray (map JString (rep_remaining (ex_report ex))))"
  by (simp_all add: receipt_def Let_def actor_doc_def)

lemma decl_actor_decl_for [simp]: "decl_actor (decl_for as a) = a"
  by (auto simp: decl_for_def find_Some_iff split: option.split)

lemma schedule_events_nth:
  assumes "i < k"
  shows "schedule_events as ss k ! (2 * i) = permit_event as ss i" "schedule_events as ss k ! (2 * i + 1) = arrival_event as ss i"
  using assms by (induction k) (auto simp: schedule_events_Suc length_schedule_events nth_append less_Suc_eq)

lemma event_matches_schedule:
  assumes "json_eq_laws X" "i < length ss" "offset < 2"
  shows "event_matches X (JArray (schedule_events as ss (length ss))) ss i offset = Inr ()"
proof -
  have num: "xl_eq X (JUnsigned w) (JUnsigned w)" for w using assms(1) by (simp add: json_eq_laws_def)
  have "at_index X (i * 2 + offset) (JArray (schedule_events as ss (length ss)))
      = Inr (if offset = 0 then permit_event as ss i else arrival_event as ss i)"
    using assms(2,3) schedule_events_nth [OF assms(2)] by (auto simp: at_index_def length_schedule_events less_2_cases_iff mult.commute)
  then show ?thesis using assms(1,3)
    by (auto simp: num event_matches_def permit_event_def arrival_event_def event_json_def require_that_def at_key_def jcount_def jnat_def
        less_2_cases_iff mult.commute add.commute)
qed

lemma validate_receipt:
  assumes "json_eq_laws X" "exec_reachable SL P A sched t" "passed (ex_report (sys_exec t))"
  shows "validate_success X (receipt (sys_exec t)) (sched_steps sched) = Inr ()"
proof -
  let ?ss = "sched_steps sched"
  have ok: "sys_ok A sched t" by (rule reachable_sys_ok [OF assms(2)])
  have nf: "\<not> ex_failed (sys_exec t)" "completed t" using ok assms(3) by (auto simp: sys_ok_def const_ok_def passed_def)
  have ev: "rep_events (ex_report (sys_exec t)) = schedule_events (adapter_actors A) ?ss (length ?ss)"
    using ok nf by (auto simp: sys_ok_def obs_ok_def const_ok_def log_ok_def ctl_log_idle)
  have "rfoldM (\<lambda>(i, offset) _. event_matches X (JArray (schedule_events (adapter_actors A) ?ss (length ?ss))) ?ss i offset)
      (concat (map (\<lambda>i. [(i, 0), (i, 1)]) [0..<length ?ss])) () = Inr ()"
  proof -
    let ?f = "\<lambda>x. case x of (i, offset) \<Rightarrow> event_matches X (JArray (schedule_events (adapter_actors A) ?ss (length ?ss))) ?ss i offset"
    have "(\<lambda>(i, offset) (_ :: unit). event_matches X (JArray (schedule_events (adapter_actors A) ?ss (length ?ss))) ?ss i offset) = (\<lambda>x _. ?f x)"
      by (simp add: fun_eq_iff)
    then show ?thesis using event_matches_schedule [OF assms(1)] by (auto simp: rfoldM_unit)
  qed
  moreover have "length (rep_observations (ex_report (sys_exec t))) = Suc (length ?ss)" by (rule passed_shape(3) [OF assms(2,3)])
  moreover have "outcome_name (rep_outcome (ex_report (sys_exec t))) = ''completed''" "rep_schedule_completed (ex_report (sys_exec t))"
    using assms(3) by (simp_all add: passed_def)
  ultimately show ?thesis
    using assms(1) ev by (simp add: validate_success_def at_key_def require_that_def is_array_def jsize_def length_schedule_events)
qed

lemma receipt_clean:
  assumes "json_eq_laws X" "exec_reachable SL P A sched t" "passed (ex_report (sys_exec t))" "bound_ok A eid t"
  shows "cleanup_confirmed X (receipt (sys_exec t)) = Inr True"
proof -
  have c: "rep_cleanup (ex_report (sys_exec t)) = CleanConfirmed" using assms(3) by (simp add: passed_def)
  then have "ex_teardown_attempted (sys_exec t)"
    using reachable_sys_ok [OF assms(2)] by (auto simp: sys_ok_def tear_ok_def tear_cond_def Let_def)
  then have "rep_remaining (ex_report (sys_exec t)) = []" using assms(4) by (simp add: bound_ok_def)
  with c assms(1) show ?thesis by (simp add: cleanup_confirmed_def at_key_def jsize_def)
qed


section \<open>A campaign of two runs\<close>

text \<open>One actor with nothing but its completion, two inputs, and a runner whose receipts are written out.\<close>

definition tiny_steps :: "Step list" where
  "tiny_steps = [\<lparr> step_actor = ''left'', step_checkpoint = completion \<rparr>]"

definition tiny_space :: FiniteSpace where
  "tiny_space = \<lparr> space_identity = sample_identity,
     space_actors = [\<lparr> chain_actor = \<lparr> decl_actor = ''left'', decl_operation = ''op'' \<rparr>, chain_checkpoints = [completion] \<rparr>],
     space_inputs = [JNull, JBool True], space_max_preemptions = 0, require_model_comparison = False,
     state_variables = [''x''], instrumentation_variables = [] \<rparr>"

definition tiny_limits :: ExplorationLimits where
  "tiny_limits = \<lparr> max_enumerated_schedules = 1, max_runs = 2, time_budget = 1, max_evidence_bytes = 2 \<rparr>"

definition tiny_schedule :: "Json \<Rightarrow> Schedule" where
  "tiny_schedule inp = \<lparr> scheduling_profile = profile, sched_identity = sample_identity, sched_inputs = inp, sched_steps = tiny_steps \<rparr>"

definition tiny_event :: "nat \<Rightarrow> string \<Rightarrow> Json" where
  "tiny_event n kind = jobject [(''ordinal'', jcount n), (''kind'', JString kind), (''step'', jcount 0), (''actor'', JString ''left''),
     (''checkpoint'', JString completion)]"

definition tiny_observation :: "nat \<Rightarrow> Json" where
  "tiny_observation n = jobject [(''afterSteps'', jcount n), (''state'', JObject [(''x'', JBool True)])]"

definition tiny_id :: "nat \<Rightarrow> string" where
  "tiny_id m = (if m = 0 then CHR ''0'' else CHR ''1'') # replicate 31 (CHR ''0'')"

definition tiny_receipt :: "nat \<Rightarrow> Schedule \<Rightarrow> Json" where
  "tiny_receipt m sched = jobject [(''schema'', JString receipt_schema), (''schedule'', schedule_json sched),
     (''actors'', JArray [actor_doc \<lparr> decl_actor = ''left'', decl_operation = ''op'' \<rparr>]), (''executionId'', JString (tiny_id m)),
     (''outcome'', JString ''completed''), (''scheduleCompleted'', JBool True), (''passed'', JBool True),
     (''events'', JArray [tiny_event 0 ''permit'', tiny_event 1 ''arrival'']),
     (''observations'', JArray [tiny_observation 0, tiny_observation 1]),
     (''cleanup'', JString ''confirmed''), (''remainingActors'', JArray [])]"

definition tiny_schedule_lib :: schedule_lib where
  "tiny_schedule_lib = \<lparr>
     sl_parse = (\<lambda>a. let j = schedule_json (tiny_schedule (if a = ''n'' then JNull else JBool True)) in (events_of j, Inr j)),
     sl_dump = (\<lambda>j. Inr (if j = schedule_json (tiny_schedule JNull) then ''n'' else ''t'')), sl_type_what = (\<lambda>_. []) \<rparr>"

definition tiny_lib :: explore_lib where
  "tiny_lib = \<lparr> xl_json = (ref_lib [(''s'', JNull)])\<lparr>lib_dump := \<lambda>j. Inr (if j = JNull then ''n'' else if j = JBool True then ''t'' else ''s'')\<rparr>,
     xl_schedule = tiny_schedule_lib, xl_eq = (=), xl_type_what = (\<lambda>_. []) \<rparr>"

definition tiny_env :: explore_env where
  "tiny_env = \<lparr> xe_poll = \<lambda>_. None, xe_head = \<lambda>_. None, xe_limit = \<lambda>_. ''run_limit'', xe_late = \<lambda>_. False, xe_has_runner = True,
     xe_runner = \<lambda>m sched. Inr (tiny_receipt m sched, JNull) \<rparr>"

lemma tiny_lib_laws: "json_eq_laws tiny_lib"
  by (simp add: json_eq_laws_def tiny_lib_def)

lemma tiny_schedule_json_inject: "schedule_json (tiny_schedule i) = schedule_json (tiny_schedule j) \<longleftrightarrow> i = j"
  by (simp add: schedule_json_def tiny_schedule_def jobject_def om_build_def)

lemma tiny_encodes:
  assumes "i = JNull \<or> i = JBool True"
  shows "encode_schedule tiny_schedule_lib (tiny_schedule i) = Inr (if i = JNull then ''n'' else ''t'')"
proof -
  have law: "parse_print_law tiny_schedule_lib (schedule_json (tiny_schedule i))"
    using assms by (auto simp: parse_print_law_def tiny_schedule_lib_def tiny_schedule_json_inject Let_def)
  have "identity_valid sample_identity" "list_all step_syntax tiny_steps" by code_simp+
  then have "schedule_ok (tiny_schedule i)"
    using assms by (auto simp: schedule_ok_def tiny_schedule_def tiny_steps_def)
  moreover have "sl_dump tiny_schedule_lib (schedule_json (tiny_schedule i)) = Inr (if i = JNull then ''n'' else ''t'')"
    by (simp add: tiny_schedule_lib_def tiny_schedule_json_inject)
  moreover have "json_wf (sched_inputs (tiny_schedule i))" using assms by (auto simp: tiny_schedule_def)
  ultimately show ?thesis using encode_schedule_Inr [OF law] by (simp add: max_artifact_bytes_def)
qed

lemma tiny_search: "enumerate_schedules (space_search tiny_env tiny_space tiny_limits)
    = \<lparr> enum_schedules = [tiny_steps], enum_exhausted = True, enum_stop_reason = [] \<rparr>"
  by code_simp

lemma tiny_checked: "check_space tiny_lib True tiny_space tiny_limits = Inr [(''left'', ''op'')]"
proof -
  have chain: "rfoldM chain_ok (sorted_actors tiny_space) [] = Inr [(''left'', ''op'')]" "total_steps (sorted_actors tiny_space) = 1"
    "variables_check tiny_space = Inr ()" "concat (map chain_steps (sorted_actors tiny_space)) = tiny_steps" by code_simp+
  have "rfoldM (check_input tiny_lib (tiny_schedule i)) [JNull, JBool True] [] = Inr [''t'', ''n'']" for i
    using tiny_encodes by (simp add: check_input_def tiny_lib_def tiny_schedule_def)
  then show ?thesis using chain
    by (simp add: check_space_def limits_ok_def tiny_limits_def tiny_schedule_def Let_def) (simp add: tiny_space_def)
qed

lemmas tiny_eval = tiny_receipt_def tiny_lib_def tiny_steps_def tiny_event_def tiny_observation_def at_key_def at_index_def as_string_def
  is_text_def is_truth_def is_null_def is_array_def jsize_def require_that_def jcount_def

lemma tiny_state:
  "decode_state (xl_json tiny_lib) (JObject [(''x'', JBool True)]) = Inr [(''x'', VBool True)]"
  "canonical_state (xl_json tiny_lib) [(''x'', VBool True)] = Inr ''s''"
  by (simp_all add: decode_state_def tiny_lib_def om_build_def canonical_state_def canonical_value.simps canon_enter_def
      max_canonical_nodes_def canon_dump_def canon_require_def tagged_def)

lemma tiny_evidence:
  "check_binding tiny_lib [(''left'', ''op'')] (schedule_json sched) (tiny_receipt m sched) = Inr (tiny_id m)"
  "cleanup_confirmed tiny_lib (tiny_receipt m sched) = Inr True"
  "run_category tiny_lib (tiny_receipt m sched) JNull = Inr ''passed''"
  "validate_success tiny_lib (tiny_receipt m sched) tiny_steps = Inr ()"
  by (simp_all add: check_binding_def actor_map_def actor_entry_doc run_category_def cleanup_confirmed_def execution_category_def
      validate_success_def event_matches_def tiny_eval)

lemma tiny_observed:
  assumes "i = 0 \<or> i = Suc 0"
  shows "observation_state tiny_lib tiny_space (tiny_receipt m sched) i = Inr ''s''"
proof -
  have at: "rbind (at_key tiny_lib ''observations'' (tiny_receipt m sched)) (at_index tiny_lib i) = Inr (tiny_observation i)"
    using assms by (auto simp: tiny_receipt_def at_key_def at_index_def)
  have doc: "at_key tiny_lib ''afterSteps'' (tiny_observation i) = Inr (jcount i)"
    "at_key tiny_lib ''state'' (tiny_observation i) = Inr (JObject [(''x'', JBool True)])" "xl_eq tiny_lib (jcount i) (jcount i)"
    by (simp_all add: tiny_observation_def tiny_lib_def)
  have "project_state tiny_space [(''x'', VBool True)] = Inr [(''x'', VBool True)]"
    by (simp add: project_state_def tiny_space_def require_that_def)
  with at show ?thesis unfolding observation_state_def doc at rbind_simps by (simp add: doc(3) tiny_state lift_exn_def require_that_def)
qed

lemma tiny_ids: "execution_id_ok (tiny_id m)" "tiny_id (Suc 0) \<noteq> tiny_id 0"
  by (simp_all add: execution_id_ok_def tiny_id_def is_lower_hex_def is_digit_def byte_of_def list_all_iff)

lemma tiny_document:
  "i = JNull \<or> i = JBool True \<Longrightarrow> schedule_document tiny_lib (tiny_schedule i) = Inr (schedule_json (tiny_schedule i))"
  using tiny_encodes [of i] by (auto simp: schedule_document_def tiny_lib_def tiny_schedule_lib_def Let_def)

text \<open>The campaign after \<open>n\<close> of its runs.\<close>

definition tiny_campaign :: "nat \<Rightarrow> Campaign \<Rightarrow> bool" where
  "tiny_campaign n c = (cm_attempted c = n \<and> cm_completed c = n \<and> cm_bytes c = n \<and> \<not> cm_halt c \<and> cm_stop_reason c = []
     \<and> cm_executions c = map tiny_id (rev [0..<n]) \<and> cm_coverage_bytes c \<le> 400 * n \<and> cm_states c = (if n = 0 then [] else [(''s'', 0)]))"

lemma tiny_examined:
  assumes "tiny_campaign n c" "n < 2" "d = begin_run k schedule c"
  shows "xwp (examine_sample tiny_lib tiny_space [(''left'', ''op'')] tiny_steps (schedule_json sched) (tiny_receipt n sched, JNull))
    (\<lambda>_ t. cm_attempted t = Suc n \<and> cm_completed t = Suc n \<and> cm_bytes t = n \<and> \<not> cm_halt t \<and> cm_stop_reason t = []
       \<and> cm_executions t = map tiny_id (rev [0..<Suc n]) \<and> cm_coverage_bytes t \<le> 400 * Suc n \<and> cm_states t = [(''s'', 0)]
       \<and> run_cleanup_known t \<and> run_disposition t = ''passed'') (\<lambda>_ _. False) d"
proof -
  have n: "n = 0 \<or> n = Suc 0" using assms(2) by auto
  have fresh: "tiny_id n \<notin> set (cm_executions d)" using assms n tiny_ids(2) by (auto simp: tiny_campaign_def begin_run_def)
  have len: "length tiny_steps = Suc 0" "\<not> require_model_comparison tiny_space" by (simp_all add: tiny_steps_def tiny_space_def)
  have parse: "lib_parse (xl_json tiny_lib) ''s'' = Inr JNull" by (simp add: tiny_lib_def)
  show ?thesis
    using n fresh assms(1)
    by (auto simp: examine_sample_def put_row_def is_null_def tiny_evidence require_that_def tiny_ids account_run_def len
        record_observation_def tiny_observed intern_state_def count_transition_def charge_coverage_def coverage_limit_def parse
        tiny_campaign_def begin_run_def assms(3) Let_def split: option.split)
qed

lemma tiny_run:
  assumes "tiny_campaign n c" "n < 2"
  shows "\<exists>c'. explore_run tiny_lib tiny_env tiny_space tiny_limits [(''left'', ''op'')] (tiny_steps, n) c = Inr c' \<and> tiny_campaign (Suc n) c'"
proof -
  let ?sched = "candidate tiny_space (tiny_steps, n)"
  define i where "i = (if n = 0 then JNull else JBool True)"
  have sched: "?sched = tiny_schedule i" and i: "i = JNull \<or> i = JBool True"
    using assms(2) by (auto simp: i_def candidate_def tiny_schedule_def tiny_space_def less_2_cases_iff)
  have doc: "rbind (encode_schedule (xl_schedule tiny_lib) ?sched) (\<lambda>artifact. snd (sl_parse (xl_schedule tiny_lib) artifact))
      = Inr (schedule_json ?sched)"
    using tiny_document [OF i] sched by (simp add: schedule_document_def)
  let ?d = "begin_run n (schedule_json ?sched) c"
  define b where "b = run_body tiny_lib tiny_space [(''left'', ''op'')] ?sched (schedule_json ?sched) (Inr (tiny_receipt n ?sched, JNull)) ?d"
  have steps: "sched_steps ?sched = tiny_steps" by (simp add: candidate_def)
  from tiny_examined [OF assms refl, where k = n and schedule = "schedule_json ?sched" and sched = ?sched]
  have b: "cm_attempted b = Suc n \<and> cm_completed b = Suc n \<and> cm_bytes b = n \<and> \<not> cm_halt b \<and> cm_stop_reason b = []
      \<and> cm_executions b = map tiny_id (rev [0..<Suc n]) \<and> cm_coverage_bytes b \<le> 400 * Suc n \<and> cm_states b = [(''s'', 0)]
      \<and> run_cleanup_known b \<and> run_disposition b = ''passed''"
    unfolding b_def run_body_def xbind_def xlift_def xwp_def steps
    by (auto simp: catch_run_def split: prod.splits sum.splits)
  obtain w where w: "lib_dump (xl_json tiny_lib) (run_row (classify_run (schedule_json ?sched) b)) = Inr w" "length w = 1"
    by (simp add: tiny_lib_def)
  have "explore_run tiny_lib tiny_env tiny_space tiny_limits [(''left'', ''op'')] (tiny_steps, n) c
      = Inr (retain_run tiny_limits False 1 (classify_run (schedule_json ?sched) b))"
    unfolding explore_run_def Let_def doc using w assms(1)
    by (simp add: tiny_env_def b_def tiny_campaign_def)
  moreover have "tiny_campaign (Suc n) (retain_run tiny_limits False 1 (classify_run (schedule_json ?sched) b))"
    using b assms(2) by (simp add: tiny_campaign_def retain_run_def classify_run_def tiny_limits_def Let_def)
  ultimately show ?thesis by blast
qed

lemma tiny_explored:
  "xr_complete (explore_finite tiny_lib tiny_env tiny_space tiny_limits)"
  "cm_attempted (xr_campaign (explore_finite tiny_lib tiny_env tiny_space tiny_limits)) = 2"
proof -
  have c0: "tiny_campaign 0 (campaign_start [])" by (simp add: tiny_campaign_def campaign_start_def)
  from tiny_run [OF c0] obtain c1 where c1: "explore_run tiny_lib tiny_env tiny_space tiny_limits [(''left'', ''op'')] (tiny_steps, 0) (campaign_start []) = Inr c1"
    "tiny_campaign (Suc 0) c1" by auto
  from tiny_run [OF c1(2)] obtain c2 where c2: "explore_run tiny_lib tiny_env tiny_space tiny_limits [(''left'', ''op'')] (tiny_steps, Suc 0) c1 = Inr c2"
    "tiny_campaign (Suc (Suc 0)) c2" by auto
  have pairs: "run_pairs [tiny_steps] (length (space_inputs tiny_space)) = [(tiny_steps, 0), (tiny_steps, Suc 0)]"
    by (simp add: run_pairs_def tiny_space_def)
  have env: "xe_head tiny_env n = None" "max_runs tiny_limits = 2" "xe_has_runner tiny_env" for n
    by (simp_all add: tiny_env_def tiny_limits_def)
  have loop: "explore_loop tiny_lib tiny_env tiny_space tiny_limits [(''left'', ''op'')] [(tiny_steps, 0), (tiny_steps, Suc 0)] (campaign_start []) = Inr c2"
    using c0 c1 c2 by (simp add: env tiny_campaign_def)
  have "explore_finite tiny_lib tiny_env tiny_space tiny_limits
      = final_report (enumerate_schedules (space_search tiny_env tiny_space tiny_limits)) 2 c2"
    using tiny_checked loop pairs by (simp add: explore_finite_def env tiny_search Let_def) (simp add: tiny_space_def numeral_2_eq_2)
  then show "xr_complete (explore_finite tiny_lib tiny_env tiny_space tiny_limits)"
    "cm_attempted (xr_campaign (explore_finite tiny_lib tiny_env tiny_space tiny_limits)) = 2"
    using c2(2) tiny_search by (simp_all add: final_report_def Let_def tiny_campaign_def)
qed


theorem exploration_stops_unclean_witness:
  "\<exists>execution comparison. xe_runner tiny_env 0 (candidate tiny_space (space_pairs tiny_env tiny_space tiny_limits ! 0)) = Inr (execution, comparison)
    \<and> jfind ''cleanup'' execution = Some (JString ''confirmed'')"
proof -
  have "Suc 0 < cm_attempted (xr_campaign (explore_finite tiny_lib tiny_env tiny_space tiny_limits))" by (simp add: tiny_explored(2))
  from exploration_stops_unclean [OF tiny_lib_laws this] show ?thesis by blast
qed


end
