(* ===== verification/Sync_State.thy ===== *)
theory Sync_State
  imports Schedule_Format Error_Model
begin

text \<open>
  The controlled synchronisation of \<^verbatim>\<open>src/schedule_sync.cpp\<close>: the state shared by the controller and the actors, and
  the regions of \<^verbatim>\<open>detail::State\<close>, \<^verbatim>\<open>Hook\<close> and \<^verbatim>\<open>Execution\<close> that run under its mutex, one function each.

  Read from outside, and so arguments: the clock (milliseconds as \<open>int\<close>), the identity of the calling thread, what the
  application's callbacks return, and the printing of JSON (\<open>dump\<close>, which throws on text that is not UTF-8).
\<close>

section \<open>Data\<close>

record Pending =
  pend_op :: string
  pend_resource :: string
  pend_value :: "64 word"

record SyncActor =
  sa_id :: string
  sa_thread :: "nat option"
  sa_pending :: Pending
  sa_parked :: bool
  sa_grant :: bool
  sa_finished :: bool
  sa_version :: nat

text \<open>An enumeration can hold a value of none of its names.\<close>

datatype Kind = KMutex | KQueue | KOther

record Resource =
  res_id :: string
  res_kind :: Kind
  res_capacity :: nat

record Owned =
  own_decl :: Resource
  own_owner :: string
  own_queue :: "64 word list"

record SyncPolicy =
  sp_max_actors :: nat
  sp_max_resources :: nat
  sp_max_decisions :: nat
  sp_max_evidence :: nat
  sp_execution_timeout :: int
  sp_cleanup_timeout :: int
  sp_exploration_timeout :: int

record SyncReport =
  sr_outcome :: string
  sr_detail :: string
  sr_cleanup :: string
  sr_finished :: bool
  sr_decisions :: nat
  sr_execution_exceeded :: bool
  sr_cleanup_exceeded :: bool

definition sync_passed :: "SyncReport \<Rightarrow> bool" where
  "sync_passed r = (sr_outcome r = ''completed'' \<and> sr_finished r \<and> sr_cleanup r = ''confirmed''
     \<and> \<not> sr_execution_exceeded r \<and> \<not> sr_cleanup_exceeded r)"

text \<open>The deadline is \<open>None\<close> while it is \<^verbatim>\<open>time_point::max()\<close>.\<close>

record SyncState =
  ss_actors :: "SyncActor list"
  ss_resources :: "Owned smap"
  ss_report :: SyncReport
  ss_cancelled :: bool
  ss_ended :: bool
  ss_events :: "Json list"
  ss_observations :: "Json list"
  ss_graph :: Json
  ss_policy :: SyncPolicy
  ss_deadline :: "int option"

type_synonym json_dump = "Json \<Rightarrow> string + string"

section \<open>The shared state\<close>

definition size_json :: "nat \<Rightarrow> Json" where
  "size_json n = JUnsigned (word_of_nat n)"

definition failure_graph :: "SyncState \<Rightarrow> Json" where
  "failure_graph s = jobject
     [(''owners'', jobject (map (\<lambda>(k, r). (k, JString (own_owner r))) (ss_resources s))),
      (''waits'', JArray (map (\<lambda>a. jobject [(''actor'', JString (sa_id a)), (''operation'', JString (pend_op (sa_pending a))),
         (''resource'', JString (pend_resource (sa_pending a)))])
         (filter (\<lambda>a. \<not> sa_finished a \<and> sa_parked a) (ss_actors s)))),
      (''contents'', jobject (map (\<lambda>(k, r). (k, JArray (map JInteger (own_queue r)))) (ss_resources s)))]"

definition sync_fail :: "string \<Rightarrow> string \<Rightarrow> SyncState \<Rightarrow> SyncState" where
  "sync_fail outcome detail s =
     (let s = (if sr_outcome (ss_report s) = ''completed''
        then s\<lparr> ss_report := (ss_report s)\<lparr> sr_outcome := outcome, sr_detail := detail \<rparr>, ss_graph := failure_graph s \<rparr> else s)
      in s\<lparr> ss_cancelled := True \<rparr>)"

definition execution_expired :: "int \<Rightarrow> string \<Rightarrow> SyncState \<Rightarrow> SyncState \<times> bool" where
  "execution_expired now location s =
     (if ss_ended s \<or> (case ss_deadline s of None \<Rightarrow> True | Some d \<Rightarrow> now < d) then (s, False)
      else (sync_fail ''timed_out'' location (s\<lparr> ss_report := (ss_report s)\<lparr> sr_execution_exceeded := True \<rparr> \<rparr>), True))"

definition cleanup_expired :: "SyncState \<Rightarrow> SyncState" where
  "cleanup_expired s = sync_fail ''timed_out'' ''cleanup deadline exceeded''
     (s\<lparr> ss_report := (ss_report s)\<lparr> sr_cleanup_exceeded := True \<rparr> \<rparr>)"

definition evidence_fits :: "json_dump \<Rightarrow> Json list \<Rightarrow> Json \<Rightarrow> SyncState \<Rightarrow> string + bool" where
  "evidence_fits dump destination row s =
     rbind (dump (JArray (ss_events s))) (\<lambda>e.
     rbind (dump (JArray (ss_observations s))) (\<lambda>w.
     rbind (dump row) (\<lambda>r.
     Inr (length e + length w + length r + (if destination = [] then 0 else 1) \<le> sp_max_evidence (ss_policy s)))))"

text \<open>\<open>Inl\<close> is an exception of the printer.\<close>

definition sync_event :: "json_dump \<Rightarrow> (string \<times> Json) list \<Rightarrow> SyncState \<Rightarrow> SyncState \<times> (string + bool)" where
  "sync_event dump entries s =
     (let row = jobject (entries @ [(''ordinal'', size_json (length (ss_events s)))]) in
      case evidence_fits dump (ss_events s) row s of
        Inl what \<Rightarrow> (s, Inl what)
      | Inr False \<Rightarrow> (sync_fail ''evidence_exhausted'' ''receipt byte bound'' s, Inr False)
      | Inr True \<Rightarrow> (s\<lparr> ss_events := ss_events s @ [row] \<rparr>, Inr True))"

definition free_op :: "string \<Rightarrow> bool" where
  "free_op op = (op = ''start'' \<or> op = ''checkpoint'' \<or> op = ''$done'')"

definition op_enabled :: "string \<Rightarrow> string \<Rightarrow> Owned \<Rightarrow> bool" where
  "op_enabled actor op r =
     (if op = ''lock'' then own_owner r = []
      else if op = ''unlock'' then own_owner r = actor
      else if op = ''send'' then length (own_queue r) < res_capacity (own_decl r)
      else op = ''receive'' \<and> own_queue r \<noteq> [])"

definition pending_enabled :: "SyncState \<Rightarrow> string \<Rightarrow> Pending \<Rightarrow> bool" where
  "pending_enabled s actor p = (free_op (pend_op p) \<or>
     (case map_of (ss_resources s) (pend_resource p) of None \<Rightarrow> False | Some r \<Rightarrow> op_enabled actor (pend_op p) r))"

definition actor_enabled :: "SyncState \<Rightarrow> nat \<Rightarrow> bool" where
  "actor_enabled s i = (let a = ss_actors s ! i in
     sa_parked a \<and> \<not> sa_finished a \<and> pending_enabled s (sa_id a) (sa_pending a))"

definition all_parked_or_finished :: "SyncState \<Rightarrow> bool" where
  "all_parked_or_finished s = list_all (\<lambda>a. sa_parked a \<or> sa_finished a) (ss_actors s)"

definition actors_finished :: "SyncState \<Rightarrow> bool" where
  "actors_finished s = list_all sa_finished (ss_actors s)"

definition enabled_ids :: "SyncState \<Rightarrow> string list" where
  "enabled_ids s = map (\<lambda>i. sa_id (ss_actors s ! i)) (filter (actor_enabled s) [0..<length (ss_actors s)])"

section \<open>Validation\<close>

definition sync_identifier :: "string \<Rightarrow> bool" where
  "sync_identifier t = (t \<noteq> [] \<and> length t \<le> 128 \<and>
     list_all (\<lambda>c. is_lower c \<or> is_upper c \<or> is_digit c \<or> c \<in> {CHR ''_'', CHR ''-'', CHR ''.''}) t)"

fun inert_json :: "nat \<Rightarrow> Json \<Rightarrow> bool" where
  "inert_json depth (JObject kvs) = (depth \<le> 32 \<and> list_all (\<lambda>kv. inert_json (depth + 1) (snd kv)) kvs)"
| "inert_json depth (JArray js) = (depth \<le> 32 \<and> list_all (inert_json (depth + 1)) js)"
| "inert_json depth JBinary = False"
| "inert_json depth JDiscarded = False"
| "inert_json depth (JFloat d) = (depth \<le> 32 \<and> d \<noteq> NonFinite)"
| "inert_json depth j = (depth \<le> 32)"

definition one_hour :: int where
  "one_hour = 3600000"

definition valid_policy :: "SyncPolicy \<Rightarrow> bool" where
  "valid_policy p = (0 < sp_max_actors p \<and> sp_max_actors p \<le> 16 \<and> 0 < sp_max_resources p \<and> sp_max_resources p \<le> 32
     \<and> 0 < sp_max_decisions p \<and> sp_max_decisions p \<le> 4096 \<and> 256 \<le> sp_max_evidence p \<and> sp_max_evidence p \<le> 32 * 1024 * 1024
     \<and> 0 < sp_execution_timeout p \<and> sp_execution_timeout p \<le> one_hour \<and> 0 < sp_cleanup_timeout p \<and> sp_cleanup_timeout p \<le> one_hour
     \<and> 0 < sp_exploration_timeout p \<and> sp_exploration_timeout p \<le> one_hour)"

section \<open>Requests of an actor\<close>

definition upd_sync_actor :: "nat \<Rightarrow> (SyncActor \<Rightarrow> SyncActor) \<Rightarrow> SyncState \<Rightarrow> SyncState" where
  "upd_sync_actor i f s = s\<lparr> ss_actors := (ss_actors s)[i := f (ss_actors s ! i)] \<rparr>"

definition upd_owned :: "string \<Rightarrow> (Owned \<Rightarrow> Owned) \<Rightarrow> SyncState \<Rightarrow> SyncState" where
  "upd_owned k f s = s\<lparr> ss_resources := map (\<lambda>(k', r). (k', if k' = k then f r else r)) (ss_resources s) \<rparr>"

text \<open>What a request on a declared resource must satisfy before it waits.\<close>

definition proper_use :: "string \<Rightarrow> string \<Rightarrow> Owned \<Rightarrow> bool" where
  "proper_use actor op r =
     (let mutex_op = (op = ''lock'' \<or> op = ''unlock'') in
      \<not> ((mutex_op \<and> res_kind (own_decl r) \<noteq> KMutex) \<or> (\<not> mutex_op \<and> res_kind (own_decl r) \<noteq> KQueue)
         \<or> (op = ''lock'' \<and> own_owner r = actor) \<or> (op = ''unlock'' \<and> own_owner r \<noteq> actor)))"

text \<open>\<^verbatim>\<open>Hook::request\<close> up to its wait; the flag says that the caller waits, otherwise an exception was thrown.\<close>

definition request_enter :: "nat \<Rightarrow> nat \<Rightarrow> string \<Rightarrow> string \<Rightarrow> 64 word \<Rightarrow> SyncState \<Rightarrow> SyncState \<times> bool" where
  "request_enter tid i op resource value s =
     (if sa_thread (ss_actors s ! i) \<noteq> Some tid then (sync_fail ''resource_misuse'' ''foreign hook caller'' s, False)
      else if ss_cancelled s then (s, False)
      else
        (let park = upd_sync_actor i (\<lambda>a. a\<lparr> sa_pending := \<lparr> pend_op = op, pend_resource = resource, pend_value = value \<rparr>,
                 sa_parked := True, sa_grant := False, sa_version := sa_version a + 1 \<rparr>) s in
         if free_op op then (park, True)
         else case map_of (ss_resources s) resource of
             None \<Rightarrow> (sync_fail ''resource_misuse'' ''unknown resource'' s, False)
           | Some r \<Rightarrow>
               (if proper_use (sa_id (ss_actors s ! i)) op r then (park, True)
                else (sync_fail ''resource_misuse'' ''kind, recursive acquire or wrong owner'' s, False))))"

text \<open>The waiting caller runs again when it is granted or everything is cancelled.\<close>

definition request_wakes :: "nat \<Rightarrow> SyncState \<Rightarrow> bool" where
  "request_wakes i s = (ss_cancelled s \<or> sa_grant (ss_actors s ! i))"

text \<open>The effect of a granted operation on its resource; \<open>None\<close> where \<^verbatim>\<open>at\<close> throws or \<^verbatim>\<open>front\<close> has no element.\<close>

definition perform_op :: "string \<Rightarrow> Pending \<Rightarrow> SyncState \<Rightarrow> (SyncState \<times> 64 word) option" where
  "perform_op actor p s =
     (if pend_op p \<notin> {''lock'', ''unlock'', ''send'', ''receive''} then Some (s, pend_value p)
      else case map_of (ss_resources s) (pend_resource p) of
        None \<Rightarrow> None
      | Some r \<Rightarrow>
          (if pend_op p = ''lock'' then Some (upd_owned (pend_resource p) (\<lambda>r. r\<lparr> own_owner := actor \<rparr>) s, pend_value p)
           else if pend_op p = ''unlock'' then Some (upd_owned (pend_resource p) (\<lambda>r. r\<lparr> own_owner := [] \<rparr>) s, pend_value p)
           else if pend_op p = ''send''
           then Some (upd_owned (pend_resource p) (\<lambda>r. r\<lparr> own_queue := own_queue r @ [pend_value p] \<rparr>) s, pend_value p)
           else if own_queue r = [] then None
           else Some (upd_owned (pend_resource p) (\<lambda>r. r\<lparr> own_queue := tl (own_queue r) \<rparr>) s, hd (own_queue r))))"

text \<open>\<^verbatim>\<open>Hook::request\<close> after its wait: \<open>Inl\<close> is an exception (of the cancellation or of the printer), \<open>Inr\<close> the value.\<close>

definition request_resume :: "json_dump \<Rightarrow> nat \<Rightarrow> SyncState \<Rightarrow> (SyncState \<times> (string + 64 word)) option" where
  "request_resume dump i s =
     (if ss_cancelled s then Some (s, Inl ''controlled execution cancelled'')
      else
        (let p = sa_pending (ss_actors s ! i); actor = sa_id (ss_actors s ! i);
             s = upd_sync_actor i (\<lambda>a. a\<lparr> sa_grant := False, sa_parked := False \<rparr>) s in
         map_option (\<lambda>(s, v).
           (case sync_event dump [(''kind'', JString ''result''), (''actor'', JString actor), (''operation'', JString (pend_op p)),
                (''resource'', JString (pend_resource p)), (''value'', JInteger v)] s of
              (s, Inl what) \<Rightarrow> (s, Inl what)
            | (s, Inr _) \<Rightarrow> (s, Inr v)))
           (perform_op actor p s)))"

definition unwind_release :: "nat \<Rightarrow> string \<Rightarrow> SyncState \<Rightarrow> SyncState" where
  "unwind_release i resource s =
     (case map_of (ss_resources s) resource of
        None \<Rightarrow> s
      | Some r \<Rightarrow> if own_owner r = sa_id (ss_actors s ! i) then upd_owned resource (\<lambda>r. r\<lparr> own_owner := [] \<rparr>) s else s)"

section \<open>The thread of an actor\<close>

definition thread_register :: "nat \<Rightarrow> nat \<Rightarrow> SyncState \<Rightarrow> SyncState" where
  "thread_register i tid = upd_sync_actor i (\<lambda>a. a\<lparr> sa_thread := Some tid \<rparr>)"

definition thread_threw :: "SyncState \<Rightarrow> SyncState" where
  "thread_threw s = (if ss_cancelled s then s else sync_fail ''application_failed'' ''worker threw'' s)"

text \<open>The last region: every mutex the actor still holds is cleared, in the order of the map.\<close>

fun release_all :: "string \<Rightarrow> string list \<Rightarrow> SyncState \<Rightarrow> SyncState" where
  "release_all actor [] s = s"
| "release_all actor (k # ks) s = release_all actor ks
     (case map_of (ss_resources s) k of
        None \<Rightarrow> s
      | Some r \<Rightarrow>
          (if own_owner r = actor
           then upd_owned k (\<lambda>r. r\<lparr> own_owner := [] \<rparr>)
             (if ss_cancelled s then s else sync_fail ''resource_misuse'' ''actor completed holding mutex'' s)
           else s))"

definition thread_end :: "nat \<Rightarrow> SyncState \<Rightarrow> SyncState" where
  "thread_end i s =
     upd_sync_actor i (\<lambda>a. a\<lparr> sa_finished := True, sa_parked := False, sa_version := sa_version a + 1 \<rparr>)
       (release_all (sa_id (ss_actors s ! i)) (map fst (ss_resources s)) s)"

end
