(* ===== verification/Sync_Execution.thy ===== *)
theory Sync_Execution
  imports Sync_State
begin

text \<open>
  \<^verbatim>\<open>Execution\<close> of \<^verbatim>\<open>src/schedule_sync.cpp\<close>, region by region, and the interleavings of the controller with the threads of
  the actors. Between two regions a thread stands at a program counter (\<open>wpc\<close>, \<open>sctl\<close>): at the waits, the joins and in
  application code. \<open>sync_step\<close> performs one region, \<open>sync_reachable\<close> is the set of states of all interleavings and all
  environments.

  A body may call any operation of its hook, keep calling after an exception, release mutexes while it unwinds, return
  or throw; other threads may call the hook as well. \<open>sy_teardowns\<close> counts the calls of the application's teardown.
\<close>

section \<open>Executions\<close>

record SyncProgram =
  pg_workers :: "(string \<times> bool) list"
  pg_observe :: bool
  pg_teardown :: bool

record SyncAdapter =
  ad_identity :: Identity
  ad_actors :: "string list"
  ad_resources :: "Resource list"
  ad_factory :: bool

record SyncExec =
  sx_state :: SyncState
  sx_adapter :: SyncAdapter
  sx_program :: SyncProgram
  sx_joinable :: "bool list"
  sx_acquired :: bool
  sx_teardown_attempted :: bool
  sx_observing :: bool

abbreviation on_state :: "(SyncState \<Rightarrow> SyncState) \<Rightarrow> SyncExec \<Rightarrow> SyncExec" where
  "on_state f ex \<equiv> ex\<lparr> sx_state := f (sx_state ex) \<rparr>"

abbreviation set_finished :: "SyncState \<Rightarrow> SyncState" where
  "set_finished s \<equiv> s\<lparr> ss_report := (ss_report s)\<lparr> sr_finished := actors_finished s \<rparr> \<rparr>"

abbreviation set_cleanup :: "string \<Rightarrow> SyncState \<Rightarrow> SyncState" where
  "set_cleanup c s \<equiv> s\<lparr> ss_report := (ss_report s)\<lparr> sr_cleanup := c \<rparr> \<rparr>"

section \<open>Construction\<close>

definition new_sync :: "SyncPolicy \<Rightarrow> SyncState" where
  "new_sync policy = \<lparr> ss_actors = [], ss_resources = [],
     ss_report = \<lparr> sr_outcome = ''completed'', sr_detail = [], sr_cleanup = ''not_started'', sr_finished = False,
       sr_decisions = 0, sr_execution_exceeded = False, sr_cleanup_exceeded = False \<rparr>,
     ss_cancelled = False, ss_ended = False, ss_events = [], ss_observations = [], ss_graph = JNull, ss_policy = policy,
     ss_deadline = None \<rparr>"

definition refuse :: "string \<Rightarrow> SyncState \<Rightarrow> SyncState" where
  "refuse detail s = set_cleanup ''not_started'' (sync_fail ''invalid_profile'' detail s)"

definition new_actor :: "string \<Rightarrow> SyncActor" where
  "new_actor actor = \<lparr> sa_id = actor, sa_thread = None, sa_pending = \<lparr> pend_op = [], pend_resource = [], pend_value = 0 \<rparr>,
     sa_parked = False, sa_grant = False, sa_finished = False, sa_version = 0 \<rparr>"

text \<open>The flag says that construction goes on.\<close>

fun declare_actors :: "string set \<Rightarrow> string list \<Rightarrow> SyncState \<Rightarrow> SyncState \<times> bool" where
  "declare_actors seen [] s = (s, True)"
| "declare_actors seen (a # as) s =
     (if \<not> sync_identifier a \<or> a \<in> seen then (refuse ''invalid or duplicate actor'' s, False)
      else declare_actors (insert a seen) as (s\<lparr> ss_actors := ss_actors s @ [new_actor a] \<rparr>))"

fun declare_resources :: "Resource list \<Rightarrow> SyncState \<Rightarrow> SyncState \<times> bool" where
  "declare_resources [] s = (s, True)"
| "declare_resources (r # rs) s =
     (if \<not> sync_identifier (res_id r) \<or> map_of (ss_resources s) (res_id r) \<noteq> None
         \<or> (res_kind r \<noteq> KMutex \<and> res_kind r \<noteq> KQueue) \<or> (res_kind r = KMutex \<and> res_capacity r \<noteq> 0)
         \<or> (res_kind r = KQueue \<and> (res_capacity r = 0 \<or> 64 < res_capacity r))
      then (refuse ''invalid or duplicate resource'' s, False)
      else declare_resources rs
        (s\<lparr> ss_resources := om_put (res_id r) \<lparr> own_decl = r, own_owner = [], own_queue = [] \<rparr> (ss_resources s) \<rparr>))"

definition profile_ok :: "SyncPolicy \<Rightarrow> SyncAdapter \<Rightarrow> bool" where
  "profile_ok policy adapter = (valid_policy policy \<and> identity_valid (ad_identity adapter) \<and> ad_factory adapter
     \<and> ad_actors adapter \<noteq> [] \<and> length (ad_actors adapter) \<le> sp_max_actors policy
     \<and> length (ad_resources adapter) \<le> sp_max_resources policy)"

definition deadline_min :: "int \<Rightarrow> int option \<Rightarrow> int" where
  "deadline_min t ceiling = (case ceiling of None \<Rightarrow> t | Some c \<Rightarrow> min t c)"

definition sync_prepare :: "SyncPolicy \<Rightarrow> SyncAdapter \<Rightarrow> int option \<Rightarrow> int \<Rightarrow> int \<Rightarrow> SyncState \<times> bool" where
  "sync_prepare policy adapter ceiling now now' =
     (let s = new_sync policy in
      if \<not> profile_ok policy adapter then (refuse ''invalid bounds, identity or factory'' s, False)
      else (case declare_actors {} (sort (ad_actors adapter))
               (s\<lparr> ss_deadline := Some (deadline_min (now + sp_execution_timeout policy) ceiling) \<rparr>) of
          (s, False) \<Rightarrow> (s, False)
        | (s, True) \<Rightarrow>
            (case declare_resources (ad_resources adapter) s of
               (s, False) \<Rightarrow> (s, False)
             | (s, True) \<Rightarrow> map_prod id Not (execution_expired now' ''execution deadline before factory'' s))))"

definition empty_sync_program :: SyncProgram where
  "empty_sync_program = \<lparr> pg_workers = [], pg_observe = False, pg_teardown = False \<rparr>"

definition new_exec :: "SyncAdapter \<Rightarrow> SyncState \<Rightarrow> SyncExec" where
  "new_exec adapter s = \<lparr> sx_state = s, sx_adapter = adapter, sx_program = empty_sync_program, sx_joinable = [],
     sx_acquired = False, sx_teardown_attempted = False, sx_observing = False \<rparr>"

definition program_fits :: "SyncProgram \<Rightarrow> SyncState \<Rightarrow> string option" where
  "program_fits p s =
     (if \<not> pg_observe p \<or> \<not> pg_teardown p \<or> length (pg_workers p) \<noteq> length (ss_actors s) then Some ''invalid program''
      else if \<not> list_all2 (\<lambda>w a. fst w = sa_id a \<and> snd w) (sort_key fst (pg_workers p)) (ss_actors s) then Some ''worker set differs''
      else None)"

text \<open>The factory's result, \<open>None\<close> when it threw; the flag says that threads are created next.\<close>

definition sync_construct :: "SyncProgram option \<Rightarrow> int \<Rightarrow> SyncExec \<Rightarrow> SyncExec \<times> bool" where
  "sync_construct made now ex =
     (let ex = (case made of
          None \<Rightarrow> on_state (sync_fail ''application_failed'' ''factory threw'') ex
        | Some p \<Rightarrow> ex\<lparr> sx_program := p, sx_acquired := True \<rparr>) in
      case execution_expired now ''execution deadline during factory'' (sx_state ex) of
        (s, late) \<Rightarrow>
          (let ex = ex\<lparr> sx_state := s \<rparr> in
           if late \<or> ss_cancelled s then (ex, False)
           else case program_fits (sx_program ex) s of
               Some detail \<Rightarrow> (on_state (sync_fail ''application_failed'' detail) ex, False)
             | None \<Rightarrow> (ex, True)))"

text \<open>The next thread is created, or creating it throws.\<close>

definition sync_spawn :: "bool \<Rightarrow> SyncExec \<Rightarrow> SyncExec" where
  "sync_spawn created ex =
     (if created then ex\<lparr> sx_joinable := sx_joinable ex @ [True] \<rparr>
      else on_state (sync_fail ''application_failed'' ''thread creation failed'') ex)"

definition wait_ended :: "(SyncState \<Rightarrow> bool) \<Rightarrow> int \<Rightarrow> SyncState \<Rightarrow> bool" where
  "wait_ended P now s = (P s \<or> (case ss_deadline s of None \<Rightarrow> False | Some d \<Rightarrow> d \<le> now))"

definition sync_barrier :: "int \<Rightarrow> SyncState \<Rightarrow> SyncState" where
  "sync_barrier now s =
     fst (execution_expired now ''execution deadline at initial barrier''
       (if ss_cancelled s \<or> all_parked_or_finished s then s else sync_fail ''timed_out'' ''initial barrier'' s))"

section \<open>Observation\<close>

definition observe_begin :: "int \<Rightarrow> SyncExec \<Rightarrow> SyncExec \<times> bool" where
  "observe_begin now ex = (case execution_expired now ''execution deadline before observer'' (sx_state ex) of
     (s, late) \<Rightarrow> if late \<or> ss_cancelled s then (ex\<lparr> sx_state := s \<rparr>, False) else (ex\<lparr> sx_state := s, sx_observing := True \<rparr>, True))"

text \<open>After the callback, whose result is \<open>None\<close> when it threw. The second component is an exception of the printer.\<close>

definition observation_row :: "nat \<Rightarrow> Json \<Rightarrow> Json" where
  "observation_row decisions v = jobject [(''afterDecisions'', size_json decisions), (''state'', v)]"

definition retain_observation :: "json_dump \<Rightarrow> Json \<Rightarrow> int \<Rightarrow> int \<Rightarrow> SyncState \<Rightarrow> SyncState \<times> string option" where
  "retain_observation dump row now now' s =
     (case evidence_fits dump (ss_observations s) row s of
        Inl what \<Rightarrow> (s, Some what)
      | Inr False \<Rightarrow> (sync_fail ''evidence_exhausted'' ''observation shape or bound'' s, None)
      | Inr True \<Rightarrow>
          (case execution_expired now ''execution deadline retaining observation'' s of
             (s, True) \<Rightarrow> (s, None)
           | (s, False) \<Rightarrow>
               (case execution_expired now' ''execution deadline after observation retention''
                    (s\<lparr> ss_observations := ss_observations s @ [row] \<rparr>) of
                  (s, True) \<Rightarrow> (s\<lparr> ss_observations := butlast (ss_observations s) \<rparr>, None)
                | (s, False) \<Rightarrow> (if sr_finished (ss_report s) then s\<lparr> ss_ended := True \<rparr> else s, None))))"

definition observe_end :: "json_dump \<Rightarrow> Json option \<Rightarrow> int \<Rightarrow> int \<Rightarrow> int \<Rightarrow> SyncState \<Rightarrow> SyncState \<times> string option" where
  "observe_end dump result now1 now2 now3 s =
     (let s = (if result = None then sync_fail ''observation_failed'' ''observer threw'' s else s) in
      case execution_expired now1 ''execution deadline during observer'' s of
        (s, late) \<Rightarrow>
          (if late \<or> ss_cancelled s then (s, None)
           else case result of
               None \<Rightarrow> (s, None)
             | Some v \<Rightarrow>
                 (if \<not> is_object v \<or> \<not> inert_json 0 v then (sync_fail ''evidence_exhausted'' ''observation shape or bound'' s, None)
                  else retain_observation dump (observation_row (sr_decisions (ss_report s)) v) now2 now3 s)))"

section \<open>Queries and decisions\<close>

text \<open>\<^verbatim>\<open>Execution::enabled\<close>, called by the controller outside callbacks.\<close>

definition enabled_query :: "int \<Rightarrow> SyncState \<Rightarrow> SyncState \<times> string list" where
  "enabled_query now s = (case execution_expired now ''execution deadline before enabled query'' s of
     (s, late) \<Rightarrow>
       (if late \<or> ss_cancelled s \<or> sr_outcome (ss_report s) \<noteq> ''completed'' then (s, [])
        else (let ids = enabled_ids s in
          (if ids = [] \<and> \<not> actors_finished s \<and> all_parked_or_finished s
           then sync_fail ''controlled_deadlock'' ''all unfinished actors wait on declared resources'' s else s, ids))))"

definition sync_find :: "string \<Rightarrow> SyncState \<Rightarrow> nat option" where
  "sync_find actor s = List.find (\<lambda>i. sa_id (ss_actors s ! i) = actor) [0..<length (ss_actors s)]"

datatype decision = Refused_decision | Thrown_decision | Granted_to nat nat

text \<open>\<^verbatim>\<open>Execution::advance\<close> up to its wait: the granted actor and the version it had.\<close>

definition advance_grant :: "json_dump \<Rightarrow> string \<Rightarrow> int \<Rightarrow> SyncState \<Rightarrow> SyncState \<times> decision" where
  "advance_grant dump actor now s = (case execution_expired now ''execution deadline before decision'' s of
     (s, late) \<Rightarrow>
       (if late \<or> ss_cancelled s then (s, Refused_decision)
        else case (case sync_find actor s of None \<Rightarrow> None | Some i \<Rightarrow> if actor_enabled s i then Some i else None) of
            None \<Rightarrow> (sync_fail ''disabled_choice'' ''actor is not enabled'' s, Refused_decision)
          | Some i \<Rightarrow>
              (if sp_max_decisions (ss_policy s) \<le> sr_decisions (ss_report s)
               then (sync_fail ''decision_exhausted'' ''decision bound'' s, Refused_decision)
               else let a = ss_actors s ! i in
                 (case sync_event dump [(''kind'', JString ''grant''), (''actor'', JString (sa_id a)),
                      (''operation'', JString (pend_op (sa_pending a))), (''resource'', JString (pend_resource (sa_pending a))),
                      (''enabled'', JArray (map JString (enabled_ids s)))] s of
                    (s, Inl _) \<Rightarrow> (s, Thrown_decision)
                  | (s, Inr False) \<Rightarrow> (s, Refused_decision)
                  | (s, Inr True) \<Rightarrow>
                      (upd_sync_actor i (\<lambda>a. a\<lparr> sa_grant := True \<rparr>)
                         (s\<lparr> ss_report := (ss_report s)\<lparr> sr_decisions := sr_decisions (ss_report s) + 1 \<rparr> \<rparr>),
                       Granted_to i (sa_version a))))))"

definition boundary_reached :: "nat \<Rightarrow> nat \<Rightarrow> SyncState \<Rightarrow> bool" where
  "boundary_reached i version s = (ss_cancelled s \<or> sa_version (ss_actors s ! i) \<noteq> version)"

datatype after_wait = Return_report | Join_worker nat | Observe_now

definition advance_boundary :: "nat \<Rightarrow> nat \<Rightarrow> bool \<Rightarrow> int \<Rightarrow> int \<Rightarrow> SyncState \<Rightarrow> SyncState \<times> after_wait" where
  "advance_boundary i version joinable now now' s =
     (let s = (if boundary_reached i version s then s else sync_fail ''timed_out'' ''actor did not reach resource boundary'' s);
          s = fst (execution_expired now ''execution deadline after actor boundary'' s) in
      if ss_cancelled s then (s, Return_report)
      else if sa_finished (ss_actors s ! i) \<and> joinable
      then (case execution_expired now' ''execution deadline before completion join'' s of
              (s, True) \<Rightarrow> (s, Return_report) | (s, False) \<Rightarrow> (s, Join_worker i))
      else (set_finished s, Observe_now))"

definition advance_after_join :: "int \<Rightarrow> SyncState \<Rightarrow> SyncState \<times> after_wait" where
  "advance_after_join now s = (case execution_expired now ''execution deadline during completion join'' (set_finished s) of
     (s, late) \<Rightarrow> if late \<or> ss_cancelled s then (s, Return_report) else (set_finished s, Observe_now))"

section \<open>Cleanup\<close>

definition cleanup_started :: "int \<Rightarrow> SyncState \<Rightarrow> SyncState \<times> bool" where
  "cleanup_started now s =
     (if sr_cleanup (ss_report s) = ''confirmed'' \<or> sr_cleanup (ss_report s) = ''teardown_failed'' then (s, False)
      else (let s = (if sr_outcome (ss_report s) = ''completed'' \<and> \<not> sr_finished (ss_report s)
          then (let s = fst (execution_expired now ''execution deadline before cleanup'' s) in
            if sr_outcome (ss_report s) = ''completed'' then sync_fail ''cancelled'' ''controller cancelled incomplete prefix'' s else s)
          else s) in (s\<lparr> ss_cancelled := True \<rparr>, True)))"

definition workers_ended :: "SyncExec \<Rightarrow> bool" where
  "workers_ended ex = list_all (\<lambda>i. sa_finished (ss_actors (sx_state ex) ! i)) [0..<length (sx_joinable ex)]"

definition cleanup_incomplete :: "SyncState \<Rightarrow> SyncState" where
  "cleanup_incomplete s = set_cleanup ''incomplete'' (cleanup_expired s)"

definition late_callback :: "int \<Rightarrow> int \<Rightarrow> SyncState \<Rightarrow> SyncState" where
  "late_callback until now s = (if until \<le> now then cleanup_expired s else s)"

definition cleanup_verdict :: "bool \<Rightarrow> SyncExec \<Rightarrow> SyncExec" where
  "cleanup_verdict teardown_failed ex = on_state (set_cleanup
     (if teardown_failed then ''teardown_failed'' else if sx_acquired ex then ''confirmed'' else ''not_started'')) ex"

section \<open>The receipt\<close>

definition sync_profile :: string where
  "sync_profile = ''mirrorcpp.controlled-sync-experimental/v1''"

definition resource_row :: "string \<times> Owned \<Rightarrow> Json" where
  "resource_row kr = (case kr of (k, r) \<Rightarrow> jobject [(''id'', JString k),
     (''kind'', JString (if res_kind (own_decl r) = KMutex then ''mutex'' else ''queue'')),
     (''capacity'', size_json (res_capacity (own_decl r))), (''owner'', JString (own_owner r)),
     (''contents'', JArray (map JInteger (own_queue r)))])"

definition actor_row :: "SyncState \<Rightarrow> nat \<Rightarrow> Json" where
  "actor_row s i = (let a = ss_actors s ! i in jobject [(''actor'', JString (sa_id a)),
     (''state'', JString (if sa_finished a then ''finished''
        else if sa_parked a then (if actor_enabled s i then ''enabled'' else ''blocked'') else ''running'')),
     (''operation'', JString (pend_op (sa_pending a))), (''resource'', JString (pend_resource (sa_pending a)))])"

definition sync_receipt :: "string \<Rightarrow> SyncExec \<Rightarrow> Json" where
  "sync_receipt execution_id ex = (let s = sx_state ex; r = ss_report s in jobject
     [(''schema'', JString ''mirrors.controlled-sync-replay/v1''), (''profile'', JString sync_profile),
      (''executionId'', JString execution_id), (''identity'', identity_json (ad_identity (sx_adapter ex))),
      (''outcome'', JString (sr_outcome r)), (''detail'', JString (sr_detail r)), (''finished'', JBool (sr_finished r)),
      (''cleanup'', JString (sr_cleanup r)), (''passed'', JBool (sync_passed r)),
      (''budgetExceeded'', jobject [(''execution'', JBool (sr_execution_exceeded r)), (''cleanup'', JBool (sr_cleanup_exceeded r))]),
      (''decisions'', size_json (sr_decisions r)), (''events'', JArray (ss_events s)), (''observations'', JArray (ss_observations s)),
      (''resources'', JArray (map resource_row (ss_resources s))),
      (''actors'', JArray (map (actor_row s) [0..<length (ss_actors s)])), (''failureGraph'', ss_graph s),
      (''coverage'', JString ''recorded-controlled-resource-decisions-only''), (''modelComparison'', JBool False)])"

end
