(* ===== verification/Sync_Machine.thy ===== *)
theory Sync_Machine
  imports Sync_Execution
begin

text \<open>
  The interleavings of the controlled synchronisation of \<^verbatim>\<open>src/schedule_sync.cpp\<close>: one program counter per worker, one
  for the controller, and the step function that performs one region.
\<close>

section \<open>Program counters\<close>

text \<open>A worker waits in the request of its start, of an operation of its body, or of its completion.\<close>

datatype stage = StStart | StBody | StDone

datatype wpc = WSpawned | WReady | WWait stage | WBody | WReturned | WRaised | WEnding | WFinished | WExited

datatype observer_of = ByConstructor | ByAdvance

datatype sctl =
    SFactory | SSpawn | SBarrier | SObserve observer_of | SInObserver observer_of | SIdle
  | SWaiting nat nat | SJoining nat
  | SCleanWait int | SCleanNext nat int | SCleanJoining nat int | SInTeardown int
  | SDestroyNext nat | SDestroyed | STerminated

record SyncSys =
  sy_exec :: SyncExec
  sy_pcs :: "wpc list"
  sy_ctl :: sctl
  sy_teardowns :: nat

datatype sync_action =
    AcRegister nat nat
  | AcRequest nat string string "64 word"
  | AcForeign nat nat string string "64 word"
  | AcResume nat
  | AcRelease nat string
  | AcBodyEnd nat bool
  | AcCaught nat
  | AcEnd nat
  | AcExit nat
  | AcFactory "SyncProgram option" int
  | AcSpawn bool
  | AcBarrier int
  | AcObserve int
  | AcObserved "Json option" int int int
  | AcEnabled int
  | AcAdvance string int
  | AcBoundary int int
  | AcJoined int
  | AcCleanup int int int
  | AcCleanWaited int
  | AcCleanNext int
  | AcCleanJoined int
  | AcTeardown bool int
  | AcDestroy
  | AcDestroyNext

abbreviation sy_state :: "SyncSys \<Rightarrow> SyncState" where
  "sy_state y \<equiv> sx_state (sy_exec y)"

abbreviation upd_sync :: "(SyncState \<Rightarrow> SyncState) \<Rightarrow> SyncSys \<Rightarrow> SyncSys" where
  "upd_sync f y \<equiv> y\<lparr> sy_exec := (sy_exec y)\<lparr> sx_state := f (sy_state y) \<rparr> \<rparr>"

abbreviation set_pc :: "nat \<Rightarrow> wpc \<Rightarrow> SyncSys \<Rightarrow> SyncSys" where
  "set_pc i w y \<equiv> y\<lparr> sy_pcs := (sy_pcs y)[i := w] \<rparr>"

section \<open>Workers\<close>

text \<open>What a worker may request where it stands; \<^verbatim>\<open>checkpoint\<close> checks its name before the request.\<close>

definition may_request :: "wpc \<Rightarrow> string \<Rightarrow> string \<Rightarrow> stage option" where
  "may_request w op resource =
     (if w = WReady \<and> op = ''start'' \<and> resource = [] then Some StStart
      else if w = WBody \<and> (op \<in> {''lock'', ''unlock'', ''send'', ''receive''} \<or> (op = ''checkpoint'' \<and> sync_identifier resource))
      then Some StBody
      else if w = WReturned \<and> op = ''$done'' \<and> resource = [] then Some StDone
      else None)"

text \<open>Where an exception of a request is seen: by the body, or by the handler of the thread.\<close>

definition thrown_at :: "stage \<Rightarrow> wpc" where
  "thrown_at st = (case st of StBody \<Rightarrow> WBody | _ \<Rightarrow> WRaised)"

definition returned_at :: "stage \<Rightarrow> wpc" where
  "returned_at st = (case st of StDone \<Rightarrow> WEnding | _ \<Rightarrow> WBody)"

definition worker_request :: "nat \<Rightarrow> string \<Rightarrow> string \<Rightarrow> 64 word \<Rightarrow> SyncSys \<Rightarrow> SyncSys option" where
  "worker_request i op resource v y =
     (case may_request (sy_pcs y ! i) op resource of
        None \<Rightarrow> None
      | Some st \<Rightarrow>
          (case sa_thread (ss_actors (sy_state y) ! i) of
             None \<Rightarrow> None
           | Some tid \<Rightarrow>
               (case request_enter tid i op resource v (sy_state y) of
                  (s, waits) \<Rightarrow> Some (set_pc i (if waits then WWait st else thrown_at st) (upd_sync (\<lambda>_. s) y)))))"

definition worker_resume :: "json_dump \<Rightarrow> nat \<Rightarrow> SyncSys \<Rightarrow> SyncSys option" where
  "worker_resume dump i y = (case sy_pcs y ! i of
     WWait st \<Rightarrow>
       (if request_wakes i (sy_state y)
        then map_option (\<lambda>(s, r). set_pc i (case r of Inl _ \<Rightarrow> thrown_at st | Inr _ \<Rightarrow> returned_at st) (upd_sync (\<lambda>_. s) y))
          (request_resume dump i (sy_state y))
        else None)
   | _ \<Rightarrow> None)"

definition sync_worker_step :: "json_dump \<Rightarrow> sync_action \<Rightarrow> SyncSys \<Rightarrow> SyncSys option" where
  "sync_worker_step dump a y = (case a of
     AcRegister i tid \<Rightarrow>
       (if i < length (sy_pcs y) \<and> sy_pcs y ! i = WSpawned then Some (set_pc i WReady (upd_sync (thread_register i tid) y)) else None)
   | AcRequest i op resource v \<Rightarrow> (if i < length (sy_pcs y) then worker_request i op resource v y else None)
   | AcForeign tid i op resource v \<Rightarrow>
       (if i < length (sy_pcs y) \<and> sa_thread (ss_actors (sy_state y) ! i) \<noteq> Some tid
        then Some (upd_sync (\<lambda>s. fst (request_enter tid i op resource v s)) y) else None)
   | AcResume i \<Rightarrow> (if i < length (sy_pcs y) then worker_resume dump i y else None)
   | AcRelease i resource \<Rightarrow>
       (if i < length (sy_pcs y) \<and> sy_pcs y ! i = WBody then Some (upd_sync (unwind_release i resource) y) else None)
   | AcBodyEnd i returns \<Rightarrow>
       (if i < length (sy_pcs y) \<and> sy_pcs y ! i = WBody then Some (set_pc i (if returns then WReturned else WRaised) y) else None)
   | AcCaught i \<Rightarrow>
       (if i < length (sy_pcs y) \<and> sy_pcs y ! i = WRaised then Some (set_pc i WEnding (upd_sync thread_threw y)) else None)
   | AcEnd i \<Rightarrow>
       (if i < length (sy_pcs y) \<and> sy_pcs y ! i = WEnding then Some (set_pc i WFinished (upd_sync (thread_end i) y)) else None)
   | AcExit i \<Rightarrow> (if i < length (sy_pcs y) \<and> sy_pcs y ! i = WFinished then Some (set_pc i WExited y) else None)
   | _ \<Rightarrow> None)"

section \<open>The controller\<close>

abbreviation sgo :: "SyncExec \<Rightarrow> sctl \<Rightarrow> SyncSys \<Rightarrow> SyncSys" where
  "sgo ex c y \<equiv> y\<lparr> sy_exec := ex, sy_ctl := c \<rparr>"

abbreviation sgo_state :: "SyncState \<Rightarrow> sctl \<Rightarrow> SyncSys \<Rightarrow> SyncSys" where
  "sgo_state s c y \<equiv> sgo ((sy_exec y)\<lparr> sx_state := s \<rparr>) c y"

definition after_ctl :: "after_wait \<Rightarrow> sctl" where
  "after_ctl w = (case w of Return_report \<Rightarrow> SIdle | Join_worker i \<Rightarrow> SJoining i | Observe_now \<Rightarrow> SObserve ByAdvance)"

definition sync_start_step :: "json_dump \<Rightarrow> sync_action \<Rightarrow> SyncSys \<Rightarrow> SyncSys option" where
  "sync_start_step dump a y = (let ex = sy_exec y in case (sy_ctl y, a) of
     (SFactory, AcFactory made now) \<Rightarrow>
       (case sync_construct made now ex of (ex, go_on) \<Rightarrow> Some (sgo ex (if go_on then SSpawn else SIdle) y))
   | (SSpawn, AcSpawn created) \<Rightarrow>
       Some ((sgo (sync_spawn created ex)
           (if created \<and> length (sx_joinable ex) + 1 < length (ss_actors (sx_state ex)) then SSpawn else SBarrier) y)
         \<lparr> sy_pcs := (if created then sy_pcs y @ [WSpawned] else sy_pcs y) \<rparr>)
   | (SBarrier, AcBarrier now) \<Rightarrow>
       (if wait_ended (\<lambda>s. ss_cancelled s \<or> all_parked_or_finished s) now (sx_state ex)
        then (let s = sync_barrier now (sx_state ex) in Some (sgo_state s (if ss_cancelled s then SIdle else SObserve ByConstructor) y))
        else None)
   | (SObserve who, AcObserve now) \<Rightarrow>
       (case observe_begin now ex of (ex, go_on) \<Rightarrow> Some (sgo ex (if go_on then SInObserver who else SIdle) y))
   | (SInObserver who, AcObserved result now1 now2 now3) \<Rightarrow>
       (case observe_end dump result now1 now2 now3 (sx_state ex) of
          (s, thrown) \<Rightarrow> Some (sgo (ex\<lparr> sx_state := s, sx_observing := False \<rparr>)
            (if thrown \<noteq> None \<and> who = ByConstructor then STerminated else SIdle) y))
   | _ \<Rightarrow> None)"

definition sync_advance_step :: "json_dump \<Rightarrow> sync_action \<Rightarrow> SyncSys \<Rightarrow> SyncSys option" where
  "sync_advance_step dump a y = (let ex = sy_exec y; s = sx_state ex in case (sy_ctl y, a) of
     (SIdle, AcEnabled now) \<Rightarrow> Some (sgo_state (fst (enabled_query now s)) SIdle y)
   | (SIdle, AcAdvance actor now) \<Rightarrow>
       (case advance_grant dump actor now s of
          (s, Granted_to i version) \<Rightarrow> Some (sgo_state s (SWaiting i version) y)
        | (s, _) \<Rightarrow> Some (sgo_state s SIdle y))
   | (SWaiting i version, AcBoundary now now') \<Rightarrow>
       (if wait_ended (boundary_reached i version) now s
        then (case advance_boundary i version (sx_joinable ex ! i) now now' s of (s, w) \<Rightarrow> Some (sgo_state s (after_ctl w) y))
        else None)
   | (SJoining i, AcJoined now) \<Rightarrow>
       (if sy_pcs y ! i = WExited
        then (case advance_after_join now s of (s, w) \<Rightarrow>
          Some (sgo (ex\<lparr> sx_state := s, sx_joinable := (sx_joinable ex)[i := False] \<rparr>) (after_ctl w) y))
        else None)
   | _ \<Rightarrow> None)"

text \<open>After the joins: the teardown, or the verdict when there is none to call.\<close>

definition cleanup_teardown :: "int \<Rightarrow> int \<Rightarrow> SyncSys \<Rightarrow> SyncSys" where
  "cleanup_teardown until now y = (let ex = sy_exec y in
     if sx_acquired ex \<and> \<not> sx_teardown_attempted ex
     then (if until \<le> now then sgo (on_state cleanup_incomplete ex) SIdle y
           else sgo (ex\<lparr> sx_teardown_attempted := True, sx_observing := True \<rparr>) (SInTeardown until) y)
     else sgo (cleanup_verdict False ex) SIdle y)"

definition sync_cleanup_step :: "sync_action \<Rightarrow> SyncSys \<Rightarrow> SyncSys option" where
  "sync_cleanup_step a y = (let ex = sy_exec y; s = sx_state ex in case (sy_ctl y, a) of
     (SIdle, AcCleanup timeout now now') \<Rightarrow>
       (if timeout \<le> 0 \<or> one_hour < timeout then Some y
        else case cleanup_started now' s of
          (s, go_on) \<Rightarrow> Some (sgo_state s (if go_on then SCleanWait (now + timeout) else SIdle) y))
   | (SCleanWait until, AcCleanWaited now) \<Rightarrow>
       (if workers_ended ex then Some (sgo ex (SCleanNext 0 until) y)
        else if until \<le> now then Some (sgo (on_state cleanup_incomplete ex) SIdle y) else None)
   | (SCleanNext k until, AcCleanNext now) \<Rightarrow>
       (if k < length (sx_joinable ex)
        then (if \<not> sx_joinable ex ! k then Some (sgo ex (SCleanNext (k + 1) until) y)
              else if until \<le> now then Some (sgo (on_state cleanup_incomplete ex) SIdle y)
              else Some (sgo ex (SCleanJoining k until) y))
        else Some (cleanup_teardown until now y))
   | (SCleanJoining k until, AcCleanJoined now) \<Rightarrow>
       (if sy_pcs y ! k = WExited
        then Some (sgo (ex\<lparr> sx_state := late_callback until now s, sx_joinable := (sx_joinable ex)[k := False] \<rparr>) (SCleanNext (k + 1) until) y)
        else None)
   | (SInTeardown until, AcTeardown threw now) \<Rightarrow>
       Some ((sgo (cleanup_verdict (threw \<or> \<not> pg_teardown (sx_program ex)) (ex\<lparr> sx_state := late_callback until now s, sx_observing := False \<rparr>)) SIdle y)
         \<lparr> sy_teardowns := sy_teardowns y + (if pg_teardown (sx_program ex) then 1 else 0) \<rparr>)
   | (SIdle, AcDestroy) \<Rightarrow> Some (sgo_state (s\<lparr> ss_cancelled := True \<rparr>) (SDestroyNext 0) y)
   | (SDestroyNext k, AcDestroyNext) \<Rightarrow>
       (if k < length (sx_joinable ex)
        then (if sx_joinable ex ! k \<and> sy_pcs y ! k \<noteq> WExited then None
              else Some (sgo (ex\<lparr> sx_joinable := (sx_joinable ex)[k := False] \<rparr>) (SDestroyNext (k + 1)) y))
        else (if sx_acquired ex \<and> \<not> sx_teardown_attempted ex \<and> pg_teardown (sx_program ex)
              then Some ((sgo (ex\<lparr> sx_teardown_attempted := True, sx_observing := True \<rparr>) SDestroyed y)\<lparr> sy_teardowns := sy_teardowns y + 1 \<rparr>)
              else Some (sgo ex SDestroyed y)))
   | _ \<Rightarrow> None)"

definition sync_step :: "json_dump \<Rightarrow> sync_action \<Rightarrow> SyncSys \<Rightarrow> SyncSys option" where
  "sync_step dump a y = (case sync_worker_step dump a y of Some y' \<Rightarrow> Some y'
     | None \<Rightarrow> (case sync_start_step dump a y of Some y' \<Rightarrow> Some y'
       | None \<Rightarrow> (case sync_advance_step dump a y of Some y' \<Rightarrow> Some y' | None \<Rightarrow> sync_cleanup_step a y)))"

fun sync_run :: "json_dump \<Rightarrow> sync_action list \<Rightarrow> SyncSys \<Rightarrow> SyncSys option" where
  "sync_run dump [] y = Some y"
| "sync_run dump (a # as) y = Option.bind (sync_step dump a y) (sync_run dump as)"

text \<open>\<^verbatim>\<open>start\<close>: a fresh execution, before the factory or refused.\<close>

definition sync_start :: "SyncPolicy \<Rightarrow> SyncAdapter \<Rightarrow> int option \<Rightarrow> int \<Rightarrow> int \<Rightarrow> SyncSys" where
  "sync_start policy adapter ceiling now now' = (case sync_prepare policy adapter ceiling now now' of
     (s, go_on) \<Rightarrow> \<lparr> sy_exec = new_exec adapter s, sy_pcs = [], sy_ctl = (if go_on then SFactory else SIdle), sy_teardowns = 0 \<rparr>)"

inductive sync_reachable :: "json_dump \<Rightarrow> SyncPolicy \<Rightarrow> SyncAdapter \<Rightarrow> SyncSys \<Rightarrow> bool"
  for dump :: json_dump and policy :: SyncPolicy and adapter :: SyncAdapter where
  sync_begins: "sync_reachable dump policy adapter (sync_start policy adapter ceiling now now')"
| sync_steps: "sync_reachable dump policy adapter y \<Longrightarrow> sync_step dump a y = Some y' \<Longrightarrow> sync_reachable dump policy adapter y'"

end
