(* ===== verification/Sync_Safety.thy ===== *)
theory Sync_Safety
  imports Sync_Machine
begin

text \<open>
  Invariants of the controlled synchronisation over every interleaving. \<open>sync_ok\<close> relates the flags of an actor to the
  program counter of its thread, bounds queues and ties owners to unfinished actors; as long as nothing is cancelled,
  \<open>sync_turn\<close> says whose turn it is: every actor but the granted one rests at a resource boundary.
\<close>

section \<open>What regions leave alone\<close>

text \<open>A failure changes the report and cancels; actors, resources, events and observations stay.\<close>

definition halted :: "SyncState \<Rightarrow> SyncState \<Rightarrow> bool" where
  "halted s s' \<longleftrightarrow> ss_actors s' = ss_actors s \<and> ss_resources s' = ss_resources s \<and> ss_policy s' = ss_policy s
     \<and> ss_events s' = ss_events s \<and> ss_observations s' = ss_observations s
     \<and> sr_decisions (ss_report s') = sr_decisions (ss_report s) \<and> sr_finished (ss_report s') = sr_finished (ss_report s)
     \<and> sr_cleanup (ss_report s') = sr_cleanup (ss_report s) \<and> ss_cancelled s'"

lemma sync_fail_simps [simp]:
  "ss_actors (sync_fail oc d s) = ss_actors s" "ss_resources (sync_fail oc d s) = ss_resources s"
  "ss_policy (sync_fail oc d s) = ss_policy s" "ss_cancelled (sync_fail oc d s)" "ss_events (sync_fail oc d s) = ss_events s"
  "ss_observations (sync_fail oc d s) = ss_observations s" "ss_deadline (sync_fail oc d s) = ss_deadline s"
  "ss_ended (sync_fail oc d s) = ss_ended s"
  "sr_decisions (ss_report (sync_fail oc d s)) = sr_decisions (ss_report s)"
  "sr_finished (ss_report (sync_fail oc d s)) = sr_finished (ss_report s)"
  "sr_cleanup (ss_report (sync_fail oc d s)) = sr_cleanup (ss_report s)"
  by (simp_all add: sync_fail_def Let_def)

lemma halted_fail [simp]: "halted s (sync_fail oc d s)"
  by (simp add: halted_def)

lemma halted_trans: "halted s s' \<Longrightarrow> halted s' s'' \<Longrightarrow> halted s s''"
  by (simp add: halted_def)

lemma execution_expired_cases:
  obtains "execution_expired now l s = (s, False)"
  | s' where "execution_expired now l s = (s', True)" "halted s s'" "sr_outcome (ss_report s') \<noteq> ''completed''"
  by (cases "ss_ended s \<or> (case ss_deadline s of None \<Rightarrow> True | Some d \<Rightarrow> now < d)")
    (auto simp: execution_expired_def halted_def sync_fail_def Let_def)

lemma halted_cleanup_expired [simp]: "halted s (cleanup_expired s)"
  by (simp add: cleanup_expired_def halted_def)

section \<open>The invariant\<close>

definition resource_wf :: "Owned \<Rightarrow> bool" where
  "resource_wf r \<longleftrightarrow> res_kind (own_decl r) \<noteq> KOther
     \<and> (res_kind (own_decl r) = KMutex \<longrightarrow> own_queue r = []) \<and> (res_kind (own_decl r) = KQueue \<longrightarrow> own_owner r = [])
     \<and> length (own_queue r) \<le> res_capacity (own_decl r)"

definition owner_alive :: "SyncActor list \<Rightarrow> Owned \<Rightarrow> bool" where
  "owner_alive as r \<longleftrightarrow> own_owner r = [] \<or> (\<exists>a \<in> set as. sa_id a = own_owner r \<and> \<not> sa_finished a)"

text \<open>Flags of an actor against the program counter of its thread, \<open>None\<close> before the thread exists.\<close>

definition flags_ok :: "wpc option \<Rightarrow> SyncActor \<Rightarrow> bool" where
  "flags_ok w a \<longleftrightarrow> (sa_finished a \<longleftrightarrow> w = Some WFinished \<or> w = Some WExited)
     \<and> (\<forall>st. w = Some (WWait st) \<longrightarrow> sa_parked a)
     \<and> (w \<in> {None, Some WSpawned, Some WReady} \<longrightarrow> \<not> sa_parked a \<and> \<not> sa_grant a)"

definition pc_at :: "wpc list \<Rightarrow> nat \<Rightarrow> wpc option" where
  "pc_at ws i = (if i < length ws then Some (ws ! i) else None)"

definition sync_ok :: "SyncState \<Rightarrow> wpc list \<Rightarrow> bool" where
  "sync_ok s ws \<longleftrightarrow> length ws \<le> length (ss_actors s) \<and> distinct (map sa_id (ss_actors s)) \<and> [] \<notin> sa_id ` set (ss_actors s)
     \<and> (\<forall>k r. map_of (ss_resources s) k = Some r \<longrightarrow> resource_wf r \<and> owner_alive (ss_actors s) r)
     \<and> (\<forall>i < length (ss_actors s). flags_ok (pc_at ws i) (ss_actors s ! i))"

text \<open>A waiting request that passed its checks, and an actor at rest.\<close>

definition proper_pending :: "SyncState \<Rightarrow> SyncActor \<Rightarrow> bool" where
  "proper_pending s a \<longleftrightarrow> (let p = sa_pending a in free_op (pend_op p) \<or>
     (pend_op p \<in> {''lock'', ''unlock'', ''send'', ''receive''} \<and>
      (\<exists>r. map_of (ss_resources s) (pend_resource p) = Some r \<and> proper_use (sa_id a) (pend_op p) r)))"

definition resting :: "SyncState \<Rightarrow> wpc list \<Rightarrow> nat \<Rightarrow> bool" where
  "resting s ws i \<longleftrightarrow> sa_finished (ss_actors s ! i) \<or>
     ((\<exists>st. ws ! i = WWait st) \<and> \<not> sa_grant (ss_actors s ! i) \<and> proper_pending s (ss_actors s ! i))"

definition granted_now :: "SyncState \<Rightarrow> wpc list \<Rightarrow> nat \<Rightarrow> bool" where
  "granted_now s ws i \<longleftrightarrow> (\<exists>st. ws ! i = WWait st) \<and> sa_grant (ss_actors s ! i) \<and> proper_pending s (ss_actors s ! i)
     \<and> actor_enabled s i"

definition running :: "SyncState \<Rightarrow> wpc list \<Rightarrow> nat \<Rightarrow> bool" where
  "running s ws i \<longleftrightarrow> ws ! i \<in> {WBody, WReturned, WRaised, WEnding} \<and> \<not> sa_parked (ss_actors s ! i) \<and> \<not> sa_grant (ss_actors s ! i)"

definition before_barrier :: "SyncState \<Rightarrow> wpc list \<Rightarrow> nat \<Rightarrow> bool" where
  "before_barrier s ws i \<longleftrightarrow> ws ! i \<in> {WSpawned, WReady, WWait StStart} \<and> \<not> sa_grant (ss_actors s ! i)
     \<and> (ws ! i = WWait StStart \<longrightarrow> proper_pending s (ss_actors s ! i))"

definition sync_turn :: "SyncState \<Rightarrow> wpc list \<Rightarrow> sctl \<Rightarrow> bool" where
  "sync_turn s ws c \<longleftrightarrow> (case c of
     SFactory \<Rightarrow> ws = [] \<and> ss_actors s \<noteq> []
   | SSpawn \<Rightarrow> length ws < length (ss_actors s) \<and> (\<forall>i < length ws. before_barrier s ws i)
   | SBarrier \<Rightarrow> length ws = length (ss_actors s) \<and> (\<forall>i < length ws. before_barrier s ws i)
   | SWaiting i v \<Rightarrow> length ws = length (ss_actors s) \<and> i < length ws \<and> (\<forall>j < length ws. j \<noteq> i \<longrightarrow> resting s ws j)
       \<and> ((sa_version (ss_actors s ! i) = v \<and> (granted_now s ws i \<or> running s ws i)) \<or> (sa_version (ss_actors s ! i) \<noteq> v \<and> resting s ws i))
   | SCleanWait _ \<Rightarrow> False | SCleanNext _ _ \<Rightarrow> False | SCleanJoining _ _ \<Rightarrow> False | SInTeardown _ \<Rightarrow> False | SDestroyNext _ \<Rightarrow> False
   | SDestroyed \<Rightarrow> False
   | _ \<Rightarrow> length ws = length (ss_actors s) \<and> (\<forall>i < length ws. resting s ws i))"

definition sync_inv :: "SyncState \<Rightarrow> wpc list \<Rightarrow> sctl \<Rightarrow> bool" where
  "sync_inv s ws c \<longleftrightarrow> sync_ok s ws \<and> (ss_cancelled s \<or> sync_turn s ws c)"

lemma sync_ok_halted: "sync_ok s ws \<Longrightarrow> halted s s' \<Longrightarrow> sync_ok s' ws"
  by (simp add: sync_ok_def halted_def)

lemma sync_inv_halted: "sync_ok s ws \<Longrightarrow> halted s s' \<Longrightarrow> sync_inv s' ws c"
  by (simp add: sync_inv_def sync_ok_halted) (simp add: halted_def)

text \<open>The invariant reads actors and resources only.\<close>

lemma sync_inv_same:
  assumes "ss_actors s' = ss_actors s" "ss_resources s' = ss_resources s" "ss_cancelled s' \<longleftrightarrow> ss_cancelled s"
  shows "sync_inv s' ws c \<longleftrightarrow> sync_inv s ws c"
proof -
  have eqs: "resting s' = resting s" "granted_now s' = granted_now s" "running s' = running s" "before_barrier s' = before_barrier s"
    using assms by (auto simp: fun_eq_iff resting_def granted_now_def running_def before_barrier_def proper_pending_def
        actor_enabled_def pending_enabled_def)
  have "sync_turn s' ws c \<longleftrightarrow> sync_turn s ws c" unfolding sync_turn_def eqs assms ..
  then show ?thesis using assms by (simp add: sync_inv_def sync_ok_def)
qed

section \<open>Whose turn it is\<close>

lemma flags_at: "sync_ok s ws \<Longrightarrow> i < length ws \<Longrightarrow> flags_ok (Some (ws ! i)) (ss_actors s ! i)"
  unfolding sync_ok_def by (metis order_less_le_trans pc_at_def)

lemma not_resting:
  assumes "sync_ok s ws" "i < length ws" "ws ! i \<notin> {WFinished, WExited}" "\<forall>st. ws ! i = WWait st \<longrightarrow> sa_grant (ss_actors s ! i)"
  shows "\<not> resting s ws i"
  using flags_at [OF assms(1,2)] assms(3,4) by (auto simp: resting_def flags_ok_def)

lemma turn_running:
  assumes "sync_inv s ws c" "\<not> ss_cancelled s" "i < length ws" "ws ! i \<in> {WBody, WReturned, WRaised, WEnding}"
  shows "c = SWaiting i (sa_version (ss_actors s ! i)) \<and> running s ws i \<and> length ws = length (ss_actors s)
    \<and> (\<forall>j < length ws. j \<noteq> i \<longrightarrow> resting s ws j)"
proof -
  have ok: "sync_ok s ws" and turn: "sync_turn s ws c" using assms(1,2) by (simp_all add: sync_inv_def)
  have nr: "\<not> resting s ws i" by (rule not_resting [OF ok assms(3)]) (use assms(4) in auto)
  have nb: "\<not> before_barrier s ws i" using assms(4) by (auto simp: before_barrier_def)
  have ng: "\<not> granted_now s ws i" using assms(4) by (auto simp: granted_now_def)
  have "k = i" if "c = SWaiting k v" for k v using turn nr assms(3) that by (auto simp: sync_turn_def)
  with turn nr nb ng assms(3) show ?thesis by (cases c) (auto simp: sync_turn_def)
qed

lemma turn_granted:
  assumes "sync_inv s ws c" "\<not> ss_cancelled s" "i < length ws" "ws ! i = WWait st" "sa_grant (ss_actors s ! i)"
  shows "c = SWaiting i (sa_version (ss_actors s ! i)) \<and> granted_now s ws i \<and> length ws = length (ss_actors s)
    \<and> (\<forall>j < length ws. j \<noteq> i \<longrightarrow> resting s ws j)"
proof -
  have ok: "sync_ok s ws" and turn: "sync_turn s ws c" using assms(1,2) by (simp_all add: sync_inv_def)
  have nr: "\<not> resting s ws i" by (rule not_resting [OF ok assms(3)]) (use assms(4,5) in auto)
  have nb: "\<not> before_barrier s ws i" using assms(5) by (auto simp: before_barrier_def)
  have ng: "\<not> running s ws i" using assms(4) by (auto simp: running_def)
  have "k = i" if "c = SWaiting k v" for k v using turn nr assms(3) that by (auto simp: sync_turn_def)
  with turn nr nb ng assms(3) show ?thesis by (cases c) (auto simp: sync_turn_def)
qed

lemma turn_starting:
  assumes "sync_inv s ws c" "\<not> ss_cancelled s" "i < length ws" "ws ! i \<in> {WSpawned, WReady}"
  shows "c \<in> {SSpawn, SBarrier} \<and> (\<forall>j < length ws. before_barrier s ws j)"
proof -
  have ok: "sync_ok s ws" and turn: "sync_turn s ws c" using assms(1,2) by (simp_all add: sync_inv_def)
  have nr: "\<not> resting s ws i" by (rule not_resting [OF ok assms(3)]) (use assms(4) in auto)
  have "\<not> granted_now s ws i" "\<not> running s ws i" using assms(4) by (auto simp: granted_now_def running_def)
  then show ?thesis using turn nr assms(3) by (cases c) (auto simp: sync_turn_def)
qed

section \<open>Touching resources\<close>

text \<open>What an operation of an actor can do to the resource it names.\<close>

definition touched :: "string \<Rightarrow> Owned \<Rightarrow> Owned \<Rightarrow> bool" where
  "touched actor r r' \<longleftrightarrow> own_decl r' = own_decl r \<and> (own_owner r' = own_owner r \<or> own_owner r \<in> {[], actor} \<and> own_owner r' \<in> {[], actor})"

definition touches :: "string \<Rightarrow> SyncState \<Rightarrow> SyncState \<Rightarrow> bool" where
  "touches actor s s' \<longleftrightarrow> (\<forall>k. rel_option (touched actor) (map_of (ss_resources s) k) (map_of (ss_resources s') k))"

lemma touched_refl [simp]: "touched actor r r"
  by (simp add: touched_def)

lemma touches_same: "ss_resources s' = ss_resources s \<Longrightarrow> touches actor s s'"
  by (simp add: touches_def option.rel_refl)

lemma map_of_upd_owned: "map_of (ss_resources (upd_owned k f s)) k' = map_option (if k' = k then f else id) (map_of (ss_resources s) k')"
proof -
  have "map_of (map (\<lambda>(k', r). (k', if k' = k then f r else r)) xs) k' = map_option (if k' = k then f else id) (map_of xs k')" for xs
    by (induction xs) auto
  then show ?thesis by (simp add: upd_owned_def)
qed

lemma upd_owned_simps [simp]:
  "ss_actors (upd_owned k f s) = ss_actors s" "ss_cancelled (upd_owned k f s) = ss_cancelled s"
  "ss_policy (upd_owned k f s) = ss_policy s" "ss_report (upd_owned k f s) = ss_report s" "ss_events (upd_owned k f s) = ss_events s"
  "ss_observations (upd_owned k f s) = ss_observations s"
  by (simp_all add: upd_owned_def)

lemma upd_sync_actor_simps [simp]:
  "ss_resources (upd_sync_actor i f s) = ss_resources s" "ss_cancelled (upd_sync_actor i f s) = ss_cancelled s"
  "ss_actors (upd_sync_actor i f s) = (ss_actors s)[i := f (ss_actors s ! i)]" "ss_policy (upd_sync_actor i f s) = ss_policy s"
  "ss_report (upd_sync_actor i f s) = ss_report s" "ss_events (upd_sync_actor i f s) = ss_events s"
  "ss_observations (upd_sync_actor i f s) = ss_observations s"
  by (simp_all add: upd_sync_actor_def)

lemma touches_upd_owned:
  assumes "\<And>r. map_of (ss_resources s) k = Some r \<Longrightarrow> touched actor r (f r)"
  shows "touches actor s (upd_owned k f s)"
  unfolding touches_def
proof
  fix k'
  show "rel_option (touched actor) (map_of (ss_resources s) k') (map_of (ss_resources (upd_owned k f s)) k')"
    by (cases "map_of (ss_resources s) k'") (auto simp: map_of_upd_owned assms)
qed

lemma proper_use_touched: "touched actor r r' \<Longrightarrow> proper_use b op r \<Longrightarrow> b \<noteq> actor \<Longrightarrow> b \<noteq> [] \<Longrightarrow> proper_use b op r'"
  by (auto simp: touched_def proper_use_def Let_def)

lemma actor_id_nonempty: "sync_ok s ws \<Longrightarrow> i < length (ss_actors s) \<Longrightarrow> sa_id (ss_actors s ! i) \<noteq> []"
  unfolding sync_ok_def by (metis imageI nth_mem)

lemma actor_ids_distinct:
  "sync_ok s ws \<Longrightarrow> i < length (ss_actors s) \<Longrightarrow> j < length (ss_actors s) \<Longrightarrow> i \<noteq> j \<Longrightarrow> sa_id (ss_actors s ! i) \<noteq> sa_id (ss_actors s ! j)"
  by (simp add: sync_ok_def distinct_conv_nth)

lemma resting_other:
  assumes "resting s ws j" "touches (sa_id (ss_actors s ! i)) s s'" "ss_actors s' ! j = ss_actors s ! j" "ws' ! j = ws ! j"
    and "sync_ok s ws" "i < length (ss_actors s)" "j < length (ss_actors s)" "j \<noteq> i"
  shows "resting s' ws' j"
proof -
  note ne = actor_ids_distinct [OF assms(5,7,6,8)] actor_id_nonempty [OF assms(5,7)]
  have "proper_pending s' (ss_actors s ! j)" if "proper_pending s (ss_actors s ! j)"
  proof -
    have "\<exists>r'. map_of (ss_resources s') k = Some r' \<and> proper_use (sa_id (ss_actors s ! j)) op r'"
      if "map_of (ss_resources s) k = Some r" "proper_use (sa_id (ss_actors s ! j)) op r" for k r op
    proof -
      have "rel_option (touched (sa_id (ss_actors s ! i))) (Some r) (map_of (ss_resources s') k)"
        using assms(2) that(1) unfolding touches_def by metis
      then obtain r' where "map_of (ss_resources s') k = Some r'" "touched (sa_id (ss_actors s ! i)) r r'"
        by (auto simp: option_rel_Some1)
      with proper_use_touched [OF _ that(2)] ne show ?thesis by blast
    qed
    with that show ?thesis by (auto simp: proper_pending_def Let_def)
  qed
  with assms(1,3,4) show ?thesis by (auto simp: resting_def)
qed

text \<open>One actor moves on: its flags fit its new program counter, and the resources stay well formed.\<close>

lemma owner_alive_update:
  assumes "owner_alive as r" "i < length as" "sa_id a = sa_id (as ! i)" "sa_finished a \<longrightarrow> own_owner r \<noteq> sa_id a \<or> sa_finished (as ! i)"
    and "distinct (map sa_id as)"
  shows "owner_alive (as[i := a]) r"
proof (cases "own_owner r = []")
  case False
  with assms(1) obtain j where j: "j < length as" "sa_id (as ! j) = own_owner r" "\<not> sa_finished (as ! j)"
    by (auto simp: owner_alive_def in_set_conv_nth)
  have "\<exists>b \<in> set (as[i := a]). sa_id b = own_owner r \<and> \<not> sa_finished b"
  proof (cases "j = i")
    case True
    with j assms(2-4) show ?thesis using set_update_memI [of i as a] by fastforce
  next
    case False
    with j have "as[i := a] ! j = as ! j" by simp
    with j show ?thesis by (metis length_list_update nth_mem)
  qed
  then show ?thesis by (simp add: owner_alive_def)
qed (simp add: owner_alive_def)

lemma sync_ok_update:
  assumes "sync_ok s ws" "i < length ws" "ss_actors s' = (ss_actors s)[i := a]" "sa_id a = sa_id (ss_actors s ! i)"
    and "flags_ok (Some w) a" "\<And>k r. map_of (ss_resources s') k = Some r \<Longrightarrow> resource_wf r \<and> owner_alive (ss_actors s') r"
  shows "sync_ok s' (ws[i := w])"
proof -
  have len: "i < length (ss_actors s)" using assms(1,2) by (simp add: sync_ok_def)
  have ids: "map sa_id (ss_actors s') = map sa_id (ss_actors s)"
    using assms(3,4) len by (simp add: map_update) (metis list_update_id nth_map)
  then have "sa_id ` set (ss_actors s') = sa_id ` set (ss_actors s)" by (metis list.set_map)
  moreover have "flags_ok (pc_at (ws[i := w]) j) (ss_actors s' ! j)" if "j < length (ss_actors s')" for j
    using assms(1-3,5) that len by (cases "j = i") (auto simp: sync_ok_def pc_at_def)
  ultimately show ?thesis using assms(1,3,6) ids by (simp add: sync_ok_def)
qed

lemma sync_ok_pc:
  assumes "sync_ok s ws" "i < length ws" "flags_ok (Some w) (ss_actors s ! i)"
  shows "sync_ok s (ws[i := w])"
  by (rule sync_ok_update [OF assms(1,2) _ _ assms(3)]) (use assms(1) in \<open>auto simp: sync_ok_def\<close>)

lemma sync_ok_actor:
  assumes "sync_ok s ws" "i < length ws" "ss_actors s' = (ss_actors s)[i := a]" "ss_resources s' = ss_resources s"
    and "sa_id a = sa_id (ss_actors s ! i)" "sa_finished a = sa_finished (ss_actors s ! i)" "flags_ok (Some w) a"
  shows "sync_ok s' (ws[i := w])"
proof (rule sync_ok_update [OF assms(1-3,5,7)])
  fix k r
  assume "map_of (ss_resources s') k = Some r"
  then have r: "resource_wf r" "owner_alive (ss_actors s) r" using assms(1,4) by (auto simp: sync_ok_def)
  have "owner_alive ((ss_actors s)[i := a]) r"
    by (rule owner_alive_update [OF r(2)]) (use assms in \<open>auto simp: sync_ok_def\<close>)
  with r assms(3) show "resource_wf r \<and> owner_alive (ss_actors s') r" by simp
qed

section \<open>Steps of the workers\<close>

lemma inv_okD: "sync_inv s ws c \<Longrightarrow> sync_ok s ws"
  by (simp add: sync_inv_def)

lemma inv_turnD: "sync_inv s ws c \<Longrightarrow> \<not> ss_cancelled s \<Longrightarrow> sync_turn s ws c"
  by (simp add: sync_inv_def)

lemma inv_cancelled: "sync_ok s ws \<Longrightarrow> ss_cancelled s \<Longrightarrow> sync_inv s ws c"
  by (simp add: sync_inv_def)

text \<open>The actor whose turn it is moves on; the others keep resting.\<close>

lemma turn_moves:
  assumes "sync_ok s ws" "length ws = length (ss_actors s)" "i < length ws" "\<forall>j < length ws. j \<noteq> i \<longrightarrow> resting s ws j"
    and "touches (sa_id (ss_actors s ! i)) s s'" "ss_actors s' = (ss_actors s)[i := a]"
    and "(sa_version a = v \<and> (granted_now s' (ws[i := w]) i \<or> running s' (ws[i := w]) i)) \<or> (sa_version a \<noteq> v \<and> resting s' (ws[i := w]) i)"
  shows "sync_turn s' (ws[i := w]) (SWaiting i v)"
proof -
  have "resting s' (ws[i := w]) j" if "j < length ws" "j \<noteq> i" for j
    by (rule resting_other [OF _ assms(5) _ _ assms(1)]) (use assms(2-4,6) that in auto)
  with assms(2,3,6,7) show ?thesis by (simp add: sync_turn_def)
qed

lemma inv_register:
  assumes "sync_inv s ws c" "i < length ws" "ws ! i = WSpawned"
  shows "sync_inv (thread_register i tid s) (ws[i := WReady]) c"
proof -
  let ?s = "thread_register i tid s"
  note ok = inv_okD [OF assms(1)]
  have fl: "flags_ok (Some WSpawned) (ss_actors s ! i)" using flags_at [OF ok assms(2)] assms(3) by simp
  have ok': "sync_ok ?s (ws[i := WReady])"
    by (rule sync_ok_actor [OF ok assms(2), where a = "(ss_actors s ! i)\<lparr> sa_thread := Some tid \<rparr>"])
      (use fl in \<open>simp_all add: thread_register_def flags_ok_def\<close>)
  moreover have "sync_turn ?s (ws[i := WReady]) c" if "\<not> ss_cancelled s"
  proof -
    have c: "c \<in> {SSpawn, SBarrier}" and bb: "\<And>j. j < length ws \<Longrightarrow> before_barrier s ws j"
      using turn_starting [OF assms(1) that assms(2)] assms(3) by auto
    have len: "i < length (ss_actors s)" using ok assms(2) by (simp add: sync_ok_def)
    have "before_barrier ?s (ws[i := WReady]) j" if "j < length ws" for j
      using bb [OF that] assms(2) len
      by (cases "j = i") (auto simp: before_barrier_def thread_register_def proper_pending_def)
    then show ?thesis using c inv_turnD [OF assms(1) that]
      by (auto simp: sync_turn_def thread_register_def)
  qed
  ultimately show ?thesis by (auto simp: sync_inv_def thread_register_def)
qed

lemma request_enter_cases:
  assumes "request_enter tid i op resource v s = (s', waits)"
  obtains (thrown) "\<not> waits" "s' = s \<or> halted s s'" "ss_cancelled s'"
  | (waiting) r where "waits" "\<not> ss_cancelled s" "free_op op \<or> map_of (ss_resources s) resource = Some r \<and> proper_use (sa_id (ss_actors s ! i)) op r"
      "s' = upd_sync_actor i (\<lambda>a. a\<lparr> sa_pending := \<lparr> pend_op = op, pend_resource = resource, pend_value = v \<rparr>,
                 sa_parked := True, sa_grant := False, sa_version := sa_version a + 1 \<rparr>) s"
  using assms by (auto simp: request_enter_def Let_def split: if_splits option.splits)

lemma may_request_ops:
  "may_request w op resource = Some st \<Longrightarrow> (w = WReady \<and> st = StStart \<or> w = WBody \<and> st = StBody \<or> w = WReturned \<and> st = StDone)
    \<and> (free_op op \<or> op \<in> {''lock'', ''unlock'', ''send'', ''receive''}) \<and> (w = WReady \<longrightarrow> free_op op)"
  by (auto simp: may_request_def free_op_def split: if_splits)

lemma flags_thrown:
  assumes "flags_ok (Some w) a" "w \<in> {WReady, WBody, WReturned} \<or> w = WWait st"
  shows "flags_ok (Some (thrown_at st')) a"
  using assms by (cases st') (auto simp: flags_ok_def thrown_at_def)

lemma inv_request:
  assumes "sync_inv s ws c" "i < length ws" "may_request (ws ! i) op resource = Some st"
    and "request_enter tid i op resource v s = (s', waits)"
  shows "sync_inv s' (ws[i := if waits then WWait st else thrown_at st]) c"
proof -
  note ok = inv_okD [OF assms(1)] and ops = may_request_ops [OF assms(3)]
  have len: "i < length (ss_actors s)" using ok assms(2) by (simp add: sync_ok_def)
  have fl: "flags_ok (Some (ws ! i)) (ss_actors s ! i)" using flags_at [OF ok assms(2)] .
  from assms(4) show ?thesis
  proof (cases rule: request_enter_cases)
    case thrown
    have "sync_ok s (ws[i := thrown_at st])" by (rule sync_ok_pc [OF ok assms(2) flags_thrown [OF fl]]) (use ops in auto)
    with thrown show ?thesis by (auto intro: inv_cancelled sync_inv_halted)
  next
    case (waiting r)
    let ?a = "(ss_actors s ! i)\<lparr> sa_pending := \<lparr> pend_op = op, pend_resource = resource, pend_value = v \<rparr>,
        sa_parked := True, sa_grant := False, sa_version := sa_version (ss_actors s ! i) + 1 \<rparr>"
    have ok': "sync_ok s' (ws[i := WWait st])"
      by (rule sync_ok_actor [OF ok assms(2), where a = ?a]) (use waiting(4) ops fl in \<open>auto simp: flags_ok_def\<close>)
    have proper: "proper_pending s' ?a"
      using waiting ops by (auto simp: proper_pending_def Let_def)
    then have rest: "resting s' (ws[i := WWait st]) i" using waiting(4) assms(2) len by (simp add: resting_def)
    have "sync_turn s' (ws[i := WWait st]) c"
    proof (cases "ws ! i = WReady")
      case True
      have c: "c \<in> {SSpawn, SBarrier}" and bb: "\<And>j. j < length ws \<Longrightarrow> before_barrier s ws j"
        using turn_starting [OF assms(1) waiting(2) assms(2)] True by auto
      have "before_barrier s' (ws[i := WWait st]) j" if "j < length ws" for j
      proof (cases "j = i")
        case True
        with ops \<open>ws ! i = WReady\<close> proper waiting(4) assms(2) len show ?thesis by (simp add: before_barrier_def)
      next
        case False
        with bb [OF that] waiting(4) show ?thesis by (auto simp: before_barrier_def proper_pending_def)
      qed
      then show ?thesis using c inv_turnD [OF assms(1) waiting(2)] waiting(4) by (auto simp: sync_turn_def)
    next
      case False
      with ops have "ws ! i \<in> {WBody, WReturned, WRaised, WEnding}" by auto
      from turn_running [OF assms(1) waiting(2) assms(2) this] have c: "c = SWaiting i (sa_version (ss_actors s ! i))"
        "length ws = length (ss_actors s)" "\<forall>j < length ws. j \<noteq> i \<longrightarrow> resting s ws j" by auto
      show ?thesis unfolding c(1)
        by (rule turn_moves [OF ok c(2) assms(2) c(3), of _ ?a]) (use waiting(4) rest in \<open>simp_all add: touches_same\<close>)
    qed
    with ok' waiting(1) show ?thesis by (simp add: sync_inv_def)
  qed
qed

text \<open>A granted operation that is enabled can be performed, and keeps the resources in order.\<close>

definition resources_ok :: "SyncActor list \<Rightarrow> SyncState \<Rightarrow> bool" where
  "resources_ok as s \<longleftrightarrow> (\<forall>k r. map_of (ss_resources s) k = Some r \<longrightarrow> resource_wf r \<and> owner_alive as r)"

lemma resources_ok_upd_owned:
  assumes "resources_ok as s" "\<And>r. map_of (ss_resources s) k = Some r \<Longrightarrow> resource_wf (f r) \<and> owner_alive as (f r)"
  shows "resources_ok as (upd_owned k f s)"
  using assms by (auto simp: resources_ok_def map_of_upd_owned split: if_splits)

lemma perform_op_ok:
  assumes "resources_ok as s" "proper_pending s a" "pending_enabled s (sa_id a) (sa_pending a)"
    and "\<exists>b \<in> set as. sa_id b = sa_id a \<and> \<not> sa_finished b"
  shows "\<exists>s' v. perform_op (sa_id a) (sa_pending a) s = Some (s', v) \<and> ss_actors s' = ss_actors s
    \<and> ss_cancelled s' = ss_cancelled s \<and> touches (sa_id a) s s' \<and> resources_ok as s'"
proof (cases "free_op (pend_op (sa_pending a))")
  case True
  then have "perform_op (sa_id a) (sa_pending a) s = Some (s, pend_value (sa_pending a))"
    by (auto simp: perform_op_def free_op_def)
  with assms(1) show ?thesis by (auto simp: touches_same)
next
  case False
  let ?p = "sa_pending a"
  from assms(2) False obtain r where op: "pend_op ?p \<in> {''lock'', ''unlock'', ''send'', ''receive''}"
    and r: "map_of (ss_resources s) (pend_resource ?p) = Some r" "proper_use (sa_id a) (pend_op ?p) r"
    by (auto simp: proper_pending_def Let_def)
  have en: "op_enabled (sa_id a) (pend_op ?p) r" using assms(3) False r(1) by (simp add: pending_enabled_def)
  have wf: "resource_wf r" "owner_alive as r" using assms(1) r(1) by (auto simp: resources_ok_def)
  have result: ?thesis if perf: "perform_op (sa_id a) ?p s = Some (upd_owned (pend_resource ?p) f s, v)"
    and touch: "touched (sa_id a) r (f r)" and keep: "resource_wf (f r)" "owner_alive as (f r)" for f v
  proof -
    have "touches (sa_id a) s (upd_owned (pend_resource ?p) f s)" by (rule touches_upd_owned) (use r(1) touch in simp)
    moreover have "resources_ok as (upd_owned (pend_resource ?p) f s)" by (rule resources_ok_upd_owned [OF assms(1)]) (use r(1) keep in simp)
    ultimately show ?thesis using perf by auto
  qed
  from op consider "pend_op ?p = ''lock''" | "pend_op ?p = ''unlock''" | "pend_op ?p = ''send''" | "pend_op ?p = ''receive''" by blast
  then show ?thesis
  proof cases
    case 1
    show ?thesis
      by (rule result [of "\<lambda>r. r\<lparr> own_owner := sa_id a \<rparr>"])
        (use 1 r en wf assms(4) in \<open>auto simp: perform_op_def op_enabled_def touched_def resource_wf_def owner_alive_def proper_use_def\<close>)
  next
    case 2
    show ?thesis
      by (rule result [of "\<lambda>r. r\<lparr> own_owner := [] \<rparr>"])
        (use 2 r en wf in \<open>auto simp: perform_op_def op_enabled_def touched_def resource_wf_def owner_alive_def\<close>)
  next
    case 3
    show ?thesis
      by (rule result [of "\<lambda>r. r\<lparr> own_queue := own_queue r @ [pend_value ?p] \<rparr>"])
        (use 3 r en wf in \<open>auto simp: perform_op_def op_enabled_def touched_def resource_wf_def owner_alive_def proper_use_def\<close>)
  next
    case 4
    show ?thesis
      by (rule result [of "\<lambda>r. r\<lparr> own_queue := tl (own_queue r) \<rparr>"])
        (use 4 r en wf in \<open>auto simp: perform_op_def op_enabled_def touched_def resource_wf_def owner_alive_def\<close>)
  qed
qed

lemma sync_event_cases:
  assumes "sync_event dump entries s = (s', r)"
  obtains (kept) "ss_actors s' = ss_actors s" "ss_resources s' = ss_resources s" "ss_cancelled s' \<longleftrightarrow> ss_cancelled s" "r \<noteq> Inr False"
  | (full) "halted s s'" "r = Inr False"
proof (cases "evidence_fits dump (ss_events s) (jobject (entries @ [(''ordinal'', size_json (length (ss_events s)))])) s")
  case (Inl what)
  with assms have "s' = s" "r = Inl what" by (simp_all add: sync_event_def Let_def)
  with kept show ?thesis by simp
next
  case (Inr fits)
  with assms have "if fits then r = Inr True \<and> (\<exists>row. s' = s\<lparr> ss_events := ss_events s @ [row] \<rparr>) else r = Inr False \<and> halted s s'"
    by (cases fits) (auto simp: sync_event_def Let_def)
  with kept full show ?thesis by (cases fits) auto
qed

lemma resume_ok:
  assumes "sync_inv s ws c" "i < length ws" "ws ! i = WWait st" "\<not> ss_cancelled s" "sa_grant (ss_actors s ! i)"
    and w: "w \<in> {thrown_at st, returned_at st}"
  shows "\<exists>s1 v. perform_op (sa_id (ss_actors s ! i)) (sa_pending (ss_actors s ! i))
      (upd_sync_actor i (\<lambda>a. a\<lparr> sa_grant := False, sa_parked := False \<rparr>) s) = Some (s1, v)
    \<and> sync_inv s1 (ws[i := w]) c \<and> \<not> ss_cancelled s1"
proof -
  note ok = inv_okD [OF assms(1)]
  let ?a = "(ss_actors s ! i)\<lparr> sa_grant := False, sa_parked := False \<rparr>"
  let ?s = "upd_sync_actor i (\<lambda>a. a\<lparr> sa_grant := False, sa_parked := False \<rparr>) s"
  from turn_granted [OF assms(1,4,2,3,5)] have c: "c = SWaiting i (sa_version (ss_actors s ! i))" "length ws = length (ss_actors s)"
      "\<forall>j < length ws. j \<noteq> i \<longrightarrow> resting s ws j" and g: "proper_pending s (ss_actors s ! i)" "actor_enabled s i"
    by (auto simp: granted_now_def)
  have fl: "flags_ok (Some (WWait st)) (ss_actors s ! i)" using flags_at [OF ok assms(2)] assms(3) by simp
  have w': "w \<in> {WBody, WRaised, WEnding}" using w by (cases st) (auto simp: thrown_at_def returned_at_def)
  have ok1: "sync_ok ?s (ws[i := w])"
    by (rule sync_ok_actor [OF ok assms(2), where a = ?a]) (use fl w' in \<open>auto simp: flags_ok_def\<close>)
  have alive: "\<exists>b \<in> set (ss_actors ?s). sa_id b = sa_id ?a \<and> \<not> sa_finished b"
  proof (rule bexI [of _ ?a])
    show "?a \<in> set (ss_actors ?s)" using c(2) assms(2) by (simp add: set_update_memI)
  qed (use fl in \<open>simp add: flags_ok_def\<close>)
  have "\<exists>s' v. perform_op (sa_id ?a) (sa_pending ?a) ?s = Some (s', v) \<and> ss_actors s' = ss_actors ?s
    \<and> ss_cancelled s' = ss_cancelled ?s \<and> touches (sa_id ?a) ?s s' \<and> resources_ok (ss_actors ?s) s'"
  proof (rule perform_op_ok)
    show "resources_ok (ss_actors ?s) ?s" using ok1 by (simp add: sync_ok_def resources_ok_def)
    show "proper_pending ?s ?a" using g(1) by (simp add: proper_pending_def)
    show "pending_enabled ?s (sa_id ?a) (sa_pending ?a)" using g(2) by (simp add: actor_enabled_def Let_def pending_enabled_def)
  qed (rule alive)
  then obtain s1 v where s1: "perform_op (sa_id (ss_actors s ! i)) (sa_pending (ss_actors s ! i)) ?s = Some (s1, v)"
    "ss_actors s1 = (ss_actors s)[i := ?a]" "\<not> ss_cancelled s1" "touches (sa_id (ss_actors s ! i)) ?s s1" "resources_ok (ss_actors s1) s1"
    using assms(4) by auto
  have "sync_ok s1 (ws[i := w])"
    by (rule sync_ok_update [OF ok assms(2) s1(2)]) (use fl w' s1(5) in \<open>auto simp: flags_ok_def resources_ok_def\<close>)
  moreover have "sync_turn s1 (ws[i := w]) (SWaiting i (sa_version (ss_actors s ! i)))"
  proof (rule turn_moves [OF ok c(2) assms(2) c(3) _ s1(2)])
    show "touches (sa_id (ss_actors s ! i)) s s1" using s1(4) by (simp add: touches_def)
    show "sa_version ?a = sa_version (ss_actors s ! i) \<and> (granted_now s1 (ws[i := w]) i \<or> running s1 (ws[i := w]) i)
        \<or> sa_version ?a \<noteq> sa_version (ss_actors s ! i) \<and> resting s1 (ws[i := w]) i"
      using w' s1(2) assms(2) c(2) by (auto simp: running_def)
  qed
  ultimately show ?thesis using s1(1,3) c(1) by (auto simp: sync_inv_def)
qed

lemma inv_resume:
  assumes "sync_inv s ws c" "i < length ws" "ws ! i = WWait st" "request_wakes i s"
  shows "\<exists>s' r. request_resume dump i s = Some (s', r)
    \<and> sync_inv s' (ws[i := case r of Inl _ \<Rightarrow> thrown_at st | Inr _ \<Rightarrow> returned_at st]) c"
proof (cases "ss_cancelled s")
  case True
  have "sync_ok s (ws[i := thrown_at st])"
    using sync_ok_pc [OF inv_okD [OF assms(1)] assms(2)] flags_thrown flags_at [OF inv_okD [OF assms(1)] assms(2)] assms(3) by metis
  with True show ?thesis by (simp add: request_resume_def inv_cancelled)
next
  case False
  then have g: "sa_grant (ss_actors s ! i)" using assms(4) by (simp add: request_wakes_def)
  have each: "\<exists>s1 v. perform_op (sa_id (ss_actors s ! i)) (sa_pending (ss_actors s ! i))
      (upd_sync_actor i (\<lambda>a. a\<lparr> sa_grant := False, sa_parked := False \<rparr>) s) = Some (s1, v)
    \<and> sync_inv s1 (ws[i := w]) c \<and> \<not> ss_cancelled s1" if "w \<in> {thrown_at st, returned_at st}" for w
    by (rule resume_ok [OF assms(1-3) False g that])
  then obtain s1 v where s1: "perform_op (sa_id (ss_actors s ! i)) (sa_pending (ss_actors s ! i))
      (upd_sync_actor i (\<lambda>a. a\<lparr> sa_grant := False, sa_parked := False \<rparr>) s) = Some (s1, v)" by blast
  have inv1: "sync_inv s1 (ws[i := w]) c" if "w \<in> {thrown_at st, returned_at st}" for w
    using each [OF that] s1 by auto
  let ?entries = "[(''kind'', JString ''result''), (''actor'', JString (sa_id (ss_actors s ! i))),
    (''operation'', JString (pend_op (sa_pending (ss_actors s ! i)))), (''resource'', JString (pend_resource (sa_pending (ss_actors s ! i)))),
    (''value'', JInteger v)]"
  obtain s2 r where ev: "sync_event dump ?entries s1 = (s2, r)" by (cases "sync_event dump ?entries s1")
  have "sync_inv s2 (ws[i := w]) c" if w: "w \<in> {thrown_at st, returned_at st}" for w
    using ev
  proof (cases rule: sync_event_cases)
    case kept
    from sync_inv_same [OF kept(1-3)] inv1 [OF w] show ?thesis by simp
  next
    case full
    show ?thesis by (rule sync_inv_halted [OF inv_okD [OF inv1 [OF w]] full(1)])
  qed
  with s1 ev False show ?thesis by (cases r) (auto simp: request_resume_def Let_def)
qed

text \<open>The running actor clears what it owns.\<close>

lemma disowned:
  assumes "actor \<noteq> []" "own_owner r = actor" "resource_wf r"
  shows "touched actor r (r\<lparr> own_owner := [] \<rparr>)" "resource_wf (r\<lparr> own_owner := [] \<rparr>)" "owner_alive as (r\<lparr> own_owner := [] \<rparr>)"
  using assms by (auto simp: touched_def resource_wf_def owner_alive_def)

lemma inv_release:
  assumes "sync_inv s ws c" "i < length ws" "ws ! i = WBody"
  shows "sync_inv (unwind_release i resource s) ws c"
proof (cases "\<exists>r. map_of (ss_resources s) resource = Some r \<and> own_owner r = sa_id (ss_actors s ! i)")
  case True
  then obtain r where r: "map_of (ss_resources s) resource = Some r" "own_owner r = sa_id (ss_actors s ! i)" by blast
  let ?s = "upd_owned resource (\<lambda>r. r\<lparr> own_owner := [] \<rparr>) s"
  note ok = inv_okD [OF assms(1)]
  have len: "i < length (ss_actors s)" using ok assms(2) by (simp add: sync_ok_def)
  have id: "sa_id (ss_actors s ! i) \<noteq> []" by (rule actor_id_nonempty [OF ok len])
  have "resource_wf r" using ok r(1) by (auto simp: sync_ok_def)
  note dis = disowned [OF id r(2) this]
  have "resources_ok (ss_actors s) ?s"
    by (rule resources_ok_upd_owned) (use ok r(1) dis in \<open>auto simp: sync_ok_def resources_ok_def\<close>)
  then have ok1: "sync_ok ?s ws" using ok by (simp add: sync_ok_def resources_ok_def)
  have "sync_turn ?s ws c" if "\<not> ss_cancelled s"
  proof -
    from turn_running [OF assms(1) that assms(2)] assms(3) have c: "c = SWaiting i (sa_version (ss_actors s ! i))"
      "length ws = length (ss_actors s)" "\<forall>j < length ws. j \<noteq> i \<longrightarrow> resting s ws j" "running s ws i" by auto
    have "sync_turn ?s (ws[i := WBody]) (SWaiting i (sa_version (ss_actors s ! i)))"
    proof (rule turn_moves [OF ok c(2) assms(2) c(3), where a = "ss_actors s ! i"])
      show "touches (sa_id (ss_actors s ! i)) s ?s" by (rule touches_upd_owned) (use r(1) dis in simp)
    qed (use c(4) assms(2) in \<open>auto simp: running_def\<close>)
    moreover have "ws[i := WBody] = ws" using assms(3) by (metis list_update_id)
    ultimately show ?thesis using c(1) by simp
  qed
  with ok1 r show ?thesis by (auto simp: sync_inv_def unwind_release_def)
qed (use assms(1) in \<open>auto simp: unwind_release_def split: option.split\<close>)

lemma inv_running_pc:
  assumes "sync_inv s ws c" "i < length ws" "ws ! i \<in> {WBody, WReturned, WRaised, WEnding}" "w \<in> {WBody, WReturned, WRaised, WEnding}"
  shows "sync_inv s (ws[i := w]) c"
proof -
  note ok = inv_okD [OF assms(1)]
  have "sync_ok s (ws[i := w])"
    by (rule sync_ok_pc [OF ok assms(2)]) (use flags_at [OF ok assms(2)] assms(3,4) in \<open>auto simp: flags_ok_def\<close>)
  moreover have "sync_turn s (ws[i := w]) c" if "\<not> ss_cancelled s"
  proof -
    from turn_running [OF assms(1) that assms(2,3)] have c: "c = SWaiting i (sa_version (ss_actors s ! i))"
      "length ws = length (ss_actors s)" "\<forall>j < length ws. j \<noteq> i \<longrightarrow> resting s ws j" "running s ws i" by auto
    show ?thesis unfolding c(1)
      by (rule turn_moves [OF ok c(2) assms(2) c(3), where a = "ss_actors s ! i"])
        (use c(4) assms(2,4) in \<open>auto simp: running_def touches_same\<close>)
  qed
  ultimately show ?thesis by (auto simp: sync_inv_def)
qed

lemma inv_caught:
  assumes "sync_inv s ws c" "i < length ws" "ws ! i = WRaised"
  shows "sync_inv (thread_threw s) (ws[i := WEnding]) c"
proof -
  have "sync_inv s (ws[i := WEnding]) c" by (rule inv_running_pc [OF assms(1,2)]) (use assms(3) in auto)
  from inv_okD [OF this] show ?thesis by (auto simp: thread_threw_def inv_cancelled sync_inv_halted)
qed

lemma release_all_spec:
  assumes "actor \<noteq> []"
  shows "ss_actors (release_all actor ks s) = ss_actors s \<and> (ss_cancelled s \<longrightarrow> ss_cancelled (release_all actor ks s))
    \<and> (\<forall>k. map_of (ss_resources (release_all actor ks s)) k =
        map_option (\<lambda>r. if k \<in> set ks \<and> own_owner r = actor then r\<lparr> own_owner := [] \<rparr> else r) (map_of (ss_resources s) k))"
proof (induction ks arbitrary: s)
  case (Cons k ks)
  let ?t = "case map_of (ss_resources s) k of None \<Rightarrow> s | Some r \<Rightarrow> (if own_owner r = actor
      then upd_owned k (\<lambda>r. r\<lparr> own_owner := [] \<rparr>) (if ss_cancelled s then s else sync_fail ''resource_misuse'' ''actor completed holding mutex'' s)
      else s)"
  have t: "ss_actors ?t = ss_actors s" "ss_cancelled s \<longrightarrow> ss_cancelled ?t"
    "map_of (ss_resources ?t) k' = map_option (\<lambda>r. if k' = k \<and> own_owner r = actor then r\<lparr> own_owner := [] \<rparr> else r) (map_of (ss_resources s) k')" for k'
    by (auto simp: map_of_upd_owned option.map_ident_strong split: option.split)
  show ?case using Cons.IH [of ?t] t assms
    by (auto simp: option.map_comp comp_def intro!: option.map_cong0)
qed (simp add: option.map_ident)

lemma inv_end:
  assumes "sync_inv s ws c" "i < length ws" "ws ! i = WEnding"
  shows "sync_inv (thread_end i s) (ws[i := WFinished]) c"
proof -
  note ok = inv_okD [OF assms(1)]
  let ?id = "sa_id (ss_actors s ! i)" let ?s = "release_all ?id (map fst (ss_resources s)) s"
  let ?a = "(ss_actors s ! i)\<lparr> sa_finished := True, sa_parked := False, sa_version := sa_version (ss_actors s ! i) + 1 \<rparr>"
  have len: "i < length (ss_actors s)" using ok assms(2) by (simp add: sync_ok_def)
  note id = actor_id_nonempty [OF ok len]
  note rel = release_all_spec [OF id, of "map fst (ss_resources s)" s]
  have act: "ss_actors (thread_end i s) = (ss_actors s)[i := ?a]" using rel by (simp add: thread_end_def)
  have res: "\<exists>r0. map_of (ss_resources s) k = Some r0 \<and> r = (if own_owner r0 = ?id then r0\<lparr> own_owner := [] \<rparr> else r0)"
    if "map_of (ss_resources ?s) k = Some r" for k r
  proof -
    from rel that obtain r0 where r0: "map_of (ss_resources s) k = Some r0"
      "r = (if k \<in> set (map fst (ss_resources s)) \<and> own_owner r0 = ?id then r0\<lparr> own_owner := [] \<rparr> else r0)" by auto
    from r0(1) have "k \<in> set (map fst (ss_resources s))" by (force dest: map_of_SomeD)
    with r0 show ?thesis by auto
  qed
  have wf: "resource_wf r0 \<and> owner_alive (ss_actors s) r0" if "map_of (ss_resources s) k = Some r0" for k r0
    using ok that by (auto simp: sync_ok_def)
  have ok1: "sync_ok (thread_end i s) (ws[i := WFinished])"
  proof (rule sync_ok_update [OF ok assms(2) act])
    fix k r
    assume "map_of (ss_resources (thread_end i s)) k = Some r"
    then have "map_of (ss_resources ?s) k = Some r" by (simp add: thread_end_def)
    from res [OF this] obtain r0 where r0: "map_of (ss_resources s) k = Some r0" "r = (if own_owner r0 = ?id then r0\<lparr> own_owner := [] \<rparr> else r0)" by blast
    have "owner_alive ((ss_actors s)[i := ?a]) r" if "own_owner r0 \<noteq> ?id"
      by (rule owner_alive_update) (use wf [OF r0(1)] r0(2) that len ok in \<open>auto simp: sync_ok_def\<close>)
    with wf [OF r0(1)] r0(2) disowned [OF id] act show "resource_wf r \<and> owner_alive (ss_actors (thread_end i s)) r" by auto
  qed (auto simp: flags_ok_def)
  have "sync_turn (thread_end i s) (ws[i := WFinished]) c" if "\<not> ss_cancelled s"
  proof -
    from turn_running [OF assms(1) that assms(2)] assms(3) have c: "c = SWaiting i (sa_version (ss_actors s ! i))"
      "length ws = length (ss_actors s)" "\<forall>j < length ws. j \<noteq> i \<longrightarrow> resting s ws j" by auto
    have touch: "touches ?id s (thread_end i s)"
      unfolding touches_def
    proof
      fix k
      show "rel_option (touched ?id) (map_of (ss_resources s) k) (map_of (ss_resources (thread_end i s)) k)"
        using rel wf [of k] disowned(1) [OF id] by (cases "map_of (ss_resources s) k") (auto simp: thread_end_def)
    qed
    show ?thesis unfolding c(1)
      by (rule turn_moves [OF ok c(2) assms(2) c(3) touch act]) (use act len in \<open>simp add: resting_def\<close>)
  qed
  with ok1 rel show ?thesis by (auto simp: sync_inv_def thread_end_def)
qed

lemma inv_exit:
  assumes "sync_inv s ws c" "i < length ws" "ws ! i = WFinished"
  shows "sync_inv s (ws[i := WExited]) c"
proof -
  note ok = inv_okD [OF assms(1)]
  have fin: "sa_finished (ss_actors s ! i)" using flags_at [OF ok assms(2)] assms(3) by (simp add: flags_ok_def)
  have "sync_ok s (ws[i := WExited])"
    by (rule sync_ok_pc [OF ok assms(2)]) (use flags_at [OF ok assms(2)] assms(3) in \<open>auto simp: flags_ok_def\<close>)
  moreover have "sync_turn s (ws[i := WExited]) c" if "\<not> ss_cancelled s"
  proof -
    have keep: "resting s (ws[i := WExited]) j \<longleftrightarrow> resting s ws j" for j
      using fin by (cases "j = i") (auto simp: resting_def)
    have other: "before_barrier s (ws[i := WExited]) j \<longleftrightarrow> before_barrier s ws j" "granted_now s (ws[i := WExited]) j \<longleftrightarrow> granted_now s ws j"
      "running s (ws[i := WExited]) j \<longleftrightarrow> running s ws j" for j
      using assms(2,3) by (cases "j = i"; simp add: before_barrier_def granted_now_def running_def)+
    have "sync_turn s (ws[i := WExited]) c \<longleftrightarrow> sync_turn s ws c"
      by (cases c) (simp_all add: sync_turn_def keep other)
    then show ?thesis using inv_turnD [OF assms(1) that] by simp
  qed
  ultimately show ?thesis by (auto simp: sync_inv_def)
qed

end
