(* ===== verification/Sync_Invariant.thy ===== *)
theory Sync_Invariant
  imports Sync_Safety
begin

text \<open>
  The invariant of the controlled synchronisation over the steps of the controller, and so over every reachable state,
  and the properties it gives.
\<close>

section \<open>Regions of the controller\<close>

text \<open>The printer of arrays: elements separated by one comma. Under this law the evidence stays within its bound.\<close>

definition dump_law :: "json_dump \<Rightarrow> bool" where
  "dump_law D \<longleftrightarrow> D (JArray []) = Inr ''[]'' \<and>
     (\<forall>rows row d r. D (JArray rows) = Inr d \<longrightarrow> D row = Inr r \<longrightarrow>
        (\<exists>d'. D (JArray (rows @ [row])) = Inr d' \<and> length d' = length d + length r + (if rows = [] then 0 else 1)))"

definition evidence_ok :: "json_dump \<Rightarrow> SyncState \<Rightarrow> bool" where
  "evidence_ok D s \<longleftrightarrow> (dump_law D \<and> 4 \<le> sp_max_evidence (ss_policy s) \<longrightarrow> (\<exists>e w. D (JArray (ss_events s)) = Inr e \<and> D (JArray (ss_observations s)) = Inr w
     \<and> length e + length w \<le> sp_max_evidence (ss_policy s)))"

text \<open>What every region keeps.\<close>

definition outcome_ok :: "SyncState \<Rightarrow> bool" where
  "outcome_ok s \<longleftrightarrow> (sr_outcome (ss_report s) \<noteq> ''completed'' \<longrightarrow> ss_cancelled s)"

definition region_keeps :: "json_dump \<Rightarrow> SyncState \<Rightarrow> SyncState \<Rightarrow> bool" where
  "region_keeps D s s' \<longleftrightarrow> ss_policy s' = ss_policy s \<and> length (ss_actors s') = length (ss_actors s)
     \<and> (\<forall>i < length (ss_actors s). sa_finished (ss_actors s ! i) \<longrightarrow> sa_finished (ss_actors s' ! i))
     \<and> (ss_cancelled s \<longrightarrow> ss_cancelled s') \<and> sr_decisions (ss_report s') = sr_decisions (ss_report s)
     \<and> sr_finished (ss_report s') = sr_finished (ss_report s) \<and> sr_cleanup (ss_report s') = sr_cleanup (ss_report s)
     \<and> (outcome_ok s \<longrightarrow> outcome_ok s') \<and> (evidence_ok D s \<longrightarrow> evidence_ok D s')"

lemma region_keeps_refl [simp]: "region_keeps D s s"
  by (simp add: region_keeps_def)

lemma region_keeps_trans: "region_keeps D s s' \<Longrightarrow> region_keeps D s' s'' \<Longrightarrow> region_keeps D s s''"
  by (simp add: region_keeps_def)

text \<open>Regions that leave actors and resources alone.\<close>

definition steady :: "json_dump \<Rightarrow> SyncState \<Rightarrow> SyncState \<Rightarrow> bool" where
  "steady D s s' \<longleftrightarrow> ss_actors s' = ss_actors s \<and> ss_resources s' = ss_resources s \<and> region_keeps D s s'"

lemma steady_keeps: "steady D s s' \<Longrightarrow> region_keeps D s s'"
  by (simp add: steady_def)

lemma steady_refl [simp]: "steady D s s"
  by (simp add: steady_def region_keeps_def)

lemma steady_trans: "steady D s s' \<Longrightarrow> steady D s' s'' \<Longrightarrow> steady D s s''"
  by (simp add: steady_def region_keeps_def)

lemma halted_steady: "halted s s' \<Longrightarrow> steady D s s'"
  by (simp add: halted_def steady_def region_keeps_def evidence_ok_def outcome_ok_def)

lemma steady_fail [simp]: "steady D s (sync_fail oc d s)"
  by (simp add: halted_steady)

lemma steady_ended [simp]: "steady D s (s\<lparr> ss_ended := b \<rparr>)"
  by (simp add: steady_def region_keeps_def evidence_ok_def outcome_ok_def)

lemma steady_expired: "execution_expired now l s = (s', late) \<Longrightarrow> steady D s s' \<and> (late \<longrightarrow> ss_cancelled s') \<and> (\<not> late \<longrightarrow> s' = s)"
  by (cases rule: execution_expired_cases [of now l s]) (auto intro: halted_steady simp: halted_def)

lemma evidence_fits_Inr:
  assumes "evidence_fits D rows row s = Inr True"
  shows "\<exists>e w r. D (JArray (ss_events s)) = Inr e \<and> D (JArray (ss_observations s)) = Inr w \<and> D row = Inr r
    \<and> length e + length w + length r + (if rows = [] then 0 else 1) \<le> sp_max_evidence (ss_policy s)"
  using assms by (auto simp: evidence_fits_def rbind_eq_Inr split: if_splits)

lemma steady_event:
  assumes "sync_event D entries s = (s', r)"
  shows "steady D s s' \<and> (r = Inr True \<longrightarrow> (ss_cancelled s' \<longleftrightarrow> ss_cancelled s) \<and> ss_report s' = ss_report s)"
proof -
  let ?row = "jobject (entries @ [(''ordinal'', size_json (length (ss_events s)))])"
  have "evidence_ok D (s\<lparr> ss_events := ss_events s @ [?row] \<rparr>)" if "evidence_fits D (ss_events s) ?row s = Inr True"
    unfolding evidence_ok_def
  proof
    assume "dump_law D \<and> 4 \<le> sp_max_evidence (ss_policy (s\<lparr> ss_events := ss_events s @ [?row] \<rparr>))"
    then have law: "dump_law D" by blast
    from evidence_fits_Inr [OF that] obtain e w rt where d: "D (JArray (ss_events s)) = Inr e" "D (JArray (ss_observations s)) = Inr w" "D ?row = Inr rt"
      "length e + length w + length rt + (if ss_events s = [] then 0 else 1) \<le> sp_max_evidence (ss_policy s)" by blast
    from law d(1,3) obtain e' where "D (JArray (ss_events s @ [?row])) = Inr e'"
      "length e' = length e + length rt + (if ss_events s = [] then 0 else 1)" unfolding dump_law_def by blast
    with d(2,4) show "\<exists>e w. D (JArray (ss_events (s\<lparr> ss_events := ss_events s @ [?row] \<rparr>))) = Inr e
        \<and> D (JArray (ss_observations (s\<lparr> ss_events := ss_events s @ [?row] \<rparr>))) = Inr w
        \<and> length e + length w \<le> sp_max_evidence (ss_policy (s\<lparr> ss_events := ss_events s @ [?row] \<rparr>))" by auto
  qed
  then have "steady D s (s\<lparr> ss_events := ss_events s @ [?row] \<rparr>)" if "evidence_fits D (ss_events s) ?row s = Inr True"
    using that by (simp add: steady_def region_keeps_def outcome_ok_def)
  with assms show ?thesis
    by (cases "evidence_fits D (ss_events s) ?row s") (auto simp: sync_event_def Let_def split: bool.splits)
qed

lemma steady_cleanup_expired [simp]: "steady D s (cleanup_expired s)"
  by (simp add: halted_steady)

text \<open>Program counters of the controller at which every actor rests.\<close>

definition resting_ctl :: "sctl \<Rightarrow> bool" where
  "resting_ctl c = (case c of SObserve _ \<Rightarrow> True | SInObserver _ \<Rightarrow> True | SIdle \<Rightarrow> True | SJoining _ \<Rightarrow> True | STerminated \<Rightarrow> True | _ \<Rightarrow> False)"

lemma resting_turn: "resting_ctl c \<Longrightarrow> sync_turn s ws c \<longleftrightarrow> length ws = length (ss_actors s) \<and> (\<forall>i < length ws. resting s ws i)"
  by (cases c) (simp_all add: resting_ctl_def sync_turn_def)

lemma steady_resting:
  assumes "sync_inv s ws c" "steady D s s'" "resting_ctl c" "resting_ctl c'"
  shows "sync_inv s' ws c'"
proof (cases "ss_cancelled s'")
  case True
  have "sync_ok s' ws" using inv_okD [OF assms(1)] assms(2) by (simp add: sync_ok_def steady_def region_keeps_def)
  from this True show ?thesis by (rule inv_cancelled)
next
  case False
  then have same: "ss_actors s' = ss_actors s" "ss_resources s' = ss_resources s" "ss_cancelled s' \<longleftrightarrow> ss_cancelled s"
    using assms(2) by (auto simp: steady_def region_keeps_def)
  have "sync_inv s ws c'" using assms(1,3,4) by (auto simp: sync_inv_def resting_turn)
  with sync_inv_same [OF same] show ?thesis by simp
qed

lemma steady_cancelled:
  assumes "sync_inv s ws c" "steady D s s'" "ss_cancelled s'"
  shows "sync_inv s' ws c'"
  using inv_okD [OF assms(1)] assms(2,3) by (simp add: sync_inv_def sync_ok_def steady_def region_keeps_def)

lemma resting_ctl_simps [simp]:
  "resting_ctl SIdle" "resting_ctl (SObserve w)" "resting_ctl (SInObserver w)" "resting_ctl (SJoining i)" "resting_ctl STerminated"
  by (simp_all add: resting_ctl_def)

section \<open>Observation and queries\<close>

lemma observe_begin_steady:
  "observe_begin now ex = (ex', go_on) \<Longrightarrow> steady D (sx_state ex) (sx_state ex') \<and> sx_joinable ex' = sx_joinable ex
    \<and> sx_acquired ex' = sx_acquired ex \<and> sx_teardown_attempted ex' = sx_teardown_attempted ex \<and> sx_program ex' = sx_program ex"
  by (auto simp: observe_begin_def split: prod.splits if_splits dest: steady_expired)

lemma steady_observation:
  assumes "evidence_fits D (ss_observations s) row s = Inr True"
  shows "steady D s (s\<lparr> ss_observations := ss_observations s @ [row] \<rparr>)"
proof -
  have "evidence_ok D (s\<lparr> ss_observations := ss_observations s @ [row] \<rparr>)"
    unfolding evidence_ok_def
  proof
    assume "dump_law D \<and> 4 \<le> sp_max_evidence (ss_policy (s\<lparr> ss_observations := ss_observations s @ [row] \<rparr>))"
    then have law: "dump_law D" by blast
    from evidence_fits_Inr [OF assms] obtain e w rt where d: "D (JArray (ss_events s)) = Inr e" "D (JArray (ss_observations s)) = Inr w" "D row = Inr rt"
      "length e + length w + length rt + (if ss_observations s = [] then 0 else 1) \<le> sp_max_evidence (ss_policy s)" by blast
    from law d(2,3) obtain w' where "D (JArray (ss_observations s @ [row])) = Inr w'"
      "length w' = length w + length rt + (if ss_observations s = [] then 0 else 1)" unfolding dump_law_def by blast
    with d(1,4) show "\<exists>e w. D (JArray (ss_events (s\<lparr> ss_observations := ss_observations s @ [row] \<rparr>))) = Inr e
        \<and> D (JArray (ss_observations (s\<lparr> ss_observations := ss_observations s @ [row] \<rparr>))) = Inr w
        \<and> length e + length w \<le> sp_max_evidence (ss_policy (s\<lparr> ss_observations := ss_observations s @ [row] \<rparr>))" by auto
  qed
  then show ?thesis by (simp add: steady_def region_keeps_def outcome_ok_def)
qed

text \<open>A retained observation that comes too late is taken back.\<close>

lemma steady_taken_back:
  assumes "execution_expired now l (s\<lparr> ss_observations := ss_observations s @ [row] \<rparr>) = (s', True)"
  shows "steady D s (s'\<lparr> ss_observations := butlast (ss_observations s') \<rparr>)"
  using assms
  by (cases rule: execution_expired_cases [of now l "s\<lparr> ss_observations := ss_observations s @ [row] \<rparr>"])
    (auto simp: halted_def steady_def region_keeps_def evidence_ok_def outcome_ok_def)

lemma retain_observation_steady:
  assumes "retain_observation D row now now' s = (s', x)"
  shows "steady D s s'"
proof (cases "evidence_fits D (ss_observations s) row s")
  case (Inl what)
  with assms show ?thesis by (simp add: retain_observation_def)
next
  case (Inr fits)
  obtain s1 l1 where e1: "execution_expired now ''execution deadline retaining observation'' s = (s1, l1)" by fastforce
  from steady_expired [OF e1] have s1: "steady D s s1" "\<not> l1 \<Longrightarrow> s1 = s" by auto
  let ?t = "s\<lparr> ss_observations := ss_observations s @ [row] \<rparr>"
  obtain s2 l2 where e2: "execution_expired now' ''execution deadline after observation retention'' ?t = (s2, l2)" by fastforce
  from steady_expired [OF e2] have s2: "\<not> l2 \<Longrightarrow> s2 = ?t" by auto
  consider "\<not> fits" | "fits" "l1" | "fits" "\<not> l1" "l2" | "fits" "\<not> l1" "\<not> l2" by blast
  then show ?thesis
  proof cases
    case 1 with assms Inr show ?thesis by (auto simp: retain_observation_def)
  next
    case 2 with assms Inr e1 s1 show ?thesis by (auto simp: retain_observation_def)
  next
    case 3
    with assms Inr e1 s1 e2 have "s' = s2\<lparr> ss_observations := butlast (ss_observations s2) \<rparr>" by (simp add: retain_observation_def)
    with steady_taken_back e2 3 show ?thesis by metis
  next
    case 4
    then have "steady D s ?t" using steady_observation Inr by simp
    moreover have "s' = ?t \<or> s' = ?t\<lparr> ss_ended := True \<rparr>"
      using assms Inr e1 s1(2) e2 s2 4 by (auto simp: retain_observation_def split: if_splits)
    ultimately show ?thesis using steady_trans [OF _ steady_ended] by metis
  qed
qed

lemma observe_end_steady:
  assumes "observe_end D result now1 now2 now3 s = (s', x)"
  shows "steady D s s'"
proof -
  let ?s = "if result = None then sync_fail ''observation_failed'' ''observer threw'' s else s"
  obtain s1 late where e: "execution_expired now1 ''execution deadline during observer'' ?s = (s1, late)" by fastforce
  have s1: "steady D s s1" using steady_expired [OF e] steady_trans [of D s ?s s1] by (simp split: if_splits)
  then show ?thesis using assms e retain_observation_steady steady_trans
    by (auto simp: observe_end_def split: option.splits if_splits)
qed

lemma enabled_query_steady: "enabled_query now s = (s', ids) \<Longrightarrow> steady D s s'"
  by (auto simp: enabled_query_def Let_def split: prod.splits if_splits dest: steady_expired intro: steady_trans [OF _ steady_fail])

section \<open>Construction\<close>

lemma sync_construct_cases:
  assumes "sync_construct made now ex = (ex', go_on)"
  shows "steady D (sx_state ex) (sx_state ex') \<and> (go_on \<longrightarrow> sx_state ex' = sx_state ex \<and> sx_acquired ex' \<and> \<not> ss_cancelled (sx_state ex))
    \<and> (\<not> go_on \<longrightarrow> ss_cancelled (sx_state ex')) \<and> sx_joinable ex' = sx_joinable ex \<and> sx_teardown_attempted ex' = sx_teardown_attempted ex"
proof -
  let ?ex = "case made of None \<Rightarrow> on_state (sync_fail ''application_failed'' ''factory threw'') ex
        | Some p \<Rightarrow> ex\<lparr> sx_program := p, sx_acquired := True \<rparr>"
  have ex: "steady D (sx_state ex) (sx_state ?ex)" "sx_joinable ?ex = sx_joinable ex" "sx_teardown_attempted ?ex = sx_teardown_attempted ex"
    "made \<noteq> None \<Longrightarrow> sx_state ?ex = sx_state ex \<and> sx_acquired ?ex" "made = None \<Longrightarrow> ss_cancelled (sx_state ?ex)"
    by (auto split: option.split)
  obtain s late where e: "execution_expired now ''execution deadline during factory'' (sx_state ?ex) = (s, late)" by fastforce
  from steady_expired [OF e] have s: "steady D (sx_state ?ex) s" "late \<longrightarrow> ss_cancelled s" "\<not> late \<longrightarrow> s = sx_state ?ex" by auto
  have made: "made \<noteq> None" if "\<not> ss_cancelled s" using ex(5) s(1) that unfolding steady_def region_keeps_def by blast
  have unfold: "sync_construct made now ex = (if late \<or> ss_cancelled s then (?ex\<lparr> sx_state := s \<rparr>, False)
      else case program_fits (sx_program ?ex) s of
          Some detail \<Rightarrow> (on_state (sync_fail ''application_failed'' detail) (?ex\<lparr> sx_state := s \<rparr>), False)
        | None \<Rightarrow> (?ex\<lparr> sx_state := s \<rparr>, True))"
    by (simp add: sync_construct_def Let_def e)
  note st = steady_trans [OF ex(1) s(1)]
  show ?thesis
  proof (cases "late \<or> ss_cancelled s")
    case True
    then have r: "ex' = ?ex\<lparr> sx_state := s \<rparr>" "\<not> go_on" using assms unfold by auto
    moreover have "ss_cancelled s" using True s(2) by blast
    ultimately show ?thesis using st ex(2,3) by simp
  next
    case False
    then have same: "sx_state ?ex = sx_state ex" "sx_acquired ?ex" "s = sx_state ?ex" using made ex(4) s(3) by auto
    from False same(1,3) have live: "\<not> ss_cancelled (sx_state ex)" by simp
    show ?thesis
    proof (cases "program_fits (sx_program ?ex) s")
      case None
      then have "ex' = ?ex\<lparr> sx_state := s \<rparr>" "go_on" using False assms unfold by auto
      with same ex(2,3) live show ?thesis by simp
    next
      case (Some detail)
      then have "ex' = on_state (sync_fail ''application_failed'' detail) (?ex\<lparr> sx_state := s \<rparr>)" "\<not> go_on" using False assms unfold by auto
      with same(1,3) ex(2,3) show ?thesis by simp
    qed
  qed
qed

lemma ok_spawn:
  assumes ok: "sync_ok s ws" and "length ws < length (ss_actors s)"
  shows "sync_ok s (ws @ [WSpawned])"
proof -
  have "flags_ok (pc_at (ws @ [WSpawned]) i) (ss_actors s ! i)" if "i < length (ss_actors s)" for i
  proof -
    have "flags_ok (pc_at ws i) (ss_actors s ! i)" using ok that by (simp add: sync_ok_def)
    then show ?thesis
      by (cases "i < length ws"; cases "i = length ws") (auto simp: pc_at_def nth_append flags_ok_def)
  qed
  then show ?thesis using assms by (simp add: sync_ok_def)
qed

lemma inv_spawn:
  assumes "sync_inv s ws SSpawn" "\<not> ss_cancelled s"
  shows "sync_inv s (ws @ [WSpawned]) (if length ws + 1 < length (ss_actors s) then SSpawn else SBarrier)"
proof -
  note ok = inv_okD [OF assms(1)]
  have turn: "length ws < length (ss_actors s)" "\<And>i. i < length ws \<Longrightarrow> before_barrier s ws i"
    using inv_turnD [OF assms] by (simp_all add: sync_turn_def)
  have "sync_ok s (ws @ [WSpawned])" by (rule ok_spawn [OF ok turn(1)])
  moreover have "before_barrier s (ws @ [WSpawned]) i" if "i < length (ws @ [WSpawned])" for i
  proof (cases "i = length ws")
    case True
    have "flags_ok (pc_at ws i) (ss_actors s ! i)" using ok turn(1) True by (simp add: sync_ok_def)
    with True show ?thesis by (simp add: before_barrier_def pc_at_def flags_ok_def)
  next
    case False
    with that turn(2) [of i] show ?thesis by (simp add: before_barrier_def nth_append)
  qed
  ultimately show ?thesis using turn(1) by (auto simp: sync_inv_def sync_turn_def)
qed

lemma steady_barrier: "steady D s (sync_barrier now s)"
proof -
  let ?s = "if ss_cancelled s \<or> all_parked_or_finished s then s else sync_fail ''timed_out'' ''initial barrier'' s"
  obtain s1 late where e: "execution_expired now ''execution deadline at initial barrier'' ?s = (s1, late)" by fastforce
  have "steady D s ?s" by simp
  with steady_expired [OF e, of D] show ?thesis by (auto simp: sync_barrier_def e intro: steady_trans)
qed

lemma inv_barrier:
  assumes "sync_inv s ws SBarrier" "\<not> ss_cancelled (sync_barrier now s)"
  shows "sync_barrier now s = s \<and> sync_inv s ws (SObserve ByConstructor)"
proof -
  let ?s = "if ss_cancelled s \<or> all_parked_or_finished s then s else sync_fail ''timed_out'' ''initial barrier'' s"
  obtain s1 late where e: "execution_expired now ''execution deadline at initial barrier'' ?s = (s1, late)" by fastforce
  have b: "sync_barrier now s = s1" by (simp add: sync_barrier_def e)
  have s1: "\<not> late" "s1 = ?s" using steady_expired [OF e] assms(2) b by auto
  with assms(2) b have s: "s1 = s" "all_parked_or_finished s" "\<not> ss_cancelled s" by (auto split: if_splits)
  have turn: "length ws = length (ss_actors s)" "\<And>i. i < length ws \<Longrightarrow> before_barrier s ws i"
    using inv_turnD [OF assms(1) s(3)] by (simp_all add: sync_turn_def)
  have "resting s ws i" if "i < length ws" for i
    using s(2) turn(1) turn(2) [OF that] flags_at [OF inv_okD [OF assms(1)] that] that
    by (auto simp: before_barrier_def resting_def flags_ok_def all_parked_or_finished_def list_all_length)
  with turn(1) assms(1) b s(1) show ?thesis by (simp add: sync_inv_def resting_turn)
qed

section \<open>Decisions\<close>

lemma advance_grant_cases:
  assumes "advance_grant D actor now s = (s', d)"
  obtains (refused) "steady D s s'" "\<And>i v. d \<noteq> Granted_to i v"
  | (granted) s1 i where "steady D s s1" "\<not> ss_cancelled s1" "i < length (ss_actors s)" "actor_enabled s i" "d = Granted_to i (sa_version (ss_actors s ! i))"
      "s' = upd_sync_actor i (\<lambda>a. a\<lparr> sa_grant := True \<rparr>) (s1\<lparr> ss_report := (ss_report s1)\<lparr> sr_decisions := sr_decisions (ss_report s1) + 1 \<rparr> \<rparr>)"
      "sr_decisions (ss_report s) < sp_max_decisions (ss_policy s)" "ss_report s1 = ss_report s"
proof -
  obtain s0 late where e: "execution_expired now ''execution deadline before decision'' s = (s0, late)" by fastforce
  from steady_expired [OF e] have s0: "steady D s s0" "\<not> late \<Longrightarrow> s0 = s" by auto
  let ?pick = "case sync_find actor s0 of None \<Rightarrow> None | Some i \<Rightarrow> if actor_enabled s0 i then Some i else None"
  show ?thesis
  proof (cases "late \<or> ss_cancelled s0 \<or> ?pick = None \<or> sp_max_decisions (ss_policy s0) \<le> sr_decisions (ss_report s0)")
    case True
    with assms e s0 have "steady D s s' \<and> d = Refused_decision"
      by (auto simp: advance_grant_def split: if_splits option.splits intro: steady_trans [OF _ steady_fail])
    with refused show ?thesis by auto
  next
    case False
    then obtain i where i: "sync_find actor s = Some i" "actor_enabled s i" using s0(2) by (auto split: option.splits if_splits)
    from i(1) have len: "i < length (ss_actors s)" by (auto simp: sync_find_def find_Some_iff)
    let ?a = "ss_actors s ! i"
    let ?entries = "[(''kind'', JString ''grant''), (''actor'', JString (sa_id ?a)), (''operation'', JString (pend_op (sa_pending ?a))),
      (''resource'', JString (pend_resource (sa_pending ?a))), (''enabled'', JArray (map JString (enabled_ids s)))]"
    obtain s1 r where ev: "sync_event D ?entries s = (s1, r)" by fastforce
    have run: "advance_grant D actor now s = (case r of Inl _ \<Rightarrow> (s1, Thrown_decision) | Inr False \<Rightarrow> (s1, Refused_decision)
        | Inr True \<Rightarrow> (upd_sync_actor i (\<lambda>a. a\<lparr> sa_grant := True \<rparr>)
            (s1\<lparr> ss_report := (ss_report s1)\<lparr> sr_decisions := sr_decisions (ss_report s1) + 1 \<rparr> \<rparr>), Granted_to i (sa_version ?a)))"
      using False e s0(2) i ev by (auto simp: advance_grant_def Let_def split: sum.split bool.split)
    have st: "steady D s s1" using steady_event [OF ev] by blast
    show ?thesis
    proof (cases "r = Inr True")
      case True
      with steady_event [OF ev] False s0(2) have "\<not> ss_cancelled s1" "ss_report s1 = ss_report s" by auto
      with granted [OF st _ len i(2)] True run assms False s0(2) show ?thesis by auto
    next
      case False
      with run assms have "s' = s1 \<and> (d = Thrown_decision \<or> d = Refused_decision)" by (auto split: sum.splits bool.splits)
      with refused st show ?thesis by auto
    qed
  qed
qed

lemma inv_grant:
  assumes "sync_inv s ws SIdle" "advance_grant D actor now s = (s', Granted_to i v)"
  shows "sync_inv s' ws (SWaiting i v) \<and> i < length ws"
  using assms(2)
proof (cases rule: advance_grant_cases)
  case (granted s1 i')
  then have i: "i' = i" "v = sa_version (ss_actors s ! i)" by auto
  note ok = inv_okD [OF assms(1)]
  have live: "\<not> ss_cancelled s" using granted(1,2) by (auto simp: steady_def region_keeps_def)
  have turn: "length ws = length (ss_actors s)" "\<And>j. j < length ws \<Longrightarrow> resting s ws j"
    using inv_turnD [OF assms(1) live] by (simp_all add: resting_turn)
  have len: "i < length ws" using granted(3) i turn(1) by simp
  let ?a = "(ss_actors s ! i)\<lparr> sa_grant := True \<rparr>"
  have st: "ss_actors s' = (ss_actors s)[i := ?a]" "ss_resources s' = ss_resources s"
    using granted(1,6) i by (simp_all add: steady_def region_keeps_def)
  have parked: "sa_parked (ss_actors s ! i)" "\<not> sa_finished (ss_actors s ! i)" using granted(4) i by (auto simp: actor_enabled_def Let_def)
  obtain stg where w: "ws ! i = WWait stg" and pp: "proper_pending s (ss_actors s ! i)"
    using turn(2) [OF len] parked(2) by (auto simp: resting_def)
  have "sync_ok s' (ws[i := ws ! i])"
    by (rule sync_ok_actor [OF ok len st]) (use flags_at [OF ok len] w in \<open>auto simp: flags_ok_def\<close>)
  then have ok': "sync_ok s' ws" by simp
  have en: "granted_now s' ws i"
    using w pp granted(4) st len turn(1) i
    by (auto simp: granted_now_def proper_pending_def actor_enabled_def pending_enabled_def Let_def)
  have same: "ws[i := WWait stg] = ws" using w by (metis list_update_id)
  have "sync_turn s' (ws[i := WWait stg]) (SWaiting i v)"
    by (rule turn_moves [OF ok turn(1) len _ touches_same [OF st(2)] st(1)]) (use turn(2) en i in \<open>auto simp: same\<close>)
  with same ok' len show ?thesis by (simp add: sync_inv_def)
qed auto

section \<open>Regions of the workers\<close>

lemma region_keeps_upd_actor:
  assumes "sa_finished (ss_actors s ! i) \<longrightarrow> sa_finished (f (ss_actors s ! i))"
  shows "region_keeps D s (upd_sync_actor i f s)"
proof -
  have "sa_finished ((ss_actors s)[i := f (ss_actors s ! i)] ! j)" if "j < length (ss_actors s)" "sa_finished (ss_actors s ! j)" for j
    using assms that by (cases "j = i") auto
  then show ?thesis by (simp add: region_keeps_def outcome_ok_def evidence_ok_def)
qed

lemma region_keeps_upd_owned [simp]: "region_keeps D s (upd_owned k f s)"
  by (simp add: region_keeps_def outcome_ok_def evidence_ok_def)

lemma region_keeps_fail [simp]: "region_keeps D s (sync_fail oc d s)"
  by (rule steady_keeps) simp

lemma region_keeps_request: "region_keeps D s (fst (request_enter tid i op resource v s))"
  by (auto simp: request_enter_def Let_def region_keeps_upd_actor split: option.split)

lemma region_keeps_perform: "perform_op actor p s = Some (s', v) \<Longrightarrow> region_keeps D s s'"
  by (auto simp: perform_op_def split: if_splits option.splits)

lemma region_keeps_resume:
  assumes "request_resume D i s = Some (s', r)"
  shows "region_keeps D s s'"
proof (cases "ss_cancelled s")
  case True
  with assms show ?thesis by (simp add: request_resume_def)
next
  case False
  let ?s = "upd_sync_actor i (\<lambda>a. a\<lparr> sa_grant := False, sa_parked := False \<rparr>) s"
  let ?p = "sa_pending (ss_actors s ! i)"
  let ?entries = "\<lambda>v. [(''kind'', JString ''result''), (''actor'', JString (sa_id (ss_actors s ! i))),
    (''operation'', JString (pend_op ?p)), (''resource'', JString (pend_resource ?p)), (''value'', JInteger v)]"
  from assms False obtain s1 v where p: "perform_op (sa_id (ss_actors s ! i)) ?p ?s = Some (s1, v)"
    "(s', r) = (case sync_event D (?entries v) s1 of (s2, Inl what) \<Rightarrow> (s2, Inl what) | (s2, Inr _) \<Rightarrow> (s2, Inr v))"
    by (auto simp: request_resume_def Let_def)
  obtain s2 x where e: "sync_event D (?entries v) s1 = (s2, x)" by fastforce
  have "s' = s2" using p(2) e by (auto split: sum.splits)
  moreover have "region_keeps D s ?s" by (rule region_keeps_upd_actor) simp
  ultimately show ?thesis using region_keeps_perform [OF p(1)] steady_event [OF e] region_keeps_trans steady_keeps by metis
qed

lemma region_keeps_release: "region_keeps D s (unwind_release i resource s)"
  by (auto simp: unwind_release_def split: option.split)

lemma region_keeps_register: "region_keeps D s (thread_register i tid s)"
  unfolding thread_register_def by (rule region_keeps_upd_actor) simp

lemma region_keeps_threw: "region_keeps D s (thread_threw s)"
  by (simp add: thread_threw_def)

lemma region_keeps_release_all: "region_keeps D s (release_all actor ks s)"
proof (induction ks arbitrary: s)
  case (Cons k ks)
  let ?t = "case map_of (ss_resources s) k of None \<Rightarrow> s | Some r \<Rightarrow> (if own_owner r = actor
      then upd_owned k (\<lambda>r. r\<lparr> own_owner := [] \<rparr>) (if ss_cancelled s then s else sync_fail ''resource_misuse'' ''actor completed holding mutex'' s)
      else s)"
  have "region_keeps D s ?t" by (auto split: option.split intro: region_keeps_trans [OF region_keeps_fail region_keeps_upd_owned])
  from region_keeps_trans [OF this Cons.IH] show ?case by simp
qed simp

lemma region_keeps_end: "region_keeps D s (thread_end i s)"
  unfolding thread_end_def by (rule region_keeps_trans [OF region_keeps_release_all region_keeps_upd_actor]) simp

text \<open>One step of a worker.\<close>

definition worker_moves :: "json_dump \<Rightarrow> SyncSys \<Rightarrow> SyncSys \<Rightarrow> bool" where
  "worker_moves D y y' \<longleftrightarrow> (\<exists>s' ws'. y' = y\<lparr> sy_exec := (sy_exec y)\<lparr> sx_state := s' \<rparr>, sy_pcs := ws' \<rparr>
     \<and> sync_inv s' ws' (sy_ctl y) \<and> region_keeps D (sy_state y) s'
     \<and> length ws' = length (sy_pcs y) \<and> (\<forall>i < length ws'. sy_pcs y ! i = WExited \<longrightarrow> ws' ! i = WExited))"

lemma worker_movesI:
  assumes "sync_inv s' (ws[i := w]) (sy_ctl y)" "region_keeps D (sy_state y) s'" "sy_pcs y = ws" "ws ! i \<noteq> WExited"
  shows "worker_moves D y (set_pc i w (upd_sync (\<lambda>_. s') y))"
  unfolding worker_moves_def
  by (rule exI [of _ s'], rule exI [of _ "ws[i := w]"]) (use assms in \<open>auto, metis nth_list_update_neq\<close>)

lemma worker_movesI_state:
  assumes "sync_inv s' (sy_pcs y) (sy_ctl y)" "region_keeps D (sy_state y) s'"
  shows "worker_moves D y (upd_sync (\<lambda>_. s') y)"
  unfolding worker_moves_def
  by (rule exI [of _ s'], rule exI [of _ "sy_pcs y"]) (use assms in simp)

lemma upd_sync_self [simp]: "upd_sync (\<lambda>_. sy_state y) y = y"
  by simp

lemma worker_step_moves:
  assumes "sync_worker_step D a y = Some y'" "sync_inv (sy_state y) (sy_pcs y) (sy_ctl y)"
  shows "worker_moves D y y'"
proof (cases a)
  case (AcRegister i tid)
  with assms(1) have "i < length (sy_pcs y)" "sy_pcs y ! i = WSpawned" "y' = set_pc i WReady (upd_sync (\<lambda>_. thread_register i tid (sy_state y)) y)"
    by (auto simp: sync_worker_step_def split: if_splits)
  with worker_movesI [OF inv_register [OF assms(2)] region_keeps_register] show ?thesis by simp
next
  case (AcRequest i op resource v)
  with assms(1) obtain st tid s waits where r: "i < length (sy_pcs y)" "may_request (sy_pcs y ! i) op resource = Some st"
    "request_enter tid i op resource v (sy_state y) = (s, waits)"
    "y' = set_pc i (if waits then WWait st else thrown_at st) (upd_sync (\<lambda>_. s) y)"
    by (auto simp: sync_worker_step_def worker_request_def split: if_splits option.splits prod.splits)
  have "region_keeps D (sy_state y) s" using region_keeps_request [of D "sy_state y" tid i op resource v] r(3) by simp
  moreover have "sy_pcs y ! i \<noteq> WExited" using r(2) by (auto simp: may_request_def)
  ultimately show ?thesis using worker_movesI [OF inv_request [OF assms(2) r(1-3)]] r(4) by simp
next
  case (AcForeign tid i op resource v)
  with assms(1) have "sa_thread (ss_actors (sy_state y) ! i) \<noteq> Some tid"
    "y' = upd_sync (\<lambda>_. sync_fail ''resource_misuse'' ''foreign hook caller'' (sy_state y)) y"
    by (auto simp: sync_worker_step_def request_enter_def split: if_splits)
  with worker_movesI_state [OF sync_inv_halted [OF inv_okD [OF assms(2)] halted_fail] region_keeps_fail] show ?thesis by simp
next
  case (AcResume i)
  with assms(1) obtain st where i: "i < length (sy_pcs y)" "sy_pcs y ! i = WWait st" "request_wakes i (sy_state y)"
    by (auto simp: sync_worker_step_def worker_resume_def split: if_splits wpc.splits)
  from inv_resume [OF assms(2) this, of D] obtain s r where r: "request_resume D i (sy_state y) = Some (s, r)"
    "sync_inv s ((sy_pcs y)[i := case r of Inl _ \<Rightarrow> thrown_at st | Inr _ \<Rightarrow> returned_at st]) (sy_ctl y)" by blast
  have "y' = set_pc i (case r of Inl _ \<Rightarrow> thrown_at st | Inr _ \<Rightarrow> returned_at st) (upd_sync (\<lambda>_. s) y)"
    using assms(1) AcResume i r(1) by (simp add: sync_worker_step_def worker_resume_def)
  with worker_movesI [OF r(2) region_keeps_resume [OF r(1)]] i(2) show ?thesis by simp
next
  case (AcRelease i resource)
  with assms(1) have "i < length (sy_pcs y)" "sy_pcs y ! i = WBody" "y' = upd_sync (\<lambda>_. unwind_release i resource (sy_state y)) y"
    by (auto simp: sync_worker_step_def split: if_splits)
  with worker_movesI_state [OF inv_release [OF assms(2)] region_keeps_release] show ?thesis by simp
next
  case (AcBodyEnd i returns)
  with assms(1) have i: "i < length (sy_pcs y)" "sy_pcs y ! i = WBody" "y' = set_pc i (if returns then WReturned else WRaised) (upd_sync (\<lambda>_. sy_state y) y)"
    by (auto simp: sync_worker_step_def split: if_splits)
  have "sync_inv (sy_state y) ((sy_pcs y)[i := if returns then WReturned else WRaised]) (sy_ctl y)"
    by (rule inv_running_pc [OF assms(2) i(1)]) (use i(2) in auto)
  from worker_movesI [OF this region_keeps_refl refl] i(2) show ?thesis unfolding i(3) by simp
next
  case (AcCaught i)
  with assms(1) have "i < length (sy_pcs y)" "sy_pcs y ! i = WRaised" "y' = set_pc i WEnding (upd_sync (\<lambda>_. thread_threw (sy_state y)) y)"
    by (auto simp: sync_worker_step_def split: if_splits)
  with worker_movesI [OF inv_caught [OF assms(2)] region_keeps_threw] show ?thesis by simp
next
  case (AcEnd i)
  with assms(1) have "i < length (sy_pcs y)" "sy_pcs y ! i = WEnding" "y' = set_pc i WFinished (upd_sync (\<lambda>_. thread_end i (sy_state y)) y)"
    by (auto simp: sync_worker_step_def split: if_splits)
  with worker_movesI [OF inv_end [OF assms(2)] region_keeps_end] show ?thesis by simp
next
  case (AcExit i)
  with assms(1) have i: "i < length (sy_pcs y)" "sy_pcs y ! i = WFinished" "y' = set_pc i WExited (upd_sync (\<lambda>_. sy_state y) y)"
    by (auto simp: sync_worker_step_def split: if_splits)
  from worker_movesI [OF inv_exit [OF assms(2) i(1,2)] region_keeps_refl refl] i(2) show ?thesis unfolding i(3) by simp
qed (use assms(1) in \<open>simp_all add: sync_worker_step_def\<close>)

end
