(* ===== verification/Sync_Controller.thy ===== *)
theory Sync_Controller
  imports Sync_Invariant
begin

text \<open>
  Every reachable state of the controlled synchronisation: what the controller knows of joins, cleanup and teardown at
  each of its program counters, and the preservation of the whole invariant by all steps.
\<close>

section \<open>The controller's own bookkeeping\<close>

definition joins_ok :: "SyncSys \<Rightarrow> bool" where
  "joins_ok y \<longleftrightarrow> length (sx_joinable (sy_exec y)) = length (sy_pcs y)
     \<and> (\<forall>i < length (sy_pcs y). \<not> sx_joinable (sy_exec y) ! i \<longrightarrow> sy_pcs y ! i = WExited)"

abbreviation joined_below :: "nat \<Rightarrow> SyncSys \<Rightarrow> bool" where
  "joined_below k y \<equiv> (\<forall>i < length (sy_pcs y). i < k \<longrightarrow> \<not> sx_joinable (sy_exec y) ! i)"

definition sctl_ok :: "SyncSys \<Rightarrow> bool" where
  "sctl_ok y \<longleftrightarrow> (case sy_ctl y of
     SSpawn \<Rightarrow> length (sy_pcs y) < length (ss_actors (sy_state y))
   | SWaiting i _ \<Rightarrow> i < length (sy_pcs y)
   | SJoining i \<Rightarrow> i < length (sy_pcs y)
   | SCleanWait _ \<Rightarrow> ss_cancelled (sy_state y)
   | SCleanNext k _ \<Rightarrow> ss_cancelled (sy_state y) \<and> joined_below k y
   | SCleanJoining k _ \<Rightarrow> ss_cancelled (sy_state y) \<and> k < length (sy_pcs y) \<and> joined_below k y
   | SInTeardown _ \<Rightarrow> sx_teardown_attempted (sy_exec y)
   | SDestroyNext k \<Rightarrow> ss_cancelled (sy_state y) \<and> joined_below k y
   | _ \<Rightarrow> True)"

definition cleaned :: "SyncState \<Rightarrow> bool" where
  "cleaned s \<longleftrightarrow> sr_cleanup (ss_report s) = ''confirmed'' \<or> sr_cleanup (ss_report s) = ''teardown_failed''"

definition in_teardown :: "sctl \<Rightarrow> bool" where
  "in_teardown c \<longleftrightarrow> (\<exists>u. c = SInTeardown u)"

definition teardown_ok :: "SyncSys \<Rightarrow> bool" where
  "teardown_ok y \<longleftrightarrow> (let ex = sy_exec y; c = sy_ctl y in sy_teardowns y \<le> 1
     \<and> (sx_teardown_attempted ex \<longrightarrow> sx_acquired ex \<and> joined_below (length (sy_pcs y)) y \<and> ss_cancelled (sx_state ex)
          \<and> (in_teardown c \<or> c = SDestroyed \<or> (cleaned (sx_state ex) \<and> (c = SIdle \<or> (\<exists>k. c = SDestroyNext k)))))
     \<and> (sy_teardowns y \<noteq> 0 \<longrightarrow> sx_teardown_attempted ex \<and> \<not> in_teardown c)
     \<and> (sr_cleanup (ss_report (sx_state ex)) = ''confirmed'' \<longrightarrow> sy_teardowns y = 1))"

definition sync_records :: "json_dump \<Rightarrow> SyncPolicy \<Rightarrow> SyncState \<Rightarrow> bool" where
  "sync_records D policy s \<longleftrightarrow> ss_policy s = policy \<and> evidence_ok D s \<and> outcome_ok s
     \<and> sr_decisions (ss_report s) \<le> sp_max_decisions policy \<and> (sr_finished (ss_report s) \<longrightarrow> actors_finished s)"

definition sync_sys :: "json_dump \<Rightarrow> SyncPolicy \<Rightarrow> SyncSys \<Rightarrow> bool" where
  "sync_sys D policy y \<longleftrightarrow> sync_inv (sy_state y) (sy_pcs y) (sy_ctl y) \<and> sync_records D policy (sy_state y)
     \<and> joins_ok y \<and> sctl_ok y \<and> teardown_ok y"

lemma region_keeps_records:
  assumes "region_keeps D s s'" "sync_records D policy s"
  shows "sync_records D policy s'"
  using assms unfolding region_keeps_def sync_records_def actors_finished_def list_all_length by auto

lemma worker_moves_sys:
  assumes "worker_moves D y y'" "sync_sys D policy y"
  shows "sync_sys D policy y'"
proof -
  obtain s ws where m: "y' = y\<lparr> sy_exec := (sy_exec y)\<lparr> sx_state := s \<rparr>, sy_pcs := ws \<rparr>" "sync_inv s ws (sy_ctl y)"
    "region_keeps D (sy_state y) s" "length ws = length (sy_pcs y)" "\<forall>i < length ws. sy_pcs y ! i = WExited \<longrightarrow> ws ! i = WExited"
    using assms(1) by (auto simp: worker_moves_def)
  have k: "ss_cancelled (sy_state y) \<longrightarrow> ss_cancelled s" "length (ss_actors s) = length (ss_actors (sy_state y))"
    "sr_cleanup (ss_report s) = sr_cleanup (ss_report (sy_state y))"
    using m(3) by (simp_all add: region_keeps_def)
  have "joins_ok y'" using assms(2) m(4,5) unfolding m(1) by (simp add: sync_sys_def joins_ok_def)
  moreover have "sctl_ok y'" using assms(2) m(4) k unfolding m(1)
    by (cases "sy_ctl y") (simp_all add: sync_sys_def sctl_ok_def)
  moreover have "teardown_ok y'" using assms(2) m(4) k unfolding m(1)
    by (simp add: sync_sys_def teardown_ok_def Let_def cleaned_def)
  moreover have "sync_records D policy s" using region_keeps_records [OF m(3)] assms(2) by (simp add: sync_sys_def)
  ultimately show ?thesis using m(1,2) by (simp add: sync_sys_def)
qed

text \<open>Steps of the controller that do not touch the teardown.\<close>

lemma sys_step:
  assumes "sync_sys D policy y" "\<not> in_teardown (sy_ctl y)" "sy_ctl y \<noteq> SDestroyed" "\<not> in_teardown c'"
    and "sync_inv (sx_state ex') (sy_pcs y) c'" "sync_records D policy (sx_state ex')"
    and "ss_cancelled (sy_state y) \<Longrightarrow> ss_cancelled (sx_state ex')"
    and "joins_ok (sgo ex' c' y)" "sctl_ok (sgo ex' c' y)" "sx_teardown_attempted ex' = sx_teardown_attempted (sy_exec y)"
    and "sr_cleanup (ss_report (sx_state ex')) = ''confirmed'' \<Longrightarrow> sr_cleanup (ss_report (sy_state y)) = ''confirmed''"
    and "sx_teardown_attempted (sy_exec y) \<Longrightarrow> cleaned (sy_state y) \<Longrightarrow> sy_ctl y = SIdle \<or> (\<exists>k. sy_ctl y = SDestroyNext k) \<Longrightarrow>
      (c' = SIdle \<or> c' = SDestroyed \<or> (\<exists>k. c' = SDestroyNext k)) \<and> cleaned (sx_state ex') \<and> (sx_acquired (sy_exec y) \<longrightarrow> sx_acquired ex')
      \<and> (\<forall>i < length (sy_pcs y). \<not> sx_joinable (sy_exec y) ! i \<longrightarrow> \<not> sx_joinable ex' ! i)"
  shows "sync_sys D policy (sgo ex' c' y)"
proof -
  have td: "teardown_ok y" using assms(1) by (simp add: sync_sys_def)
  have "teardown_ok (sgo ex' c' y)"
  proof (cases "sx_teardown_attempted (sy_exec y)")
    case True
    with td assms(2,3) have c: "cleaned (sy_state y)" "sy_ctl y = SIdle \<or> (\<exists>k. sy_ctl y = SDestroyNext k)"
      "ss_cancelled (sy_state y)" "joined_below (length (sy_pcs y)) y" by (auto simp: teardown_ok_def Let_def)
    from assms(12) [OF True c(1,2)] td True assms(4,7,10,11) c(3,4) show ?thesis by (auto simp: teardown_ok_def Let_def)
  next
    case False
    with td assms(4,10,11) show ?thesis by (auto simp: teardown_ok_def Let_def)
  qed
  with assms(5,6,8,9) show ?thesis by (simp add: sync_sys_def)
qed

lemma not_attempted:
  assumes "sync_sys D policy y" "\<not> in_teardown (sy_ctl y)" "sy_ctl y \<noteq> SDestroyed" "sy_ctl y \<noteq> SIdle" "\<And>k. sy_ctl y \<noteq> SDestroyNext k"
  shows "\<not> sx_teardown_attempted (sy_exec y)"
  using assms by (auto simp: sync_sys_def teardown_ok_def Let_def)

text \<open>Most of them leave the threads alone too.\<close>

lemma sys_keeps:
  assumes "sync_sys D policy y" "\<not> in_teardown (sy_ctl y)" "sy_ctl y \<noteq> SDestroyed" "\<And>k. sy_ctl y \<noteq> SDestroyNext k"
    and "sync_inv (sx_state ex') (sy_pcs y) c'" "region_keeps D (sy_state y) (sx_state ex')" "sctl_ok (sgo ex' c' y)"
    and "sx_joinable ex' = sx_joinable (sy_exec y)" "sx_teardown_attempted ex' = sx_teardown_attempted (sy_exec y)"
    and "\<not> in_teardown c'" "sx_teardown_attempted (sy_exec y) \<Longrightarrow> c' = SIdle \<and> (sx_acquired (sy_exec y) \<longrightarrow> sx_acquired ex')"
  shows "sync_sys D policy (sgo ex' c' y)"
proof (rule sys_step [OF assms(1-3,10,5)])
  show "sync_records D policy (sx_state ex')" using region_keeps_records [OF assms(6)] assms(1) by (simp add: sync_sys_def)
  show "joins_ok (sgo ex' c' y)" using assms(1,8) by (simp add: sync_sys_def joins_ok_def)
  have k: "sr_cleanup (ss_report (sx_state ex')) = sr_cleanup (ss_report (sy_state y))" "ss_cancelled (sy_state y) \<longrightarrow> ss_cancelled (sx_state ex')"
    using assms(6) by (simp_all add: region_keeps_def)
  show "ss_cancelled (sy_state y) \<Longrightarrow> ss_cancelled (sx_state ex')" using k(2) by simp
  show "sr_cleanup (ss_report (sx_state ex')) = ''confirmed'' \<Longrightarrow> sr_cleanup (ss_report (sy_state y)) = ''confirmed''" using k(1) by simp
  show "(c' = SIdle \<or> c' = SDestroyed \<or> (\<exists>k. c' = SDestroyNext k)) \<and> cleaned (sx_state ex') \<and> (sx_acquired (sy_exec y) \<longrightarrow> sx_acquired ex')
      \<and> (\<forall>i < length (sy_pcs y). \<not> sx_joinable (sy_exec y) ! i \<longrightarrow> \<not> sx_joinable ex' ! i)"
    if "sx_teardown_attempted (sy_exec y)" "cleaned (sy_state y)"
    using assms(8,11) that k(1) by (simp add: cleaned_def)
qed (rule assms(7,9))+

lemma in_teardown_simps [simp]:
  "\<not> in_teardown SFactory" "\<not> in_teardown SSpawn" "\<not> in_teardown SBarrier" "\<not> in_teardown (SObserve w)" "\<not> in_teardown (SInObserver w)"
  "\<not> in_teardown SIdle" "\<not> in_teardown (SWaiting i v)" "\<not> in_teardown (SJoining i)" "\<not> in_teardown (SCleanWait u)"
  "\<not> in_teardown (SCleanNext k u)" "\<not> in_teardown (SCleanJoining k u)" "in_teardown (SInTeardown u)" "\<not> in_teardown (SDestroyNext k)"
  "\<not> in_teardown SDestroyed" "\<not> in_teardown STerminated"
  by (simp_all add: in_teardown_def)

section \<open>Every step of the controller\<close>

lemma sys_invD: "sync_sys D policy y \<Longrightarrow> sync_inv (sy_state y) (sy_pcs y) (sy_ctl y)"
  by (simp add: sync_sys_def)

lemma start_step_sys:
  assumes "sync_start_step D a y = Some y'" "sync_sys D policy y"
  shows "sync_sys D policy y'"
proof -
  note inv = sys_invD [OF assms(2)]
  consider (factory) made now where "sy_ctl y = SFactory" "a = AcFactory made now"
    | (spawn) created where "sy_ctl y = SSpawn" "a = AcSpawn created"
    | (barrier) now where "sy_ctl y = SBarrier" "a = AcBarrier now"
    | (observe) who now where "sy_ctl y = SObserve who" "a = AcObserve now"
    | (observed) who result now1 now2 now3 where "sy_ctl y = SInObserver who" "a = AcObserved result now1 now2 now3"
    using assms(1) by (cases "sy_ctl y"; cases a) (simp_all add: sync_start_step_def Let_def)
  then show ?thesis
  proof cases
    case factory
    obtain ex go_on where c: "sync_construct made now (sy_exec y) = (ex, go_on)" by fastforce
    note cs = sync_construct_cases [OF c, of D]
    have y': "y' = sgo ex (if go_on then SSpawn else SIdle) y" using assms(1) factory c by (simp add: sync_start_step_def Let_def)
    have na: "\<not> sx_teardown_attempted (sy_exec y)" by (rule not_attempted [OF assms(2)]) (simp_all add: factory)
    have turn: "ss_cancelled (sy_state y) \<or> sy_pcs y = [] \<and> ss_actors (sy_state y) \<noteq> []" using inv factory by (simp add: sync_inv_def sync_turn_def)
    have sp: "sy_pcs y = [] \<and> ss_actors (sy_state y) \<noteq> [] \<and> \<not> ss_cancelled (sy_state y)" if go_on
      using cs that turn by simp
    show ?thesis unfolding y'
    proof (rule sys_keeps [OF assms(2)])
      show "sync_inv (sx_state ex) (sy_pcs y) (if go_on then SSpawn else SIdle)"
        using cs sp steady_cancelled [OF inv, of D "sx_state ex"] inv by (cases go_on) (auto simp: sync_inv_def sync_turn_def)
      show "sctl_ok (sgo ex (if go_on then SSpawn else SIdle) y)" using cs sp by (auto simp: sctl_ok_def)
    qed (use cs na factory in \<open>auto dest: steady_keeps\<close>)
  next
    case spawn
    have lt: "length (sy_pcs y) < length (ss_actors (sy_state y))" using assms(2) spawn by (simp add: sync_sys_def sctl_ok_def)
    have len: "length (sx_joinable (sy_exec y)) = length (sy_pcs y)" using assms(2) by (simp add: sync_sys_def joins_ok_def)
    let ?c = "if length (sy_pcs y) + 1 < length (ss_actors (sy_state y)) then SSpawn else SBarrier"
    show ?thesis
    proof (cases created)
      case True
      then have y': "y' = y\<lparr> sy_exec := (sy_exec y)\<lparr> sx_joinable := sx_joinable (sy_exec y) @ [True] \<rparr>, sy_ctl := ?c, sy_pcs := sy_pcs y @ [WSpawned] \<rparr>"
        using assms(1) spawn len by (simp add: sync_start_step_def Let_def sync_spawn_def)
      have "sync_inv (sy_state y) (sy_pcs y @ [WSpawned]) ?c"
      proof (cases "ss_cancelled (sy_state y)")
        case True
        show ?thesis by (rule inv_cancelled [OF ok_spawn [OF inv_okD [OF inv] lt] True])
      next
        case False
        from inv_spawn [OF _ this] inv spawn(1) show ?thesis by simp
      qed
      moreover have "\<not> sx_teardown_attempted (sy_exec y)" by (rule not_attempted [OF assms(2)]) (simp_all add: spawn)
      ultimately show ?thesis using assms(2) spawn(1) lt len unfolding y'
        by (auto simp: sync_sys_def joins_ok_def sctl_ok_def teardown_ok_def Let_def nth_append)
    next
      case False
      then have y': "y' = sgo (on_state (sync_fail ''application_failed'' ''thread creation failed'') (sy_exec y)) SBarrier y"
        using assms(1) spawn by (simp add: sync_start_step_def Let_def sync_spawn_def)
      show ?thesis unfolding y'
      proof (rule sys_keeps [OF assms(2)])
        show "sync_inv (sx_state (on_state (sync_fail ''application_failed'' ''thread creation failed'') (sy_exec y))) (sy_pcs y) SBarrier"
          by simp (rule steady_cancelled [OF inv steady_fail sync_fail_simps(4)])
        show "SBarrier = SIdle \<and> (sx_acquired (sy_exec y) \<longrightarrow> sx_acquired (on_state (sync_fail ''application_failed'' ''thread creation failed'') (sy_exec y)))"
          if "sx_teardown_attempted (sy_exec y)" using not_attempted [OF assms(2)] spawn that by simp
      qed (simp_all add: spawn sctl_ok_def)
    qed
  next
    case barrier
    let ?s = "sync_barrier now (sy_state y)"
    have y': "y' = sgo_state ?s (if ss_cancelled ?s then SIdle else SObserve ByConstructor) y"
      using assms(1) barrier by (auto simp: sync_start_step_def Let_def split: if_splits)
    have inv': "sync_inv (sy_state y) (sy_pcs y) SBarrier" using inv barrier(1) by simp
    have na: "\<not> sx_teardown_attempted (sy_exec y)" by (rule not_attempted [OF assms(2)]) (simp_all add: barrier)
    have st: "steady D (sy_state y) ?s" by (rule steady_barrier)
    show ?thesis unfolding y'
    proof (rule sys_keeps [OF assms(2)])
      show "sync_inv (sx_state ((sy_exec y)\<lparr> sx_state := ?s \<rparr>)) (sy_pcs y) (if ss_cancelled ?s then SIdle else SObserve ByConstructor)"
      proof (cases "ss_cancelled ?s")
        case True
        with steady_cancelled [OF inv st True] show ?thesis by simp
      next
        case False
        with inv_barrier [OF inv' False] show ?thesis by simp
      qed
    qed (use na st barrier in \<open>auto dest: steady_keeps simp: sctl_ok_def\<close>)
  next
    case (observe who now)
    obtain ex go_on where c: "observe_begin now (sy_exec y) = (ex, go_on)" by fastforce
    note st = observe_begin_steady [OF c, of D]
    have y': "y' = sgo ex (if go_on then SInObserver who else SIdle) y" using assms(1) observe c by (simp add: sync_start_step_def Let_def)
    have na: "\<not> sx_teardown_attempted (sy_exec y)" by (rule not_attempted [OF assms(2)]) (simp_all add: observe)
    show ?thesis unfolding y'
    proof (rule sys_keeps [OF assms(2)])
      show "sync_inv (sx_state ex) (sy_pcs y) (if go_on then SInObserver who else SIdle)"
        by (rule steady_resting [OF inv, of D]) (use st observe in simp_all)
    qed (use na st observe in \<open>auto dest: steady_keeps simp: sctl_ok_def\<close>)
  next
    case (observed who result now1 now2 now3)
    obtain s thrown where c: "observe_end D result now1 now2 now3 (sy_state y) = (s, thrown)" by fastforce
    note st = observe_end_steady [OF c]
    let ?c = "if thrown \<noteq> None \<and> who = ByConstructor then STerminated else SIdle"
    have y': "y' = sgo ((sy_exec y)\<lparr> sx_state := s, sx_observing := False \<rparr>) ?c y" using assms(1) observed c by (simp add: sync_start_step_def Let_def)
    have na: "\<not> sx_teardown_attempted (sy_exec y)" by (rule not_attempted [OF assms(2)]) (simp_all add: observed)
    show ?thesis unfolding y'
    proof (rule sys_keeps [OF assms(2)])
      show "sync_inv (sx_state ((sy_exec y)\<lparr> sx_state := s, sx_observing := False \<rparr>)) (sy_pcs y) ?c"
        by (rule steady_resting [OF inv, of D]) (use st observed in simp_all)
    qed (use na st observed in \<open>auto dest: steady_keeps simp: sctl_ok_def\<close>)
  qed
qed

text \<open>Deciding, and waiting for the granted actor.\<close>

lemma finished_records: "sync_records D policy s \<Longrightarrow> sync_records D policy (set_finished s)"
  by (auto simp: sync_records_def evidence_ok_def outcome_ok_def actors_finished_def)

lemma finished_inv: "sync_inv (set_finished s) ws c \<longleftrightarrow> sync_inv s ws c"
  by (rule sync_inv_same) simp_all

lemma advance_boundary_cases:
  assumes "advance_boundary i v joinable now now' s = (s', w)"
  obtains (stopped) "w = Return_report" "steady D s s'" "ss_cancelled s'"
  | (join) "w = Join_worker i" "s' = s" "\<not> ss_cancelled s" "sa_version (ss_actors s ! i) \<noteq> v"
  | (observe) "w = Observe_now" "s' = set_finished s" "\<not> ss_cancelled s" "sa_version (ss_actors s ! i) \<noteq> v"
proof -
  let ?s = "if boundary_reached i v s then s else sync_fail ''timed_out'' ''actor did not reach resource boundary'' s"
  obtain s1 late where e: "execution_expired now ''execution deadline after actor boundary'' ?s = (s1, late)" by fastforce
  have st: "steady D ?s s1" "late \<longrightarrow> ss_cancelled s1" "\<not> late \<longrightarrow> s1 = ?s" using steady_expired [OF e, of D] by auto
  have st1: "steady D s s1" using st(1) by (rule steady_trans [rotated]) simp
  obtain s2 late' where e2: "execution_expired now' ''execution deadline before completion join'' s1 = (s2, late')" by fastforce
  have st2: "steady D s1 s2" "late' \<longrightarrow> ss_cancelled s2" "\<not> late' \<longrightarrow> s2 = s1" using steady_expired [OF e2, of D] by auto
  have run: "advance_boundary i v joinable now now' s = (if ss_cancelled s1 then (s1, Return_report)
      else if sa_finished (ss_actors s1 ! i) \<and> joinable then (if late' then (s2, Return_report) else (s2, Join_worker i))
      else (set_finished s1, Observe_now))"
    by (simp add: advance_boundary_def Let_def e e2)
  show ?thesis
  proof (cases "ss_cancelled s1")
    case True
    with assms run stopped st1 show ?thesis by simp
  next
    case False
    then have same: "s1 = s" "\<not> ss_cancelled s" "sa_version (ss_actors s ! i) \<noteq> v"
      using st(2,3) by (auto simp: boundary_reached_def split: if_splits)
    consider "sa_finished (ss_actors s1 ! i) \<and> joinable" "late'" | "sa_finished (ss_actors s1 ! i) \<and> joinable" "\<not> late'"
      | "\<not> (sa_finished (ss_actors s1 ! i) \<and> joinable)" by blast
    then show ?thesis
    proof cases
      case 1
      with assms run False st2 same(1) show ?thesis by (intro stopped) simp_all
    next
      case 2
      with assms run False st2(3) same show ?thesis by (intro join) simp_all
    next
      case 3
      with assms run False same show ?thesis by (intro observe) auto
    qed
  qed
qed

lemma all_rest:
  assumes "sync_inv s ws (SWaiting i v)" "\<not> ss_cancelled s" "sa_version (ss_actors s ! i) \<noteq> v" "resting_ctl c"
  shows "sync_inv s ws c"
proof -
  have "length ws = length (ss_actors s)" "\<forall>j < length ws. resting s ws j"
    using inv_turnD [OF assms(1,2)] assms(3) by (auto simp: sync_turn_def)
  with assms(1,4) show ?thesis by (simp add: sync_inv_def resting_turn)
qed

lemma boundary_sys:
  assumes "sync_sys D policy y" "sy_ctl y = SWaiting i v" "advance_boundary i v joinable now now' (sy_state y) = (s, w)"
  shows "sync_sys D policy (sgo_state s (after_ctl w) y)"
proof -
  have inv: "sync_inv (sy_state y) (sy_pcs y) (SWaiting i v)" using sys_invD [OF assms(1)] assms(2) by simp
  have na: "\<not> sx_teardown_attempted (sy_exec y)" by (rule not_attempted [OF assms(1)]) (simp_all add: assms(2))
  have len: "i < length (sy_pcs y)" using assms(1,2) by (simp add: sync_sys_def sctl_ok_def)
  from assms(3) show ?thesis
  proof (cases rule: advance_boundary_cases [where D = D])
    case stopped
    show ?thesis
    proof (rule sys_keeps [OF assms(1)])
      show "sync_inv (sx_state ((sy_exec y)\<lparr> sx_state := s \<rparr>)) (sy_pcs y) (after_ctl w)"
        using steady_cancelled [OF inv stopped(2,3)] by simp
    qed (use na assms(2) stopped steady_keeps in \<open>auto simp: after_ctl_def sctl_ok_def\<close>)
  next
    case join
    show ?thesis
    proof (rule sys_keeps [OF assms(1)])
      show "sync_inv (sx_state ((sy_exec y)\<lparr> sx_state := s \<rparr>)) (sy_pcs y) (after_ctl w)"
        using all_rest [OF inv join(3,4)] join(1,2) by (simp add: after_ctl_def)
    qed (use na assms(2) join len in \<open>auto simp: after_ctl_def sctl_ok_def\<close>)
  next
    case observe
    show ?thesis
    proof (rule sys_step [OF assms(1)])
      show "sync_inv (sx_state ((sy_exec y)\<lparr> sx_state := s \<rparr>)) (sy_pcs y) (after_ctl w)"
        using all_rest [OF inv observe(3,4)] observe(1,2) by (simp add: after_ctl_def finished_inv)
      show "sync_records D policy (sx_state ((sy_exec y)\<lparr> sx_state := s \<rparr>))"
        using finished_records assms(1) observe(2) by (simp add: sync_sys_def)
    qed (use na assms(1,2) observe in \<open>auto simp: after_ctl_def sctl_ok_def joins_ok_def sync_sys_def\<close>)
  qed
qed

lemma joins_joined:
  assumes "joins_ok y" "sy_pcs y ! i = WExited" "sx_joinable ex' = (sx_joinable (sy_exec y))[i := False]"
  shows "joins_ok (sgo ex' c y)"
proof -
  have "sy_pcs y ! j = WExited" if "j < length (sy_pcs y)" "\<not> (sx_joinable (sy_exec y))[i := False] ! j" for j
    using assms(1,2) that by (cases "j = i") (auto simp: joins_ok_def)
  with assms show ?thesis by (simp add: joins_ok_def)
qed

lemma joined_sys:
  assumes "sync_sys D policy y" "sy_ctl y = SJoining i" "sy_pcs y ! i = WExited" "advance_after_join now (sy_state y) = (s, w)"
  shows "sync_sys D policy (sgo ((sy_exec y)\<lparr> sx_state := s, sx_joinable := (sx_joinable (sy_exec y))[i := False] \<rparr>) (after_ctl w) y)"
proof -
  note inv = sys_invD [OF assms(1)]
  have na: "\<not> sx_teardown_attempted (sy_exec y)" by (rule not_attempted [OF assms(1)]) (simp_all add: assms(2))
  let ?f = "set_finished (sy_state y)"
  obtain s1 late where e: "execution_expired now ''execution deadline during completion join'' ?f = (s1, late)" by fastforce
  from steady_expired [OF e, of D] have st: "steady D ?f s1" "late \<longrightarrow> ss_cancelled s1" "\<not> late \<longrightarrow> s1 = ?f" by auto
  have run: "s = (if late \<or> ss_cancelled s1 then s1 else set_finished s1)" "w = (if late \<or> ss_cancelled s1 then Return_report else Observe_now)"
    using assms(4) by (auto simp: advance_after_join_def e split: if_splits)
  have rec: "sync_records D policy ?f" using finished_records assms(1) by (simp add: sync_sys_def)
  have inv1: "sync_inv s1 (sy_pcs y) c" if "resting_ctl c" for c
    by (rule steady_resting [where c = "sy_ctl y"]) (use inv st(1) assms(2) that in \<open>simp_all add: finished_inv\<close>)
  have w: "resting_ctl (after_ctl w)" "\<not> in_teardown (after_ctl w)" "after_ctl w \<in> {SIdle, SObserve ByAdvance}"
    using run(2) by (simp_all add: after_ctl_def)
  show ?thesis
  proof (rule sys_step [OF assms(1)])
    show "sync_inv (sx_state ((sy_exec y)\<lparr> sx_state := s, sx_joinable := (sx_joinable (sy_exec y))[i := False] \<rparr>)) (sy_pcs y) (after_ctl w)"
      using inv1 [OF w(1)] run(1) by (simp add: finished_inv)
    show "sync_records D policy (sx_state ((sy_exec y)\<lparr> sx_state := s, sx_joinable := (sx_joinable (sy_exec y))[i := False] \<rparr>))"
      using region_keeps_records [OF steady_keeps [OF st(1)] rec] finished_records run(1) by simp
    show "joins_ok (sgo ((sy_exec y)\<lparr> sx_state := s, sx_joinable := (sx_joinable (sy_exec y))[i := False] \<rparr>) (after_ctl w) y)"
      by (rule joins_joined [OF _ assms(3)]) (use assms(1) in \<open>simp_all add: sync_sys_def\<close>)
    show "sctl_ok (sgo ((sy_exec y)\<lparr> sx_state := s, sx_joinable := (sx_joinable (sy_exec y))[i := False] \<rparr>) (after_ctl w) y)"
      using w(3) by (auto simp: sctl_ok_def)
  qed (use na assms(2) w run(1) st in \<open>auto simp: steady_def region_keeps_def split: if_splits\<close>)
qed

lemma grant_sys:
  assumes "sync_sys D policy y" "sy_ctl y = SIdle" "advance_grant D actor now (sy_state y) = (s, d)"
  shows "sync_sys D policy (sgo_state s (case d of Granted_to i v \<Rightarrow> SWaiting i v | _ \<Rightarrow> SIdle) y)"
proof -
  have inv: "sync_inv (sy_state y) (sy_pcs y) SIdle" using sys_invD [OF assms(1)] assms(2) by simp
  from assms(3) show ?thesis
  proof (cases rule: advance_grant_cases)
    case refused
    then have c: "(case d of Granted_to i v \<Rightarrow> SWaiting i v | _ \<Rightarrow> SIdle) = SIdle" by (cases d) auto
    show ?thesis unfolding c
    proof (rule sys_keeps [OF assms(1)])
      show "sync_inv (sx_state ((sy_exec y)\<lparr> sx_state := s \<rparr>)) (sy_pcs y) SIdle"
        using steady_resting [OF inv refused(1)] by simp
    qed (use assms(2) steady_keeps [OF refused(1)] in \<open>auto simp: sctl_ok_def\<close>)
  next
    case (granted s1 i)
    let ?t = "s1\<lparr> ss_report := (ss_report s1)\<lparr> sr_decisions := sr_decisions (ss_report s1) + 1 \<rparr> \<rparr>"
    have g: "sync_inv s (sy_pcs y) (SWaiting i (sa_version (ss_actors (sy_state y) ! i))) \<and> i < length (sy_pcs y)"
      using inv_grant [OF inv] assms(3) granted(5) by simp
    have na: "\<not> sx_teardown_attempted (sy_exec y)"
      using assms(1) granted(1,2) by (auto simp: sync_sys_def teardown_ok_def Let_def steady_def region_keeps_def)
    have "sync_records D policy s1" using region_keeps_records [OF steady_keeps [OF granted(1)]] assms(1) by (simp add: sync_sys_def)
    then have "sync_records D policy ?t" using granted(1,7,8)
      by (auto simp: sync_records_def evidence_ok_def outcome_ok_def actors_finished_def steady_def region_keeps_def)
    moreover have "region_keeps D ?t s" unfolding granted(6) by (rule region_keeps_upd_actor) simp
    ultimately have rec: "sync_records D policy s" by (rule region_keeps_records [rotated])
    have "sr_cleanup (ss_report s) = sr_cleanup (ss_report (sy_state y))" "ss_cancelled (sy_state y) \<longrightarrow> ss_cancelled s"
      using granted(1,6) by (simp_all add: steady_def region_keeps_def)
    note same = this
    have c: "(case d of Granted_to i v \<Rightarrow> SWaiting i v | _ \<Rightarrow> SIdle) = SWaiting i (sa_version (ss_actors (sy_state y) ! i))"
      using granted(5) by simp
    show ?thesis unfolding c
      by (rule sys_step [OF assms(1)]) (use g rec na same assms(1,2) in \<open>simp_all add: sctl_ok_def joins_ok_def sync_sys_def\<close>)
  qed
qed

lemma advance_step_sys:
  assumes "sync_advance_step D a y = Some y'" "sync_sys D policy y"
  shows "sync_sys D policy y'"
proof -
  note inv = sys_invD [OF assms(2)]
  consider (query) now where "sy_ctl y = SIdle" "a = AcEnabled now"
    | (grant) actor now where "sy_ctl y = SIdle" "a = AcAdvance actor now"
    | (boundary) i v now now' where "sy_ctl y = SWaiting i v" "a = AcBoundary now now'"
    | (joined) i now where "sy_ctl y = SJoining i" "a = AcJoined now"
    using assms(1) by (cases "sy_ctl y"; cases a) (simp_all add: sync_advance_step_def Let_def)
  then show ?thesis
  proof cases
    case query
    let ?s = "fst (enabled_query now (sy_state y))"
    have y': "y' = sgo_state ?s SIdle y" using assms(1) query by (simp add: sync_advance_step_def Let_def)
    have st: "steady D (sy_state y) ?s" using enabled_query_steady [of now "sy_state y" ?s "snd (enabled_query now (sy_state y))" D] by simp
    show ?thesis unfolding y'
    proof (rule sys_keeps [OF assms(2)])
      show "sync_inv (sx_state ((sy_exec y)\<lparr> sx_state := ?s \<rparr>)) (sy_pcs y) SIdle"
        using steady_resting [OF inv st] query(1) by simp
    qed (use query st steady_keeps in \<open>auto simp: sctl_ok_def\<close>)
  next
    case grant
    obtain s d where g: "advance_grant D actor now (sy_state y) = (s, d)" by fastforce
    have "y' = sgo_state s (case d of Granted_to i v \<Rightarrow> SWaiting i v | _ \<Rightarrow> SIdle) y"
      using assms(1) grant g by (auto simp: sync_advance_step_def Let_def split: decision.splits)
    with grant_sys [OF assms(2) grant(1) g] show ?thesis by simp
  next
    case boundary
    obtain s w where b: "advance_boundary i v (sx_joinable (sy_exec y) ! i) now now' (sy_state y) = (s, w)" by fastforce
    have "y' = sgo_state s (after_ctl w) y"
      using assms(1) boundary b by (auto simp: sync_advance_step_def Let_def split: if_splits)
    with boundary_sys [OF assms(2) boundary(1) b] show ?thesis by simp
  next
    case joined
    obtain s w where b: "advance_after_join now (sy_state y) = (s, w)" by fastforce
    have "sy_pcs y ! i = WExited"
      "y' = sgo ((sy_exec y)\<lparr> sx_state := s, sx_joinable := (sx_joinable (sy_exec y))[i := False] \<rparr>) (after_ctl w) y"
      using assms(1) joined b by (auto simp: sync_advance_step_def Let_def split: if_splits)
    with joined_sys [OF assms(2) joined(1) _ b] show ?thesis by simp
  qed
qed

text \<open>Cleanup, teardown and destruction.\<close>

lemma cleanup_started_cases:
  assumes "cleanup_started now s = (s', go_on)"
  shows "steady D s s' \<and> (go_on \<longrightarrow> ss_cancelled s' \<and> \<not> cleaned s) \<and> (\<not> go_on \<longrightarrow> s' = s)"
proof (cases "cleaned s")
  case True
  with assms show ?thesis by (auto simp: cleanup_started_def cleaned_def)
next
  case False
  obtain s1 late where e: "execution_expired now ''execution deadline before cleanup'' s = (s1, late)" by fastforce
  have st: "steady D s s1" using steady_expired [OF e] by blast
  let ?m = "if sr_outcome (ss_report s) = ''completed'' \<and> \<not> sr_finished (ss_report s)
     then (if sr_outcome (ss_report s1) = ''completed'' then sync_fail ''cancelled'' ''controller cancelled incomplete prefix'' s1 else s1) else s"
  have m: "steady D s ?m" using st steady_trans [OF st steady_fail] by simp
  have "s' = ?m\<lparr> ss_cancelled := True \<rparr>" "go_on"
    using assms False by (auto simp: cleanup_started_def cleaned_def Let_def e)
  moreover have "steady D ?m (?m\<lparr> ss_cancelled := True \<rparr>)" by (simp add: steady_def region_keeps_def evidence_ok_def outcome_ok_def)
  ultimately show ?thesis using steady_trans [OF m] False by simp
qed

lemma set_cleanup_records: "sync_records D policy s \<Longrightarrow> sync_records D policy (set_cleanup c s)"
  by (auto simp: sync_records_def evidence_ok_def outcome_ok_def actors_finished_def)

lemma incomplete_sys:
  assumes "sync_sys D policy y" "\<And>k. sy_ctl y \<noteq> SDestroyNext k" "sy_ctl y \<noteq> SDestroyed" "sy_ctl y \<noteq> SIdle" "\<not> in_teardown (sy_ctl y)"
  shows "sync_sys D policy (sgo (on_state cleanup_incomplete (sy_exec y)) SIdle y)"
proof (rule sys_step [OF assms(1)])
  note na = not_attempted [OF assms(1,5,3,4,2)]
  have st: "steady D (sy_state y) (cleanup_expired (sy_state y))" by simp
  have inv: "sync_inv (cleanup_expired (sy_state y)) (sy_pcs y) SIdle"
    by (rule steady_cancelled [OF sys_invD [OF assms(1)] st]) (simp add: cleanup_expired_def)
  have "sync_inv (cleanup_incomplete (sy_state y)) (sy_pcs y) SIdle \<longleftrightarrow> sync_inv (cleanup_expired (sy_state y)) (sy_pcs y) SIdle"
    by (rule sync_inv_same) (simp_all add: cleanup_incomplete_def)
  with inv show "sync_inv (sx_state (on_state cleanup_incomplete (sy_exec y))) (sy_pcs y) SIdle" by simp
  show "sync_records D policy (sx_state (on_state cleanup_incomplete (sy_exec y)))"
    using set_cleanup_records [OF region_keeps_records [OF steady_keeps [OF st]]] assms(1) by (simp add: cleanup_incomplete_def sync_sys_def)
qed (use assms not_attempted [OF assms(1,5,3,4,2)] in \<open>simp_all add: cleanup_incomplete_def cleanup_expired_def sync_sys_def joins_ok_def sctl_ok_def\<close>)

lemma late_callback_steady [simp]: "steady D s (late_callback until now s)"
  by (simp add: late_callback_def)

lemma teardown_sys:
  assumes "sync_sys D policy y" "sy_ctl y = SCleanNext k u" "length (sx_joinable (sy_exec y)) \<le> k"
  shows "sync_sys D policy (cleanup_teardown until now y)"
proof -
  have na: "\<not> sx_teardown_attempted (sy_exec y)" by (rule not_attempted [OF assms(1)]) (simp_all add: assms(2))
  have ok: "ss_cancelled (sy_state y)" "joined_below (length (sy_pcs y)) y" "sync_ok (sy_state y) (sy_pcs y)" "joins_ok y"
    "sync_records D policy (sy_state y)" "teardown_ok y"
    using assms inv_okD by (auto simp: sync_sys_def sctl_ok_def joins_ok_def)
  show ?thesis
  proof (cases "sx_acquired (sy_exec y)")
    case True
    show ?thesis
    proof (cases "until \<le> now")
      case True
      have "cleanup_teardown until now y = sgo (on_state cleanup_incomplete (sy_exec y)) SIdle y"
        using True \<open>sx_acquired (sy_exec y)\<close> na by (simp add: cleanup_teardown_def Let_def)
      then show ?thesis using incomplete_sys [OF assms(1)] assms(2) by simp
    next
      case False
      let ?ex = "(sy_exec y)\<lparr> sx_teardown_attempted := True, sx_observing := True \<rparr>"
      have y': "cleanup_teardown until now y = sgo ?ex (SInTeardown until) y"
        using False True na by (simp add: cleanup_teardown_def Let_def)
      have "sync_inv (sy_state y) (sy_pcs y) (SInTeardown until)" by (rule inv_cancelled [OF ok(3,1)])
      then show ?thesis using ok na True unfolding y'
        by (auto simp: sync_sys_def joins_ok_def sctl_ok_def teardown_ok_def Let_def)
    qed
  next
    case False
    then have y': "cleanup_teardown until now y = sgo (on_state (set_cleanup ''not_started'') (sy_exec y)) SIdle y"
      by (simp add: cleanup_teardown_def cleanup_verdict_def Let_def)
    have "sync_ok (set_cleanup ''not_started'' (sy_state y)) (sy_pcs y)" using ok(3) by (simp add: sync_ok_def)
    then show ?thesis unfolding y'
      by (intro sys_step [OF assms(1)])
        (use ok na assms(2) set_cleanup_records in \<open>simp_all add: inv_cancelled sctl_ok_def joins_ok_def\<close>)
  qed
qed

text \<open>The teardown returned or threw.\<close>

lemma torn_down_sys:
  assumes "sync_sys D policy y" "sy_ctl y = SInTeardown until"
  shows "sync_sys D policy ((sgo (cleanup_verdict (threw \<or> \<not> pg_teardown (sx_program (sy_exec y)))
      ((sy_exec y)\<lparr> sx_state := late_callback until now (sy_state y), sx_observing := False \<rparr>)) SIdle y)
    \<lparr> sy_teardowns := sy_teardowns y + (if pg_teardown (sx_program (sy_exec y)) then 1 else 0) \<rparr>)"
proof -
  let ?s = "late_callback until now (sy_state y)"
  have st: "steady D (sy_state y) ?s" by simp
  have ok: "sync_inv (sy_state y) (sy_pcs y) (sy_ctl y)" "sync_records D policy (sy_state y)" "joins_ok y" "teardown_ok y"
    "sx_teardown_attempted (sy_exec y)"
    using assms by (auto simp: sync_sys_def sctl_ok_def)
  have td: "sy_teardowns y = 0" "sx_acquired (sy_exec y)" "joined_below (length (sy_pcs y)) y" "ss_cancelled (sy_state y)"
    using ok(4,5) assms(2) by (auto simp: teardown_ok_def Let_def)
  have c: "ss_cancelled ?s" using st td(4) by (simp add: steady_def region_keeps_def)
  have "sync_ok ?s (sy_pcs y)" by (rule inv_okD [OF steady_cancelled [OF ok(1) st c, of SIdle]])
  then have inv: "sync_inv (set_cleanup v ?s) (sy_pcs y) SIdle" for v
    by (intro inv_cancelled) (use c in \<open>simp_all add: sync_ok_def\<close>)
  have rec: "sync_records D policy (set_cleanup v ?s)" for v
    by (rule set_cleanup_records [OF region_keeps_records [OF steady_keeps [OF st] ok(2)]])
  show ?thesis using inv rec ok(3,5) td c
    by (auto simp: sync_sys_def cleanup_verdict_def joins_ok_def sctl_ok_def teardown_ok_def Let_def cleaned_def)
qed

text \<open>One more thread is known to be joined.\<close>

lemma next_sys:
  assumes "sync_sys D policy y" "sy_ctl y = SCleanJoining k until" "sy_pcs y ! k = WExited"
  shows "sync_sys D policy (sgo ((sy_exec y)\<lparr> sx_state := late_callback until now (sy_state y),
     sx_joinable := (sx_joinable (sy_exec y))[k := False] \<rparr>) (SCleanNext (k + 1) until) y)"
proof -
  let ?s = "late_callback until now (sy_state y)"
  have st: "steady D (sy_state y) ?s" by simp
  have ok: "joins_ok y" "ss_cancelled (sy_state y)" "k < length (sy_pcs y)" "joined_below k y"
    using assms(1,2) by (simp_all add: sync_sys_def sctl_ok_def)
  have c: "ss_cancelled ?s" using st ok(2) by (simp add: steady_def region_keeps_def)
  have na: "\<not> sx_teardown_attempted (sy_exec y)" by (rule not_attempted [OF assms(1)]) (simp_all add: assms(2))
  let ?ex = "(sy_exec y)\<lparr> sx_state := ?s, sx_joinable := (sx_joinable (sy_exec y))[k := False] \<rparr>"
  have below: "\<not> (sx_joinable (sy_exec y))[k := False] ! i" if "i < length (sy_pcs y)" "i < k + 1" for i
    using ok(1,4) that by (cases "i = k") (auto simp: joins_ok_def)
  show ?thesis
  proof (rule sys_step [OF assms(1)])
    show "sync_inv (sx_state ?ex) (sy_pcs y) (SCleanNext (k + 1) until)"
      using steady_cancelled [OF sys_invD [OF assms(1)] st c] by simp
    show "sync_records D policy (sx_state ?ex)"
      using region_keeps_records [OF steady_keeps [OF st]] assms(1) by (simp add: sync_sys_def)
    show "joins_ok (sgo ?ex (SCleanNext (k + 1) until) y)" by (rule joins_joined [OF ok(1) assms(3)]) simp
    show "sctl_ok (sgo ?ex (SCleanNext (k + 1) until) y)" using c below by (simp add: sctl_ok_def)
  qed (use na c st in \<open>simp_all add: assms(2) steady_def region_keeps_def\<close>)
qed

lemma destroy_next_sys:
  assumes "sync_sys D policy y" "sy_ctl y = SDestroyNext k" "k < length (sx_joinable (sy_exec y))"
    and "sx_joinable (sy_exec y) ! k \<longrightarrow> sy_pcs y ! k = WExited"
  shows "sync_sys D policy (sgo ((sy_exec y)\<lparr> sx_joinable := (sx_joinable (sy_exec y))[k := False] \<rparr>) (SDestroyNext (k + 1)) y)"
proof -
  have ok: "joins_ok y" "ss_cancelled (sy_state y)" "joined_below k y" using assms(1,2) by (simp_all add: sync_sys_def sctl_ok_def)
  have ex: "sy_pcs y ! k = WExited" using ok(1) assms(3,4) by (auto simp: joins_ok_def)
  let ?ex = "(sy_exec y)\<lparr> sx_joinable := (sx_joinable (sy_exec y))[k := False] \<rparr>"
  have keep: "\<not> (sx_joinable (sy_exec y))[k := False] ! i" if "i < length (sy_pcs y)" "\<not> sx_joinable (sy_exec y) ! i \<or> i = k" for i
    using ok(1) that by (cases "i = k") (auto simp: joins_ok_def)
  have below: "\<not> (sx_joinable (sy_exec y))[k := False] ! i" if "i < length (sy_pcs y)" "i < k + 1" for i
    by (rule keep [OF that(1)]) (use ok(3) that in auto)
  show ?thesis
  proof (rule sys_step [OF assms(1)])
    show "sync_inv (sx_state ?ex) (sy_pcs y) (SDestroyNext (k + 1))"
      using inv_cancelled [OF inv_okD [OF sys_invD [OF assms(1)]] ok(2)] by simp
    show "joins_ok (sgo ?ex (SDestroyNext (k + 1)) y)" by (rule joins_joined [OF ok(1) ex]) simp
    show "sctl_ok (sgo ?ex (SDestroyNext (k + 1)) y)" using ok(2) below by (simp add: sctl_ok_def)
    show "(SDestroyNext (k + 1) = SIdle \<or> SDestroyNext (k + 1) = SDestroyed \<or> (\<exists>j. SDestroyNext (k + 1) = SDestroyNext j))
        \<and> cleaned (sx_state ?ex) \<and> (sx_acquired (sy_exec y) \<longrightarrow> sx_acquired ?ex)
        \<and> (\<forall>i < length (sy_pcs y). \<not> sx_joinable (sy_exec y) ! i \<longrightarrow> \<not> sx_joinable ?ex ! i)" if "cleaned (sy_state y)"
      using keep that by simp
  qed (use assms(1,2) in \<open>simp_all add: sync_sys_def\<close>)
qed

lemma destroyed_sys:
  assumes "sync_sys D policy y" "sy_ctl y = SDestroyNext k" "length (sx_joinable (sy_exec y)) \<le> k"
  shows "sync_sys D policy (sgo (sy_exec y) SDestroyed y)"
    and "sx_acquired (sy_exec y) \<Longrightarrow> \<not> sx_teardown_attempted (sy_exec y) \<Longrightarrow>
      sync_sys D policy ((sgo ((sy_exec y)\<lparr> sx_teardown_attempted := True, sx_observing := True \<rparr>) SDestroyed y)\<lparr> sy_teardowns := sy_teardowns y + 1 \<rparr>)"
proof -
  have ok: "joins_ok y" "ss_cancelled (sy_state y)" "joined_below (length (sy_pcs y)) y" "teardown_ok y" "sync_records D policy (sy_state y)"
    using assms by (auto simp: sync_sys_def sctl_ok_def joins_ok_def)
  have inv: "sync_inv (sy_state y) (sy_pcs y) SDestroyed" by (rule inv_cancelled [OF inv_okD [OF sys_invD [OF assms(1)]] ok(2)])
  show "sync_sys D policy (sgo (sy_exec y) SDestroyed y)"
    using inv ok assms(2) by (auto simp: sync_sys_def joins_ok_def sctl_ok_def teardown_ok_def Let_def)
  show "sync_sys D policy ((sgo ((sy_exec y)\<lparr> sx_teardown_attempted := True, sx_observing := True \<rparr>) SDestroyed y)\<lparr> sy_teardowns := sy_teardowns y + 1 \<rparr>)"
    if "sx_acquired (sy_exec y)" "\<not> sx_teardown_attempted (sy_exec y)"
    using inv ok that by (auto simp: sync_sys_def joins_ok_def sctl_ok_def teardown_ok_def Let_def)
qed

text \<open>Once cancelled, the controller may go anywhere its own bookkeeping allows.\<close>

lemma sys_cancelled:
  assumes "sync_sys D policy y" "\<And>k. sy_ctl y \<noteq> SDestroyNext k" "sy_ctl y \<noteq> SDestroyed" "\<not> in_teardown (sy_ctl y)" "\<not> in_teardown c'"
    and "steady D (sy_state y) s" "ss_cancelled s" "sctl_ok (sgo_state s c' y)"
    and "sx_teardown_attempted (sy_exec y) \<Longrightarrow> cleaned (sy_state y) \<Longrightarrow> sy_ctl y = SIdle \<Longrightarrow> c' = SIdle \<or> (\<exists>k. c' = SDestroyNext k)"
  shows "sync_sys D policy (sgo_state s c' y)"
proof (rule sys_step [OF assms(1,4,3,5)])
  show "sync_inv (sx_state ((sy_exec y)\<lparr> sx_state := s \<rparr>)) (sy_pcs y) c'"
    using steady_cancelled [OF sys_invD [OF assms(1)] assms(6,7)] by simp
  show "sync_records D policy (sx_state ((sy_exec y)\<lparr> sx_state := s \<rparr>))"
    using region_keeps_records [OF steady_keeps [OF assms(6)]] assms(1) by (simp add: sync_sys_def)
  show "joins_ok (sgo_state s c' y)" using assms(1) by (simp add: sync_sys_def joins_ok_def)
  show "sctl_ok (sgo_state s c' y)" by (rule assms(8))
  have k: "sr_cleanup (ss_report s) = sr_cleanup (ss_report (sy_state y))" using assms(6) by (simp add: steady_def region_keeps_def)
  show "(c' = SIdle \<or> c' = SDestroyed \<or> (\<exists>k. c' = SDestroyNext k)) \<and> cleaned (sx_state ((sy_exec y)\<lparr> sx_state := s \<rparr>))
      \<and> (sx_acquired (sy_exec y) \<longrightarrow> sx_acquired ((sy_exec y)\<lparr> sx_state := s \<rparr>))
      \<and> (\<forall>i < length (sy_pcs y). \<not> sx_joinable (sy_exec y) ! i \<longrightarrow> \<not> sx_joinable ((sy_exec y)\<lparr> sx_state := s \<rparr>) ! i)"
    if "sx_teardown_attempted (sy_exec y)" "cleaned (sy_state y)" "sy_ctl y = SIdle \<or> (\<exists>k. sy_ctl y = SDestroyNext k)"
    using assms(2,9) that k by (auto simp: cleaned_def)
qed (use assms(6,7) in \<open>simp_all add: steady_def region_keeps_def\<close>)

lemma cleanup_step_sys:
  assumes "sync_cleanup_step a y = Some y'" "sync_sys D policy y"
  shows "sync_sys D policy y'"
proof -
  consider (cleanup) timeout now now' where "sy_ctl y = SIdle" "a = AcCleanup timeout now now'"
    | (waited) until now where "sy_ctl y = SCleanWait until" "a = AcCleanWaited now"
    | (walk) k until now where "sy_ctl y = SCleanNext k until" "a = AcCleanNext now"
    | (joining) k until now where "sy_ctl y = SCleanJoining k until" "a = AcCleanJoined now"
    | (torn) until threw now where "sy_ctl y = SInTeardown until" "a = AcTeardown threw now"
    | (destroy) "sy_ctl y = SIdle" "a = AcDestroy"
    | (destroying) k where "sy_ctl y = SDestroyNext k" "a = AcDestroyNext"
    using assms(1) by (cases "sy_ctl y"; cases a) (simp_all add: sync_cleanup_step_def Let_def)
  then show ?thesis
  proof cases
    case cleanup
    obtain s go_on where c: "cleanup_started now' (sy_state y) = (s, go_on)" by fastforce
    note st = cleanup_started_cases [OF c, of D]
    show ?thesis
    proof (cases "timeout \<le> 0 \<or> one_hour < timeout")
      case True
      with assms cleanup show ?thesis by (simp add: sync_cleanup_step_def Let_def)
    next
      case False
      then have y': "y' = sgo_state s (if go_on then SCleanWait (now + timeout) else SIdle) y"
        using assms(1) cleanup c by (simp add: sync_cleanup_step_def Let_def)
      show ?thesis
      proof (cases go_on)
        case True
        then have "y' = sgo_state s (SCleanWait (now + timeout)) y" using y' by simp
        moreover have "sync_sys D policy (sgo_state s (SCleanWait (now + timeout)) y)"
          by (rule sys_cancelled [OF assms(2)]) (use st True cleanup in \<open>simp_all add: sctl_ok_def\<close>)
        ultimately show ?thesis by simp
      next
        case False
        then have "y' = y" using y' st cleanup(1) by simp
        with assms(2) show ?thesis by simp
      qed
    qed
  next
    case waited
    have c: "ss_cancelled (sy_state y)" using assms(2) waited by (simp add: sync_sys_def sctl_ok_def)
    have "sync_sys D policy (sgo_state (sy_state y) (SCleanNext 0 until) y)"
      by (rule sys_cancelled [OF assms(2)]) (use c waited in \<open>simp_all add: sctl_ok_def\<close>)
    moreover have "y' = sgo_state (sy_state y) (SCleanNext 0 until) y \<or> y' = sgo (on_state cleanup_incomplete (sy_exec y)) SIdle y"
      using assms(1) waited by (auto simp: sync_cleanup_step_def Let_def split: if_splits)
    ultimately show ?thesis using incomplete_sys [OF assms(2)] waited by auto
  next
    case walk
    have c: "ss_cancelled (sy_state y)" "joined_below k y" "length (sx_joinable (sy_exec y)) = length (sy_pcs y)"
      using assms(2) walk by (simp_all add: sync_sys_def sctl_ok_def joins_ok_def)
    have n: "sync_sys D policy (sgo_state (sy_state y) (SCleanNext (k + 1) until) y)"
      if "\<not> sx_joinable (sy_exec y) ! k"
      by (rule sys_cancelled [OF assms(2)]) (use c that walk in \<open>auto simp: sctl_ok_def less_Suc_eq\<close>)
    have j: "sync_sys D policy (sgo_state (sy_state y) (SCleanJoining k until) y)" if "k < length (sx_joinable (sy_exec y))"
      by (rule sys_cancelled [OF assms(2)]) (use c that walk in \<open>auto simp: sctl_ok_def\<close>)
    have i: "sync_sys D policy (sgo (on_state cleanup_incomplete (sy_exec y)) SIdle y)" using incomplete_sys [OF assms(2)] walk by simp
    show ?thesis
    proof (cases "k < length (sx_joinable (sy_exec y))")
      case True
      with assms(1) walk n j i show ?thesis by (auto simp: sync_cleanup_step_def Let_def split: if_splits)
    next
      case False
      with assms(1) walk have "y' = cleanup_teardown until now y" by (simp add: sync_cleanup_step_def Let_def)
      with teardown_sys [OF assms(2) walk(1)] False show ?thesis by simp
    qed
  next
    case joining
    then have "sy_pcs y ! k = WExited" "y' = sgo ((sy_exec y)\<lparr> sx_state := late_callback until now (sy_state y),
        sx_joinable := (sx_joinable (sy_exec y))[k := False] \<rparr>) (SCleanNext (k + 1) until) y"
      using assms(1) by (auto simp: sync_cleanup_step_def Let_def split: if_splits)
    with next_sys [OF assms(2) joining(1)] show ?thesis by simp
  next
    case torn
    with torn_down_sys [OF assms(2) torn(1), of threw now] assms(1) show ?thesis by (simp add: sync_cleanup_step_def Let_def)
  next
    case destroy
    have "sync_sys D policy (sgo_state ((sy_state y)\<lparr> ss_cancelled := True \<rparr>) (SDestroyNext 0) y)"
      by (rule sys_cancelled [OF assms(2)])
        (use destroy in \<open>simp_all add: sctl_ok_def steady_def region_keeps_def evidence_ok_def outcome_ok_def\<close>)
    with assms(1) destroy show ?thesis by (simp add: sync_cleanup_step_def Let_def)
  next
    case destroying
    show ?thesis
    proof (cases "k < length (sx_joinable (sy_exec y))")
      case True
      with destroy_next_sys [OF assms(2) destroying(1)] assms(1) destroying show ?thesis
        by (auto simp: sync_cleanup_step_def Let_def split: if_splits)
    next
      case False
      with destroyed_sys [OF assms(2) destroying(1)] assms(1) destroying show ?thesis
        by (auto simp: sync_cleanup_step_def Let_def split: if_splits)
    qed
  qed
qed

section \<open>The start\<close>

definition fresh_sync :: "SyncPolicy \<Rightarrow> SyncState \<Rightarrow> bool" where
  "fresh_sync policy s \<longleftrightarrow> ss_policy s = policy \<and> ss_events s = [] \<and> ss_observations s = [] \<and> sr_decisions (ss_report s) = 0
     \<and> \<not> sr_finished (ss_report s) \<and> sr_cleanup (ss_report s) = ''not_started'' \<and> outcome_ok s
     \<and> distinct (map sa_id (ss_actors s)) \<and> [] \<notin> sa_id ` set (ss_actors s) \<and> (\<forall>a \<in> set (ss_actors s). flags_ok None a)
     \<and> (\<forall>k r. map_of (ss_resources s) k = Some r \<longrightarrow> resource_wf r \<and> own_owner r = [])"

lemma fresh_refuse: "fresh_sync policy s \<Longrightarrow> fresh_sync policy (refuse d s) \<and> ss_cancelled (refuse d s)"
  by (simp add: fresh_sync_def refuse_def outcome_ok_def)

lemma fresh_actor:
  assumes "fresh_sync policy s" "sync_identifier a" "a \<notin> sa_id ` set (ss_actors s)"
  shows "fresh_sync policy (s\<lparr> ss_actors := ss_actors s @ [new_actor a] \<rparr>)"
  using assms by (auto simp: fresh_sync_def new_actor_def flags_ok_def outcome_ok_def sync_identifier_def)

lemma fresh_actors:
  "declare_actors seen as s = (s', b) \<Longrightarrow> fresh_sync policy s \<Longrightarrow> seen = sa_id ` set (ss_actors s) \<Longrightarrow>
     fresh_sync policy s' \<and> (if b then length (ss_actors s') = length (ss_actors s) + length as else ss_cancelled s')"
proof (induction as arbitrary: seen s)
  case (Cons a as)
  show ?case
  proof (cases "\<not> sync_identifier a \<or> a \<in> seen")
    case True
    with Cons.prems fresh_refuse show ?thesis by auto
  next
    case False
    let ?t = "s\<lparr> ss_actors := ss_actors s @ [new_actor a] \<rparr>"
    have "declare_actors (insert a seen) as ?t = (s', b)" using Cons.prems(1) False by simp
    moreover have "insert a seen = sa_id ` set (ss_actors ?t)" using Cons.prems(3) by (simp add: new_actor_def)
    ultimately show ?thesis using Cons.IH [OF _ fresh_actor [OF Cons.prems(2)]] Cons.prems(3) False by (auto split: if_splits)
  qed
qed simp

lemma fresh_resources:
  "declare_resources rs s = (s', b) \<Longrightarrow> fresh_sync policy s \<Longrightarrow>
     fresh_sync policy s' \<and> ss_actors s' = ss_actors s \<and> (\<not> b \<longrightarrow> ss_cancelled s')"
proof (induction rs arbitrary: s)
  case (Cons r rs)
  let ?bad = "\<not> sync_identifier (res_id r) \<or> map_of (ss_resources s) (res_id r) \<noteq> None
    \<or> (res_kind r \<noteq> KMutex \<and> res_kind r \<noteq> KQueue) \<or> (res_kind r = KMutex \<and> res_capacity r \<noteq> 0)
    \<or> (res_kind r = KQueue \<and> (res_capacity r = 0 \<or> 64 < res_capacity r))"
  show ?case
  proof (cases ?bad)
    case True
    then have "s' = refuse ''invalid or duplicate resource'' s" "\<not> b" using Cons.prems(1) by auto
    with fresh_refuse [OF Cons.prems(2)] show ?thesis by (simp add: refuse_def)
  next
    case False
    let ?o = "\<lparr> own_decl = r, own_owner = [], own_queue = [] \<rparr>"
    let ?t = "s\<lparr> ss_resources := om_put (res_id r) ?o (ss_resources s) \<rparr>"
    have "declare_resources rs ?t = (s', b)" using Cons.prems(1) False by auto
    moreover have "resource_wf ?o" using False by (auto simp: resource_wf_def)
    then have "fresh_sync policy ?t" using Cons.prems(2) by (simp add: fresh_sync_def outcome_ok_def)
    ultimately show ?thesis using Cons.IH [of ?t] by simp
  qed
qed simp

lemma fresh_ok: "fresh_sync policy s \<Longrightarrow> sync_ok s [] \<and> sync_records D policy s"
  by (auto simp: fresh_sync_def sync_ok_def owner_alive_def pc_at_def sync_records_def evidence_ok_def dump_law_def)

lemma fresh_expired:
  "execution_expired now l s = (s', late) \<Longrightarrow> fresh_sync policy s \<Longrightarrow> fresh_sync policy s'"
  by (cases rule: execution_expired_cases [of now l s]) (auto simp: halted_def fresh_sync_def outcome_ok_def)

lemma sync_prepare_fresh:
  assumes "sync_prepare policy adapter ceiling now now' = (s, go_on)"
  shows "fresh_sync policy s \<and> (if go_on then ss_actors s \<noteq> [] else ss_cancelled s)"
proof -
  have f0: "fresh_sync policy (new_sync policy)" by (simp add: new_sync_def fresh_sync_def outcome_ok_def)
  show ?thesis
  proof (cases "profile_ok policy adapter")
    case False
    with assms fresh_refuse [OF f0] show ?thesis by (auto simp: sync_prepare_def Let_def)
  next
    case True
    let ?s = "(new_sync policy)\<lparr> ss_deadline := Some (deadline_min (now + sp_execution_timeout policy) ceiling) \<rparr>"
    obtain s1 b1 where a: "declare_actors {} (sort (ad_actors adapter)) ?s = (s1, b1)" by fastforce
    have "fresh_sync policy ?s" by (simp add: new_sync_def fresh_sync_def outcome_ok_def)
    from fresh_actors [OF a this] have f1: "fresh_sync policy s1"
      "if b1 then length (ss_actors s1) = length (sort (ad_actors adapter)) else ss_cancelled s1" by (simp_all add: new_sync_def)
    obtain s2 b2 where r: "declare_resources (ad_resources adapter) s1 = (s2, b2)" by fastforce
    note f2 = fresh_resources [OF r f1(1)]
    obtain s3 late where e: "execution_expired now' ''execution deadline before factory'' s2 = (s3, late)" by fastforce
    have f3: "fresh_sync policy s3" using fresh_expired [OF e] f2 by blast
    have run: "(s, go_on) = (if \<not> b1 then (s1, False) else if \<not> b2 then (s2, False) else (s3, \<not> late))"
      using assms True a r e by (cases b1; cases b2) (simp_all add: sync_prepare_def Let_def)
    have "ad_actors adapter \<noteq> []" using True by (simp add: profile_ok_def)
    then have "b1 \<Longrightarrow> ss_actors s1 \<noteq> []" using f1(2) by auto
    with run f1 f2 f3 steady_expired [OF e] show ?thesis by (auto simp: steady_def split: if_splits)
  qed
qed

lemma start_sys: "sync_sys D policy (sync_start policy adapter ceiling now now')"
proof -
  obtain s go_on where p: "sync_prepare policy adapter ceiling now now' = (s, go_on)" by fastforce
  note f = sync_prepare_fresh [OF p]
  have "sync_inv s [] (if go_on then SFactory else SIdle)"
    using f fresh_ok by (auto simp: sync_inv_def sync_turn_def)
  moreover have "sync_records D policy s" "sr_cleanup (ss_report s) = ''not_started''" using f fresh_ok by (auto simp: fresh_sync_def)
  ultimately show ?thesis
    by (simp add: sync_start_def p sync_sys_def new_exec_def joins_ok_def sctl_ok_def teardown_ok_def Let_def)
qed

section \<open>Every reachable state\<close>

lemma step_sys:
  assumes "sync_step D a y = Some y'" "sync_sys D policy y"
  shows "sync_sys D policy y'"
  using assms worker_step_moves [OF _ sys_invD] worker_moves_sys start_step_sys advance_step_sys cleanup_step_sys
  unfolding sync_step_def by (metis option.case_eq_if option.collapse)

lemma reachable_sys: "sync_reachable D policy adapter y \<Longrightarrow> sync_sys D policy y"
  by (induction rule: sync_reachable.induct) (auto intro: start_sys step_sys)

end
