(* ===== verification/Sync_Properties.thy ===== *)
theory Sync_Properties
  imports Sync_Controller
begin

text \<open>
  Properties of every reachable state of the controlled synchronisation, and two runs of it.
\<close>

section \<open>What waits, and what runs\<close>

lemma resting_still:
  assumes "sync_ok s ws" "i < length ws" "resting s ws i" "\<not> ss_cancelled s"
  shows "(\<exists>st. ws ! i = WWait st \<and> sa_parked (ss_actors s ! i) \<and> \<not> request_wakes i s) \<or> ws ! i \<in> {WFinished, WExited}"
  using flags_at [OF assms(1,2)] assms(3,4) by (auto simp: resting_def flags_ok_def request_wakes_def)


text \<open>C27: while nothing is cancelled at most one actor runs application code: the one the controller granted and waits for.
  Every other actor is blocked in a request that does not wake, or its thread is over.\<close>

theorem controlled_one_runs:
  assumes "sync_reachable D policy adapter y" "\<not> ss_cancelled (sy_state y)" "i < length (sy_pcs y)"
    and "sy_pcs y ! i \<in> {WBody, WReturned, WRaised, WEnding}"
  shows "sy_ctl y = SWaiting i (sa_version (ss_actors (sy_state y) ! i)) \<and> length (sy_pcs y) = length (ss_actors (sy_state y))
    \<and> (\<forall>k < length (sy_pcs y). k \<noteq> i \<longrightarrow> (\<exists>st. sy_pcs y ! k = WWait st \<and> sa_parked (ss_actors (sy_state y) ! k) \<and> \<not> request_wakes k (sy_state y))
         \<or> sy_pcs y ! k \<in> {WFinished, WExited})"
proof -
  note inv = sys_invD [OF reachable_sys [OF assms(1)]]
  from turn_running [OF inv assms(2-4)] resting_still [OF inv_okD [OF inv] _ _ assms(2)] show ?thesis by blast
qed

section \<open>Deadlock\<close>

text \<open>An unfinished actor that nobody can help: it waits for a mutex another unfinished actor owns, for room in a full queue, or
  for a message in an empty one.\<close>

definition stuck :: "SyncState \<Rightarrow> nat \<Rightarrow> bool" where
  "stuck s i \<longleftrightarrow> (let a = ss_actors s ! i; op = pend_op (sa_pending a) in
     \<exists>r. map_of (ss_resources s) (pend_resource (sa_pending a)) = Some r \<and>
       (op = ''lock'' \<and> (\<exists>j < length (ss_actors s). j \<noteq> i \<and> sa_id (ss_actors s ! j) = own_owner r \<and> \<not> sa_finished (ss_actors s ! j))
        \<or> op = ''send'' \<and> length (own_queue r) = res_capacity (own_decl r)
        \<or> op = ''receive'' \<and> own_queue r = []))"

lemma disabled_stuck:
  assumes "sync_ok s ws" "length ws = length (ss_actors s)" "i < length ws" "resting s ws i" "\<not> sa_finished (ss_actors s ! i)"
  shows "actor_enabled s i \<longleftrightarrow> \<not> stuck s i"
proof -
  let ?a = "ss_actors s ! i" and ?op = "pend_op (sa_pending (ss_actors s ! i))"
  have parked: "sa_parked ?a" and pp: "proper_pending s ?a"
    using flags_at [OF assms(1,3)] assms(4,5) by (auto simp: resting_def flags_ok_def)
  have id: "sa_id ?a \<noteq> []" by (rule actor_id_nonempty [OF assms(1)]) (use assms(2,3) in simp)
  show ?thesis
  proof (cases "free_op ?op")
    case True
    with parked assms(5) show ?thesis by (auto simp: actor_enabled_def pending_enabled_def stuck_def free_op_def Let_def)
  next
    case False
    with pp obtain r where r: "?op \<in> {''lock'', ''unlock'', ''send'', ''receive''}" "map_of (ss_resources s) (pend_resource (sa_pending ?a)) = Some r"
      "proper_use (sa_id ?a) ?op r" by (auto simp: proper_pending_def Let_def)
    have wf: "resource_wf r" "owner_alive (ss_actors s) r" using assms(1) r(2) by (auto simp: sync_ok_def)
    have other: "(\<exists>j < length (ss_actors s). j \<noteq> i \<and> sa_id (ss_actors s ! j) = own_owner r \<and> \<not> sa_finished (ss_actors s ! j)) \<longleftrightarrow> own_owner r \<noteq> []"
      if "?op = ''lock''"
    proof
      assume "own_owner r \<noteq> []"
      with wf(2) obtain j where j: "j < length (ss_actors s)" "sa_id (ss_actors s ! j) = own_owner r" "\<not> sa_finished (ss_actors s ! j)"
        by (auto simp: owner_alive_def in_set_conv_nth)
      moreover have "j \<noteq> i" using r(3) that j(2) by (auto simp: proper_use_def Let_def)
      ultimately show "\<exists>j < length (ss_actors s). j \<noteq> i \<and> sa_id (ss_actors s ! j) = own_owner r \<and> \<not> sa_finished (ss_actors s ! j)" by blast
    qed (use actor_id_nonempty [OF assms(1)] in auto)
    have en: "actor_enabled s i \<longleftrightarrow> op_enabled (sa_id ?a) ?op r"
      using parked assms(5) False r(2) by (simp add: actor_enabled_def pending_enabled_def Let_def)
    show ?thesis
      using r wf(1) other unfolding en by (auto simp: stuck_def op_enabled_def proper_use_def resource_wf_def Let_def)
  qed
qed

lemma in_time: "ss_ended s \<or> (\<forall>d. ss_deadline s = Some d \<longrightarrow> now < d) \<Longrightarrow> execution_expired now l s = (s, False)"
  by (auto simp: execution_expired_def split: option.split)

text \<open>C26: between two decisions, before the deadline, \<^verbatim>\<open>enabled\<close> reports \<^verbatim>\<open>controlled_deadlock\<close> exactly when some actor is
  unfinished and every unfinished actor is stuck: it waits for a mutex that another unfinished actor owns, for room in a queue that
  is full, or for a message in a queue that is empty.\<close>

theorem controlled_deadlock_exact:
  assumes "sync_reachable D policy adapter y" "sy_ctl y = SIdle" "\<not> ss_cancelled (sy_state y)"
    and "ss_ended (sy_state y) \<or> (\<forall>d. ss_deadline (sy_state y) = Some d \<longrightarrow> now < d)"
    and "enabled_query now (sy_state y) = (s', ids)"
  shows "sr_outcome (ss_report s') = ''controlled_deadlock'' \<longleftrightarrow>
    (\<exists>i < length (ss_actors (sy_state y)). \<not> sa_finished (ss_actors (sy_state y) ! i)) \<and>
    (\<forall>i < length (ss_actors (sy_state y)). \<not> sa_finished (ss_actors (sy_state y) ! i) \<longrightarrow> stuck (sy_state y) i)"
proof -
  let ?s = "sy_state y"
  note sys = reachable_sys [OF assms(1)]
  note inv = sys_invD [OF sys]
  note ok = inv_okD [OF inv]
  have turn: "length (sy_pcs y) = length (ss_actors ?s)" "\<And>i. i < length (sy_pcs y) \<Longrightarrow> resting ?s (sy_pcs y) i"
    using inv_turnD [OF inv assms(3)] assms(2) by (simp_all add: sync_turn_def)
  have "outcome_ok ?s" using sys by (simp add: sync_sys_def sync_records_def)
  then have out: "sr_outcome (ss_report ?s) = ''completed''" using assms(3) by (auto simp: outcome_ok_def)
  have parked: "all_parked_or_finished ?s"
    unfolding all_parked_or_finished_def list_all_length using turn flags_at [OF ok] by (auto simp: resting_def flags_ok_def)
  have none: "enabled_ids ?s = [] \<longleftrightarrow> (\<forall>i < length (ss_actors ?s). \<not> sa_finished (ss_actors ?s ! i) \<longrightarrow> stuck ?s i)"
  proof -
    have "actor_enabled ?s i \<longleftrightarrow> \<not> sa_finished (ss_actors ?s ! i) \<and> \<not> stuck ?s i" if "i < length (ss_actors ?s)" for i
      using disabled_stuck [OF ok turn(1) _ turn(2)] turn(1) that by (auto simp: actor_enabled_def Let_def)
    then show ?thesis by (auto simp: enabled_ids_def filter_empty_conv)
  qed
  have "s' = (if enabled_ids ?s = [] \<and> \<not> actors_finished ?s
      then sync_fail ''controlled_deadlock'' ''all unfinished actors wait on declared resources'' ?s else ?s)"
    using assms(3,5) out parked in_time [OF assms(4)] by (auto simp: enabled_query_def Let_def)
  moreover have "sr_outcome (ss_report (sync_fail ''controlled_deadlock'' d ?s)) = ''controlled_deadlock''" for d
    using out by (simp add: sync_fail_def Let_def)
  ultimately have "sr_outcome (ss_report s') = ''controlled_deadlock'' \<longleftrightarrow> enabled_ids ?s = [] \<and> \<not> actors_finished ?s"
    using out by simp
  also have "\<not> actors_finished ?s \<longleftrightarrow> (\<exists>i < length (ss_actors ?s). \<not> sa_finished (ss_actors ?s ! i))"
    by (simp add: actors_finished_def list_all_length)
  finally show ?thesis using none by blast
qed

section \<open>Bounds, joins and teardown\<close>

text \<open>C30: no run makes more decisions than its policy allows, and the printed events and observations together never exceed the
  evidence bound, as long as the printer writes arrays with one comma between elements.\<close>

theorem controlled_evidence_bounded:
  assumes "sync_reachable D policy adapter y" "dump_law D" "valid_policy policy"
  shows "sr_decisions (ss_report (sy_state y)) \<le> sp_max_decisions policy
    \<and> (\<exists>e w. D (JArray (ss_events (sy_state y))) = Inr e \<and> D (JArray (ss_observations (sy_state y))) = Inr w
         \<and> length e + length w \<le> sp_max_evidence policy)"
proof -
  have "sync_records D policy (sy_state y)" using reachable_sys [OF assms(1)] by (simp add: sync_sys_def)
  moreover have "4 \<le> sp_max_evidence policy" using assms(3) by (simp add: valid_policy_def)
  ultimately show ?thesis using assms(2) by (auto simp: sync_records_def evidence_ok_def)
qed

lemma attempted_exited:
  assumes "sync_sys D policy y" "sx_teardown_attempted (sy_exec y)" "i < length (sy_pcs y)"
  shows "sy_pcs y ! i = WExited"
  using assms by (auto simp: sync_sys_def teardown_ok_def joins_ok_def Let_def)

text \<open>C29: the teardown of the application is called at most once, by the cleanup or by the destructor, only when a factory
  succeeded and every thread is over. A report that passed was given by a run whose teardown was called, whose actors all
  finished, and which left no mutex owned.\<close>

theorem controlled_teardown_once:
  assumes "sync_reachable D policy adapter y"
  shows "sy_teardowns y \<le> 1
    \<and> (sx_teardown_attempted (sy_exec y) \<or> sy_teardowns y \<noteq> 0 \<longrightarrow>
        sx_acquired (sy_exec y) \<and> (\<forall>i < length (sy_pcs y). sy_pcs y ! i = WExited))
    \<and> (sync_passed (ss_report (sy_state y)) \<longrightarrow> sy_teardowns y = 1 \<and> actors_finished (sy_state y)
        \<and> (\<forall>k r. map_of (ss_resources (sy_state y)) k = Some r \<longrightarrow> own_owner r = []))"
proof -
  note sys = reachable_sys [OF assms]
  have td: "teardown_ok y" and ok: "sync_ok (sy_state y) (sy_pcs y)" and rec: "sync_records D policy (sy_state y)"
    using sys inv_okD by (auto simp: sync_sys_def)
  have once: "sy_teardowns y \<le> 1" using td by (simp add: teardown_ok_def Let_def)
  have at: "sx_acquired (sy_exec y) \<and> (\<forall>i < length (sy_pcs y). sy_pcs y ! i = WExited)"
    if "sx_teardown_attempted (sy_exec y) \<or> sy_teardowns y \<noteq> 0"
    using that td attempted_exited [OF sys] by (auto simp: teardown_ok_def Let_def)
  have "sy_teardowns y = 1 \<and> actors_finished (sy_state y) \<and> (\<forall>k r. map_of (ss_resources (sy_state y)) k = Some r \<longrightarrow> own_owner r = [])"
    if "sync_passed (ss_report (sy_state y))"
  proof -
    have one: "sy_teardowns y = 1" and fin: "actors_finished (sy_state y)"
      using that td rec by (auto simp: sync_passed_def teardown_ok_def Let_def sync_records_def)
    have "own_owner r = []" if "map_of (ss_resources (sy_state y)) k = Some r" for k r
      using ok fin that by (auto simp: sync_ok_def owner_alive_def actors_finished_def list_all_iff)
    with one fin show ?thesis by blast
  qed
  with once at show ?thesis by blast
qed

section \<open>Two runs\<close>

text \<open>Two actors, a mutex and a queue of capacity one. In the first run actor \<open>a\<close> takes the mutex and waits for a message, and \<open>b\<close>
  waits for the mutex. In the second \<open>a\<close> takes and releases the mutex, both finish, and the cleanup is confirmed.\<close>

fun plain_dump :: "Json \<Rightarrow> string" where
  "plain_dump (JArray []) = ''[]''"
| "plain_dump (JArray (j # js)) = CHR ''['' # plain_dump j @ concat (map (\<lambda>j. CHR '','' # plain_dump j) js) @ '']''"
| "plain_dump j = ''{}''"

definition demo_dump :: json_dump where
  "demo_dump j = Inr (plain_dump j)"

definition quiet_dump :: json_dump where
  "quiet_dump j = Inr []"

definition demo_policy :: SyncPolicy where
  "demo_policy = \<lparr> sp_max_actors = 2, sp_max_resources = 2, sp_max_decisions = 8, sp_max_evidence = 256,
     sp_execution_timeout = 1000, sp_cleanup_timeout = 1000, sp_exploration_timeout = 1000 \<rparr>"

definition demo_adapter :: SyncAdapter where
  "demo_adapter = \<lparr> ad_identity = sample_identity, ad_actors = [''a'', ''b''],
     ad_resources = [\<lparr> res_id = ''m'', res_kind = KMutex, res_capacity = 0 \<rparr>, \<lparr> res_id = ''q'', res_kind = KQueue, res_capacity = 1 \<rparr>],
     ad_factory = True \<rparr>"

definition demo_program :: SyncProgram where
  "demo_program = \<lparr> pg_workers = [(''a'', True), (''b'', True)], pg_observe = True, pg_teardown = True \<rparr>"

definition demo_observe :: "sync_action list" where
  "demo_observe = [AcObserve 0, AcObserved (Some (JObject [])) 0 0 0]"

definition demo_begin :: "sync_action list" where
  "demo_begin = [AcFactory (Some demo_program) 0, AcSpawn True, AcSpawn True, AcRegister 0 10, AcRegister 1 11,
     AcRequest 0 ''start'' [] 0, AcRequest 1 ''start'' [] 0, AcBarrier 0] @ demo_observe"

definition demo_turn :: "string \<Rightarrow> nat \<Rightarrow> string \<Rightarrow> string \<Rightarrow> sync_action list" where
  "demo_turn actor i op r = [AcAdvance actor 0, AcResume i, AcRequest i op r 0, AcBoundary 0 0] @ demo_observe"

definition demo_deadlock :: "sync_action list" where
  "demo_deadlock = demo_begin @ demo_turn ''a'' 0 ''lock'' ''m'' @ demo_turn ''a'' 0 ''receive'' ''q'' @ demo_turn ''b'' 1 ''lock'' ''m''"

definition demo_finish :: "string \<Rightarrow> nat \<Rightarrow> sync_action list" where
  "demo_finish actor i = [AcAdvance actor 0, AcResume i, AcBodyEnd i True, AcRequest i ''$done'' [] 0, AcBoundary 0 0] @ demo_observe
     @ [AcAdvance actor 0, AcResume i, AcEnd i, AcExit i, AcBoundary 0 0, AcJoined 0] @ demo_observe"

definition demo_passing :: "sync_action list" where
  "demo_passing = demo_begin @ demo_turn ''a'' 0 ''lock'' ''m'' @ demo_turn ''a'' 0 ''unlock'' ''m'' @ demo_finish ''a'' 0 @ demo_finish ''b'' 1
     @ [AcCleanup 1000 0 0, AcCleanWaited 0, AcCleanNext 0, AcCleanNext 0, AcCleanNext 0, AcTeardown False 0]"

definition demo_start :: SyncSys where
  "demo_start = sync_start demo_policy demo_adapter None 0 0"


lemma demo_prepared: "sync_prepare demo_policy demo_adapter None 0 0 =
   (\<lparr> ss_actors = [new_actor ''a'', new_actor ''b''],
      ss_resources = [(''m'', \<lparr> own_decl = \<lparr> res_id = ''m'', res_kind = KMutex, res_capacity = 0 \<rparr>, own_owner = [], own_queue = [] \<rparr>),
        (''q'', \<lparr> own_decl = \<lparr> res_id = ''q'', res_kind = KQueue, res_capacity = 1 \<rparr>, own_owner = [], own_queue = [] \<rparr>)],
      ss_report = ss_report (new_sync demo_policy), ss_cancelled = False, ss_ended = False, ss_events = [], ss_observations = [],
      ss_graph = JNull, ss_policy = demo_policy, ss_deadline = Some 1000 \<rparr>, True)"
proof -
  have "identity_valid sample_identity" by code_simp
  then have ok: "profile_ok demo_policy demo_adapter"
    by (simp add: profile_ok_def demo_policy_def demo_adapter_def valid_policy_def one_hour_def)
  have s: "sort [''a'', ''b''] = [''a'', ''b'']" by code_simp
  have i: "sync_identifier ''a''" "sync_identifier ''b''" "sync_identifier ''m''" "sync_identifier ''q''" by code_simp+
  have "''m'' < (''q'' :: string)" by code_simp
  then have q: "om_put ''q'' x [(''m'', y)] = [(''m'', y), (''q'', x)]" for x y :: Owned
    using om_put_beyond [of "[(''m'', y)]" "''q''" x] by simp
  show ?thesis
    using ok s i q by (simp add: sync_prepare_def demo_adapter_def Let_def new_sync_def deadline_min_def demo_policy_def execution_expired_def)
qed


lemma demo_started: "demo_start = \<lparr> sy_exec = new_exec demo_adapter \<lparr> ss_actors = [new_actor ''a'', new_actor ''b''],
      ss_resources = [(''m'', \<lparr> own_decl = \<lparr> res_id = ''m'', res_kind = KMutex, res_capacity = 0 \<rparr>, own_owner = [], own_queue = [] \<rparr>),
        (''q'', \<lparr> own_decl = \<lparr> res_id = ''q'', res_kind = KQueue, res_capacity = 1 \<rparr>, own_owner = [], own_queue = [] \<rparr>)],
      ss_report = ss_report (new_sync demo_policy), ss_cancelled = False, ss_ended = False, ss_events = [], ss_observations = [],
      ss_graph = JNull, ss_policy = demo_policy, ss_deadline = Some 1000 \<rparr>, sy_pcs = [], sy_ctl = SFactory, sy_teardowns = 0 \<rparr>"
  by (simp add: demo_start_def sync_start_def demo_prepared)

lemma run_reachable:
  "sync_run D as y = Some y' \<Longrightarrow> sync_reachable D policy adapter y \<Longrightarrow> sync_reachable D policy adapter y'"
  by (induction as arbitrary: y) (auto split: bind_splits intro: sync_steps)

lemma demo_reachable: "sync_run D as demo_start = Some y \<Longrightarrow> sync_reachable D demo_policy demo_adapter y"
  by (erule run_reachable) (unfold demo_start_def, rule sync_begins)

lemma demo_deadlock_run:
  "map_option (\<lambda>y. (sy_ctl y, ss_cancelled (sy_state y), ss_deadline (sy_state y), map sa_finished (ss_actors (sy_state y)),
       sr_outcome (ss_report (fst (enabled_query 0 (sy_state y)))))) (sync_run quiet_dump demo_deadlock demo_start)
   = Some (SIdle, False, Some 1000, [False, False], ''controlled_deadlock'')"
  unfolding demo_started by code_simp

theorem controlled_deadlock_exact_witness:
  "\<exists>y. sync_reachable quiet_dump demo_policy demo_adapter y \<and> sr_outcome (ss_report (fst (enabled_query 0 (sy_state y)))) = ''controlled_deadlock''
     \<and> stuck (sy_state y) 0 \<and> stuck (sy_state y) 1"
proof -
  obtain y where y: "sync_run quiet_dump demo_deadlock demo_start = Some y" "sy_ctl y = SIdle" "\<not> ss_cancelled (sy_state y)"
    "ss_deadline (sy_state y) = Some 1000" "map sa_finished (ss_actors (sy_state y)) = [False, False]"
    "sr_outcome (ss_report (fst (enabled_query 0 (sy_state y)))) = ''controlled_deadlock''"
    using demo_deadlock_run by auto
  note r = demo_reachable [OF y(1)]
  have len: "length (ss_actors (sy_state y)) = 2" using y(5) by (metis length_map length_Cons list.size(3) Suc_1 One_nat_def)
  have f: "\<not> sa_finished (ss_actors (sy_state y) ! i)" if "i < 2" for i
    using arg_cong [OF y(5), of "\<lambda>l. l ! i"] len that by (auto simp: less_2_cases_iff)
  have "ss_ended (sy_state y) \<or> (\<forall>d. ss_deadline (sy_state y) = Some d \<longrightarrow> 0 < d)" using y(4) by simp
  from controlled_deadlock_exact [OF r y(2,3) this prod.collapse [symmetric]] y(6) len f
  have "stuck (sy_state y) 0" "stuck (sy_state y) 1" by auto
  with r y(6) show ?thesis by blast
qed

lemma demo_passing_run:
  "map_option (\<lambda>y. (sync_passed (ss_report (sy_state y)), length (sy_pcs y), sr_decisions (ss_report (sy_state y)))) (sync_run quiet_dump demo_passing demo_start)
   = Some (True, 2, 6)"
  unfolding demo_started by code_simp

theorem controlled_teardown_once_witness:
  "\<exists>y. sync_reachable quiet_dump demo_policy demo_adapter y \<and> sync_passed (ss_report (sy_state y)) \<and> sy_teardowns y = 1
     \<and> (\<forall>i < 2. sy_pcs y ! i = WExited)"
proof -
  obtain y where y: "sync_run quiet_dump demo_passing demo_start = Some y" "sync_passed (ss_report (sy_state y))" "length (sy_pcs y) = 2"
    using demo_passing_run by auto
  from controlled_teardown_once [OF demo_reachable [OF y(1)]] demo_reachable [OF y(1)] y(2,3) show ?thesis by (metis one_neq_zero)
qed

text \<open>The actor \<open>a\<close> is granted its start, and then runs.\<close>

lemma demo_granted_run:
  "map_option (\<lambda>y. (sy_pcs y, request_wakes 0 (sy_state y), ss_cancelled (sy_state y)))
     (sync_run quiet_dump (demo_begin @ demo_turn ''a'' 0 ''lock'' ''m'' @ [AcAdvance ''a'' 0]) demo_start)
   = Some ([WWait StBody, WWait StStart], True, False)"
  unfolding demo_started by code_simp


lemma demo_running_run:
  "map_option (\<lambda>y. (sy_pcs y, ss_cancelled (sy_state y)))
     (sync_run quiet_dump (demo_begin @ demo_turn ''a'' 0 ''lock'' ''m'' @ [AcAdvance ''a'' 0, AcResume 0]) demo_start)
   = Some ([WBody, WWait StStart], False)"
  unfolding demo_started by code_simp

theorem controlled_one_runs_witness:
  "\<exists>y. sync_reachable quiet_dump demo_policy demo_adapter y \<and> sy_pcs y ! 0 = WBody \<and> \<not> request_wakes 1 (sy_state y)"
proof -
  obtain y where y: "sync_run quiet_dump (demo_begin @ demo_turn ''a'' 0 ''lock'' ''m'' @ [AcAdvance ''a'' 0, AcResume 0]) demo_start = Some y"
    "sy_pcs y = [WBody, WWait StStart]" "\<not> ss_cancelled (sy_state y)"
    using demo_running_run by auto
  then have "0 < length (sy_pcs y)" "sy_pcs y ! 0 \<in> {WBody, WReturned, WRaised, WEnding}" "1 < length (sy_pcs y)" "sy_pcs y ! 1 = WWait StStart" by simp_all
  with controlled_one_runs [OF demo_reachable [OF y(1)] y(3) this(1,2)] demo_reachable [OF y(1)] y(2)
  show ?thesis by force
qed

lemma demo_dump_law: "dump_law demo_dump"
proof -
  have "length (plain_dump (JArray (rows @ [row]))) = length (plain_dump (JArray rows)) + length (plain_dump row) + (if rows = [] then 0 else 1)" for rows row
    by (cases rows) simp_all
  then show ?thesis by (auto simp: dump_law_def demo_dump_def)
qed

lemma demo_evidence_run:
  "map_option (\<lambda>y. (length (ss_events (sy_state y)), length (ss_observations (sy_state y)))) (sync_run demo_dump (demo_begin @ [AcAdvance ''a'' 0]) demo_start)
   = Some (1, 1)"
  unfolding demo_started by code_simp

theorem controlled_evidence_bounded_witness:
  "\<exists>y e w. sync_reachable demo_dump demo_policy demo_adapter y \<and> length (ss_events (sy_state y)) = 1 \<and> length (ss_observations (sy_state y)) = 1
     \<and> demo_dump (JArray (ss_events (sy_state y))) = Inr e \<and> demo_dump (JArray (ss_observations (sy_state y))) = Inr w \<and> length e + length w \<le> 256"
proof -
  obtain y where y: "sync_run demo_dump (demo_begin @ [AcAdvance ''a'' 0]) demo_start = Some y"
    "length (ss_events (sy_state y)) = 1" "length (ss_observations (sy_state y)) = 1"
    using demo_evidence_run by auto
  have "valid_policy demo_policy" by (simp add: valid_policy_def demo_policy_def one_hour_def)
  from controlled_evidence_bounded [OF demo_reachable [OF y(1)] demo_dump_law this] demo_reachable [OF y(1)] y(2,3)
  show ?thesis by (auto simp: demo_policy_def)
qed

end
