(* ===== verification/Spec2Isabelle.thy ===== *)
theory Spec2Isabelle
  imports Value_Codec Protocol_Messages Phase_Guard Transport_Framing Stepping_Flows Explore_Session Async_Jobs
    Negotiated_Session Spec_Resolver Net_Connect Http_Client Registry Cli_Validate Schedule_Liveness Schedule_Campaign Sync_Properties
begin

text \<open>
  A verification library for MirrorCPP, the C++ client of a model mirror: a peer process that replays the
  traces of a TLA+ specification against an implementation, or explores it, over a line protocol of JSON
  messages.

  \<^bold>\<open>The program and its theories.\<close>

  \<^item> \<open>Mirror_Prelude\<close>, \<open>Text_Model\<close>, \<open>Json_Model\<close>, \<open>Reference_Lib\<close>: results as sums with \<open>rbind\<close>, ordered maps,
    byte strings and decimal text, the document type of the JSON library and the record \<open>json_lib\<close> of what is
    used of that library, and a small concrete instance of it for evaluated runs.
  \<^item> \<open>Value_Codec\<close> (\<^verbatim>\<open>src/value.cpp\<close>, \<^verbatim>\<open>value.hpp\<close>): the value variant, its equality and the ITF codec. Shown:
    the round trip holds exactly for values without records of marker shape, decoding yields well-formed
    values, and what equality is on sets.
  \<^item> \<open>Error_Model\<close>, \<open>Protocol_Messages\<close> (\<^verbatim>\<open>error.hpp\<close>, \<^verbatim>\<open>src/protocol.cpp\<close>): error kinds, every client and mirror
    message, encoder and decoder. Shown: the encoding is unambiguous, decoding follows the tag, and the
    exceptions that can leave the decoder.
  \<^item> \<open>Phase_Guard\<close> (\<^verbatim>\<open>PhaseGuard\<close> of \<^verbatim>\<open>src/protocol.cpp\<close>): the session state machine, its refinement of the documented
    diagram, and invariants of accepted sessions by rule induction.
  \<^item> \<open>Transport_Framing\<close> (\<^verbatim>\<open>detail/line.hpp\<close>, \<^verbatim>\<open>detail/net.cpp\<close>, \<^verbatim>\<open>detail/tls.cpp\<close>, \<^verbatim>\<open>src/transport.cpp\<close>): line framing over
    sockets and TLS streams given as scripts of what the system calls return. The locales \<open>line_channel\<close> and
    \<open>live_channel\<close> are the interface the flows rely on; \<open>line_transport\<close> adds that a closed transport refuses
    everything. Shown: lines are received as sent however the bytes are cut, bounds on lines, and which lines
    are refused.
  \<^item> \<open>Stepping_Flows\<close>, \<open>Explore_Session\<close>, \<open>Async_Jobs\<close> (\<^verbatim>\<open>src/client.cpp\<close>): the stepping loop, the one-shot flows, the
    exploration session and job control over any transport that satisfies these locales. Shown: a conforming
    session completes, when connections are closed, poisoning of sessions, and the reply checks.
  \<^item> \<open>Contract_Grammar\<close>, \<open>Contract_Validation\<close> (\<^verbatim>\<open>src/model_interface.cpp\<close>): the validator of inline model-interface
    contracts, with their grammar (types, literals, paths, actions, observations, the contract) as datatypes.
    Shown: the validator accepts exactly the documents of contracts within the bounds.
  \<^item> \<open>Model_Interface\<close> (\<^verbatim>\<open>src/model_interface.cpp\<close>, \<^verbatim>\<open>model_interface.hpp\<close>): strict parsing, semantic digests, the
    verification request, the decoding of registration replies and the adapter registry. Shown: digests and
    their wire texts correspond, and what the registry resolves.
  \<^item> \<open>Negotiated_Flow\<close>, \<open>Negotiated_Session\<close> (\<^verbatim>\<open>src/client.cpp\<close>): the negotiated flows with their session-local binding.
    \<^verbatim>\<open>PrefixedTransport\<close> is shown to be a channel over every channel, so the lemmas on the stepping loop carry
    over. Shown: a matched session completes, the application is touched only when authorised, every binding is
    disposed exactly once, and when the transport is closed.
  \<^item> \<open>Spec_Resolver\<close> (\<^verbatim>\<open>src/spec.cpp\<close>): the clause scanner and the import closure; it ends on every finite file
    system and returns exactly the closure of the root.
  \<^item> \<open>Net_Connect\<close> (\<^verbatim>\<open>detail/net.cpp\<close>, \<^verbatim>\<open>detail/tls.cpp\<close>): connecting, the TLS set-up, the handshake with its deadline
    and certificate pinning.
  \<^item> \<open>C_Strtol\<close>, \<open>Http_Client\<close>, \<open>Registry\<close> (\<^verbatim>\<open>detail/http.cpp\<close>, \<^verbatim>\<open>src/registry.cpp\<close>): URL parsing, the HTTP exchange,
    registry entries and the candidate loop with its pins.
  \<^item> \<open>Cli_Validate\<close> (\<^verbatim>\<open>cli/validate.cpp\<close>): argument parsing, the dispatching transport (an interpretation of
    \<open>line_transport\<close>), \<^verbatim>\<open>main\<close> with exit code and output.
  \<^item> \<open>Schedule_Format\<close>, \<open>Schedule_Admission\<close> (\<^verbatim>\<open>src/schedule.cpp\<close>, \<^verbatim>\<open>schedule.hpp\<close>): the schedule artifact with its strict
    decoder, the encoder, and admission. Shown: round trip, strictness, and admission against a specification
    by the plan of each actor.
  \<^item> \<open>Schedule_Execution\<close>, \<open>Schedule_Machine\<close>, \<open>Schedule_Transitions\<close> (same file): the checkpoint coordinator. Each region
    the code runs under its mutex is a function, the points in between are program counters of the controller
    and of each worker, and \<open>exec_step\<close> interleaves them; \<open>exec_reachable\<close> is the set of states of all
    interleavings and all environments. \<open>Schedule_Transitions\<close> turns the step function into case rules.
  \<^item> \<open>Schedule_Safety\<close>, \<open>Schedule_Log\<close>, \<open>Schedule_Outcome\<close>, \<open>Schedule_Liveness\<close>: its invariants (first failure kept, mutual
    exclusion, quiescent observation, the log a schedule prescribes, teardown once and last), the meaning of a
    passed report, and an explicit cooperative run that reaches one for every admitted schedule.
  \<^item> \<open>Schedule_Enumeration\<close>, \<open>Schedule_Canonical\<close>, \<open>Schedule_Exploration\<close>, \<open>Schedule_Campaign\<close>
    (\<^verbatim>\<open>src/schedule_exploration.cpp\<close>): the bounded search over merges of the actors' checkpoint chains, the
    canonical text of states, and the whole campaign with its report, over any runner. Shown: the search lists
    exactly the merges within the preemption bound, canonical texts identify exactly the equal states, a
    complete campaign has run every pair and accepted every receipt, and the receipts it accepts are exactly
    those of passed runs of the coordinator.
  \<^item> \<open>Sync_State\<close>, \<open>Sync_Execution\<close>, \<open>Sync_Machine\<close>, \<open>Sync_Safety\<close> (\<^verbatim>\<open>src/schedule_sync.cpp\<close>): the controlled
    synchronisation of actors over mutexes and queues, region by region, and its interleavings \<open>sync_step\<close>. The
    invariant \<open>sync_inv\<close> says whose turn it is and bounds owners and queues.
  \<^item> \<open>Sync_Invariant\<close>, \<open>Sync_Controller\<close>, \<open>Sync_Properties\<close>: the invariant over the regions of the controller, with what it
    knows of joins, cleanup and teardown at each program counter, and over every reachable state (\<open>reachable_sys\<close>). Shown:
    a request that wakes can be served, at most one actor runs, \<^verbatim>\<open>controlled_deadlock\<close> is reported exactly when every
    unfinished actor is stuck, evidence and decisions stay within the policy, the teardown is called at most once.

  \<^bold>\<open>Conventions.\<close> Errors and exceptions are the left side of a sum; early returns are \<open>rbind\<close>. A function that may
  block or not end returns an option, \<open>None\<close> standing for it, and where the code promises to return this is a
  theorem. Machine integers are words where their width matters. What is read from outside is a parameter: the
  JSON library (\<open>json_lib\<close>, \<open>schedule_lib\<close>, with the documented laws \<open>lib_int_laws\<close>, \<open>lib_dump_laws\<close>,
  \<open>parse_print_law\<close>), the file system, the results of socket and OpenSSL calls as finite scripts, the clock, the
  stop token, and the application's callbacks. Every theorem that depends on such a law has a witness on a
  concrete instance.

  \<^bold>\<open>Not modelled.\<close> The schedule binding (\<^verbatim>\<open>schedule_binding.cpp\<close>) and the exploration of prefixes in
  \<^verbatim>\<open>schedule_sync.cpp\<close>.
  Process creation and signals (\<^verbatim>\<open>detail/process.cpp\<close>) and the Winsock paths are calls into the operating
  system; the examples and the umbrella header hold no logic of the library.
\<close>

end
